(* ===== verification/Prelude.thy ===== *)
theory Prelude
  imports Main "HOL-Library.AList" "HOL-Library.Char_ord" "HOL-Library.List_Lexorder"
    "HOL-Library.Code_Target_Nat"
begin

text \<open>
  Shared vocabulary of the development: Python strings as lists of code points, results
  with an error side, insertion-ordered dictionaries, bounded deques, order-preserving
  deduplication, and the generic locale of guarded state machines.

  A Python \<open>str\<close> is its list of code points (\<open>pystr\<close>); \<open>u\<close> turns an ASCII literal into
  one. \<open>sorted\<close> on strings is the lexicographic order by code point, which is the
  order \<open>List_Lexorder\<close> gives to lists of numbers.
\<close>

named_theorems result_simps \<open>rewriting of error results\<close>
named_theorems inv_intros \<open>preservation of component invariants\<close>

section \<open>Strings\<close>

type_synonym pystr = "nat list"

definition u :: "string \<Rightarrow> pystr" where
  "u s = map of_char s"

lemma u_Nil [simp]: "u [] = []"
  by (simp add: u_def)

lemma u_inject [simp]: "u s = u t \<longleftrightarrow> s = t"
  by (simp add: u_def inj_def inj_map_eq_map)

lemma u_eq_Nil [simp]: "u s = [] \<longleftrightarrow> s = []" "[] = u s \<longleftrightarrow> s = []"
  by (auto simp: u_def)

lemma length_u [simp]: "length (u s) = length s"
  by (simp add: u_def)

definition py_isspace :: "nat \<Rightarrow> bool" where
  "py_isspace c \<longleftrightarrow> (9 \<le> c \<and> c \<le> 13) \<or> (28 \<le> c \<and> c \<le> 32) \<or> c = 133 \<or> c = 160 \<or> c = 5760
     \<or> (8192 \<le> c \<and> c \<le> 8202) \<or> c = 8232 \<or> c = 8233 \<or> c = 8239 \<or> c = 8287 \<or> c = 12288"

definition py_strip :: "pystr \<Rightarrow> pystr" where
  "py_strip s = rev (dropWhile py_isspace (rev (dropWhile py_isspace s)))"

lemma py_strip_Nil [simp]: "py_strip [] = []"
  by (simp add: py_strip_def)

lemma py_strip_eq_Nil: "py_strip s = [] \<longleftrightarrow> (\<forall>c\<in>set s. py_isspace c)"
proof
  assume "py_strip s = []"
  then have "\<forall>c\<in>set (dropWhile py_isspace s). py_isspace c"
    by (simp add: py_strip_def dropWhile_eq_Nil_conv)
  then have "dropWhile py_isspace s = []"
    by (metis hd_dropWhile hd_in_set)
  then show "\<forall>c\<in>set s. py_isspace c" by (simp add: dropWhile_eq_Nil_conv)
next
  assume "\<forall>c\<in>set s. py_isspace c"
  then show "py_strip s = []"
    by (auto simp: py_strip_def dropWhile_eq_Nil_conv dest: set_dropWhileD)
qed

definition ascii_alnum :: "nat \<Rightarrow> bool" where
  "ascii_alnum c \<longleftrightarrow> (48 \<le> c \<and> c \<le> 57) \<or> (65 \<le> c \<and> c \<le> 90) \<or> (97 \<le> c \<and> c \<le> 122)"

definition ascii_digit :: "nat \<Rightarrow> bool" where
  "ascii_digit c \<longleftrightarrow> 48 \<le> c \<and> c \<le> 57"

definition ascii_lower :: "nat \<Rightarrow> bool" where
  "ascii_lower c \<longleftrightarrow> 97 \<le> c \<and> c \<le> 122"

definition hex_lower :: "nat \<Rightarrow> bool" where
  "hex_lower c \<longleftrightarrow> (48 \<le> c \<and> c \<le> 57) \<or> (97 \<le> c \<and> c \<le> 102)"

definition is_surrogate :: "nat \<Rightarrow> bool" where
  "is_surrogate c \<longleftrightarrow> 55296 \<le> c \<and> c \<le> 57343"

text \<open>Bytes of one code point in UTF-8; \<open>None\<close> is the UnicodeEncodeError of a lone surrogate.\<close>

definition utf8_width :: "nat \<Rightarrow> nat option" where
  "utf8_width c = (if is_surrogate c then None
     else Some (if c < 128 then 1 else if c < 2048 then 2 else if c < 65536 then 3 else 4))"

fun utf8_length :: "pystr \<Rightarrow> nat option" where
  "utf8_length [] = Some 0"
| "utf8_length (c # cs) = (case utf8_width c of None \<Rightarrow> None
     | Some w \<Rightarrow> map_option (\<lambda>n. w + n) (utf8_length cs))"

lemma utf8_length_None: "utf8_length s = None \<longleftrightarrow> (\<exists>c\<in>set s. is_surrogate c)"
  by (induction s) (auto simp: utf8_width_def)

lemma utf8_length_bounds:
  "utf8_length s = Some n \<Longrightarrow> length s \<le> n \<and> n \<le> 4 * length s"
  by (induction s arbitrary: n) (fastforce simp: utf8_width_def split: if_splits option.splits)+

section \<open>Splitting and joining\<close>

text \<open>\<open>str.split\<close> at one character, and its inverse.\<close>

fun split_at :: "nat \<Rightarrow> pystr \<Rightarrow> pystr list" where
  "split_at d [] = [[]]"
| "split_at d (c # cs) = (if c = d then [] # split_at d cs
     else (case split_at d cs of [] \<Rightarrow> [[c]] | w # ws \<Rightarrow> (c # w) # ws))"

fun join_with :: "pystr \<Rightarrow> pystr list \<Rightarrow> pystr" where
  "join_with sep [] = []"
| "join_with sep [w] = w"
| "join_with sep (w # ws) = w @ sep @ join_with sep ws"

lemma split_at_nonempty [simp]: "split_at d s \<noteq> []"
  by (induction s) (auto split: list.split)

lemma split_at_parts:
  "w \<in> set (split_at d s) \<Longrightarrow> d \<notin> set w \<and> set w \<subseteq> set s"
  by (induction s arbitrary: w) (fastforce split: list.splits if_splits)+

lemma join_split: "join_with [d] (split_at d s) = s"
proof (induction s)
  case (Cons c s)
  obtain w ws where "split_at d s = w # ws" by (cases "split_at d s") auto
  with Cons show ?case by (cases ws) auto
qed simp

lemma split_at_free: "d \<notin> set w \<Longrightarrow> split_at d w = [w]"
  by (induction w) auto

lemma split_at_append: "d \<notin> set w \<Longrightarrow> split_at d (w @ d # s) = w # split_at d s"
  by (induction w) auto

lemma split_join:
  "ws \<noteq> [] \<Longrightarrow> \<forall>w\<in>set ws. d \<notin> set w \<Longrightarrow> split_at d (join_with [d] ws) = ws"
  by (induction "[d]" ws rule: join_with.induct) (auto simp: split_at_free split_at_append)

lemma set_join: "set (join_with sep ws) \<subseteq> \<Union> (set ` set ws) \<union> set sep"
  by (induction sep ws rule: join_with.induct) auto

lemma length_join: "ws \<noteq> [] \<Longrightarrow> length (join_with [d] ws) = sum_list (map length ws) + length ws - 1"
  by (induction "[d]" ws rule: join_with.induct) auto

lemma length_join_filter:
  "filter P (split_at d s) \<noteq> [] \<Longrightarrow> length (join_with [d] (filter P (split_at d s))) \<le> length s"
proof -
  assume ne: "filter P (split_at d s) \<noteq> []"
  have "sum_list (map length (filter P ws)) \<le> sum_list (map length ws)" for ws :: "nat list list"
    by (induction ws) auto
  moreover have "length (filter P (split_at d s)) \<le> length (split_at d s)" by simp
  ultimately have "length (join_with [d] (filter P (split_at d s))) \<le> length (join_with [d] (split_at d s))"
    unfolding length_join [OF ne] length_join [OF split_at_nonempty] by (intro diff_le_mono add_mono) auto
  then show ?thesis by (simp only: join_split)
qed

text \<open>
  \<open>str.splitlines\<close>: a line ends at any of Python's line boundaries, a carriage return with the
  line feed after it is one, and no empty line follows the last boundary.
\<close>

definition line_boundary :: "nat \<Rightarrow> bool" where
  "line_boundary c \<longleftrightarrow> (10 \<le> c \<and> c \<le> 13) \<or> (28 \<le> c \<and> c \<le> 30) \<or> c = 133 \<or> c = 8232 \<or> c = 8233"

function split_lines_from :: "pystr \<Rightarrow> pystr \<Rightarrow> pystr list" where
  "split_lines_from w [] = (if w = [] then [] else [w])"
| "split_lines_from w (c # cs) =
     (if line_boundary c then w # split_lines_from [] (if c = 13 \<and> cs \<noteq> [] \<and> hd cs = 10 then tl cs else cs)
      else split_lines_from (w @ [c]) cs)"
  by pat_completeness auto
termination
  by (relation "measure (\<lambda>(w, s). length s)") (auto simp: less_Suc_eq_le)

definition split_lines :: "pystr \<Rightarrow> pystr list" where
  "split_lines s = split_lines_from [] s"

definition one_line :: "pystr \<Rightarrow> bool" where
  "one_line s \<longleftrightarrow> (\<forall>c\<in>set s. \<not> line_boundary c)"

lemma one_line_simps [simp]: "one_line []" "one_line (c # s) \<longleftrightarrow> \<not> line_boundary c \<and> one_line s"
  "one_line (s @ t) \<longleftrightarrow> one_line s \<and> one_line t"
  by (auto simp: one_line_def)

lemma split_lines_from_one:
  "one_line s \<Longrightarrow> split_lines_from w (s @ 10 # t) = (w @ s) # split_lines_from [] t"
  by (induction s arbitrary: w) (simp_all add: line_boundary_def)

lemma split_lines_from_end: "one_line s \<Longrightarrow> w @ s \<noteq> [] \<Longrightarrow> split_lines_from w s = [w @ s]"
  by (induction s arbitrary: w) simp_all

lemma split_lines_one: "one_line s \<Longrightarrow> split_lines (s @ 10 # t) = s # split_lines t"
  by (simp add: split_lines_def split_lines_from_one)

lemma split_lines_joined:
  "\<forall>l\<in>set ls. one_line l \<Longrightarrow> split_lines (concat (map (\<lambda>l. l @ [10]) ls)) = ls"
  by (induction ls) (simp_all add: split_lines_one, simp add: split_lines_def)

lemma split_lines_from_parts:
  "one_line w \<Longrightarrow> l \<in> set (split_lines_from w s) \<Longrightarrow> one_line l"
  by (induction w s rule: split_lines_from.induct) (auto split: if_splits)

lemma split_lines_parts: "l \<in> set (split_lines s) \<Longrightarrow> one_line l"
  unfolding split_lines_def by (rule split_lines_from_parts) simp_all

lemma join_one_line: "one_line sep \<Longrightarrow> \<forall>l\<in>set ls. one_line l \<Longrightarrow> one_line (join_with sep ls)"
  by (induction sep ls rule: join_with.induct) simp_all

lemma join_lines: "ls \<noteq> [] \<Longrightarrow> join_with [10] ls @ [10] = concat (map (\<lambda>l. l @ [10]) ls)"
  by (induction "[10] :: pystr" ls rule: join_with.induct) simp_all

section \<open>Results\<close>

fun bindr :: "'e + 'a \<Rightarrow> ('a \<Rightarrow> 'e + 'b) \<Rightarrow> 'e + 'b" where
  "bindr (Inl e) f = Inl e"
| "bindr (Inr x) f = f x"

definition ensure :: "bool \<Rightarrow> 'e \<Rightarrow> 'e + unit" where
  "ensure b e = (if b then Inr () else Inl e)"

lemma bindr_Inr_iff [result_simps]: "bindr m f = Inr y \<longleftrightarrow> (\<exists>x. m = Inr x \<and> f x = Inr y)"
  by (cases m) auto

lemma bindr_Inl_iff [result_simps]:
  "bindr m f = Inl e \<longleftrightarrow> m = Inl e \<or> (\<exists>x. m = Inr x \<and> f x = Inl e)"
  by (cases m) auto

lemma ensure_Inr [result_simps]: "ensure b e = Inr y \<longleftrightarrow> b"
  by (simp add: ensure_def)

lemma ensure_Inl [result_simps]: "ensure b e = Inl e' \<longleftrightarrow> \<not> b \<and> e' = e"
  by (auto simp: ensure_def)

lemma bindr_cong [fundef_cong]:
  assumes "m = m'" and "\<And>x. m' = Inr x \<Longrightarrow> f x = f' x"
  shows "bindr m f = bindr m' f'"
  using assms by (cases m') auto

text \<open>Map a fallible function over a list, stopping at the first error (a raising loop).\<close>

fun mapr :: "('a \<Rightarrow> 'e + 'b) \<Rightarrow> 'a list \<Rightarrow> 'e + 'b list" where
  "mapr f [] = Inr []"
| "mapr f (x # xs) = bindr (f x) (\<lambda>y. bindr (mapr f xs) (\<lambda>ys. Inr (y # ys)))"

lemma mapr_cong [fundef_cong]:
  assumes "xs = ys" and "\<And>x. x \<in> set ys \<Longrightarrow> f x = g x"
  shows "mapr f xs = mapr g ys"
proof -
  have "mapr f ys = mapr g ys" using assms(2)
    by (induction ys) auto
  with assms(1) show ?thesis by simp
qed

lemma mapr_Inr [result_simps]:
  "mapr f xs = Inr ys \<longleftrightarrow> list_all2 (\<lambda>x y. f x = Inr y) xs ys"
  by (induction xs arbitrary: ys) (auto simp: bindr_Inr_iff list_all2_Cons1)

lemma mapr_all: "(\<And>x. x \<in> set xs \<Longrightarrow> f x = Inr (g x)) \<Longrightarrow> mapr f xs = Inr (map g xs)"
  by (induction xs) auto

section \<open>Dictionaries in insertion order\<close>

text \<open>
  A Python \<open>dict\<close> is an association list with distinct keys: assignment replaces in place or
  appends (\<open>AList.update\<close>), deletion filters (\<open>AList.delete\<close>), lookup is \<open>map_of\<close>.
\<close>

type_synonym ('k, 'v) pydict = "('k \<times> 'v) list"

definition dict_ok :: "('k, 'v) pydict \<Rightarrow> bool" where
  "dict_ok d \<longleftrightarrow> distinct (map fst d)"

lemma dict_ok_Nil [simp]: "dict_ok []"
  by (simp add: dict_ok_def)

lemma dict_ok_update [simp]: "dict_ok d \<Longrightarrow> dict_ok (AList.update k v d)"
  by (simp add: dict_ok_def distinct_update)

lemma dict_ok_delete [simp]: "dict_ok d \<Longrightarrow> dict_ok (AList.delete k d)"
  by (simp add: dict_ok_def distinct_delete)

lemma map_of_update_iff [simp]:
  "map_of (AList.update k v d) k' = (if k' = k then Some v else map_of d k')"
  by (simp add: update_conv' )

lemma map_of_delete_iff [simp]:
  "map_of (AList.delete k d) k' = (if k' = k then None else map_of d k')"
  by (simp add: delete_conv')

lemma keys_update: "set (map fst (AList.update k v d)) = insert k (set (map fst d))"
  by (induction d) auto

lemma keys_update_present: "k \<in> set (map fst d) \<Longrightarrow> map fst (AList.update k v d) = map fst d"
  by (induction d) (auto simp: update_keys)

lemma keys_update_absent:
  "k \<notin> set (map fst d) \<Longrightarrow> AList.update k v d = d @ [(k, v)]"
  by (induction d) auto

text \<open>The interface of a dictionary, and the facts its clients use.\<close>

locale dictionary =
  fixes lookup :: "'d \<Rightarrow> 'k \<Rightarrow> 'v option"
    and assign :: "'k \<Rightarrow> 'v \<Rightarrow> 'd \<Rightarrow> 'd"
    and remove :: "'k \<Rightarrow> 'd \<Rightarrow> 'd"
    and ok :: "'d \<Rightarrow> bool"
  assumes lookup_assign: "lookup (assign k v d) k' = (if k' = k then Some v else lookup d k')"
    and lookup_remove: "lookup (remove k d) k' = (if k' = k then None else lookup d k')"
    and ok_assign: "ok d \<Longrightarrow> ok (assign k v d)"
    and ok_remove: "ok d \<Longrightarrow> ok (remove k d)"
begin

lemma insert_lookup_same: "lookup (assign k v d) k = Some v"
  by (simp add: lookup_assign)

lemma assign_twice: "lookup (assign k v (assign k w d)) = lookup (assign k v d)"
  by (rule ext) (simp add: lookup_assign)

lemma assign_commute: "k \<noteq> k' \<Longrightarrow> lookup (assign k v (assign k' w d)) = lookup (assign k' w (assign k v d))"
  by (rule ext) (simp add: lookup_assign)

lemma remove_assign: "lookup (remove k (assign k v d)) = lookup (remove k d)"
  by (rule ext) (simp add: lookup_assign lookup_remove)

lemma foldl_assign_other:
  "k \<notin> set ks \<Longrightarrow> lookup (foldl (\<lambda>d k. assign k (f k) d) d ks) k = lookup d k"
  by (induction ks arbitrary: d) (simp_all add: lookup_assign)

lemma foldl_assign:
  "lookup (foldl (\<lambda>d k. assign k (f k) d) d ks) k = (if k \<in> set ks then Some (f k) else lookup d k)"
  by (induction ks arbitrary: d) (simp_all add: lookup_assign)

lemma ok_foldl_assign: "ok d \<Longrightarrow> ok (foldl (\<lambda>d k. assign k (f k) d) d ks)"
  by (induction ks arbitrary: d) (simp_all add: ok_assign)

end

interpretation dict: dictionary map_of AList.update AList.delete dict_ok
  by unfold_locales simp_all

section \<open>Bounded deques\<close>

text \<open>\<open>collections.deque(maxlen=n)\<close>: appending to a full deque drops the oldest element.\<close>

definition lastn :: "nat \<Rightarrow> 'a list \<Rightarrow> 'a list" where
  "lastn n xs = drop (length xs - n) xs"

definition dq_append :: "nat \<Rightarrow> 'a list \<Rightarrow> 'a \<Rightarrow> 'a list" where
  "dq_append n xs x = (if n = 0 then [] else if length xs \<ge> n then tl xs @ [x] else xs @ [x])"

definition dq_extend :: "nat \<Rightarrow> 'a list \<Rightarrow> 'a list \<Rightarrow> 'a list" where
  "dq_extend n xs ys = foldl (dq_append n) xs ys"

lemma length_lastn [simp]: "length (lastn n xs) = min n (length xs)"
  by (simp add: lastn_def)

lemma lastn_short: "length xs \<le> n \<Longrightarrow> lastn n xs = xs"
  by (simp add: lastn_def)

lemma set_lastn: "set (lastn n xs) \<subseteq> set xs"
  by (simp add: lastn_def set_drop_subset)

lemma dq_append_lastn: "dq_append n (lastn n xs) x = lastn n (xs @ [x])"
proof (cases "n = 0")
  case True
  then show ?thesis by (simp add: dq_append_def lastn_def)
next
  case False
  show ?thesis
  proof (cases "length xs \<ge> n")
    case True
    with False have "tl (drop (length xs - n) xs) = drop (Suc (length xs) - n) xs"
      by (simp add: Suc_diff_le drop_Suc tl_drop)
    with True False show ?thesis by (simp add: dq_append_def lastn_def)
  qed (use False in \<open>auto simp: dq_append_def lastn_def\<close>)
qed

lemma dq_extend_lastn: "dq_extend n (lastn n xs) ys = lastn n (xs @ ys)"
  unfolding dq_extend_def
proof (induction ys arbitrary: xs)
  case (Cons y ys)
  then show ?case using Cons.IH [of "xs @ [y]"] by (simp add: dq_append_lastn)
qed simp

lemma dq_append_length: "length xs \<le> n \<Longrightarrow> length (dq_append n xs x) \<le> n"
  by (auto simp: dq_append_def)

lemma dq_append_nonempty [simp]: "0 < n \<Longrightarrow> x \<in> set (dq_append n xs x)"
  by (auto simp: dq_append_def)

lemma dq_append_last: "0 < n \<Longrightarrow> last (dq_append n xs x) = x"
  by (auto simp: dq_append_def)

lemma dq_append_set: "set (dq_append n xs x) \<subseteq> insert x (set xs)"
  by (auto simp: dq_append_def dest: list.set_sel(2) [rotated])

text \<open>
  The contract every bounded history of the program has: what it holds is the newest
  entries of everything ever recorded.
\<close>

locale bounded_log =
  fixes record_one :: "'a \<Rightarrow> 's \<Rightarrow> 's"
    and entries :: "'s \<Rightarrow> 'a list"
    and capacity :: "'s \<Rightarrow> nat"
  assumes entries_record: "entries (record_one x s) = dq_append (capacity s) (entries s) x"
    and capacity_record: "capacity (record_one x s) = capacity s"
begin

lemma capacity_records: "capacity (fold record_one xs s) = capacity s"
  by (induction xs arbitrary: s) (simp_all add: capacity_record)

lemma entries_records:
  "entries s = lastn (capacity s) old \<Longrightarrow>
     entries (fold record_one xs s) = lastn (capacity s) (old @ xs)"
proof (induction xs arbitrary: s old)
  case (Cons x xs)
  then have "entries (record_one x s) = lastn (capacity (record_one x s)) (old @ [x])"
    by (simp add: entries_record capacity_record dq_append_lastn)
  from Cons.IH [OF this] show ?case by (simp add: capacity_record)
qed simp

lemma bounded_records:
  "length (entries s) \<le> capacity s \<Longrightarrow> length (entries (fold record_one xs s)) \<le> capacity s"
proof (induction xs arbitrary: s)
  case (Cons x xs)
  then show ?case
    using Cons.IH [of "record_one x s"]
    by (simp add: entries_record capacity_record dq_append_length)
qed simp

end

section \<open>Order-preserving deduplication\<close>

text \<open>\<open>list(dict.fromkeys(xs))\<close>: the first occurrence of each element, in order.\<close>

fun fromkeys :: "'a list \<Rightarrow> 'a list" where
  "fromkeys [] = []"
| "fromkeys (x # xs) = x # filter (\<lambda>y. y \<noteq> x) (fromkeys xs)"

lemma set_fromkeys [simp]: "set (fromkeys xs) = set xs"
  by (induction xs) auto

lemma distinct_fromkeys [simp]: "distinct (fromkeys xs)"
  by (induction xs) auto

lemma fromkeys_distinct: "distinct xs \<Longrightarrow> fromkeys xs = xs"
  by (induction xs) (auto intro: filter_True)

section \<open>Guarded state machines\<close>

text \<open>
  Operations that keep an invariant, each alone: then every sequence of operations keeps
  it. Components whose operations are a datatype of calls instantiate this once.
\<close>

locale guarded_machine =
  fixes step :: "'s \<Rightarrow> 'op \<Rightarrow> 's"
    and inv :: "'s \<Rightarrow> bool"
  assumes step_inv: "inv s \<Longrightarrow> inv (step s x)"
begin

lemma run_inv: "inv s \<Longrightarrow> inv (foldl step s xs)"
  by (induction xs arbitrary: s) (simp_all add: step_inv)

lemma prefix_inv: "inv s \<Longrightarrow> inv (foldl step s (take n xs))"
  by (rule run_inv)

end

section \<open>Labelled transition systems\<close>

text \<open>
  Threads that interleave are a step relation with labels; a run is a sequence of steps. A
  system with an invariant instantiates the locale once, and every run keeps the invariant.
\<close>

inductive lrun :: "('s \<Rightarrow> 'l \<Rightarrow> 's \<Rightarrow> bool) \<Rightarrow> 's \<Rightarrow> 'l list \<Rightarrow> 's \<Rightarrow> bool" for step where
  lrun_Nil: "lrun step s [] s"
| lrun_Cons: "step s l s' \<Longrightarrow> lrun step s' ls s'' \<Longrightarrow> lrun step s (l # ls) s''"

inductive_simps lrun_Nil_iff [simp]: "lrun step s [] s'"
inductive_simps lrun_Cons_iff: "lrun step s (l # ls) s''"

lemma lrun_append: "lrun step s ls s' \<Longrightarrow> lrun step s' ls' s'' \<Longrightarrow> lrun step s (ls @ ls') s''"
  by (induction rule: lrun.induct) (auto intro: lrun.intros)

locale labelled_system =
  fixes step :: "'s \<Rightarrow> 'l \<Rightarrow> 's \<Rightarrow> bool"
    and inv :: "'s \<Rightarrow> bool"
  assumes step_inv: "step s l s' \<Longrightarrow> inv s \<Longrightarrow> inv s'"
begin

lemma run_inv: "lrun step s ls s' \<Longrightarrow> inv s \<Longrightarrow> inv s'"
  by (induction rule: lrun.induct) (simp_all add: step_inv)

text \<open>What every step preserves under the invariant, every run preserves.\<close>

lemma run_keeps:
  assumes "lrun step s ls s'" and "inv s" and "P s"
    and "\<And>a l b. step a l b \<Longrightarrow> inv a \<Longrightarrow> P a \<Longrightarrow> P b"
  shows "P s'"
  using assms(1-3) by (induction rule: lrun.induct) (simp_all add: step_inv assms(4))

end

section \<open>Wire formats\<close>

text \<open>
  The contract of every dictionary form of the program: decoding what was encoded gives the
  value back, and whatever decodes is valid.
\<close>

locale wire_format =
  fixes encode :: "'r \<Rightarrow> 'w"
    and decode :: "'w \<Rightarrow> 'e + 'r"
    and valid :: "'r \<Rightarrow> bool"
  assumes decode_encode: "valid r \<Longrightarrow> decode (encode r) = Inr r"
    and decode_valid: "decode w = Inr r \<Longrightarrow> valid r"
begin

lemma valid_iff: "valid r \<longleftrightarrow> decode (encode r) = Inr r"
  using decode_encode decode_valid by blast

lemma encode_inj: "valid r \<Longrightarrow> valid s \<Longrightarrow> encode r = encode s \<Longrightarrow> r = s"
  by (metis decode_encode sum.inject(2))

lemma reencode: "decode w = Inr r \<Longrightarrow> decode (encode r) = Inr r"
  by (rule decode_encode) (rule decode_valid)

lemma decode_all: "\<forall>r\<in>set rs. valid r \<Longrightarrow> mapr decode (map encode rs) = Inr rs"
  by (induction rs) (simp_all add: decode_encode)

end

end
