(* ===== verification/Py_Value.thy ===== *)
theory Py_Value
  imports Complex_Main Prelude
begin

text \<open>
  Python objects as far as the validators of the program inspect them: the JSON-like values,
  tuples, and \<open>POther\<close> for any other object. A float is its exact rational value together
  with the text \<open>json.dumps\<close> prints for it, or a non-finite value.
\<close>

datatype pyfloat = Fin rat pystr | NonFin pystr

datatype pyval =
    PNone
  | PBool bool
  | PInt int
  | PFloat pyfloat
  | PStr pystr
  | PList "pyval list"
  | PTuple "pyval list"
  | PDict "(pyval \<times> pyval) list"
  | POther nat

section \<open>Type tests\<close>

text \<open>\<open>isinstance(v, int)\<close> is true for booleans; \<open>type(v) is int\<close> is not.\<close>

fun as_str :: "pyval \<Rightarrow> pystr option" where
  "as_str (PStr s) = Some s"
| "as_str _ = None"

fun as_int :: "pyval \<Rightarrow> int option" where
  "as_int (PInt i) = Some i"
| "as_int _ = None"

fun as_bool :: "pyval \<Rightarrow> bool option" where
  "as_bool (PBool b) = Some b"
| "as_bool _ = None"

fun as_mapping :: "pyval \<Rightarrow> (pyval \<times> pyval) list option" where
  "as_mapping (PDict d) = Some d"
| "as_mapping _ = None"

fun as_list :: "pyval \<Rightarrow> pyval list option" where
  "as_list (PList xs) = Some xs"
| "as_list _ = None"

fun as_tuple :: "pyval \<Rightarrow> pyval list option" where
  "as_tuple (PTuple xs) = Some xs"
| "as_tuple _ = None"

fun as_seq :: "pyval \<Rightarrow> pyval list option" where
  "as_seq (PList xs) = Some xs"
| "as_seq (PTuple xs) = Some xs"
| "as_seq _ = None"

lemma as_str_Some [simp]: "as_str v = Some s \<longleftrightarrow> v = PStr s"
  by (cases v) auto

lemma as_int_Some [simp]: "as_int v = Some i \<longleftrightarrow> v = PInt i"
  by (cases v) auto

lemma as_bool_Some [simp]: "as_bool v = Some b \<longleftrightarrow> v = PBool b"
  by (cases v) auto

lemma as_mapping_Some [simp]: "as_mapping v = Some d \<longleftrightarrow> v = PDict d"
  by (cases v) auto

lemma as_list_Some [simp]: "as_list v = Some xs \<longleftrightarrow> v = PList xs"
  by (cases v) auto

lemma as_tuple_Some [simp]: "as_tuple v = Some xs \<longleftrightarrow> v = PTuple xs"
  by (cases v) auto

definition none_or :: "('a \<Rightarrow> bool) \<Rightarrow> 'a option \<Rightarrow> bool" where
  "none_or p x = (case x of None \<Rightarrow> True | Some y \<Rightarrow> p y)"

lemma none_or_simps [simp]: "none_or p None" "none_or p (Some y) = p y"
  by (simp_all add: none_or_def)

fun truthy :: "pyval \<Rightarrow> bool" where
  "truthy PNone = False"
| "truthy (PBool b) = b"
| "truthy (PInt i) = (i \<noteq> 0)"
| "truthy (PFloat (Fin r _)) = (r \<noteq> 0)"
| "truthy (PFloat (NonFin _)) = True"
| "truthy (PStr s) = (s \<noteq> [])"
| "truthy (PList xs) = (xs \<noteq> [])"
| "truthy (PTuple xs) = (xs \<noteq> [])"
| "truthy (PDict d) = (d \<noteq> [])"
| "truthy (POther _) = True"

text \<open>\<open>d.get(key)\<close> for a string key.\<close>

definition field :: "(pyval \<times> pyval) list \<Rightarrow> string \<Rightarrow> pyval option" where
  "field d k = map_of d (PStr (u k))"

lemma field_Nil [simp]: "field [] k = None"
  by (simp add: field_def)

lemma field_Cons [simp]:
  "field ((PStr (u k'), v) # d) k = (if k' = k then Some v else field d k)"
  by (simp add: field_def)

text \<open>\<open>d.get(key, default)\<close>.\<close>

definition get_default :: "(pyval \<times> pyval) list \<Rightarrow> string \<Rightarrow> pyval \<Rightarrow> pyval" where
  "get_default d k v = (case field d k of None \<Rightarrow> v | Some w \<Rightarrow> w)"

lemma size_dict_member: "(k, v) \<in> set d \<Longrightarrow> size v < size (PDict d)"
  by (induction d) auto

lemma size_field: "field d k = Some v \<Longrightarrow> size v < size (PDict d)"
  unfolding field_def by (drule map_of_SomeD) (rule size_dict_member)

section \<open>Equality\<close>

text \<open>
  Python's \<open>==\<close>: numbers (booleans included) compare by value, a NaN differs from itself, lists
  differ from tuples, and mappings compare regardless of order.
\<close>

fun num_val :: "pyval \<Rightarrow> rat option" where
  "num_val (PBool b) = Some (if b then 1 else 0)"
| "num_val (PInt i) = Some (of_int i)"
| "num_val (PFloat (Fin r _)) = Some r"
| "num_val _ = None"

primrec py_eq :: "pyval \<Rightarrow> pyval \<Rightarrow> bool" where
  "py_eq PNone w = (w = PNone)"
| "py_eq (PBool b) w = (num_val w = Some (if b then 1 else 0))"
| "py_eq (PInt i) w = (num_val w = Some (of_int i))"
| "py_eq (PFloat f) w = (case f of
     Fin r t \<Rightarrow> num_val w = Some r
   | NonFin t \<Rightarrow> w = PFloat (NonFin t) \<and> t \<noteq> u ''NaN'')"
| "py_eq (PStr s) w = (w = PStr s)"
| "py_eq (PList xs) w = (case w of
     PList ys \<Rightarrow> list_all2 (\<lambda>p y. p y) (map py_eq xs) ys | _ \<Rightarrow> False)"
| "py_eq (PTuple xs) w = (case w of
     PTuple ys \<Rightarrow> list_all2 (\<lambda>p y. p y) (map py_eq xs) ys | _ \<Rightarrow> False)"
| "py_eq (PDict d) w = (case w of
     PDict e \<Rightarrow> length d = length e \<and>
       list_all (\<lambda>(pk, pv). list_ex (\<lambda>(k, v). pk k \<and> pv v) e) (map (map_prod py_eq py_eq) d)
   | _ \<Rightarrow> False)"
| "py_eq (POther n) w = (w = POther n)"

lemma py_eq_str_iff [simp]: "py_eq v (PStr s) \<longleftrightarrow> v = PStr s"
  by (cases v) (auto split: pyfloat.splits)

end
