(* ===== verification/Worker_Protocol.thy ===== *)
theory Worker_Protocol
  imports Py_Value
begin

text \<open>
  The worker protocol of \<open>src/core/contracts/worker_protocol.py\<close>: the request, event and task
  record exchanged with child workers, their validators and dictionary forms, and the rule
  that a terminal record never changes. \<open>datetime.fromisoformat\<close> is a parameter \<open>parse_iso\<close>: \<open>None\<close> is
  its ValueError, \<open>Some b\<close> tells whether the result has a timezone. The constructors take the
  raw values (\<open>pyval\<close>) they are called with; the version field stays raw, because the code
  compares it with \<open>!=\<close> only.
\<close>

section \<open>Validators\<close>

datatype worker_error =
    InvalidField string | NotObject string | BadFields string | UnsupportedValue string
  | TerminalRecord | UpdatedAtManaged | TerminationUnconfirmed

datatype task_status = Queued | Running | Succeeded | Failed | Timeout | Cancelled | Crashed

fun is_terminal :: "task_status \<Rightarrow> bool" where
  "is_terminal Queued = False"
| "is_terminal Running = False"
| "is_terminal _ = True"

definition status_value :: "task_status \<Rightarrow> string" where
  "status_value s = (case s of Queued \<Rightarrow> ''queued'' | Running \<Rightarrow> ''running'' | Succeeded \<Rightarrow> ''succeeded''
     | Failed \<Rightarrow> ''failed'' | Timeout \<Rightarrow> ''timeout'' | Cancelled \<Rightarrow> ''cancelled'' | Crashed \<Rightarrow> ''crashed'')"

datatype event_kind = Started | Heartbeat | Result | Failure

definition kind_value :: "event_kind \<Rightarrow> string" where
  "kind_value k = (case k of Started \<Rightarrow> ''started'' | Heartbeat \<Rightarrow> ''heartbeat''
     | Result \<Rightarrow> ''result'' | Failure \<Rightarrow> ''failure'')"

text \<open>\<open>SomeEnum(value)\<close> for an enum of strings.\<close>

definition enum_of :: "('a \<Rightarrow> string) \<Rightarrow> 'a list \<Rightarrow> pyval \<Rightarrow> 'a option" where
  "enum_of value xs v = (case v of
       PStr s \<Rightarrow> List.find (\<lambda>x. u (value x) = s) xs
     | _ \<Rightarrow> None)"

definition all_statuses :: "task_status list" where
  "all_statuses = [Queued, Running, Succeeded, Failed, Timeout, Cancelled, Crashed]"

definition all_kinds :: "event_kind list" where
  "all_kinds = [Started, Heartbeat, Result, Failure]"

definition WORKER_PROTOCOL_VERSION :: int where "WORKER_PROTOCOL_VERSION = 1"

definition MAX_WORKER_PROMPT_BYTES :: nat where "MAX_WORKER_PROMPT_BYTES = 32 * 1024"

definition need :: "'a option \<Rightarrow> 'e \<Rightarrow> 'e + 'a" where
  "need x e = (case x of None \<Rightarrow> Inl e | Some y \<Rightarrow> Inr y)"

lemma need_Inr [result_simps]: "need x e = Inr y \<longleftrightarrow> x = Some y"
  by (cases x) (simp_all add: need_def)

definition check_version :: "pyval \<Rightarrow> worker_error + unit" where
  "check_version v = ensure (py_eq v (PInt WORKER_PROTOCOL_VERSION)) (InvalidField ''protocol_version'')"

definition replace_Z :: "pystr \<Rightarrow> pystr" where
  "replace_Z s = concat (map (\<lambda>c. if c = 90 then u ''+00:00'' else [c]) s)"

definition validate_timestamp :: "(pystr \<Rightarrow> bool option) \<Rightarrow> pyval \<Rightarrow> string \<Rightarrow> worker_error + pystr" where
  "validate_timestamp parse_iso v f = (case v of
       PStr s \<Rightarrow> if parse_iso (replace_Z s) = Some True then Inr s else Inl (InvalidField f)
     | _ \<Rightarrow> Inl (InvalidField f))"

definition identifier_char :: "nat \<Rightarrow> bool" where
  "identifier_char c \<longleftrightarrow> ascii_alnum c \<or> c = 46 \<or> c = 95 \<or> c = 58 \<or> c = 45"

definition is_identifier :: "pystr \<Rightarrow> bool" where
  "is_identifier s \<longleftrightarrow> s \<noteq> [] \<and> ascii_alnum (hd s) \<and> length s \<le> 128 \<and> (\<forall>c\<in>set s. identifier_char c)"

definition validate_identifier_w :: "pyval \<Rightarrow> string \<Rightarrow> worker_error + pystr" where
  "validate_identifier_w v f = (case v of
       PStr s \<Rightarrow> if is_identifier s then Inr s else Inl (InvalidField f)
     | _ \<Rightarrow> Inl (InvalidField f))"

definition validate_text :: "pyval \<Rightarrow> string \<Rightarrow> nat option \<Rightarrow> worker_error + pystr" where
  "validate_text v f max_bytes = (case v of
       PStr s \<Rightarrow>
         if py_strip s = [] then Inl (InvalidField f)
         else (case max_bytes of
             None \<Rightarrow> Inr s
           | Some m \<Rightarrow> (case utf8_length s of
               None \<Rightarrow> Inl (InvalidField f)
             | Some n \<Rightarrow> if n > m then Inl (InvalidField f) else Inr s))
     | _ \<Rightarrow> Inl (InvalidField f))"

definition validate_timeout :: "pyval \<Rightarrow> worker_error + int" where
  "validate_timeout v = (case v of
       PInt n \<Rightarrow> if 1 \<le> n \<and> n \<le> 300 then Inr n else Inl (InvalidField ''timeout_seconds'')
     | _ \<Rightarrow> Inl (InvalidField ''timeout_seconds''))"

definition strict_mapping :: "pyval \<Rightarrow> string list \<Rightarrow> string \<Rightarrow> worker_error + (pyval \<times> pyval) list" where
  "strict_mapping v expected f = (case as_mapping v of
       None \<Rightarrow> Inl (NotObject f)
     | Some d \<Rightarrow> if fst ` set d = set (map (\<lambda>k. PStr (u k)) expected) then Inr d else Inl (BadFields f))"

text \<open>A value that may be \<open>None\<close>.\<close>

definition opt_value :: "('a \<Rightarrow> pyval) \<Rightarrow> 'a option \<Rightarrow> pyval" where
  "opt_value f x = (case x of None \<Rightarrow> PNone | Some y \<Rightarrow> f y)"

lemma opt_value_simps [simp]: "opt_value f None = PNone" "opt_value f (Some x) = f x"
  by (simp_all add: opt_value_def)

definition item_of :: "(pyval \<times> pyval) list \<Rightarrow> string \<Rightarrow> pyval" where
  "item_of d k = the (field d k)"

section \<open>Requests\<close>

record task_request =
  req_version :: pyval
  req_task_id :: pystr
  req_attempt_id :: pystr
  req_role_name :: pystr
  req_prompt :: pystr
  req_timeout :: int
  req_created_at :: pystr

definition WorkerTaskRequest :: "(pystr \<Rightarrow> bool option) \<Rightarrow> pyval \<Rightarrow> pyval \<Rightarrow> pyval \<Rightarrow> pyval \<Rightarrow> pyval
    \<Rightarrow> pyval \<Rightarrow> pyval \<Rightarrow> worker_error + task_request" where
  "WorkerTaskRequest parse_iso ver tid aid role prompt secs created =
     bindr (check_version ver) (\<lambda>_.
     bindr (validate_identifier_w tid ''task_id'') (\<lambda>t.
     bindr (validate_identifier_w aid ''attempt_id'') (\<lambda>a.
     bindr (validate_identifier_w role ''role_name'') (\<lambda>r.
     bindr (validate_text prompt ''prompt'' (Some MAX_WORKER_PROMPT_BYTES)) (\<lambda>p.
     bindr (validate_timeout secs) (\<lambda>s.
     bindr (validate_timestamp parse_iso created ''created_at'') (\<lambda>c.
       Inr \<lparr>req_version = ver, req_task_id = t, req_attempt_id = a, req_role_name = r,
            req_prompt = p, req_timeout = s, req_created_at = c\<rparr>)))))))"

text \<open>\<open>new\<close>: a missing or empty id is replaced by a fresh one (\<open>t0\<close>, \<open>a0\<close>), as \<open>or\<close> does.\<close>

definition new_request :: "(pystr \<Rightarrow> bool option) \<Rightarrow> pystr \<Rightarrow> pystr \<Rightarrow> pystr \<Rightarrow> pyval \<Rightarrow> pyval \<Rightarrow> pyval
    \<Rightarrow> pyval \<Rightarrow> pyval \<Rightarrow> worker_error + task_request" where
  "new_request parse_iso now t0 a0 role prompt secs tid aid =
     WorkerTaskRequest parse_iso (PInt WORKER_PROTOCOL_VERSION)
       (if truthy tid then tid else PStr t0) (if truthy aid then aid else PStr a0)
       role prompt secs (PStr now)"

definition request_fields :: "string list" where
  "request_fields = [''protocol_version'', ''task_id'', ''attempt_id'', ''role_name'', ''prompt'',
     ''timeout_seconds'', ''created_at'']"

definition request_to_dict :: "task_request \<Rightarrow> pyval" where
  "request_to_dict r = PDict [
     (PStr (u ''protocol_version''), req_version r),
     (PStr (u ''task_id''), PStr (req_task_id r)),
     (PStr (u ''attempt_id''), PStr (req_attempt_id r)),
     (PStr (u ''role_name''), PStr (req_role_name r)),
     (PStr (u ''prompt''), PStr (req_prompt r)),
     (PStr (u ''timeout_seconds''), PInt (req_timeout r)),
     (PStr (u ''created_at''), PStr (req_created_at r))]"

definition request_from_dict :: "(pystr \<Rightarrow> bool option) \<Rightarrow> pyval \<Rightarrow> worker_error + task_request" where
  "request_from_dict parse_iso v =
     bindr (strict_mapping v request_fields ''worker request'') (\<lambda>d.
       WorkerTaskRequest parse_iso (item_of d ''protocol_version'') (item_of d ''task_id'')
         (item_of d ''attempt_id'') (item_of d ''role_name'') (item_of d ''prompt'')
         (item_of d ''timeout_seconds'') (item_of d ''created_at''))"


section \<open>Events\<close>

record worker_event =
  ev_version :: pyval
  ev_task_id :: pystr
  ev_attempt_id :: pystr
  ev_sequence :: int
  ev_kind :: event_kind
  ev_timestamp :: pystr
  ev_payload :: "(pyval \<times> pyval) list"

definition int_at_least :: "int \<Rightarrow> pyval \<Rightarrow> string \<Rightarrow> worker_error + int" where
  "int_at_least lo v f = (case v of
       PInt n \<Rightarrow> if n < lo then Inl (InvalidField f) else Inr n
     | _ \<Rightarrow> Inl (InvalidField f))"

text \<open>\<open>kind = None\<close> is a value that is not a \<open>WorkerEventKind\<close>.\<close>

definition WorkerEvent :: "(pystr \<Rightarrow> bool option) \<Rightarrow> pyval \<Rightarrow> pyval \<Rightarrow> pyval \<Rightarrow> pyval \<Rightarrow> event_kind option
    \<Rightarrow> pyval \<Rightarrow> pyval \<Rightarrow> worker_error + worker_event" where
  "WorkerEvent parse_iso ver tid aid sq kind stamp payload =
     bindr (check_version ver) (\<lambda>_.
     bindr (validate_identifier_w tid ''task_id'') (\<lambda>t.
     bindr (validate_identifier_w aid ''attempt_id'') (\<lambda>a.
     bindr (int_at_least 1 sq ''sequence'') (\<lambda>n.
     bindr (need kind (InvalidField ''kind'')) (\<lambda>k.
     bindr (validate_timestamp parse_iso stamp ''timestamp'') (\<lambda>s.
     bindr (need (as_mapping payload) (InvalidField ''payload'')) (\<lambda>p.
       Inr \<lparr>ev_version = ver, ev_task_id = t, ev_attempt_id = a, ev_sequence = n, ev_kind = k,
            ev_timestamp = s, ev_payload = p\<rparr>)))))))"

definition new_event :: "(pystr \<Rightarrow> bool option) \<Rightarrow> pystr \<Rightarrow> task_request \<Rightarrow> int \<Rightarrow> event_kind
    \<Rightarrow> (pyval \<times> pyval) list \<Rightarrow> worker_error + worker_event" where
  "new_event parse_iso now r n k p = WorkerEvent parse_iso (PInt WORKER_PROTOCOL_VERSION)
     (PStr (req_task_id r)) (PStr (req_attempt_id r)) (PInt n) (Some k) (PStr now) (PDict p)"

definition event_fields :: "string list" where
  "event_fields = [''protocol_version'', ''task_id'', ''attempt_id'', ''sequence'', ''kind'',
     ''timestamp'', ''payload'']"

definition event_to_dict :: "worker_event \<Rightarrow> pyval" where
  "event_to_dict e = PDict [
     (PStr (u ''protocol_version''), ev_version e),
     (PStr (u ''task_id''), PStr (ev_task_id e)),
     (PStr (u ''attempt_id''), PStr (ev_attempt_id e)),
     (PStr (u ''sequence''), PInt (ev_sequence e)),
     (PStr (u ''kind''), PStr (u (kind_value (ev_kind e)))),
     (PStr (u ''timestamp''), PStr (ev_timestamp e)),
     (PStr (u ''payload''), PDict (ev_payload e))]"

definition event_from_dict :: "(pystr \<Rightarrow> bool option) \<Rightarrow> pyval \<Rightarrow> worker_error + worker_event" where
  "event_from_dict parse_iso v =
     bindr (strict_mapping v event_fields ''worker event'') (\<lambda>d.
     bindr (need (enum_of kind_value all_kinds (item_of d ''kind'')) (UnsupportedValue ''kind'')) (\<lambda>k.
       WorkerEvent parse_iso (item_of d ''protocol_version'') (item_of d ''task_id'')
         (item_of d ''attempt_id'') (item_of d ''sequence'') (Some k) (item_of d ''timestamp'')
         (item_of d ''payload'')))"

section \<open>Task records\<close>

record task_record =
  rec_version :: pyval
  rec_task_id :: pystr
  rec_attempt_id :: pystr
  rec_role_name :: pystr
  rec_status :: task_status
  rec_created_at :: pystr
  rec_updated_at :: pystr
  rec_timeout :: int
  rec_result :: pyval
  rec_error :: pystr
  rec_pid :: "int option"
  rec_heartbeat :: "pystr option"
  rec_sequence :: int
  rec_confirmed :: bool

text \<open>The keyword arguments of a constructor call, before validation.\<close>

record raw_record =
  raw_version :: pyval
  raw_task_id :: pyval
  raw_attempt_id :: pyval
  raw_role_name :: pyval
  raw_status :: "task_status option"
  raw_created_at :: pyval
  raw_updated_at :: pyval
  raw_timeout :: pyval
  raw_result :: pyval
  raw_error :: pyval
  raw_pid :: pyval
  raw_heartbeat :: pyval
  raw_sequence :: pyval
  raw_confirmed :: pyval

definition validate_pid :: "pyval \<Rightarrow> worker_error + int option" where
  "validate_pid v = (case v of
       PNone \<Rightarrow> Inr None
     | PInt n \<Rightarrow> if n \<le> 0 then Inl (InvalidField ''worker_pid'') else Inr (Some n)
     | _ \<Rightarrow> Inl (InvalidField ''worker_pid''))"

definition validate_heartbeat :: "(pystr \<Rightarrow> bool option) \<Rightarrow> pyval \<Rightarrow> worker_error + pystr option" where
  "validate_heartbeat parse_iso v = (case v of
       PNone \<Rightarrow> Inr None
     | _ \<Rightarrow> bindr (validate_timestamp parse_iso v ''last_heartbeat'') (\<lambda>s. Inr (Some s)))"

definition WorkerTaskRecord :: "(pystr \<Rightarrow> bool option) \<Rightarrow> raw_record \<Rightarrow> worker_error + task_record" where
  "WorkerTaskRecord parse_iso w =
     bindr (check_version (raw_version w)) (\<lambda>_.
     bindr (validate_identifier_w (raw_task_id w) ''task_id'') (\<lambda>t.
     bindr (validate_identifier_w (raw_attempt_id w) ''attempt_id'') (\<lambda>a.
     bindr (validate_identifier_w (raw_role_name w) ''role_name'') (\<lambda>r.
     bindr (need (raw_status w) (InvalidField ''status'')) (\<lambda>st.
     bindr (validate_timestamp parse_iso (raw_created_at w) ''created_at'') (\<lambda>c.
     bindr (validate_timestamp parse_iso (raw_updated_at w) ''updated_at'') (\<lambda>up.
     bindr (validate_timeout (raw_timeout w)) (\<lambda>secs.
     bindr (need (as_str (raw_error w)) (InvalidField ''error'')) (\<lambda>err.
     bindr (validate_pid (raw_pid w)) (\<lambda>pid.
     bindr (validate_heartbeat parse_iso (raw_heartbeat w)) (\<lambda>hb.
     bindr (int_at_least 0 (raw_sequence w) ''last_event_sequence'') (\<lambda>sq.
     bindr (need (as_bool (raw_confirmed w)) (InvalidField ''termination_confirmed'')) (\<lambda>conf.
     bindr (ensure (\<not> (st \<in> {Timeout, Cancelled} \<and> \<not> conf)) TerminationUnconfirmed) (\<lambda>_.
       Inr \<lparr>rec_version = raw_version w, rec_task_id = t, rec_attempt_id = a, rec_role_name = r,
       rec_status = st, rec_created_at = c, rec_updated_at = up, rec_timeout = secs,
       rec_result = raw_result w, rec_error = err, rec_pid = pid, rec_heartbeat = hb,
       rec_sequence = sq, rec_confirmed = conf\<rparr>))))))))))))))"

definition raw_of :: "task_record \<Rightarrow> raw_record" where
  "raw_of r = \<lparr>raw_version = rec_version r, raw_task_id = PStr (rec_task_id r),
     raw_attempt_id = PStr (rec_attempt_id r), raw_role_name = PStr (rec_role_name r),
     raw_status = Some (rec_status r), raw_created_at = PStr (rec_created_at r),
     raw_updated_at = PStr (rec_updated_at r), raw_timeout = PInt (rec_timeout r),
     raw_result = rec_result r, raw_error = PStr (rec_error r),
     raw_pid = opt_value PInt (rec_pid r),
     raw_heartbeat = opt_value PStr (rec_heartbeat r),
     raw_sequence = PInt (rec_sequence r), raw_confirmed = PBool (rec_confirmed r)\<rparr>"

definition from_request :: "(pystr \<Rightarrow> bool option) \<Rightarrow> task_request \<Rightarrow> worker_error + task_record" where
  "from_request parse_iso q = WorkerTaskRecord parse_iso
     \<lparr>raw_version = PInt WORKER_PROTOCOL_VERSION, raw_task_id = PStr (req_task_id q),
      raw_attempt_id = PStr (req_attempt_id q), raw_role_name = PStr (req_role_name q),
      raw_status = Some Queued, raw_created_at = PStr (req_created_at q),
      raw_updated_at = PStr (req_created_at q), raw_timeout = PInt (req_timeout q),
      raw_result = PNone, raw_error = PStr [], raw_pid = PNone, raw_heartbeat = PNone,
      raw_sequence = PInt 0, raw_confirmed = PBool False\<rparr>"

text \<open>
  \<open>evolve\<close>: the keyword changes are a function on the arguments of \<open>dataclasses.replace\<close>;
  \<open>touches_updated\<close> tells whether \<open>updated_at\<close> is among them.
\<close>

definition evolve :: "(pystr \<Rightarrow> bool option) \<Rightarrow> pystr \<Rightarrow> (raw_record \<Rightarrow> raw_record) \<Rightarrow> bool
    \<Rightarrow> task_record \<Rightarrow> worker_error + task_record" where
  "evolve parse_iso now changes touches_updated r =
     (if is_terminal (rec_status r) then Inl TerminalRecord
      else if touches_updated then Inl UpdatedAtManaged
      else WorkerTaskRecord parse_iso ((changes (raw_of r))\<lparr>raw_updated_at := PStr now\<rparr>))"

definition record_fields :: "string list" where
  "record_fields = [''protocol_version'', ''task_id'', ''attempt_id'', ''role_name'', ''status'',
     ''created_at'', ''updated_at'', ''timeout_seconds'', ''result'', ''error'', ''worker_pid'',
     ''last_heartbeat'', ''last_event_sequence'', ''termination_confirmed'']"

definition record_to_dict :: "task_record \<Rightarrow> pyval" where
  "record_to_dict r = (let w = raw_of r in PDict [
     (PStr (u ''protocol_version''), rec_version r),
     (PStr (u ''task_id''), raw_task_id w),
     (PStr (u ''attempt_id''), raw_attempt_id w),
     (PStr (u ''role_name''), raw_role_name w),
     (PStr (u ''status''), PStr (u (status_value (rec_status r)))),
     (PStr (u ''created_at''), raw_created_at w),
     (PStr (u ''updated_at''), raw_updated_at w),
     (PStr (u ''timeout_seconds''), raw_timeout w),
     (PStr (u ''result''), raw_result w),
     (PStr (u ''error''), raw_error w),
     (PStr (u ''worker_pid''), raw_pid w),
     (PStr (u ''last_heartbeat''), raw_heartbeat w),
     (PStr (u ''last_event_sequence''), raw_sequence w),
     (PStr (u ''termination_confirmed''), raw_confirmed w)])"

definition record_from_dict :: "(pystr \<Rightarrow> bool option) \<Rightarrow> pyval \<Rightarrow> worker_error + task_record" where
  "record_from_dict parse_iso v =
     bindr (strict_mapping v record_fields ''worker task record'') (\<lambda>d.
     bindr (need (enum_of status_value all_statuses (item_of d ''status'')) (UnsupportedValue ''status'')) (\<lambda>st.
       WorkerTaskRecord parse_iso
         \<lparr>raw_version = item_of d ''protocol_version'', raw_task_id = item_of d ''task_id'',
          raw_attempt_id = item_of d ''attempt_id'', raw_role_name = item_of d ''role_name'',
          raw_status = Some st, raw_created_at = item_of d ''created_at'',
          raw_updated_at = item_of d ''updated_at'', raw_timeout = item_of d ''timeout_seconds'',
          raw_result = item_of d ''result'', raw_error = item_of d ''error'',
          raw_pid = item_of d ''worker_pid'', raw_heartbeat = item_of d ''last_heartbeat'',
          raw_sequence = item_of d ''last_event_sequence'',
          raw_confirmed = item_of d ''termination_confirmed''\<rparr>))"

section \<open>Valid values\<close>

lemma enum_status [simp]: "enum_of status_value all_statuses (PStr (u (status_value s))) = Some s"
  by (cases s) (simp_all add: enum_of_def status_value_def all_statuses_def)

lemma enum_kind [simp]: "enum_of kind_value all_kinds (PStr (u (kind_value k))) = Some k"
  by (cases k) (simp_all add: enum_of_def kind_value_def all_kinds_def)

lemma validate_identifier_w_Inr [result_simps]:
  "validate_identifier_w v f = Inr s \<longleftrightarrow> v = PStr s \<and> is_identifier s"
  by (cases v) (auto simp: validate_identifier_w_def)

lemma validate_timestamp_Inr [result_simps]:
  "validate_timestamp parse_iso v f = Inr s \<longleftrightarrow> v = PStr s \<and> parse_iso (replace_Z s) = Some True"
  by (cases v) (auto simp: validate_timestamp_def)

lemma validate_timeout_Inr [result_simps]:
  "validate_timeout v = Inr n \<longleftrightarrow> v = PInt n \<and> 1 \<le> n \<and> n \<le> 300"
  by (cases v) (auto simp: validate_timeout_def)

lemma int_at_least_Inr [result_simps]: "int_at_least lo v f = Inr n \<longleftrightarrow> v = PInt n \<and> lo \<le> n"
  by (cases v) (auto simp: int_at_least_def)

lemma validate_pid_Inr [result_simps]:
  "validate_pid v = Inr p \<longleftrightarrow> v = opt_value PInt p \<and> none_or (\<lambda>n. 0 < n) p"
  by (cases v; cases p) (auto simp: validate_pid_def)

lemma validate_heartbeat_Inr [result_simps]:
  "validate_heartbeat parse_iso v = Inr h \<longleftrightarrow>
     v = opt_value PStr h \<and> none_or (\<lambda>s. parse_iso (replace_Z s) = Some True) h"
  by (cases v; cases h) (auto simp: validate_heartbeat_def result_simps)

definition text_fits :: "nat \<Rightarrow> pystr \<Rightarrow> bool" where
  "text_fits m s \<longleftrightarrow> py_strip s \<noteq> [] \<and> (\<exists>n. utf8_length s = Some n \<and> n \<le> m)"

lemma validate_text_Inr [result_simps]:
  "validate_text v f (Some m) = Inr s \<longleftrightarrow> v = PStr s \<and> text_fits m s"
  by (cases v) (auto simp: validate_text_def text_fits_def split: option.splits)

definition version_ok :: "pyval \<Rightarrow> bool" where
  "version_ok v \<longleftrightarrow> py_eq v (PInt 1)"

lemma check_version_Inr [result_simps]: "check_version v = Inr x \<longleftrightarrow> version_ok v"
  by (simp add: check_version_def version_ok_def WORKER_PROTOCOL_VERSION_def result_simps)

lemma version_ok_int [simp]: "version_ok (PInt WORKER_PROTOCOL_VERSION)"
  by (simp add: version_ok_def WORKER_PROTOCOL_VERSION_def)

lemma strict_mapping_Inr [result_simps]:
  "strict_mapping v ks f = Inr d \<longleftrightarrow> v = PDict d \<and> fst ` set d = set (map (\<lambda>k. PStr (u k)) ks)"
  by (cases v) (auto simp: strict_mapping_def split: if_splits)

definition valid_request :: "(pystr \<Rightarrow> bool option) \<Rightarrow> task_request \<Rightarrow> bool" where
  "valid_request parse_iso r \<longleftrightarrow> version_ok (req_version r) \<and> is_identifier (req_task_id r)
     \<and> is_identifier (req_attempt_id r) \<and> is_identifier (req_role_name r)
     \<and> text_fits MAX_WORKER_PROMPT_BYTES (req_prompt r) \<and> 1 \<le> req_timeout r \<and> req_timeout r \<le> 300
     \<and> parse_iso (replace_Z (req_created_at r)) = Some True"

definition valid_event :: "(pystr \<Rightarrow> bool option) \<Rightarrow> worker_event \<Rightarrow> bool" where
  "valid_event parse_iso e \<longleftrightarrow> version_ok (ev_version e) \<and> is_identifier (ev_task_id e)
     \<and> is_identifier (ev_attempt_id e) \<and> 1 \<le> ev_sequence e
     \<and> parse_iso (replace_Z (ev_timestamp e)) = Some True"

definition valid_record :: "(pystr \<Rightarrow> bool option) \<Rightarrow> task_record \<Rightarrow> bool" where
  "valid_record parse_iso r \<longleftrightarrow> version_ok (rec_version r) \<and> is_identifier (rec_task_id r)
     \<and> is_identifier (rec_attempt_id r) \<and> is_identifier (rec_role_name r)
     \<and> parse_iso (replace_Z (rec_created_at r)) = Some True
     \<and> parse_iso (replace_Z (rec_updated_at r)) = Some True
     \<and> 1 \<le> rec_timeout r \<and> rec_timeout r \<le> 300
     \<and> none_or (\<lambda>n. 0 < n) (rec_pid r)
     \<and> none_or (\<lambda>s. parse_iso (replace_Z s) = Some True) (rec_heartbeat r)
     \<and> 0 \<le> rec_sequence r
     \<and> (rec_status r \<in> {Timeout, Cancelled} \<longrightarrow> rec_confirmed r)"

lemma WorkerTaskRequest_Inr:
  "WorkerTaskRequest parse_iso ver tid aid role prompt secs created = Inr r \<longleftrightarrow>
     valid_request parse_iso r \<and> ver = req_version r \<and> tid = PStr (req_task_id r)
     \<and> aid = PStr (req_attempt_id r) \<and> role = PStr (req_role_name r) \<and> prompt = PStr (req_prompt r)
     \<and> secs = PInt (req_timeout r) \<and> created = PStr (req_created_at r)"
  unfolding WorkerTaskRequest_def by (cases r) (auto simp: result_simps valid_request_def)

lemma WorkerEvent_Inr:
  "WorkerEvent parse_iso ver tid aid sq kind stamp payload = Inr e \<longleftrightarrow>
     valid_event parse_iso e \<and> ver = ev_version e \<and> tid = PStr (ev_task_id e)
     \<and> aid = PStr (ev_attempt_id e) \<and> sq = PInt (ev_sequence e) \<and> kind = Some (ev_kind e)
     \<and> stamp = PStr (ev_timestamp e) \<and> payload = PDict (ev_payload e)"
  unfolding WorkerEvent_def by (cases e) (auto simp: result_simps valid_event_def)

lemma WorkerTaskRecord_Inr:
  "WorkerTaskRecord parse_iso w = Inr r \<longleftrightarrow> valid_record parse_iso r \<and> w = raw_of r"
  unfolding WorkerTaskRecord_def
  by (cases w; cases r) (auto simp: result_simps valid_record_def raw_of_def)

section \<open>Dictionary forms\<close>

interpretation request_wire: wire_format request_to_dict "request_from_dict parse_iso" "valid_request parse_iso"
  for parse_iso
proof
  fix r assume "valid_request parse_iso r"
  then show "request_from_dict parse_iso (request_to_dict r) = Inr r"
    by (simp add: request_from_dict_def result_simps WorkerTaskRequest_Inr)
       (simp add: request_to_dict_def item_of_def request_fields_def)
next
  fix w r assume "request_from_dict parse_iso w = Inr r"
  then show "valid_request parse_iso r"
    by (auto simp: request_from_dict_def result_simps WorkerTaskRequest_Inr)
qed

interpretation event_wire: wire_format event_to_dict "event_from_dict parse_iso" "valid_event parse_iso"
  for parse_iso
proof
  fix r assume "valid_event parse_iso r"
  then show "event_from_dict parse_iso (event_to_dict r) = Inr r"
    by (simp add: event_from_dict_def result_simps WorkerEvent_Inr)
       (simp add: event_to_dict_def item_of_def event_fields_def)
next
  fix w r assume "event_from_dict parse_iso w = Inr r"
  then show "valid_event parse_iso r"
    by (auto simp: event_from_dict_def result_simps WorkerEvent_Inr)
qed

interpretation record_wire: wire_format record_to_dict "record_from_dict parse_iso" "valid_record parse_iso"
  for parse_iso
proof
  fix r assume "valid_record parse_iso r"
  then show "record_from_dict parse_iso (record_to_dict r) = Inr r"
    by (simp add: record_from_dict_def result_simps WorkerTaskRecord_Inr)
       (simp add: record_to_dict_def item_of_def record_fields_def raw_of_def Let_def)
next
  fix w r assume "record_from_dict parse_iso w = Inr r"
  then show "valid_record parse_iso r"
    by (auto simp: record_from_dict_def result_simps WorkerTaskRecord_Inr)
qed

section \<open>The life of a task\<close>

text \<open>Every record a task goes through: created from a request, then evolved by any changes.\<close>

inductive task_run :: "(pystr \<Rightarrow> bool option) \<Rightarrow> task_request \<Rightarrow> task_record list \<Rightarrow> bool"
  for parse_iso q where
  run_start: "from_request parse_iso q = Inr r \<Longrightarrow> task_run parse_iso q [r]"
| run_evolve: "task_run parse_iso q (rs @ [r]) \<Longrightarrow> evolve parse_iso now changes touches r = Inr r' \<Longrightarrow>
     task_run parse_iso q (rs @ [r, r'])"

lemma raw_updated_inj: "w\<lparr>raw_updated_at := v\<rparr> = raw_of r \<Longrightarrow> v = PStr (rec_updated_at r)"
  by (cases w) (simp add: raw_of_def)

lemma evolve_Inr:
  "evolve parse_iso now changes touches r = Inr r' \<Longrightarrow>
     \<not> is_terminal (rec_status r) \<and> \<not> touches \<and> valid_record parse_iso r' \<and> rec_updated_at r' = now"
  by (auto simp: evolve_def WorkerTaskRecord_Inr dest: raw_updated_inj split: if_splits)

lemma from_request_valid: "from_request parse_iso q = Inr r \<Longrightarrow> valid_record parse_iso r \<and> rec_status r = Queued"
  by (auto simp: from_request_def WorkerTaskRecord_Inr raw_of_def)

lemma task_run_props:
  "task_run parse_iso q rs \<Longrightarrow> rs \<noteq> [] \<and> (\<forall>r\<in>set rs. valid_record parse_iso r)
     \<and> (\<forall>r\<in>set (butlast rs). \<not> is_terminal (rec_status r))"
proof (induction rule: task_run.induct)
  case (run_start r)
  then show ?case by (simp add: from_request_valid)
next
  case (run_evolve rs r now changes touches r')
  then show ?case using evolve_Inr [OF run_evolve.hyps(2)]
    by (auto simp: butlast_append split: if_splits)
qed

section \<open>Properties\<close>

text \<open>
  Requests, events and task records survive the wire: the dictionary of a valid value is
  decoded to that value, and whatever is decoded is valid (so every value a process receives
  has passed the same checks as one it constructs).
\<close>

theorem worker_wire_roundtrip:
  "(valid_request parse_iso q \<longleftrightarrow> request_from_dict parse_iso (request_to_dict q) = Inr q) \<and>
   (valid_event parse_iso e \<longleftrightarrow> event_from_dict parse_iso (event_to_dict e) = Inr e) \<and>
   (valid_record parse_iso r \<longleftrightarrow> record_from_dict parse_iso (record_to_dict r) = Inr r)"
  by (intro conjI request_wire.valid_iff event_wire.valid_iff record_wire.valid_iff)

text \<open>
  A task record reaches a terminal status at most once: in the whole life of a task every
  record is valid, only the last can be terminal, a terminal one cannot evolve, and a task
  that timed out or was cancelled has a confirmed termination.
\<close>

theorem terminal_record_is_final:
  assumes "task_run parse_iso q rs"
  shows "(\<forall>r\<in>set rs. valid_record parse_iso r) \<and>
    (\<forall>i<length rs. is_terminal (rec_status (rs ! i)) \<longrightarrow> i = length rs - 1) \<and>
    (is_terminal (rec_status (last rs)) \<longrightarrow> (\<forall>now ch t. evolve parse_iso now ch t (last rs) = Inl TerminalRecord)) \<and>
    (rec_status (last rs) \<in> {Timeout, Cancelled} \<longrightarrow> rec_confirmed (last rs))"
proof -
  note run = task_run_props [OF assms]
  have "i = length rs - 1" if "i < length rs" "is_terminal (rec_status (rs ! i))" for i
  proof (rule ccontr)
    assume "i \<noteq> length rs - 1"
    then have "rs ! i \<in> set (butlast rs)"
      using that(1) by (metis Suc_lessI diff_Suc_1 in_set_conv_nth length_butlast less_diff_conv nth_butlast
          Suc_eq_plus1)
    then show False using run that(2) by blast
  qed
  moreover have "valid_record parse_iso (last rs)" using run by simp
  ultimately show ?thesis using run by (auto simp: evolve_def valid_record_def)
qed

abbreviation demo_iso :: "pystr \<Rightarrow> bool option" where
  "demo_iso s \<equiv> Some True"

definition demo_request :: task_request where
  "demo_request = \<lparr>req_version = PInt 1, req_task_id = u ''t1'', req_attempt_id = u ''a1'',
     req_role_name = u ''tester'', req_prompt = u ''run'', req_timeout = 5, req_created_at = u ''now''\<rparr>"

definition demo_record :: "task_status \<Rightarrow> task_record" where
  "demo_record st = \<lparr>rec_version = PInt 1, rec_task_id = u ''t1'', rec_attempt_id = u ''a1'',
     rec_role_name = u ''tester'', rec_status = st, rec_created_at = u ''now'', rec_updated_at = u ''now'',
     rec_timeout = 5, rec_result = PNone, rec_error = [], rec_pid = None, rec_heartbeat = None,
     rec_sequence = 0, rec_confirmed = True\<rparr>"

lemma demo_run: "task_run demo_iso demo_request
  [(demo_record Queued)\<lparr>rec_confirmed := False\<rparr>, demo_record Succeeded]"
proof -
  have "from_request demo_iso demo_request = Inr ((demo_record Queued)\<lparr>rec_confirmed := False\<rparr>)"
    unfolding from_request_def WorkerTaskRecord_Inr by code_simp
  note start = run_start [OF this]
  have "evolve demo_iso (u ''now'') (\<lambda>w. w\<lparr>raw_status := Some Succeeded, raw_confirmed := PBool True\<rparr>) False
      ((demo_record Queued)\<lparr>rec_confirmed := False\<rparr>) = Inr (demo_record Succeeded)"
    by code_simp
  from run_evolve [where rs = "[]", simplified, OF start this] show ?thesis .
qed

lemma terminal_record_is_final_witness:
  "\<forall>now ch t. evolve demo_iso now ch t (demo_record Succeeded) = Inl TerminalRecord"
  using terminal_record_is_final [OF demo_run] by (simp add: demo_record_def)

end
