(* ===== verification/Capability_Manifest.thy ===== *)
theory Capability_Manifest
  imports Worker_Protocol "HOL-Library.Product_Lexorder" "HOL-Library.Multiset"
begin

text \<open>
  The records of locally available capabilities, \<open>src/core/kernel/capability_manifest.py\<close>: the
  validated record with its normalised path, codes and constraints, its public form, and the
  snapshot sorted by identifier. Error codes are the strings of the source.
\<close>

section \<open>Enumerations\<close>

datatype capability_kind = Skill | Plugin | RoleTool | UiComponent
datatype capability_lifecycle = Discovered | Disabled | Enabled | InvalidLifecycle
datatype capability_health = Healthy | Degraded | InvalidHealth
datatype capability_risk = LowRisk | MediumRisk | HighRisk

definition capability_kind_value :: "capability_kind \<Rightarrow> string" where
  "capability_kind_value k = (case k of Skill \<Rightarrow> ''skill'' | Plugin \<Rightarrow> ''plugin'' | RoleTool \<Rightarrow> ''role_tool''
     | UiComponent \<Rightarrow> ''ui_component'')"

definition capability_kinds :: "capability_kind list" where
  "capability_kinds = [Skill, Plugin, RoleTool, UiComponent]"

definition lifecycle_value :: "capability_lifecycle \<Rightarrow> string" where
  "lifecycle_value l = (case l of Discovered \<Rightarrow> ''discovered'' | Disabled \<Rightarrow> ''disabled''
     | Enabled \<Rightarrow> ''enabled'' | InvalidLifecycle \<Rightarrow> ''invalid'')"

definition health_value :: "capability_health \<Rightarrow> string" where
  "health_value h = (case h of Healthy \<Rightarrow> ''healthy'' | Degraded \<Rightarrow> ''degraded'' | InvalidHealth \<Rightarrow> ''invalid'')"

definition risk_value :: "capability_risk \<Rightarrow> string" where
  "risk_value r = (case r of LowRisk \<Rightarrow> ''low'' | MediumRisk \<Rightarrow> ''medium'' | HighRisk \<Rightarrow> ''high'')"

definition capability_risks :: "capability_risk list" where
  "capability_risks = [LowRisk, MediumRisk, HighRisk]"

section \<open>Texts and paths\<close>

definition validate_capability_text :: "pyval \<Rightarrow> nat \<Rightarrow> bool \<Rightarrow> string + pystr" where
  "validate_capability_text v limit empty_ok =
     bindr (need (as_str v) ''field_type_invalid'') (\<lambda>s.
     bindr (ensure (empty_ok \<or> s \<noteq> []) ''field_empty'') (\<lambda>_.
     bindr (ensure (length s \<le> limit) ''field_too_long'') (\<lambda>_.
     bindr (ensure (\<forall>c\<in>set s. 32 \<le> c) ''field_control_character'') (\<lambda>_.
     bindr (ensure (\<forall>c\<in>set s. \<not> is_surrogate c) ''field_unicode_invalid'') (\<lambda>_. Inr s)))))"

text \<open>
  \<open>PurePosixPath\<close>: a leading slash makes it absolute, empty and \<open>.\<close> components vanish, and the
  text of a path without components is a dot.
\<close>

definition path_absolute :: "pystr \<Rightarrow> bool" where
  "path_absolute s \<longleftrightarrow> (case s of c # _ \<Rightarrow> c = 47 | [] \<Rightarrow> False)"

definition path_parts :: "pystr \<Rightarrow> pystr list" where
  "path_parts s = filter (\<lambda>p. p \<noteq> [] \<and> p \<noteq> u ''.'') (split_at 47 s)"

definition path_text :: "pystr list \<Rightarrow> pystr" where
  "path_text ps = (if ps = [] then u ''.'' else join_with (u ''/'') ps)"

definition has_drive :: "pystr \<Rightarrow> bool" where
  "has_drive s \<longleftrightarrow> (case s of c # d # _ \<Rightarrow> ((65 \<le> c \<and> c \<le> 90) \<or> (97 \<le> c \<and> c \<le> 122)) \<and> d = 58 | _ \<Rightarrow> False)"

definition validate_relative_path :: "pyval \<Rightarrow> string + pystr" where
  "validate_relative_path v =
     bindr (validate_capability_text v 1024 False) (\<lambda>s.
     bindr (ensure (92 \<notin> set s \<and> \<not> has_drive s) ''path_invalid'') (\<lambda>_.
     bindr (ensure (\<not> path_absolute s \<and> s \<notin> {u ''.'', u ''..''}
       \<and> (\<forall>p\<in>set (path_parts s). p \<notin> {[], u ''.'', u ''..''})) ''path_invalid'') (\<lambda>_.
       Inr (path_text (path_parts s)))))"

text \<open>\<open>tuple(sorted(set(xs)))\<close>.\<close>

definition sorted_set :: "'a::linorder list \<Rightarrow> 'a list" where
  "sorted_set xs = sort (remdups xs)"

definition normalize_codes :: "pyval list \<Rightarrow> string + pystr list" where
  "normalize_codes vs = bindr (mapr (\<lambda>v. validate_capability_text v 128 False) vs) (\<lambda>xs. Inr (sorted_set xs))"

section \<open>Records\<close>

record capability =
  capability_id :: pystr
  capability_kind :: capability_kind
  capability_name :: pystr
  capability_version :: "pystr option"
  description :: pystr
  relative_path :: pystr
  entrypoint :: "pystr option"
  lifecycle :: capability_lifecycle
  permissions :: "pystr list"
  compatibility :: "(pystr \<times> pystr) list"
  compatibility_status :: pystr
  source_url :: "pystr option"
  license_name :: "pystr option"
  sha256 :: "pystr option"
  provenance_status :: pystr
  health :: capability_health
  health_issues :: "pystr list"
  risk :: capability_risk
  risk_reasons :: "pystr list"

text \<open>The arguments of \<open>create\<close>; \<open>None\<close> for an enumeration is a value of another type.\<close>

record capability_args =
  arg_id :: pystr
  arg_kind :: "capability_kind option"
  arg_name :: pyval
  arg_version :: pyval
  arg_description :: pyval
  arg_path :: pyval
  arg_entrypoint :: pyval
  arg_lifecycle :: "capability_lifecycle option"
  arg_permissions :: "pyval list"
  arg_compatibility :: "(pyval \<times> pyval) list"
  arg_compatibility_status :: pystr
  arg_source_url :: pyval
  arg_license :: pyval
  arg_sha256 :: "pystr option"
  arg_provenance :: pystr
  arg_health :: "capability_health option"
  arg_health_issues :: "pyval list"
  arg_risk :: "capability_risk option"
  arg_risk_reasons :: "pyval list"

definition is_capability_identifier :: "pystr \<Rightarrow> bool" where
  "is_capability_identifier s \<longleftrightarrow> s \<noteq> [] \<and> length s \<le> 128 \<and> (ascii_lower (hd s) \<or> ascii_digit (hd s))
     \<and> (\<forall>c\<in>set (tl s). ascii_lower c \<or> ascii_digit c \<or> c \<in> {46, 95, 45})"

definition is_sha256 :: "pystr \<Rightarrow> bool" where
  "is_sha256 s \<longleftrightarrow> length s = 64 \<and> (\<forall>c\<in>set s. hex_lower c)"

definition kind_prefix :: "capability_kind \<Rightarrow> pystr" where
  "kind_prefix k = u (capability_kind_value k @ '':'')"

definition check_capability_id :: "capability_kind \<Rightarrow> pystr \<Rightarrow> string + unit" where
  "check_capability_id k s =
     bindr (ensure (take (length (kind_prefix k)) s = kind_prefix k) ''capability_id_invalid'') (\<lambda>_.
     ensure (is_capability_identifier (drop (length (kind_prefix k)) s)) ''capability_id_invalid'')"

definition optional_value :: "(pyval \<Rightarrow> string + pystr) \<Rightarrow> pyval \<Rightarrow> string + pystr option" where
  "optional_value check v = (if v = PNone then Inr None else bindr (check v) (\<lambda>x. Inr (Some x)))"

definition check_constraint_item :: "pyval \<times> pyval \<Rightarrow> string + pystr \<times> pystr" where
  "check_constraint_item kv =
     bindr (validate_capability_text (fst kv) 64 False) (\<lambda>k.
     bindr (validate_capability_text (snd kv) 128 False) (\<lambda>v. Inr (k, v)))"

definition COMPATIBILITY_STATUSES :: "pystr list" where
  "COMPATIBILITY_STATUSES = map u [''unknown'', ''compatible'', ''incompatible'']"

definition PROVENANCE_STATUSES :: "pystr list" where
  "PROVENANCE_STATUSES = map u [''incomplete'', ''complete'', ''verified'']"

definition create_capability :: "capability_args \<Rightarrow> string + capability" where
  "create_capability w =
     bindr (need (arg_kind w) ''kind_invalid'') (\<lambda>k.
     bindr (need (arg_lifecycle w) ''lifecycle_invalid'') (\<lambda>lc.
     bindr (need (arg_health w) ''health_invalid'') (\<lambda>h.
     bindr (need (arg_risk w) ''risk_invalid'') (\<lambda>rk.
     bindr (check_capability_id k (arg_id w)) (\<lambda>_.
     bindr (validate_capability_text (arg_name w) 256 False) (\<lambda>n.
     bindr (validate_capability_text (arg_description w) 4096 True) (\<lambda>d.
     bindr (optional_value (\<lambda>v. validate_capability_text v 64 False) (arg_version w)) (\<lambda>ver.
     bindr (validate_relative_path (arg_path w)) (\<lambda>p.
     bindr (optional_value validate_relative_path (arg_entrypoint w)) (\<lambda>ep.
     bindr (ensure (arg_compatibility_status w \<in> set COMPATIBILITY_STATUSES) ''compatibility_status_invalid'') (\<lambda>_.
     bindr (ensure (arg_provenance w \<in> set PROVENANCE_STATUSES) ''provenance_status_invalid'') (\<lambda>_.
     bindr (optional_value (\<lambda>v. validate_capability_text v 2048 False) (arg_source_url w)) (\<lambda>url.
     bindr (optional_value (\<lambda>v. validate_capability_text v 64 False) (arg_license w)) (\<lambda>lic.
     bindr (ensure (none_or is_sha256 (arg_sha256 w)) ''sha256_invalid'') (\<lambda>_.
     bindr (mapr check_constraint_item (arg_compatibility w)) (\<lambda>items.
     bindr (normalize_codes (arg_permissions w)) (\<lambda>ps.
     bindr (normalize_codes (arg_health_issues w)) (\<lambda>hi.
     bindr (normalize_codes (arg_risk_reasons w)) (\<lambda>rr.
       Inr \<lparr>capability_id = arg_id w, capability_kind = k, capability_name = n, capability_version = ver,
         description = d, relative_path = p, entrypoint = ep, lifecycle = lc, permissions = ps,
         compatibility = sorted_set items, compatibility_status = arg_compatibility_status w,
         source_url = url, license_name = lic, sha256 = arg_sha256 w, provenance_status = arg_provenance w,
         health = h, health_issues = hi, risk = rk, risk_reasons = rr\<rparr>)))))))))))))))))))"

definition strings :: "pystr list \<Rightarrow> pyval" where
  "strings xs = PList (map PStr xs)"

definition capability_to_public :: "capability \<Rightarrow> (pyval \<times> pyval) list" where
  "capability_to_public r = [
     (PStr (u ''schema_version''), PInt 1),
     (PStr (u ''capability_id''), PStr (capability_id r)),
     (PStr (u ''kind''), PStr (u (capability_kind_value (capability_kind r)))),
     (PStr (u ''name''), PStr (capability_name r)),
     (PStr (u ''version''), opt_value PStr (capability_version r)),
     (PStr (u ''description''), PStr (description r)),
     (PStr (u ''relative_path''), PStr (relative_path r)),
     (PStr (u ''entrypoint''), opt_value PStr (entrypoint r)),
     (PStr (u ''lifecycle''), PStr (u (lifecycle_value (lifecycle r)))),
     (PStr (u ''permissions''), strings (permissions r)),
     (PStr (u ''compatibility''), PDict [
        (PStr (u ''constraints''), PDict (foldl (\<lambda>d (k, v). AList.update (PStr k) (PStr v) d) [] (compatibility r))),
        (PStr (u ''status''), PStr (compatibility_status r))]),
     (PStr (u ''provenance''), PDict [
        (PStr (u ''source_url''), opt_value PStr (source_url r)),
        (PStr (u ''license''), opt_value PStr (license_name r)),
        (PStr (u ''sha256''), opt_value PStr (sha256 r)),
        (PStr (u ''status''), PStr (provenance_status r))]),
     (PStr (u ''health''), PDict [
        (PStr (u ''status''), PStr (u (health_value (health r)))),
        (PStr (u ''issues''), strings (health_issues r))]),
     (PStr (u ''risk''), PDict [
        (PStr (u ''level''), PStr (u (risk_value (risk r)))),
        (PStr (u ''reasons''), strings (risk_reasons r))])]"

section \<open>Snapshots\<close>

record capability_snapshot =
  snapshot_records :: "capability list"
  snapshot_issues :: "pystr list"

definition create_snapshot :: "capability list \<Rightarrow> pystr list \<Rightarrow> string + capability_snapshot" where
  "create_snapshot rs issues =
     (let ordered = sort_key capability_id rs in
      bindr (ensure (distinct (map capability_id ordered)) ''capability_duplicate'') (\<lambda>_.
        Inr \<lparr>snapshot_records = ordered, snapshot_issues = sorted_set issues\<rparr>))"

definition snapshot_to_public :: "capability_snapshot \<Rightarrow> pyval" where
  "snapshot_to_public s = PDict [
     (PStr (u ''schema_version''), PInt 1),
     (PStr (u ''capabilities''), PList (map (\<lambda>r. PDict (capability_to_public r)) (snapshot_records s))),
     (PStr (u ''count''), PInt (int (length (snapshot_records s)))),
     (PStr (u ''issues''), strings (snapshot_issues s))]"

section \<open>Valid values\<close>

definition text_ok :: "nat \<Rightarrow> bool \<Rightarrow> pystr \<Rightarrow> bool" where
  "text_ok limit empty_ok s \<longleftrightarrow> (empty_ok \<or> s \<noteq> []) \<and> length s \<le> limit
     \<and> (\<forall>c\<in>set s. 32 \<le> c \<and> \<not> is_surrogate c)"

lemma validate_capability_text_Inr [result_simps]:
  "validate_capability_text v limit e = Inr s \<longleftrightarrow> v = PStr s \<and> text_ok limit e s"
  by (auto simp: validate_capability_text_def text_ok_def result_simps)

definition path_parts_ok :: "pystr list \<Rightarrow> bool" where
  "path_parts_ok ps \<longleftrightarrow> (\<forall>p\<in>set ps. p \<notin> {[], u ''.'', u ''..''} \<and> 47 \<notin> set p)"

definition path_ok :: "pystr \<Rightarrow> bool" where
  "path_ok s \<longleftrightarrow> text_ok 1024 False s \<and> 92 \<notin> set s \<and> (\<exists>ps. path_parts_ok ps \<and> s = path_text ps)"

lemma path_parts_text:
  assumes "path_parts_ok ps" and "ps \<noteq> []"
  shows "path_parts (path_text ps) = ps \<and> \<not> path_absolute (path_text ps) \<and> path_text ps \<notin> {u ''.'', u ''..''}"
proof -
  have "\<forall>w\<in>set ps. 47 \<notin> set w" using assms(1) by (simp add: path_parts_ok_def)
  then have split: "split_at 47 (path_text ps) = ps"
    using split_join [OF assms(2)] assms(2) by (simp add: path_text_def u_def)
  then have parts: "path_parts (path_text ps) = ps"
    using assms(1) by (simp add: path_parts_def path_parts_ok_def filter_id_conv)
  have not: "t \<in> set ps" if "path_text ps = t" "47 \<notin> set t" for t
    using split_at_free [OF that(2)] split unfolding that(1) by (metis list.set_intros(1))
  have "path_text ps \<noteq> u ''.''" "path_text ps \<noteq> u ''..''"
    using not [of "u ''.''"] not [of "u ''..''"] assms(1) by (auto simp: path_parts_ok_def u_def)
  moreover have "\<not> path_absolute (path_text ps)"
  proof
    assume "path_absolute (path_text ps)"
    then obtain cs where "path_text ps = 47 # cs" by (auto simp: path_absolute_def split: list.splits)
    with split have "ps = [] # split_at 47 cs" by simp
    with assms(1) show False by (simp add: path_parts_ok_def)
  qed
  ultimately show ?thesis using parts by simp
qed

lemma path_parts_made:
  assumes "\<forall>p\<in>set (path_parts s). p \<notin> {[], u ''.'', u ''..''}"
  shows "path_parts_ok (path_parts s)"
  using assms split_at_parts [of _ 47 s] by (auto simp: path_parts_ok_def path_parts_def)

lemma path_text_subset: "set (path_text (path_parts s)) \<subseteq> set s \<union> {46, 47}"
proof -
  have "\<Union> (set ` set (path_parts s)) \<subseteq> set s"
    using split_at_parts [of _ 47 s] by (auto simp: path_parts_def)
  then have "set (join_with (u ''/'') (path_parts s)) \<subseteq> set s \<union> {47}"
    by (intro order_trans [OF set_join]) (auto simp: u_def)
  then show ?thesis by (auto simp: path_text_def u_def)
qed

lemma path_text_length: "s \<noteq> [] \<Longrightarrow> length (path_text (path_parts s)) \<le> length s"
  using length_join_filter [of "\<lambda>p. p \<noteq> [] \<and> p \<noteq> u ''.''" 47 s]
  by (auto simp: path_text_def path_parts_def u_def Suc_le_eq)

lemma validate_relative_path_ok:
  assumes "validate_relative_path v = Inr p"
  shows "path_ok p"
proof -
  obtain s where s: "text_ok 1024 False s" "92 \<notin> set s" "p = path_text (path_parts s)"
    and parts: "\<forall>q\<in>set (path_parts s). q \<notin> {[], u ''.'', u ''..''}"
    using assms by (auto simp: validate_relative_path_def result_simps)
  have "length p \<le> 1024" using path_text_length [of s] s(1,3) by (auto simp: text_ok_def)
  moreover have "\<forall>c\<in>set p. 32 \<le> c \<and> \<not> is_surrogate c \<and> c \<noteq> 92"
    using path_text_subset [of s] s by (fastforce simp: text_ok_def is_surrogate_def)
  moreover have "p \<noteq> []" using path_parts_text [OF path_parts_made [OF parts]] s(3)
    by (cases "path_parts s") (auto simp: path_text_def path_parts_def)
  ultimately show ?thesis using path_parts_made [OF parts] s(3) by (auto simp: path_ok_def text_ok_def)
qed

lemma validate_path_again:
  assumes "path_ok p"
  shows "validate_relative_path (PStr p) = Inr p \<longleftrightarrow> p \<noteq> u ''.'' \<and> \<not> has_drive p"
proof (cases "p = u ''.''")
  case True
  then show ?thesis by (auto simp: validate_relative_path_def result_simps)
next
  case False
  obtain ps where ps: "path_parts_ok ps" "p = path_text ps" using assms by (auto simp: path_ok_def)
  then have "ps \<noteq> []" using False by (auto simp: path_text_def)
  note parts = path_parts_text [OF ps(1) this]
  have "\<forall>q\<in>set ps. q \<notin> {[], u ''.'', u ''..''}" using ps(1) by (simp add: path_parts_ok_def)
  then show ?thesis using assms parts ps(2)
    by (auto simp: validate_relative_path_def result_simps path_ok_def)
qed

lemma sorted_set_props [simp]: "set (sorted_set xs) = set xs" "sorted (sorted_set xs)" "distinct (sorted_set xs)"
  by (simp_all add: sorted_set_def)

lemma sorted_set_fixed: "sorted xs \<Longrightarrow> distinct xs \<Longrightarrow> sorted_set xs = xs"
  by (simp add: sorted_set_def distinct_remdups_id sorted_sort_id)

lemma sorted_set_perm: "set xs = set ys \<Longrightarrow> sorted_set xs = sorted_set ys"
  by (rule sorted_distinct_set_unique) simp_all

definition codes_ok :: "pystr list \<Rightarrow> bool" where
  "codes_ok xs \<longleftrightarrow> sorted xs \<and> distinct xs \<and> (\<forall>x\<in>set xs. text_ok 128 False x)"

lemma mapr_exact:
  assumes "\<And>v x. f v = Inr x \<longleftrightarrow> v = g x \<and> P x"
  shows "mapr f vs = Inr xs \<longleftrightarrow> vs = map g xs \<and> (\<forall>x\<in>set xs. P x)"
  unfolding mapr_Inr using assms
  by (induction vs arbitrary: xs) (auto simp: list_all2_Cons1 Cons_eq_map_conv)

lemma mapr_texts:
  "mapr (\<lambda>v. validate_capability_text v n e) vs = Inr xs \<longleftrightarrow> vs = map PStr xs \<and> (\<forall>x\<in>set xs. text_ok n e x)"
  by (rule mapr_exact) (rule validate_capability_text_Inr)

lemma normalize_codes_Inr:
  "normalize_codes vs = Inr xs \<longleftrightarrow> (\<exists>ys. vs = map PStr ys \<and> (\<forall>y\<in>set ys. text_ok 128 False y) \<and> xs = sorted_set ys)"
  by (auto simp: normalize_codes_def bindr_Inr_iff mapr_texts)

lemma normalize_codes_ok: "normalize_codes vs = Inr xs \<Longrightarrow> codes_ok xs"
  by (auto simp: normalize_codes_Inr codes_ok_def)

lemma normalize_codes_again: "codes_ok xs \<Longrightarrow> normalize_codes (map PStr xs) = Inr xs"
  unfolding normalize_codes_Inr codes_ok_def using sorted_set_fixed by metis

definition constraints_ok :: "(pystr \<times> pystr) list \<Rightarrow> bool" where
  "constraints_ok xs \<longleftrightarrow> sorted xs \<and> distinct xs \<and> (\<forall>p\<in>set xs. text_ok 64 False (fst p) \<and> text_ok 128 False (snd p))"

lemma check_constraint_item_Inr:
  "check_constraint_item kv = Inr p \<longleftrightarrow> kv = map_prod PStr PStr p \<and> text_ok 64 False (fst p) \<and> text_ok 128 False (snd p)"
  by (cases kv; cases p) (auto simp: check_constraint_item_def result_simps)

lemma mapr_constraints:
  "mapr check_constraint_item kvs = Inr xs \<longleftrightarrow> kvs = map (map_prod PStr PStr) xs \<and>
     (\<forall>p\<in>set xs. text_ok 64 False (fst p) \<and> text_ok 128 False (snd p))"
  by (rule mapr_exact) (rule check_constraint_item_Inr)

lemma optional_value_Inr:
  "optional_value check v = Inr x \<longleftrightarrow> (if v = PNone then x = None else \<exists>y. check v = Inr y \<and> x = Some y)"
  by (auto simp: optional_value_def bindr_Inr_iff)

text \<open>A valid record; its own fields as arguments.\<close>

definition valid_capability :: "capability \<Rightarrow> bool" where
  "valid_capability r \<longleftrightarrow> check_capability_id (capability_kind r) (capability_id r) = Inr ()
     \<and> text_ok 256 False (capability_name r) \<and> text_ok 4096 True (description r)
     \<and> none_or (text_ok 64 False) (capability_version r)
     \<and> path_ok (relative_path r) \<and> none_or path_ok (entrypoint r)
     \<and> compatibility_status r \<in> set COMPATIBILITY_STATUSES \<and> provenance_status r \<in> set PROVENANCE_STATUSES
     \<and> none_or (text_ok 2048 False) (source_url r) \<and> none_or (text_ok 64 False) (license_name r)
     \<and> none_or is_sha256 (sha256 r) \<and> constraints_ok (compatibility r)
     \<and> codes_ok (permissions r) \<and> codes_ok (health_issues r) \<and> codes_ok (risk_reasons r)"

definition args_of :: "capability \<Rightarrow> capability_args" where
  "args_of r = \<lparr>arg_id = capability_id r, arg_kind = Some (capability_kind r),
     arg_name = PStr (capability_name r), arg_version = opt_value PStr (capability_version r),
     arg_description = PStr (description r), arg_path = PStr (relative_path r),
     arg_entrypoint = opt_value PStr (entrypoint r), arg_lifecycle = Some (lifecycle r),
     arg_permissions = map PStr (permissions r),
     arg_compatibility = map (map_prod PStr PStr) (compatibility r),
     arg_compatibility_status = compatibility_status r, arg_source_url = opt_value PStr (source_url r),
     arg_license = opt_value PStr (license_name r), arg_sha256 = sha256 r,
     arg_provenance = provenance_status r, arg_health = Some (health r),
     arg_health_issues = map PStr (health_issues r), arg_risk = Some (risk r),
     arg_risk_reasons = map PStr (risk_reasons r)\<rparr>"

lemma optional_text_value_Inr:
  "optional_value (\<lambda>v. validate_capability_text v n False) v = Inr x \<longleftrightarrow>
     v = opt_value PStr x \<and> none_or (text_ok n False) x"
  by (cases x) (auto simp: optional_value_Inr validate_capability_text_Inr)

lemma create_capability_Inr:
  "create_capability w = Inr r \<longleftrightarrow>
     arg_kind w = Some (capability_kind r) \<and> arg_lifecycle w = Some (lifecycle r) \<and>
     arg_health w = Some (health r) \<and> arg_risk w = Some (risk r) \<and> arg_id w = capability_id r \<and>
     check_capability_id (capability_kind r) (capability_id r) = Inr () \<and>
     arg_name w = PStr (capability_name r) \<and> text_ok 256 False (capability_name r) \<and>
     arg_description w = PStr (description r) \<and> text_ok 4096 True (description r) \<and>
     arg_version w = opt_value PStr (capability_version r) \<and> none_or (text_ok 64 False) (capability_version r) \<and>
     validate_relative_path (arg_path w) = Inr (relative_path r) \<and>
     optional_value validate_relative_path (arg_entrypoint w) = Inr (entrypoint r) \<and>
     arg_compatibility_status w = compatibility_status r \<and> compatibility_status r \<in> set COMPATIBILITY_STATUSES \<and>
     arg_provenance w = provenance_status r \<and> provenance_status r \<in> set PROVENANCE_STATUSES \<and>
     arg_source_url w = opt_value PStr (source_url r) \<and> none_or (text_ok 2048 False) (source_url r) \<and>
     arg_license w = opt_value PStr (license_name r) \<and> none_or (text_ok 64 False) (license_name r) \<and>
     arg_sha256 w = sha256 r \<and> none_or is_sha256 (sha256 r) \<and>
     (\<exists>items. mapr check_constraint_item (arg_compatibility w) = Inr items \<and> compatibility r = sorted_set items) \<and>
     normalize_codes (arg_permissions w) = Inr (permissions r) \<and>
     normalize_codes (arg_health_issues w) = Inr (health_issues r) \<and>
     normalize_codes (arg_risk_reasons w) = Inr (risk_reasons r)"
  unfolding create_capability_def
  by (cases r) (auto simp: bindr_Inr_iff need_Inr ensure_Inr optional_text_value_Inr validate_capability_text_Inr)

lemma create_capability_valid:
  assumes "create_capability w = Inr r"
  shows "valid_capability r"
proof -
  have "none_or path_ok (entrypoint r)"
    using assms by (auto simp: create_capability_Inr optional_value_Inr dest: validate_relative_path_ok split: if_splits)
  moreover have "constraints_ok (compatibility r)"
    using assms by (auto simp: create_capability_Inr mapr_constraints constraints_ok_def)
  ultimately show ?thesis
    using assms normalize_codes_ok validate_relative_path_ok
    unfolding create_capability_Inr valid_capability_def by blast
qed

text \<open>A path that the validator accepts as it is.\<close>

definition settled_path :: "pystr \<Rightarrow> bool" where
  "settled_path p \<longleftrightarrow> p \<noteq> u ''.'' \<and> \<not> has_drive p"

lemma create_again:
  assumes "valid_capability r"
  shows "create_capability (args_of r) = Inr r \<longleftrightarrow> settled_path (relative_path r) \<and> none_or settled_path (entrypoint r)"
proof -
  have entry: "optional_value validate_relative_path (opt_value PStr (entrypoint r)) = Inr (entrypoint r)
      \<longleftrightarrow> none_or settled_path (entrypoint r)"
    using assms by (cases "entrypoint r")
      (auto simp: optional_value_def bindr_Inr_iff valid_capability_def validate_path_again settled_path_def)
  have path: "validate_relative_path (PStr (relative_path r)) = Inr (relative_path r) \<longleftrightarrow> settled_path (relative_path r)"
    using assms by (simp add: valid_capability_def validate_path_again settled_path_def)
  have "\<exists>items. mapr check_constraint_item (map (map_prod PStr PStr) (compatibility r)) = Inr items \<and>
      compatibility r = sorted_set items"
    using assms by (intro exI [of _ "compatibility r"])
      (auto simp: valid_capability_def constraints_ok_def mapr_constraints sorted_set_fixed)
  then show ?thesis using assms path entry normalize_codes_again
    unfolding create_capability_Inr by (simp add: args_of_def valid_capability_def)
qed

lemma sort_key_perm:
  assumes "mset xs = mset ys" and "distinct (map f xs)"
  shows "sort_key f xs = sort_key f ys"
proof -
  have "inj_on f (set xs)" using assms(2) by (simp add: distinct_map)
  with assms(1) show ?thesis by (intro sort_key_inj_key_eq) simp_all
qed

lemma create_snapshot_Inr:
  "create_snapshot rs issues = Inr s \<longleftrightarrow> distinct (map capability_id rs) \<and>
     s = \<lparr>snapshot_records = sort_key capability_id rs, snapshot_issues = sorted_set issues\<rparr>"
proof -
  have "distinct (map capability_id (sort_key capability_id rs)) \<longleftrightarrow> distinct (map capability_id rs)"
    by (metis distinct_sort mset_eq_imp_distinct_iff mset_map mset_sort sort_key_def)
  then show ?thesis by (auto simp: create_snapshot_def Let_def result_simps)
qed

section \<open>Properties\<close>


definition demo_args :: "pystr \<Rightarrow> capability_args" where
  "demo_args p = \<lparr>arg_id = u ''skill:a'', arg_kind = Some Skill, arg_name = PStr (u ''a''), arg_version = PNone,
     arg_description = PStr [], arg_path = PStr p, arg_entrypoint = PNone, arg_lifecycle = Some Discovered,
     arg_permissions = [PStr (u ''net''), PStr (u ''fs'')], arg_compatibility = [],
     arg_compatibility_status = u ''unknown'', arg_source_url = PNone, arg_license = PNone, arg_sha256 = None,
     arg_provenance = u ''incomplete'', arg_health = Some Healthy, arg_health_issues = [],
     arg_risk = Some LowRisk, arg_risk_reasons = []\<rparr>"

lemma demo_created: "map_sum id relative_path (create_capability (demo_args (u ''skills/a''))) = Inr (u ''skills/a'')"
  by code_simp


text \<open>
  The check of relative paths looks for a drive letter before it normalises: a drive path
  behind a leading \<open>./\<close> is accepted and comes out as the drive path the check is there to reject,
  and a lone dot comes out of \<open>./\<close> although the dot itself is refused.
\<close>

theorem drive_letter_behind_dot:
  "validate_relative_path (PStr (u ''./C:/x'')) = Inr (u ''C:/x'') \<and>
   validate_relative_path (PStr (u ''C:/x'')) = Inl ''path_invalid'' \<and>
   validate_relative_path (PStr (u ''./'')) = Inr (u ''.'') \<and>
   validate_relative_path (PStr (u ''.'')) = Inl ''path_invalid''"
  by (intro conjI) code_simp+

text \<open>
  A snapshot does not depend on the order of discovery: any arrangement of the same records
  and issues gives the same snapshot, or the same refusal of a repeated identifier.
\<close>

theorem snapshot_order_independent:
  assumes "mset rs = mset rs'" and "set issues = set issues'"
  shows "create_snapshot rs issues = create_snapshot rs' issues'"
proof (cases "distinct (map capability_id rs)")
  case True
  moreover have "distinct (map capability_id rs')"
    using True assms(1) by (metis mset_eq_imp_distinct_iff mset_map)
  ultimately show ?thesis
    using sort_key_perm [OF assms(1) True] sorted_set_perm [OF assms(2)]
    by (metis create_snapshot_Inr)
next
  case False
  then have "\<not> distinct (map capability_id rs')"
    using assms(1) by (metis mset_eq_imp_distinct_iff mset_map)
  with False have "\<nexists>s. create_snapshot rs issues = Inr s" "\<nexists>s. create_snapshot rs' issues' = Inr s"
    by (simp_all add: create_snapshot_Inr)
  then show ?thesis by (auto simp: create_snapshot_def Let_def ensure_def)
qed

lemma snapshot_order_independent_witness:
  "create_snapshot [] (map u [''b'', ''a'', ''b'']) = create_snapshot [] (map u [''a'', ''b''])"
  by (rule snapshot_order_independent) auto

end
