(* ===== verification/Capability_Resolver.thy ===== *)
theory Capability_Resolver
  imports Capability_Manifest
begin

text \<open>
  Compatibility and ranking of capabilities, \<open>src/core/kernel/capability_resolver.py\<close>, and the
  request parsing of \<open>capability_api.py\<close>. What Python takes from the Unicode database (decimal
  values, word characters, \<open>casefold\<close>) is the parameter \<open>uc\<close>.
\<close>

record unicode =
  decimal :: "nat \<Rightarrow> nat option"
  word_char :: "nat \<Rightarrow> bool"
  casefold :: "pystr \<Rightarrow> pystr"

definition ascii_unicode :: unicode where
  "ascii_unicode = \<lparr>decimal = (\<lambda>c. if ascii_digit c then Some (c - 48) else None),
     word_char = (\<lambda>c. ascii_alnum c \<or> c = 95),
     casefold = map (\<lambda>c. if 65 \<le> c \<and> c \<le> 90 then c + 32 else c)\<rparr>"

definition risk_order :: "capability_risk \<Rightarrow> nat" where
  "risk_order r = (case r of LowRisk \<Rightarrow> 0 | MediumRisk \<Rightarrow> 1 | HighRisk \<Rightarrow> 2)"

instantiation capability_risk :: linorder
begin

definition less_eq_capability_risk :: "capability_risk \<Rightarrow> capability_risk \<Rightarrow> bool" where
  "less_eq_capability_risk a b \<longleftrightarrow> risk_order a \<le> risk_order b"

definition less_capability_risk :: "capability_risk \<Rightarrow> capability_risk \<Rightarrow> bool" where
  "less_capability_risk a b \<longleftrightarrow> risk_order a < risk_order b"

instance
  by standard
    (auto simp: less_eq_capability_risk_def less_capability_risk_def risk_order_def
      split: capability_risk.splits)

end

section \<open>Versions and constraints\<close>

type_synonym version = "nat \<times> nat \<times> nat \<times> nat"

definition is_number :: "unicode \<Rightarrow> pystr \<Rightarrow> bool" where
  "is_number uc s \<longleftrightarrow> s \<noteq> [] \<and> (\<forall>c\<in>set s. decimal uc c \<noteq> None)"

definition int_of :: "unicode \<Rightarrow> pystr \<Rightarrow> nat" where
  "int_of uc s = foldl (\<lambda>n c. 10 * n + (case decimal uc c of Some d \<Rightarrow> d | None \<Rightarrow> 0)) 0 s"

text \<open>\<open>\d+(?:\.\d+){0,3}\<close>, matched in full.\<close>

definition is_version :: "unicode \<Rightarrow> pystr \<Rightarrow> bool" where
  "is_version uc s \<longleftrightarrow> (let ps = split_at 46 s in length ps \<le> 4 \<and> (\<forall>p\<in>set ps. is_number uc p))"

definition parse_version :: "unicode \<Rightarrow> pyval \<Rightarrow> string + version" where
  "parse_version uc v =
     bindr (need (as_str v) ''version_invalid'') (\<lambda>s.
     bindr (ensure (is_version uc s) ''version_invalid'') (\<lambda>_.
     let parts = map (int_of uc) (split_at 46 s) in
     bindr (ensure (\<forall>p\<in>set parts. p \<le> 999999) ''version_invalid'') (\<lambda>_.
     let xs = parts @ replicate (4 - length parts) 0 in Inr (xs ! 0, xs ! 1, xs ! 2, xs ! 3))))"

datatype comparison = CEq | CGe | CLe | CGt | CLt

definition split_operator :: "pystr \<Rightarrow> comparison \<times> pystr" where
  "split_operator s =
     (if take 2 s = u ''>='' then (CGe, drop 2 s)
      else if take 2 s = u ''<='' then (CLe, drop 2 s)
      else if take 2 s = u ''=='' then (CEq, drop 2 s)
      else if take 1 s = u ''>'' then (CGt, drop 1 s)
      else if take 1 s = u ''<'' then (CLt, drop 1 s)
      else (CEq, s))"

fun compare_versions :: "comparison \<Rightarrow> version \<Rightarrow> version \<Rightarrow> bool" where
  "compare_versions CEq a b = (a = b)"
| "compare_versions CGe a b = (a \<ge> b)"
| "compare_versions CLe a b = (a \<le> b)"
| "compare_versions CGt a b = (a > b)"
| "compare_versions CLt a b = (a < b)"

definition parse_clause :: "unicode \<Rightarrow> pystr \<Rightarrow> string + comparison \<times> version" where
  "parse_clause uc s = (case split_operator s of (c, rest) \<Rightarrow>
     bindr (ensure (is_version uc rest) ''constraint_invalid'') (\<lambda>_.
     bindr (parse_version uc (PStr rest)) (\<lambda>v. Inr (c, v))))"

fun check_clauses :: "unicode \<Rightarrow> version \<Rightarrow> pystr list \<Rightarrow> string + bool" where
  "check_clauses uc a [] = Inr True"
| "check_clauses uc a (s # ss) = bindr (parse_clause uc s) (\<lambda>cv.
     if compare_versions (fst cv) a (snd cv) then check_clauses uc a ss else Inr False)"

definition constraint_clauses :: "pyval \<Rightarrow> string + pystr list" where
  "constraint_clauses v =
     bindr (need (as_str v) ''constraint_invalid'') (\<lambda>s.
     bindr (ensure (s \<noteq> [] \<and> length s \<le> 256) ''constraint_invalid'') (\<lambda>_.
     let clauses = map py_strip (split_at 44 s) in
     bindr (ensure (length clauses \<le> 8 \<and> [] \<notin> set clauses) ''constraint_invalid'') (\<lambda>_. Inr clauses)))"

definition evaluate_constraint :: "unicode \<Rightarrow> pyval \<Rightarrow> pyval \<Rightarrow> string + bool" where
  "evaluate_constraint uc actual constraint =
     bindr (parse_version uc actual) (\<lambda>a. bindr (constraint_clauses constraint) (check_clauses uc a))"

section \<open>Targets and queries\<close>

record compatibility_target =
  python :: "pystr option"
  node :: "pystr option"
  jarvis_api :: "pystr option"

definition check_runtime :: "unicode \<Rightarrow> pyval \<Rightarrow> string + pystr option" where
  "check_runtime uc v = (if v = PNone then Inr None
     else bindr (parse_version uc v) (\<lambda>_. Inr (as_str v)))"

definition CompatibilityTarget :: "unicode \<Rightarrow> pyval \<Rightarrow> pyval \<Rightarrow> pyval \<Rightarrow> string + compatibility_target" where
  "CompatibilityTarget uc p n j =
     bindr (check_runtime uc p) (\<lambda>pv. bindr (check_runtime uc n) (\<lambda>nv. bindr (check_runtime uc j) (\<lambda>jv.
       Inr \<lparr>python = pv, node = nv, jarvis_api = jv\<rparr>)))"

definition known_runtimes :: "pystr list" where
  "known_runtimes = map u [''python'', ''node'', ''jarvis_api'']"

definition value_for :: "compatibility_target \<Rightarrow> pystr \<Rightarrow> pystr option" where
  "value_for t r = (if r = u ''python'' then python t else if r = u ''node'' then node t
     else if r = u ''jarvis_api'' then jarvis_api t else None)"

record capability_query =
  query :: pystr
  query_kind :: "capability_kind option"
  compatible_only :: bool
  max_risk :: capability_risk
  query_limit :: nat

text \<open>The outer \<open>None\<close> of a kind or risk is a value of another type.\<close>

definition CapabilityQuery :: "pyval \<Rightarrow> capability_kind option option \<Rightarrow> pyval \<Rightarrow> capability_risk option \<Rightarrow> pyval
    \<Rightarrow> string + capability_query" where
  "CapabilityQuery q k co mr limit =
     bindr (need (as_str q) ''query_invalid'') (\<lambda>s.
     bindr (ensure (length s \<le> 256) ''query_invalid'') (\<lambda>_.
     bindr (need k ''kind_invalid'') (\<lambda>kind.
     bindr (need (as_bool co) ''compatible_only_invalid'') (\<lambda>c.
     bindr (need mr ''max_risk_invalid'') (\<lambda>r.
     bindr (need (as_int limit) ''limit_invalid'') (\<lambda>n.
     bindr (ensure (1 \<le> n \<and> n \<le> 100) ''limit_invalid'') (\<lambda>_.
     bindr (ensure (\<forall>x\<in>set s. 32 \<le> x \<and> \<not> is_surrogate x) ''query_invalid'') (\<lambda>_.
       Inr \<lparr>query = s, query_kind = kind, compatible_only = c, max_risk = r, query_limit = nat n\<rparr>))))))))"

section \<open>Compatibility\<close>

definition runtime_issue :: "unicode \<Rightarrow> compatibility_target \<Rightarrow> pystr \<times> pystr \<Rightarrow> (bool \<times> pystr) option" where
  "runtime_issue uc t kv =
     (let r = fst kv in
      if r \<notin> set known_runtimes then Some (False, u ''runtime_unknown:'' @ r)
      else (case value_for t r of
          None \<Rightarrow> Some (False, u ''runtime_unavailable:'' @ r)
        | Some a \<Rightarrow> (case evaluate_constraint uc (PStr a) (PStr (snd kv)) of
            Inl _ \<Rightarrow> Some (True, u ''constraint_invalid:'' @ r)
          | Inr False \<Rightarrow> Some (True, u ''constraint_mismatch:'' @ r)
          | Inr True \<Rightarrow> None)))"

definition evaluate_compatibility :: "unicode \<Rightarrow> capability \<Rightarrow> compatibility_target \<Rightarrow> string \<times> pystr list" where
  "evaluate_compatibility uc r t =
     (let issues = List.map_filter (runtime_issue uc t) (compatibility r);
          incompatible = map snd (filter fst issues);
          unknown = map snd (filter (\<lambda>x. \<not> fst x) issues) in
      if incompatible \<noteq> [] then (''incompatible'', sort (incompatible @ unknown))
      else if unknown \<noteq> [] then (''unknown'', sort unknown)
      else (''compatible'', []))"

section \<open>Ranking\<close>

fun tokens_from :: "unicode \<Rightarrow> pystr \<Rightarrow> pystr \<Rightarrow> pystr list" where
  "tokens_from uc w [] = (if w = [] then [] else [w])"
| "tokens_from uc w (c # cs) = (if word_char uc c \<and> c \<noteq> 95 then tokens_from uc (w @ [c]) cs
     else if w = [] then tokens_from uc [] cs else w # tokens_from uc [] cs)"

definition tokens :: "unicode \<Rightarrow> pystr \<Rightarrow> pystr list" where
  "tokens uc s = map (casefold uc) (tokens_from uc [] s)"

fun occurs_in :: "pystr \<Rightarrow> pystr \<Rightarrow> bool" where
  "occurs_in q [] = (q = [])"
| "occurs_in q (c # cs) = (take (length q) (c # cs) = q \<or> occurs_in q cs)"

record capability_match =
  match_record :: capability
  score :: int
  match_reasons :: "string list"
  match_status :: string
  match_compat_reasons :: "pystr list"

definition text_reasons :: "unicode \<Rightarrow> pystr \<Rightarrow> capability \<Rightarrow> (int \<times> string) list" where
  "text_reasons uc q r =
     (let qts = tokens uc q;
          ident = casefold uc (capability_id r);
          nm = casefold uc (capability_name r);
          desc = casefold uc (description r);
          hit = (\<lambda>ts. qts \<noteq> [] \<and> set qts \<subseteq> set ts) in
      (if q = ident then [(120, ''id_exact'')] else []) @
      (if q = nm then [(100, ''name_exact'')] else []) @
      (if hit (tokens uc ident) then [(35, ''id_token_match'')] else []) @
      (if hit (tokens uc nm) then [(40, ''name_token_match'')] else []) @
      (if occurs_in q desc then [(20, ''description_match'')]
       else if qts \<noteq> [] \<and> (\<forall>t\<in>set qts. occurs_in t desc) then [(10, ''description_token_match'')] else []))"

definition standing_reasons :: "string \<Rightarrow> capability \<Rightarrow> (int \<times> string) list" where
  "standing_reasons status r =
     (if health r = Healthy then [(6, ''healthy'')] else []) @
     (if status = ''compatible'' then [(5, ''compatible'')] else []) @
     (if provenance_status r \<in> {u ''complete'', u ''verified''} then [(4, ''provenance_complete'')] else []) @
     (case risk r of LowRisk \<Rightarrow> [(3, ''risk_low'')] | MediumRisk \<Rightarrow> [(1, ''risk_medium'')] | HighRisk \<Rightarrow> [])"

definition match_of :: "unicode \<Rightarrow> capability_query \<Rightarrow> compatibility_target \<Rightarrow> capability
    \<Rightarrow> capability_match option" where
  "match_of uc q t r =
     (if query_kind q \<noteq> None \<and> query_kind q \<noteq> Some (capability_kind r) then None
      else if risk r > max_risk q then None
      else (case evaluate_compatibility uc r t of (status, creasons) \<Rightarrow>
        if compatible_only q \<and> status \<noteq> ''compatible'' then None
        else (let nq = casefold uc (py_strip (query q));
                  found = (if nq = [] then [] else text_reasons uc nq r);
                  all = found @ standing_reasons status r in
          if nq \<noteq> [] \<and> found = [] then None
          else Some \<lparr>match_record = r, score = sum_list (map fst all), match_reasons = map snd all,
                      match_status = status, match_compat_reasons = creasons\<rparr>)))"

definition match_key :: "capability_match \<Rightarrow> int \<times> pystr" where
  "match_key m = (- score m, capability_id (match_record m))"

definition resolve :: "unicode \<Rightarrow> capability_snapshot \<Rightarrow> capability_query \<Rightarrow> compatibility_target
    \<Rightarrow> capability_match list" where
  "resolve uc s q t =
     take (query_limit q) (sort_key match_key (List.map_filter (match_of uc q t) (snapshot_records s)))"

section \<open>Facts\<close>

definition clause_holds :: "unicode \<Rightarrow> version \<Rightarrow> pystr \<Rightarrow> bool" where
  "clause_holds uc a s = (case parse_clause uc s of Inr cv \<Rightarrow> compare_versions (fst cv) a (snd cv) | Inl _ \<Rightarrow> False)"

lemma check_clauses_True: "check_clauses uc a ss = Inr True \<longleftrightarrow> (\<forall>s\<in>set ss. clause_holds uc a s)"
proof (induction ss)
  case (Cons s ss)
  then show ?case by (cases "parse_clause uc s") (simp_all add: clause_holds_def)
qed simp

lemma check_clauses_formed:
  "\<forall>s\<in>set ss. \<exists>cv. parse_clause uc s = Inr cv \<Longrightarrow> \<exists>b. check_clauses uc a ss = Inr b"
  by (induction ss) auto

lemma parse_version_valid:
  "parse_version uc v = Inr w \<Longrightarrow> \<exists>s. v = PStr s \<and> is_version uc s"
  by (auto simp: parse_version_def result_simps)

lemma match_of_record: "match_of uc q t r = Some m \<Longrightarrow> match_record m = r"
  by (auto simp: match_of_def Let_def split: if_splits prod.splits)

lemma map_filter_distinct:
  assumes "distinct (map g xs)" and "\<And>x y. f x = Some y \<Longrightarrow> g x = h y"
  shows "distinct (map h (List.map_filter f xs))"
  using assms(1)
proof (induction xs)
  case (Cons x xs)
  have "h y \<notin> h ` set (List.map_filter f xs)" if "f x = Some y" for y
  proof
    assume "h y \<in> h ` set (List.map_filter f xs)"
    then obtain x' y' where "x' \<in> set xs" "f x' = Some y'" "h y = h y'"
      by (auto simp: List.map_filter_def)
    with assms(2) that Cons.prems show False by (metis distinct.simps(2) image_eqI list.simps(9) set_map)
  qed
  with Cons show ?case by (cases "f x") (auto simp: List.map_filter_simps)
qed (simp add: List.map_filter_simps)

lemma map_filter_length: "length (List.map_filter f xs) = length (filter (\<lambda>x. f x \<noteq> None) xs)"
  by (simp add: List.map_filter_def comp_def)

lemma set_map_filter: "set (List.map_filter f xs) = {y. \<exists>x\<in>set xs. f x = Some y}"
  by (force simp: List.map_filter_def)

text \<open>The first elements of a list sorted by a key without repetitions.\<close>

lemma take_sorted:
  assumes "distinct (map key xs)" and ys_def: "ys = take n (sort_key key xs)"
  shows "sorted (map key ys)" "distinct (map key ys)" "set ys \<subseteq> set xs" "length ys = min n (length xs)"
    "x \<in> set xs \<Longrightarrow> x \<in> set ys \<or> (length ys = n \<and> (\<forall>y\<in>set ys. key y < key x))"
proof -
  let ?s = "sort_key key xs"
  have d: "distinct (map key ?s)"
    using assms(1) by (metis mset_eq_imp_distinct_iff mset_map mset_sort)
  show "sorted (map key ys)" unfolding ys_def take_map [symmetric] by (rule sorted_wrt_take) simp
  show "distinct (map key ys)" unfolding ys_def take_map [symmetric] using d by (rule distinct_take)
  show "set ys \<subseteq> set xs" unfolding ys_def using set_take_subset [of n ?s] by simp
  show "length ys = min n (length xs)" by (simp add: ys_def min.commute)
  assume x: "x \<in> set xs"
  then have "x \<in> set ?s" by simp
  then have "x \<in> set ys \<or> x \<in> set (drop n ?s)"
    unfolding ys_def by (metis Un_iff append_take_drop_id set_append)
  moreover have "length ys = n \<and> (\<forall>y\<in>set ys. key y < key x)" if dr: "x \<in> set (drop n ?s)"
  proof
    show "length ys = n" using dr by (cases "n \<le> length ?s") (auto simp: ys_def)
    have s: "sorted (map key ys @ map key (drop n ?s))" "distinct (map key ys @ map key (drop n ?s))"
      using d unfolding ys_def map_append [symmetric] append_take_drop_id by simp_all
    show "\<forall>y\<in>set ys. key y < key x"
    proof
      fix y assume "y \<in> set ys"
      with s dr have "key y \<le> key x" "key y \<noteq> key x" by (auto simp: sorted_append)
      then show "key y < key x" by simp
    qed
  qed
  ultimately show "x \<in> set ys \<or> (length ys = n \<and> (\<forall>y\<in>set ys. key y < key x))" by blast
qed

section \<open>Properties\<close>

text \<open>
  A version constraint is satisfied exactly when the version and the list of clauses are
  well formed and every clause parses and holds in the order of versions padded with zeros; a
  well-formed constraint always gets a definite answer.
\<close>

theorem constraint_satisfied_iff:
  "(evaluate_constraint uc a c = Inr True \<longleftrightarrow> (\<exists>v ss. parse_version uc a = Inr v \<and> constraint_clauses c = Inr ss \<and>
     (\<forall>s\<in>set ss. clause_holds uc v s))) \<and>
   (parse_version uc a = Inr v \<and> constraint_clauses c = Inr ss \<and> (\<forall>s\<in>set ss. \<exists>cv. parse_clause uc s = Inr cv) \<longrightarrow>
     (\<exists>b. evaluate_constraint uc a c = Inr b))"
  using check_clauses_formed [of ss uc v]
  by (auto simp: evaluate_constraint_def bindr_Inr_iff check_clauses_True)

lemma constraint_satisfied_iff_witness:
  "evaluate_constraint ascii_unicode (PStr (u ''3.11'')) (PStr (u ''>=3.9, <4'')) = Inr True"
proof -
  have "parse_version ascii_unicode (PStr (u ''3.11'')) = Inr (3, 11, 0, 0)"
    "constraint_clauses (PStr (u ''>=3.9, <4'')) = Inr (map u [''>=3.9'', ''<4''])"
    "parse_clause ascii_unicode (u ''>=3.9'') = Inr (CGe, 3, 9, 0, 0)"
    "parse_clause ascii_unicode (u ''<4'') = Inr (CLt, 4, 0, 0, 0)" by code_simp+
  then show ?thesis
    using constraint_satisfied_iff [of ascii_unicode "PStr (u ''3.11'')" "PStr (u ''>=3.9, <4'')"
      "(3, 11, 0, 0)" "map u [''>=3.9'', ''<4'']"]
    by (simp add: clause_holds_def less_eq_prod_def less_prod_def)
qed

text \<open>The order the results are promised in: the higher score first, equal scores by identifier.\<close>

definition ranks_above :: "capability_match \<Rightarrow> capability_match \<Rightarrow> bool" where
  "ranks_above m m' \<longleftrightarrow> score m' < score m
     \<or> score m = score m' \<and> capability_id (match_record m) < capability_id (match_record m')"

lemma match_key_order: "match_key m < match_key m' \<longleftrightarrow> ranks_above m m'"
  by (auto simp: match_key_def ranks_above_def)

text \<open>
  C25: resolution returns exactly the best matches: every result is a record of the snapshot that matches the
  query; each result has a higher score than every later one, or the same score and a smaller
  identifier; there are as many as the limit and the matching records allow; and a matching record is
  only left out when the limit is reached and every result ranks above it in that order.
\<close>

theorem resolve_is_best_matches:
  assumes "create_snapshot rs issues = Inr s" and ms: "ms = resolve uc s q t"
  shows "(\<forall>m\<in>set ms. match_record m \<in> set rs \<and> match_of uc q t (match_record m) = Some m) \<and>
    sorted_wrt (\<lambda>m m'. score m' < score m
      \<or> score m = score m' \<and> capability_id (match_record m) < capability_id (match_record m')) ms \<and>
    length ms = min (query_limit q) (length (filter (\<lambda>r. match_of uc q t r \<noteq> None) rs)) \<and>
    (\<forall>r\<in>set rs. \<forall>m. match_of uc q t r = Some m \<longrightarrow>
       m \<in> set ms \<or> (length ms = query_limit q \<and> (\<forall>m'\<in>set ms. score m < score m'
         \<or> score m' = score m \<and> capability_id (match_record m') < capability_id (match_record m))))"
proof -
  have ids: "distinct (map capability_id rs)" and s: "snapshot_records s = sort_key capability_id rs"
    using assms(1) by (auto simp: create_snapshot_Inr)
  let ?all = "List.map_filter (match_of uc q t) (snapshot_records s)"
  have "distinct (map capability_id (snapshot_records s))"
    unfolding s using ids by (metis mset_eq_imp_distinct_iff mset_map mset_sort)
  then have "distinct (map (\<lambda>m. capability_id (match_record m)) ?all)"
    by (rule map_filter_distinct) (simp add: match_of_record)
  then have "distinct (map match_key ?all)"
    by (auto simp: distinct_map match_key_def inj_on_def)
  note top = take_sorted [OF this ms [unfolded resolve_def]]
  have "sorted_wrt (<) (map match_key ms)" using top(1,2) by (simp add: strict_sorted_iff)
  then have order: "sorted_wrt ranks_above ms" by (simp add: sorted_wrt_map match_key_order)
  have set_all: "set ?all = {m. \<exists>r\<in>set rs. match_of uc q t r = Some m}"
    by (simp add: set_map_filter s)
  have len: "length ?all = length (filter (\<lambda>r. match_of uc q t r \<noteq> None) rs)"
    unfolding map_filter_length s by (metis filter_sort length_sort)
  have "match_record m \<in> set rs \<and> match_of uc q t (match_record m) = Some m" if "m \<in> set ms" for m
    using that top(3) set_all match_of_record by blast
  with order top len set_all show ?thesis unfolding ranks_above_def [symmetric] by (auto simp: match_key_order)
qed

definition demo_query :: capability_query where
  "demo_query = \<lparr>query = u ''a'', query_kind = None, compatible_only = False, max_risk = HighRisk, query_limit = 5\<rparr>"

definition demo_target :: compatibility_target where
  "demo_target = \<lparr>python = None, node = None, jarvis_api = None\<rparr>"

text \<open>Two records of the same name; the identifier of one of them holds the word that is looked for.\<close>

definition demo_pair :: "string + capability list" where
  "demo_pair = (case (create_capability (demo_args (u ''skills/a'') \<lparr>arg_id := u ''skill:0''\<rparr>),
     create_capability (demo_args (u ''skills/a''))) of (Inr r, Inr r') \<Rightarrow> Inr [r, r'] | (Inl err, _) \<Rightarrow> Inl err | (_, Inl err) \<Rightarrow> Inl err)"

lemma resolve_is_best_matches_witness:
  "\<exists>rs s. demo_pair = Inr rs \<and> create_snapshot rs [] = Inr s \<and>
     map (\<lambda>m. capability_id (match_record m)) (resolve ascii_unicode s demo_query demo_target) = [u ''skill:a'', u ''skill:0'']"
proof -
  have "map_sum id (map (\<lambda>r. (capability_id r, map_option score (match_of ascii_unicode demo_query demo_target r)))) demo_pair =
      Inr [(u ''skill:0'', Some 154), (u ''skill:a'', Some 189)]"
    by code_simp
  then obtain rs where rs: "demo_pair = Inr rs"
    "map (\<lambda>r. (capability_id r, map_option score (match_of ascii_unicode demo_query demo_target r))) rs =
      [(u ''skill:0'', Some 154), (u ''skill:a'', Some 189)]"
  proof (cases demo_pair)
    case (Inl a)
    from \<open>map_sum id _ demo_pair = _\<close> [unfolded Inl] show ?thesis by simp
  next
    case (Inr rs)
    from \<open>map_sum id _ demo_pair = _\<close> [unfolded Inr] have "map (\<lambda>r. (capability_id r, map_option score (match_of ascii_unicode demo_query demo_target r))) rs =
      [(u ''skill:0'', Some 154), (u ''skill:a'', Some 189)]" by simp
    with Inr show ?thesis by (rule that)
  qed
  then obtain r0 r1 m0 m1 where pair: "demo_pair = Inr [r0, r1]" and ids: "capability_id r0 = u ''skill:0''" "capability_id r1 = u ''skill:a''"
    and m: "match_of ascii_unicode demo_query demo_target r0 = Some m0" "match_of ascii_unicode demo_query demo_target r1 = Some m1"
      "score m0 = 154" "score m1 = 189"
    by (auto simp: map_eq_Cons_conv)
  obtain s where s: "create_snapshot [r0, r1] [] = Inr s" using ids by (auto simp: create_snapshot_Inr u_def)
  let ?ms = "resolve ascii_unicode s demo_query demo_target"
  note best = resolve_is_best_matches [OF s refl, of ascii_unicode demo_query demo_target]
  have "length ?ms = 2" using best m by (simp add: demo_query_def)
  moreover have "m0 \<in> set ?ms" "m1 \<in> set ?ms"
    using best m calculation by (auto simp: demo_query_def)
  moreover have "m0 \<noteq> m1" using m by auto
  ultimately have "?ms = [m0, m1] \<or> ?ms = [m1, m0]"
    by (auto simp: numeral_2_eq_2 length_Suc_conv)
  moreover have "?ms \<noteq> [m0, m1]"
  proof
    assume "?ms = [m0, m1]"
    with best have "sorted_wrt (\<lambda>m m'. score m' < score m
      \<or> score m = score m' \<and> capability_id (match_record m) < capability_id (match_record m')) [m0, m1]" by metis
    then show False using m(3,4) by simp
  qed
  moreover have "match_record m0 = r0" "match_record m1 = r1" using m(1,2) by (simp_all add: match_of_record)
  ultimately have "map (\<lambda>m. capability_id (match_record m)) ?ms = [u ''skill:a'', u ''skill:0'']" using ids by auto
  with pair s show ?thesis by (intro exI conjI)
qed

end
