(* ===== verification/Json_Text.thy ===== *)
theory Json_Text
  imports Py_Value "HOL-Library.Multiset"
begin

text \<open>
  JSON text and its size, as \<open>src/core/contracts/role_tool_protocol.py\<close> has them: the check of
  JSON values, freezing and thawing, \<open>json.dumps\<close> with sorted keys and compact separators, and
  the routine that measures the canonical encoding without building it. The equivalence of
  the two is the point of this theory.
\<close>

section \<open>JSON values\<close>

datatype json_error = JsonNonFinite | JsonKey | JsonUnsupported

text \<open>\<open>_require_json\<close>: the first offending value in traversal order decides the error.\<close>

definition check_key :: "pyval \<Rightarrow> json_error + unit" where
  "check_key k = ensure (as_str k \<noteq> None) JsonKey"

fun check_all :: "(json_error + unit) list \<Rightarrow> json_error + unit" where
  "check_all [] = Inr ()"
| "check_all (r # rs) = bindr r (\<lambda>_. check_all rs)"

primrec require_json :: "pyval \<Rightarrow> json_error + unit" where
  "require_json PNone = Inr ()"
| "require_json (PBool b) = Inr ()"
| "require_json (PInt i) = Inr ()"
| "require_json (PFloat f) = (case f of Fin _ _ \<Rightarrow> Inr () | NonFin _ \<Rightarrow> Inl JsonNonFinite)"
| "require_json (PStr s) = Inr ()"
| "require_json (PList xs) = check_all (map require_json xs)"
| "require_json (PTuple xs) = check_all (map require_json xs)"
| "require_json (PDict d) = check_all
     (map2 (\<lambda>(k, v) (_, rv). bindr (check_key k) (\<lambda>_. rv)) d
       (map (map_prod require_json require_json) d))"
| "require_json (POther n) = Inl JsonUnsupported"

text \<open>
  \<open>_freeze\<close> turns lists into tuples, \<open>_thaw\<close> tuples into lists. A frozen value holds mapping proxies, in
  tuples and in each other only, and thawing such a value turns every proxy into a dict: \<open>PDict\<close> stands
  for both. A list is thawed as it is, so a list that holds a proxy, which freezing never makes, could not be
  dumped; such a list is not a value of the model.
\<close>

primrec freeze :: "pyval \<Rightarrow> pyval" where
  "freeze PNone = PNone"
| "freeze (PBool b) = PBool b"
| "freeze (PInt i) = PInt i"
| "freeze (PFloat f) = PFloat f"
| "freeze (PStr s) = PStr s"
| "freeze (PList xs) = PTuple (map freeze xs)"
| "freeze (PTuple xs) = PTuple (map freeze xs)"
| "freeze (PDict d) = PDict (zip (map fst d) (map snd (map (map_prod freeze freeze) d)))"
| "freeze (POther n) = POther n"

primrec thaw :: "pyval \<Rightarrow> pyval" where
  "thaw PNone = PNone"
| "thaw (PBool b) = PBool b"
| "thaw (PInt i) = PInt i"
| "thaw (PFloat f) = PFloat f"
| "thaw (PStr s) = PStr s"
| "thaw (PList xs) = PList xs"
| "thaw (PTuple xs) = PList (map thaw xs)"
| "thaw (PDict d) = PDict (zip (map fst d) (map snd (map (map_prod thaw thaw) d)))"
| "thaw (POther n) = POther n"

section \<open>Canonical text\<close>

fun dec_nat :: "nat \<Rightarrow> pystr" where
  "dec_nat n = (if n < 10 then [48 + n] else dec_nat (n div 10) @ [48 + n mod 10])"

declare dec_nat.simps [simp del]

definition dec_int :: "int \<Rightarrow> pystr" where
  "dec_int i = (if i < 0 then 45 # dec_nat (nat (- i)) else dec_nat (nat i))"

definition hex_digit :: "nat \<Rightarrow> nat" where
  "hex_digit n = (if n < 10 then 48 + n else 87 + n)"

definition json_char :: "nat \<Rightarrow> pystr" where
  "json_char c = (if c = 34 then [92, 34] else if c = 92 then [92, 92]
     else if c = 8 then [92, 98] else if c = 9 then [92, 116] else if c = 10 then [92, 110]
     else if c = 12 then [92, 102] else if c = 13 then [92, 114]
     else if c < 32 then [92, 117, 48, 48, hex_digit (c div 16), hex_digit (c mod 16)]
     else [c])"

definition json_string :: "pystr \<Rightarrow> pystr" where
  "json_string s = 34 # concat (map json_char s) @ [34]"

fun join_comma :: "pystr list \<Rightarrow> pystr" where
  "join_comma [] = []"
| "join_comma [t] = t"
| "join_comma (t # ts) = t @ 44 # join_comma ts"

text \<open>
  \<open>json.dumps(v, ensure_ascii=False, separators=(",", ":"), sort_keys=True)\<close> on a value that
  \<open>require_json\<close> accepts; a key is a string there.
\<close>

definition key_text :: "pyval \<Rightarrow> pystr" where
  "key_text k = (case as_str k of Some s \<Rightarrow> s | None \<Rightarrow> [])"

definition member_text :: "pystr \<times> pystr \<Rightarrow> pystr" where
  "member_text m = json_string (fst m) @ 58 # snd m"

primrec json_dumps :: "pyval \<Rightarrow> pystr" where
  "json_dumps PNone = u ''null''"
| "json_dumps (PBool b) = (if b then u ''true'' else u ''false'')"
| "json_dumps (PInt i) = dec_int i"
| "json_dumps (PFloat f) = (case f of Fin _ t \<Rightarrow> t | NonFin t \<Rightarrow> t)"
| "json_dumps (PStr s) = json_string s"
| "json_dumps (PList xs) = 91 # join_comma (map json_dumps xs) @ [93]"
| "json_dumps (PTuple xs) = 91 # join_comma (map json_dumps xs) @ [93]"
| "json_dumps (PDict d) = 123 # join_comma (map member_text (sort_key fst
     (zip (map (key_text \<circ> fst) d) (map snd (map (map_prod json_dumps json_dumps) d))))) @ [125]"
| "json_dumps (POther n) = []"

text \<open>Bytes are kept as their text; encoding fails on a lone surrogate.\<close>

datatype size_error = SizeProtocol json_error | SizeOverflow | SizeUnicode | SizeLimit

definition stable_json_bytes :: "pyval \<Rightarrow> size_error + pystr" where
  "stable_json_bytes v = (case require_json v of
       Inl e \<Rightarrow> Inl (SizeProtocol e)
     | Inr _ \<Rightarrow> (let t = json_dumps (thaw v) in
         if utf8_length t = None then Inl SizeUnicode else Inr t))"

section \<open>Measuring without building\<close>

text \<open>The running total is the state; \<open>add\<close> raises as soon as it exceeds the cap.\<close>

definition add_size :: "nat \<Rightarrow> nat \<Rightarrow> nat \<Rightarrow> size_error + nat" where
  "add_size m k t = (if t + k > m then Inl SizeOverflow else Inr (t + k))"

definition char_size :: "nat \<Rightarrow> nat \<Rightarrow> nat \<Rightarrow> size_error + nat" where
  "char_size m c t =
     (if c \<in> {34, 92, 8, 9, 10, 12, 13} then add_size m 2 t
      else if c < 32 then add_size m 6 t
      else if c < 128 then add_size m 1 t
      else if c < 2048 then add_size m 2 t
      else if 55296 \<le> c \<and> c \<le> 57343 then Inl SizeUnicode
      else if c < 65536 then add_size m 3 t
      else add_size m 4 t)"

fun chars_size :: "nat \<Rightarrow> pystr \<Rightarrow> nat \<Rightarrow> size_error + nat" where
  "chars_size m [] t = Inr t"
| "chars_size m (c # cs) t = bindr (char_size m c t) (chars_size m cs)"

definition string_size :: "nat \<Rightarrow> pystr \<Rightarrow> nat \<Rightarrow> size_error + nat" where
  "string_size m s t = bindr (add_size m 2 t) (chars_size m s)"

fun members_size :: "nat \<Rightarrow> bool \<Rightarrow> (nat \<Rightarrow> size_error + nat) list \<Rightarrow> nat \<Rightarrow> size_error + nat" where
  "members_size m first [] t = Inr t"
| "members_size m first (f # fs) t =
     bindr (if first then Inr t else add_size m 1 t) (\<lambda>t. bindr (f t) (members_size m False fs))"

text \<open>In a mapping the key is tested before the separating comma is counted.\<close>

fun entries_size :: "nat \<Rightarrow> bool \<Rightarrow> (pyval \<times> (nat \<Rightarrow> size_error + nat)) list \<Rightarrow> nat \<Rightarrow> size_error + nat" where
  "entries_size m first [] t = Inr t"
| "entries_size m first ((k, f) # fs) t = (case as_str k of
       None \<Rightarrow> Inl (SizeProtocol JsonKey)
     | Some s \<Rightarrow> bindr (if first then Inr t else add_size m 1 t) (\<lambda>t.
         bindr (string_size m s t) (\<lambda>t. bindr (add_size m 1 t) (\<lambda>t.
         bindr (f t) (entries_size m False fs)))))"

primrec visit_size :: "nat \<Rightarrow> pyval \<Rightarrow> nat \<Rightarrow> size_error + nat" where
  "visit_size m PNone = add_size m 4"
| "visit_size m (PBool b) = add_size m (if b then 4 else 5)"
| "visit_size m (PInt i) = add_size m (length (dec_int i))"
| "visit_size m (PFloat f) = (case f of
       NonFin _ \<Rightarrow> (\<lambda>_. Inl (SizeProtocol JsonNonFinite))
     | Fin _ txt \<Rightarrow> (case utf8_length txt of
         None \<Rightarrow> (\<lambda>_. Inl SizeUnicode) | Some k \<Rightarrow> add_size m k))"
| "visit_size m (PStr s) = string_size m s"
| "visit_size m (PList xs) = (\<lambda>t. bindr (add_size m 1 t) (\<lambda>t.
     bindr (members_size m True (map (visit_size m) xs) t) (add_size m 1)))"
| "visit_size m (PTuple xs) = (\<lambda>t. bindr (add_size m 1 t) (\<lambda>t.
     bindr (members_size m True (map (visit_size m) xs) t) (add_size m 1)))"
| "visit_size m (PDict d) = (\<lambda>t. bindr (add_size m 1 t) (\<lambda>t.
     bindr (entries_size m True
       (zip (map fst d) (map snd (map (map_prod (visit_size m) (visit_size m)) d))) t) (add_size m 1)))"
| "visit_size m (POther n) = (\<lambda>_. Inl (SizeProtocol JsonUnsupported))"

definition bounded_stable_json_size :: "pyval \<Rightarrow> int \<Rightarrow> size_error + nat" where
  "bounded_stable_json_size v max_bytes =
     (if max_bytes < 0 then Inl SizeLimit else visit_size (nat max_bytes) v 0)"

section \<open>Sizes of texts\<close>

definition encodable :: "pystr \<Rightarrow> bool" where
  "encodable s \<longleftrightarrow> (\<forall>c\<in>set s. \<not> is_surrogate c)"

definition usize :: "pystr \<Rightarrow> nat" where
  "usize s = sum_list (map (\<lambda>c. if c < 128 then 1 else if c < 2048 then 2 else if c < 65536 then 3 else 4) s)"

lemma utf8_length_usize: "utf8_length s = (if encodable s then Some (usize s) else None)"
  by (induction s) (auto simp: encodable_def usize_def utf8_width_def)

lemma encodable_simps [simp]: "encodable []" "encodable (c # s) \<longleftrightarrow> \<not> is_surrogate c \<and> encodable s"
  "encodable (s @ t) \<longleftrightarrow> encodable s \<and> encodable t"
  by (auto simp: encodable_def)

lemma usize_simps [simp]: "usize [] = 0"
  "usize (c # s) = (if c < 128 then 1 else if c < 2048 then 2 else if c < 65536 then 3 else 4) + usize s"
  "usize (s @ t) = usize s + usize t"
  by (auto simp: usize_def)

lemma dec_nat_ascii: "c \<in> set (dec_nat n) \<Longrightarrow> 48 \<le> c \<and> c < 58"
proof (induction n rule: dec_nat.induct)
  case (1 n)
  then show ?case
    by (subst (asm) (2) dec_nat.simps) (auto split: if_splits)
qed

lemma usize_ascii: "\<forall>c\<in>set s. c < 128 \<Longrightarrow> usize s = length s \<and> encodable s"
  by (induction s) (auto simp: is_surrogate_def)

lemma usize_dec_int [simp]: "usize (dec_int i) = length (dec_int i)" "encodable (dec_int i)"
proof -
  have "\<forall>c\<in>set (dec_int i). c < 128" by (auto simp: dec_int_def dest: dec_nat_ascii)
  from usize_ascii [OF this] show "usize (dec_int i) = length (dec_int i)" "encodable (dec_int i)"
    by simp_all
qed

lemma json_char_encodable [simp]: "encodable (json_char c) \<longleftrightarrow> \<not> is_surrogate c"
  by (auto simp: json_char_def is_surrogate_def hex_digit_def)

lemma json_string_encodable [simp]: "encodable (json_string s) \<longleftrightarrow> encodable s"
  by (induction s) (auto simp: json_string_def is_surrogate_def)

lemma join_comma_encodable [simp]: "encodable (join_comma ts) \<longleftrightarrow> (\<forall>t\<in>set ts. encodable t)"
  by (induction ts rule: join_comma.induct) (auto simp: is_surrogate_def)

lemma join_comma_usize: "usize (join_comma ts) = sum_list (map usize ts) + (length ts - 1)"
  by (induction ts rule: join_comma.induct) auto

section \<open>The measuring routine adds the size of the text\<close>

text \<open>\<open>adds m f k\<close>: from a total within the cap, \<open>f\<close> adds \<open>k\<close> or overflows.\<close>

definition adds :: "nat \<Rightarrow> (nat \<Rightarrow> size_error + nat) \<Rightarrow> nat \<Rightarrow> bool" where
  "adds m f k \<longleftrightarrow> (\<forall>t\<le>m. f t = (if t + k \<le> m then Inr (t + k) else Inl SizeOverflow))"

definition fails :: "nat \<Rightarrow> (nat \<Rightarrow> size_error + nat) \<Rightarrow> bool" where
  "fails m f \<longleftrightarrow> (\<forall>t\<le>m. \<exists>e. f t = Inl e)"

definition measures :: "nat \<Rightarrow> (nat \<Rightarrow> size_error + nat) \<Rightarrow> bool \<Rightarrow> nat \<Rightarrow> bool" where
  "measures m f ok k \<longleftrightarrow> (if ok then adds m f k else fails m f)"

lemma add_size_adds: "adds m (add_size m k) k"
  by (auto simp: adds_def add_size_def)

lemma adds_bind: "adds m f a \<Longrightarrow> adds m g b \<Longrightarrow> adds m (\<lambda>t. bindr (f t) g) (a + b)"
  by (auto simp: adds_def add.assoc)

lemma adds_bind_fails: "adds m f a \<Longrightarrow> fails m g \<Longrightarrow> fails m (\<lambda>t. bindr (f t) g)"
  by (auto simp: adds_def fails_def)

lemma fails_bind: "fails m f \<Longrightarrow> fails m (\<lambda>t. bindr (f t) g)"
  by (fastforce simp: fails_def)

lemma measures_bind:
  "measures m f p a \<Longrightarrow> (p \<Longrightarrow> measures m g q b) \<Longrightarrow> measures m (\<lambda>t. bindr (f t) g) (p \<and> q) (a + b)"
  by (cases p; cases q) (simp_all add: measures_def adds_bind adds_bind_fails fails_bind)

lemma measures_eq: "measures m f p a \<Longrightarrow> p = q \<Longrightarrow> a = b \<Longrightarrow> measures m f q b"
  by simp

lemma measures_add_size: "measures m (add_size m k) True k"
  by (simp add: measures_def add_size_adds)

lemma measures_skip: "measures m (\<lambda>t. if first then Inr t else add_size m 1 t) True (if first then 0 else 1)"
  by (auto simp: measures_def adds_def add_size_def)

lemma json_char_usize:
  "usize (json_char c) = (if c \<in> {34, 92, 8, 9, 10, 12, 13} then 2 else if c < 32 then 6
     else if c < 128 then 1 else if c < 2048 then 2 else if c < 65536 then 3 else 4)"
  by (auto simp: json_char_def hex_digit_def)

lemma char_size_add: "\<not> is_surrogate c \<Longrightarrow> char_size m c = add_size m (usize (json_char c))"
  unfolding json_char_usize char_size_def is_surrogate_def by (rule ext) presburger

lemma char_size_surrogate: "is_surrogate c \<Longrightarrow> char_size m c t = Inl SizeUnicode"
  by (simp add: char_size_def is_surrogate_def)

lemma char_size_measures:
  "measures m (char_size m c) (\<not> is_surrogate c) (usize (json_char c))"
  by (simp add: measures_def char_size_add add_size_adds fails_def char_size_surrogate)

lemma chars_size_measures:
  "measures m (chars_size m s) (encodable s) (usize (concat (map json_char s)))"
proof (induction s)
  case Nil
  then show ?case by (simp add: measures_def adds_def)
next
  case (Cons c s)
  have "chars_size m (c # s) = (\<lambda>t. bindr (char_size m c t) (chars_size m s))"
    by (rule ext) simp
  then show ?case using measures_bind [OF char_size_measures Cons.IH, of c] by simp
qed

lemma string_size_measures: "measures m (string_size m s) (encodable s) (usize (json_string s))"
proof -
  have "string_size m s = (\<lambda>t. bindr (add_size m 2 t) (chars_size m s))"
    by (rule ext) (simp add: string_size_def)
  then show ?thesis
    using measures_bind [OF measures_add_size chars_size_measures, of m 2 s]
    by (simp add: json_string_def)
qed

lemma members_size_measures:
  "list_all2 (\<lambda>f (ok, k). measures m f ok k) fs ks \<Longrightarrow>
     measures m (members_size m first fs) (\<forall>(ok, k)\<in>set ks. ok)
       (sum_list (map snd ks) + (if first then length ks - 1 else length ks))"
proof (induction fs ks arbitrary: first rule: list_all2_induct)
  case Nil
  then show ?case by (simp add: measures_def adds_def)
next
  case (Cons f fs x ks)
  obtain ok k where x: "x = (ok, k)" by (cases x)
  have eq: "members_size m first (f # fs) = (\<lambda>t. bindr (if first then Inr t else add_size m 1 t)
      (\<lambda>t. bindr (f t) (members_size m False fs)))"
    by (rule ext) simp
  have f: "measures m f ok k" using Cons.hyps(1) x by simp
  have "measures m (members_size m first (f # fs))
      (True \<and> ok \<and> (\<forall>(ok, k)\<in>set ks. ok))
      ((if first then 0 else 1) + (k + (sum_list (map snd ks) + length ks)))"
    unfolding eq
    by (intro measures_bind measures_skip f) (use Cons.IH [of False] in simp)
  moreover have "(True \<and> ok \<and> (\<forall>(ok, k)\<in>set ks. ok)) = (\<forall>(ok, k)\<in>set (x # ks). ok)"
    by (simp add: x)
  moreover have "(if first then 0 else 1) + (k + (sum_list (map snd ks) + length ks))
      = sum_list (map snd (x # ks)) + (if first then length (x # ks) - 1 else length (x # ks))"
    by (simp add: x)
  ultimately show ?case by (rule measures_eq)
qed

text \<open>A mapping entry measures as its key, the colon and its value.\<close>

lemma entries_size_measures:
  "list_all2 (\<lambda>(_, f) (ok, k). measures m f ok k) es ks \<Longrightarrow>
     measures m (entries_size m first es)
       ((\<forall>(k, _)\<in>set es. as_str k \<noteq> None \<and> encodable (key_text k)) \<and> (\<forall>(ok, k)\<in>set ks. ok))
       (sum_list (map (\<lambda>(k, _). usize (json_string (key_text k)) + 1) es) + sum_list (map snd ks)
         + (if first then length ks - 1 else length ks))"
proof (induction es ks arbitrary: first rule: list_all2_induct)
  case Nil
  then show ?case by (simp add: measures_def adds_def)
next
  case (Cons e es x ks)
  obtain ok n where x: "x = (ok, n)" by (cases x)
  obtain k f where e: "e = (k, f)" by (cases e)
  have f: "measures m f ok n" using Cons.hyps(1) x e by simp
  show ?case
  proof (cases "as_str k")
    case None
    then have "fails m (entries_size m first (e # es))" by (simp add: e fails_def)
    then show ?thesis using None by (auto simp: measures_def e simp del: entries_size.simps)
  next
    case (Some s)
    then have k: "key_text k = s" "as_str k \<noteq> None" by (simp_all add: key_text_def)
    have eq: "entries_size m first (e # es) = (\<lambda>t. bindr (if first then Inr t else add_size m 1 t)
        (\<lambda>t. bindr (string_size m s t) (\<lambda>t. bindr (add_size m 1 t) (\<lambda>t.
           bindr (f t) (entries_size m False es)))))"
      using Some by (intro ext) (simp add: e)
    let ?ok = "(\<forall>(k, _)\<in>set es. as_str k \<noteq> None \<and> encodable (key_text k)) \<and> (\<forall>(ok, k)\<in>set ks. ok)"
    let ?n = "sum_list (map (\<lambda>(k, _). usize (json_string (key_text k)) + 1) es)
      + sum_list (map snd ks) + length ks"
    have "measures m (entries_size m first (e # es))
        (True \<and> encodable s \<and> True \<and> ok \<and> ?ok)
        ((if first then 0 else 1) + (usize (json_string s) + (1 + (n + ?n))))"
      unfolding eq
      by (intro measures_bind measures_skip measures_add_size string_size_measures f)
         (use Cons.IH [of False] in simp)
    moreover have "(True \<and> encodable s \<and> True \<and> ok \<and> ?ok) =
        ((\<forall>(k, _)\<in>set (e # es). as_str k \<noteq> None \<and> encodable (key_text k)) \<and> (\<forall>(ok, k)\<in>set (x # ks). ok))"
      using k by (auto simp: x e)
    moreover have "(if first then 0 else 1) + (usize (json_string s) + (1 + (n + ?n))) =
        sum_list (map (\<lambda>(k, _). usize (json_string (key_text k)) + 1) (e # es)) + sum_list (map snd (x # ks))
         + (if first then length (x # ks) - 1 else length (x # ks))"
      using k by (simp add: x e)
    ultimately show ?thesis by (rule measures_eq)
  qed
qed

section \<open>The size of the canonical text\<close>

lemma check_all_Inr: "check_all rs = Inr () \<longleftrightarrow> (\<forall>r\<in>set rs. r = Inr ())"
  by (induction rs) (auto simp: result_simps)

lemma require_json_seq [simp]:
  "require_json (PList xs) = Inr () \<longleftrightarrow> (\<forall>x\<in>set xs. require_json x = Inr ())"
  "require_json (PTuple xs) = Inr () \<longleftrightarrow> (\<forall>x\<in>set xs. require_json x = Inr ())"
  by (auto simp: check_all_Inr)

lemma require_json_dict [simp]:
  "require_json (PDict d) = Inr () \<longleftrightarrow>
     (\<forall>(k, v)\<in>set d. as_str k \<noteq> None \<and> require_json v = Inr ())"
proof -
  have "map2 (\<lambda>(k, v) (_, rv). bindr (check_key k) (\<lambda>_. rv)) d
       (map (map_prod require_json require_json) d)
      = map (\<lambda>(k, v). bindr (check_key k) (\<lambda>_. require_json v)) d"
    by (induction d) auto
  then show ?thesis by (auto simp: check_all_Inr check_key_def result_simps)
qed

lemma thaw_dict: "thaw (PDict d) = PDict (map (\<lambda>(k, v). (k, thaw v)) d)"
  by (induction d) (auto simp: zip_map_fst_snd)

lemma freeze_dict: "freeze (PDict d) = PDict (map (\<lambda>(k, v). (k, freeze v)) d)"
  by (induction d) auto

lemma dumps_dict: "json_dumps (PDict d) = 123 # join_comma (map member_text (sort_key fst
     (map (\<lambda>(k, v). (key_text k, json_dumps v)) d))) @ [125]"
proof -
  have "zip (map (key_text \<circ> fst) d) (map snd (map (map_prod json_dumps json_dumps) d))
      = map (\<lambda>(k, v). (key_text k, json_dumps v)) d"
    by (induction d) auto
  then show ?thesis by simp
qed

text \<open>Thawing changes no text.\<close>

lemma dumps_thaw: "json_dumps (thaw v) = json_dumps v"
proof (induction v)
  case (PDict d)
  have "map (\<lambda>(k, v). (key_text k, json_dumps v)) (map (\<lambda>(k, v). (k, thaw v)) d)
      = map (\<lambda>(k, v). (key_text k, json_dumps v)) d"
    using PDict by (auto elim: snds.cases)
  then show ?case by (simp only: thaw_dict dumps_dict)
next
  case (PTuple xs)
  then show ?case by (simp cong: map_cong)
qed simp_all

lemma dumps_freeze: "json_dumps (freeze v) = json_dumps v"
proof (induction v)
  case (PDict d)
  have "map (\<lambda>(k, v). (key_text k, json_dumps v)) (map (\<lambda>(k, v). (k, freeze v)) d)
      = map (\<lambda>(k, v). (key_text k, json_dumps v)) d"
    using PDict by (auto elim: snds.cases)
  then show ?case by (simp only: freeze_dict dumps_dict)
qed (simp_all cong: map_cong)

lemma sum_list_sort_key: "sum_list (map f (sort_key k xs)) = sum_list (map f xs)" for f :: "'a \<Rightarrow> nat"
proof -
  have "mset (map f (sort_key k xs)) = mset (map f xs)" by simp
  then show ?thesis by (metis sum_mset_sum_list)
qed

definition json_ok :: "pyval \<Rightarrow> bool" where
  "json_ok v \<longleftrightarrow> require_json v = Inr () \<and> encodable (json_dumps v)"

lemma seq_measures:
  assumes "\<And>x. x \<in> set xs \<Longrightarrow> measures m (visit_size m x) (json_ok x) (usize (json_dumps x))"
  shows "measures m (\<lambda>t. bindr (add_size m 1 t) (\<lambda>t.
      bindr (members_size m True (map (visit_size m) xs) t) (add_size m 1)))
    (json_ok (PList xs)) (usize (json_dumps (PList xs)))"
proof -
  have "list_all2 (\<lambda>f (ok, k). measures m f ok k) (map (visit_size m) xs)
      (map (\<lambda>x. (json_ok x, usize (json_dumps x))) xs)"
    using assms by (simp add: list_all2_map1 list_all2_map2 list_all2_same)
  note body = members_size_measures [OF this, of True]
  show ?thesis
    by (rule measures_eq, rule measures_bind [OF measures_add_size], rule measures_bind [OF body],
        rule measures_add_size)
       (auto simp: json_ok_def is_surrogate_def join_comma_usize comp_def check_all_Inr)
qed

lemma dict_measures:
  assumes "\<And>k v. (k, v) \<in> set d \<Longrightarrow> measures m (visit_size m v) (json_ok v) (usize (json_dumps v))"
  shows "measures m (visit_size m (PDict d)) (json_ok (PDict d)) (usize (json_dumps (PDict d)))"
proof -
  have eq: "zip (map fst d) (map snd (map (map_prod (visit_size m) (visit_size m)) d))
      = map (\<lambda>(k, v). (k, visit_size m v)) d"
    by (induction d) auto
  have "list_all2 (\<lambda>(_, f) (ok, k). measures m f ok k) (map (\<lambda>(k, v). (k, visit_size m v)) d)
      (map (\<lambda>(k, v). (json_ok v, usize (json_dumps v))) d)"
    using assms by (fastforce simp: list_all2_map1 list_all2_map2 list_all2_same)
  note body = entries_size_measures [OF this, of True]
  let ?ms = "map (\<lambda>(k, v). (key_text k, json_dumps v)) d"
  have sizes: "usize (json_dumps (PDict d)) = 1 + (sum_list (map (usize \<circ> member_text) ?ms)
      + (length d - 1) + 1)"
  proof -
    have "sum_list (map usize (map member_text (sort_key fst ?ms))) = sum_list (map (usize \<circ> member_text) ?ms)"
      using sum_list_sort_key [of "usize \<circ> member_text" fst ?ms] by simp
    then show ?thesis unfolding dumps_dict by (simp add: join_comma_usize del: map_map)
  qed
  have ok: "encodable (json_dumps (PDict d)) \<longleftrightarrow>
      (\<forall>(k, v)\<in>set d. encodable (key_text k) \<and> encodable (json_dumps v))"
    unfolding dumps_dict by (auto simp: is_surrogate_def member_text_def)
  have vis: "visit_size m (PDict d) = (\<lambda>t. bindr (add_size m 1 t) (\<lambda>t. bindr
      (entries_size m True (map (\<lambda>(k, v). (k, visit_size m v)) d) t) (add_size m 1)))"
    unfolding visit_size.simps eq by simp
  show ?thesis
    unfolding vis sizes
  proof (rule measures_eq, rule measures_bind [OF measures_add_size], rule measures_bind [OF body],
        rule measures_add_size)
    show "(True \<and> ((\<forall>(k, _)\<in>set (map (\<lambda>(k, v). (k, visit_size m v)) d). as_str k \<noteq> None \<and> encodable (key_text k)) \<and>
        (\<forall>(ok, k)\<in>set (map (\<lambda>(k, v). (json_ok v, usize (json_dumps v))) d). ok)) \<and> True)
      = json_ok (PDict d)"
      unfolding json_ok_def ok require_json_dict by (auto simp: json_ok_def)
  next
    have "sum_list (map (usize \<circ> member_text) ?ms) =
      sum_list (map (\<lambda>(k, _). usize (json_string (key_text k)) + 1) (map (\<lambda>(k, v). (k, visit_size m v)) d))
      + sum_list (map snd (map (\<lambda>(k, v). (json_ok v, usize (json_dumps v))) d))"
      by (induction d) (auto simp: member_text_def)
    then show "1 + (sum_list (map (\<lambda>(k, _). usize (json_string (key_text k)) + 1) (map (\<lambda>(k, v). (k, visit_size m v)) d))
      + sum_list (map snd (map (\<lambda>(k, v). (json_ok v, usize (json_dumps v))) d))
      + (if True then length (map (\<lambda>(k, v). (json_ok v, usize (json_dumps v))) d) - 1
         else length (map (\<lambda>(k, v). (json_ok v, usize (json_dumps v))) d)) + 1)
      = 1 + (sum_list (map (usize \<circ> member_text) ?ms) + (length d - 1) + 1)"
      by simp
  qed
qed

lemma visit_size_measures:
  "measures m (visit_size m v) (json_ok v) (usize (json_dumps v))"
proof (induction v)
  case PNone
  have "usize (json_dumps PNone) = 4" "json_ok PNone"
    by (simp_all add: u_def json_ok_def is_surrogate_def)
  then show ?case using measures_add_size [of m 4] by simp
next
  case (PBool b)
  have "usize (json_dumps (PBool b)) = (if b then 4 else 5)" "json_ok (PBool b)"
    by (cases b; simp add: u_def json_ok_def is_surrogate_def)+
  then show ?case using measures_add_size [of m "if b then 4 else 5"] by simp
next
  case (PInt i)
  then show ?case using measures_add_size [of m "length (dec_int i)"] by (simp add: json_ok_def)
next
  case (PFloat f)
  then show ?case
    by (cases f) (auto simp: json_ok_def utf8_length_usize measures_def fails_def add_size_adds)
next
  case (PStr s)
  then show ?case using string_size_measures [of m s] by (simp add: json_ok_def)
next
  case (PList xs)
  then show ?case using seq_measures [of xs m] by simp
next
  case (PTuple xs)
  then show ?case using seq_measures [of xs m] by (simp add: json_ok_def)
next
  case (PDict d)
  then show ?case by (intro dict_measures) (auto elim: snds.cases)
next
  case (POther n)
  then show ?case by (simp add: measures_def json_ok_def fails_def)
qed

lemma stable_json_bytes_Inr:
  "stable_json_bytes v = Inr t \<longleftrightarrow> json_ok v \<and> t = json_dumps v"
  by (auto simp: stable_json_bytes_def json_ok_def dumps_thaw Let_def utf8_length_usize
      split: sum.splits)

lemma bounded_size_iff:
  "bounded_stable_json_size v cap = Inr n \<longleftrightarrow>
     (\<exists>t. stable_json_bytes v = Inr t \<and> utf8_length t = Some n \<and> int n \<le> cap)"
proof -
  have "measures (nat cap) (visit_size (nat cap) v) (json_ok v) (usize (json_dumps v))"
    by (rule visit_size_measures)
  then show ?thesis
    by (auto simp: bounded_stable_json_size_def stable_json_bytes_Inr utf8_length_usize json_ok_def
        measures_def adds_def fails_def dest!: spec [of _ 0] split: if_splits)
qed

section \<open>Properties\<close>

text \<open>
  C15: the routine that measures a value without building its text agrees with the encoder on every value built from
  dicts, lists, tuples and scalars: it returns exactly the number of bytes of the canonical UTF-8
  encoding when the value can be encoded within the cap, and raises in every other case. (The
  proxies of frozen values are covered where freezing puts them, in tuples and dicts; no list of the
  model holds one.)
\<close>

theorem bounded_size_is_encoded_size:
  "bounded_stable_json_size v cap = Inr n \<longleftrightarrow>
     (\<exists>t. stable_json_bytes v = Inr t \<and> utf8_length t = Some n \<and> int n \<le> cap)"
  by (rule bounded_size_iff)

text \<open>
  A value the encoder accepts is refused by the bounded routine exactly for its size, and
  then with the overflow error that the broker reports as a value too large.
\<close>

theorem bounded_size_overflow:
  assumes "stable_json_bytes v = Inr t" and "0 \<le> cap"
  shows "bounded_stable_json_size v cap = Inl SizeOverflow \<longleftrightarrow> cap < int (the (utf8_length t))"
proof -
  have "measures (nat cap) (visit_size (nat cap) v) (json_ok v) (usize (json_dumps v))"
    by (rule visit_size_measures)
  with assms show ?thesis
    by (auto simp: bounded_stable_json_size_def stable_json_bytes_Inr utf8_length_usize json_ok_def
        measures_def adds_def dest!: spec [of _ 0] split: if_splits)
qed

lemma bounded_size_overflow_witness:
  "bounded_stable_json_size (PDict [(PStr (u ''b''), PInt 12)]) 7 = Inl SizeOverflow"
proof -
  have t: "stable_json_bytes (PDict [(PStr (u ''b''), PInt 12)])
      = Inr [123, 34, 98, 34, 58, 49, 50, 125]"
    by (simp add: stable_json_bytes_def check_key_def key_text_def member_text_def json_string_def
        json_char_def dec_int_def dec_nat.simps ensure_def u_def utf8_length_usize is_surrogate_def)
  have "utf8_length [123, 34, 98, 34, 58, 49, 50, 125] = Some 8"
    by (simp add: utf8_length_usize is_surrogate_def)
  then show ?thesis using bounded_size_overflow [OF t, of 7] by simp
qed

end
