(* ===== verification/Role_Tool_Protocol.thy ===== *)
theory Role_Tool_Protocol
  imports Json_Text
begin

text \<open>
  The values of the role-tool boundary, \<open>src/core/contracts/role_tool_protocol.py\<close>: the schema
  dialect of tool parameters (its normaliser and the validator of arguments), and the budget,
  definition, call, result and invocation records. A normalised schema, a dictionary in the
  code, is the datatype \<open>schema\<close>; \<open>schema_value\<close> is the dictionary. \<open>json.loads\<close> is a parameter.
\<close>

section \<open>Errors and schemas\<close>

datatype protocol_error =
    SchemaNotObject | SchemaType | SchemaKeywords | EnumNotArray | EnumJson json_error | EnumMismatch
  | NeedsClosed | PropertiesNotObject | PropertyName | RequiredNotStrings | RequiredUndeclared
  | NeedsItems | MaxLengthInvalid | BoundMismatch | MinExceedsMax | RootNotObject
  | ArgJson json_error | ArgType | ArgEnum | ArgMissing | ArgUndeclared | ArgTooLong | ArgBelow | ArgAbove
  | BudgetInvalid string | BudgetOverflow | DefinitionInvalid string | CallInvalid string

datatype json_type = TObject | TArray | TString | TInteger | TNumber | TBoolean | TNull

definition type_name :: "json_type \<Rightarrow> string" where
  "type_name ty = (case ty of TObject \<Rightarrow> ''object'' | TArray \<Rightarrow> ''array'' | TString \<Rightarrow> ''string''
     | TInteger \<Rightarrow> ''integer'' | TNumber \<Rightarrow> ''number'' | TBoolean \<Rightarrow> ''boolean'' | TNull \<Rightarrow> ''null'')"

definition json_types :: "json_type list" where
  "json_types = [TObject, TArray, TString, TInteger, TNumber, TBoolean, TNull]"

definition parse_type :: "pyval option \<Rightarrow> json_type option" where
  "parse_type v = (case v of
       Some (PStr s) \<Rightarrow> List.find (\<lambda>ty. u (type_name ty) = s) json_types
     | _ \<Rightarrow> None)"

type_synonym enum = "pyval list option"

datatype schema =
    ObjectSchema enum "(pystr \<times> schema) list" "pystr list"
  | ArraySchema enum schema
  | StringSchema enum "int option"
  | NumericSchema bool enum "pyval option" "pyval option"
  | PlainSchema bool enum

text \<open>\<open>NumericSchema True\<close> is an integer, \<open>False\<close> a number; \<open>PlainSchema True\<close> a boolean, \<open>False\<close> null.\<close>

fun schema_type :: "schema \<Rightarrow> json_type" where
  "schema_type (ObjectSchema _ _ _) = TObject"
| "schema_type (ArraySchema _ _) = TArray"
| "schema_type (StringSchema _ _) = TString"
| "schema_type (NumericSchema i _ _ _) = (if i then TInteger else TNumber)"
| "schema_type (PlainSchema b _) = (if b then TBoolean else TNull)"

fun schema_enum :: "schema \<Rightarrow> enum" where
  "schema_enum (ObjectSchema e _ _) = e"
| "schema_enum (ArraySchema e _) = e"
| "schema_enum (StringSchema e _) = e"
| "schema_enum (NumericSchema _ e _ _) = e"
| "schema_enum (PlainSchema _ e) = e"

fun matches_type :: "pyval \<Rightarrow> json_type \<Rightarrow> bool" where
  "matches_type v TObject = (as_mapping v \<noteq> None)"
| "matches_type v TArray = (as_seq v \<noteq> None)"
| "matches_type v TString = (as_str v \<noteq> None)"
| "matches_type v TInteger = (as_int v \<noteq> None)"
| "matches_type v TNumber = (case v of PInt _ \<Rightarrow> True | PFloat (Fin _ _) \<Rightarrow> True | _ \<Rightarrow> False)"
| "matches_type v TBoolean = (as_bool v \<noteq> None)"
| "matches_type v TNull = (v = PNone)"

section \<open>Normalising a schema\<close>

definition allowed_keywords :: "json_type \<Rightarrow> string list" where
  "allowed_keywords ty = [''type'', ''enum''] @ (case ty of
       TObject \<Rightarrow> [''properties'', ''required'', ''additionalProperties'']
     | TArray \<Rightarrow> [''items'']
     | TString \<Rightarrow> [''maxLength'']
     | TInteger \<Rightarrow> [''minimum'', ''maximum'']
     | TNumber \<Rightarrow> [''minimum'', ''maximum'']
     | _ \<Rightarrow> [])"

definition normalize_enum :: "json_type \<Rightarrow> (pyval \<times> pyval) list \<Rightarrow> protocol_error + enum" where
  "normalize_enum ty d = (case field d ''enum'' of
       None \<Rightarrow> Inr None
     | Some v \<Rightarrow> (case as_seq v of
         None \<Rightarrow> Inl EnumNotArray
       | Some es \<Rightarrow>
           if es = [] then Inl EnumNotArray
           else (case require_json v of
             Inl e \<Rightarrow> Inl (EnumJson e)
           | Inr _ \<Rightarrow> if \<forall>x\<in>set es. matches_type x ty then Inr (Some es) else Inl EnumMismatch)))"

definition nonempty_str :: "pyval \<Rightarrow> bool" where
  "nonempty_str v \<longleftrightarrow> (case v of PStr s \<Rightarrow> s \<noteq> [] | _ \<Rightarrow> False)"

definition str_of :: "pyval \<Rightarrow> pystr" where
  "str_of v = (case v of PStr s \<Rightarrow> s | _ \<Rightarrow> [])"

definition normalize_required :: "(pyval \<times> pyval) list \<Rightarrow> (pyval \<times> pyval) list \<Rightarrow> protocol_error + pystr list" where
  "normalize_required d props = (case as_seq (get_default d ''required'' (PList [])) of
       None \<Rightarrow> Inl RequiredNotStrings
     | Some rs \<Rightarrow>
         if \<not> (\<forall>r\<in>set rs. nonempty_str r) then Inl RequiredNotStrings
         else if \<not> (distinct rs \<and> set rs \<subseteq> fst ` set props) then Inl RequiredUndeclared
         else Inr (map str_of rs))"

definition normalize_max_length :: "(pyval \<times> pyval) list \<Rightarrow> protocol_error + int option" where
  "normalize_max_length d = (case field d ''maxLength'' of
       None \<Rightarrow> Inr None
     | Some (PInt n) \<Rightarrow> if n < 0 then Inl MaxLengthInvalid else Inr (Some n)
     | Some _ \<Rightarrow> Inl MaxLengthInvalid)"

text \<open>A bound that is \<open>None\<close> counts as absent.\<close>

definition bound_of :: "(pyval \<times> pyval) list \<Rightarrow> string \<Rightarrow> pyval option" where
  "bound_of d k = (case field d k of Some PNone \<Rightarrow> None | b \<Rightarrow> b)"

definition num_less :: "pyval \<Rightarrow> pyval \<Rightarrow> bool" where
  "num_less v w = (case (num_val v, num_val w) of (Some a, Some b) \<Rightarrow> a < b | _ \<Rightarrow> False)"

definition normalize_bounds :: "json_type \<Rightarrow> (pyval \<times> pyval) list
    \<Rightarrow> protocol_error + pyval option \<times> pyval option" where
  "normalize_bounds ty d =
     (let lo = bound_of d ''minimum''; hi = bound_of d ''maximum'' in
      if \<not> (none_or (\<lambda>b. matches_type b ty) lo \<and> none_or (\<lambda>b. matches_type b ty) hi) then Inl BoundMismatch
      else if lo \<noteq> None \<and> hi \<noteq> None \<and> num_less (the hi) (the lo) then Inl MinExceedsMax
      else Inr (lo, hi))"


function normalize_schema :: "pyval \<Rightarrow> protocol_error + schema" where
  "normalize_schema v = (case as_mapping v of
       None \<Rightarrow> Inl SchemaNotObject
     | Some d \<Rightarrow> (case parse_type (field d ''type'') of
         None \<Rightarrow> Inl SchemaType
       | Some ty \<Rightarrow>
           if \<exists>k\<in>fst ` set d. k \<notin> set (map (\<lambda>s. PStr (u s)) (allowed_keywords ty))
           then Inl SchemaKeywords
           else bindr (normalize_enum ty d) (\<lambda>en. (case ty of
             TObject \<Rightarrow>
               if field d ''additionalProperties'' \<noteq> Some (PBool False) then Inl NeedsClosed
               else (case field d ''properties'' of
                   None \<Rightarrow> bindr (normalize_required d []) (\<lambda>rs. Inr (ObjectSchema en [] rs))
                 | Some p \<Rightarrow> (case as_mapping p of
                     None \<Rightarrow> Inl PropertiesNotObject
                   | Some ps \<Rightarrow>
                       bindr (mapr (\<lambda>(k, s). if \<not> nonempty_str k then Inl PropertyName
                           else bindr (normalize_schema s) (\<lambda>n. Inr (str_of k, n))) ps) (\<lambda>nps.
                       bindr (normalize_required d ps) (\<lambda>rs. Inr (ObjectSchema en nps rs)))))
           | TArray \<Rightarrow> (case field d ''items'' of
                 None \<Rightarrow> Inl NeedsItems
               | Some s \<Rightarrow> bindr (normalize_schema s) (\<lambda>n. Inr (ArraySchema en n)))
           | TString \<Rightarrow> bindr (normalize_max_length d) (\<lambda>m. Inr (StringSchema en m))
           | TInteger \<Rightarrow> bindr (normalize_bounds ty d) (\<lambda>b. Inr (NumericSchema True en (fst b) (snd b)))
           | TNumber \<Rightarrow> bindr (normalize_bounds ty d) (\<lambda>b. Inr (NumericSchema False en (fst b) (snd b)))
           | TBoolean \<Rightarrow> Inr (PlainSchema True en)
           | TNull \<Rightarrow> Inr (PlainSchema False en)))))"
  by pat_completeness auto
termination
  by (relation "measure size")
     (auto simp del: pyval.size dest!: size_field size_dict_member)

declare normalize_schema.simps [simp del]

definition normalize_root :: "pyval \<Rightarrow> protocol_error + schema" where
  "normalize_root v = bindr (normalize_schema v) (\<lambda>s.
     if schema_type s = TObject then Inr s else Inl RootNotObject)"

text \<open>The dictionary a normalised schema is, in the order its keys are set, frozen.\<close>

definition opt_member :: "string \<Rightarrow> pyval option \<Rightarrow> (pyval \<times> pyval) list" where
  "opt_member k v = (case v of None \<Rightarrow> [] | Some w \<Rightarrow> [(PStr (u k), w)])"

definition head_members :: "json_type \<Rightarrow> enum \<Rightarrow> (pyval \<times> pyval) list" where
  "head_members ty e = (PStr (u ''type''), PStr (u (type_name ty))) # opt_member ''enum'' (map_option PTuple e)"

primrec schema_value :: "schema \<Rightarrow> pyval" where
  "schema_value (ObjectSchema e ps rs) = PDict (head_members TObject e @
     [(PStr (u ''properties''), PDict (map (\<lambda>(k, v). (PStr k, v)) (map (map_prod id schema_value) ps)))] @
     (if rs = [] then [] else [(PStr (u ''required''), PTuple (map PStr rs))]) @
     [(PStr (u ''additionalProperties''), PBool False)])"
| "schema_value (ArraySchema e s) =
     PDict (head_members TArray e @ [(PStr (u ''items''), schema_value s)])"
| "schema_value (StringSchema e m) =
     PDict (head_members TString e @ opt_member ''maxLength'' (map_option PInt m))"
| "schema_value (NumericSchema i e lo hi) =
     PDict (head_members (if i then TInteger else TNumber) e @ opt_member ''minimum'' lo @ opt_member ''maximum'' hi)"
| "schema_value (PlainSchema b e) = PDict (head_members (if b then TBoolean else TNull) e)"

primrec map_enums :: "(pyval \<Rightarrow> pyval) \<Rightarrow> schema \<Rightarrow> schema" where
  "map_enums f (ObjectSchema e ps rs) = ObjectSchema (map_option (map f) e) (map (map_prod id (map_enums f)) ps) rs"
| "map_enums f (ArraySchema e s) = ArraySchema (map_option (map f) e) (map_enums f s)"
| "map_enums f (StringSchema e m) = StringSchema (map_option (map f) e) m"
| "map_enums f (NumericSchema i e lo hi) = NumericSchema i (map_option (map f) e) lo hi"
| "map_enums f (PlainSchema b e) = PlainSchema b (map_option (map f) e)"

text \<open>\<open>_freeze\<close> on a normalised schema reaches the values of its enums.\<close>

definition freeze_schema :: "schema \<Rightarrow> schema" where
  "freeze_schema = map_enums freeze"

section \<open>Validating arguments\<close>

lemma as_seq_size: "as_seq v = Some xs \<Longrightarrow> x \<in> set xs \<Longrightarrow> size x < size v"
  by (cases v) (auto dest: size_list_estimation' [where f = size, OF _ order_refl] simp: less_Suc_eq_le)

function validate_value :: "pyval \<Rightarrow> schema \<Rightarrow> protocol_error + unit" where
  "validate_value v s = (case require_json v of
       Inl e \<Rightarrow> Inl (ArgJson e)
     | Inr _ \<Rightarrow>
         if \<not> matches_type v (schema_type s) then Inl ArgType
         else if \<not> none_or (\<lambda>es. \<exists>e\<in>set es. py_eq e v) (schema_enum s) then Inl ArgEnum
         else (case s of
             ObjectSchema _ ps rs \<Rightarrow> (case as_mapping v of
                 None \<Rightarrow> Inl ArgType
               | Some d \<Rightarrow>
                   if \<exists>r\<in>set rs. PStr r \<notin> fst ` set d then Inl ArgMissing
                   else if \<exists>k\<in>fst ` set d. k \<notin> PStr ` fst ` set ps then Inl ArgUndeclared
                   else bindr (mapr (\<lambda>(k, x). validate_value x (the (map_of ps (str_of k)))) d) (\<lambda>_. Inr ()))
           | ArraySchema _ item \<Rightarrow> (case as_seq v of
                 None \<Rightarrow> Inl ArgType
               | Some xs \<Rightarrow> bindr (mapr (\<lambda>x. validate_value x item) xs) (\<lambda>_. Inr ()))
           | StringSchema _ m \<Rightarrow> if none_or (\<lambda>n. int (length (str_of v)) \<le> n) m then Inr () else Inl ArgTooLong
           | NumericSchema _ _ lo hi \<Rightarrow>
               if \<not> none_or (\<lambda>b. \<not> num_less v b) lo then Inl ArgBelow
               else if \<not> none_or (\<lambda>b. \<not> num_less b v) hi then Inl ArgAbove
               else Inr ()
           | PlainSchema _ _ \<Rightarrow> Inr ()))"
  by pat_completeness auto

termination
  by (relation "measure (size \<circ> fst)")
     (auto simp del: pyval.size dest!: size_dict_member as_seq_size)

declare validate_value.simps [simp del]


section \<open>Budget, definition, call and result\<close>

record tool_budget =
  max_calls :: int
  max_argument_bytes :: int
  max_result_bytes :: int
  max_total_result_bytes :: int
  max_elapsed_seconds :: rat

definition positive_int :: "pyval \<Rightarrow> string \<Rightarrow> protocol_error + int" where
  "positive_int v f = (case v of
       PInt n \<Rightarrow> if n < 1 then Inl (BudgetInvalid f) else Inr n
     | _ \<Rightarrow> Inl (BudgetInvalid f))"

text \<open>
  \<open>math.isfinite\<close> turns an integer into a double first and raises \<open>OverflowError\<close> for one that rounds beyond the
  largest double.
\<close>

definition FLOAT_LIMIT :: int where
  "FLOAT_LIMIT = 2 ^ 1024 - 2 ^ 970"

definition isfinite_raises :: "pyval \<Rightarrow> bool" where
  "isfinite_raises v \<longleftrightarrow> (case v of PInt i \<Rightarrow> FLOAT_LIMIT \<le> \<bar>i\<bar> | _ \<Rightarrow> False)"

lemma below_float_limit: "\<bar>i\<bar> < 2 ^ 62 \<Longrightarrow> \<not> isfinite_raises (PInt i)"
proof -
  assume "\<bar>i\<bar> < 2 ^ 62"
  also have "(2::int) ^ 62 \<le> 2 ^ 970" by (rule power_increasing) simp_all
  also have "(2::int) ^ 970 \<le> 2 ^ 1024 - 2 ^ 970"
  proof -
    have "(2::int) ^ 971 \<le> 2 ^ 1024" by (rule power_increasing) simp_all
    moreover have "(2::int) ^ 971 = 2 * 2 ^ 970" by (simp only: power_Suc [symmetric]) (simp only: Suc_numeral arith_simps)
    ultimately show ?thesis by linarith
  qed
  finally show ?thesis by (simp only: isfinite_raises_def FLOAT_LIMIT_def pyval.case not_le)
qed

definition positive_number :: "pyval \<Rightarrow> protocol_error + rat" where
  "positive_number v = (if isfinite_raises v then Inl BudgetOverflow else if matches_type v TNumber \<and> the (num_val v) > 0 then Inr (the (num_val v))
     else Inl (BudgetInvalid ''max_elapsed_seconds''))"

definition RoleToolBudget :: "pyval \<Rightarrow> pyval \<Rightarrow> pyval \<Rightarrow> pyval \<Rightarrow> pyval \<Rightarrow> protocol_error + tool_budget" where
  "RoleToolBudget calls arg res tot secs =
     bindr (positive_int calls ''max_calls'') (\<lambda>c.
     bindr (positive_int arg ''max_argument_bytes'') (\<lambda>a.
     bindr (positive_int res ''max_result_bytes'') (\<lambda>r.
     bindr (positive_int tot ''max_total_result_bytes'') (\<lambda>t.
     bindr (positive_number secs) (\<lambda>s.
       Inr \<lparr>max_calls = c, max_argument_bytes = a, max_result_bytes = r,
            max_total_result_bytes = t, max_elapsed_seconds = s\<rparr>)))))"

definition default_budget :: tool_budget where
  "default_budget = \<lparr>max_calls = 5, max_argument_bytes = 8192, max_result_bytes = 16384,
     max_total_result_bytes = 65536, max_elapsed_seconds = 300\<rparr>"

record tool_definition =
  def_name :: pystr
  def_description :: pystr
  parameters :: schema

definition RoleToolDefinition :: "pyval \<Rightarrow> pyval \<Rightarrow> pyval \<Rightarrow> protocol_error + tool_definition" where
  "RoleToolDefinition n d ps =
     (if \<not> nonempty_str n then Inl (DefinitionInvalid ''name'')
      else if \<not> nonempty_str d then Inl (DefinitionInvalid ''description'')
      else bindr (normalize_root ps) (\<lambda>s.
        Inr \<lparr>def_name = str_of n, def_description = str_of d, parameters = freeze_schema s\<rparr>))"

definition to_ollama :: "tool_definition \<Rightarrow> pyval" where
  "to_ollama d = PDict [(PStr (u ''type''), PStr (u ''function'')),
     (PStr (u ''function''), PDict [
        (PStr (u ''name''), PStr (def_name d)),
        (PStr (u ''description''), PStr (def_description d)),
        (PStr (u ''parameters''), thaw (schema_value (parameters d)))])]"

definition validate_arguments :: "tool_definition \<Rightarrow> pyval \<Rightarrow> protocol_error + unit" where
  "validate_arguments d v = (case as_mapping v of
       None \<Rightarrow> Inl ArgType | Some _ \<Rightarrow> validate_value v (parameters d))"

record tool_call =
  call_name :: pystr
  arguments :: pyval
  round_index :: int
  call_index :: int
  call_id :: "pystr option"

definition RoleToolCall :: "pyval \<Rightarrow> pyval \<Rightarrow> int \<Rightarrow> int \<Rightarrow> pyval \<Rightarrow> protocol_error + tool_call" where
  "RoleToolCall n args r c cid =
     (if \<not> nonempty_str n then Inl (CallInvalid ''name'')
      else if as_mapping args = None then Inl (CallInvalid ''arguments'')
      else if r < 0 then Inl (CallInvalid ''round_index'')
      else if c < 0 then Inl (CallInvalid ''call_index'')
      else if cid \<noteq> PNone \<and> \<not> nonempty_str cid then Inl (CallInvalid ''call_id'')
      else (case require_json args of
          Inl e \<Rightarrow> Inl (ArgJson e)
        | Inr _ \<Rightarrow> Inr \<lparr>call_name = str_of n, arguments = freeze args, round_index = r, call_index = c,
            call_id = as_str cid\<rparr>))"

text \<open>\<open>loads\<close> is \<open>json.loads\<close>; \<open>None\<close> is its ValueError.\<close>

definition from_ollama :: "(pystr \<Rightarrow> pyval option) \<Rightarrow> pyval \<Rightarrow> int \<Rightarrow> int \<Rightarrow> protocol_error + tool_call" where
  "from_ollama loads payload r c = (case as_mapping payload of
       None \<Rightarrow> Inl (CallInvalid ''payload'')
     | Some p \<Rightarrow> (case as_mapping (get_default p ''function'' PNone) of
         None \<Rightarrow> Inl (CallInvalid ''function'')
       | Some f \<Rightarrow>
           bindr (case get_default f ''arguments'' (PDict []) of
                PStr txt \<Rightarrow> (case loads txt of
                    None \<Rightarrow> Inl (CallInvalid ''json'') | Some a \<Rightarrow> Inr a)
              | a \<Rightarrow> Inr a)
             (\<lambda>args. RoleToolCall (get_default f ''name'' PNone) args r c (get_default p ''id'' PNone))))"

definition call_to_dict :: "tool_call \<Rightarrow> pyval" where
  "call_to_dict c = PDict ([
     (PStr (u ''name''), PStr (call_name c)),
     (PStr (u ''arguments''), thaw (arguments c)),
     (PStr (u ''round_index''), PInt (round_index c)),
     (PStr (u ''call_index''), PInt (call_index c))] @ opt_member ''call_id'' (map_option PStr (call_id c)))"

record tool_result =
  success :: bool
  content :: pystr
  byte_size :: nat
  result_error :: "pystr option"

text \<open>The content is what was encoded, so its size in bytes is the length of that encoding.\<close>

definition result_from_value :: "pyval \<Rightarrow> size_error + tool_result" where
  "result_from_value v = bindr (stable_json_bytes v) (\<lambda>t.
     Inr \<lparr>success = True, content = t, byte_size = the (utf8_length t), result_error = None\<rparr>)"

definition result_failure :: "string \<Rightarrow> tool_result" where
  "result_failure reason =
     (let t = json_dumps (PDict [(PStr (u ''error''), PStr (u reason))])
      in \<lparr>success = False, content = t, byte_size = the (utf8_length t), result_error = Some (u reason)\<rparr>)"

definition result_to_dict :: "tool_result \<Rightarrow> pyval" where
  "result_to_dict r = PDict ([
     (PStr (u ''success''), PBool (success r)),
     (PStr (u ''content''), PStr (content r)),
     (PStr (u ''byte_size''), PInt (int (byte_size r)))] @ opt_member ''error'' (map_option PStr (result_error r)))"

record invocation =
  inv_role :: pystr
  inv_call :: tool_call
  inv_result :: tool_result
  inv_allowed :: bool
  inv_reason :: string
  inv_elapsed :: pyval

definition invocation_to_dict :: "invocation \<Rightarrow> pyval" where
  "invocation_to_dict i = PDict [
     (PStr (u ''role_name''), PStr (inv_role i)),
     (PStr (u ''call''), call_to_dict (inv_call i)),
     (PStr (u ''result''), result_to_dict (inv_result i)),
     (PStr (u ''allowed''), PBool (inv_allowed i)),
     (PStr (u ''reason''), PStr (u (inv_reason i))),
     (PStr (u ''elapsed_seconds''), inv_elapsed i)]"

section \<open>What a value of a schema is\<close>

text \<open>The declarative meaning of a normalised schema, without an order of checks.\<close>

definition in_enum :: "enum \<Rightarrow> pyval \<Rightarrow> bool" where
  "in_enum en v \<longleftrightarrow> (\<forall>es. en = Some es \<longrightarrow> (\<exists>e\<in>set es. py_eq e v))"

inductive conforms :: "schema \<Rightarrow> pyval \<Rightarrow> bool" where
  conforms_object: "in_enum en (PDict d) \<Longrightarrow> \<forall>r\<in>set rs. PStr r \<in> fst ` set d \<Longrightarrow>
     (\<forall>(k, x)\<in>set d. \<exists>p s. k = PStr p \<and> map_of ps p = Some s \<and> conforms s x) \<Longrightarrow>
     conforms (ObjectSchema en ps rs) (PDict d)"
| conforms_array: "as_seq v = Some xs \<Longrightarrow> in_enum en v \<Longrightarrow> \<forall>x\<in>set xs. conforms s x \<Longrightarrow>
     conforms (ArraySchema en s) v"
| conforms_string: "in_enum en (PStr t) \<Longrightarrow> (\<forall>n. m = Some n \<longrightarrow> int (length t) \<le> n) \<Longrightarrow>
     conforms (StringSchema en m) (PStr t)"
| conforms_number: "matches_type v (if i then TInteger else TNumber) \<Longrightarrow> in_enum en v \<Longrightarrow>
     (\<forall>b. lo = Some b \<longrightarrow> \<not> num_less v b) \<Longrightarrow> (\<forall>b. hi = Some b \<longrightarrow> \<not> num_less b v) \<Longrightarrow>
     conforms (NumericSchema i en lo hi) v"
| conforms_plain: "matches_type v (if b then TBoolean else TNull) \<Longrightarrow> in_enum en v \<Longrightarrow>
     conforms (PlainSchema b en) v"

inductive_cases conforms_objectE: "conforms (ObjectSchema en ps rs) v"
inductive_cases conforms_arrayE: "conforms (ArraySchema en s) v"
inductive_simps conforms_string_iff: "conforms (StringSchema en m) v"
inductive_simps conforms_number_iff: "conforms (NumericSchema i en lo hi) v"
inductive_simps conforms_plain_iff: "conforms (PlainSchema b en) v"
inductive_simps conforms_array_iff: "conforms (ArraySchema en s) v"
inductive_simps conforms_object_iff: "conforms (ObjectSchema en ps rs) v"

lemma in_enum_iff: "none_or (\<lambda>es. \<exists>e\<in>set es. py_eq e v) en \<longleftrightarrow> in_enum en v"
  by (cases en) (auto simp: in_enum_def)

lemma none_or_iff: "none_or p x \<longleftrightarrow> (\<forall>y. x = Some y \<longrightarrow> p y)"
  by (cases x) auto

lemma mapr_unit: "bindr (mapr f xs) (\<lambda>_. Inr ()) = Inr () \<longleftrightarrow> (\<forall>x\<in>set xs. \<exists>y. f x = Inr y)"
  by (induction xs) (auto simp: result_simps)

lemma require_json_members:
  "as_seq v = Some xs \<Longrightarrow> require_json v = Inr () \<Longrightarrow> x \<in> set xs \<Longrightarrow> require_json x = Inr ()"
  "as_mapping v = Some d \<Longrightarrow> require_json v = Inr () \<Longrightarrow> (k, x) \<in> set d \<Longrightarrow>
     require_json x = Inr () \<and> (\<exists>p. k = PStr p)"
  by (cases v; auto simp del: require_json.simps)+

lemma unit_sum: "(r :: 'e + unit) = Inr () \<longleftrightarrow> (\<exists>y. r = Inr y)"
  by (cases r) auto


lemma known_key: "PStr p \<in> PStr ` fst ` set ps \<longleftrightarrow> map_of ps p \<noteq> None"
  by (auto simp: map_of_eq_None_iff image_iff)

lemma members_conform:
  assumes "\<And>k x. (k, x) \<in> set d \<Longrightarrow> \<exists>p. k = PStr p"
  shows "(\<forall>(k, x)\<in>set d. \<exists>p s. k = PStr p \<and> map_of ps p = Some s \<and> P s x) \<longleftrightarrow>
     (\<forall>k\<in>fst ` set d. k \<in> PStr ` fst ` set ps) \<and> (\<forall>(k, x)\<in>set d. P (the (map_of ps (str_of k))) x)"
proof -
  have "(\<exists>p s. k = PStr p \<and> map_of ps p = Some s \<and> P s x) \<longleftrightarrow>
      k \<in> PStr ` fst ` set ps \<and> P (the (map_of ps (str_of k))) x" if "(k, x) \<in> set d" for k x
  proof -
    from assms [OF that] obtain p where "k = PStr p" by blast
    then show ?thesis
      by (simp add: known_key str_of_def) (cases "map_of ps p"; simp)
  qed
  then have "(\<forall>z\<in>set d. \<exists>p s. fst z = PStr p \<and> map_of ps p = Some s \<and> P s (snd z)) \<longleftrightarrow>
      (\<forall>z\<in>set d. fst z \<in> PStr ` fst ` set ps \<and> P (the (map_of ps (str_of (fst z)))) (snd z))"
    by (intro ball_cong refl) (metis prod.collapse)
  then show ?thesis unfolding case_prod_beta by blast
qed

lemma validate_value_iff:
  "validate_value v s = Inr () \<longleftrightarrow> require_json v = Inr () \<and> conforms s v"
proof (induction v s rule: validate_value.induct)
  case (1 v s)
  show ?case
  proof (cases "require_json v = Inr () \<and> matches_type v (schema_type s) \<and> in_enum (schema_enum s) v")
    case False
    have "\<not> conforms s v" if "require_json v = Inr ()"
      using False that by (auto elim!: conforms.cases)
    then show ?thesis
      using False by (subst validate_value.simps) (auto simp: in_enum_iff split: sum.splits)
  next
    case True
    then have json: "require_json v = Inr ()" and ty: "matches_type v (schema_type s)"
      and en: "in_enum (schema_enum s) v" by auto
    show ?thesis
    proof (cases s)
      case (ObjectSchema e ps rs)
      then obtain d where d: "as_mapping v = Some d" using ty by auto
      have IH: "validate_value x (the (map_of ps (str_of k))) = Inr () \<longleftrightarrow>
          require_json x = Inr () \<and> conforms (the (map_of ps (str_of k))) x"
        if "(k, x) \<in> set d" "\<not> (\<exists>r\<in>set rs. PStr r \<notin> fst ` set d)"
          "\<not> (\<exists>k\<in>fst ` set d. k \<notin> PStr ` fst ` set ps)" for k x
        using "1.IH"(1) [OF json, of e ps rs d "(k, x)" k x] ty en that ObjectSchema d
        by (simp add: in_enum_iff)
      have mem: "(k, x) \<in> set d \<Longrightarrow> require_json x = Inr () \<and> (\<exists>p. k = PStr p)" for k x
        using require_json_members(2) [OF d json] .
      have "validate_value v s = Inr () \<longleftrightarrow> (\<forall>r\<in>set rs. PStr r \<in> fst ` set d) \<and>
          (\<forall>k\<in>fst ` set d. k \<in> PStr ` fst ` set ps) \<and>
          (\<forall>(k, x)\<in>set d. conforms (the (map_of ps (str_of k))) x)"
        using json ty en d mem IH
        by (subst validate_value.simps)
           (auto simp: ObjectSchema in_enum_iff mapr_unit unit_sum [symmetric] split del: if_split split: if_split)
      moreover have "conforms s v \<longleftrightarrow> (\<forall>r\<in>set rs. PStr r \<in> fst ` set d) \<and>
          (\<forall>(k, x)\<in>set d. \<exists>p s. k = PStr p \<and> map_of ps p = Some s \<and> conforms s x)"
        using d en by (auto simp: ObjectSchema conforms_object_iff)
      moreover have "(\<forall>(k, x)\<in>set d. \<exists>p s. k = PStr p \<and> map_of ps p = Some s \<and> conforms s x) \<longleftrightarrow>
          (\<forall>k\<in>fst ` set d. k \<in> PStr ` fst ` set ps) \<and>
          (\<forall>(k, x)\<in>set d. conforms (the (map_of ps (str_of k))) x)"
        by (rule members_conform) (use mem in blast)
      ultimately show ?thesis using json by simp
    next
      case (ArraySchema e item)
      then obtain xs where xs: "as_seq v = Some xs" using ty by auto
      have IH: "validate_value x item = Inr () \<longleftrightarrow> require_json x = Inr () \<and> conforms item x"
        if "x \<in> set xs" for x
        using "1.IH"(2) [OF json, of e item xs x] ty en that ArraySchema xs
        by (simp add: in_enum_iff)
      show ?thesis
        using json ty en xs IH require_json_members(1) [OF xs json]
        by (subst validate_value.simps)
           (auto simp: ArraySchema conforms_array_iff in_enum_iff mapr_unit unit_sum [symmetric])
    next
      case (StringSchema e m)
      then obtain t where "v = PStr t" using ty by auto
      then show ?thesis using json ty en
        by (subst validate_value.simps)
           (auto simp: StringSchema conforms_string_iff in_enum_iff none_or_iff str_of_def in_enum_def)
    next
      case (NumericSchema i e lo hi)
      then show ?thesis using json ty en
        by (subst validate_value.simps)
           (auto simp: conforms_number_iff in_enum_iff none_or_iff split del: if_split split: if_split)
    next
      case (PlainSchema b e)
      then show ?thesis using json ty en
        by (subst validate_value.simps) (auto simp: conforms_plain_iff in_enum_iff)
    qed
  qed
qed


section \<open>Normalised schemas\<close>

definition enum_wf :: "json_type \<Rightarrow> enum \<Rightarrow> bool" where
  "enum_wf ty en \<longleftrightarrow> (\<forall>es. en = Some es \<longrightarrow> es \<noteq> [] \<and>
     (\<forall>e\<in>set es. require_json e = Inr () \<and> matches_type e ty))"

inductive schema_wf :: "schema \<Rightarrow> bool" where
  wf_object: "enum_wf TObject en \<Longrightarrow> distinct rs \<Longrightarrow> set rs \<subseteq> fst ` set ps \<Longrightarrow> [] \<notin> fst ` set ps \<Longrightarrow>
     (\<forall>(k, s)\<in>set ps. schema_wf s) \<Longrightarrow> schema_wf (ObjectSchema en ps rs)"
| wf_array: "enum_wf TArray en \<Longrightarrow> schema_wf s \<Longrightarrow> schema_wf (ArraySchema en s)"
| wf_string: "enum_wf TString en \<Longrightarrow> (\<forall>n. m = Some n \<longrightarrow> 0 \<le> n) \<Longrightarrow> schema_wf (StringSchema en m)"
| wf_number: "ty = (if i then TInteger else TNumber) \<Longrightarrow> enum_wf ty en \<Longrightarrow>
     none_or (\<lambda>b. matches_type b ty) lo \<Longrightarrow> none_or (\<lambda>b. matches_type b ty) hi \<Longrightarrow>
     (\<forall>a b. lo = Some a \<longrightarrow> hi = Some b \<longrightarrow> \<not> num_less b a) \<Longrightarrow> schema_wf (NumericSchema i en lo hi)"
| wf_plain: "enum_wf (if b then TBoolean else TNull) en \<Longrightarrow> schema_wf (PlainSchema b en)"

lemma normalize_enum_wf: "normalize_enum ty d = Inr en \<Longrightarrow> enum_wf ty en"
  by (auto simp: normalize_enum_def enum_wf_def split: option.splits if_splits sum.splits
      dest: require_json_members(1))

lemma normalize_required_wf:
  assumes "normalize_required d ps = Inr rs"
  shows "distinct rs" "set rs \<subseteq> str_of ` fst ` set ps"
proof -
  from assms obtain vs where vs: "\<forall>r\<in>set vs. nonempty_str r" "distinct vs" "set vs \<subseteq> fst ` set ps"
    "rs = map str_of vs"
    by (auto simp: normalize_required_def split: option.splits if_splits)
  have "inj_on str_of (set vs)"
    using vs(1) by (fastforce simp: inj_on_def nonempty_str_def str_of_def split: pyval.splits)
  then show "distinct rs" "set rs \<subseteq> str_of ` fst ` set ps"
    using vs by (auto simp: distinct_map)
qed

lemma nonempty_str_iff: "nonempty_str v \<longleftrightarrow> (\<exists>p. v = PStr p \<and> p \<noteq> [])"
  by (cases v) (auto simp: nonempty_str_def)

lemma normalize_properties:
  assumes "mapr (\<lambda>(k, s). if \<not> nonempty_str k then Inl PropertyName
      else bindr (normalize_schema s) (\<lambda>n. Inr (str_of k, n))) ps = Inr nps"
  shows "list_all2 (\<lambda>(k, s) (p, n). k = PStr p \<and> p \<noteq> [] \<and> normalize_schema s = Inr n) ps nps"
  using assms unfolding mapr_Inr
  by (rule list_all2_mono)
     (auto simp: bindr_Inr_iff nonempty_str_iff str_of_def split: if_splits)

lemma all2_keys:
  "list_all2 (\<lambda>(k, s) (p, n). k = PStr p \<and> p \<noteq> [] \<and> Q s n) ps nps \<Longrightarrow>
     fst ` set ps = PStr ` fst ` set nps \<and> [] \<notin> fst ` set nps"
  by (induction rule: list_all2_induct) auto

lemma all2_member:
  "list_all2 (\<lambda>(k, s) (p, n). k = PStr p \<and> p \<noteq> [] \<and> Q s n) ps nps \<Longrightarrow> (p, n) \<in> set nps \<Longrightarrow>
     \<exists>s. (PStr p, s) \<in> set ps \<and> Q s n"
  by (induction rule: list_all2_induct) auto

lemma str_of_image [simp]: "str_of ` PStr ` A = A" "str_of (PStr p) = p"
  by (auto simp: str_of_def image_iff)

lemma normalize_bounds_wf:
  "normalize_bounds ty d = Inr (lo, hi) \<Longrightarrow>
     none_or (\<lambda>b. matches_type b ty) lo \<and> none_or (\<lambda>b. matches_type b ty) hi
     \<and> (\<forall>a b. lo = Some a \<longrightarrow> hi = Some b \<longrightarrow> \<not> num_less b a)"
  by (auto simp: normalize_bounds_def Let_def split: if_splits)

lemma normalize_max_length_wf: "normalize_max_length d = Inr m \<Longrightarrow> (\<forall>n. m = Some n \<longrightarrow> 0 \<le> n)"
  by (auto simp: normalize_max_length_def split: option.splits pyval.splits if_splits)

lemma normalize_schema_wf: "normalize_schema v = Inr s \<Longrightarrow> schema_wf s"
proof (induction v arbitrary: s rule: normalize_schema.induct)
  case (1 v)
  from "1.prems" obtain d ty en where d: "as_mapping v = Some d"
    and ty: "parse_type (field d ''type'') = Some ty"
    and ks: "\<not> (\<exists>k\<in>fst ` set d. k \<notin> set (map (\<lambda>s. PStr (u s)) (allowed_keywords ty)))"
    and en: "normalize_enum ty d = Inr en"
    by (subst (asm) normalize_schema.simps)
       (auto simp: bindr_Inr_iff split: option.splits if_splits simp del: as_mapping_Some)
  note body = "1.prems" [unfolded normalize_schema.simps [of v], simplified d ty ks en option.case if_False bindr.simps]
  note wf_en = normalize_enum_wf [OF en]
  show ?case
  proof (cases ty)
    case TObject
    show ?thesis
    proof (cases "field d ''properties''")
      case None
      with body TObject obtain rs where "normalize_required d [] = Inr rs" "s = ObjectSchema en [] rs"
        by (auto simp: bindr_Inr_iff split: if_splits)
      then show ?thesis using wf_en TObject normalize_required_wf [of d "[]" rs]
        by (auto intro!: wf_object)
    next
      case (Some p)
      with body TObject obtain ps nps rs where p: "as_mapping p = Some ps"
        and nps: "mapr (\<lambda>(k, s). if \<not> nonempty_str k then Inl PropertyName
           else bindr (normalize_schema s) (\<lambda>n. Inr (str_of k, n))) ps = Inr nps"
        and rs: "normalize_required d ps = Inr rs" and s: "s = ObjectSchema en nps rs"
        by (auto simp: bindr_Inr_iff split: if_splits option.splits simp del: as_mapping_Some)
      note all = normalize_properties [OF nps]
      have closed: "\<not> field d ''additionalProperties'' \<noteq> Some (PBool False)"
        using body TObject by (auto split: if_splits)
      have "schema_wf n" if qn: "(q, n) \<in> set nps" for q n
      proof -
        have "q \<noteq> []" using all2_keys [OF all] qn by force
        moreover obtain i where "(PStr q, i) \<in> set ps" "normalize_schema i = Inr n"
          using all2_member [OF all qn] by blast
        ultimately show ?thesis
          using "1.IH"(1) [OF d ty _ en TObject closed Some p, of "(PStr q, i)" "PStr q" i n] ks
          by (simp add: nonempty_str_iff)
      qed
      then show ?thesis
        using wf_en TObject normalize_required_wf [OF rs] all2_keys [OF all]
        by (auto simp: s intro!: wf_object)
    qed
  next
    case TArray
    with body obtain i n where i: "field d ''items'' = Some i" and n: "normalize_schema i = Inr n"
      and s: "s = ArraySchema en n"
      by (auto simp: bindr_Inr_iff split: option.splits)
    have "schema_wf n" using "1.IH"(2) [OF d ty _ en TArray i n] ks by simp
    then show ?thesis using wf_en TArray by (simp add: s wf_array)
  next
    case TString
    with body wf_en show ?thesis
      by (auto simp: bindr_Inr_iff dest: normalize_max_length_wf intro!: wf_string)
  next
    case TInteger
    with body wf_en show ?thesis
      by (auto simp: bindr_Inr_iff dest!: normalize_bounds_wf intro!: wf_number)
  next
    case TNumber
    with body wf_en show ?thesis
      by (auto simp: bindr_Inr_iff dest!: normalize_bounds_wf intro!: wf_number)
  next
    case TBoolean
    with body wf_en show ?thesis by (auto intro!: wf_plain)
  next
    case TNull
    with body wf_en show ?thesis by (auto intro!: wf_plain)
  qed
qed


section \<open>Round trip of definitions\<close>

lemma parse_type_name [simp]: "parse_type (Some (PStr (u (type_name ty)))) = Some ty"
  by (cases ty) (simp_all add: parse_type_def type_name_def json_types_def)

lemma thaw_ok: "require_json v = Inr () \<Longrightarrow> require_json (thaw v) = Inr ()"
proof (induction v)
  case (PDict d)
  then show ?case unfolding thaw_dict require_json_dict by (fastforce elim: snds.cases)
qed (auto simp: check_all_Inr)

lemma freeze_ok: "require_json v = Inr () \<Longrightarrow> require_json (freeze v) = Inr ()"
proof (induction v)
  case (PDict d)
  then show ?case unfolding freeze_dict require_json_dict by (fastforce elim: snds.cases)
qed (auto simp: check_all_Inr)

lemma thaw_matches [simp]: "matches_type (thaw v) ty = matches_type v ty"
  by (cases ty; cases v) (auto split: pyfloat.splits)

lemma freeze_matches [simp]: "matches_type (freeze v) ty = matches_type v ty"
  by (cases ty; cases v) (auto split: pyfloat.splits)

lemma freeze_thaw_freeze: "freeze (thaw (freeze v)) = freeze v"
proof (induction v)
  case (PDict d)
  then show ?case unfolding freeze_dict thaw_dict by (auto elim: snds.cases)
qed simp_all

lemma thaw_number: "matches_type v TInteger \<or> matches_type v TNumber \<Longrightarrow> thaw v = v"
  by (cases v) auto

lemma thaw_opt_member: "map (\<lambda>(k, v). (k, thaw v)) (opt_member f v) = opt_member f (map_option thaw v)"
  by (cases v) (simp_all add: opt_member_def)

lemma field_append: "field (d @ e) k = (case field d k of None \<Rightarrow> field e k | Some v \<Rightarrow> Some v)"
  by (cases "map_of d (PStr (u k))") (simp_all add: field_def map_add_def)

lemma field_opt_member [simp]:
  "field (opt_member k v) k' = (if k' = k then v else None)"
  by (cases v) (simp_all add: opt_member_def)

lemma keys_opt_member: "fst ` set (opt_member k v) \<subseteq> {PStr (u k)}"
  by (cases v) (simp_all add: opt_member_def)

lemma normalize_enum_again:
  assumes "enum_wf ty en" and "field d ''enum'' = map_option (thaw \<circ> PTuple) en"
  shows "normalize_enum ty d = Inr (map_option (map thaw) en)"
proof (cases en)
  case None
  with assms show ?thesis by (simp add: normalize_enum_def)
next
  case (Some es)
  with assms(1) have es: "es \<noteq> []" "\<forall>e\<in>set es. matches_type e ty" "\<forall>e\<in>set es. require_json e = Inr ()"
    by (auto simp: enum_wf_def)
  then have "require_json (PList (map thaw es)) = Inr ()"
    by (simp only: require_json_seq) (simp add: thaw_ok)
  with Some assms(2) es show ?thesis
    by (simp add: normalize_enum_def del: require_json.simps require_json_seq)
qed

text \<open>The members every thawed schema dictionary starts with.\<close>

lemma thaw_head: "map (\<lambda>(k, v). (k, thaw v)) (head_members ty en)
    = (PStr (u ''type''), PStr (u (type_name ty))) # opt_member ''enum'' (map_option (thaw \<circ> PTuple) en)"
  by (simp add: head_members_def thaw_opt_member option.map_comp)

lemma normalize_again_start:
  assumes "v = PDict d" and "field d ''type'' = Some (PStr (u (type_name ty)))"
    and "field d ''enum'' = map_option (thaw \<circ> PTuple) en" and "enum_wf ty en"
    and "fst ` set d \<subseteq> (\<lambda>s. PStr (u s)) ` set (allowed_keywords ty)"
  shows "as_mapping v = Some d" "parse_type (field d ''type'') = Some ty"
    "(\<exists>k\<in>fst ` set d. k \<notin> set (map (\<lambda>s. PStr (u s)) (allowed_keywords ty))) = False"
    "normalize_enum ty d = Inr (map_option (map thaw) en)"
  using assms normalize_enum_again by auto


lemma normalize_schema_by_type:
  assumes "v = PDict d" and "field d ''type'' = Some (PStr (u (type_name ty)))"
    and "field d ''enum'' = map_option (thaw \<circ> PTuple) en" and "enum_wf ty en"
    and "fst ` set d \<subseteq> (\<lambda>s. PStr (u s)) ` set (allowed_keywords ty)"
  shows "ty = TObject \<Longrightarrow> field d ''additionalProperties'' = Some (PBool False) \<Longrightarrow>
      field d ''properties'' = Some (PDict ps) \<Longrightarrow>
      mapr (\<lambda>(k, s). if \<not> nonempty_str k then Inl PropertyName
        else bindr (normalize_schema s) (\<lambda>n. Inr (str_of k, n))) ps = Inr nps \<Longrightarrow>
      normalize_required d ps = Inr rs \<Longrightarrow>
      normalize_schema v = Inr (ObjectSchema (map_option (map thaw) en) nps rs)"
    and "ty = TArray \<Longrightarrow> field d ''items'' = Some s \<Longrightarrow> normalize_schema s = Inr n \<Longrightarrow>
      normalize_schema v = Inr (ArraySchema (map_option (map thaw) en) n)"
    and "ty = TString \<Longrightarrow> normalize_max_length d = Inr m \<Longrightarrow>
      normalize_schema v = Inr (StringSchema (map_option (map thaw) en) m)"
    and "ty = (if i then TInteger else TNumber) \<Longrightarrow> normalize_bounds ty d = Inr (lo, hi) \<Longrightarrow>
      normalize_schema v = Inr (NumericSchema i (map_option (map thaw) en) lo hi)"
    and "ty = (if b then TBoolean else TNull) \<Longrightarrow>
      normalize_schema v = Inr (PlainSchema b (map_option (map thaw) en))"
  using normalize_again_start [OF assms] assms(1)
  by (subst normalize_schema.simps; simp split: if_splits)+

lemma normalize_schema_again:
  "schema_wf s \<Longrightarrow> normalize_schema (thaw (schema_value s)) = Inr (map_enums thaw s)"
proof (induction s rule: schema_wf.induct)
  case (wf_object en rs ps)
  let ?props = "map (\<lambda>(k, v). (PStr k, thaw (schema_value v))) ps"
  let ?d = "((PStr (u ''type''), PStr (u (type_name TObject))) # opt_member ''enum'' (map_option (thaw \<circ> PTuple) en))
     @ [(PStr (u ''properties''), PDict ?props)]
     @ (if rs = [] then [] else [(PStr (u ''required''), PList (map PStr rs))])
     @ [(PStr (u ''additionalProperties''), PBool False)]"
  have v: "thaw (schema_value (ObjectSchema en ps rs)) = PDict ?d"
    unfolding schema_value.simps thaw_dict map_append thaw_head
    by (simp add: thaw_dict comp_def case_prod_beta map_prod_def del: thaw.simps(8)) 
  have keys: "fst ` set ?d \<subseteq> (\<lambda>s. PStr (u s)) ` set (allowed_keywords TObject)"
    using keys_opt_member [of "''enum''" "map_option (thaw \<circ> PTuple) en"]
    by (auto simp: allowed_keywords_def)
  have props: "mapr (\<lambda>(k, s). if \<not> nonempty_str k then Inl PropertyName
      else bindr (normalize_schema s) (\<lambda>n. Inr (str_of k, n))) ?props
    = Inr (map (map_prod id (map_enums thaw)) ps)"
    unfolding mapr_Inr list_all2_map1 list_all2_map2
    by (rule list_all2_same [THEN iffD2])
       (use wf_object in \<open>force simp: nonempty_str_iff image_iff\<close>)
  have "fst ` set ?props = PStr ` fst ` set ps" by force
  moreover have "[] \<notin> set rs" using wf_object(3,4) by blast
  moreover have "PStr ` set rs \<subseteq> PStr ` fst ` set ps" using wf_object(3) by blast
  ultimately have req: "normalize_required ?d ?props = Inr rs"
    using wf_object(2)
    by (cases "rs = []") (simp_all add: normalize_required_def get_default_def field_append nonempty_str_iff
        distinct_map inj_on_def comp_def list.map_ident)
  have lookups: "field ?d ''type'' = Some (PStr (u (type_name TObject)))"
    "field ?d ''enum'' = map_option (thaw \<circ> PTuple) en"
    "field ?d ''additionalProperties'' = Some (PBool False)" "field ?d ''properties'' = Some (PDict ?props)"
    by (cases en; simp add: field_append)+
  show ?case
    using normalize_schema_by_type(1) [OF v lookups(1,2) wf_object(1) keys refl lookups(3,4) props req]
    by simp
next
  case (wf_array en s)
  let ?d = "((PStr (u ''type''), PStr (u (type_name TArray))) # opt_member ''enum'' (map_option (thaw \<circ> PTuple) en))
     @ [(PStr (u ''items''), thaw (schema_value s))]"
  have v: "thaw (schema_value (ArraySchema en s)) = PDict ?d"
    unfolding schema_value.simps thaw_dict map_append thaw_head by simp
  have keys: "fst ` set ?d \<subseteq> (\<lambda>s. PStr (u s)) ` set (allowed_keywords TArray)"
    using keys_opt_member [of "''enum''" "map_option (thaw \<circ> PTuple) en"]
    by (auto simp: allowed_keywords_def)
  have lookups: "field ?d ''type'' = Some (PStr (u (type_name TArray)))"
    "field ?d ''enum'' = map_option (thaw \<circ> PTuple) en" "field ?d ''items'' = Some (thaw (schema_value s))"
    by (cases en; simp add: field_append)+
  show ?case
    using normalize_schema_by_type(2) [OF v lookups(1,2) wf_array(1) keys refl lookups(3) wf_array.IH]
    by simp
next
  case (wf_string en m)
  let ?d = "((PStr (u ''type''), PStr (u (type_name TString))) # opt_member ''enum'' (map_option (thaw \<circ> PTuple) en))
     @ opt_member ''maxLength'' (map_option PInt m)"
  have v: "thaw (schema_value (StringSchema en m)) = PDict ?d"
    unfolding schema_value.simps thaw_dict map_append thaw_head thaw_opt_member
    by (simp add: option.map_comp comp_def)
  have keys: "fst ` set ?d \<subseteq> (\<lambda>s. PStr (u s)) ` set (allowed_keywords TString)"
    using keys_opt_member [of "''enum''" "map_option (thaw \<circ> PTuple) en"]
      keys_opt_member [of "''maxLength''" "map_option PInt m"]
    by (auto simp: allowed_keywords_def)
  have lookups: "field ?d ''type'' = Some (PStr (u (type_name TString)))"
    "field ?d ''enum'' = map_option (thaw \<circ> PTuple) en"
    by (cases en; simp add: field_append)+
  have max: "normalize_max_length ?d = Inr m"
    using wf_string(2) by (cases en; cases m) (auto simp: normalize_max_length_def field_append)
  show ?case
    using normalize_schema_by_type(3) [OF v lookups wf_string(1) keys refl max] by simp
next
  case (wf_number ty i en lo hi)
  let ?d = "((PStr (u ''type''), PStr (u (type_name ty))) # opt_member ''enum'' (map_option (thaw \<circ> PTuple) en))
     @ opt_member ''minimum'' lo @ opt_member ''maximum'' hi"
  have num: "map_option thaw b = b" if "none_or (\<lambda>b. matches_type b ty) b" for b
    using that wf_number(1) thaw_number by (cases b) (auto split: if_splits)
  have v: "thaw (schema_value (NumericSchema i en lo hi)) = PDict ?d"
    unfolding schema_value.simps thaw_dict map_append thaw_head thaw_opt_member num [OF wf_number(3)]
      num [OF wf_number(4)] using wf_number(1) by simp
  have keys: "fst ` set ?d \<subseteq> (\<lambda>s. PStr (u s)) ` set (allowed_keywords ty)"
    using keys_opt_member [of "''enum''" "map_option (thaw \<circ> PTuple) en"]
      keys_opt_member [of "''minimum''" lo] keys_opt_member [of "''maximum''" hi] wf_number(1)
    by (auto simp: allowed_keywords_def split: if_splits)
  have lookups: "field ?d ''type'' = Some (PStr (u (type_name ty)))"
    "field ?d ''enum'' = map_option (thaw \<circ> PTuple) en"
    by (cases en; simp add: field_append)+
  have "field ?d ''minimum'' = lo" "field ?d ''maximum'' = hi"
    by (cases en; cases lo; simp add: field_append)+
  moreover have "lo \<noteq> Some PNone" "hi \<noteq> Some PNone" using wf_number(1,3,4) by (auto split: if_splits)
  ultimately have "bound_of ?d ''minimum'' = lo" "bound_of ?d ''maximum'' = hi"
    unfolding bound_of_def by (auto split: option.split pyval.split)
  then have bounds: "normalize_bounds ty ?d = Inr (lo, hi)"
    using wf_number unfolding normalize_bounds_def Let_def by auto
  show ?case
    using normalize_schema_by_type(4) [OF v lookups wf_number(2) keys wf_number(1) bounds] by simp
next
  case (wf_plain b en)
  let ?ty = "if b then TBoolean else TNull"
  let ?d = "(PStr (u ''type''), PStr (u (type_name ?ty))) # opt_member ''enum'' (map_option (thaw \<circ> PTuple) en)"
  have v: "thaw (schema_value (PlainSchema b en)) = PDict ?d"
    unfolding schema_value.simps thaw_dict map_append thaw_head by simp
  have keys: "fst ` set ?d \<subseteq> (\<lambda>s. PStr (u s)) ` set (allowed_keywords ?ty)"
    using keys_opt_member [of "''enum''" "map_option (thaw \<circ> PTuple) en"]
    by (auto simp: allowed_keywords_def split: if_splits)
  have lookups: "field ?d ''type'' = Some (PStr (u (type_name ?ty)))"
    "field ?d ''enum'' = map_option (thaw \<circ> PTuple) en"
    by (cases en; simp add: field_append)+
  show ?case
    using normalize_schema_by_type(5) [OF v lookups wf_plain(1) keys refl] by simp
qed


lemma map_enums_freeze: "map_enums freeze (map_enums thaw (map_enums freeze s)) = map_enums freeze s"
proof (induction s)
  case (ObjectSchema en ps rs)
  then show ?case by (cases en) (auto simp: freeze_thaw_freeze elim: snds.cases)
next
  case (ArraySchema en s)
  then show ?case by (cases en) (auto simp: freeze_thaw_freeze)
next
  case (StringSchema en m)
  then show ?case by (cases en) (auto simp: freeze_thaw_freeze)
next
  case (NumericSchema i en lo hi)
  then show ?case by (cases en) (auto simp: freeze_thaw_freeze)
next
  case (PlainSchema b en)
  then show ?case by (cases en) (auto simp: freeze_thaw_freeze)
qed

lemma enum_wf_freeze: "enum_wf ty en \<Longrightarrow> enum_wf ty (map_option (map freeze) en)"
  by (auto simp: enum_wf_def freeze_ok)

lemma schema_wf_freeze: "schema_wf s \<Longrightarrow> schema_wf (map_enums freeze s)"
  by (induction rule: schema_wf.induct)
     (force intro!: schema_wf.intros simp: enum_wf_freeze image_image)+

lemma map_enums_type [simp]: "schema_type (map_enums f s) = schema_type s"
  by (cases s) auto

lemma validate_arguments_iff:
  "validate_arguments d v = Inr () \<longleftrightarrow>
     (\<exists>m. v = PDict m) \<and> require_json v = Inr () \<and> conforms (parameters d) v"
  by (auto simp: validate_arguments_def validate_value_iff simp del: require_json.simps require_json_dict
      split: option.splits)

section \<open>Properties\<close>

text \<open>
  C16: the parameters a definition publishes for the model are a schema again: building a
  definition from the published function object gives the same definition, so what the model
  is shown is exactly what its arguments are validated against.
\<close>

theorem tool_definition_roundtrip:
  assumes "RoleToolDefinition n d ps = Inr def"
  shows "schema_wf (parameters def) \<and>
    RoleToolDefinition (PStr (def_name def)) (PStr (def_description def))
      (thaw (schema_value (parameters def))) = Inr def"
proof -
  from assms obtain s where s: "normalize_schema ps = Inr s" "schema_type s = TObject"
    and n: "nonempty_str n" "nonempty_str d"
    and def': "def = \<lparr>def_name = str_of n, def_description = str_of d, parameters = freeze_schema s\<rparr>"
    by (auto simp: RoleToolDefinition_def normalize_root_def bindr_Inr_iff split: if_splits)
  have wf: "schema_wf (freeze_schema s)"
    unfolding freeze_schema_def by (rule schema_wf_freeze) (rule normalize_schema_wf [OF s(1)])
  have "normalize_root (thaw (schema_value (freeze_schema s))) = Inr (map_enums thaw (freeze_schema s))"
    using normalize_schema_again [OF wf] s(2) by (simp add: normalize_root_def freeze_schema_def)
  then show ?thesis using wf n
    by (auto simp: def' RoleToolDefinition_def nonempty_str_iff freeze_schema_def map_enums_freeze)
qed

text \<open>A definition of one optional bounded integer, as the built-in catalogue has one.\<close>

abbreviation limit_schema :: pyval where
  "limit_schema \<equiv> PDict [(PStr (u ''type''), PStr (u ''object'')),
     (PStr (u ''properties''), PDict [(PStr (u ''limit''), PDict [
        (PStr (u ''type''), PStr (u ''integer'')), (PStr (u ''minimum''), PInt 1),
        (PStr (u ''maximum''), PInt 50)])]),
     (PStr (u ''additionalProperties''), PBool False)]"

abbreviation limit_definition :: tool_definition where
  "limit_definition \<equiv> \<lparr>def_name = u ''model_list'', def_description = u ''List models'',
     parameters = ObjectSchema None [(u ''limit'', NumericSchema True None (Some (PInt 1)) (Some (PInt 50)))] []\<rparr>"

lemmas schema_eval = RoleToolDefinition_def normalize_root_def normalize_schema.simps parse_type_def
  json_types_def type_name_def allowed_keywords_def normalize_enum_def normalize_required_def
  normalize_bounds_def bound_of_def num_less_def nonempty_str_def str_of_def get_default_def
  freeze_schema_def Let_def

lemma limit_definition_ok:
  "RoleToolDefinition (PStr (u ''model_list'')) (PStr (u ''List models'')) limit_schema = Inr limit_definition"
  by (simp add: schema_eval)

lemma tool_definition_roundtrip_witness: "schema_wf (parameters limit_definition)"
  using tool_definition_roundtrip [OF limit_definition_ok] by (rule conjunct1)

text \<open>
  C17: argument validation is exact: a definition accepts a value exactly when it is a JSON
  object that conforms to its schema, that is with every required and no undeclared property,
  and every nested value of its type, in its enum and within its bounds.
\<close>

theorem validate_arguments_exact:
  "validate_arguments d v = Inr () \<longleftrightarrow>
     (\<exists>m. v = PDict m) \<and> require_json v = Inr () \<and> conforms (parameters d) v"
  by (rule validate_arguments_iff)

lemma schema_wf_bounds_of_limit [simp]:
  "conforms (NumericSchema True None (Some (PInt a)) (Some (PInt b))) (PInt i) \<longleftrightarrow> a \<le> i \<and> i \<le> b"
  by (auto simp: conforms_number_iff in_enum_def num_less_def)

text \<open>
  A call that the constructor accepts is valid JSON with frozen arguments, and its wire
  form is again accepted: the arguments of a call survive the dictionary form unchanged.
\<close>

theorem tool_call_roundtrip:
  assumes "RoleToolCall n args r c cid = Inr call"
  shows "require_json (arguments call) = Inr () \<and> json_dumps (arguments call) = json_dumps args \<and>
    RoleToolCall (PStr (call_name call)) (thaw (arguments call)) (round_index call) (call_index call)
      (case call_id call of None \<Rightarrow> PNone | Some i \<Rightarrow> PStr i) = Inr call"
proof -
  from assms obtain m where n: "nonempty_str n" "args = PDict m" "0 \<le> r" "0 \<le> c" "cid = PNone \<or> nonempty_str cid"
    and json: "require_json args = Inr ()"
    and call: "call = \<lparr>call_name = str_of n, arguments = freeze args, round_index = r, call_index = c,
        call_id = as_str cid\<rparr>"
    by (auto simp: RoleToolCall_def split: if_splits sum.splits simp del: require_json.simps require_json_dict)
  have "require_json (thaw (freeze args)) = Inr ()" by (rule thaw_ok [OF freeze_ok [OF json]])
  moreover have "as_mapping (thaw (freeze args)) \<noteq> None" by (simp add: n(2))
  ultimately have "RoleToolCall (PStr (call_name call)) (thaw (arguments call)) (round_index call) (call_index call)
      (case call_id call of None \<Rightarrow> PNone | Some i \<Rightarrow> PStr i) = Inr call"
    using n(1,3-5) by (auto simp: RoleToolCall_def call nonempty_str_iff freeze_thaw_freeze
      simp del: require_json.simps require_json_dict freeze.simps thaw.simps)
  then show ?thesis by (simp add: call freeze_ok [OF json] dumps_freeze)
qed

lemma tool_call_roundtrip_witness:
  "require_json (PDict [(PStr (u ''limit''), PInt 3)]) = Inr ()"
  using tool_call_roundtrip [where n = "PStr (u ''model_list'')" and args = "PDict [(PStr (u ''limit''), PInt 3)]"
      and r = 0 and c = 0 and cid = PNone
      and call = "\<lparr>call_name = u ''model_list'', arguments = PDict [(PStr (u ''limit''), PInt 3)],
        round_index = 0, call_index = 0, call_id = None\<rparr>"]
  by (simp add: RoleToolCall_def nonempty_str_def str_of_def check_key_def ensure_def)

end
