(* ===== verification/Role_Tool_Catalog.thy ===== *)
theory Role_Tool_Catalog
  imports Role_Tool_Protocol Capability_Manifest
begin

text \<open>
  The static catalog of role tools, \<open>src/core/contracts/role_tool_catalog.py\<close>: its entries with
  their descriptors and digests, and the evidence that the whole catalog was selected. SHA-256
  in hexadecimal is the parameter \<open>sha\<close> on the canonical text.
\<close>

datatype catalog_error = CatalogInvalid string | CatalogDefinition protocol_error | CatalogBytes size_error

record catalog_entry =
  entry_id :: pystr
  entry_definition :: tool_definition
  entry_permissions :: "pystr list"

definition is_role_tool_id :: "pystr \<Rightarrow> bool" where
  "is_role_tool_id s \<longleftrightarrow> take 10 s = u ''role_tool:'' \<and> is_capability_identifier (drop 10 s)"

definition RoleToolCatalogEntry :: "pyval \<Rightarrow> tool_definition option \<Rightarrow> pyval \<Rightarrow> catalog_error + catalog_entry" where
  "RoleToolCatalogEntry cid d ps =
     bindr (need (as_str cid) (CatalogInvalid ''capability_id'')) (\<lambda>i.
     bindr (ensure (is_role_tool_id i) (CatalogInvalid ''capability_id'')) (\<lambda>_.
     bindr (need d (CatalogInvalid ''definition'')) (\<lambda>def.
     bindr (need (as_tuple ps) (CatalogInvalid ''permissions'')) (\<lambda>vs.
     bindr (mapr (\<lambda>v. need (case v of PStr s \<Rightarrow> if s \<noteq> [] then Some s else None | _ \<Rightarrow> None)
         (CatalogInvalid ''permissions'')) vs) (\<lambda>perms.
       Inr \<lparr>entry_id = i, entry_definition = def, entry_permissions = sorted_set perms\<rparr>)))))"

definition descriptor :: "catalog_entry \<Rightarrow> pyval" where
  "descriptor e = PDict [
     (PStr (u ''capability_id''), PStr (entry_id e)),
     (PStr (u ''definition''), (case to_ollama (entry_definition e) of
        PDict d \<Rightarrow> get_default d ''function'' PNone | _ \<Rightarrow> PNone)),
     (PStr (u ''permissions''), strings (entry_permissions e))]"

definition digest_of :: "(pystr \<Rightarrow> pystr) \<Rightarrow> pyval \<Rightarrow> catalog_error + pystr" where
  "digest_of sha v = (case stable_json_bytes v of Inl e \<Rightarrow> Inl (CatalogBytes e) | Inr t \<Rightarrow> Inr (sha t))"

definition descriptor_sha256 :: "(pystr \<Rightarrow> pystr) \<Rightarrow> catalog_entry \<Rightarrow> catalog_error + pystr" where
  "descriptor_sha256 sha e = digest_of sha (descriptor e)"

section \<open>The catalog\<close>

definition object_schema :: "(pyval \<times> pyval) list \<Rightarrow> pyval" where
  "object_schema ps = PDict [
     (PStr (u ''type''), PStr (u ''object'')),
     (PStr (u ''properties''), PDict ps),
     (PStr (u ''additionalProperties''), PBool False)]"

definition MAX_MEMORY_RESULTS :: int where "MAX_MEMORY_RESULTS = 20"

definition bounded_integer :: "int \<Rightarrow> int \<Rightarrow> pyval" where
  "bounded_integer lo hi = PDict [(PStr (u ''type''), PStr (u ''integer'')),
     (PStr (u ''minimum''), PInt lo), (PStr (u ''maximum''), PInt hi)]"

text \<open>Identifier suffix (also the tool name), description, schema and permission, in source order.\<close>

definition catalog_source :: "(string \<times> string \<times> pyval \<times> string) list" where
  "catalog_source = [
     (''system_status'', ''Read bounded host and repository-volume status'', object_schema [], ''system.read''),
     (''model_list'', ''List models from the trusted Ollama service'',
        object_schema [(PStr (u ''limit''), bounded_integer 1 50)], ''ollama.models.read''),
     (''orchestrator_status'', ''Read the trusted role registry and Worker isolation status'',
        object_schema [], ''roles.read''),
     (''memory_search'', ''Search bounded entries in the trusted memory store'', PDict [
        (PStr (u ''type''), PStr (u ''object'')),
        (PStr (u ''properties''), PDict [
           (PStr (u ''query''), PDict [(PStr (u ''type''), PStr (u ''string'')), (PStr (u ''maxLength''), PInt 256)]),
           (PStr (u ''limit''), bounded_integer 1 MAX_MEMORY_RESULTS)]),
        (PStr (u ''required''), PList [PStr (u ''query'')]),
        (PStr (u ''additionalProperties''), PBool False)], ''memory.read''),
     (''repository_metadata'', ''Read bounded Git metadata from the trusted repository'',
        object_schema [], ''repository.read'')]"

definition catalog_entry_of :: "string \<times> string \<times> pyval \<times> string \<Rightarrow> catalog_error + catalog_entry" where
  "catalog_entry_of x = (case x of (n, d, s, p) \<Rightarrow>
     (case RoleToolDefinition (PStr (u n)) (PStr (u d)) s of
        Inl e \<Rightarrow> Inl (CatalogDefinition e)
      | Inr def \<Rightarrow> RoleToolCatalogEntry (PStr (u (''role_tool:'' @ n))) (Some def) (PTuple [PStr (u p)])))"

definition build_catalog :: "(string \<times> string \<times> pyval \<times> string) list \<Rightarrow> catalog_error + catalog_entry list" where
  "build_catalog src =
     bindr (mapr catalog_entry_of src) (\<lambda>es. let sorted = sort_key entry_id es in
     bindr (ensure (distinct (map entry_id sorted)) (CatalogInvalid ''duplicate id'')) (\<lambda>_.
     bindr (ensure (distinct (map (\<lambda>e. def_name (entry_definition e)) sorted)) (CatalogInvalid ''duplicate name'')) (\<lambda>_.
       Inr sorted)))"

definition ROLE_TOOL_CATALOG :: "catalog_entry list" where
  "ROLE_TOOL_CATALOG = (case build_catalog catalog_source of Inr es \<Rightarrow> es | Inl _ \<Rightarrow> [])"

definition ROLE_TOOL_CAPABILITY_IDS :: "pystr list" where
  "ROLE_TOOL_CAPABILITY_IDS = map entry_id ROLE_TOOL_CATALOG"

definition role_tool_catalog_digest :: "(pystr \<Rightarrow> pystr) \<Rightarrow> catalog_error + pystr" where
  "role_tool_catalog_digest sha = digest_of sha (PList (map descriptor ROLE_TOOL_CATALOG))"

definition role_tool_definitions :: "(pystr, tool_definition) pydict" where
  "role_tool_definitions = foldl (\<lambda>d e. AList.update (def_name (entry_definition e)) (entry_definition e) d) []
     ROLE_TOOL_CATALOG"

section \<open>Assembly evidence\<close>

record assembly =
  assembly_version :: int
  assembly_ids :: "pystr list"
  assembly_sha :: pystr

definition RoleToolAssembly :: "(pystr \<Rightarrow> pystr) \<Rightarrow> pyval \<Rightarrow> pyval \<Rightarrow> pyval \<Rightarrow> catalog_error + assembly" where
  "RoleToolAssembly sha ver ids digest =
     bindr (ensure (ver = PInt 1) (CatalogInvalid ''schema_version'')) (\<lambda>_.
     bindr (need (as_tuple ids) (CatalogInvalid ''capability_ids'')) (\<lambda>vs.
     bindr (mapr (\<lambda>v. need (as_str v) (CatalogInvalid ''capability_ids'')) vs) (\<lambda>xs.
     bindr (ensure (xs = ROLE_TOOL_CAPABILITY_IDS) (CatalogInvalid ''capability_ids'')) (\<lambda>_.
     bindr (need (as_str digest) (CatalogInvalid ''catalog_sha256'')) (\<lambda>h.
     bindr (ensure (is_sha256 h) (CatalogInvalid ''catalog_sha256'')) (\<lambda>_.
     bindr (role_tool_catalog_digest sha) (\<lambda>actual.
     bindr (ensure (h = actual) (CatalogInvalid ''catalog_sha256'')) (\<lambda>_.
       Inr \<lparr>assembly_version = 1, assembly_ids = xs, assembly_sha = h\<rparr>))))))))"

definition for_catalog :: "(pystr \<Rightarrow> pystr) \<Rightarrow> catalog_error + assembly" where
  "for_catalog sha = bindr (role_tool_catalog_digest sha) (\<lambda>h.
     RoleToolAssembly sha (PInt 1) (PTuple (map PStr ROLE_TOOL_CAPABILITY_IDS)) (PStr h))"

definition assembly_fields :: "string list" where
  "assembly_fields = [''schema_version'', ''capability_ids'', ''catalog_sha256'']"

definition assembly_from_value :: "(pystr \<Rightarrow> pystr) \<Rightarrow> pyval \<Rightarrow> catalog_error + assembly" where
  "assembly_from_value sha v =
     bindr (need (as_mapping v) (CatalogInvalid ''object'')) (\<lambda>d.
     bindr (ensure (length d = 3 \<and> fst ` set d = set (map (\<lambda>k. PStr (u k)) assembly_fields)) (CatalogInvalid ''fields'')) (\<lambda>_.
     bindr (need (as_list (item_of d ''capability_ids'')) (CatalogInvalid ''capability_ids'')) (\<lambda>ids.
       RoleToolAssembly sha (item_of d ''schema_version'') (PTuple ids) (item_of d ''catalog_sha256''))))"

definition assembly_to_dict :: "assembly \<Rightarrow> pyval" where
  "assembly_to_dict a = PDict [
     (PStr (u ''schema_version''), PInt (assembly_version a)),
     (PStr (u ''capability_ids''), strings (assembly_ids a)),
     (PStr (u ''catalog_sha256''), PStr (assembly_sha a))]"

section \<open>Facts\<close>

lemma catalog_built:
  "build_catalog catalog_source = Inr ROLE_TOOL_CATALOG \<and>
   ROLE_TOOL_CAPABILITY_IDS = map (\<lambda>n. u (''role_tool:'' @ n))
     [''memory_search'', ''model_list'', ''orchestrator_status'', ''repository_metadata'', ''system_status'']"
  by code_simp

lemma mapr_strings: "mapr (\<lambda>v. need (as_str v) e) vs = Inr xs \<longleftrightarrow> vs = map PStr xs"
  using mapr_exact [of "\<lambda>v. need (as_str v) e" PStr "\<lambda>_. True" vs xs] by (simp add: need_Inr)

lemma RoleToolAssembly_Inr:
  "RoleToolAssembly sha ver ids digest = Inr a \<longleftrightarrow> ver = PInt 1 \<and> ids = PTuple (map PStr (assembly_ids a))
     \<and> digest = PStr (assembly_sha a) \<and> is_sha256 (assembly_sha a)
     \<and> role_tool_catalog_digest sha = Inr (assembly_sha a)
     \<and> assembly_version a = 1 \<and> assembly_ids a = ROLE_TOOL_CAPABILITY_IDS"
  unfolding RoleToolAssembly_def by (cases a) (auto simp: bindr_Inr_iff need_Inr ensure_Inr mapr_strings)

lemma for_catalog_Inr:
  "for_catalog sha = Inr a \<longleftrightarrow> is_sha256 (assembly_sha a) \<and> role_tool_catalog_digest sha = Inr (assembly_sha a)
     \<and> assembly_version a = 1 \<and> assembly_ids a = ROLE_TOOL_CAPABILITY_IDS"
  unfolding for_catalog_def by (auto simp: bindr_Inr_iff RoleToolAssembly_Inr)

interpretation assembly_wire: wire_format assembly_to_dict "assembly_from_value sha" "\<lambda>a. for_catalog sha = Inr a"
  for sha
proof
  fix a assume "for_catalog sha = Inr a"
  then have "RoleToolAssembly sha (PInt (assembly_version a)) (PTuple (map PStr (assembly_ids a)))
      (PStr (assembly_sha a)) = Inr a"
    by (simp add: for_catalog_Inr RoleToolAssembly_Inr)
  then show "assembly_from_value sha (assembly_to_dict a) = Inr a"
    by (simp add: assembly_from_value_def assembly_to_dict_def result_simps assembly_fields_def item_of_def strings_def)
next
  fix v a assume "assembly_from_value sha v = Inr a"
  then show "for_catalog sha = Inr a"
    by (auto simp: assembly_from_value_def result_simps RoleToolAssembly_Inr for_catalog_Inr)
qed

section \<open>Properties\<close>

text \<open>
  The only assembly evidence that any object decodes to is the one of the whole built-in
  catalog: the five read-only tools in the order of their identifiers, with the digest of their
  descriptors; and that evidence survives its own dictionary form.
\<close>

theorem assembly_evidence_is_catalog:
  "(for_catalog sha = Inr a \<longleftrightarrow> assembly_from_value sha (assembly_to_dict a) = Inr a) \<and>
   (assembly_from_value sha v = Inr b \<longrightarrow> for_catalog sha = Inr b \<and>
      role_tool_catalog_digest sha = Inr (assembly_sha b) \<and>
      assembly_ids b = map (\<lambda>n. u (''role_tool:'' @ n))
        [''memory_search'', ''model_list'', ''orchestrator_status'', ''repository_metadata'', ''system_status''])"
  using assembly_wire.valid_iff [of sha a] assembly_wire.decode_valid [of sha v b] catalog_built
  by (auto simp: for_catalog_Inr)

text \<open>Values made of text below code point 256 always encode.\<close>

primrec latin :: "pyval \<Rightarrow> bool" where
  "latin PNone = True"
| "latin (PBool b) = True"
| "latin (PInt i) = True"
| "latin (PFloat f) = False"
| "latin (PStr s) = list_all (\<lambda>c. c < 256) s"
| "latin (PList xs) = list_all (\<lambda>b. b) (map latin xs)"
| "latin (PTuple xs) = list_all (\<lambda>b. b) (map latin xs)"
| "latin (PDict d) = list_all (\<lambda>(k, b). list_all (\<lambda>c. c < 256) (key_text k) \<and> b)
     (zip (map fst d) (map snd (map (map_prod latin latin) d)))"
| "latin (POther n) = False"

lemma latin_dict: "latin (PDict d) \<longleftrightarrow> (\<forall>(k, v)\<in>set d. list_all (\<lambda>c. c < 256) (key_text k) \<and> latin v)"
  by (induction d) auto

lemma latin_text: "list_all (\<lambda>c. c < 256) s \<Longrightarrow> encodable s"
  by (induction s) (auto simp: is_surrogate_def)

lemma latin_encodable: "latin v \<Longrightarrow> encodable (json_dumps v)"
proof (induction v)
  case (PDict d)
  then have "\<forall>(k, v)\<in>set d. encodable (key_text k) \<and> encodable (json_dumps v)"
    by (fastforce simp del: latin.simps simp: latin_dict dest: latin_text)
  then show ?case unfolding dumps_dict
    by (auto simp: member_text_def is_surrogate_def)
qed (auto simp: latin_text list_all_iff is_surrogate_def u_def)

definition demo_sha :: "pystr \<Rightarrow> pystr" where
  "demo_sha t = replicate 64 48"

lemma assembly_evidence_is_catalog_witness:
  "\<exists>a. assembly_from_value demo_sha (assembly_to_dict a) = Inr a \<and> length (assembly_ids a) = 5"
proof -
  have "latin (PList (map descriptor ROLE_TOOL_CATALOG))"
    "require_json (PList (map descriptor ROLE_TOOL_CATALOG)) = Inr ()" by code_simp+
  then have "json_ok (PList (map descriptor ROLE_TOOL_CATALOG))" by (simp only: json_ok_def latin_encodable)
  then obtain t where "stable_json_bytes (PList (map descriptor ROLE_TOOL_CATALOG)) = Inr t"
    by (simp add: stable_json_bytes_Inr)
  then have "role_tool_catalog_digest demo_sha = Inr (replicate 64 48)"
    by (simp add: role_tool_catalog_digest_def digest_of_def demo_sha_def)
  then have "for_catalog demo_sha = Inr \<lparr>assembly_version = 1, assembly_ids = ROLE_TOOL_CAPABILITY_IDS,
      assembly_sha = replicate 64 48\<rparr>" (is "_ = Inr ?a")
    by (simp add: for_catalog_Inr is_sha256_def hex_lower_def)
  moreover have "length ROLE_TOOL_CAPABILITY_IDS = 5"
    using arg_cong [OF conjunct2 [OF catalog_built], of length] by simp
  ultimately show ?thesis
    using assembly_evidence_is_catalog [of demo_sha ?a] by (intro exI [of _ ?a]) simp
qed

end
