(* ===== verification/Capability_Registry.thy ===== *)
theory Capability_Registry
  imports Capability_Resolver Role_Tool_Catalog
begin

text \<open>
  Discovery of repository-local capabilities, \<open>src/core/kernel/capability_registry.py\<close>: slugs,
  bounded listings, the records made of plugins, role tools and user-interface components, the
  snapshot without duplicates, its cache, and the evidence for the role tools. What the file
  system, the hashing of trees and \<open>json.loads\<close> answer is given as observations; the reading of
  skill documents is left out and enters as records and issues.
\<close>

section \<open>Slugs\<close>

definition ascii_upper :: "nat \<Rightarrow> bool" where
  "ascii_upper c \<longleftrightarrow> 65 \<le> c \<and> c \<le> 90"

definition slug_char :: "nat \<Rightarrow> bool" where
  "slug_char c \<longleftrightarrow> ascii_alnum c \<or> c \<in> {46, 95, 45}"

text \<open>\<open>re.sub(r"([a-z0-9])([A-Z])", r"\1-\2", s)\<close>.\<close>

fun split_camel :: "pystr \<Rightarrow> pystr" where
  "split_camel (c # d # cs) = (if (ascii_lower c \<or> ascii_digit c) \<and> ascii_upper d
     then c # 45 # split_camel (d # cs) else c # split_camel (d # cs))"
| "split_camel cs = cs"

text \<open>Every maximal run of characters with \<open>p\<close> becomes one hyphen; \<open>b\<close> tells that a run is open.\<close>

fun squeeze :: "(nat \<Rightarrow> bool) \<Rightarrow> bool \<Rightarrow> pystr \<Rightarrow> pystr" where
  "squeeze p b [] = []"
| "squeeze p b (c # cs) = (if p c then (if b then squeeze p True cs else 45 # squeeze p True cs)
     else c # squeeze p False cs)"

definition strip_chars :: "nat set \<Rightarrow> pystr \<Rightarrow> pystr" where
  "strip_chars X s = rev (dropWhile (\<lambda>c. c \<in> X) (rev (dropWhile (\<lambda>c. c \<in> X) s)))"

definition lower_ascii :: "pystr \<Rightarrow> pystr" where
  "lower_ascii = map (\<lambda>c. if ascii_upper c then c + 32 else c)"

definition slugify :: "pystr \<Rightarrow> pystr" where
  "slugify s =
     (let t = squeeze (\<lambda>c. \<not> slug_char c) False (split_camel s);
          v = lower_ascii (strip_chars {45, 46, 95} (squeeze (\<lambda>c. c = 45) False t))
      in if v = [] then u ''unknown'' else v)"

section \<open>Listings\<close>

text \<open>\<open>heapq.nsmallest(limit, values, key)\<close> with the count of all values.\<close>

definition bounded_sorted :: "nat \<Rightarrow> ('a \<Rightarrow> 'k::linorder) \<Rightarrow> 'a list \<Rightarrow> 'a list \<times> nat" where
  "bounded_sorted limit key xs = (take limit (sort_key key xs), length xs)"

definition MAX_CHILDREN :: nat where "MAX_CHILDREN = 1024"

record 'a child =
  child_name :: pystr
  child_symlink :: bool
  child_data :: 'a

record 'a listing =
  root_exists :: bool
  root_symlink :: bool
  root_children :: "'a child list"

definition list_children :: "unicode \<Rightarrow> string \<Rightarrow> 'a listing \<Rightarrow> 'a child list \<times> pystr list" where
  "list_children uc kind l =
     (if \<not> root_exists l then ([], [])
      else if root_symlink l then ([], [u (kind @ ''_root_symlink_rejected'')])
      else (case bounded_sorted MAX_CHILDREN (\<lambda>c. casefold uc (child_name c)) (root_children l) of
        (entries, n) \<Rightarrow>
          (filter (\<lambda>c. \<not> child_symlink c) entries,
           (if n > MAX_CHILDREN then [u (kind @ ''_child_limit'')] else []) @
           map (\<lambda>c. u (kind @ ''_symlink_rejected:'') @ child_name c) (filter child_symlink entries))))"

section \<open>Plugins\<close>

text \<open>
  What looking at one plugin directory gives. An error is the code of the exception, with
  \<open>manifest_invalid\<close> for an exception without one.
\<close>

record plugin_dir =
  plugin_is_dir :: bool
  plugin_has_manifest :: bool
  plugin_manifest :: "string + pyval"
  plugin_entry_present :: "pystr \<Rightarrow> bool"
  plugin_digest :: "string + pystr"
  plugin_path :: "string + pystr"
  plugin_entry_path :: "pystr \<Rightarrow> string + pystr"

definition ALLOWED_LICENSES :: "pystr list" where
  "ALLOWED_LICENSES = map u [''MIT'', ''Apache-2.0'', ''BSD-2-Clause'', ''BSD-3-Clause'']"

definition nonempty_text :: "pyval option \<Rightarrow> pystr option" where
  "nonempty_text v = (case v of Some (PStr s) \<Rightarrow> if s \<noteq> [] then Some s else None | _ \<Rightarrow> None)"

definition text_or_none :: "pyval option \<Rightarrow> pyval" where
  "text_or_none v = (case v of Some (PStr s) \<Rightarrow> PStr s | _ \<Rightarrow> PNone)"

definition opt_code :: "bool \<Rightarrow> string \<Rightarrow> pyval list" where
  "opt_code b c = (if b then [PStr (u c)] else [])"

definition plugin_args :: "plugin_dir \<Rightarrow> pystr \<Rightarrow> (pyval \<times> pyval) list \<Rightarrow> pystr \<Rightarrow> pystr \<Rightarrow> pystr
    \<Rightarrow> pystr \<Rightarrow> pyval list \<Rightarrow> pystr \<Rightarrow> pystr \<Rightarrow> capability_args" where
  "plugin_args po ident d n ver ep digest perms path epath =
     (let missing = \<not> plugin_entry_present po ep;
          url = text_or_none (field d ''source_url'');
          lic = text_or_none (field d ''license'');
          complete = truthy url \<and> lic \<in> PStr ` set ALLOWED_LICENSES;
          hi = opt_code missing ''entrypoint_missing'' @ opt_code (\<not> truthy url) ''missing_source''
            @ opt_code (\<not> truthy lic) ''missing_license'';
          native = (field d ''runtime'' = Some (PStr (u ''native'')));
          rr = hi @ opt_code native ''native_runtime'' in
      \<lparr>arg_id = u ''plugin:'' @ ident, arg_kind = Some Plugin, arg_name = PStr n, arg_version = PStr ver,
       arg_description = (case get_default d ''description'' (PStr []) of PStr s \<Rightarrow> PStr s | _ \<Rightarrow> PStr []),
       arg_path = PStr path, arg_entrypoint = PStr epath,
       arg_lifecycle = Some (if missing then InvalidLifecycle else Discovered),
       arg_permissions = perms,
       arg_compatibility = (case field d ''api_version'' of
          Some (PStr v) \<Rightarrow> [(PStr (u ''jarvis_api''), PStr (u ''=='' @ v))] | _ \<Rightarrow> []),
       arg_compatibility_status = u ''unknown'', arg_source_url = url, arg_license = lic,
       arg_sha256 = Some digest,
       arg_provenance = (if complete then u ''complete'' else u ''incomplete''),
       arg_health = Some (if missing then InvalidHealth else if hi = [] then Healthy else Degraded),
       arg_health_issues = hi,
       arg_risk = Some (if missing \<or> native then HighRisk else if rr = [] then LowRisk else MediumRisk),
       arg_risk_reasons = rr\<rparr>)"

definition plugin_try :: "pystr \<Rightarrow> plugin_dir \<Rightarrow> string + capability" where
  "plugin_try name po =
     bindr (plugin_manifest po) (\<lambda>v.
     bindr (need (as_mapping v) ''manifest_invalid'') (\<lambda>d.
     bindr (need (as_str (get_default d ''plugin_id'' (PStr (slugify name)))) ''manifest_invalid'') (\<lambda>pid.
     bindr (need (nonempty_text (field d ''name'')) ''manifest_invalid'') (\<lambda>n.
     bindr (need (nonempty_text (field d ''version'')) ''manifest_invalid'') (\<lambda>ver.
     bindr (need (nonempty_text (field d ''entry_point'')) ''manifest_invalid'') (\<lambda>ep.
     bindr (plugin_digest po) (\<lambda>digest.
     bindr (need (as_list (get_default d ''permissions'' (PList []))) ''manifest_invalid'') (\<lambda>perms.
     bindr (ensure (\<forall>p\<in>set perms. as_str p \<noteq> None) ''manifest_invalid'') (\<lambda>_.
     bindr (plugin_path po) (\<lambda>path.
     bindr (plugin_entry_path po ep) (\<lambda>epath.
       create_capability (plugin_args po (slugify pid) d n ver ep digest perms path epath))))))))))))"

text \<open>The record of a broken plugin, made in the exception handler: its own errors escape.\<close>

definition broken_plugin_args :: "pystr \<Rightarrow> pystr \<Rightarrow> string \<Rightarrow> capability_args" where
  "broken_plugin_args name path code =
     \<lparr>arg_id = u ''plugin:'' @ slugify name, arg_kind = Some Plugin, arg_name = PStr name, arg_version = PNone,
      arg_description = PStr [], arg_path = PStr path, arg_entrypoint = PNone,
      arg_lifecycle = Some InvalidLifecycle, arg_permissions = [], arg_compatibility = [],
      arg_compatibility_status = u ''unknown'', arg_source_url = PNone, arg_license = PNone,
      arg_sha256 = None, arg_provenance = u ''incomplete'', arg_health = Some InvalidHealth,
      arg_health_issues = [PStr (u code)], arg_risk = Some HighRisk, arg_risk_reasons = [PStr (u code)]\<rparr>"

definition plugin_record :: "pystr \<Rightarrow> plugin_dir \<Rightarrow> string + capability" where
  "plugin_record name po = (case plugin_try name po of
       Inr r \<Rightarrow> Inr r
     | Inl code \<Rightarrow> bindr (plugin_path po) (\<lambda>path. create_capability (broken_plugin_args name path code)))"

definition discover_plugins :: "unicode \<Rightarrow> plugin_dir listing \<Rightarrow> string + capability list \<times> pystr list" where
  "discover_plugins uc l = (case list_children uc ''plugin'' l of (cs, issues) \<Rightarrow>
     bindr (mapr (\<lambda>c. plugin_record (child_name c) (child_data c))
       (filter (\<lambda>c. plugin_is_dir (child_data c) \<and> plugin_has_manifest (child_data c)) cs)) (\<lambda>rs.
       Inr (rs, issues)))"

section \<open>Role tools\<close>

definition ROLE_TOOL_SOURCE_PATH :: pystr where
  "ROLE_TOOL_SOURCE_PATH = u ''src/core/brain/read_only_role_tools.py''"

datatype source_state = SourceSymlink | SourceMissing | SourceFile "string + pystr"

definition role_tool_args :: "catalog_entry \<Rightarrow> pystr \<Rightarrow> pystr \<Rightarrow> capability_args" where
  "role_tool_args e path digest =
     \<lparr>arg_id = entry_id e, arg_kind = Some RoleTool, arg_name = PStr (def_name (entry_definition e)),
      arg_version = PNone, arg_description = PStr (def_description (entry_definition e)),
      arg_path = PStr path, arg_entrypoint = PStr path, arg_lifecycle = Some Enabled,
      arg_permissions = map PStr (entry_permissions e), arg_compatibility = [],
      arg_compatibility_status = u ''unknown'', arg_source_url = PNone, arg_license = PNone,
      arg_sha256 = Some digest, arg_provenance = u ''verified'', arg_health = Some Healthy,
      arg_health_issues = [], arg_risk = Some LowRisk, arg_risk_reasons = []\<rparr>"

text \<open>
  Records already appended stay when a later entry fails; an error of the protocol itself is not
  caught here and escapes.
\<close>

fun role_tool_records :: "(pystr \<Rightarrow> pystr) \<Rightarrow> pystr \<Rightarrow> catalog_entry list
    \<Rightarrow> string + capability list \<times> string option" where
  "role_tool_records sha path [] = Inr ([], None)"
| "role_tool_records sha path (e # es) = (case descriptor_sha256 sha e of
       Inl _ \<Rightarrow> Inl ''catalog''
     | Inr h \<Rightarrow> (case create_capability (role_tool_args e path h) of
           Inl code \<Rightarrow> Inr ([], Some code)
         | Inr r \<Rightarrow> bindr (role_tool_records sha path es) (\<lambda>res. Inr (r # fst res, snd res))))"

definition discover_role_tools :: "(pystr \<Rightarrow> pystr) \<Rightarrow> source_state \<Rightarrow> string + capability list \<times> pystr list" where
  "discover_role_tools sha src = (case src of
       SourceSymlink \<Rightarrow> Inr ([], [u ''role_tool_source_symlink_rejected''])
     | SourceMissing \<Rightarrow> Inr ([], [u ''role_tool_source_missing''])
     | SourceFile (Inl code) \<Rightarrow> Inr ([], [u (''role_tool_invalid:'' @ code)])
     | SourceFile (Inr path) \<Rightarrow> bindr (role_tool_records sha path ROLE_TOOL_CATALOG) (\<lambda>res.
         Inr (fst res, (case snd res of None \<Rightarrow> [] | Some code \<Rightarrow> [u (''role_tool_invalid:'' @ code)]))))"

section \<open>User-interface components\<close>

record ui_candidate =
  ui_is_file :: bool
  ui_is_dir :: bool
  ui_has_index_tsx :: bool
  ui_has_index_ts :: bool
  ui_digest :: "string + pystr"
  ui_path :: "string + pystr"
  ui_entry_path :: "string + pystr"

text \<open>\<open>PurePath.suffix\<close> and \<open>stem\<close>: the last dot counts unless it is the first or last character.\<close>

definition split_suffix :: "pystr \<Rightarrow> pystr \<times> pystr" where
  "split_suffix n = (let k = length (takeWhile (\<lambda>c. c \<noteq> 46) (rev n)); i = length n - k in
     if 46 \<in> set n \<and> 1 < i \<and> 0 < k then (take (i - 1) n, drop (i - 1) n) else (n, []))"

definition ui_name :: "pystr \<Rightarrow> ui_candidate \<Rightarrow> pystr option" where
  "ui_name n c =
     (if ui_is_file c \<and> snd (split_suffix n) = u ''.tsx'' \<and> \<not> occurs_in (u ''.test.'') n then Some (fst (split_suffix n))
      else if ui_is_dir c \<and> (ui_has_index_tsx c \<or> ui_has_index_ts c) then Some n else None)"

definition ui_record :: "pystr \<Rightarrow> ui_candidate \<Rightarrow> string + capability" where
  "ui_record name c =
     bindr (ui_digest c) (\<lambda>h. bindr (ui_path c) (\<lambda>p. bindr (ui_entry_path c) (\<lambda>ep.
       create_capability \<lparr>arg_id = u ''ui_component:'' @ slugify name, arg_kind = Some UiComponent,
         arg_name = PStr name, arg_version = PNone, arg_description = PStr (u ''Local Solid.js UI component''),
         arg_path = PStr p, arg_entrypoint = PStr ep, arg_lifecycle = Some Discovered, arg_permissions = [],
         arg_compatibility = [], arg_compatibility_status = u ''unknown'', arg_source_url = PNone,
         arg_license = PNone, arg_sha256 = Some h, arg_provenance = u ''incomplete'', arg_health = Some Degraded,
         arg_health_issues = [PStr (u ''provenance_incomplete'')], arg_risk = Some MediumRisk,
         arg_risk_reasons = [PStr (u ''provenance_incomplete'')]\<rparr>)))"

fun discover_ui :: "ui_candidate child list \<Rightarrow> capability list \<times> pystr list" where
  "discover_ui [] = ([], [])"
| "discover_ui (c # cs) = (case discover_ui cs of (rs, issues) \<Rightarrow>
     (case ui_name (child_name c) (child_data c) of
        None \<Rightarrow> (rs, issues)
      | Some n \<Rightarrow> (case ui_record n (child_data c) of
          Inr r \<Rightarrow> (r # rs, issues)
        | Inl code \<Rightarrow> (rs, (u ''ui_component_invalid:'' @ child_name c @ u ('':'' @ code)) # issues))))"

section \<open>Snapshots\<close>

text \<open>One look at the repository; \<open>skills\<close> are the records and issues of the skill documents.\<close>

record repository =
  skills :: "capability list \<times> pystr list"
  plugin_dirs :: "plugin_dir listing"
  tool_source :: source_state
  ui_files :: "ui_candidate listing"

fun keep_first :: "pystr set \<Rightarrow> capability list \<Rightarrow> capability list \<times> pystr list" where
  "keep_first seen [] = ([], [])"
| "keep_first seen (r # rs) = (let i = capability_id r in
     if i \<in> seen then (case keep_first seen rs of (us, issues) \<Rightarrow> (us, (u ''capability_duplicate:'' @ i) # issues))
     else (case keep_first (insert i seen) rs of (us, issues) \<Rightarrow> (r # us, issues)))"

definition build_snapshot :: "unicode \<Rightarrow> (pystr \<Rightarrow> pystr) \<Rightarrow> repository \<Rightarrow> string + capability_snapshot" where
  "build_snapshot uc sha repo =
     bindr (discover_plugins uc (plugin_dirs repo)) (\<lambda>p.
     bindr (discover_role_tools sha (tool_source repo)) (\<lambda>t.
     let ui = list_children uc ''ui_component'' (ui_files repo);
         found = discover_ui (fst ui);
         records = fst (skills repo) @ fst p @ fst t @ fst found;
         issues = snd (skills repo) @ snd p @ snd t @ snd ui @ snd found;
         kept = keep_first {} (sort_key (\<lambda>r. (capability_id r, relative_path r)) records) in
       create_snapshot (fst kept) (issues @ snd kept)))"

text \<open>The cache: a snapshot is served again while it is younger than the time to live.\<close>

record registry_state =
  cache_ttl :: rat
  cached :: "capability_snapshot option"
  cached_at :: rat

definition snapshot :: "rat \<Rightarrow> (string + capability_snapshot) \<Rightarrow> registry_state
    \<Rightarrow> (string + capability_snapshot) \<times> registry_state" where
  "snapshot now fresh st =
     (if cache_ttl st = 0 then (fresh, st)
      else (case cached st of
          Some s \<Rightarrow> if cached_at st \<le> now \<and> now - cached_at st < cache_ttl st then (Inr s, st)
            else (case fresh of Inl e \<Rightarrow> (Inl e, st)
                | Inr s' \<Rightarrow> (Inr s', st\<lparr>cached := Some s', cached_at := now\<rparr>))
        | None \<Rightarrow> (case fresh of Inl e \<Rightarrow> (Inl e, st)
                | Inr s' \<Rightarrow> (Inr s', st\<lparr>cached := Some s', cached_at := now\<rparr>))))"

section \<open>Evidence for the role tools\<close>

definition trusted_record :: "(pystr \<Rightarrow> pystr) \<Rightarrow> catalog_entry \<Rightarrow> capability \<Rightarrow> bool" where
  "trusted_record sha e r \<longleftrightarrow> capability_name r = def_name (entry_definition e)
     \<and> capability_version r = None \<and> description r = def_description (entry_definition e)
     \<and> relative_path r = ROLE_TOOL_SOURCE_PATH \<and> entrypoint r = Some ROLE_TOOL_SOURCE_PATH
     \<and> lifecycle r = Enabled \<and> permissions r = entry_permissions e \<and> compatibility r = []
     \<and> compatibility_status r = u ''unknown'' \<and> source_url r = None \<and> license_name r = None
     \<and> descriptor_sha256 sha e = map_sum id id (need (sha256 r) (CatalogInvalid ''none''))
     \<and> provenance_status r = u ''verified'' \<and> health r = Healthy \<and> health_issues r = []
     \<and> risk r = LowRisk \<and> risk_reasons r = []"

definition role_tool_assembly :: "(pystr \<Rightarrow> pystr) \<Rightarrow> capability_snapshot \<Rightarrow> string + assembly" where
  "role_tool_assembly sha s =
     (let records = filter (\<lambda>r. capability_kind r = RoleTool) (snapshot_records s);
          dup = filter (\<lambda>i. take 31 i = u ''capability_duplicate:role_tool:'') (snapshot_issues s) in
      if dup \<noteq> [] \<or> set (map capability_id records) \<noteq> set ROLE_TOOL_CAPABILITY_IDS
      then Inl ''role_tool_assembly_invalid''
      else if \<exists>e\<in>set ROLE_TOOL_CATALOG. \<exists>r\<in>set records. capability_id r = entry_id e \<and> \<not> trusted_record sha e r
      then Inl ''role_tool_assembly_invalid''
      else map_sum (\<lambda>_. ''catalog'') id (for_catalog sha))"

section \<open>Slugs are identifiers\<close>

definition slug_ok :: "pystr \<Rightarrow> bool" where
  "slug_ok s \<longleftrightarrow> s \<noteq> [] \<and> (ascii_lower (hd s) \<or> ascii_digit (hd s)) \<and> (ascii_lower (last s) \<or> ascii_digit (last s))
     \<and> (\<forall>c\<in>set s. ascii_lower c \<or> ascii_digit c \<or> c \<in> {46, 95, 45})"

lemma squeeze_chars: "set (squeeze p b s) \<subseteq> {c \<in> set s. \<not> p c} \<union> {45}"
  by (induction p b s rule: squeeze.induct) auto

lemma strip_chars_sub: "set (strip_chars X s) \<subseteq> set s"
  unfolding strip_chars_def by (metis set_dropWhileD set_rev subsetI)

lemma strip_chars_ends:
  assumes "strip_chars X s \<noteq> []"
  shows "hd (strip_chars X s) \<notin> X" "last (strip_chars X s) \<notin> X"
proof -
  let ?t = "dropWhile (\<lambda>c. c \<in> X) s" and ?r = "dropWhile (\<lambda>c. c \<in> X) (rev (dropWhile (\<lambda>c. c \<in> X) s))"
  have r: "?r \<noteq> []" using assms by (simp add: strip_chars_def)
  then show "last (strip_chars X s) \<notin> X"
    using hd_dropWhile [of "\<lambda>c. c \<in> X"] by (simp add: strip_chars_def last_rev)
  have t: "?t \<noteq> []"
  proof
    assume "?t = []"
    with r show False by simp
  qed
  have "last (rev ?t) = hd ?t" using t by (simp add: last_rev)
  moreover have "last ?r = last (rev ?t)" using r by (metis last_appendR takeWhile_dropWhile_id)
  ultimately show "hd (strip_chars X s) \<notin> X"
    using r hd_dropWhile [of "\<lambda>c. c \<in> X", OF t] by (simp add: strip_chars_def hd_rev)
qed

definition lower_char :: "nat \<Rightarrow> nat" where
  "lower_char c = (if ascii_upper c then c + 32 else c)"

lemma lower_slug_char:
  "slug_char c \<Longrightarrow> ascii_lower (lower_char c) \<or> ascii_digit (lower_char c) \<or> lower_char c \<in> {46, 95, 45}"
  "slug_char c \<Longrightarrow> c \<notin> {45, 46, 95} \<Longrightarrow> ascii_lower (lower_char c) \<or> ascii_digit (lower_char c)"
  by (auto simp: lower_char_def slug_char_def ascii_alnum_def ascii_upper_def ascii_lower_def ascii_digit_def)

lemma lower_ascii_map: "lower_ascii = map lower_char"
  by (simp add: lower_ascii_def lower_char_def fun_eq_iff)

lemma slugify_ok: "slug_ok (slugify s)"
proof -
  define w where "w = strip_chars {45, 46, 95} (squeeze (\<lambda>c. c = 45) False (squeeze (\<lambda>c. \<not> slug_char c) False (split_camel s)))"
  show ?thesis
  proof (cases "lower_ascii w = []")
    case True
    then show ?thesis by (simp add: slugify_def Let_def w_def [symmetric]) (code_simp)
  next
    case False
    then have w: "w \<noteq> []" by (simp add: lower_ascii_def)
    have "set w \<subseteq> {c. slug_char c}"
    proof -
      have "set w \<subseteq> set (squeeze (\<lambda>c. \<not> slug_char c) False (split_camel s)) \<union> {45}"
        unfolding w_def using strip_chars_sub squeeze_chars by fastforce
      also have "\<dots> \<subseteq> {c. slug_char c}"
        using squeeze_chars [of "\<lambda>c. \<not> slug_char c" False "split_camel s"] by (auto simp: slug_char_def)
      finally show ?thesis .
    qed
    then have chars: "\<forall>c\<in>set w. slug_char c" by auto
    have ends: "hd w \<notin> {45, 46, 95}" "last w \<notin> {45, 46, 95}"
      using strip_chars_ends w unfolding w_def by blast+
    have "hd w \<in> set w" "last w \<in> set w" using w by simp_all
    then have "slug_ok (map lower_char w)" using chars ends w lower_slug_char
      by (simp add: slug_ok_def hd_map last_map)
    with False show ?thesis by (simp add: slugify_def Let_def w_def [symmetric] lower_ascii_map)
  qed
qed

lemma slug_identifier: "length (slugify s) \<le> 128 \<longleftrightarrow> is_capability_identifier (slugify s)"
proof -
  have ok: "slug_ok (slugify s)" by (rule slugify_ok)
  then have "\<forall>c\<in>set (tl (slugify s)). ascii_lower c \<or> ascii_digit c \<or> c \<in> {46, 95, 45}"
    by (metis list.set_sel(2) slug_ok_def)
  with ok show ?thesis by (auto simp: slug_ok_def is_capability_identifier_def)
qed

section \<open>Snapshots\<close>

lemma keep_first_result:
  "keep_first seen rs = (us, issues) \<Longrightarrow> distinct (map capability_id us) \<and> set us \<subseteq> set rs
     \<and> set (map capability_id us) = set (map capability_id rs) - seen
     \<and> (\<forall>r\<in>set rs. r \<notin> set us \<longrightarrow> u ''capability_duplicate:'' @ capability_id r \<in> set issues)"
proof (induction seen rs arbitrary: us issues rule: keep_first.induct)
  case (2 seen r rs)
  show ?case
  proof (cases "capability_id r \<in> seen")
    case True
    then obtain js where "keep_first seen rs = (us, js)" "issues = (u ''capability_duplicate:'' @ capability_id r) # js"
      using "2.prems" by (auto simp: Let_def split: prod.splits)
    with "2.IH" (1) [OF refl True] True show ?thesis by auto
  next
    case False
    then obtain vs where "keep_first (insert (capability_id r) seen) rs = (vs, issues)" "us = r # vs"
      using "2.prems" by (auto simp: Let_def split: prod.splits)
    with "2.IH" (2) [OF refl False] False show ?thesis by auto
  qed
qed simp

text \<open>What discovery collects before the duplicates are dropped.\<close>

definition discovered :: "unicode \<Rightarrow> (pystr \<Rightarrow> pystr) \<Rightarrow> repository \<Rightarrow> string + capability list" where
  "discovered uc sha repo = bindr (discover_plugins uc (plugin_dirs repo)) (\<lambda>p.
     bindr (discover_role_tools sha (tool_source repo)) (\<lambda>t.
     Inr (fst (skills repo) @ fst p @ fst t @ fst (discover_ui (fst (list_children uc ''ui_component'' (ui_files repo)))))))"

lemmas keep_first_facts = keep_first_result [OF prod.collapse [symmetric]]

lemma build_snapshot_error: "build_snapshot uc sha repo = Inl e \<longleftrightarrow> discovered uc sha repo = Inl e"
proof -
  have "create_snapshot (fst (keep_first {} rs)) issues \<noteq> Inl e" for rs issues
    using keep_first_facts [of "{}" rs] create_snapshot_Inr [of "fst (keep_first {} rs)" issues] by fastforce
  then show ?thesis by (auto simp: build_snapshot_def discovered_def bindr_Inl_iff Let_def)
qed

lemma build_snapshot_Inr:
  assumes "build_snapshot uc sha repo = Inr s"
  shows "\<exists>rs. discovered uc sha repo = Inr rs \<and> distinct (map capability_id (snapshot_records s))
    \<and> sorted (map capability_id (snapshot_records s)) \<and> set (snapshot_records s) \<subseteq> set rs
    \<and> set (map capability_id (snapshot_records s)) = set (map capability_id rs)
    \<and> (\<forall>r\<in>set rs. r \<notin> set (snapshot_records s) \<longrightarrow>
         u ''capability_duplicate:'' @ capability_id r \<in> set (snapshot_issues s))"
proof -
  obtain p t where pt: "discover_plugins uc (plugin_dirs repo) = Inr p" "discover_role_tools sha (tool_source repo) = Inr t"
    using assms by (auto simp: build_snapshot_def bindr_Inr_iff)
  define ui where "ui = list_children uc ''ui_component'' (ui_files repo)"
  define rs where "rs = fst (skills repo) @ fst p @ fst t @ fst (discover_ui (fst ui))"
  define kept where "kept = keep_first {} (sort_key (\<lambda>r. (capability_id r, relative_path r)) rs)"
  have d: "discovered uc sha repo = Inr rs" by (simp add: discovered_def pt rs_def ui_def)
  let ?issues = "snd (skills repo) @ snd p @ snd t @ snd ui @ snd (discover_ui (fst ui))"
  have "create_snapshot (fst kept) (?issues @ snd kept) = Inr s"
    using assms by (simp add: build_snapshot_def pt Let_def kept_def rs_def ui_def)
  then have s: "snapshot_records s = sort_key capability_id (fst kept)"
    "set (snd kept) \<subseteq> set (snapshot_issues s)" "distinct (map capability_id (fst kept))"
    by (auto simp: create_snapshot_Inr)
  have "distinct (map capability_id (snapshot_records s))"
    unfolding s(1) using s(3) by (metis mset_eq_imp_distinct_iff mset_map mset_sort)
  moreover note keep_first_facts [of "{}" "sort_key (\<lambda>r. (capability_id r, relative_path r)) rs", folded kept_def]
  ultimately show ?thesis using d s(2) by (intro exI [of _ rs]) (auto simp: s(1))
qed

section \<open>The cache\<close>

text \<open>
  Successive requests, each with its clock reading and what a fresh look would give; the answers
  are the second component.
\<close>

fun cache_run :: "(rat \<times> (string + capability_snapshot)) list \<Rightarrow> registry_state
    \<Rightarrow> registry_state \<times> (string + capability_snapshot) list" where
  "cache_run [] st = (st, [])"
| "cache_run ((now, fresh) # qs) st = (case snapshot now fresh st of (ans, st1) \<Rightarrow>
     (case cache_run qs st1 of (st2, out) \<Rightarrow> (st2, ans # out)))"

definition cache_ok :: "(rat \<times> (string + capability_snapshot)) list \<Rightarrow> registry_state \<Rightarrow> bool" where
  "cache_ok past st \<longleftrightarrow> (\<forall>s. cached st = Some s \<longrightarrow> (cached_at st, Inr s) \<in> set past)"

lemma snapshot_step:
  assumes "cache_ok past st" and "snapshot now fresh st = (ans, st')"
  shows "cache_ok (past @ [(now, fresh)]) st' \<and> cache_ttl st' = cache_ttl st \<and>
    (ans = fresh \<or> (\<exists>(made, old)\<in>set past. ans = old \<and> made \<le> now \<and> now - made < cache_ttl st))"
  using assms by (fastforce simp: cache_ok_def snapshot_def split: if_splits option.splits sum.splits)

lemma cache_run_fresh:
  assumes "cache_ok past st" and "cache_run qs st = (st', out)"
  shows "length out = length qs \<and> (\<forall>k < length qs. out ! k = snd (qs ! k) \<or>
    (\<exists>(made, old)\<in>set (past @ take k qs). out ! k = old \<and> made \<le> fst (qs ! k) \<and> fst (qs ! k) - made < cache_ttl st))"
  using assms
proof (induction qs arbitrary: past st out)
  case (Cons q qs)
  obtain now fresh where q: "q = (now, fresh)" by fastforce
  obtain ans st1 where s: "snapshot now fresh st = (ans, st1)" by fastforce
  obtain out1 where r: "cache_run qs st1 = (st', out1)" "out = ans # out1"
    using Cons.prems(2) by (auto simp: q s split: prod.splits)
  note step = snapshot_step [OF Cons.prems(1) s]
  then have ok: "cache_ok (past @ [q]) st1" and ttl: "cache_ttl st1 = cache_ttl st" by (simp_all add: q)
  note IH = Cons.IH [OF ok r(1)]
  show ?case
  proof (intro conjI allI impI)
    show "length out = length (q # qs)" using IH r(2) by simp
    fix k assume k: "k < length (q # qs)"
    show "out ! k = snd ((q # qs) ! k) \<or> (\<exists>(made, old)\<in>set (past @ take k (q # qs)).
        out ! k = old \<and> made \<le> fst ((q # qs) ! k) \<and> fst ((q # qs) ! k) - made < cache_ttl st)"
    proof (cases k)
      case 0
      then show ?thesis using step by (simp add: q r(2))
    next
      case (Suc j)
      then show ?thesis using IH k by (simp add: r(2) ttl)
    qed
  qed
qed simp

section \<open>Properties\<close>

text \<open>
  Discovery drops nothing silently: a snapshot has exactly the identifiers that were
  discovered, once each and in order, every record in it was discovered, and each record left out
  is reported as a duplicate; and the only failures are those that escape from a plugin or the
  catalog, never a duplicate.
\<close>

theorem snapshot_complete:
  "(\<forall>e. build_snapshot uc sha repo = Inl e \<longleftrightarrow> discovered uc sha repo = Inl e) \<and>
   (\<forall>s. build_snapshot uc sha repo = Inr s \<longrightarrow>
     (\<exists>rs. discovered uc sha repo = Inr rs \<and> distinct (map capability_id (snapshot_records s))
      \<and> sorted (map capability_id (snapshot_records s)) \<and> set (snapshot_records s) \<subseteq> set rs
      \<and> set (map capability_id (snapshot_records s)) = set (map capability_id rs)
      \<and> (\<forall>r\<in>set rs. r \<notin> set (snapshot_records s) \<longrightarrow>
           u ''capability_duplicate:'' @ capability_id r \<in> set (snapshot_issues s))))"
  using build_snapshot_error [of uc sha repo] build_snapshot_Inr [of uc sha repo] by blast

definition broken_repository :: repository where
  "broken_repository = \<lparr>skills = ([], []),
     plugin_dirs = \<lparr>root_exists = True, root_symlink = False, root_children = [
       \<lparr>child_name = replicate 129 97, child_symlink = False, child_data =
         \<lparr>plugin_is_dir = True, plugin_has_manifest = True, plugin_manifest = Inl ''manifest_invalid'',
          plugin_entry_present = (\<lambda>_. False), plugin_digest = Inr [], plugin_path = Inr (u ''plugins/x''),
          plugin_entry_path = Inr\<rparr>\<rparr>]\<rparr>,
     tool_source = SourceMissing,
     ui_files = \<lparr>root_exists = False, root_symlink = False, root_children = []\<rparr>\<rparr>"

text \<open>
  One broken plugin can take the whole registry down: a plugin directory with a name of 129
  characters and an unreadable manifest makes the record of the broken plugin itself invalid, and
  that error escapes from discovery.
\<close>

theorem broken_plugin_breaks_discovery:
  "build_snapshot uc sha broken_repository = Inl ''capability_id_invalid''"
proof -
  have "plugin_record (replicate 129 97) (child_data (root_children (plugin_dirs broken_repository) ! 0))
      = Inl ''capability_id_invalid''"
    by code_simp
  then have "discover_plugins uc (plugin_dirs broken_repository) = Inl ''capability_id_invalid''"
    by (simp add: discover_plugins_def broken_repository_def list_children_def bounded_sorted_def MAX_CHILDREN_def)
  then show ?thesis by (simp add: build_snapshot_def)
qed

definition quiet_repository :: "capability list \<Rightarrow> repository" where
  "quiet_repository rs = \<lparr>skills = (rs, []),
     plugin_dirs = \<lparr>root_exists = False, root_symlink = False, root_children = []\<rparr>,
     tool_source = SourceMissing, ui_files = \<lparr>root_exists = False, root_symlink = False, root_children = []\<rparr>\<rparr>"

lemma quiet_discovered: "discovered uc sha (quiet_repository rs) = Inr rs"
  by (simp add: discovered_def quiet_repository_def discover_plugins_def list_children_def discover_role_tools_def)

lemma snapshot_complete_witness:
  "\<exists>r s. create_capability (demo_args (u ''skills/a'')) = Inr r
     \<and> build_snapshot ascii_unicode demo_sha (quiet_repository [r, r]) = Inr s \<and> snapshot_records s = [r]
     \<and> capability_id r = u ''skill:a''"
proof -
  obtain r where r: "create_capability (demo_args (u ''skills/a'')) = Inr r"
    using demo_created by (cases "create_capability (demo_args (u ''skills/a''))") auto
  have id: "capability_id r = u ''skill:a''"
    using r unfolding create_capability_Inr by (simp add: demo_args_def)
  note complete = snapshot_complete [of ascii_unicode demo_sha "quiet_repository [r, r]"]
  have "\<nexists>e. build_snapshot ascii_unicode demo_sha (quiet_repository [r, r]) = Inl e"
    using complete by (simp add: quiet_discovered)
  then obtain s where s: "build_snapshot ascii_unicode demo_sha (quiet_repository [r, r]) = Inr s"
    by (metis sum.exhaust_sel)
  with complete have "distinct (map capability_id (snapshot_records s))" "set (snapshot_records s) \<subseteq> {r}"
    "set (map capability_id (snapshot_records s)) = {capability_id r}"
    by (auto simp: quiet_discovered)
  then have "snapshot_records s = [r]"
    by (cases "snapshot_records s" rule: remdups_adj.cases) auto
  with r s id show ?thesis by blast
qed

text \<open>
  The cache never serves stale snapshots: starting empty, every answer is the fresh one of
  its own request or the fresh one of an earlier request made less than the time to live before.
\<close>

theorem cache_bounded_staleness:
  assumes "cached st = None" and "cache_run qs st = (st', out)"
  shows "length out = length qs \<and> (\<forall>k < length qs. out ! k = snd (qs ! k) \<or>
    (\<exists>(made, old)\<in>set (take k qs). out ! k = old \<and> made \<le> fst (qs ! k) \<and> fst (qs ! k) - made < cache_ttl st))"
  using cache_run_fresh [of "[]" st qs st' out] assms by (simp add: cache_ok_def)

definition empty_snapshot :: capability_snapshot where
  "empty_snapshot = \<lparr>snapshot_records = [], snapshot_issues = []\<rparr>"

lemma cache_bounded_staleness_witness:
  "length (snd (cache_run [(0, Inr empty_snapshot), (1, Inl ''io'')]
     \<lparr>cache_ttl = 2, cached = None, cached_at = 0\<rparr>)) = 2"
proof -
  let ?qs = "[(0, Inr empty_snapshot), (1, Inl ''io'')]" and ?st = "\<lparr>cache_ttl = 2, cached = None, cached_at = 0\<rparr>"
  have "cache_run ?qs ?st = (fst (cache_run ?qs ?st), snd (cache_run ?qs ?st))" by simp
  from cache_bounded_staleness [OF _ this] show ?thesis by simp
qed

end
