(* ===== verification/Capability_Api.thy ===== *)
theory Capability_Api
  imports Capability_Registry
begin

text \<open>
  The public requests of \<open>src/core/kernel/capability_api.py\<close>, the fixed terminal operations of
  \<open>terminal_policy.py\<close> and the runtime defaults of \<open>runtime_security.py\<close>.
\<close>

section \<open>Queries\<close>

definition QUERY_PARAMETERS :: "pystr list" where
  "QUERY_PARAMETERS = map u [''q'', ''kind'', ''compatible_only'', ''max_risk'', ''limit'']"

fun collect_items :: "(pystr \<times> pyval) list \<Rightarrow> (pystr, pystr) pydict \<Rightarrow> string + (pystr, pystr) pydict" where
  "collect_items [] d = Inr d"
| "collect_items ((n, v) # xs) d =
     (if n \<notin> set QUERY_PARAMETERS then Inl ''unknown''
      else if map_of d n \<noteq> None then Inl ''repeated''
      else (case v of PStr s \<Rightarrow> collect_items xs (AList.update n s d) | _ \<Rightarrow> Inl ''type''))"

definition value_or :: "(pystr, pystr) pydict \<Rightarrow> string \<Rightarrow> string \<Rightarrow> pystr" where
  "value_or d k def = (case map_of d (u k) of Some s \<Rightarrow> s | None \<Rightarrow> u def)"

definition is_decimal :: "pystr \<Rightarrow> bool" where
  "is_decimal s \<longleftrightarrow> s \<noteq> [] \<and> (\<forall>c\<in>set s. ascii_digit c)"

definition decimal_value :: "pystr \<Rightarrow> nat" where
  "decimal_value s = foldl (\<lambda>n c. 10 * n + (c - 48)) 0 s"

text \<open>Every failure is the one public error; its message is not modelled.\<close>

definition query_of :: "(pystr, pystr) pydict \<Rightarrow> string + capability_query" where
  "query_of d =
     bindr (case map_of d (u ''kind'') of None \<Rightarrow> Inr None
        | Some s \<Rightarrow> bindr (need (enum_of capability_kind_value capability_kinds (PStr s)) ''invalid'') (\<lambda>k. Inr (Some k))) (\<lambda>k.
     bindr (need (enum_of risk_value capability_risks (PStr (value_or d ''max_risk'' ''high''))) ''invalid'') (\<lambda>mr.
     let ct = value_or d ''compatible_only'' ''false''; lt = value_or d ''limit'' ''20'' in
     bindr (ensure (ct \<in> {u ''true'', u ''false''}) ''compatible_only'') (\<lambda>_.
     bindr (ensure (is_decimal lt) ''limit'') (\<lambda>_.
       CapabilityQuery (PStr (value_or d ''q'' '''')) (Some k) (PBool (ct = u ''true'')) (Some mr)
         (PInt (int (decimal_value lt)))))))"

definition parse_capability_query_items :: "(pystr \<times> pyval) list \<Rightarrow> string + capability_query" where
  "parse_capability_query_items items = bindr (collect_items items []) query_of"

definition MAX_PUBLIC_CAPABILITY_ISSUES :: nat where "MAX_PUBLIC_CAPABILITY_ISSUES = 100"

definition public_issues :: "pystr list \<Rightarrow> pystr list" where
  "public_issues xs = (let ys = take MAX_PUBLIC_CAPABILITY_ISSUES xs in
     if length xs > MAX_PUBLIC_CAPABILITY_ISSUES then ys[length ys - 1 := u ''issues_truncated''] else ys)"

definition match_to_public :: "capability_match \<Rightarrow> pyval" where
  "match_to_public m = (let body = capability_to_public (match_record m);
       compat = (case field body ''compatibility'' of Some (PDict d) \<Rightarrow> d | _ \<Rightarrow> []);
       compat' = AList.update (PStr (u ''reasons'')) (strings (match_compat_reasons m))
         (AList.update (PStr (u ''status'')) (PStr (u (match_status m))) compat) in
     PDict (AList.update (PStr (u ''compatibility'')) (PDict compat') body))"

definition resolve_capability_registry :: "unicode \<Rightarrow> capability_snapshot \<Rightarrow> compatibility_target
    \<Rightarrow> capability_query \<Rightarrow> pyval" where
  "resolve_capability_registry uc s t q = (let ms = resolve uc s q t in PDict [
     (PStr (u ''schema_version''), PInt 1),
     (PStr (u ''capabilities''), PList (map match_to_public ms)),
     (PStr (u ''count''), PInt (int (length ms))),
     (PStr (u ''issues''), strings (public_issues (snapshot_issues s)))])"

section \<open>Terminal operations\<close>

definition MAX_ARGUMENTS :: nat where "MAX_ARGUMENTS = 16"
definition MAX_ARGUMENT_LENGTH :: nat where "MAX_ARGUMENT_LENGTH = 256"
definition MAX_TIMEOUT_SECONDS :: int where "MAX_TIMEOUT_SECONDS = 30"

definition argument_limits :: "(pystr, nat) pydict" where
  "argument_limits = [(u ''echo'', MAX_ARGUMENTS), (u ''pwd'', 0), (u ''whoami'', 0), (u ''hostname'', 0), (u ''date'', 0)]"

definition valid_argument :: "pyval \<Rightarrow> bool" where
  "valid_argument v = (case v of PStr s \<Rightarrow> s \<noteq> [] \<and> length s \<le> MAX_ARGUMENT_LENGTH \<and> 0 \<notin> set s | _ \<Rightarrow> False)"

definition validate_terminal_operation :: "pyval \<Rightarrow> pyval \<Rightarrow> pyval \<Rightarrow> string + pystr \<times> pyval list \<times> int" where
  "validate_terminal_operation command args timeout =
     bindr (need (as_str command) ''command'') (\<lambda>c.
     bindr (need (map_of argument_limits c) ''command'') (\<lambda>n.
     bindr (need (as_list args) ''arguments'') (\<lambda>xs.
     bindr (ensure (length xs \<le> n) ''arguments'') (\<lambda>_.
     bindr (ensure (\<forall>x\<in>set xs. valid_argument x) ''argument'') (\<lambda>_.
     bindr (need (as_int timeout) ''timeout'') (\<lambda>t.
     bindr (ensure (1 \<le> t \<and> t \<le> MAX_TIMEOUT_SECONDS) ''timeout'') (\<lambda>_. Inr (c, xs, t))))))))"

section \<open>Runtime defaults\<close>

definition DEFAULT_ALLOWED_ORIGINS :: "pystr list" where
  "DEFAULT_ALLOWED_ORIGINS = map u [''http://localhost:5173'', ''http://127.0.0.1:5173'']"

definition env_get :: "(pystr, pystr) pydict \<Rightarrow> string \<Rightarrow> pystr" where
  "env_get e k = (case map_of e (u k) of Some s \<Rightarrow> s | None \<Rightarrow> [])"

definition configured_allowed_origins :: "(pystr, pystr) pydict \<Rightarrow> pystr list" where
  "configured_allowed_origins e =
     (let os = filter (\<lambda>x. x \<noteq> [] \<and> x \<noteq> u ''*'') (map py_strip (split_at 44 (env_get e ''JARVIS_ALLOWED_ORIGINS''))) in
      if os \<noteq> [] then os else DEFAULT_ALLOWED_ORIGINS)"

definition terminal_access_enabled :: "unicode \<Rightarrow> (pystr, pystr) pydict \<Rightarrow> bool" where
  "terminal_access_enabled uc e \<longleftrightarrow> casefold uc (env_get e ''JARVIS_TERMINAL_ENABLED'') = u ''true''
     \<and> env_get e ''JARVIS_TERMINAL_TOKEN'' \<noteq> []"

text \<open>
  \<open>hmac.compare_digest\<close> on strings compares them, but raises \<open>TypeError\<close> when one is not ASCII.
\<close>

definition compare_digest :: "pystr \<Rightarrow> pystr \<Rightarrow> string + bool" where
  "compare_digest a b = (if (\<forall>c\<in>set a. c < 128) \<and> (\<forall>c\<in>set b. c < 128) then Inr (a = b) else Inl ''TypeError'')"

definition terminal_request_is_authorized :: "unicode \<Rightarrow> pyval \<Rightarrow> (pystr, pystr) pydict \<Rightarrow> string + bool" where
  "terminal_request_is_authorized uc token e =
     (if \<not> terminal_access_enabled uc e then Inr False
      else (case token of PStr t \<Rightarrow> compare_digest t (env_get e ''JARVIS_TERMINAL_TOKEN'') | _ \<Rightarrow> Inr False))"

section \<open>Facts\<close>

lemma collect_items_fresh:
  "collect_items xs d = Inr d' \<Longrightarrow> map_of d n \<noteq> None \<Longrightarrow> n \<notin> fst ` set xs"
proof (induction xs d rule: collect_items.induct)
  case (2 m v xs d)
  then obtain s where v: "v = PStr s" and m: "m \<in> set QUERY_PARAMETERS" "map_of d m = None"
    and rec: "collect_items xs (AList.update m s d) = Inr d'"
    by (auto split: if_splits pyval.splits)
  have "n \<notin> fst ` set xs" using "2.IH" v m rec "2.prems"(2) by simp
  moreover have "n \<noteq> m" using m(2) "2.prems"(2) by auto
  ultimately show ?case by simp
qed simp

lemma collect_items_ok:
  "collect_items xs d = Inr d' \<Longrightarrow> distinct (map fst xs) \<and> fst ` set xs \<subseteq> set QUERY_PARAMETERS
     \<and> (\<forall>(n, v)\<in>set xs. as_str v \<noteq> None)"
proof (induction xs d rule: collect_items.induct)
  case (2 n v xs d)
  then obtain s where v: "v = PStr s" and n: "n \<in> set QUERY_PARAMETERS" "map_of d n = None"
    and rec: "collect_items xs (AList.update n s d) = Inr d'"
    by (auto split: if_splits pyval.splits)
  have "n \<notin> fst ` set xs" by (rule collect_items_fresh [OF rec]) simp
  moreover have "distinct (map fst xs) \<and> fst ` set xs \<subseteq> set QUERY_PARAMETERS \<and> (\<forall>(n, v)\<in>set xs. as_str v \<noteq> None)"
    using "2.IH" v n rec by simp
  ultimately show ?case using v n by auto
qed simp

lemma public_issues_bounded: "length (public_issues xs) \<le> MAX_PUBLIC_CAPABILITY_ISSUES"
  by (simp add: public_issues_def Let_def)

lemma origins_never_wildcard:
  "configured_allowed_origins e \<noteq> [] \<and> (\<forall>x\<in>set (configured_allowed_origins e). x \<noteq> [] \<and> x \<noteq> u ''*'')"
  by (auto simp: configured_allowed_origins_def DEFAULT_ALLOWED_ORIGINS_def Let_def)

lemma terminal_operation_bounds:
  "validate_terminal_operation c xs t = Inr (cmd, args, n) \<Longrightarrow> cmd \<in> fst ` set argument_limits
     \<and> length args \<le> MAX_ARGUMENTS \<and> 1 \<le> n \<and> n \<le> MAX_TIMEOUT_SECONDS \<and> (\<forall>a\<in>set args. valid_argument a)"
  by (auto simp: validate_terminal_operation_def result_simps argument_limits_def MAX_ARGUMENTS_def split: if_splits)

section \<open>Properties\<close>

text \<open>
  A public query is accepted only when every parameter is known, given once and a string,
  and then its text, limit and filters are within the bounds of a query.
\<close>

theorem query_items_strict:
  assumes "parse_capability_query_items items = Inr q"
  shows "distinct (map fst items) \<and> fst ` set items \<subseteq> set QUERY_PARAMETERS \<and> (\<forall>(n, v)\<in>set items. as_str v \<noteq> None) \<and>
    1 \<le> query_limit q \<and> query_limit q \<le> 100 \<and> length (query q) \<le> 256 \<and>
    (\<forall>c\<in>set (query q). 32 \<le> c \<and> \<not> is_surrogate c)"
proof -
  obtain d where d: "collect_items items [] = Inr d" "query_of d = Inr q"
    using assms by (auto simp: parse_capability_query_items_def bindr_Inr_iff)
  have "1 \<le> query_limit q \<and> query_limit q \<le> 100 \<and> length (query q) \<le> 256 \<and>
      (\<forall>c\<in>set (query q). 32 \<le> c \<and> \<not> is_surrogate c)"
    using d(2) by (auto simp: query_of_def result_simps Let_def CapabilityQuery_def)
  with collect_items_ok [OF d(1)] show ?thesis by blast
qed

lemma query_items_strict_witness:
  "\<exists>q. parse_capability_query_items [(u ''limit'', PStr (u ''7''))] = Inr q \<and> query_limit q \<le> 100"
proof -
  have "map_sum id query_limit (parse_capability_query_items [(u ''limit'', PStr (u ''7''))]) = Inr 7" by code_simp
  then obtain q where "parse_capability_query_items [(u ''limit'', PStr (u ''7''))] = Inr q"
    by (cases "parse_capability_query_items [(u ''limit'', PStr (u ''7''))]") auto
  with query_items_strict [OF this] show ?thesis by blast
qed

text \<open>
  With the terminal enabled, a request whose token has a character outside ASCII is not
  refused: the comparison raises instead, whatever the configured token is.
\<close>

theorem non_ascii_token_raises:
  assumes "terminal_access_enabled uc e" and "c \<in> set t" and "128 \<le> c"
  shows "terminal_request_is_authorized uc (PStr t) e = Inl ''TypeError''"
proof -
  have "\<not> (\<forall>x\<in>set t. x < 128)" using assms(2,3) by force
  then show ?thesis using assms(1) by (simp add: terminal_request_is_authorized_def compare_digest_def)
qed

lemma non_ascii_token_raises_witness:
  "terminal_request_is_authorized ascii_unicode (PStr [233])
     [(u ''JARVIS_TERMINAL_ENABLED'', u ''True''), (u ''JARVIS_TERMINAL_TOKEN'', u ''secret'')] = Inl ''TypeError''"
  by (rule non_ascii_token_raises [where c = 233]) code_simp+

end
