(* ===== verification/Role_Supervisor.thy ===== *)
theory Role_Supervisor
  imports Worker_Protocol Json_Text
begin

text \<open>
  The supervisor of role worker processes, \<open>src/core/brain/role_worker.py\<close>. Each definition is
  one section of the code under the supervisor's lock (or a pure helper); \<open>sup_step\<close> lets the
  threads of the program (callers, cancellers, one monitor per task) interleave their sections
  and the operating system end processes. Whether a process is alive is part of the \<open>world\<close>.
  Parameters (\<open>sup_env\<close>): the ISO parser, \<open>redact_text\<close> and \<open>str\<close>. Starting a thread is taken to
  succeed; pipes and the child's side are left out: a received message is any valid event.
\<close>

section \<open>State\<close>

record sup_env =
  iso_of :: "pystr \<Rightarrow> bool option"
  redact_of :: "pystr \<Rightarrow> pystr"
  py_str_of :: "pyval \<Rightarrow> pystr"

record runtime =
  rt_request :: task_request
  rt_deadline :: rat
  rt_pending :: "worker_event option"
  rt_intent :: "task_status option"

record supervisor =
  records :: "(pystr, task_record) pydict"
  runtimes :: "(pystr, runtime) pydict"
  waiters :: "(pystr, nat) pydict"
  publications :: "pystr set"
  max_records :: nat
  grace :: rat
  closed :: bool

datatype sup_error =
    ShutDown | DuplicateTask pystr | TerminationPending pystr | StartFailed
  | BadRecord worker_error | AlreadyTerminal task_record | BadArgument string

definition RoleWorkerSupervisor :: "pyval \<Rightarrow> rat \<Rightarrow> rat \<Rightarrow> pyval \<Rightarrow> sup_error + supervisor" where
  "RoleWorkerSupervisor limit heartbeat_interval termination_grace max_output_bytes = (case as_int limit of
       None \<Rightarrow> Inl (BadArgument ''max_records'')
     | Some m \<Rightarrow>
         if m < 1 then Inl (BadArgument ''max_records'')
         else if heartbeat_interval \<le> 0 then Inl (BadArgument ''heartbeat_interval'')
         else if termination_grace \<le> 0 then Inl (BadArgument ''termination_grace'')
         else (case as_int max_output_bytes of
             None \<Rightarrow> Inl (BadArgument ''max_output_bytes'')
           | Some n \<Rightarrow>
               if n < 1 then Inl (BadArgument ''max_output_bytes'')
               else Inr \<lparr>records = [], runtimes = [], waiters = [], publications = {},
                      max_records = nat m, grace = termination_grace, closed = False\<rparr>))"

definition MONITOR_WAIT_SLACK :: rat where "MONITOR_WAIT_SLACK = 1 / 4"

definition terminal_wait_budget :: "supervisor \<Rightarrow> pyval \<Rightarrow> sup_error + rat" where
  "terminal_wait_budget s v = (case as_int v of
       None \<Rightarrow> Inl (BadArgument ''timeout_seconds'')
     | Some n \<Rightarrow> if 1 \<le> n \<and> n \<le> 300 then Inr (of_int n + 2 * grace s + MONITOR_WAIT_SLACK)
         else Inl (BadArgument ''timeout_seconds''))"

abbreviation rec_of :: "supervisor \<Rightarrow> pystr \<Rightarrow> task_record option" where
  "rec_of s t \<equiv> map_of (records s) t"

abbreviation run_of :: "supervisor \<Rightarrow> pystr \<Rightarrow> runtime option" where
  "run_of s t \<equiv> map_of (runtimes s) t"

definition put_record :: "pystr \<Rightarrow> task_record \<Rightarrow> supervisor \<Rightarrow> supervisor" where
  "put_record t r s = s\<lparr>records := AList.update t r (records s)\<rparr>"

definition put_runtime :: "pystr \<Rightarrow> runtime \<Rightarrow> supervisor \<Rightarrow> supervisor" where
  "put_runtime t rt s = s\<lparr>runtimes := AList.update t rt (runtimes s)\<rparr>"

section \<open>Bounded storage\<close>

definition removable :: "supervisor \<Rightarrow> pystr \<times> task_record \<Rightarrow> bool" where
  "removable s p \<longleftrightarrow> is_terminal (rec_status (snd p)) \<and> fst p \<notin> fst ` set (runtimes s)
     \<and> fst p \<notin> fst ` set (waiters s) \<and> fst p \<notin> publications s"

lemma find_Some_mem: "List.find P xs = Some x \<Longrightarrow> x \<in> set xs \<and> P x"
  by (auto simp: find_Some_iff)

lemma find_delete_shorter:
  "List.find P xs = Some p \<Longrightarrow> length (AList.delete (fst p) xs) < length xs"
  by (auto simp: AList.delete_eq dest!: find_Some_mem intro!: length_filter_less)

text \<open>\<open>_prune_records\<close>: while there are too many, drop the oldest record nobody needs.\<close>

function prune_records :: "supervisor \<Rightarrow> supervisor" where
  "prune_records s =
     (if max_records s < length (records s) then
        (case List.find (removable s) (records s) of
           None \<Rightarrow> s
         | Some p \<Rightarrow> prune_records (s\<lparr>records := AList.delete (fst p) (records s)\<rparr>))
      else s)"
  by pat_completeness auto
termination
  by (relation "measure (\<lambda>s. length (records s))") (simp_all add: find_delete_shorter)

declare prune_records.simps [simp del]

section \<open>Submission\<close>

definition blocks :: "supervisor \<Rightarrow> task_request \<Rightarrow> pystr \<times> runtime \<Rightarrow> bool" where
  "blocks s q p \<longleftrightarrow> req_role_name (rt_request (snd p)) = req_role_name q \<and>
     (case rec_of s (fst p) of
        None \<Rightarrow> True
      | Some r \<Rightarrow> rt_intent (snd p) \<noteq> None \<and> \<not> (is_terminal (rec_status r) \<and> rec_confirmed r))"

definition start_changes :: "int \<Rightarrow> raw_record \<Rightarrow> raw_record" where
  "start_changes pid w = w\<lparr>raw_status := Some Running, raw_pid := PInt pid\<rparr>"

text \<open>\<open>pid\<close> is the process id, or \<open>None\<close> when \<open>process.start()\<close> raises; \<open>clock\<close> is the monotonic time.\<close>

definition submit :: "sup_env \<Rightarrow> pystr \<Rightarrow> rat \<Rightarrow> int option \<Rightarrow> task_request \<Rightarrow> supervisor
    \<Rightarrow> (sup_error + task_record) \<times> supervisor" where
  "submit env now clock pid q s = (let t = req_task_id q in
     if closed s then (Inl ShutDown, s)
     else if rec_of s t \<noteq> None then (Inl (DuplicateTask t), s)
     else if list_ex (blocks s q) (runtimes s) then (Inl (TerminationPending (req_role_name q)), s)
     else (case from_request (iso_of env) q of
         Inl e \<Rightarrow> (Inl (BadRecord e), s)
       | Inr r \<Rightarrow> let s1 = put_record t r s in
           (case pid of
              None \<Rightarrow> (Inl StartFailed, s1\<lparr>records := AList.delete t (records s1)\<rparr>)
            | Some p \<Rightarrow> (case evolve (iso_of env) now (start_changes p) False r of
                Inl e \<Rightarrow> (Inl (BadRecord e), s1)
              | Inr running \<Rightarrow> (Inr running, put_runtime t
                  \<lparr>rt_request = q, rt_deadline = clock + of_int (req_timeout q), rt_pending = None,
                   rt_intent = None\<rparr> (put_record t running s1))))))"

definition get_record :: "supervisor \<Rightarrow> pystr \<Rightarrow> task_record option" where
  "get_record s t = rec_of s t"

definition list_records :: "supervisor \<Rightarrow> pyval \<Rightarrow> sup_error + task_record list" where
  "list_records s limit = (case as_int limit of
       None \<Rightarrow> Inl (BadArgument ''limit'')
     | Some n \<Rightarrow> if 1 \<le> n \<and> n \<le> 100
         then Inr (rev (lastn (min (nat n) (max_records s)) (map snd (records s))))
         else Inl (BadArgument ''limit''))"

section \<open>Waiting\<close>

text \<open>
  A waiter or canceller pins its record (\<open>pin\<close>) until it leaves (\<open>unpin\<close>, the \<open>finally\<close> block).
\<close>

definition pin :: "pystr \<Rightarrow> supervisor \<Rightarrow> supervisor" where
  "pin t s = s\<lparr>waiters := AList.update t ((case map_of (waiters s) t of None \<Rightarrow> 0 | Some n \<Rightarrow> n) + 1) (waiters s)\<rparr>"

definition unpin :: "pystr \<Rightarrow> supervisor \<Rightarrow> supervisor" where
  "unpin t s = (let n = (case map_of (waiters s) t of None \<Rightarrow> 0 | Some n \<Rightarrow> n) - 1 in
     prune_records (s\<lparr>waiters := if n \<noteq> 0 then AList.update t n (waiters s) else AList.delete t (waiters s)\<rparr>))"

definition wait_begin :: "pystr \<Rightarrow> supervisor \<Rightarrow> task_record option \<times> supervisor" where
  "wait_begin t s = (case rec_of s t of None \<Rightarrow> (None, s) | Some r \<Rightarrow> (Some r, pin t s))"

text \<open>
  The loop of \<open>wait\<close> on the record it holds: each observation is whether the deadline has passed
  and what the record is after the condition was signalled. \<open>None\<close>: still waiting.
\<close>

fun wait_loop :: "task_record \<Rightarrow> (bool \<times> task_record option) list \<Rightarrow> task_record option option" where
  "wait_loop r obs = (if is_terminal (rec_status r) then Some (Some r) else
     (case obs of
        [] \<Rightarrow> None
      | (expired, latest) # rest \<Rightarrow>
          if expired then Some (Some r)
          else (case latest of None \<Rightarrow> Some None | Some r' \<Rightarrow> wait_loop r' rest)))"

declare wait_loop.simps [simp del]
section \<open>Cancellation and finalisation\<close>

definition set_intent :: "pystr \<Rightarrow> task_status \<Rightarrow> supervisor \<Rightarrow> supervisor" where
  "set_intent t st s = (case run_of s t of
       None \<Rightarrow> s
     | Some rt \<Rightarrow> (case rt_intent rt of
         Some _ \<Rightarrow> s
       | None \<Rightarrow> put_runtime t (rt\<lparr>rt_intent := Some st\<rparr>) s))"

datatype cancel_step = CancelMissing | CancelRefused task_record | CancelIdle | CancelRunning task_status

definition cancel_begin :: "pystr \<Rightarrow> supervisor \<Rightarrow> cancel_step \<times> supervisor" where
  "cancel_begin t s = (case rec_of s t of
       None \<Rightarrow> (CancelMissing, s)
     | Some r \<Rightarrow>
         if is_terminal (rec_status r) then (CancelRefused r, s)
         else (let s1 = pin t s in
           (case run_of s1 t of
              None \<Rightarrow> (CancelIdle, s1)
            | Some rt \<Rightarrow> (CancelRunning (case rt_intent rt of Some i \<Rightarrow> i | None \<Rightarrow> Cancelled),
                set_intent t Cancelled s1))))"

definition intent_error :: "task_status \<Rightarrow> task_request \<Rightarrow> pystr" where
  "intent_error i q = (if i = Cancelled then u ''Worker task cancelled''
     else u ''Worker task timed out after '' @ dec_int (req_timeout q) @ u ''s'')"

definition unconfirmed_error :: "task_status \<Rightarrow> pystr" where
  "unconfirmed_error i = (if i = Cancelled then u ''Worker cancellation could not confirm process termination''
     else u ''Worker timeout could not confirm process termination'')"

definition final_changes :: "task_status \<Rightarrow> pyval \<Rightarrow> pystr \<Rightarrow> raw_record \<Rightarrow> raw_record" where
  "final_changes st res err w =
     w\<lparr>raw_status := Some st, raw_result := res, raw_error := PStr err, raw_confirmed := PBool True\<rparr>"

datatype final_step = FinalMissing | FinalAlready task_record | FinalBad worker_error | FinalPublish task_record

text \<open>
  \<open>_finalize\<close> up to the observers, and after them. Every caller passes
  \<open>termination_confirmed=True\<close>.
\<close>

definition finalize_begin :: "sup_env \<Rightarrow> pystr \<Rightarrow> pystr \<Rightarrow> task_status \<Rightarrow> pyval \<Rightarrow> pystr \<Rightarrow> supervisor
    \<Rightarrow> final_step \<times> supervisor" where
  "finalize_begin env now t st res err s = (case rec_of s t of
       None \<Rightarrow> (FinalMissing, s)
     | Some r \<Rightarrow>
         if is_terminal (rec_status r) then (FinalAlready r, s)
         else (case evolve (iso_of env) now (final_changes st res (redact_of env err)) False r of
             Inl e \<Rightarrow> (FinalBad e, s)
           | Inr r' \<Rightarrow> (FinalPublish r', (put_record t r' s)\<lparr>publications := insert t (publications s)\<rparr>)))"

definition finalize_end :: "pystr \<Rightarrow> supervisor \<Rightarrow> supervisor" where
  "finalize_end t s = prune_records (s\<lparr>publications := publications s - {t}\<rparr>)"

definition error_change :: "pystr \<Rightarrow> raw_record \<Rightarrow> raw_record" where
  "error_change err w = w\<lparr>raw_error := PStr err\<rparr>"

definition update_nonterminal_error :: "sup_env \<Rightarrow> pystr \<Rightarrow> pystr \<Rightarrow> pystr \<Rightarrow> supervisor \<Rightarrow> supervisor" where
  "update_nonterminal_error env now t err s = (case rec_of s t of
       None \<Rightarrow> s
     | Some r \<Rightarrow>
         if is_terminal (rec_status r) then s
         else (case evolve (iso_of env) now (error_change (redact_of env err)) False r of
             Inl _ \<Rightarrow> s
           | Inr r' \<Rightarrow> put_record t r' s))"

section \<open>The monitor of a task\<close>

datatype monitor_choice =
    MonitorReturn | MonitorSleep | MonitorSettle task_status | MonitorExpire | MonitorPoll

definition monitor_look :: "supervisor \<Rightarrow> pystr \<Rightarrow> bool \<Rightarrow> rat \<Rightarrow> monitor_choice" where
  "monitor_look s t alive clock = (case run_of s t of
       None \<Rightarrow> MonitorReturn
     | Some rt \<Rightarrow> (case rec_of s t of
         None \<Rightarrow> if alive then MonitorSleep else MonitorReturn
       | Some r \<Rightarrow>
           if is_terminal (rec_status r) then MonitorReturn
           else if rt_intent rt \<in> {Some Cancelled, Some Timeout}
             then (if alive then MonitorSleep else MonitorSettle (the (rt_intent rt)))
           else if rt_deadline rt \<le> clock then MonitorExpire
           else MonitorPoll))"

definition event_changes :: "worker_event \<Rightarrow> raw_record \<Rightarrow> raw_record" where
  "event_changes e w = w\<lparr>raw_sequence := PInt (ev_sequence e),
     raw_heartbeat := (if ev_kind e \<in> {Started, Heartbeat} then PStr (ev_timestamp e) else raw_heartbeat w)\<rparr>"

definition accept_event :: "sup_env \<Rightarrow> pystr \<Rightarrow> pystr \<Rightarrow> worker_event \<Rightarrow> supervisor
    \<Rightarrow> (worker_error + bool) \<times> supervisor" where
  "accept_event env now t e s = (case (run_of s t, rec_of s t) of
       (Some rt, Some r) \<Rightarrow>
         if is_terminal (rec_status r) \<or> rt_intent rt \<noteq> None \<or> ev_task_id e \<noteq> t
           \<or> ev_attempt_id e \<noteq> rec_attempt_id r \<or> ev_sequence e \<le> rec_sequence r \<or> rt_pending rt \<noteq> None
         then (Inr False, s)
         else (case evolve (iso_of env) now (event_changes e) False r of
             Inl err \<Rightarrow> (Inl err, s)
           | Inr r' \<Rightarrow> (Inr True,
               (if ev_kind e \<in> {Result, Failure} then put_runtime t (rt\<lparr>rt_pending := Some e\<rparr>) else id)
                 (put_record t r' s)))
     | _ \<Rightarrow> (Inr False, s))"

text \<open>What the monitor decides when the process has ended; \<open>None\<close>: the record is already terminal.\<close>

definition pending_verdict :: "sup_env \<Rightarrow> worker_event \<Rightarrow> task_status \<times> pyval \<times> pystr" where
  "pending_verdict env e = (if ev_kind e = Result
     then (Succeeded, get_default (ev_payload e) ''result'' PNone, [])
     else (Failed, PNone, py_str_of env (get_default (ev_payload e) ''error'' (PStr (u ''Worker task failed'')))))"

definition exit_verdict :: "sup_env \<Rightarrow> int \<Rightarrow> pystr \<Rightarrow> runtime \<Rightarrow> supervisor
    \<Rightarrow> (task_status \<times> pyval \<times> pystr) option" where
  "exit_verdict env exitcode t rt s =
     (if (case rec_of s t of None \<Rightarrow> False | Some r \<Rightarrow> is_terminal (rec_status r)) then None
      else if rt_intent rt \<in> {Some Cancelled, Some Timeout}
        then Some (the (rt_intent rt), PNone, intent_error (the (rt_intent rt)) (rt_request rt))
      else (case rt_pending rt of
          Some e \<Rightarrow> Some (pending_verdict env e)
        | None \<Rightarrow> Some (Crashed, PNone,
            u ''Worker process exited without a terminal event (exit code '' @ dec_int exitcode @ u '')'')))"

definition cleanup_runtime :: "pystr \<Rightarrow> bool \<Rightarrow> supervisor \<Rightarrow> supervisor" where
  "cleanup_runtime t alive s = (case run_of s t of
       None \<Rightarrow> s
     | Some _ \<Rightarrow> if alive then s
         else prune_records (s\<lparr>runtimes := AList.delete t (runtimes s)\<rparr>))"

section \<open>Restart and shutdown\<close>

definition replace_confirmed :: "raw_record \<Rightarrow> raw_record" where
  "replace_confirmed w = w\<lparr>raw_status := Some Failed,
     raw_error := PStr (u ''Worker process died before confirmation''), raw_confirmed := PBool True\<rparr>"

definition crash_changes :: "raw_record \<Rightarrow> raw_record" where
  "crash_changes w = w\<lparr>raw_status := Some Crashed,
     raw_error := PStr (u ''Worker process terminated by restart''), raw_confirmed := PBool True\<rparr>"

definition recovered_record :: "sup_env \<Rightarrow> pystr \<Rightarrow> task_record \<Rightarrow> worker_error + task_record \<times> bool" where
  "recovered_record env now r =
     (if is_terminal (rec_status r) then
        (if rec_confirmed r then Inr (r, False)
         else bindr (WorkerTaskRecord (iso_of env) (replace_confirmed (raw_of r))) (\<lambda>r'. Inr (r', True)))
      else bindr (evolve (iso_of env) now crash_changes False r) (\<lambda>r'. Inr (r', True)))"

definition recover_one :: "task_record \<Rightarrow> bool \<Rightarrow> supervisor \<Rightarrow> supervisor" where
  "recover_one r publish s = (let t = rec_task_id r;
       s1 = put_record t r s;
       s2 = (if publish then s1\<lparr>publications := insert t (publications s1)\<rparr> else s1)
     in if max_records s2 < length (records s2) then prune_records s2 else s2)"

fun recover_orphans :: "sup_env \<Rightarrow> pystr \<Rightarrow> task_record list \<Rightarrow> supervisor
    \<Rightarrow> (worker_error + task_record list) \<times> supervisor" where
  "recover_orphans env now [] s = (Inr [], s)"
| "recover_orphans env now (r # rs) s =
     (if rec_of s (rec_task_id r) \<noteq> None then recover_orphans env now rs s
      else (case recovered_record env now r of
          Inl e \<Rightarrow> (Inl e, s)
        | Inr (r', publish) \<Rightarrow>
            (case recover_orphans env now rs (recover_one r' publish s) of
               (res, s') \<Rightarrow> (bindr res (\<lambda>out. Inr (r' # out)), s'))))"

text \<open>
  \<open>shutdown\<close>: the flag is set and the tasks collected, then every one that still runs is
  cancelled.
\<close>

definition shutdown_begin :: "supervisor \<Rightarrow> pystr list \<times> supervisor" where
  "shutdown_begin s = (if closed s \<and> runtimes s = [] then ([], s)
     else (map fst (runtimes s), s\<lparr>closed := True\<rparr>))"

definition shutdown_visit :: "pystr \<Rightarrow> supervisor \<Rightarrow> bool \<times> supervisor" where
  "shutdown_visit t s = (case run_of s t of
       None \<Rightarrow> (False, s)
     | Some rt \<Rightarrow> (case rec_of s t of
         None \<Rightarrow> (True, set_intent t Cancelled s)
       | Some r \<Rightarrow> (\<not> is_terminal (rec_status r), s)))"

definition active_process_count :: "supervisor \<Rightarrow> pystr set \<Rightarrow> nat" where
  "active_process_count s alive = length (filter (\<lambda>p. fst p \<in> alive) (runtimes s))"

section \<open>Token usage of a finished task\<close>

definition nonneg_int :: "pyval \<Rightarrow> int option" where
  "nonneg_int v = (case as_int v of Some n \<Rightarrow> if n < 0 then None else Some n | None \<Rightarrow> None)"

text \<open>The usage passed to \<open>record_token_usage\<close>, when the function answers True.\<close>

definition worker_token_usage :: "task_record \<Rightarrow> (int \<times> int) option" where
  "worker_token_usage r =
     (if rec_status r \<noteq> Succeeded then None
      else (case as_mapping (rec_result r) of
          None \<Rightarrow> None
        | Some d \<Rightarrow> (case field d ''usage'' of
            Some (PDict us) \<Rightarrow>
              (case (nonneg_int (get_default us ''prompt_tokens'' (PInt 0)),
                     nonneg_int (get_default us ''completion_tokens'' (PInt 0))) of
                 (Some p, Some c) \<Rightarrow> Some (p, c)
               | _ \<Rightarrow> None)
          | _ \<Rightarrow> None)))"
section \<open>The threads of the program\<close>

text \<open>
  \<open>alive\<close>: the processes that have not ended. \<open>verdicts\<close>: what a monitor has decided under the
  lock and not yet passed to \<open>_finalize\<close>. \<open>publishing\<close>: the terminal record a thread holds between
  the two sections of \<open>_finalize\<close>, while it calls the observers.
\<close>

record world =
  sup :: supervisor
  alive :: "pystr set"
  verdicts :: "pystr \<Rightarrow> (task_status \<times> pyval \<times> pystr) option"
  publishing :: "pystr \<Rightarrow> task_record option"

datatype label = Started_task task_record | Observed task_record | Recovered | Internal

definition good_now :: "sup_env \<Rightarrow> pystr \<Rightarrow> bool" where
  "good_now env now \<longleftrightarrow> iso_of env (replace_Z now) = Some True"

text \<open>The section of \<open>_finalize\<close> before the observers, with what the calling thread then holds.\<close>

definition finalize_in :: "sup_env \<Rightarrow> pystr \<Rightarrow> pystr \<Rightarrow> task_status \<times> pyval \<times> pystr \<Rightarrow> world \<Rightarrow> world" where
  "finalize_in env now t v w = (case v of (st, res, err) \<Rightarrow>
     (case finalize_begin env now t st res err (sup w) of
        (FinalPublish r, s') \<Rightarrow> w\<lparr>sup := s', publishing := (publishing w)(t \<mapsto> r)\<rparr>
      | (_, s') \<Rightarrow> w\<lparr>sup := s'\<rparr>))"

definition drop_task :: "pystr \<Rightarrow> world \<Rightarrow> world" where
  "drop_task t w = w\<lparr>sup := cleanup_runtime t (t \<in> alive w) (sup w),
     verdicts := (if t \<in> alive w then verdicts w else (verdicts w)(t := None))\<rparr>"

text \<open>
  The sections of all threads. Where two threads run the same section (a canceller and a monitor that
  finalise, \<open>step_settle\<close>) it is one rule, and the time between a look of the monitor and what it does after it may
  hold any other step. \<open>recover_orphans\<close> runs once, when the application starts and no task is known.
\<close>

inductive sup_step :: "sup_env \<Rightarrow> world \<Rightarrow> label \<Rightarrow> world \<Rightarrow> bool" for env where
  step_submit: "\<lbrakk>valid_request (iso_of env) q; good_now env now; 0 < p;
      submit env now clock (Some p) q (sup w) = (Inr r, s')\<rbrakk>
    \<Longrightarrow> sup_step env w (Started_task r) (w\<lparr>sup := s', alive := insert (req_task_id q) (alive w)\<rparr>)"
| step_refused: "\<lbrakk>valid_request (iso_of env) q; good_now env now; \<And>p. pid = Some p \<Longrightarrow> 0 < p;
      submit env now clock pid q (sup w) = (Inl e, s')\<rbrakk>
    \<Longrightarrow> sup_step env w Internal (w\<lparr>sup := s'\<rparr>)"
| step_exit: "t \<in> alive w \<Longrightarrow> sup_step env w Internal (w\<lparr>alive := alive w - {t}\<rparr>)"
| step_wait: "wait_begin t (sup w) = (x, s') \<Longrightarrow> sup_step env w Internal (w\<lparr>sup := s'\<rparr>)"
| step_leave: "map_of (waiters (sup w)) t \<noteq> None
    \<Longrightarrow> sup_step env w Internal (w\<lparr>sup := unpin t (sup w)\<rparr>)"
| step_cancel: "cancel_begin t (sup w) = (x, s') \<Longrightarrow> sup_step env w Internal (w\<lparr>sup := s'\<rparr>)"
| step_expire: "monitor_look (sup w) t b clock = MonitorExpire
    \<Longrightarrow> sup_step env w Internal (w\<lparr>sup := set_intent t Timeout (sup w)\<rparr>)"
| step_receive: "\<lbrakk>valid_event (iso_of env) e; good_now env now; verdicts w t = None; accept_event env now t e (sup w) = (x, s')\<rbrakk>
    \<Longrightarrow> sup_step env w Internal (w\<lparr>sup := s'\<rparr>)"
| step_settle: "\<lbrakk>run_of (sup w) t = Some rt; rt_intent rt = Some i; t \<notin> alive w; good_now env now\<rbrakk>
    \<Longrightarrow> sup_step env w Internal (finalize_in env now t (i, PNone, intent_error i (rt_request rt)) w)"
| step_unconfirmed: "\<lbrakk>run_of (sup w) t = Some rt; rt_intent rt = Some i; good_now env now\<rbrakk>
    \<Longrightarrow> sup_step env w Internal
          (w\<lparr>sup := update_nonterminal_error env now t (unconfirmed_error i) (sup w)\<rparr>)"
| step_decide: "\<lbrakk>run_of (sup w) t = Some rt; t \<notin> alive w; exit_verdict env code t rt (sup w) = Some v\<rbrakk>
    \<Longrightarrow> sup_step env w Internal (w\<lparr>verdicts := (verdicts w)(t \<mapsto> v)\<rparr>)"
| step_verdict: "\<lbrakk>verdicts w t = Some v; good_now env now\<rbrakk>
    \<Longrightarrow> sup_step env w Internal ((finalize_in env now t v w)\<lparr>verdicts := (verdicts w)(t := None)\<rparr>)"
| step_observe: "publishing w t = Some r \<Longrightarrow> sup_step env w (Observed r) w"
| step_published: "publishing w t = Some r \<Longrightarrow> sup_step env w Internal
    (w\<lparr>sup := finalize_end t (sup w), publishing := (publishing w)(t := None)\<rparr>)"
| step_cleanup: "monitor_look (sup w) t (t \<in> alive w) clock = MonitorReturn
    \<Longrightarrow> sup_step env w Internal (drop_task t w)"
| step_recover: "\<lbrakk>records (sup w) = []; \<forall>r\<in>set rs. valid_record (iso_of env) r; good_now env now;
      recover_orphans env now rs (sup w) = (x, s')\<rbrakk>
    \<Longrightarrow> sup_step env w Recovered (w\<lparr>sup := s'\<rparr>)"
| step_shutdown: "shutdown_begin (sup w) = (ts, s') \<Longrightarrow> sup_step env w Internal (w\<lparr>sup := s'\<rparr>)"
| step_visit: "shutdown_visit t (sup w) = (b, s') \<Longrightarrow> sup_step env w Internal (w\<lparr>sup := s'\<rparr>)"

text \<open>
  One turn of the loop of \<open>_monitor\<close> without interference: \<open>es\<close> are the events in the pipe, \<open>stopped\<close> whether
  \<open>_terminate\<close> ended the process. A monitor that has decided a verdict passes it to \<open>_finalize\<close>.
\<close>

definition receive_events :: "sup_env \<Rightarrow> pystr \<Rightarrow> pystr \<Rightarrow> worker_event list \<Rightarrow> world \<Rightarrow> world" where
  "receive_events env now t es w = w\<lparr>sup := fold (\<lambda>e s. snd (accept_event env now t e s)) es (sup w)\<rparr>"

definition settle_intent :: "sup_env \<Rightarrow> pystr \<Rightarrow> pystr \<Rightarrow> task_status \<Rightarrow> world \<Rightarrow> world" where
  "settle_intent env now t i w = (case run_of (sup w) t of
       None \<Rightarrow> w
     | Some rt \<Rightarrow> finalize_in env now t (i, PNone, intent_error i (rt_request rt)) w)"

definition settle_exit :: "sup_env \<Rightarrow> pystr \<Rightarrow> int \<Rightarrow> pystr \<Rightarrow> world \<Rightarrow> world" where
  "settle_exit env now code t w = (case run_of (sup w) t of
       None \<Rightarrow> w
     | Some rt \<Rightarrow> (case exit_verdict env code t rt (sup w) of
         None \<Rightarrow> drop_task t w
       | Some v \<Rightarrow> finalize_in env now t v w))"

definition monitor_turn :: "sup_env \<Rightarrow> pystr \<Rightarrow> int \<Rightarrow> rat \<Rightarrow> bool \<Rightarrow> worker_event list \<Rightarrow> pystr \<Rightarrow> world \<Rightarrow> world" where
  "monitor_turn env now code clock stopped es t w = (case verdicts w t of
       Some v \<Rightarrow> (finalize_in env now t v w)\<lparr>verdicts := (verdicts w)(t := None)\<rparr>
     | None \<Rightarrow> (case monitor_look (sup w) t (t \<in> alive w) clock of
         MonitorReturn \<Rightarrow> drop_task t w
       | MonitorSleep \<Rightarrow> receive_events env now t (take 1 es) w
       | MonitorSettle i \<Rightarrow> settle_intent env now t i (receive_events env now t (take 1 es) w)
       | MonitorExpire \<Rightarrow>
           (let w1 = w\<lparr>sup := set_intent t Timeout (sup w), alive := (if stopped then alive w - {t} else alive w)\<rparr> in
            if t \<notin> alive w1 then settle_intent env now t Timeout w1
            else w1\<lparr>sup := update_nonterminal_error env now t (unconfirmed_error Timeout) (sup w1)\<rparr>)
       | MonitorPoll \<Rightarrow>
           if t \<in> alive w then receive_events env now t (take 1 es) w
           else settle_exit env now code t (receive_events env now t es w)))"

definition start_world :: "supervisor \<Rightarrow> world" where
  "start_world s = \<lparr>sup = s, alive = {}, verdicts = (\<lambda>_. None), publishing = (\<lambda>_. None)\<rparr>"
section \<open>What the sections do to one task\<close>

named_theorems sup_simps \<open>the sections of the supervisor, task by task\<close>

lemma raw_of_inject: "raw_of r = raw_of r' \<longleftrightarrow> r = r'"
  by (cases r; cases r') (auto simp: raw_of_def opt_value_def split: option.splits)

lemma evolve_to:
  assumes "(changes (raw_of r))\<lparr>raw_updated_at := PStr now\<rparr> = raw_of r1"
  shows "evolve parse_iso now changes False r = Inr r' \<longleftrightarrow>
    \<not> is_terminal (rec_status r) \<and> valid_record parse_iso r1 \<and> r' = r1"
  using assms by (auto simp: evolve_def WorkerTaskRecord_Inr raw_of_inject)

lemma evolve_start: "evolve parse_iso now (start_changes p) False r = Inr r' \<longleftrightarrow> \<not> is_terminal (rec_status r)
    \<and> valid_record parse_iso (r\<lparr>rec_status := Running, rec_pid := Some p, rec_updated_at := now\<rparr>)
    \<and> r' = r\<lparr>rec_status := Running, rec_pid := Some p, rec_updated_at := now\<rparr>"
  by (rule evolve_to) (simp add: start_changes_def raw_of_def)

lemma evolve_final: "evolve parse_iso now (final_changes st res err) False r = Inr r' \<longleftrightarrow> \<not> is_terminal (rec_status r)
    \<and> valid_record parse_iso (r\<lparr>rec_status := st, rec_result := res, rec_error := err, rec_confirmed := True,
        rec_updated_at := now\<rparr>)
    \<and> r' = r\<lparr>rec_status := st, rec_result := res, rec_error := err, rec_confirmed := True, rec_updated_at := now\<rparr>"
  by (rule evolve_to) (simp add: final_changes_def raw_of_def)

lemma evolve_error: "evolve parse_iso now (error_change err) False r = Inr r' \<longleftrightarrow> \<not> is_terminal (rec_status r)
    \<and> valid_record parse_iso (r\<lparr>rec_error := err, rec_updated_at := now\<rparr>) \<and> r' = r\<lparr>rec_error := err, rec_updated_at := now\<rparr>"
  by (rule evolve_to) (simp add: error_change_def raw_of_def)

lemma evolve_crash: "evolve parse_iso now crash_changes False r = Inr r' \<longleftrightarrow> \<not> is_terminal (rec_status r)
    \<and> valid_record parse_iso (r\<lparr>rec_status := Crashed, rec_error := u ''Worker process terminated by restart'',
        rec_confirmed := True, rec_updated_at := now\<rparr>)
    \<and> r' = r\<lparr>rec_status := Crashed, rec_error := u ''Worker process terminated by restart'',
        rec_confirmed := True, rec_updated_at := now\<rparr>"
  by (rule evolve_to) (simp add: crash_changes_def raw_of_def)

definition heard :: "worker_event \<Rightarrow> pystr \<Rightarrow> task_record \<Rightarrow> task_record" where
  "heard e now r = r\<lparr>rec_sequence := ev_sequence e, rec_updated_at := now, rec_heartbeat :=
     (if ev_kind e \<in> {Started, Heartbeat} then Some (ev_timestamp e) else rec_heartbeat r)\<rparr>"

lemma evolve_event: "evolve parse_iso now (event_changes e) False r = Inr r' \<longleftrightarrow> \<not> is_terminal (rec_status r)
    \<and> valid_record parse_iso (heard e now r) \<and> r' = heard e now r"
  by (rule evolve_to) (simp add: event_changes_def raw_of_def heard_def)

lemma heard_simps [simp]: "rec_status (heard e now r) = rec_status r" "rec_task_id (heard e now r) = rec_task_id r"
  "rec_role_name (heard e now r) = rec_role_name r" "rec_attempt_id (heard e now r) = rec_attempt_id r"
  "rec_confirmed (heard e now r) = rec_confirmed r"
  by (simp_all add: heard_def)

text \<open>With a valid clock none of these changes can be refused.\<close>

lemma changed_valid:
  assumes "valid_record (iso_of env) r" and "good_now env now"
  shows "0 < p \<Longrightarrow> valid_record (iso_of env) (r\<lparr>rec_status := Running, rec_pid := Some p, rec_updated_at := now\<rparr>)"
    and "valid_record (iso_of env) (r\<lparr>rec_status := st, rec_result := res, rec_error := err, rec_confirmed := True,
        rec_updated_at := now\<rparr>)"
    and "\<not> is_terminal (rec_status r) \<Longrightarrow>
      valid_record (iso_of env) (r\<lparr>rec_error := err, rec_updated_at := now\<rparr>)"
    and "valid_record (iso_of env) (r\<lparr>rec_status := Crashed, rec_error := err, rec_confirmed := True, rec_updated_at := now\<rparr>)"
    and "valid_event (iso_of env) e \<Longrightarrow> valid_record (iso_of env) (heard e now r)"
  using assms by (auto simp: valid_record_def good_now_def valid_event_def heard_def)

lemma put_record_simps [simp]:
  "rec_of (put_record t r s) t' = (if t' = t then Some r else rec_of s t')"
  "runtimes (put_record t r s) = runtimes s" "waiters (put_record t r s) = waiters s"
  "publications (put_record t r s) = publications s" "max_records (put_record t r s) = max_records s"
  "closed (put_record t r s) = closed s"
  by (simp_all add: put_record_def)

lemma put_runtime_simps [simp]:
  "run_of (put_runtime t rt s) t' = (if t' = t then Some rt else run_of s t')"
  "records (put_runtime t rt s) = records s" "waiters (put_runtime t rt s) = waiters s"
  "publications (put_runtime t rt s) = publications s" "max_records (put_runtime t rt s) = max_records s"
  "closed (put_runtime t rt s) = closed s"
  by (simp_all add: put_runtime_def)

lemma set_intent_simps [simp]:
  "records (set_intent t i s) = records s" "waiters (set_intent t i s) = waiters s"
  "publications (set_intent t i s) = publications s" "max_records (set_intent t i s) = max_records s"
  by (simp_all add: set_intent_def split: option.splits)

lemma run_of_set_intent:
  "run_of (set_intent t i s) t' = (if t' = t then map_option (\<lambda>rt. rt\<lparr>rt_intent :=
      Some (case rt_intent rt of None \<Rightarrow> i | Some j \<Rightarrow> j)\<rparr>) (run_of s t) else run_of s t')"
  by (auto simp: set_intent_def split: option.splits)

lemma pin_simps [simp]:
  "records (pin t s) = records s" "runtimes (pin t s) = runtimes s"
  "publications (pin t s) = publications s" "max_records (pin t s) = max_records s"
  by (simp_all add: pin_def)

lemma map_of_pin [simp]: "map_of (waiters (pin t s)) t' =
    (if t' = t then Some ((case map_of (waiters s) t of None \<Rightarrow> 0 | Some n \<Rightarrow> n) + 1) else map_of (waiters s) t')"
  by (simp add: pin_def)

text \<open>Pruning only forgets records nobody needs, and nothing else.\<close>

lemma prune_fields [simp]:
  "runtimes (prune_records s) = runtimes s" "waiters (prune_records s) = waiters s"
  "publications (prune_records s) = publications s" "max_records (prune_records s) = max_records s"
  "closed (prune_records s) = closed s" "grace (prune_records s) = grace s"
  by (induction s rule: prune_records.induct; subst prune_records.simps; simp split: option.split)+
lemma unpin_fields [simp]:
  "runtimes (unpin t s) = runtimes s" "publications (unpin t s) = publications s"
  "max_records (unpin t s) = max_records s"
  by (simp_all add: unpin_def Let_def)

lemma unpin_prune: "unpin t s = prune_records (s\<lparr>waiters := waiters (unpin t s)\<rparr>)"
  by (simp add: unpin_def Let_def)

lemma prune_dict_ok [simp]: "dict_ok (records s) \<Longrightarrow> dict_ok (records (prune_records s))"
  by (induction s rule: prune_records.induct; subst prune_records.simps; simp split: option.split)

lemma removable_delete: "removable (s\<lparr>records := rs\<rparr>) p = removable s p"
  by (simp add: removable_def)

lemma removable_prune [simp]: "removable (prune_records s) p = removable s p"
  by (simp add: removable_def)

lemma removable_mem:
  "removable s (t, r) \<longleftrightarrow> is_terminal (rec_status r) \<and> run_of s t = None \<and> map_of (waiters s) t = None
     \<and> t \<notin> publications s"
  by (auto simp: removable_def map_of_eq_None_iff)

lemma prune_lookup:
  assumes "dict_ok (records s)"
  shows "rec_of (prune_records s) t = rec_of s t \<or>
    (rec_of (prune_records s) t = None \<and> (\<exists>r. rec_of s t = Some r \<and> removable s (t, r)))"
  using assms
proof (induction s rule: prune_records.induct)
  case (1 s)
  show ?case
  proof (cases "max_records s < length (records s) \<and> List.find (removable s) (records s) \<noteq> None")
    case False
    then show ?thesis by (subst prune_records.simps) (auto split: option.split)
  next
    case True
    then obtain p where p: "max_records s < length (records s)" "List.find (removable s) (records s) = Some p"
      by auto
    have mem: "p \<in> set (records s)" "removable s p" using find_Some_mem [OF p(2)] by auto
    with "1.prems" have entry: "rec_of s (fst p) = Some (snd p)" by (simp add: dict_ok_def)
    let ?s = "s\<lparr>records := AList.delete (fst p) (records s)\<rparr>"
    have "prune_records s = prune_records ?s" using p by (subst prune_records.simps) simp
    moreover have "rec_of (prune_records ?s) t = rec_of ?s t \<or>
        (rec_of (prune_records ?s) t = None \<and> (\<exists>r. rec_of ?s t = Some r \<and> removable ?s (t, r)))"
      by (rule "1.IH" [OF p]) (simp add: "1.prems")
    ultimately show ?thesis using entry mem by (cases p) (auto simp: removable_delete split: if_splits)
  qed
qed

lemma prune_bound:
  "max_records s < length (records (prune_records s)) \<Longrightarrow> \<forall>p\<in>set (records (prune_records s)). \<not> removable s p"
proof (induction s rule: prune_records.induct)
  case (1 s)
  show ?case
  proof (cases "max_records s < length (records s) \<and> List.find (removable s) (records s) \<noteq> None")
    case False
    then have "prune_records s = s" by (subst prune_records.simps) (auto split: option.split)
    then show ?thesis using False "1.prems" by (auto simp: find_None_iff)
  next
    case True
    then obtain p where p: "max_records s < length (records s)" "List.find (removable s) (records s) = Some p"
      by auto
    have "prune_records s = prune_records (s\<lparr>records := AList.delete (fst p) (records s)\<rparr>)"
      using p by (subst prune_records.simps) simp
    then show ?thesis using "1.IH" [OF p] "1.prems" by (simp add: removable_delete)
  qed
qed

section \<open>The invariant\<close>

text \<open>
  Why a task has the verdict it has: its recorded intent, the terminal event its process sent,
  or neither.
\<close>

definition explained :: "sup_env \<Rightarrow> runtime \<Rightarrow> task_status \<times> pyval \<times> pystr \<Rightarrow> bool" where
  "explained env rt v \<longleftrightarrow>
     (\<exists>i. rt_intent rt = Some i \<and> v = (i, PNone, intent_error i (rt_request rt))) \<or>
     (\<exists>e. rt_pending rt = Some e \<and> v = pending_verdict env e) \<or>
     (rt_pending rt = None \<and> (\<exists>err. v = (Crashed, PNone, err)))"

definition runtime_ok :: "sup_env \<Rightarrow> pystr \<Rightarrow> runtime \<Rightarrow> bool" where
  "runtime_ok env t rt \<longleftrightarrow> req_task_id (rt_request rt) = t \<and> rt_intent rt \<in> {None, Some Cancelled, Some Timeout}
     \<and> none_or (\<lambda>e. valid_event (iso_of env) e \<and> ev_kind e \<in> {Result, Failure} \<and> ev_task_id e = t
          \<and> ev_attempt_id e = req_attempt_id (rt_request rt)) (rt_pending rt)"

definition record_fits :: "sup_env \<Rightarrow> task_record \<Rightarrow> runtime \<Rightarrow> bool" where
  "record_fits env r rt \<longleftrightarrow> rec_role_name r = req_role_name (rt_request rt)
     \<and> rec_attempt_id r = req_attempt_id (rt_request rt)
     \<and> (is_terminal (rec_status r) \<longrightarrow>
          (\<exists>err. explained env rt (rec_status r, rec_result r, err) \<and> rec_error r = redact_of env err))"

definition task_ok :: "sup_env \<Rightarrow> world \<Rightarrow> pystr \<Rightarrow> bool" where
  "task_ok env w t \<longleftrightarrow>
     (case rec_of (sup w) t of
        None \<Rightarrow> run_of (sup w) t = None \<and> publishing w t = None
      | Some r \<Rightarrow> valid_record (iso_of env) r \<and> rec_task_id r = t \<and>
          (if is_terminal (rec_status r) then t \<notin> alive w \<and> rec_confirmed r \<and> none_or (\<lambda>p. p = r) (publishing w t)
           else run_of (sup w) t \<noteq> None \<and> publishing w t = None)
          \<and> none_or (record_fits env r) (run_of (sup w) t)) \<and>
     (case run_of (sup w) t of
        None \<Rightarrow> t \<notin> alive w \<and> verdicts w t = None
      | Some rt \<Rightarrow> runtime_ok env t rt \<and> none_or (\<lambda>v. t \<notin> alive w \<and> explained env rt v) (verdicts w t)) \<and>
     (publishing w t \<noteq> None \<longrightarrow> t \<in> publications (sup w))"

definition sup_inv :: "sup_env \<Rightarrow> world \<Rightarrow> bool" where
  "sup_inv env w \<longleftrightarrow> dict_ok (records (sup w)) \<and> (\<forall>t. task_ok env w t)"

lemma sup_invD: "sup_inv env w \<Longrightarrow> dict_ok (records (sup w))" "sup_inv env w \<Longrightarrow> task_ok env w t"
  by (simp_all add: sup_inv_def)

text \<open>The three situations of a task: unknown, settled, or attended by a monitor.\<close>

lemma task_ok_unknown:
  "rec_of (sup w) t = None \<Longrightarrow> task_ok env w t \<longleftrightarrow>
     run_of (sup w) t = None \<and> publishing w t = None \<and> t \<notin> alive w \<and> verdicts w t = None"
  by (auto simp: task_ok_def)

lemma task_ok_settled:
  "rec_of (sup w) t = Some r \<Longrightarrow> run_of (sup w) t = None \<Longrightarrow> task_ok env w t \<longleftrightarrow>
     valid_record (iso_of env) r \<and> rec_task_id r = t \<and> is_terminal (rec_status r) \<and> rec_confirmed r
     \<and> t \<notin> alive w \<and> verdicts w t = None
     \<and> none_or (\<lambda>p. p = r \<and> t \<in> publications (sup w)) (publishing w t)"
  by (cases "publishing w t") (auto simp: task_ok_def)

lemma task_ok_attended:
  "rec_of (sup w) t = Some r \<Longrightarrow> run_of (sup w) t = Some rt \<Longrightarrow> task_ok env w t \<longleftrightarrow>
     valid_record (iso_of env) r \<and> rec_task_id r = t \<and> record_fits env r rt \<and> runtime_ok env t rt
     \<and> (is_terminal (rec_status r) \<longrightarrow> t \<notin> alive w \<and> rec_confirmed r)
     \<and> (\<not> is_terminal (rec_status r) \<longrightarrow> publishing w t = None)
     \<and> none_or (\<lambda>v. t \<notin> alive w \<and> explained env rt v) (verdicts w t)
     \<and> none_or (\<lambda>p. p = r \<and> t \<in> publications (sup w)) (publishing w t)"
  by (cases "publishing w t") (auto simp: task_ok_def)

lemmas task_ok_flat = task_ok_unknown task_ok_settled task_ok_attended

lemma task_ok_no_run: "task_ok env w t \<Longrightarrow> rec_of (sup w) t = None \<Longrightarrow> run_of (sup w) t = None"
  by (simp add: task_ok_unknown)

lemma task_cases [consumes 1]:
  assumes "task_ok env w t"
  obtains (unknown) "rec_of (sup w) t = None" "run_of (sup w) t = None"
    | (settled) r where "rec_of (sup w) t = Some r" "run_of (sup w) t = None"
    | (attended) r rt where "rec_of (sup w) t = Some r" "run_of (sup w) t = Some rt"
  using assms task_ok_no_run by (cases "rec_of (sup w) t"; cases "run_of (sup w) t") fastforce+

lemma task_ok_same:
  assumes "task_ok env w t" and "rec_of (sup w') t = rec_of (sup w) t" and "run_of (sup w') t = run_of (sup w) t"
    and "t \<in> alive w' \<longleftrightarrow> t \<in> alive w" and "verdicts w' t = verdicts w t" and "publishing w' t = publishing w t"
    and "t \<in> publications (sup w) \<Longrightarrow> t \<in> publications (sup w')"
  shows "task_ok env w' t"
  using assms by (auto simp: task_ok_def split: option.splits if_splits)

lemma sup_inv_prune:
  assumes "sup_inv env (w\<lparr>sup := s\<rparr>)"
  shows "sup_inv env (w\<lparr>sup := prune_records s\<rparr>)"
  unfolding sup_inv_def
proof (intro conjI allI)
  note ok = sup_invD [OF assms, simplified]
  show "dict_ok (records (sup (w\<lparr>sup := prune_records s\<rparr>)))" using ok(1) by simp
  fix t
  from prune_lookup [OF ok(1), of t]
  show "task_ok env (w\<lparr>sup := prune_records s\<rparr>) t"
  proof
    assume "rec_of (prune_records s) t = rec_of s t"
    then show ?thesis by (intro task_ok_same [OF ok(2)]) simp_all
  next
    assume "rec_of (prune_records s) t = None \<and> (\<exists>r. rec_of s t = Some r \<and> removable s (t, r))"
    then show ?thesis using ok(2) [of t]
      by (auto simp: task_ok_def removable_mem split: option.splits if_splits)
  qed
qed

text \<open>A section that touches one task keeps the invariant if it keeps it for that task.\<close>

lemma sup_inv_at:
  assumes "sup_inv env w" and "dict_ok (records (sup w'))" and "task_ok env w' t"
    and "\<And>t'. t' \<noteq> t \<Longrightarrow> rec_of (sup w') t' = rec_of (sup w) t' \<and> run_of (sup w') t' = run_of (sup w) t'
      \<and> (t' \<in> alive w' \<longleftrightarrow> t' \<in> alive w) \<and> verdicts w' t' = verdicts w t' \<and> publishing w' t' = publishing w t'
      \<and> (t' \<in> publications (sup w) \<longrightarrow> t' \<in> publications (sup w'))"
  shows "sup_inv env w'"
  unfolding sup_inv_def
proof (intro conjI allI)
  show "dict_ok (records (sup w'))" by fact
  fix t'
  show "task_ok env w' t'"
  proof (cases "t' = t")
    case False
    from assms(4) [OF this] show ?thesis
      by (intro task_ok_same [OF sup_invD(2) [OF assms(1)]]) simp_all
  qed (use assms(3) in simp)
qed
section \<open>Every step keeps the invariant\<close>

lemma from_request_facts:
  "from_request parse_iso q = Inr r \<Longrightarrow> valid_record parse_iso r \<and> rec_task_id r = req_task_id q
     \<and> rec_role_name r = req_role_name q \<and> rec_attempt_id r = req_attempt_id q \<and> rec_status r = Queued"
  by (auto simp: from_request_def WorkerTaskRecord_Inr raw_of_def)

lemma submit_Inr:
  assumes "submit env now clock (Some p) q s = (Inr r, s')" "good_now env now" "0 < p"
  obtains r0 where "\<not> closed s" "rec_of s (req_task_id q) = None" "\<not> list_ex (blocks s q) (runtimes s)"
    "r = r0\<lparr>rec_status := Running, rec_pid := Some p, rec_updated_at := now\<rparr>"
    "valid_record (iso_of env) r" "rec_task_id r = req_task_id q" "rec_role_name r = req_role_name q"
    "rec_attempt_id r = req_attempt_id q"
    "s' = put_runtime (req_task_id q) \<lparr>rt_request = q, rt_deadline = clock + of_int (req_timeout q),
       rt_pending = None, rt_intent = None\<rparr> (put_record (req_task_id q) r (put_record (req_task_id q) r0 s))"
proof -
  from assms(1) obtain r0 where r0: "\<not> closed s" "rec_of s (req_task_id q) = None"
      "\<not> list_ex (blocks s q) (runtimes s)" "from_request (iso_of env) q = Inr r0"
      "evolve (iso_of env) now (start_changes p) False r0 = Inr r"
      "s' = put_runtime (req_task_id q) \<lparr>rt_request = q, rt_deadline = clock + of_int (req_timeout q),
       rt_pending = None, rt_intent = None\<rparr> (put_record (req_task_id q) r (put_record (req_task_id q) r0 s))"
    by (auto simp: submit_def Let_def split: if_splits sum.splits)
  from r0(5) have r: "r = r0\<lparr>rec_status := Running, rec_pid := Some p, rec_updated_at := now\<rparr>"
      "valid_record (iso_of env) r" by (simp_all add: evolve_start)
  show thesis
    using that [OF r0(1-3) r(1,2) _ _ _ r0(6)] from_request_facts [OF r0(4)] r(1) by simp
qed

lemma submit_Inl:
  assumes "submit env now clock pid q s = (Inl e, s')" "good_now env now" "\<And>p. pid = Some p \<Longrightarrow> 0 < p"
  shows "s' = s \<or> (rec_of s (req_task_id q) = None \<and> (\<exists>r. s' = s\<lparr>records :=
    AList.delete (req_task_id q) (AList.update (req_task_id q) r (records s))\<rparr>))"
proof -
  have started: "\<exists>r'. evolve (iso_of env) now (start_changes p) False r = Inr r'"
    if "from_request (iso_of env) q = Inr r" "pid = Some p" for r p
    using from_request_facts [OF that(1)] changed_valid(1) [of env r now p] assms(2) assms(3) [OF that(2)]
    by (simp add: evolve_start)
  show ?thesis
  proof (cases "from_request (iso_of env) q")
    case (Inl err)
    then show ?thesis using assms(1) by (auto simp: submit_def Let_def split: if_splits)
  next
    case (Inr r)
    show ?thesis
    proof (cases pid)
      case None
      then show ?thesis using assms(1) Inr
        by (auto simp: submit_def Let_def put_record_def split: if_splits)
    next
      case (Some p)
      then show ?thesis using assms(1) Inr started [OF Inr Some]
        by (auto simp: submit_def Let_def split: if_splits)
    qed
  qed
qed

lemma inv_submit:
  assumes "sup_inv env w" "valid_request (iso_of env) q" "good_now env now" "0 < p"
    and "submit env now clock (Some p) q (sup w) = (Inr r, s')"
  shows "sup_inv env (w\<lparr>sup := s', alive := insert (req_task_id q) (alive w)\<rparr>)"
proof (rule submit_Inr [OF assms(5,3,4)])
  fix r0 assume new: "rec_of (sup w) (req_task_id q) = None"
    and r: "r = r0\<lparr>rec_status := Running, rec_pid := Some p, rec_updated_at := now\<rparr>"
      "valid_record (iso_of env) r" "rec_task_id r = req_task_id q" "rec_role_name r = req_role_name q"
      "rec_attempt_id r = req_attempt_id q"
    and s': "s' = put_runtime (req_task_id q) \<lparr>rt_request = q, rt_deadline = clock + of_int (req_timeout q),
       rt_pending = None, rt_intent = None\<rparr> (put_record (req_task_id q) r (put_record (req_task_id q) r0 (sup w)))"
  have idle: "verdicts w (req_task_id q) = None" "publishing w (req_task_id q) = None"
    using sup_invD(2) [OF assms(1), of "req_task_id q"] new by (auto simp: task_ok_def)
  show ?thesis
  proof (rule sup_inv_at [OF assms(1), where t = "req_task_id q"])
    show "dict_ok (records (sup (w\<lparr>sup := s', alive := insert (req_task_id q) (alive w)\<rparr>)))"
      using sup_invD(1) [OF assms(1)] by (simp add: s' put_record_def put_runtime_def)
    have "rec_status r = Running" using r(1) by simp
    then show "task_ok env (w\<lparr>sup := s', alive := insert (req_task_id q) (alive w)\<rparr>) (req_task_id q)"
      using r(2-5) idle by (simp add: s' task_ok_def record_fits_def runtime_ok_def)
  qed (auto simp: s')
qed

lemma inv_refused:
  assumes "sup_inv env w" "good_now env now" "\<And>p. pid = Some p \<Longrightarrow> 0 < p"
    and "submit env now clock pid q (sup w) = (Inl e, s')"
  shows "sup_inv env (w\<lparr>sup := s'\<rparr>)"
proof -
  have "s' = sup w \<or> (rec_of (sup w) (req_task_id q) = None \<and> (\<exists>r. s' = (sup w)\<lparr>records :=
      AList.delete (req_task_id q) (AList.update (req_task_id q) r (records (sup w)))\<rparr>))"
    by (rule submit_Inl [OF assms(4,2)]) (rule assms(3))
  then show ?thesis
proof (elim disjE conjE exE)
  fix r assume new: "rec_of (sup w) (req_task_id q) = None"
    and s': "s' = (sup w)\<lparr>records := AList.delete (req_task_id q) (AList.update (req_task_id q) r (records (sup w)))\<rparr>"
  show ?thesis
  proof (rule sup_inv_at [OF assms(1), where t = "req_task_id q"])
    show "task_ok env (w\<lparr>sup := s'\<rparr>) (req_task_id q)"
      by (rule task_ok_same [OF sup_invD(2) [OF assms(1)]]) (simp_all add: s' new)
  qed (use sup_invD(1) [OF assms(1)] in \<open>auto simp: s'\<close>)
qed (use assms(1) in simp)
qed

lemma inv_same:
  assumes "sup_inv env w" and "\<And>t. rec_of (sup w') t = rec_of (sup w) t" and "\<And>t. run_of (sup w') t = run_of (sup w) t"
    and "dict_ok (records (sup w'))" and "alive w' = alive w" and "verdicts w' = verdicts w"
    and "publishing w' = publishing w" and "publications (sup w) \<subseteq> publications (sup w')"
  shows "sup_inv env w'"
  unfolding sup_inv_def
proof (intro conjI allI)
  show "task_ok env w' t" for t
    by (rule task_ok_same [OF sup_invD(2) [OF assms(1)]]) (use assms(2-) in auto)
qed (fact assms(4))

lemma inv_exit:
  assumes "sup_inv env w"
  shows "sup_inv env (w\<lparr>alive := alive w - {t}\<rparr>)"
proof (rule sup_inv_at [OF assms, where t = t])
  show "task_ok env (w\<lparr>alive := alive w - {t}\<rparr>) t"
    using sup_invD(2) [OF assms, of t]
  proof (cases rule: task_cases)
    case (attended r rt)
    then show ?thesis using sup_invD(2) [OF assms, of t] by (cases "verdicts w t") (simp_all add: task_ok_flat)
  qed (use sup_invD(2) [OF assms, of t] in \<open>simp_all add: task_ok_flat\<close>)
qed (use sup_invD(1) [OF assms] in simp_all)

lemma inv_pin: "sup_inv env w \<Longrightarrow> sup_inv env (w\<lparr>sup := pin t (sup w)\<rparr>)"
  by (rule inv_same, assumption) (simp_all add: sup_invD)

lemma inv_unpin: "sup_inv env w \<Longrightarrow> sup_inv env (w\<lparr>sup := unpin t (sup w)\<rparr>)"
  unfolding unpin_def Let_def by (rule sup_inv_prune, rule inv_same, assumption) (simp_all add: sup_invD)

lemma inv_intent:
  assumes "sup_inv env w" and "i \<in> {Cancelled, Timeout}"
  shows "sup_inv env (w\<lparr>sup := set_intent t i (sup w)\<rparr>)"
proof (rule sup_inv_at [OF assms(1), where t = t])
  have kept: "explained env (rt\<lparr>rt_intent := Some (case rt_intent rt of None \<Rightarrow> i | Some j \<Rightarrow> j)\<rparr>) v"
    if "explained env rt v" for rt v
    using that by (fastforce simp: explained_def)
  show "task_ok env (w\<lparr>sup := set_intent t i (sup w)\<rparr>) t"
    using sup_invD(2) [OF assms(1), of t]
  proof (cases rule: task_cases)
    case (attended r rt)
    let ?rt = "rt\<lparr>rt_intent := Some (case rt_intent rt of None \<Rightarrow> i | Some j \<Rightarrow> j)\<rparr>"
    have "runtime_ok env t ?rt" if "runtime_ok env t rt"
      using that assms(2) by (cases "rt_intent rt") (simp_all add: runtime_ok_def)
    moreover have "record_fits env r ?rt" if "record_fits env r rt" for r
      using that kept [of rt] unfolding record_fits_def by fastforce
    ultimately show ?thesis using sup_invD(2) [OF assms(1), of t] attended kept
      by (cases "verdicts w t") (simp_all add: task_ok_flat run_of_set_intent)
  qed (use sup_invD(2) [OF assms(1), of t] in \<open>simp_all add: task_ok_flat run_of_set_intent\<close>)
qed (use sup_invD(1) [OF assms(1)] in \<open>simp_all add: run_of_set_intent\<close>)
lemma dict_ok_put_record: "dict_ok (records s) \<Longrightarrow> dict_ok (records (put_record t r s))"
  by (simp add: put_record_def)

lemma inv_receive:
  assumes "sup_inv env w" "valid_event (iso_of env) e" "good_now env now" "verdicts w t = None"
    and "accept_event env now t e (sup w) = (x, s')"
  shows "sup_inv env (w\<lparr>sup := s'\<rparr>)"
proof (cases "s' = sup w")
  case True
  then show ?thesis using assms(1) by simp
next
  case False
  with assms(5) obtain rt r where t: "rec_of (sup w) t = Some r" "run_of (sup w) t = Some rt"
      "\<not> is_terminal (rec_status r)" "ev_task_id e = t" "ev_attempt_id e = rec_attempt_id r"
      "valid_record (iso_of env) (heard e now r)"
    and s': "s' = (if ev_kind e \<in> {Result, Failure} then put_runtime t (rt\<lparr>rt_pending := Some e\<rparr>) else id)
        (put_record t (heard e now r) (sup w))"
    by (auto simp: accept_event_def evolve_event split: option.splits if_splits sum.splits)
  have "runtime_ok env t (rt\<lparr>rt_pending := Some e\<rparr>)" if "runtime_ok env t rt" "record_fits env r rt"
      "ev_kind e \<in> {Result, Failure}"
    using that t(4,5) assms(2) by (simp add: runtime_ok_def record_fits_def)
  moreover have "record_fits env (heard e now r) (rt\<lparr>rt_pending := p\<rparr>)" if "record_fits env r rt" for p
    using that t(3) by (simp add: record_fits_def)
  moreover have "record_fits env (heard e now r) rt" if "record_fits env r rt"
    using that t(3) by (simp add: record_fits_def)
  ultimately have "task_ok env (w\<lparr>sup := s'\<rparr>) t"
    using sup_invD(2) [OF assms(1), of t] t assms(4) by (simp add: s' task_ok_flat)
  then show ?thesis
    by (rule sup_inv_at [OF assms(1), rotated]) (auto simp: s' dict_ok_put_record sup_invD(1) [OF assms(1)])
qed

lemma finalize_in_cases:
  assumes "sup_inv env w" "good_now env now"
  shows "(finalize_in env now t (st, res, err) w = w
      \<and> (\<forall>r. rec_of (sup w) t = Some r \<longrightarrow> is_terminal (rec_status r))) \<or>
    (\<exists>r r'. rec_of (sup w) t = Some r \<and> \<not> is_terminal (rec_status r) \<and> valid_record (iso_of env) r'
      \<and> r' = r\<lparr>rec_status := st, rec_result := res, rec_error := redact_of env err, rec_confirmed := True,
            rec_updated_at := now\<rparr>
      \<and> finalize_in env now t (st, res, err) w = w\<lparr>sup := (put_record t r' (sup w))\<lparr>publications :=
          insert t (publications (sup w))\<rparr>, publishing := (publishing w)(t \<mapsto> r')\<rparr>)"
proof (cases "rec_of (sup w) t")
  case None
  then show ?thesis by (simp add: finalize_in_def finalize_begin_def)
next
  case (Some r)
  let ?r = "r\<lparr>rec_status := st, rec_result := res, rec_error := redact_of env err, rec_confirmed := True,
    rec_updated_at := now\<rparr>"
  have "valid_record (iso_of env) r"
    using sup_invD(2) [OF assms(1), of t] Some by (simp add: task_ok_def)
  then have "valid_record (iso_of env) ?r" by (rule changed_valid(2) [OF _ assms(2)])
  moreover have "evolve (iso_of env) now (final_changes st res (redact_of env err)) False r = Inr ?r"
    if "\<not> is_terminal (rec_status r)" using that calculation by (simp add: evolve_final)
  ultimately show ?thesis using Some
    by (cases "is_terminal (rec_status r)") (simp_all add: finalize_in_def finalize_begin_def)
qed

lemma explained_terminal:
  "runtime_ok env t rt \<Longrightarrow> explained env rt (st, res, err) \<Longrightarrow> is_terminal st"
  by (auto simp: explained_def runtime_ok_def pending_verdict_def split: if_splits)

lemma inv_finalize:
  assumes "sup_inv env w" "good_now env now" "run_of (sup w) t = Some rt" "t \<notin> alive w"
    and "explained env rt v"
  shows "sup_inv env (finalize_in env now t v w)"
proof -
  obtain st res err where v: "v = (st, res, err)" by (cases v)
  from finalize_in_cases [OF assms(1,2), of t st res err]
  show ?thesis
  proof (elim disjE exE conjE)
    fix r r' assume r: "rec_of (sup w) t = Some r" "\<not> is_terminal (rec_status r)" "valid_record (iso_of env) r'"
      and r': "r' = r\<lparr>rec_status := st, rec_result := res, rec_error := redact_of env err, rec_confirmed := True,
            rec_updated_at := now\<rparr>"
      and w': "finalize_in env now t (st, res, err) w = w\<lparr>sup := (put_record t r' (sup w))\<lparr>publications :=
          insert t (publications (sup w))\<rparr>, publishing := (publishing w)(t \<mapsto> r')\<rparr>" (is "_ = ?w'")
    note ok = sup_invD(2) [OF assms(1), of t, unfolded task_ok_attended [OF r(1) assms(3)]]
    have "is_terminal st" using explained_terminal ok assms(5) v by blast
    moreover have "record_fits env r' rt"
      using ok assms(5) by (auto simp: record_fits_def r' v)
    ultimately have "task_ok env ?w' t"
      using ok r assms(3,4) by (simp add: task_ok_flat r' none_or_def split: option.split)
    then have "sup_inv env ?w'"
      by (rule sup_inv_at [OF assms(1), rotated]) (simp_all add: dict_ok_put_record sup_invD(1) [OF assms(1)])
    then show ?thesis using w' v by simp
  qed (use assms(1) v in simp)
qed

lemma inv_verdicts:
  assumes "sup_inv env w" and "v \<noteq> None \<Longrightarrow> \<exists>rt. run_of (sup w) t = Some rt \<and> t \<notin> alive w \<and> explained env rt (the v)"
  shows "sup_inv env (w\<lparr>verdicts := (verdicts w)(t := v)\<rparr>)"
proof (rule sup_inv_at [OF assms(1), where t = t])
  show "task_ok env (w\<lparr>verdicts := (verdicts w)(t := v)\<rparr>) t"
    using sup_invD(2) [OF assms(1), of t]
  proof (cases rule: task_cases)
    case (attended r rt)
    then show ?thesis using sup_invD(2) [OF assms(1), of t] assms(2) by (cases v) (simp_all add: task_ok_flat)
  qed (use sup_invD(2) [OF assms(1), of t] assms(2) in \<open>cases v; simp add: task_ok_flat\<close>)+
qed (use sup_invD(1) [OF assms(1)] in simp_all)

lemma inv_unconfirmed:
  assumes "sup_inv env w" "good_now env now"
  shows "sup_inv env (w\<lparr>sup := update_nonterminal_error env now t err (sup w)\<rparr>)"
proof (cases "update_nonterminal_error env now t err (sup w) = sup w")
  case False
  then obtain r where r: "rec_of (sup w) t = Some r" "\<not> is_terminal (rec_status r)"
      "valid_record (iso_of env) (r\<lparr>rec_error := redact_of env err, rec_updated_at := now\<rparr>)"
      "update_nonterminal_error env now t err (sup w)
         = put_record t (r\<lparr>rec_error := redact_of env err, rec_updated_at := now\<rparr>) (sup w)"
    by (auto simp: update_nonterminal_error_def evolve_error split: option.splits if_splits sum.splits)
  have "record_fits env (r\<lparr>rec_error := e, rec_updated_at := now\<rparr>) rt" if "record_fits env r rt" for rt e
    using that r(2) by (simp add: record_fits_def)
  then have "task_ok env (w\<lparr>sup := update_nonterminal_error env now t err (sup w)\<rparr>) t"
    using sup_invD(2) [OF assms(1), of t] r
    by (cases "run_of (sup w) t") (simp_all add: task_ok_flat)
  then show ?thesis
    by (rule sup_inv_at [OF assms(1), rotated]) (simp_all add: r(4) dict_ok_put_record sup_invD(1) [OF assms(1)])
qed (use assms(1) in simp)
lemma exit_verdict_explained: "exit_verdict env code t rt s = Some v \<Longrightarrow> explained env rt v"
  by (auto simp: exit_verdict_def explained_def split: if_splits option.splits)

lemma exit_verdict_open:
  "rec_of s t = Some r \<Longrightarrow> \<not> is_terminal (rec_status r) \<Longrightarrow> \<exists>v. exit_verdict env code t rt s = Some v"
  by (cases "rt_pending rt") (simp_all add: exit_verdict_def pending_verdict_def)

lemma inv_published:
  assumes "sup_inv env w"
  shows "sup_inv env (w\<lparr>sup := finalize_end t (sup w), publishing := (publishing w)(t := None)\<rparr>)"
proof -
  let ?w = "w\<lparr>publishing := (publishing w)(t := None), sup := (sup w)\<lparr>publications := publications (sup w) - {t}\<rparr>\<rparr>"
  have "task_ok env ?w t"
    using sup_invD(2) [OF assms, of t]
    by (cases rule: task_cases) (use sup_invD(2) [OF assms, of t] in \<open>simp_all add: task_ok_flat\<close>)
  then have "sup_inv env ?w"
    by (rule sup_inv_at [OF assms, rotated]) (use sup_invD(1) [OF assms] in auto)
  then have "sup_inv env ((w\<lparr>publishing := (publishing w)(t := None)\<rparr>)\<lparr>sup :=
      prune_records ((sup w)\<lparr>publications := publications (sup w) - {t}\<rparr>)\<rparr>)"
    by (intro sup_inv_prune) simp
  then show ?thesis by (cases w) (simp add: finalize_end_def)
qed

lemma inv_cleanup:
  assumes "sup_inv env w" and "monitor_look (sup w) t (t \<in> alive w) clock = MonitorReturn"
  shows "sup_inv env (drop_task t w)"
  using sup_invD(2) [OF assms(1), of t]
proof (cases rule: task_cases)
  case (attended r rt)
  then have "is_terminal (rec_status r)"
    using assms(2) by (auto simp: monitor_look_def split: if_splits)
  note ok = sup_invD(2) [OF assms(1), of t, unfolded task_ok_attended [OF attended]] this
  let ?w = "w\<lparr>verdicts := (verdicts w)(t := None), sup := (sup w)\<lparr>runtimes := AList.delete t (runtimes (sup w))\<rparr>\<rparr>"
  have "task_ok env ?w t" using ok attended by (simp add: task_ok_flat)
  then have "sup_inv env ?w"
    by (rule sup_inv_at [OF assms(1), rotated]) (use sup_invD(1) [OF assms(1)] in auto)
  then have "sup_inv env ((w\<lparr>verdicts := (verdicts w)(t := None)\<rparr>)\<lparr>sup :=
      prune_records ((sup w)\<lparr>runtimes := AList.delete t (runtimes (sup w))\<rparr>)\<rparr>)"
    by (intro sup_inv_prune) simp
  then show ?thesis using ok attended by (cases w) (simp add: drop_task_def cleanup_runtime_def)
qed (use inv_verdicts [OF assms(1), of None t] assms(1) in \<open>simp_all add: drop_task_def cleanup_runtime_def\<close>)

lemma recovered_facts:
  assumes "recovered_record env now r = Inr (r', publish)" "valid_record (iso_of env) r"
  shows "valid_record (iso_of env) r' \<and> rec_task_id r' = rec_task_id r \<and> is_terminal (rec_status r')
    \<and> rec_confirmed r' \<and> (publish \<longleftrightarrow> \<not> (is_terminal (rec_status r) \<and> rec_confirmed r))"
proof -
  have "replace_confirmed (raw_of r) = raw_of (r\<lparr>rec_status := Failed,
      rec_error := u ''Worker process died before confirmation'', rec_confirmed := True\<rparr>)"
    by (simp add: replace_confirmed_def raw_of_def)
  then show ?thesis using assms
    by (auto simp: recovered_record_def WorkerTaskRecord_Inr raw_of_inject evolve_crash result_simps
        split: if_splits)
qed

lemma inv_recover_one:
  assumes "sup_inv env w" "rec_of (sup w) (rec_task_id r) = None" "valid_record (iso_of env) r"
    "is_terminal (rec_status r)" "rec_confirmed r"
  shows "sup_inv env (w\<lparr>sup := recover_one r publish (sup w)\<rparr>)"
proof -
  let ?t = "rec_task_id r"
  let ?s = "if publish then (put_record ?t r (sup w))\<lparr>publications := insert ?t (publications (sup w))\<rparr>
     else put_record ?t r (sup w)"
  note idle = sup_invD(2) [OF assms(1), of ?t, unfolded task_ok_unknown [OF assms(2)]]
  have "task_ok env (w\<lparr>sup := ?s\<rparr>) ?t" using idle assms(3-5) by (simp add: task_ok_settled)
  then have inv: "sup_inv env (w\<lparr>sup := ?s\<rparr>)"
    by (rule sup_inv_at [OF assms(1), rotated]) (auto simp: dict_ok_put_record sup_invD(1) [OF assms(1)])
  have "recover_one r publish (sup w) = (if max_records ?s < length (records ?s) then prune_records ?s else ?s)"
    unfolding recover_one_def Let_def by simp
  then show ?thesis using inv sup_inv_prune [OF inv] by (simp split: if_split)
qed

lemma inv_recover:
  assumes "sup_inv env (w\<lparr>sup := s\<rparr>)" "\<forall>r\<in>set rs. valid_record (iso_of env) r"
    and "recover_orphans env now rs s = (x, s')"
  shows "sup_inv env (w\<lparr>sup := s'\<rparr>)"
  using assms
proof (induction rs arbitrary: s x)
  case (Cons r rs)
  show ?case
  proof (cases "rec_of s (rec_task_id r) = None")
    case False
    then show ?thesis using Cons.IH [OF Cons.prems(1)] Cons.prems(2,3) by auto
  next
    case True
    show ?thesis
    proof (cases "recovered_record env now r")
      case (Inl e)
      then show ?thesis using True Cons.prems(1,3) by simp
    next
      case (Inr y)
      obtain r' publish where y: "y = (r', publish)" by (cases y)
      note facts = recovered_facts [OF Inr [unfolded y]]
      obtain x' where rest: "recover_orphans env now rs (recover_one r' publish s) = (x', s')"
        using Cons.prems(3) True Inr y by (auto split: prod.splits)
      have "sup_inv env (w\<lparr>sup := recover_one r' publish s\<rparr>)"
        using inv_recover_one [OF Cons.prems(1), of r' publish] facts Cons.prems(2) True by simp
      then show ?thesis using Cons.IH [OF _ _ rest] Cons.prems(2) by simp
    qed
  qed
qed simp

lemma inv_wait: "sup_inv env w \<Longrightarrow> wait_begin t (sup w) = (x, s') \<Longrightarrow> sup_inv env (w\<lparr>sup := s'\<rparr>)"
  using inv_pin [of env w t] by (auto simp: wait_begin_def split: option.splits)

lemma inv_cancel:
  assumes "sup_inv env w" "cancel_begin t (sup w) = (x, s')"
  shows "sup_inv env (w\<lparr>sup := s'\<rparr>)"
  using assms(2) inv_pin [OF assms(1), of t] inv_intent [OF inv_pin [OF assms(1), of t], of Cancelled t] assms(1)
  by (auto simp: cancel_begin_def Let_def split: option.splits if_splits)

lemma inv_shutdown: "sup_inv env w \<Longrightarrow> shutdown_begin (sup w) = (ts, s') \<Longrightarrow> sup_inv env (w\<lparr>sup := s'\<rparr>)"
  by (rule inv_same, assumption) (auto simp: shutdown_begin_def sup_invD split: if_splits)

lemma inv_visit: "sup_inv env w \<Longrightarrow> shutdown_visit t (sup w) = (b, s') \<Longrightarrow> sup_inv env (w\<lparr>sup := s'\<rparr>)"
  using inv_intent [of env w Cancelled t] by (auto simp: shutdown_visit_def split: option.splits)

theorem sup_step_inv: "sup_step env w l w' \<Longrightarrow> sup_inv env w \<Longrightarrow> sup_inv env w'"
proof (induction rule: sup_step.induct)
  case (step_expire w t b clock)
  then show ?case by (intro inv_intent) simp_all
next
  case (step_settle w t rt i now)
  then show ?case by (intro inv_finalize) (auto simp: explained_def)
next
  case (step_decide w t rt code v)
  then show ?case using inv_verdicts [of env w "Some v" t] exit_verdict_explained by simp
next
  case (step_verdict w t v now)
  obtain rt where rt: "run_of (sup w) t = Some rt" "t \<notin> alive w" "explained env rt v"
    using sup_invD(2) [OF step_verdict.prems, of t] step_verdict.hyps(1)
    by (auto simp: task_ok_def split: option.splits)
  have "sup_inv env (finalize_in env now t v w)"
    by (rule inv_finalize [OF step_verdict.prems step_verdict.hyps(2) rt])
  moreover have "verdicts (finalize_in env now t v w) = verdicts w"
    by (simp add: finalize_in_def split: prod.split final_step.split)
  ultimately show ?case using inv_verdicts [of env "finalize_in env now t v w" None t] by simp
next
  case (step_refused q now pid clock w e s')
  show ?case by (rule inv_refused [OF step_refused.prems step_refused.hyps(2) _ step_refused.hyps(4)])
      (rule step_refused.hyps(3))
next
  case (step_recover rs now w x s')
  show ?case by (rule inv_recover [OF _ step_recover.hyps(2,4)]) (simp add: step_recover.prems)
qed (simp_all add: inv_submit inv_exit inv_wait inv_unpin inv_cancel inv_receive inv_unconfirmed
    inv_published inv_cleanup inv_shutdown inv_visit)
interpretation supervision: labelled_system "sup_step env" "sup_inv env" for env
  by unfold_locales (rule sup_step_inv)

section \<open>What becomes of a record\<close>

definition free :: "supervisor \<Rightarrow> pystr \<Rightarrow> bool" where
  "free s t \<longleftrightarrow> run_of s t = None \<and> map_of (waiters s) t = None \<and> t \<notin> publications s"

text \<open>
  From one state to the next a record appears only as a started or a recovered task, keeps its role and attempt, does not change once it is terminal, and disappears only when
  nobody needs it.
\<close>

definition keeps :: "label \<Rightarrow> task_record option \<Rightarrow> task_record option \<Rightarrow> bool \<Rightarrow> bool" where
  "keeps l x x' unneeded \<longleftrightarrow> (case x of
       None \<Rightarrow> none_or (\<lambda>r. l = Started_task r \<or> l = Recovered \<and> is_terminal (rec_status r)) x'
     | Some r \<Rightarrow> (case x' of
         None \<Rightarrow> unneeded \<and> is_terminal (rec_status r)
       | Some r' \<Rightarrow> rec_role_name r' = rec_role_name r \<and> rec_attempt_id r' = rec_attempt_id r
           \<and> (is_terminal (rec_status r) \<longrightarrow> r' = r)))"

lemma keeps_same [simp]: "keeps l x x b"
  by (auto simp: keeps_def split: option.split)

lemma keeps_prune:
  assumes "dict_ok (records s)" and "rec_of s t = x \<or> (\<exists>r. x = Some r \<and> rec_of s t = Some r)"
  shows "keeps l x (rec_of (prune_records s) t) (free s t)"
  using prune_lookup [OF assms(1), of t] assms(2)
  by (auto simp: keeps_def removable_mem free_def split: option.split)

lemma keeps_changed:
  "\<lbrakk>x = Some r; \<not> is_terminal (rec_status r); rec_role_name r' = rec_role_name r;
    rec_attempt_id r' = rec_attempt_id r\<rbrakk> \<Longrightarrow> keeps l x (Some r') b"
  by (simp add: keeps_def)

lemma recovered_terminal:
  assumes "recover_orphans env now rs s = (x, s')" "\<forall>r\<in>set rs. valid_record (iso_of env) r" "dict_ok (records s)"
    and "\<forall>t r. rec_of s t = Some r \<longrightarrow> is_terminal (rec_status r) \<and> rec_confirmed r"
  shows "\<forall>t r. rec_of s' t = Some r \<longrightarrow> is_terminal (rec_status r) \<and> rec_confirmed r"
  using assms
proof (induction rs arbitrary: s x)
  case (Cons r rs)
  show ?case
  proof (cases "rec_of s (rec_task_id r) \<noteq> None \<or> (\<exists>e. recovered_record env now r = Inl e)")
    case True
    then have "s' = s \<or> (\<exists>x. recover_orphans env now rs s = (x, s'))"
      using Cons.prems(1) by (auto split: if_splits)
    then show ?thesis using Cons.IH Cons.prems(2-4) by (metis list.set_intros(2))
  next
    case False
    then obtain r' publish where r': "recovered_record env now r = Inr (r', publish)"
      by (cases "recovered_record env now r") auto
    then obtain x' where rest: "recover_orphans env now rs (recover_one r' publish s) = (x', s')"
      using Cons.prems(1) False by (auto split: prod.splits)
    let ?s = "if publish then (put_record (rec_task_id r') r' s)\<lparr>publications := insert (rec_task_id r') (publications s)\<rparr>
      else put_record (rec_task_id r') r' s"
    have one: "recover_one r' publish s = (if max_records ?s < length (records ?s) then prune_records ?s else ?s)"
      by (simp add: recover_one_def Let_def)
    have ok: "dict_ok (records ?s)" using Cons.prems(3) by (simp add: dict_ok_put_record)
    have "is_terminal (rec_status a) \<and> rec_confirmed a" if "rec_of ?s t = Some a" for t a
      using that Cons.prems(2,4) recovered_facts [OF r'] by (auto split: if_splits)
    then have "is_terminal (rec_status a) \<and> rec_confirmed a" if "rec_of (recover_one r' publish s) t = Some a" for t a
      using that prune_lookup [OF ok, of t] unfolding one by (auto split: if_splits)
    moreover have "dict_ok (records (recover_one r' publish s))"
      unfolding one using ok prune_dict_ok [OF ok] by presburger
    moreover have "\<forall>r\<in>set rs. valid_record (iso_of env) r" using Cons.prems(2) by simp
    ultimately show ?thesis using Cons.IH [OF rest] by blast
  qed
qed simp

lemma step_keeps:
  assumes "sup_step env w l w'" and "sup_inv env w"
  shows "keeps l (rec_of (sup w) t) (rec_of (sup w') t) (free (sup w') t)"
  using assms
proof (induction rule: sup_step.induct)
  case (step_submit q now p clock w r s')
  show ?case
    by (rule submit_Inr [OF step_submit.hyps(4,2,3)]) (simp add: keeps_def split: option.split)
next
  case (step_refused q now pid clock w e s')
  have "s' = sup w \<or> (rec_of (sup w) (req_task_id q) = None \<and> (\<exists>r. s' = (sup w)\<lparr>records :=
      AList.delete (req_task_id q) (AList.update (req_task_id q) r (records (sup w)))\<rparr>))"
    by (rule submit_Inl [OF step_refused.hyps(4,2)]) (rule step_refused.hyps(3))
  then show ?case by auto
next
  case (step_leave w t')
  let ?s = "(sup w)\<lparr>waiters := waiters (unpin t' (sup w))\<rparr>"
  note unpin_prune [of t' "sup w"]
  moreover have "keeps Internal (rec_of (sup w) t) (rec_of (prune_records ?s) t) (free ?s t)"
    by (rule keeps_prune) (simp_all add: sup_invD [OF step_leave.prems])
  ultimately show ?case by (simp add: free_def)
next
  case (step_receive e now w t' x s')
  then show ?case
    by (auto simp: accept_event_def evolve_event intro!: keeps_changed split: option.splits if_splits sum.splits)
next
  case (step_settle w t' rt i now)
  show ?case using finalize_in_cases [OF step_settle.prems step_settle.hyps(4), of t' i PNone "intent_error i (rt_request rt)"]
    by (auto intro!: keeps_changed)
next
  case (step_unconfirmed w t' rt i now)
  then show ?case
    by (auto simp: update_nonterminal_error_def evolve_error intro!: keeps_changed split: option.splits sum.splits)
next
  case (step_verdict w t' v now)
  obtain st res err where v: "v = (st, res, err)" by (cases v)
  show ?case using finalize_in_cases [OF step_verdict.prems step_verdict.hyps(2), of t' st res err]
    by (auto simp: v intro!: keeps_changed)
next
  case (step_published w t' r)
  let ?s = "(sup w)\<lparr>publications := publications (sup w) - {t'}\<rparr>"
  have "keeps Internal (rec_of (sup w) t) (rec_of (prune_records ?s) t) (free ?s t)"
    by (rule keeps_prune) (simp_all add: sup_invD [OF step_published.prems])
  then show ?case by (simp add: finalize_end_def free_def)
next
  case (step_cleanup w t' clock)
  let ?s = "(sup w)\<lparr>runtimes := AList.delete t' (runtimes (sup w))\<rparr>"
  have "keeps Internal (rec_of (sup w) t) (rec_of (prune_records ?s) t) (free ?s t)"
    by (rule keeps_prune) (simp_all add: sup_invD [OF step_cleanup.prems])
  then show ?case by (simp add: drop_task_def cleanup_runtime_def free_def split: option.split)
next
  case (step_recover w rs now x s')
  then have "\<forall>t r. rec_of s' t = Some r \<longrightarrow> is_terminal (rec_status r) \<and> rec_confirmed r"
    by (intro recovered_terminal [OF step_recover.hyps(4,2)]) simp_all
  then show ?case using step_recover.hyps(1) by (cases "rec_of s' t") (simp_all add: keeps_def)
qed (auto simp: wait_begin_def cancel_begin_def Let_def shutdown_begin_def shutdown_visit_def
    split: option.splits if_splits)
section \<open>Bounded storage\<close>

definition idle_tasks :: "supervisor \<Rightarrow> pystr set" where
  "idle_tasks s = {t. \<exists>r. rec_of s t = Some r \<and> removable s (t, r)}"

lemma idle_iff: "t \<in> idle_tasks s \<longleftrightarrow> (\<exists>r. rec_of s t = Some r \<and> is_terminal (rec_status r)) \<and> free s t"
  by (auto simp: idle_tasks_def removable_mem free_def)

lemma idle_known: "idle_tasks s \<subseteq> fst ` set (records s)"
  by (auto simp: idle_tasks_def dest!: map_of_SomeD intro: rev_image_eqI)

lemma finite_idle: "finite (idle_tasks s)"
  using idle_known by (rule finite_subset) simp

lemma idle_few: "length (records s) \<le> m \<Longrightarrow> card (idle_tasks s) \<le> m"
  using card_mono [OF _ idle_known, of s] card_image_le [of "set (records s)" fst] card_length [of "records s"]
  by fastforce

lemma prune_idle: "card (idle_tasks (prune_records s)) \<le> max_records s"
proof (cases "max_records s < length (records (prune_records s))")
  case True
  then have "idle_tasks (prune_records s) = {}"
    using prune_bound [OF True] by (fastforce simp: idle_tasks_def dest: map_of_SomeD)
  then show ?thesis by simp
qed (simp add: idle_few)

lemma idle_shrinks:
  "card (idle_tasks s) \<le> m \<Longrightarrow> idle_tasks s' \<subseteq> idle_tasks s \<Longrightarrow> card (idle_tasks s') \<le> m"
  using card_mono [OF finite_idle] order_trans by blast

lemma recover_one_idle:
  "card (idle_tasks s) \<le> max_records s \<Longrightarrow> card (idle_tasks (recover_one r p s)) \<le> max_records (recover_one r p s)
     \<and> max_records (recover_one r p s) = max_records s"
  using prune_idle by (simp add: recover_one_def Let_def idle_few)

lemma recover_idle:
  "recover_orphans env now rs s = (x, s') \<Longrightarrow> card (idle_tasks s) \<le> max_records s \<Longrightarrow>
     card (idle_tasks s') \<le> max_records s' \<and> max_records s' = max_records s"
proof (induction rs arbitrary: s x)
  case (Cons r rs)
  show ?case
  proof (cases "rec_of s (rec_task_id r) \<noteq> None \<or> (\<exists>e. recovered_record env now r = Inl e)")
    case True
    then have "s' = s \<or> (\<exists>x. recover_orphans env now rs s = (x, s'))"
      using Cons.prems(1) by (auto split: if_splits)
    then show ?thesis using Cons.IH Cons.prems(2) by metis
  next
    case False
    then obtain r' publish where r': "recovered_record env now r = Inr (r', publish)"
      by (cases "recovered_record env now r") auto
    then obtain x' where "recover_orphans env now rs (recover_one r' publish s) = (x', s')"
      using Cons.prems(1) False by (auto split: prod.splits)
    then show ?thesis using Cons.IH recover_one_idle [OF Cons.prems(2)] by metis
  qed
qed simp

lemma step_bound:
  assumes "sup_step env w l w'" and "sup_inv env w" and "card (idle_tasks (sup w)) \<le> max_records (sup w)"
  shows "card (idle_tasks (sup w')) \<le> max_records (sup w') \<and> max_records (sup w') = max_records (sup w)"
  using assms
proof (induction rule: sup_step.induct)
  case (step_submit q now p clock w r s')
  show ?case
    by (rule submit_Inr [OF step_submit.hyps(4,2,3)])
       (auto simp: idle_iff free_def split: if_splits intro!: idle_shrinks [OF step_submit.prems(2)])
next
  case (step_refused q now pid clock w e s')
  have "s' = sup w \<or> (rec_of (sup w) (req_task_id q) = None \<and> (\<exists>r. s' = (sup w)\<lparr>records :=
      AList.delete (req_task_id q) (AList.update (req_task_id q) r (records (sup w)))\<rparr>))"
    by (rule submit_Inl [OF step_refused.hyps(4,2)]) (rule step_refused.hyps(3))
  then show ?case using step_refused.prems(2)
    by (auto simp: idle_iff free_def split: if_splits intro!: idle_shrinks [OF step_refused.prems(2)])
next
  case (step_leave w t)
  then show ?case
    using prune_idle [of "(sup w)\<lparr>waiters := waiters (unpin t (sup w))\<rparr>"] unpin_prune [of t "sup w"] by simp
next
  case (step_receive e now w t x s')
  then show ?case
    by (auto simp: accept_event_def evolve_event idle_iff free_def split: option.splits if_splits sum.splits
        intro!: idle_shrinks [OF step_receive.prems(2)])
next
  case (step_settle w t rt i now)
  show ?case using finalize_in_cases [OF step_settle.prems(1) step_settle.hyps(4), of t i PNone "intent_error i (rt_request rt)"]
    step_settle.prems(2)
    by (auto simp: idle_iff free_def split: if_splits intro!: idle_shrinks [OF step_settle.prems(2)])
next
  case (step_unconfirmed w t rt i now)
  then show ?case
    by (auto simp: update_nonterminal_error_def evolve_error idle_iff free_def split: option.splits sum.splits if_splits
        intro!: idle_shrinks [OF step_unconfirmed.prems(2)])
next
  case (step_verdict w t v now)
  obtain st res err where v: "v = (st, res, err)" by (cases v)
  show ?case using finalize_in_cases [OF step_verdict.prems(1) step_verdict.hyps(2), of t st res err]
    step_verdict.prems(2)
    by (auto simp: v idle_iff free_def split: if_splits intro!: idle_shrinks [OF step_verdict.prems(2)])
next
  case (step_published w t r)
  then show ?case using prune_idle [of "(sup w)\<lparr>publications := publications (sup w) - {t}\<rparr>"]
    by (simp add: finalize_end_def)
next
  case (step_cleanup w t clock)
  then show ?case using prune_idle [of "(sup w)\<lparr>runtimes := AList.delete t (runtimes (sup w))\<rparr>"]
    by (simp add: drop_task_def cleanup_runtime_def split: option.split)
next
  case (step_recover w rs now x s')
  then show ?case by (auto dest: recover_idle)
qed (auto simp: wait_begin_def cancel_begin_def Let_def shutdown_begin_def shutdown_visit_def idle_iff free_def
      run_of_set_intent split: option.splits if_splits elim!: idle_shrinks)

interpretation bounded_store: labelled_system "sup_step env"
    "\<lambda>w. sup_inv env w \<and> card (idle_tasks (sup w)) \<le> max_records (sup w)" for env
  by unfold_locales (use sup_step_inv step_bound in blast)
section \<open>Properties\<close>

text \<open>The states of a supervisor from its construction on.\<close>

definition supervised :: "sup_env \<Rightarrow> world \<Rightarrow> bool" where
  "supervised env w \<longleftrightarrow> (\<exists>m h g n s ls. RoleWorkerSupervisor m h g n = Inr s \<and>
     lrun (sup_step env) (start_world s) ls w)"

lemma new_supervisor:
  "RoleWorkerSupervisor m h g n = Inr s \<Longrightarrow> records s = [] \<and> runtimes s = [] \<and> waiters s = []
     \<and> publications s = {} \<and> \<not> closed s \<and> 1 \<le> max_records s \<and> 0 < grace s"
  by (auto simp: RoleWorkerSupervisor_def split: option.splits if_splits)

lemma start_inv: "RoleWorkerSupervisor m h g n = Inr s \<Longrightarrow> sup_inv env (start_world s)
    \<and> card (idle_tasks (sup (start_world s))) \<le> max_records (sup (start_world s))"
  by (drule new_supervisor) (auto simp: sup_inv_def start_world_def task_ok_unknown idle_few)

lemma supervised_inv: "supervised env w \<Longrightarrow> sup_inv env w \<and> card (idle_tasks (sup w)) \<le> max_records (sup w)"
  unfolding supervised_def using bounded_store.run_inv start_inv by blast

lemma supervised_step: "supervised env w \<Longrightarrow> sup_step env w l w' \<Longrightarrow> supervised env w'"
  unfolding supervised_def by (blast intro: lrun_append lrun.intros)

text \<open>
  C26: the record of a task tells the truth about its process. Whatever the callers, cancellers,
  monitors and the operating system do in whatever order, a live process belongs to a task that
  is recorded as unfinished and has a monitor; a task recorded as finished has no process any
  more and says so; and an unfinished task always has a monitor to finish it.
\<close>

theorem record_tells_truth:
  assumes "supervised env w"
  shows "(\<forall>t\<in>alive w. \<exists>r. rec_of (sup w) t = Some r \<and> \<not> is_terminal (rec_status r) \<and> run_of (sup w) t \<noteq> None) \<and>
    (\<forall>t r. rec_of (sup w) t = Some r \<longrightarrow> valid_record (iso_of env) r \<and> rec_task_id r = t \<and>
      (if is_terminal (rec_status r) then t \<notin> alive w \<and> rec_confirmed r else run_of (sup w) t \<noteq> None))"
proof -
  have ok: "task_ok env w t" for t using supervised_inv [OF assms] by (simp add: sup_invD)
  have "\<exists>r. rec_of (sup w) t = Some r \<and> \<not> is_terminal (rec_status r) \<and> run_of (sup w) t \<noteq> None"
    if "t \<in> alive w" for t
    using ok [of t] by (cases rule: task_cases) (use ok [of t] that in \<open>simp_all add: task_ok_flat\<close>)
  moreover have "valid_record (iso_of env) r \<and> rec_task_id r = t \<and>
      (if is_terminal (rec_status r) then t \<notin> alive w \<and> rec_confirmed r else run_of (sup w) t \<noteq> None)"
    if "rec_of (sup w) t = Some r" for t r
    using ok [of t] that by (simp add: task_ok_def split: if_splits)
  ultimately show ?thesis by blast
qed

text \<open>
  The store is bounded. At any time it holds at most \<open>max_records\<close> records beyond those
  that are still needed: running, waited for, or being published.
\<close>

theorem records_bounded:
  assumes "supervised env w"
  shows "length (records (sup w)) \<le> max_records (sup w) + card {t \<in> fst ` set (records (sup w)). \<not> free (sup w) t}"
proof -
  note inv = supervised_inv [OF assms]
  let ?keys = "fst ` set (records (sup w))"
  have "length (records (sup w)) = card ?keys"
    using sup_invD(1) [OF inv [THEN conjunct1]] by (metis dict_ok_def distinct_card image_set length_map)
  moreover have "?keys \<subseteq> idle_tasks (sup w) \<union> {t \<in> ?keys. \<not> free (sup w) t}"
  proof
    fix t assume key: "t \<in> ?keys"
    then obtain r where r: "rec_of (sup w) t = Some r" by (metis map_of_eq_None_iff not_Some_eq)
    then have "is_terminal (rec_status r) \<or> run_of (sup w) t \<noteq> None"
      using record_tells_truth [OF assms] by meson
    then show "t \<in> idle_tasks (sup w) \<union> {t \<in> ?keys. \<not> free (sup w) t}"
      using key r by (auto simp: idle_iff free_def)
  qed
  then have "card ?keys \<le> card (idle_tasks (sup w) \<union> {t \<in> ?keys. \<not> free (sup w) t})"
    by (rule card_mono [rotated]) (simp add: finite_idle)
  ultimately show ?thesis
    using inv card_Un_le [of "idle_tasks (sup w)" "{t \<in> ?keys. \<not> free (sup w) t}"] by linarith
qed


text \<open>What the monitor receives leaves the task unfinished and its request and intent alone.\<close>

lemma accept_event_task:
  assumes "rec_of s t = Some r" and "\<not> is_terminal (rec_status r)" and "run_of s t = Some rt"
  shows "\<exists>r' rt'. rec_of (snd (accept_event env now t e s)) t = Some r' \<and> \<not> is_terminal (rec_status r')
    \<and> run_of (snd (accept_event env now t e s)) t = Some rt' \<and> rt_intent rt' = rt_intent rt \<and> rt_request rt' = rt_request rt"
  using assms by (auto simp: accept_event_def evolve_event split: sum.split)

lemma receive_events_run:
  assumes "\<forall>e\<in>set es. valid_event (iso_of env) e" and "good_now env now" and "verdicts w t = None"
    and "rec_of (sup w) t = Some r" and "\<not> is_terminal (rec_status r)" and "run_of (sup w) t = Some rt"
  shows "\<exists>ls r' rt'. lrun (sup_step env) w ls (receive_events env now t es w)
    \<and> rec_of (sup (receive_events env now t es w)) t = Some r' \<and> \<not> is_terminal (rec_status r')
    \<and> run_of (sup (receive_events env now t es w)) t = Some rt' \<and> rt_intent rt' = rt_intent rt"
  using assms
proof (induction es arbitrary: w r rt)
  case Nil
  have "receive_events env now t [] w = w" by (simp add: receive_events_def)
  moreover have "lrun (sup_step env) w [] w" by (rule lrun_Nil)
  ultimately show ?case using Nil.prems by metis
next
  case (Cons e es)
  let ?w = "w\<lparr>sup := snd (accept_event env now t e (sup w))\<rparr>"
  have step: "sup_step env w Internal ?w"
    using step_receive [OF _ Cons.prems(2,3) prod.collapse [symmetric]] Cons.prems(1) by simp
  obtain r1 rt1 where task: "rec_of (sup ?w) t = Some r1" "\<not> is_terminal (rec_status r1)" "run_of (sup ?w) t = Some rt1"
    "rt_intent rt1 = rt_intent rt"
    using accept_event_task [OF Cons.prems(4-6)] by (metis select_convs(1) surjective update_convs(1))
  have eq: "receive_events env now t (e # es) w = receive_events env now t es ?w" by (simp add: receive_events_def)
  have "\<forall>e\<in>set es. valid_event (iso_of env) e" "verdicts ?w t = None" using Cons.prems(1,3) by simp_all
  from Cons.IH [OF this(1) Cons.prems(2) this(2) task(1-3)] task(4) obtain ls r' rt' where
    "lrun (sup_step env) ?w ls (receive_events env now t es ?w)"
    "rec_of (sup (receive_events env now t es ?w)) t = Some r'" "\<not> is_terminal (rec_status r')"
    "run_of (sup (receive_events env now t es ?w)) t = Some rt'" "rt_intent rt' = rt_intent rt" by auto
  moreover from lrun_Cons [OF step calculation(1)] have "lrun (sup_step env) w (Internal # ls) (receive_events env now t es ?w)" .
  ultimately show ?case unfolding eq by blast
qed

lemma receive_events_fields [simp]:
  "alive (receive_events env now t es w) = alive w" "verdicts (receive_events env now t es w) = verdicts w"
  by (simp_all add: receive_events_def)

text \<open>A verdict that is explained, passed to \<open>_finalize\<close> for an unfinished task, ends it and the loop of its monitor.\<close>

definition task_settled :: "pystr \<Rightarrow> rat \<Rightarrow> world \<Rightarrow> bool" where
  "task_settled t clock w \<longleftrightarrow> (\<exists>r. rec_of (sup w) t = Some r \<and> is_terminal (rec_status r) \<and> rec_confirmed r)
     \<and> monitor_look (sup w) t False clock = MonitorReturn"

lemma finalize_settles:
  assumes "sup_inv env w" and "good_now env now" and "rec_of (sup w) t = Some r" and "\<not> is_terminal (rec_status r)"
    and "run_of (sup w) t = Some rt" and "explained env rt v"
  shows "task_settled t clock (finalize_in env now t v w)"
proof -
  obtain st res err where v: "v = (st, res, err)" by (cases v)
  have "runtime_ok env t rt" using sup_invD(2) [OF assms(1), of t] task_ok_attended [OF assms(3,5)] by blast
  then have "is_terminal st" using explained_terminal assms(6) v by blast
  then show ?thesis
    using finalize_in_cases [OF assms(1,2), of t st res err] v assms(3-5) by (auto simp: task_settled_def monitor_look_def)
qed

lemma turn_by_verdict:
  assumes "sup_inv env w" and "good_now env now" and "verdicts w t = Some v"
    and "rec_of (sup w) t = Some r" and "\<not> is_terminal (rec_status r)" and "run_of (sup w) t = Some rt"
  shows "sup_step env w Internal (monitor_turn env now code clock stopped es t w)
    \<and> task_settled t clock' (monitor_turn env now code clock stopped es t w)"
proof -
  have "explained env rt v"
    using sup_invD(2) [OF assms(1), of t] task_ok_attended [OF assms(4,6)] assms(3) by simp
  with finalize_settles [OF assms(1,2,4-6)] have "task_settled t clock' (finalize_in env now t v w)" by blast
  then have "task_settled t clock' ((finalize_in env now t v w)\<lparr>verdicts := (verdicts w)(t := None)\<rparr>)"
    by (simp add: task_settled_def)
  with step_verdict [OF assms(3,2)] show ?thesis by (simp add: monitor_turn_def assms(3))
qed

text \<open>The turn of a monitor that finds an intent, at any point after it looked.\<close>

lemma intent_settles:
  assumes "sup_inv env w" and "good_now env now" and "rec_of (sup w) t = Some r" and "\<not> is_terminal (rec_status r)"
    and "run_of (sup w) t = Some rt" and "rt_intent rt = Some i" and "t \<notin> alive w"
  shows "sup_step env w Internal (settle_intent env now t i w) \<and> task_settled t clock (settle_intent env now t i w)"
proof -
  have "explained env rt (i, PNone, intent_error i (rt_request rt))" using assms(6) by (simp add: explained_def)
  from finalize_settles [OF assms(1-5) this] step_settle [OF assms(5,6,7,2)] assms(5) show ?thesis
    by (simp add: settle_intent_def)
qed

lemma exit_settles:
  assumes "sup_inv env w" and "good_now env now" and "rec_of (sup w) t = Some r" and "\<not> is_terminal (rec_status r)"
    and "run_of (sup w) t = Some rt" and "t \<notin> alive w" and "verdicts w t = None"
  shows "lrun (sup_step env) w [Internal, Internal] (settle_exit env now code t w) \<and> task_settled t clock (settle_exit env now code t w)"
proof -
  obtain v where v: "exit_verdict env code t rt (sup w) = Some v" using exit_verdict_open [OF assms(3,4)] by blast
  let ?w = "w\<lparr>verdicts := (verdicts w)(t \<mapsto> v)\<rparr>"
  obtain st res err where v': "v = (st, res, err)" by (cases v)
  have "(finalize_in env now t v ?w)\<lparr>verdicts := (verdicts ?w)(t := None)\<rparr> = finalize_in env now t v w"
    using assms(7) by (cases w) (auto simp: finalize_in_def v' fun_upd_idem split: prod.split final_step.split)
  then have second: "sup_step env ?w Internal (finalize_in env now t v w)"
    using step_verdict [of ?w t v env now] assms(2) by simp
  have "lrun (sup_step env) w [Internal, Internal] (finalize_in env now t v w)"
    using step_decide [OF assms(5,6) v] second by (auto simp: lrun_Cons_iff)
  moreover have "task_settled t clock (finalize_in env now t v w)"
    by (rule finalize_settles [OF assms(1-5) exit_verdict_explained [OF v]])
  ultimately show ?thesis by (simp add: settle_exit_def assms(5) v)
qed

section \<open>Recovered tasks\<close>

text \<open>
  A published record with no thread publishing it: no section ever takes it out of the
  publications again.
\<close>

definition stuck :: "pystr \<Rightarrow> task_record \<Rightarrow> world \<Rightarrow> bool" where
  "stuck t r w \<longleftrightarrow> rec_of (sup w) t = Some r \<and> is_terminal (rec_status r) \<and> t \<in> publications (sup w)
     \<and> publishing w t = None"

lemma step_stuck:
  assumes "sup_step env w l w'" and "sup_inv env w" and "stuck t r w"
  shows "stuck t r w'"
proof -
  have "t \<in> publications (sup w') \<and> publishing w' t = None"
    using assms
  proof (induction rule: sup_step.induct)
    case (step_submit q now p clock w r s')
    show ?case
      by (rule submit_Inr [OF step_submit.hyps(4,2,3)]) (use step_submit.prems in \<open>simp add: stuck_def\<close>)
  next
    case (step_refused q now pid clock w e s')
    have "publications s' = publications (sup w)"
      using submit_Inl [OF step_refused.hyps(4,2)] step_refused.hyps(3) by auto
    then show ?case using step_refused.prems by (simp add: stuck_def)
  next
    case (step_settle w t' rt i now)
    show ?case using step_settle.prems
        finalize_in_cases [OF step_settle.prems(1) step_settle.hyps(4), of t' i PNone "intent_error i (rt_request rt)"]
      by (auto simp: stuck_def)
  next
    case (step_verdict w t' v now)
    obtain st res err where v: "v = (st, res, err)" by (cases v)
    show ?case using step_verdict.prems
        finalize_in_cases [OF step_verdict.prems(1) step_verdict.hyps(2), of t' st res err]
      by (auto simp: v stuck_def)
  next
    case (step_receive e now w t' x s')
    then show ?case
      by (auto simp: accept_event_def stuck_def split: option.splits if_splits sum.splits)
  next
    case (step_recover w rs now x s')
    then show ?case by (simp add: stuck_def)
  qed (auto simp: stuck_def wait_begin_def cancel_begin_def Let_def shutdown_begin_def shutdown_visit_def
      finalize_end_def drop_task_def cleanup_runtime_def update_nonterminal_error_def
      split: option.splits if_splits sum.splits)
  moreover have "rec_of (sup w') t = Some r"
    using step_keeps [OF assms(1,2), of t] assms(3) calculation
    by (auto simp: stuck_def keeps_def free_def split: option.splits)
  ultimately show ?thesis using assms(3) by (simp add: stuck_def)
qed

lemma recovered_published:
  assumes "recover_orphans env now rs s = (Inr out, s')" "dict_ok (records s)"
    and "\<forall>r\<in>set rs. valid_record (iso_of env) r \<and> \<not> (is_terminal (rec_status r) \<and> rec_confirmed r)"
    and "distinct (map rec_task_id rs)" and "\<forall>r\<in>set rs. rec_of s (rec_task_id r) = None"
    and "\<forall>t\<in>K. t \<in> publications s \<and> rec_of s t \<noteq> None"
  shows "\<forall>t\<in>K \<union> rec_task_id ` set rs. t \<in> publications s' \<and> rec_of s' t \<noteq> None"
  using assms
proof (induction rs arbitrary: s out K)
  case (Cons r rs)
  have new: "rec_of s (rec_task_id r) = None" using Cons.prems(5) by simp
  obtain r' publish where r': "recovered_record env now r = Inr (r', publish)"
    using Cons.prems(1) new by (cases "recovered_record env now r") auto
  note facts = recovered_facts [OF r']
  obtain out' where rest: "recover_orphans env now rs (recover_one r' publish s) = (Inr out', s')"
    using Cons.prems(1) new r' by (auto simp: bindr_Inr_iff split: prod.splits)
  have publish: "publish" "rec_task_id r' = rec_task_id r" using facts Cons.prems(3) by simp_all
  let ?s = "(put_record (rec_task_id r) r' s)\<lparr>publications := insert (rec_task_id r) (publications s)\<rparr>"
  have one: "recover_one r' publish s = (if max_records ?s < length (records ?s) then prune_records ?s else ?s)"
    using publish by (simp add: recover_one_def Let_def)
  have ok: "dict_ok (records ?s)" using Cons.prems(2) by (simp add: dict_ok_put_record)
  have kept: "rec_of (prune_records ?s) t = rec_of ?s t" if "t \<in> publications ?s" for t
    using prune_lookup [OF ok, of t] that by (auto simp: removable_mem)
  have gone: "rec_of (prune_records ?s) t = None" if "rec_of ?s t = None" for t
    using prune_lookup [OF ok, of t] that by auto
  have "\<forall>t\<in>insert (rec_task_id r) K. t \<in> publications (recover_one r' publish s)
      \<and> rec_of (recover_one r' publish s) t \<noteq> None"
    using kept Cons.prems(6) unfolding one by auto
  moreover have "\<forall>a\<in>set rs. rec_of (recover_one r' publish s) (rec_task_id a) = None"
  proof
    fix a assume a: "a \<in> set rs"
    then have "rec_of ?s (rec_task_id a) = None" using Cons.prems(4,5) by (auto simp: image_iff)
    then show "rec_of (recover_one r' publish s) (rec_task_id a) = None" using gone unfolding one by simp
  qed
  moreover have "dict_ok (records (recover_one r' publish s))"
    unfolding one using ok prune_dict_ok [OF ok] by presburger
  ultimately have "\<forall>t\<in>insert (rec_task_id r) K \<union> rec_task_id ` set rs. t \<in> publications s' \<and> rec_of s' t \<noteq> None"
    using Cons.IH [OF rest, of "insert (rec_task_id r) K"] Cons.prems(3,4) by simp
  then show ?case by auto
qed simp

text \<open>
  Recovery defeats the bound. Every unfinished task that recovery takes over after a
  restart is entered as being published, and nobody ever ends that publication: its record stays
  in the store for the rest of the run, however small \<open>max_records\<close> is.
\<close>

theorem recovered_never_pruned:
  assumes "RoleWorkerSupervisor m h g n = Inr s" and "recover_orphans env now rs s = (Inr out, s')"
    and "\<forall>r\<in>set rs. valid_record (iso_of env) r \<and> \<not> (is_terminal (rec_status r) \<and> rec_confirmed r)"
    and "distinct (map rec_task_id rs)" and "lrun (sup_step env) (start_world s') ls w"
  shows "(\<forall>r\<in>set rs. \<exists>r'. rec_of (sup w) (rec_task_id r) = Some r' \<and> is_terminal (rec_status r')) \<and>
    length rs \<le> length (records (sup w))"
proof -
  note new = new_supervisor [OF assms(1)]
  have inv: "sup_inv env (start_world s')"
    using inv_recover [where w = "start_world s" and s = s and rs = rs and s' = s', OF _ _ assms(2)] start_inv [OF assms(1)] assms(2,3)
    by (simp add: start_world_def)
  have stays: "\<exists>r'. stuck (rec_task_id r) r' w" if r: "r \<in> set rs" for r
  proof -
    have "rec_task_id r \<in> publications s' \<and> rec_of s' (rec_task_id r) \<noteq> None"
      using recovered_published [OF assms(2) _ assms(3,4), of "{}"] new r by simp
    moreover have "\<forall>t r. rec_of s' t = Some r \<longrightarrow> is_terminal (rec_status r) \<and> rec_confirmed r"
    proof (rule recovered_terminal [OF assms(2)])
      show "\<forall>r\<in>set rs. valid_record (iso_of env) r" using assms(3) by blast
    qed (simp_all add: new)
    ultimately obtain r' where "stuck (rec_task_id r) r' (start_world s')"
      by (auto simp: stuck_def start_world_def)
    then have "stuck (rec_task_id r) r' w"
      by (rule supervision.run_keeps [OF assms(5) inv]) (rule step_stuck)
    then show ?thesis ..
  qed
  have "length rs = card (rec_task_id ` set rs)"
    using assms(4) by (metis distinct_card image_set length_map)
  also have "\<dots> \<le> card (fst ` set (records (sup w)))"
  proof (rule card_mono)
    show "rec_task_id ` set rs \<subseteq> fst ` set (records (sup w))"
      using stays by (force simp: stuck_def dest: map_of_SomeD)
  qed simp
  also have "\<dots> \<le> length (records (sup w))" by (metis card_length image_set length_map)
  finally show ?thesis using stays by (auto simp: stuck_def)
qed
section \<open>An execution\<close>

definition demo_env :: sup_env where
  "demo_env = \<lparr>iso_of = (\<lambda>_. Some True), redact_of = id, py_str_of = (\<lambda>_. [])\<rparr>"

definition demo_sup :: supervisor where
  "demo_sup = \<lparr>records = [], runtimes = [], waiters = [], publications = {}, max_records = 1, grace = 1,
     closed = False\<rparr>"

definition demo_running :: task_record where
  "demo_running = (demo_record Running)\<lparr>rec_confirmed := False, rec_pid := Some 7\<rparr>"

definition demo_attended :: "worker_event option \<Rightarrow> runtime" where
  "demo_attended e = \<lparr>rt_request = demo_request, rt_deadline = 5, rt_pending = e, rt_intent = None\<rparr>"

definition demo_event :: worker_event where
  "demo_event = \<lparr>ev_version = PInt 1, ev_task_id = u ''t1'', ev_attempt_id = u ''a1'', ev_sequence = 1,
     ev_kind = Result, ev_timestamp = u ''now'', ev_payload = [(PStr (u ''result''), PInt 42)]\<rparr>"

definition demo_busy :: world where
  "demo_busy = (start_world (demo_sup\<lparr>records := [(u ''t1'', demo_running)],
     runtimes := [(u ''t1'', demo_attended None)]\<rparr>))\<lparr>alive := {u ''t1''}\<rparr>"

definition demo_heard :: world where
  "demo_heard = demo_busy\<lparr>sup := demo_sup\<lparr>records := [(u ''t1'', demo_running\<lparr>rec_sequence := 1\<rparr>)],
     runtimes := [(u ''t1'', demo_attended (Some demo_event))]\<rparr>\<rparr>"

definition demo_done :: task_record where
  "demo_done = demo_running\<lparr>rec_sequence := 1, rec_status := Succeeded, rec_result := PInt 42,
     rec_confirmed := True\<rparr>"

definition demo_settled :: world where
  "demo_settled = demo_heard\<lparr>sup := (sup demo_heard)\<lparr>records := [(u ''t1'', demo_done)],
     publications := {u ''t1''}\<rparr>, alive := {}, publishing := [u ''t1'' \<mapsto> demo_done]\<rparr>"

lemma demo_good [simp]: "good_now demo_env (u ''now'')"
  by (simp add: good_now_def demo_env_def)

lemma demo_new: "RoleWorkerSupervisor (PInt 1) 1 1 (PInt 1) = Inr demo_sup"
  by (simp add: RoleWorkerSupervisor_def demo_sup_def)

lemma demo_first: "sup_step demo_env (start_world demo_sup) (Started_task demo_running) demo_busy"
proof -
  let ?r = "(demo_record Queued)\<lparr>rec_confirmed := False\<rparr>"
  have "from_request (iso_of demo_env) demo_request = Inr ?r"
    unfolding from_request_def WorkerTaskRecord_Inr demo_env_def by code_simp
  moreover have "valid_record (iso_of demo_env) demo_running"
    unfolding demo_env_def by code_simp
  then have "evolve (iso_of demo_env) (u ''now'') (start_changes 7) False ?r = Inr demo_running"
    by (simp add: evolve_start demo_running_def demo_record_def)
  ultimately have "submit demo_env (u ''now'') 0 (Some 7) demo_request demo_sup = (Inr demo_running, sup demo_busy)"
    by (simp add: submit_def Let_def demo_sup_def put_record_def put_runtime_def demo_busy_def start_world_def
        demo_request_def demo_attended_def)
  moreover have "valid_request (iso_of demo_env) demo_request"
  proof -
    have "version_ok (PInt 1)" "is_identifier (u ''t1'')" "is_identifier (u ''a1'')" "is_identifier (u ''tester'')"
      "py_strip (u ''run'') \<noteq> []" "utf8_length (u ''run'') = Some 3" by code_simp+
    then show ?thesis
      by (simp add: valid_request_def text_fits_def demo_env_def demo_request_def MAX_WORKER_PROMPT_BYTES_def)
  qed
  moreover have "demo_busy = (start_world demo_sup)\<lparr>sup := sup demo_busy,
      alive := insert (req_task_id demo_request) (alive (start_world demo_sup))\<rparr>"
    by (simp add: demo_busy_def start_world_def demo_request_def)
  ultimately show ?thesis
    using step_submit [of demo_env demo_request "u ''now''" 7 0 "start_world demo_sup" demo_running "sup demo_busy"]
    by (simp add: start_world_def)
qed

lemma demo_second: "sup_step demo_env demo_busy Internal demo_heard"
proof -
  have "valid_record (iso_of demo_env) (demo_running\<lparr>rec_sequence := 1\<rparr>)"
    unfolding demo_env_def by code_simp
  then have "evolve (iso_of demo_env) (u ''now'') (event_changes demo_event) False demo_running
      = Inr (demo_running\<lparr>rec_sequence := 1\<rparr>)"
    by (simp add: evolve_event heard_def demo_event_def demo_running_def demo_record_def)
  then have "accept_event demo_env (u ''now'') (u ''t1'') demo_event (sup demo_busy) = (Inr True, sup demo_heard)"
    by (simp add: accept_event_def demo_busy_def demo_heard_def start_world_def demo_attended_def demo_event_def
        put_record_def put_runtime_def demo_running_def demo_record_def)
  moreover have "valid_event (iso_of demo_env) demo_event"
    unfolding valid_event_def demo_env_def by code_simp
  moreover have "demo_heard = demo_busy\<lparr>sup := sup demo_heard\<rparr>" by (simp add: demo_heard_def)
  ultimately show ?thesis
    using step_receive [of demo_env demo_event "u ''now''" demo_busy "u ''t1''" "Inr True" "sup demo_heard"]
    by (simp add: demo_busy_def start_world_def)
qed
lemma demo_last: "\<exists>w. lrun (sup_step demo_env) demo_heard [Internal, Internal, Internal] w
    \<and> rec_of (sup w) (u ''t1'') = Some demo_done \<and> run_of (sup w) (u ''t1'') = Some (demo_attended (Some demo_event))"
proof -
  let ?t = "u ''t1''" and ?rt = "demo_attended (Some demo_event)" and ?v = "(Succeeded, PInt 42, [])"
  let ?w1 = "demo_heard\<lparr>alive := alive demo_heard - {?t}\<rparr>"
  let ?w2 = "?w1\<lparr>verdicts := (verdicts ?w1)(?t \<mapsto> ?v)\<rparr>"
  let ?w3 = "(finalize_in demo_env (u ''now'') ?t ?v ?w2)\<lparr>verdicts := (verdicts ?w2)(?t := None)\<rparr>"
  have run: "run_of (sup ?w1) ?t = Some ?rt" and entry: "rec_of (sup ?w1) ?t = Some (demo_running\<lparr>rec_sequence := 1\<rparr>)"
    by (simp_all add: demo_heard_def)
  have "sup_step demo_env demo_heard Internal ?w1"
    by (rule step_exit) (simp add: demo_heard_def demo_busy_def)
  moreover have "exit_verdict demo_env 0 ?t ?rt (sup ?w1) = Some ?v"
    using entry by (simp add: exit_verdict_def demo_attended_def pending_verdict_def demo_event_def get_default_def
        demo_running_def demo_record_def)
  then have "sup_step demo_env ?w1 Internal ?w2"
    by (intro step_decide [OF run]) simp_all
  moreover have "sup_step demo_env ?w2 Internal ?w3"
    by (rule step_verdict) simp_all
  moreover have "valid_record (iso_of demo_env) demo_done"
    unfolding demo_env_def by code_simp
  then have "evolve (iso_of demo_env) (u ''now'') (final_changes Succeeded (PInt 42) []) False
      (demo_running\<lparr>rec_sequence := 1\<rparr>) = Inr demo_done"
    by (simp add: evolve_final demo_done_def demo_running_def demo_record_def)
  then have "rec_of (sup ?w3) ?t = Some demo_done \<and> run_of (sup ?w3) ?t = Some ?rt"
    using run entry by (simp add: finalize_in_def finalize_begin_def demo_env_def demo_running_def demo_record_def)
  ultimately show ?thesis by (intro exI [of _ ?w3]) (auto simp: lrun_Cons_iff)
qed

lemma demo_supervised: "supervised demo_env demo_busy" "supervised demo_env demo_heard"
proof -
  have "supervised demo_env (start_world demo_sup)"
    unfolding supervised_def using demo_new lrun_Nil [of "sup_step demo_env" "start_world demo_sup"] by metis
  then show busy: "supervised demo_env demo_busy" using demo_first by (rule supervised_step)
  show "supervised demo_env demo_heard" using busy demo_second by (rule supervised_step)
qed

lemma supervised_run: "supervised env w \<Longrightarrow> lrun (sup_step env) w ls w' \<Longrightarrow> supervised env w'"
  unfolding supervised_def by (blast intro: lrun_append)

lemma record_tells_truth_witness:
  "u ''t1'' \<in> alive demo_busy \<and> \<not> is_terminal (rec_status demo_running)
     \<and> rec_of (sup demo_busy) (u ''t1'') = Some demo_running"
proof -
  have "u ''t1'' \<in> alive demo_busy" by (simp add: demo_busy_def)
  then obtain r where "rec_of (sup demo_busy) (u ''t1'') = Some r" "\<not> is_terminal (rec_status r)"
    using record_tells_truth [OF demo_supervised(1)] by blast
  then show ?thesis by (simp add: demo_busy_def start_world_def)
qed

lemma records_bounded_witness: "length (records (sup demo_busy)) \<le> 2"
proof -
  have "{t \<in> fst ` set (records (sup demo_busy)). \<not> free (sup demo_busy) t} \<subseteq> {u ''t1''}"
    by (auto simp: demo_busy_def start_world_def)
  then have "card {t \<in> fst ` set (records (sup demo_busy)). \<not> free (sup demo_busy) t} \<le> 1"
    using card_mono [of "{u ''t1''}"] by fastforce
  then show ?thesis using records_bounded [OF demo_supervised(1)]
    by (simp add: demo_busy_def start_world_def demo_sup_def)
qed



definition demo_orphan :: "string \<Rightarrow> task_record" where
  "demo_orphan t = demo_running\<lparr>rec_task_id := u t\<rparr>"

lemma recovered_never_pruned_witness:
  "max_records demo_sup = 1 \<and> (\<exists>out s. recover_orphans demo_env (u ''now'') [demo_orphan ''t1'', demo_orphan ''t2''] demo_sup
      = (Inr out, s) \<and> 2 \<le> length (records (sup (start_world s))))"
proof -
  have valid: "valid_record (iso_of demo_env) (demo_orphan ''t1'')" "valid_record (iso_of demo_env) (demo_orphan ''t2'')"
    unfolding demo_env_def by code_simp+
  have unfinished: "\<not> is_terminal (rec_status (demo_orphan t))" for t
    by (simp add: demo_orphan_def demo_running_def demo_record_def)
  have "\<exists>r'. recovered_record demo_env (u ''now'') (demo_orphan t) = Inr (r', True)"
    if "valid_record (iso_of demo_env) (demo_orphan t)" for t
  proof -
    have "\<exists>r'. evolve (iso_of demo_env) (u ''now'') crash_changes False (demo_orphan t) = Inr r'"
      using changed_valid(4) [OF that demo_good] unfinished by (simp add: evolve_crash)
    then show ?thesis using unfinished by (auto simp: recovered_record_def)
  qed
  then obtain r1 r2 where r: "recovered_record demo_env (u ''now'') (demo_orphan ''t1'') = Inr (r1, True)"
      "recovered_record demo_env (u ''now'') (demo_orphan ''t2'') = Inr (r2, True)"
    using valid by blast
  have ids: "rec_task_id (demo_orphan t) = u t" for t by (simp add: demo_orphan_def)
  have "rec_task_id r1 = u ''t1''" using recovered_facts [OF r(1) valid(1)] ids by simp
  then have "rec_of (recover_one r1 True demo_sup) (u ''t2'') = None"
    by (simp add: recover_one_def Let_def demo_sup_def put_record_def)
  then have "\<exists>out s. recover_orphans demo_env (u ''now'') [demo_orphan ''t1'', demo_orphan ''t2''] demo_sup = (Inr out, s)"
    using r ids by (simp add: demo_sup_def)
  then obtain out s where s: "recover_orphans demo_env (u ''now'') [demo_orphan ''t1'', demo_orphan ''t2''] demo_sup = (Inr out, s)"
    by blast
  have "2 \<le> length (records (sup (start_world s)))"
    using recovered_never_pruned [OF demo_new s _ _ lrun_Nil] valid unfinished ids by simp
  then show ?thesis using s by (auto simp: demo_sup_def)
qed


end
