(* ===== verification/Role_Registry.thy ===== *)
theory Role_Registry
  imports Py_Value
begin

text \<open>
  The role registry of \<open>src/core/brain/role_registry.py\<close>: roles by name, each with an optional
  parent; a registration that would close an inheritance cycle is refused, and \<open>get\<close> walks
  the chain of parents and merges it. The walk over the parents has no guard of its own, so
  it is a \<open>partial_function\<close>; that it returns rests on the invariant of registration.
  The lock makes every operation atomic; deep copies are values here. The command line, the
  prompt formatting and the JSON text are not modelled.
\<close>

section \<open>Profiles\<close>

record agent_profile =
  name :: pystr
  display_name :: pystr
  description :: pystr
  parent_role :: "pystr option"
  capabilities :: "pystr list"
  constraints :: "pystr list"
  prompt_template :: pystr
  tools :: "pystr list"
  priority :: int
  metadata :: "(pystr, pyval) pydict"

type_synonym roles = "(pystr, agent_profile) pydict"

datatype role_error = AlreadyRegistered pystr | InheritanceCycle "pystr list"

section \<open>Operations\<close>

text \<open>
  The walk of \<open>_validate_acyclic_registration\<close>. The set \<open>seen\<close> of the code always holds the
  elements of \<open>path\<close>. The result is the cycle that is found, if any.
\<close>

function cycle_walk :: "roles \<Rightarrow> pystr list \<Rightarrow> pystr option \<Rightarrow> pystr list option" where
  "cycle_walk rs path None = None"
| "cycle_walk rs path (Some p) =
     (if p \<in> set path then Some (path @ [p])
      else case map_of rs p of
        None \<Rightarrow> None
      | Some parent \<Rightarrow> cycle_walk rs (path @ [p]) (parent_role parent))"
  by pat_completeness auto
termination
proof (relation "measure (\<lambda>(rs, path, _). card (fst ` set rs - set path))")
  fix rs :: roles and path :: "pystr list" and p :: pystr and parent :: agent_profile
  assume "p \<notin> set path" and "map_of rs p = Some parent"
  then have "p \<in> fst ` set rs - set path" by (force dest: map_of_SomeD)
  then have "fst ` set rs - set (path @ [p]) \<subset> fst ` set rs - set path" by auto
  then show "((rs, path @ [p], parent_role parent), rs, path, Some p)
      \<in> measure (\<lambda>(rs, path, _). card (fst ` set rs - set path))"
    by (auto intro!: psubset_card_mono)
qed simp

definition register :: "agent_profile \<Rightarrow> roles \<Rightarrow> role_error + roles" where
  "register p rs =
     (if map_of rs (name p) \<noteq> None then Inl (AlreadyRegistered (name p))
      else case cycle_walk rs [name p] (parent_role p) of
        Some cycle \<Rightarrow> Inl (InheritanceCycle cycle)
      | None \<Rightarrow> Inr (AList.update (name p) p rs))"

definition unregister :: "pystr \<Rightarrow> roles \<Rightarrow> bool \<times> roles" where
  "unregister n rs = (map_of rs n \<noteq> None, AList.delete n rs)"

text \<open>The \<open>while\<close> loop of \<open>_resolve_inheritance\<close>: \<open>None\<close> is a loop that does not return.\<close>

partial_function (option) parent_chain ::
    "roles \<Rightarrow> agent_profile list \<Rightarrow> agent_profile \<Rightarrow> agent_profile list option" where
  "parent_chain rs chain current =
     (case parent_role current of
        None \<Rightarrow> Some chain
      | Some p \<Rightarrow> (case map_of rs p of
          None \<Rightarrow> Some chain
        | Some parent \<Rightarrow> parent_chain rs (chain @ [parent]) parent))"

declare parent_chain.simps [code]

definition dict_merge :: "('k, 'v) pydict \<Rightarrow> ('k, 'v) pydict \<Rightarrow> ('k, 'v) pydict" where
  "dict_merge d e = foldl (\<lambda>acc (k, v). AList.update k v acc) d e"

definition merge_role :: "agent_profile \<Rightarrow> agent_profile \<Rightarrow> agent_profile" where
  "merge_role resolved child =
     \<lparr>name = name child,
      display_name = display_name child,
      description = description child,
      parent_role = None,
      capabilities = fromkeys (capabilities resolved @ capabilities child),
      constraints = fromkeys (constraints resolved @ constraints child),
      prompt_template = prompt_template child,
      tools = fromkeys (tools resolved @ tools child),
      priority = max (priority resolved) (priority child),
      metadata = dict_merge (metadata resolved) (metadata child)\<rparr>"

definition merge_chain :: "agent_profile list \<Rightarrow> agent_profile" where
  "merge_chain chain = foldl merge_role (last chain) (rev (butlast chain))"

definition resolve_inheritance :: "roles \<Rightarrow> agent_profile \<Rightarrow> agent_profile option" where
  "resolve_inheritance rs p = map_option merge_chain (parent_chain rs [p] p)"

text \<open>\<open>get\<close> and \<open>list_roles\<close>: the outer option is again whether the call returns.\<close>

definition get_role :: "pystr \<Rightarrow> roles \<Rightarrow> agent_profile option option" where
  "get_role n rs = (case map_of rs n of
       None \<Rightarrow> Some None
     | Some p \<Rightarrow> map_option Some (resolve_inheritance rs p))"

fun resolve_all :: "roles \<Rightarrow> agent_profile list \<Rightarrow> agent_profile list option" where
  "resolve_all rs [] = Some []"
| "resolve_all rs (p # ps) = (case resolve_inheritance rs p of
     None \<Rightarrow> None
   | Some r \<Rightarrow> map_option ((#) r) (resolve_all rs ps))"

definition list_roles :: "pystr option \<Rightarrow> roles \<Rightarrow> agent_profile list option" where
  "list_roles capability rs = map_option
     (\<lambda>profiles. sort_key (\<lambda>p. - priority p)
        (case capability of
           None \<Rightarrow> profiles
         | Some c \<Rightarrow> if c = [] then profiles else filter (\<lambda>p. c \<in> set (capabilities p)) profiles))
     (resolve_all rs (map snd rs))"

definition registry_len :: "roles \<Rightarrow> nat" where
  "registry_len rs = length rs"

definition registry_contains :: "pystr \<Rightarrow> roles \<Rightarrow> bool" where
  "registry_contains n rs = (map_of rs n \<noteq> None)"

text \<open>The registration loop of \<open>from_json\<close> and \<open>create_default_registry\<close>.\<close>

fun register_all :: "agent_profile list \<Rightarrow> roles \<Rightarrow> role_error + roles" where
  "register_all [] rs = Inr rs"
| "register_all (p # ps) rs = bindr (register p rs) (register_all ps)"

section \<open>The built-in roles\<close>

definition DEFAULT_PROMPT :: pystr where
  "DEFAULT_PROMPT = u ''You are {name}. {description}'' @ [10, 10] @ u ''Task: {task}''"

definition READ_ONLY_ROLE_TOOLS :: "(pystr, pystr list) pydict" where
  "READ_ONLY_ROLE_TOOLS =
   [(u ''product_manager'', [u ''orchestrator_status'', u ''memory_search'']),
    (u ''architect'', [u ''system_status'', u ''model_list'', u ''orchestrator_status'', u ''memory_search'',
      u ''repository_metadata'']),
    (u ''engineer'', [u ''system_status'', u ''model_list'', u ''memory_search'', u ''repository_metadata'']),
    (u ''reviewer'', [u ''system_status'', u ''orchestrator_status'', u ''memory_search'',
      u ''repository_metadata'']),
    (u ''tester'', [u ''system_status'', u ''model_list'', u ''repository_metadata'']),
    (u ''fullstack_engineer'', [u ''orchestrator_status'']),
    (u ''senior_reviewer'', [u ''model_list''])]"

definition role_tools_of :: "pystr \<Rightarrow> pystr list" where
  "role_tools_of r = the (map_of READ_ONLY_ROLE_TOOLS r)"

definition BASE_ROLES :: "agent_profile list" where
  "BASE_ROLES = [
   \<lparr>name = u ''product_manager'', display_name = [20135, 21697, 32463, 29702],
    description = [36127, 36131, 38656, 27714, 20998, 26512, 12289, 29992, 25143, 25925, 20107, 32534,
       20889, 12289, 80, 82, 68, 32, 29983, 25104, 12290, 31934, 36890, 32, 80, 82, 68, 32,
       25991, 26723, 32467, 26500, 21644, 25935, 25463, 24320, 21457, 27969, 31243, 12290],
    parent_role = None,
    capabilities = [u ''requirements'', u ''documentation'', u ''user_stories''],
    constraints = [u ''no_destructive_ops''], prompt_template = DEFAULT_PROMPT,
    tools = [u ''orchestrator'', u ''context_compressor'']
      @ role_tools_of (u ''product_manager''),
    priority = 8, metadata = []\<rparr>,
   \<lparr>name = u ''architect'', display_name = [26550, 26500, 24072],
    description = [36127, 36131, 31995, 32479, 35774, 35745, 12289, 25216, 26415, 36873, 22411, 12289,
       26550, 26500, 22270, 29983, 25104, 12290, 31934, 36890, 32, 67, 108, 101, 97, 110, 32,
       65, 114, 99, 104, 105, 116, 101, 99, 116, 117, 114, 101, 32, 21644, 32, 68, 68, 68, 32,
       35774, 35745, 27169, 24335, 12290],
    parent_role = None,
    capabilities = [u ''design'', u ''architecture'', u ''tech_selection''],
    constraints = [u ''no_destructive_ops''], prompt_template = DEFAULT_PROMPT,
    tools = [u ''orchestrator'', u ''project_scanner'']
      @ role_tools_of (u ''architect''),
    priority = 9, metadata = []\<rparr>,
   \<lparr>name = u ''engineer'', display_name = [24037, 31243, 24072],
    description = [36127, 36131, 20195, 30721, 23454, 29616, 12289, 21333, 20803, 27979, 35797, 32534,
       20889, 12289, 66, 117, 103, 32, 20462, 22797, 12290, 31934, 36890, 32, 80, 121, 116,
       104, 111, 110, 47, 84, 121, 112, 101, 83, 99, 114, 105, 112, 116, 65292, 36981, 24490,
       32, 75, 97, 114, 112, 97, 116, 104, 121, 32, 32534, 30721, 20934, 21017, 12290],
    parent_role = None,
    capabilities = [u ''coding'', u ''testing'', u ''debugging'', u ''refactoring''],
    constraints = [], prompt_template = DEFAULT_PROMPT,
    tools = [u ''orchestrator'', u ''terminal_executor'', u ''plugin_sdk'']
      @ role_tools_of (u ''engineer''),
    priority = 7, metadata = []\<rparr>,
   \<lparr>name = u ''reviewer'', display_name = [23457, 26680, 21592],
    description = [36127, 36131, 20195, 30721, 23457, 26597, 12289, 23433, 20840, 23457, 35745, 12289,
       21512, 35268, 26816, 26597, 12290, 31934, 36890, 32, 65, 83, 84, 32, 25195, 25551,
       21644, 38745, 24577, 20998, 26512, 12290],
    parent_role = None,
    capabilities = [u ''code_review'', u ''security'', u ''compliance''],
    constraints = [u ''no_destructive_ops'', u ''audit_log''], prompt_template = DEFAULT_PROMPT,
    tools = [u ''orchestrator'', u ''security_auditor'']
      @ role_tools_of (u ''reviewer''),
    priority = 6, metadata = []\<rparr>,
   \<lparr>name = u ''tester'', display_name = [27979, 35797, 24037, 31243, 24072],
    description = [36127, 36131, 27979, 35797, 29992, 20363, 35774, 35745, 12289, 33258, 21160, 21270,
       27979, 35797, 25191, 34892, 12289, 35206, 30422, 29575, 20998, 26512, 12290, 31934,
       36890, 32, 112, 121, 116, 101, 115, 116, 32, 21644, 32, 84, 68, 68, 12290],
    parent_role = None,
    capabilities = [u ''testing'', u ''tdd'', u ''coverage''],
    constraints = [], prompt_template = DEFAULT_PROMPT,
    tools = [u ''orchestrator'', u ''terminal_executor'']
      @ role_tools_of (u ''tester''),
    priority = 5, metadata = []\<rparr>]"

definition EXTENDED_ROLES :: "agent_profile list" where
  "EXTENDED_ROLES = [
   \<lparr>name = u ''fullstack_engineer'', display_name = [20840, 26632, 24037, 31243, 24072],
    description = [36127, 36131, 21069, 21518, 31471, 20840, 38142, 36335, 24320, 21457, 65292, 32487,
       25215, 24037, 31243, 24072, 33021, 21147, 24182, 25193, 23637, 21069, 31471, 21644,
       25968, 25454, 24211, 25216, 33021, 12290],
    parent_role = Some (u ''engineer''),
    capabilities = [u ''frontend'', u ''backend'', u ''database'', u ''api_design'', u ''coding'',
       u ''testing''],
    constraints = [], prompt_template = DEFAULT_PROMPT,
    tools = [u ''orchestrator'', u ''terminal_executor'', u ''plugin_sdk'', u ''ollama_manager'']
      @ role_tools_of (u ''fullstack_engineer''),
    priority = 8, metadata = []\<rparr>,
   \<lparr>name = u ''senior_reviewer'', display_name = [39640, 32423, 23457, 26680, 21592],
    description = [36127, 36131, 23433, 20840, 23457, 35745, 21644, 26550, 26500, 21512, 35268, 23457,
       26597, 65292, 32487, 25215, 23457, 26680, 21592, 33021, 21147, 24182, 25193, 23637,
       28183, 36879, 27979, 35797, 30693, 35782, 12290],
    parent_role = Some (u ''reviewer''),
    capabilities = [u ''code_review'', u ''security'', u ''compliance'', u ''penetration_testing'',
       u ''audit''],
    constraints = [u ''no_destructive_ops'', u ''audit_log''], prompt_template = DEFAULT_PROMPT,
    tools = [u ''orchestrator'', u ''security_auditor'', u ''project_scanner'']
      @ role_tools_of (u ''senior_reviewer''),
    priority = 9, metadata = []\<rparr>]"

definition create_default_registry :: "role_error + roles" where
  "create_default_registry = register_all (BASE_ROLES @ EXTENDED_ROLES) []"

section \<open>The parent graph\<close>

definition parent_rel :: "roles \<Rightarrow> (pystr \<times> pystr) set" where
  "parent_rel rs = {(n, p). \<exists>r. map_of rs n = Some r \<and> parent_role r = Some p}"

definition registry_inv :: "roles \<Rightarrow> bool" where
  "registry_inv rs \<longleftrightarrow> dict_ok rs \<and> (\<forall>n r. map_of rs n = Some r \<longrightarrow> name r = n)
     \<and> acyclic (parent_rel rs)"

lemma registry_inv_Nil [simp]: "registry_inv []"
  by (simp add: registry_inv_def parent_rel_def acyclic_def)

lemma parent_rel_update:
  "map_of rs (name p) = None \<Longrightarrow> parent_rel (AList.update (name p) p rs) =
     parent_rel rs \<union> (case parent_role p of None \<Rightarrow> {} | Some q \<Rightarrow> {(name p, q)})"
  by (auto simp: parent_rel_def split: option.splits if_splits)

lemma finite_parent_rel [simp]: "finite (parent_rel rs)"
proof (rule finite_subset)
  show "parent_rel rs \<subseteq> (\<lambda>(n, r). (n, the (parent_role r))) ` set rs"
    by (force simp: parent_rel_def dest: map_of_SomeD)
qed simp

lemma cycle_walk_hit:
  "(p, x) \<in> (parent_rel rs)\<^sup>* \<Longrightarrow> x \<in> set path \<Longrightarrow> cycle_walk rs path (Some p) \<noteq> None"
proof (induction rs path "Some p" arbitrary: p rule: cycle_walk.induct)
  case (2 rs path p)
  show ?case
  proof (cases "p \<in> set path")
    case False
    then obtain p' where "(p, p') \<in> parent_rel rs" "(p', x) \<in> (parent_rel rs)\<^sup>*"
      using "2.prems" by (metis converse_rtranclE)
    moreover then obtain r where "map_of rs p = Some r" "parent_role r = Some p'"
      by (auto simp: parent_rel_def)
    ultimately show ?thesis using "2.hyps" [OF False, of r p'] "2.prems" False by auto
  qed simp
qed

lemma cycle_walk_cyclic:
  assumes "cycle_walk rs path (Some p) = Some c" and "\<forall>x\<in>set path. (x, p) \<in> R\<^sup>+"
    and "parent_rel rs \<subseteq> R"
  shows "\<not> acyclic R"
  using assms
proof (induction rs path "Some p" arbitrary: p rule: cycle_walk.induct)
  case (2 rs path p)
  show ?case
  proof (cases "p \<in> set path")
    case True
    then show ?thesis using "2.prems"(2) by (auto simp: acyclic_def)
  next
    case False
    with "2.prems"(1) obtain r where r: "map_of rs p = Some r" by (cases "map_of rs p") auto
    with False "2.prems"(1) obtain p' where p': "parent_role r = Some p'"
      by (cases "parent_role r") auto
    with r have "(p, p') \<in> R" using "2.prems"(3) by (auto simp: parent_rel_def)
    then have "\<forall>x\<in>set (path @ [p]). (x, p') \<in> R\<^sup>+"
      using "2.prems"(2) by (auto intro: trancl_into_trancl)
    with "2.hyps" [OF False r] p' "2.prems" r False show ?thesis by simp
  qed
qed

text \<open>The walk is exact: it reports a cycle exactly when the new role would close one.\<close>

lemma cycle_walk_exact:
  assumes "map_of rs (name p) = None" and "acyclic (parent_rel rs)"
  shows "cycle_walk rs [name p] (parent_role p) = None
    \<longleftrightarrow> acyclic (parent_rel (AList.update (name p) p rs))"
proof (cases "parent_role p")
  case None
  then show ?thesis using assms by (simp add: parent_rel_update)
next
  case (Some q)
  let ?R = "parent_rel rs \<union> {(name p, q)}"
  have upd: "parent_rel (AList.update (name p) p rs) = ?R"
    using assms(1) Some by (simp add: parent_rel_update)
  show ?thesis
  proof
    assume "cycle_walk rs [name p] (parent_role p) = None"
    then have "(q, name p) \<notin> (parent_rel rs)\<^sup>*" using Some cycle_walk_hit [of q "name p" rs "[name p]"] by auto
    then show "acyclic (parent_rel (AList.update (name p) p rs))"
      using assms(2) unfolding upd by (simp add: acyclic_insert)
  next
    assume ac: "acyclic (parent_rel (AList.update (name p) p rs))"
    have "(name p, q) \<in> ?R\<^sup>+" by auto
    then show "cycle_walk rs [name p] (parent_role p) = None"
      using cycle_walk_cyclic [of rs "[name p]" q _ ?R] ac Some upd
      by (cases "cycle_walk rs [name p] (parent_role p)") auto
  qed
qed

lemma register_inv:
  assumes "registry_inv rs" and "register p rs = Inr rs'"
  shows "registry_inv rs'"
  using assms cycle_walk_exact [of rs p]
  by (auto simp: register_def registry_inv_def split: if_splits option.splits)

lemma parent_rel_delete: "parent_rel (AList.delete n rs) \<subseteq> parent_rel rs"
  by (auto simp: parent_rel_def split: if_splits)

lemma unregister_inv: "registry_inv rs \<Longrightarrow> registry_inv (snd (unregister n rs))"
  using acyclic_subset [OF _ parent_rel_delete]
  by (auto simp: unregister_def registry_inv_def)

section \<open>The registry as a state machine\<close>

datatype role_op = RegisterOp agent_profile | UnregisterOp pystr

fun role_step :: "roles \<Rightarrow> role_op \<Rightarrow> roles" where
  "role_step rs (RegisterOp p) = (case register p rs of Inl _ \<Rightarrow> rs | Inr rs' \<Rightarrow> rs')"
| "role_step rs (UnregisterOp n) = snd (unregister n rs)"

lemma role_step_inv: "registry_inv rs \<Longrightarrow> registry_inv (role_step rs x)"
  by (cases x) (auto simp: unregister_inv split: sum.split intro: register_inv)

interpretation registry: guarded_machine role_step registry_inv
  by unfold_locales (rule role_step_inv)

section \<open>The chain of parents\<close>

text \<open>\<open>lineage rs p ps\<close>: \<open>ps\<close> are the registered ancestors of \<open>p\<close>, nearest first.\<close>

inductive lineage :: "roles \<Rightarrow> agent_profile \<Rightarrow> agent_profile list \<Rightarrow> bool" for rs where
  lineage_root: "parent_role p = None \<Longrightarrow> lineage rs p []"
| lineage_open: "parent_role p = Some q \<Longrightarrow> map_of rs q = None \<Longrightarrow> lineage rs p []"
| lineage_step: "parent_role p = Some q \<Longrightarrow> map_of rs q = Some r \<Longrightarrow> lineage rs r ps
    \<Longrightarrow> lineage rs p (r # ps)"

lemma parent_chain_lineage: "lineage rs p ps \<Longrightarrow> parent_chain rs acc p = Some (acc @ ps)"
  by (induction arbitrary: acc rule: lineage.induct) (simp_all add: parent_chain.simps)

lemma lineage_total:
  assumes "registry_inv rs"
  shows "\<exists>ps. lineage rs p ps"
proof -
  have wf: "wf ((parent_rel rs)\<inverse>)"
    using assms by (intro finite_acyclic_wf_converse) (simp_all add: registry_inv_def)
  have reg: "\<exists>ps. lineage rs r ps" if "map_of rs n = Some r" for n r
    using wf that
  proof (induction n arbitrary: r rule: wf_induct_rule)
    case (less n)
    show ?case
    proof (cases "parent_role r")
      case (Some q)
      then have q: "(q, n) \<in> (parent_rel rs)\<inverse>" using less.prems by (auto simp: parent_rel_def)
      show ?thesis
      proof (cases "map_of rs q")
        case (Some r')
        with less.IH [OF q] \<open>parent_role r = Some q\<close> show ?thesis
          by (blast intro: lineage_step)
      qed (use Some in \<open>blast intro: lineage_open\<close>)
    qed (blast intro: lineage_root)
  qed
  show ?thesis
  proof (cases "parent_role p")
    case (Some q)
    then show ?thesis using reg [of q]
      by (cases "map_of rs q") (blast intro: lineage_open lineage_step)+
  qed (blast intro: lineage_root)
qed

text \<open>The lineage of a registered role is what the parent relation reaches from it.\<close>

lemma parent_rel_step:
  "map_of rs n = Some p \<Longrightarrow>
     ((n, m) \<in> (parent_rel rs)\<^sup>* \<longleftrightarrow> m = n \<or> (\<exists>q. parent_role p = Some q \<and> (q, m) \<in> (parent_rel rs)\<^sup>*))"
proof -
  assume n: "map_of rs n = Some p"
  have "(n, m) \<in> (parent_rel rs)\<^sup>* \<longleftrightarrow>
      m = n \<or> (\<exists>q. (n, q) \<in> parent_rel rs \<and> (q, m) \<in> (parent_rel rs)\<^sup>*)"
    by (metis converse_rtranclE converse_rtrancl_into_rtrancl rtrancl.rtrancl_refl)
  with n show ?thesis by (simp add: parent_rel_def)
qed

lemma parent_rel_stop:
  assumes "map_of rs q = None"
  shows "(q, m) \<in> (parent_rel rs)\<^sup>* \<longleftrightarrow> m = q"
proof
  assume "(q, m) \<in> (parent_rel rs)\<^sup>*"
  then show "m = q"
    by (cases rule: converse_rtranclE) (use assms in \<open>auto simp: parent_rel_def\<close>)
qed simp

lemma lineage_reach:
  assumes "lineage rs p ps" and "map_of rs n = Some p"
  shows "set (p # ps) = {r. \<exists>m. (n, m) \<in> (parent_rel rs)\<^sup>* \<and> map_of rs m = Some r}"
  using assms
proof (induction arbitrary: n rule: lineage.induct)
  case (lineage_root p)
  then show ?case by (auto simp: parent_rel_step)
next
  case (lineage_open p q)
  then show ?case by (auto simp: parent_rel_step parent_rel_stop)
next
  case (lineage_step p q r ps)
  have "set (r # ps) = {r. \<exists>m. (q, m) \<in> (parent_rel rs)\<^sup>* \<and> map_of rs m = Some r}"
    using lineage_step.IH [OF lineage_step.hyps(2)] .
  then show ?case
    using lineage_step.hyps(1) lineage_step.prems
    by (auto simp: parent_rel_step [OF lineage_step.prems])
qed

lemma merge_chain_Cons:
  "merge_chain (p # ps) = (if ps = [] then p else merge_role (merge_chain ps) p)"
  by (simp add: merge_chain_def)

lemma merge_chain_sets:
  "cs \<noteq> [] \<Longrightarrow> set (capabilities (merge_chain cs)) = (\<Union>r\<in>set cs. set (capabilities r))
     \<and> set (constraints (merge_chain cs)) = (\<Union>r\<in>set cs. set (constraints r))
     \<and> set (tools (merge_chain cs)) = (\<Union>r\<in>set cs. set (tools r))"
  by (induction cs) (auto simp: merge_chain_Cons merge_role_def)

lemma merge_chain_priority:
  "cs \<noteq> [] \<Longrightarrow> priority (merge_chain cs) = Max (priority ` set cs)"
  by (induction cs) (auto simp: merge_chain_Cons merge_role_def max.commute)

lemma merge_chain_own:
  "name (merge_chain (p # ps)) = name p \<and> description (merge_chain (p # ps)) = description p
    \<and> prompt_template (merge_chain (p # ps)) = prompt_template p"
  by (simp add: merge_chain_Cons merge_role_def)

section \<open>Properties\<close>

text \<open>
  C5: registration is exact. In every reachable registry a role is accepted exactly when its
  name is free and its parent link closes no inheritance cycle, and whatever the sequence of
  registrations and removals, the parent relation stays acyclic.
\<close>

theorem register_accepts_iff:
  assumes "rs = foldl role_step [] xs"
  shows "acyclic (parent_rel rs) \<and>
    ((\<exists>rs'. register p rs = Inr rs') \<longleftrightarrow>
       map_of rs (name p) = None \<and> acyclic (parent_rel (AList.update (name p) p rs)))"
proof -
  have "registry_inv rs" unfolding assms by (rule registry.run_inv) simp
  then show ?thesis using cycle_walk_exact [of rs p]
    by (auto simp: register_def registry_inv_def split: option.splits)
qed

abbreviation tiny_role :: "string \<Rightarrow> string option \<Rightarrow> int \<Rightarrow> string list \<Rightarrow> agent_profile" where
  "tiny_role n q pr cs \<equiv> \<lparr>name = u n, display_name = u n, description = [],
     parent_role = map_option u q, capabilities = map u cs, constraints = [],
     prompt_template = [], tools = [], priority = pr, metadata = []\<rparr>"

lemma register_accepts_iff_witness:
  "\<not> acyclic (parent_rel (AList.update (u ''b'') (tiny_role ''b'' (Some ''a'') 1 [])
     [(u ''a'', tiny_role ''a'' (Some ''b'') 1 [])]))"
proof -
  have "foldl role_step [] [RegisterOp (tiny_role ''a'' (Some ''b'') 1 [])]
      = [(u ''a'', tiny_role ''a'' (Some ''b'') 1 [])]" by code_simp
  moreover have "register (tiny_role ''b'' (Some ''a'') 1 [])
      [(u ''a'', tiny_role ''a'' (Some ''b'') 1 [])]
      = Inl (InheritanceCycle [u ''b'', u ''a'', u ''b''])" by code_simp
  ultimately show ?thesis
    using register_accepts_iff [where xs = "[RegisterOp (tiny_role ''a'' (Some ''b'') 1 [])]"
        and p = "tiny_role ''b'' (Some ''a'') 1 []", OF refl]
    by simp
qed

lemma get_role_lineage:
  assumes "registry_inv rs" and "map_of rs n = Some p"
  shows "\<exists>ps. lineage rs p ps \<and> get_role n rs = Some (Some (merge_chain (p # ps)))"
proof -
  obtain ps where "lineage rs p ps" using lineage_total assms(1) by blast
  then show ?thesis using assms(2) parent_chain_lineage [of rs p ps "[p]"]
    by (auto simp: get_role_def resolve_inheritance_def)
qed

text \<open>
  C6: \<open>get\<close> always returns, although its loop has no guard: for a registered role of any
  reachable registry it yields the role's own name, with exactly the capabilities, constraints
  and tools of the role and all its registered ancestors, and the highest of their priorities.
\<close>

theorem get_role_inherits:
  assumes "rs = foldl role_step [] xs" and "map_of rs n = Some p"
  shows "\<exists>r. get_role n rs = Some (Some r) \<and> name r = n \<and>
    (let anc = {q. \<exists>m. (n, m) \<in> (parent_rel rs)\<^sup>* \<and> map_of rs m = Some q} in
       set (capabilities r) = (\<Union>q\<in>anc. set (capabilities q)) \<and>
       set (constraints r) = (\<Union>q\<in>anc. set (constraints q)) \<and>
       set (tools r) = (\<Union>q\<in>anc. set (tools q)) \<and>
       priority r = Max (priority ` anc))"
proof -
  have inv: "registry_inv rs" unfolding assms(1) by (rule registry.run_inv) simp
  obtain ps where ps: "lineage rs p ps" "get_role n rs = Some (Some (merge_chain (p # ps)))"
    using get_role_lineage [OF inv assms(2)] by blast
  have "name p = n" using inv assms(2) by (simp add: registry_inv_def)
  then show ?thesis
    using ps(2) merge_chain_sets [of "p # ps"] merge_chain_priority [of "p # ps"]
      merge_chain_own [of p ps]
    unfolding lineage_reach [OF ps(1) assms(2), symmetric] Let_def by (intro exI conjI) auto
qed

lemma get_role_inherits_witness:
  "\<exists>r. get_role (u ''b'') [(u ''a'', tiny_role ''a'' None 7 [''x'']),
     (u ''b'', tiny_role ''b'' (Some ''a'') 3 [''y''])] = Some (Some r) \<and> name r = u ''b''"
proof -
  have "[(u ''a'', tiny_role ''a'' None 7 [''x'']), (u ''b'', tiny_role ''b'' (Some ''a'') 3 [''y''])]
     = foldl role_step [] [RegisterOp (tiny_role ''a'' None 7 [''x'']),
         RegisterOp (tiny_role ''b'' (Some ''a'') 3 [''y''])]" by code_simp
  from get_role_inherits [OF this, of "u ''b''"] show ?thesis by auto
qed

lemma resolve_all_total:
  assumes "registry_inv rs"
  shows "\<exists>qs. resolve_all rs ps = Some qs \<and>
    list_all2 (\<lambda>p q. resolve_inheritance rs p = Some q) ps qs"
proof (induction ps)
  case (Cons p ps)
  obtain as where "lineage rs p as" using lineage_total assms by blast
  then have "resolve_inheritance rs p = Some (merge_chain (p # as))"
    using parent_chain_lineage [of rs p as "[p]"] by (simp add: resolve_inheritance_def)
  with Cons show ?case by auto
qed simp




text \<open>
  \<open>list_roles\<close> always returns the resolved roles of a reachable registry that have the
  wanted capability (all of them without one or with an empty one), by descending priority,
  and roles of equal priority stay in registration order.
\<close>

theorem list_roles_sorted:
  assumes "rs = foldl role_step [] xs"
  shows "\<exists>all out. list_roles c rs = Some out \<and>
    list_all2 (\<lambda>p q. resolve_inheritance rs p = Some q) (map snd rs) all \<and>
    sorted_wrt (\<lambda>p q. priority p \<ge> priority q) out \<and>
    (\<forall>k. filter (\<lambda>p. priority p = k) out =
       filter (\<lambda>p. priority p = k \<and>
         (c = None \<or> c = Some [] \<or> the c \<in> set (capabilities p))) all)"
proof -
  have "registry_inv rs" unfolding assms by (rule registry.run_inv) simp
  from resolve_all_total [OF this, of "map snd rs"] obtain all where
    all: "resolve_all rs (map snd rs) = Some all"
    "list_all2 (\<lambda>p q. resolve_inheritance rs p = Some q) (map snd rs) all" by blast
  let ?sel = "\<lambda>p. c = None \<or> c = Some [] \<or> the c \<in> set (capabilities p)"
  have out: "list_roles c rs = Some (sort_key (\<lambda>p. - priority p) (filter ?sel all))"
    using all(1) by (cases c) (auto simp: list_roles_def)
  have "sorted_wrt (\<lambda>p q. priority p \<ge> priority q) (sort_key (\<lambda>p. - priority p) (filter ?sel all))"
    using sorted_sort_key [of "\<lambda>p. - priority p" "filter ?sel all"]
    by (simp add: sorted_map)
  moreover have "filter (\<lambda>p. priority p = k) (sort_key (\<lambda>p. - priority p) (filter ?sel all))
      = filter (\<lambda>p. priority p = k \<and> ?sel p) all" for k
    using sort_key_stable [of "\<lambda>p. - priority p" "- k" "filter ?sel all"]
    by (simp add: conj_commute)
  ultimately show ?thesis using all(2) out by blast
qed

lemma list_roles_sorted_witness:
  "\<exists>out. list_roles (Some (u ''x'')) [(u ''a'', tiny_role ''a'' None 7 [''x''])] = Some out"
proof -
  have "[(u ''a'', tiny_role ''a'' None 7 [''x''])]
     = foldl role_step [] [RegisterOp (tiny_role ''a'' None 7 [''x''])]" by code_simp
  from list_roles_sorted [OF this, of "Some (u ''x'')"] show ?thesis by blast
qed

lemma case_sum_Inr: "(case x of Inl _ \<Rightarrow> False | Inr y \<Rightarrow> P y) \<longleftrightarrow> (\<exists>y. x = Inr y \<and> P y)"
  by (cases x) auto

text \<open>
  The built-in registry is built without an error, and inheritance gives no role a tool
  that its lineage was not granted: the terminal reaches exactly the three engineering roles.
\<close>

theorem default_registry_tools:
  "\<exists>rs. create_default_registry = Inr rs \<and>
    map fst rs = map name (BASE_ROLES @ EXTENDED_ROLES) \<and>
    map name (filter (\<lambda>r. u ''terminal_executor'' \<in> set (tools r)) (the (list_roles None rs)))
      = [u ''fullstack_engineer'', u ''engineer'', u ''tester'']"
proof -
  have "case create_default_registry of Inl _ \<Rightarrow> False | Inr rs \<Rightarrow>
    map fst rs = map name (BASE_ROLES @ EXTENDED_ROLES) \<and>
    map name (filter (\<lambda>r. u ''terminal_executor'' \<in> set (tools r)) (the (list_roles None rs)))
      = [u ''fullstack_engineer'', u ''engineer'', u ''tester'']"
    by code_simp
  then show ?thesis by (simp only: case_sum_Inr)
qed

end
