(* ===== verification/Role_Dispatch.thy ===== *)
theory Role_Dispatch
  imports Role_Supervisor Role_Registry
begin

text \<open>
  The role dispatch service, \<open>src/core/brain/role_dispatch_service.py\<close>, on top of the registry of
  roles and the supervisor of workers: the sections under its lease lock, the decoding of worker
  records, the routing of batches, and the interleaved system of dispatching threads and
  supervisor. Task ids are handed out fresh (\<open>uuid4\<close>); the supervisor is known to the proofs only
  through the interface \<open>worker_pool\<close>, which the model of the supervisor interprets.
\<close>

section \<open>Leases\<close>

record service =
  leases :: "(pystr, pystr) pydict"
  pending :: "pystr set"

definition settled_record :: "task_record \<Rightarrow> bool" where
  "settled_record r \<longleftrightarrow> is_terminal (rec_status r) \<and> rec_confirmed r"

text \<open>\<open>_reserve\<close>: \<open>look\<close> is \<open>supervisor.get\<close>.\<close>

definition reserve :: "(pystr \<Rightarrow> task_record option) \<Rightarrow> pystr \<Rightarrow> pystr \<Rightarrow> service \<Rightarrow> bool \<times> service" where
  "reserve look role t v =
     (let grant = (\<lambda>ls. (True, v\<lparr>leases := AList.update role t ls, pending := insert t (pending v)\<rparr>)) in
      case map_of (leases v) role of
        None \<Rightarrow> grant (leases v)
      | Some c \<Rightarrow>
          if c \<in> pending v then (False, v)
          else (case look c of
              None \<Rightarrow> grant (AList.delete role (leases v))
            | Some r \<Rightarrow> if settled_record r then grant (AList.delete role (leases v)) else (False, v)))"

definition release_terminal_lease :: "task_record \<Rightarrow> service \<Rightarrow> service" where
  "release_terminal_lease r v =
     (if \<not> settled_record r then v
      else v\<lparr>pending := pending v - {rec_task_id r},
        leases := (if map_of (leases v) (rec_role_name r) = Some (rec_task_id r)
          then AList.delete (rec_role_name r) (leases v) else leases v)\<rparr>)"

text \<open>The two ways out of \<open>supervisor.submit\<close>: the exception handler, and the return.\<close>

definition submit_failed :: "pystr \<Rightarrow> pystr \<Rightarrow> task_record option \<Rightarrow> service \<Rightarrow> service" where
  "submit_failed role t found v =
     v\<lparr>pending := pending v - {t},
       leases := (if found = None \<and> map_of (leases v) role = Some t then AList.delete role (leases v)
         else leases v)\<rparr>"

definition submitted :: "pystr \<Rightarrow> service \<Rightarrow> service" where
  "submitted t v = v\<lparr>pending := pending v - {t}\<rparr>"

section \<open>Results\<close>

record dispatch_result =
  dr_role :: pystr
  dr_task :: pystr
  dr_status :: pystr
  dr_message :: pystr

datatype dispatch_error =
    WorkerUnavailable pystr pystr | UnconfirmedTermination pystr pystr | InvalidResult pystr pystr
  | BadRequest worker_error | RegistryLoop

definition error_text :: "dispatch_error \<Rightarrow> string" where
  "error_text e = (case e of
       WorkerUnavailable _ _ \<Rightarrow> ''Role worker is unavailable''
     | UnconfirmedTermination _ _ \<Rightarrow> ''Worker process termination is not confirmed''
     | InvalidResult _ _ \<Rightarrow> ''Role worker returned an invalid result''
     | _ \<Rightarrow> [])"

definition result_of :: "pystr \<Rightarrow> pystr \<Rightarrow> string \<Rightarrow> pystr \<Rightarrow> dispatch_result" where
  "result_of role t st msg = \<lparr>dr_role = role, dr_task = t, dr_status = u st, dr_message = msg\<rparr>"

definition dispatch_fields :: "string list" where
  "dispatch_fields = [''role_name'', ''task_id'', ''status'', ''message'']"

definition decode_success :: "pystr \<Rightarrow> pystr \<Rightarrow> task_record \<Rightarrow> dispatch_error + dispatch_result" where
  "decode_success role t r = (case as_mapping (rec_result r) of
       None \<Rightarrow> Inl (InvalidResult role t)
     | Some result \<Rightarrow> (case field result ''dispatch'' of
         Some (PDict d) \<Rightarrow>
           if fst ` set d = set (map (\<lambda>k. PStr (u k)) dispatch_fields)
             \<and> list_all (\<lambda>k. as_str (item_of d k) \<noteq> None) dispatch_fields
             \<and> item_of d ''role_name'' = PStr role
           then Inr \<lparr>dr_role = role, dr_task = rec_task_id r,
             dr_status = the (as_str (item_of d ''status'')), dr_message = the (as_str (item_of d ''message''))\<rparr>
           else Inl (InvalidResult role t)
       | _ \<Rightarrow> Inl (InvalidResult role t)))"

definition decode_record :: "pystr \<Rightarrow> pystr \<Rightarrow> task_record option \<Rightarrow> dispatch_error + dispatch_result" where
  "decode_record role t found = (case found of
       None \<Rightarrow> Inl (InvalidResult role t)
     | Some r \<Rightarrow>
         if \<not> settled_record r then Inl (UnconfirmedTermination role t)
         else (case rec_status r of
             Succeeded \<Rightarrow> decode_success role t r
           | Timeout \<Rightarrow> Inr (result_of role (rec_task_id r) ''timeout'' (u ''Role task timed out''))
           | Failed \<Rightarrow> Inr (result_of role (rec_task_id r) ''error'' (u ''Role task failed''))
           | Crashed \<Rightarrow> Inr (result_of role (rec_task_id r) ''error'' (u ''Role worker crashed''))
           | Cancelled \<Rightarrow> Inr (result_of role (rec_task_id r) ''error'' (u ''Role task cancelled''))
           | _ \<Rightarrow> Inl (InvalidResult role t)))"

section \<open>Dispatch\<close>

text \<open>
  What one dispatch meets on its way: the fresh ids, the clock, and the answers of \<open>_reserve\<close>,
  \<open>submit\<close> (whether it raised) and \<open>wait\<close>, which other threads decide.
\<close>

record dispatch_env =
  fresh_task :: pystr
  fresh_attempt :: pystr
  now_text :: pystr
  reserved :: bool
  submit_ok :: bool
  waited :: "task_record option"

definition dispatch_by_role :: "(pystr \<Rightarrow> bool option) \<Rightarrow> roles \<Rightarrow> dispatch_env \<Rightarrow> pystr \<Rightarrow> pyval \<Rightarrow> pyval
    \<Rightarrow> dispatch_error + dispatch_result" where
  "dispatch_by_role parse_iso rs env role prompt secs = (case get_role role rs of
       None \<Rightarrow> Inl RegistryLoop
     | Some None \<Rightarrow> Inr (result_of role [] ''no_role'' (u ''Role '' @ [39] @ role @ [39] @ u '' not found''))
     | Some (Some p) \<Rightarrow>
         (case new_request parse_iso (now_text env) (fresh_task env) (fresh_attempt env) (PStr (name p)) prompt secs
             (PStr (fresh_task env)) PNone of
            Inl e \<Rightarrow> Inl (BadRequest e)
          | Inr q \<Rightarrow>
              if \<not> reserved env then Inr (result_of (name p) (fresh_task env) ''busy''
                (u ''Agent '' @ [39] @ name p @ [39] @ u '' is busy''))
              else if \<not> submit_ok env then Inl (WorkerUnavailable (name p) (fresh_task env))
              else decode_record (name p) (fresh_task env) (waited env)))"

definition dispatch_by_capability :: "(pystr \<Rightarrow> bool option) \<Rightarrow> roles \<Rightarrow> dispatch_env \<Rightarrow> pystr \<Rightarrow> pyval \<Rightarrow> pyval
    \<Rightarrow> dispatch_error + dispatch_result" where
  "dispatch_by_capability parse_iso rs env capability prompt secs = (case list_roles (Some capability) rs of
       None \<Rightarrow> Inl RegistryLoop
     | Some [] \<Rightarrow> Inr (result_of [] [] ''no_capability''
         (u ''No role with capability '' @ [39] @ capability @ [39]))
     | Some (p # _) \<Rightarrow> dispatch_by_role parse_iso rs env (name p) prompt secs)"

datatype route = InvalidItem pystr | RouteLoop | ToRole pystr pyval pyval | ToCapability pystr pyval pyval

definition batch_route :: "roles \<Rightarrow> pyval \<Rightarrow> route" where
  "batch_route rs item = (case as_mapping item of
       None \<Rightarrow> InvalidItem []
     | Some d \<Rightarrow>
         (let role = get_default d ''role'' (PStr []);
              capability = get_default d ''capability'' (PStr []);
              prompt = get_default d ''prompt'' (PStr []);
              secs = get_default d ''timeout'' (PInt 300);
              role_name = (case as_str role of Some s \<Rightarrow> s | None \<Rightarrow> [])
          in if (truthy role \<and> as_str role = None)
             \<or> (\<not> truthy role \<and> truthy capability \<and> as_str capability = None)
             \<or> (case as_str prompt of None \<Rightarrow> True | Some s \<Rightarrow> py_strip s = [])
             \<or> (case as_int secs of None \<Rightarrow> True | Some n \<Rightarrow> \<not> (1 \<le> n \<and> n \<le> 300))
             then InvalidItem role_name
             else if truthy role then ToRole role_name prompt secs
             else if truthy capability then ToCapability (the (as_str capability)) prompt secs
             else (case list_roles None rs of
                 None \<Rightarrow> RouteLoop
               | Some [] \<Rightarrow> InvalidItem []
               | Some (p # _) \<Rightarrow> ToRole (name p) prompt secs)))"

text \<open>
  \<open>batch_dispatch\<close>: a \<open>RoleDispatchServiceError\<close> of an item becomes its result, every other
  exception leaves the loop.
\<close>

definition caught :: "dispatch_error + dispatch_result \<Rightarrow> dispatch_error + dispatch_result" where
  "caught x = (case x of
       Inl (WorkerUnavailable r t) \<Rightarrow> Inr (result_of r t ''error'' (u (error_text (WorkerUnavailable r t))))
     | Inl (UnconfirmedTermination r t) \<Rightarrow> Inr (result_of r t ''error'' (u (error_text (UnconfirmedTermination r t))))
     | Inl (InvalidResult r t) \<Rightarrow> Inr (result_of r t ''error'' (u (error_text (InvalidResult r t))))
     | _ \<Rightarrow> x)"

definition dispatch_item :: "(pystr \<Rightarrow> bool option) \<Rightarrow> roles \<Rightarrow> dispatch_env \<times> pyval \<Rightarrow> dispatch_error + dispatch_result" where
  "dispatch_item parse_iso rs = (\<lambda>(env, item). case batch_route rs item of
       InvalidItem role \<Rightarrow> Inr (result_of role (fresh_task env) ''error'' (u ''Invalid batch dispatch item''))
     | RouteLoop \<Rightarrow> Inl RegistryLoop
     | ToRole role prompt secs \<Rightarrow> caught (dispatch_by_role parse_iso rs env role prompt secs)
     | ToCapability c prompt secs \<Rightarrow> caught (dispatch_by_capability parse_iso rs env c prompt secs))"

definition batch_dispatch :: "(pystr \<Rightarrow> bool option) \<Rightarrow> roles \<Rightarrow> (dispatch_env \<times> pyval) list
    \<Rightarrow> dispatch_error + dispatch_result list" where
  "batch_dispatch parse_iso rs items = mapr (dispatch_item parse_iso rs) items"
section \<open>Dispatching threads over a pool of workers\<close>

text \<open>
  \<open>calls\<close>: the threads inside \<open>dispatch_by_role\<close> between reservation and the end of the
  submission, by task id, with their role and whether \<open>submit\<close> has returned. \<open>dispatched\<close>: the
  ids the service ever reserved. Other tasks may be submitted to the same pool directly.
\<close>

record 's system =
  pool :: 's
  svc :: service
  calls :: "pystr \<Rightarrow> (pystr \<times> bool) option"
  dispatched :: "pystr set"

inductive dispatch_step :: "('s \<Rightarrow> label \<Rightarrow> 's \<Rightarrow> bool) \<Rightarrow> ('s \<Rightarrow> pystr \<Rightarrow> task_record option)
    \<Rightarrow> 's system \<Rightarrow> unit \<Rightarrow> 's system \<Rightarrow> bool" for step look where
  do_reserve: "\<lbrakk>t \<notin> dispatched y; look (pool y) t = None; reserve (look (pool y)) role t (svc y) = (True, v)\<rbrakk>
    \<Longrightarrow> dispatch_step step look y ()
      (y\<lparr>svc := v, calls := (calls y)(t \<mapsto> (role, False)), dispatched := insert t (dispatched y)\<rparr>)"
| do_submit: "\<lbrakk>calls y t = Some (role, False); step (pool y) (Started_task r) s;
      rec_task_id r = t; rec_role_name r = role\<rbrakk>
    \<Longrightarrow> dispatch_step step look y () (y\<lparr>pool := s, calls := (calls y)(t \<mapsto> (role, True))\<rparr>)"
| do_fail: "calls y t = Some (role, False)
    \<Longrightarrow> dispatch_step step look y ()
      (y\<lparr>svc := submit_failed role t (look (pool y) t) (svc y), calls := (calls y)(t := None)\<rparr>)"
| do_return: "calls y t = Some (role, True)
    \<Longrightarrow> dispatch_step step look y () (y\<lparr>svc := submitted t (svc y), calls := (calls y)(t := None)\<rparr>)"
| do_direct: "\<lbrakk>step (pool y) (Started_task r) s; rec_task_id r \<notin> dispatched y\<rbrakk>
    \<Longrightarrow> dispatch_step step look y () (y\<lparr>pool := s\<rparr>)"
| do_observe: "step (pool y) (Observed r) s
    \<Longrightarrow> dispatch_step step look y () (y\<lparr>pool := s, svc := release_terminal_lease r (svc y)\<rparr>)"
| do_internal: "step (pool y) Internal s \<Longrightarrow> dispatch_step step look y () (y\<lparr>pool := s\<rparr>)"

definition start_system :: "'s \<Rightarrow> 's system" where
  "start_system s = \<lparr>pool = s, svc = \<lparr>leases = [], pending = {}\<rparr>, calls = (\<lambda>_. None), dispatched = {}\<rparr>"

text \<open>
  The invariant: a pending id belongs to a thread under way and holds the lease of its role; an
  unfinished dispatched task holds the lease of its role.
\<close>

definition unfinished :: "('s \<Rightarrow> pystr \<Rightarrow> task_record option) \<Rightarrow> 's \<Rightarrow> pystr \<Rightarrow> task_record \<Rightarrow> bool" where
  "unfinished look s t r \<longleftrightarrow> look s t = Some r \<and> \<not> is_terminal (rec_status r)"

definition lease_ok :: "('s \<Rightarrow> pystr \<Rightarrow> task_record option) \<Rightarrow> 's \<Rightarrow> service
    \<Rightarrow> (pystr \<Rightarrow> (pystr \<times> bool) option) \<Rightarrow> pystr set \<Rightarrow> bool" where
  "lease_ok look s v cs ds \<longleftrightarrow>
     (\<forall>t role b. cs t = Some (role, b) \<longrightarrow> t \<in> ds) \<and>
     (\<forall>t role. cs t = Some (role, False) \<longrightarrow> look s t = None \<and> t \<in> pending v) \<and>
     (\<forall>t\<in>pending v. \<exists>role b. cs t = Some (role, b) \<and> map_of (leases v) role = Some t) \<and>
     (\<forall>t r. unfinished look s t r \<and> t \<in> ds \<longrightarrow> map_of (leases v) (rec_role_name r) = Some t) \<and>
     (\<forall>role t. map_of (leases v) role = Some t \<longrightarrow> t \<in> ds \<and>
        (\<forall>r. look s t = Some r \<longrightarrow> rec_role_name r = role) \<and>
        (\<forall>role' b. cs t = Some (role', b) \<longrightarrow> role' = role))"

lemma lease_okD:
  assumes "lease_ok look s v cs ds"
  shows "cs t = Some (role, b) \<Longrightarrow> t \<in> ds"
    and "cs t = Some (role, False) \<Longrightarrow> look s t = None \<and> t \<in> pending v"
    and "t \<in> pending v \<Longrightarrow> \<exists>role b. cs t = Some (role, b) \<and> map_of (leases v) role = Some t"
    and "unfinished look s t r \<Longrightarrow> t \<in> ds \<Longrightarrow> map_of (leases v) (rec_role_name r) = Some t"
    and "map_of (leases v) role = Some t \<Longrightarrow> t \<in> ds"
    and "map_of (leases v) role = Some t \<Longrightarrow> look s t = Some r \<Longrightarrow> rec_role_name r = role"
    and "map_of (leases v) role = Some t \<Longrightarrow> cs t = Some (role', b) \<Longrightarrow> role' = role"
  using assms unfolding lease_ok_def by blast+

lemma lease_okI:
  assumes "\<And>t role b. cs t = Some (role, b) \<Longrightarrow> t \<in> ds"
    and "\<And>t role. cs t = Some (role, False) \<Longrightarrow> look s t = None \<and> t \<in> pending v"
    and "\<And>t. t \<in> pending v \<Longrightarrow> \<exists>role b. cs t = Some (role, b) \<and> map_of (leases v) role = Some t"
    and "\<And>t r. unfinished look s t r \<Longrightarrow> t \<in> ds \<Longrightarrow> map_of (leases v) (rec_role_name r) = Some t"
    and "\<And>role t. map_of (leases v) role = Some t \<Longrightarrow> t \<in> ds"
    and "\<And>role t r. map_of (leases v) role = Some t \<Longrightarrow> look s t = Some r \<Longrightarrow> rec_role_name r = role"
    and "\<And>role t role' b. map_of (leases v) role = Some t \<Longrightarrow> cs t = Some (role', b) \<Longrightarrow> role' = role"
  shows "lease_ok look s v cs ds"
  using assms unfolding lease_ok_def by blast

text \<open>What the service knows of the pool: the laws of \<open>get\<close>, \<open>submit\<close> and the observer.\<close>

locale worker_pool =
  fixes step :: "'s \<Rightarrow> label \<Rightarrow> 's \<Rightarrow> bool"
    and look :: "'s \<Rightarrow> pystr \<Rightarrow> task_record option"
    and live :: "'s \<Rightarrow> pystr set"
    and inv :: "'s \<Rightarrow> bool"
  assumes pool_inv: "step s l s' \<Longrightarrow> inv s \<Longrightarrow> inv s'"
    and pool_keeps: "step s l s' \<Longrightarrow> inv s \<Longrightarrow> keeps l (look s t) (look s' t) True"
    and live_unfinished: "inv s \<Longrightarrow> t \<in> live s \<Longrightarrow> \<exists>r. unfinished look s t r"
    and look_settled: "inv s \<Longrightarrow> look s t = Some r \<Longrightarrow> rec_task_id r = t \<and> (is_terminal (rec_status r) \<longrightarrow> rec_confirmed r)"
    and observed: "step s (Observed r) s' \<Longrightarrow> inv s \<Longrightarrow> look s (rec_task_id r) = Some r \<and> settled_record r \<and> s' = s"
begin

definition system_ok :: "'s system \<Rightarrow> bool" where
  "system_ok y \<longleftrightarrow> inv (pool y) \<and> lease_ok look (pool y) (svc y) (calls y) (dispatched y)"

text \<open>A step of the pool that starts no task only lets records settle or go.\<close>

lemma internal_look:
  assumes "step s l s'" "inv s" "look s' t = Some r'" "l \<noteq> Recovered"
    "\<And>a. l = Started_task a \<Longrightarrow> rec_task_id a \<noteq> t"
  shows "\<exists>r. look s t = Some r \<and> rec_role_name r' = rec_role_name r \<and>
    (\<not> is_terminal (rec_status r') \<longrightarrow> \<not> is_terminal (rec_status r))"
proof (cases "look s t")
  case None
  have "rec_task_id r' = t" using look_settled [OF pool_inv [OF assms(1,2)] assms(3)] by simp
  then show ?thesis using pool_keeps [OF assms(1,2), of t] None assms(3-5) by (auto simp: keeps_def)
next
  case (Some r)
  then show ?thesis using pool_keeps [OF assms(1,2), of t] assms(3) by (auto simp: keeps_def)
qed

text \<open>A change of the pool that leaves the service alone.\<close>

lemma lease_ok_pool:
  assumes "lease_ok look s v cs ds"
    and "\<And>t r'. look s' t = Some r' \<Longrightarrow> t \<in> ds \<Longrightarrow> \<exists>r. look s t = Some r \<and> rec_role_name r' = rec_role_name r \<and>
      (\<not> is_terminal (rec_status r') \<longrightarrow> \<not> is_terminal (rec_status r))"
  shows "lease_ok look s' v cs ds"
proof (rule lease_okI)
  note ok = lease_okD [OF assms(1)]
  show "look s' t = None \<and> t \<in> pending v" if "cs t = Some (role, False)" for t role
    using ok(1,2) [OF that] assms(2) by (cases "look s' t") force+
  show "map_of (leases v) (rec_role_name r') = Some t" if "unfinished look s' t r'" "t \<in> ds" for t r'
    using assms(2) [of t r'] that ok(4) by (fastforce simp: unfinished_def)
  show "rec_role_name r' = role" if "map_of (leases v) role = Some t" "look s' t = Some r'" for role t r'
    using assms(2) [OF that(2) ok(5) [OF that(1)]] ok(6) [OF that(1)] by fastforce
qed (use lease_okD [OF assms(1)] in blast)+

lemma lease_ok_reserve:
  assumes lease: "lease_ok look s v cs ds" and inv: "inv s" and new: "t \<notin> ds" "look s t = None"
    and got: "reserve (look s) role t v = (True, v')"
  shows "lease_ok look s v' (cs(t \<mapsto> (role, False))) (insert t ds)"
proof -
  note ok = lease_okD [OF lease]
  have free: "c \<notin> pending v" "\<not> unfinished look s c r" if "map_of (leases v) role = Some c" for c r
    using got that look_settled [OF inv]
    by (auto simp: reserve_def Let_def unfinished_def settled_record_def split: if_splits option.splits)
  have v': "pending v' = insert t (pending v)"
      "map_of (leases v') role' = (if role' = role then Some t else map_of (leases v) role')" for role'
    using got by (auto simp: reserve_def Let_def split: if_splits option.splits)
  have fresh: "cs t = None" using ok(1) new by (metis not_Some_eq surj_pair)
  show ?thesis
  proof (rule lease_okI)
    show "\<exists>role' b. (cs(t \<mapsto> (role, False))) t' = Some (role', b) \<and> map_of (leases v') role' = Some t'"
      if "t' \<in> pending v'" for t'
      using that ok(3) [of t'] free(1) v' fresh by (cases "t' = t") fastforce+
    show "map_of (leases v') (rec_role_name r) = Some t'"
      if u: "unfinished look s t' r" "t' \<in> insert t ds" for t' r
    proof -
      have "map_of (leases v) (rec_role_name r) = Some t'" using u ok(4) new by (auto simp: unfinished_def)
      then show ?thesis using free(2) u(1) v'(2) by auto
    qed
    show "rec_role_name r = role'" if "map_of (leases v') role' = Some t'" "look s t' = Some r" for role' t' r
      using that v'(2) ok(6) new by (auto split: if_splits)
    show "role'' = role'" if "map_of (leases v') role' = Some t'" "(cs(t \<mapsto> (role, False))) t' = Some (role'', b)"
      for role' t' role'' b
      using that v'(2) ok(5,7) new by (auto split: if_splits)
    show "t' \<in> insert t ds" if "map_of (leases v') role' = Some t'" for role' t'
      using that v'(2) ok(5) by (auto split: if_splits)
  qed (use ok(1,2) new v'(1) in \<open>auto split: if_splits\<close>)
qed

lemma lease_ok_submit:
  assumes lease: "lease_ok look s v cs ds" and inv: "inv s" and call: "cs t = Some (role, False)"
    and started: "step s (Started_task r) s'" "rec_task_id r = t" "rec_role_name r = role"
  shows "lease_ok look s' v (cs(t \<mapsto> (role, True))) ds"
proof -
  note ok = lease_okD [OF lease]
  have lease_t: "map_of (leases v) role = Some t" "look s t = None" "t \<in> pending v"
    using ok(2,3) call by fastforce+
  have old: "\<exists>a. look s t' = Some a \<and> rec_role_name r' = rec_role_name a \<and>
      (\<not> is_terminal (rec_status r') \<longrightarrow> \<not> is_terminal (rec_status a))" if "look s' t' = Some r'" "t' \<noteq> t" for t' r'
    by (rule internal_look [OF started(1) inv that(1)]) (use that(2) started(2) in auto)
  have new: "r' = r" if "look s' t = Some r'" for r'
    using pool_keeps [OF started(1) inv, of t] that lease_t(2) by (simp add: keeps_def)
  show ?thesis
  proof (rule lease_okI)
    show "look s' t' = None \<and> t' \<in> pending v" if c: "(cs(t \<mapsto> (role, True))) t' = Some (role', False)" for t' role'
    proof -
      have t': "t' \<noteq> t" "cs t' = Some (role', False)" using c by (auto split: if_splits)
      then show ?thesis using ok(2) [OF t'(2)] old [OF _ t'(1)] by (cases "look s' t'") force+
    qed
    show "\<exists>role' b. (cs(t \<mapsto> (role, True))) t' = Some (role', b) \<and> map_of (leases v) role' = Some t'"
      if "t' \<in> pending v" for t'
      using ok(3) [OF that] lease_t(1) by auto
    show "map_of (leases v) (rec_role_name r') = Some t'" if u: "unfinished look s' t' r'" "t' \<in> ds" for t' r'
    proof (cases "t' = t")
      case True
      then show ?thesis using new u(1) started(3) lease_t(1) by (auto simp: unfinished_def)
    next
      case False
      then show ?thesis using old [of t' r'] u ok(4) by (fastforce simp: unfinished_def)
    qed
    show "rec_role_name r' = role'" if l: "map_of (leases v) role' = Some t'" "look s' t' = Some r'" for role' t' r'
    proof (cases "t' = t")
      case True
      then show ?thesis using new l ok(7) [OF l(1)] call started(3) by auto
    next
      case False
      then show ?thesis using old [OF l(2)] ok(6) [OF l(1)] by fastforce
    qed
  qed (use ok(1,5,7) call in \<open>auto split: if_splits\<close>)
qed

lemma lease_ok_fail:
  assumes lease: "lease_ok look s v cs ds" and call: "cs t = Some (role, False)"
  shows "lease_ok look s (submit_failed role t (look s t) v) (cs(t := None)) ds"
proof -
  note ok = lease_okD [OF lease]
  have out: "map_of (leases v) role = Some t" "look s t = None" using ok(2,3) call by fastforce+
  then have v': "pending (submit_failed role t (look s t) v) = pending v - {t}"
      "map_of (leases (submit_failed role t (look s t) v)) role' = (if role' = role then None else map_of (leases v) role')"
    for role'
    by (simp_all add: submit_failed_def)
  show ?thesis
  proof (rule lease_okI)
    show "\<exists>role' b. (cs(t := None)) t' = Some (role', b) \<and>
        map_of (leases (submit_failed role t (look s t) v)) role' = Some t'"
      if "t' \<in> pending (submit_failed role t (look s t) v)" for t'
    proof -
      have "t' \<in> pending v" "t' \<noteq> t" using that v'(1) by auto
      then obtain role' b where "cs t' = Some (role', b)" "map_of (leases v) role' = Some t'" using ok(3) by blast
      then show ?thesis using out(1) v'(2) \<open>t' \<noteq> t\<close> by auto
    qed
    show "map_of (leases (submit_failed role t (look s t) v)) (rec_role_name r) = Some t'"
      if u: "unfinished look s t' r" "t' \<in> ds" for t' r
      using ok(4) [OF u] u(1) out v'(2) by (auto simp: unfinished_def)
  qed (use ok v' in \<open>auto split: if_splits\<close>)
qed

lemma lease_ok_return:
  assumes lease: "lease_ok look s v cs ds" and call: "cs t = Some (role, True)"
  shows "lease_ok look s (submitted t v) (cs(t := None)) ds"
  by (rule lease_okI) (use lease_okD [OF lease] in \<open>auto simp: submitted_def split: if_splits\<close>)

lemma lease_ok_observe:
  assumes lease: "lease_ok look s v cs ds" and found: "look s (rec_task_id r) = Some r" "settled_record r"
  shows "lease_ok look s (release_terminal_lease r v) cs ds"
proof -
  note ok = lease_okD [OF lease]
  let ?v = "release_terminal_lease r v"
  have v': "pending ?v = pending v - {rec_task_id r}" "map_of (leases ?v) role = (if role = rec_role_name r
      \<and> map_of (leases v) role = Some (rec_task_id r) then None else map_of (leases v) role)" for role
    using found(2) by (auto simp: release_terminal_lease_def)
  have sub: "map_of (leases v) role = Some t" if "map_of (leases ?v) role = Some t" for role t
    using that v'(2) [of role] by (simp split: if_splits)
  show ?thesis
  proof (rule lease_okI)
    show "look s t = None \<and> t \<in> pending ?v" if "cs t = Some (role, False)" for t role
    proof -
      have "t \<noteq> rec_task_id r" using ok(2) [OF that] found(1) by force
      then show ?thesis using ok(2) [OF that] unfolding v'(1) by simp
    qed
    show "\<exists>role b. cs t = Some (role, b) \<and> map_of (leases ?v) role = Some t" if "t \<in> pending ?v" for t
    proof -
      have t: "t \<in> pending v" "t \<noteq> rec_task_id r" using that unfolding v'(1) by simp_all
      then obtain role b where "cs t = Some (role, b)" "map_of (leases v) role = Some t" using ok(3) by blast
      then show ?thesis using v'(2) [of role] t(2) by simp
    qed
    show "map_of (leases ?v) (rec_role_name a) = Some t" if u: "unfinished look s t a" "t \<in> ds" for t a
    proof -
      have "t \<noteq> rec_task_id r" using u(1) found by (auto simp: unfinished_def settled_record_def)
      then show ?thesis using ok(4) [OF u] v'(2) [of "rec_role_name a"] by simp
    qed
  qed (use ok(1) ok(5-7) [OF sub] in blast)+
qed

theorem dispatch_step_ok: "dispatch_step step look y l y' \<Longrightarrow> system_ok y \<Longrightarrow> system_ok y'"
proof (induction rule: dispatch_step.induct)
  case (do_reserve t y role v)
  then show ?case using lease_ok_reserve [OF _ _ do_reserve.hyps] by (simp add: system_ok_def)
next
  case (do_submit y t role r s)
  then show ?case using lease_ok_submit pool_inv by (auto simp: system_ok_def)
next
  case (do_fail y t role)
  then show ?case using lease_ok_fail by (simp add: system_ok_def)
next
  case (do_return y t role)
  then show ?case using lease_ok_return by (simp add: system_ok_def)
next
  case (do_direct y r s)
  have "lease_ok look s (svc y) (calls y) (dispatched y)"
  proof (rule lease_ok_pool [of "pool y"])
    show "\<exists>ra. look (pool y) t = Some ra \<and> rec_role_name r' = rec_role_name ra \<and>
        (\<not> is_terminal (rec_status r') \<longrightarrow> \<not> is_terminal (rec_status ra))"
      if "look s t = Some r'" "t \<in> dispatched y" for t r'
      by (rule internal_look [OF do_direct.hyps(1) _ that(1)])
        (use do_direct that(2) in \<open>auto simp: system_ok_def\<close>)
  qed (use do_direct.prems in \<open>simp add: system_ok_def\<close>)
  then show ?case using pool_inv [OF do_direct.hyps(1)] do_direct.prems by (simp add: system_ok_def)
next
  case (do_observe y r s)
  then show ?case using lease_ok_observe [of "pool y"] observed [OF do_observe.hyps]
    by (simp add: system_ok_def)
next
  case (do_internal y s)
  have "lease_ok look s (svc y) (calls y) (dispatched y)"
  proof (rule lease_ok_pool [of "pool y"])
    show "\<exists>ra. look (pool y) t = Some ra \<and> rec_role_name r' = rec_role_name ra \<and>
        (\<not> is_terminal (rec_status r') \<longrightarrow> \<not> is_terminal (rec_status ra))"
      if "look s t = Some r'" "t \<in> dispatched y" for t r'
      by (rule internal_look [OF do_internal.hyps(1) _ that(1)])
        (use do_internal in \<open>auto simp: system_ok_def\<close>)
  qed (use do_internal.prems in \<open>simp add: system_ok_def\<close>)
  then show ?case using pool_inv [OF do_internal.hyps(1)] do_internal.prems by (simp add: system_ok_def)
qed

lemma start_ok: "inv s \<Longrightarrow> system_ok (start_system s)"
  by (simp add: system_ok_def start_system_def lease_ok_def)

lemma run_ok: "lrun (dispatch_step step look) y ls y' \<Longrightarrow> system_ok y \<Longrightarrow> system_ok y'"
  by (induction rule: lrun.induct) (simp_all add: dispatch_step_ok)

lemma one_worker:
  assumes "system_ok y" and "t1 \<in> live (pool y)" "t2 \<in> live (pool y)" and "t1 \<in> dispatched y" "t2 \<in> dispatched y"
    and "look (pool y) t1 = Some r1" "look (pool y) t2 = Some r2" and "rec_role_name r1 = rec_role_name r2"
  shows "t1 = t2"
proof -
  have "inv (pool y)" and lease: "lease_ok look (pool y) (svc y) (calls y) (dispatched y)"
    using assms(1) by (simp_all add: system_ok_def)
  then have "unfinished look (pool y) t1 r1" "unfinished look (pool y) t2 r2"
    using live_unfinished assms(2,3,6,7) by (fastforce simp: unfinished_def)+
  then have "map_of (leases (svc y)) (rec_role_name r1) = Some t1" "map_of (leases (svc y)) (rec_role_name r2) = Some t2"
    using lease_okD(4) [OF lease] assms(4,5) by blast+
  then show ?thesis using assms(8) by simp
qed

lemma refused_iff:
  assumes "system_ok y"
  shows "\<not> fst (reserve (look (pool y)) role t (svc y)) \<longleftrightarrow>
    (\<exists>c b. c \<in> pending (svc y) \<and> calls y c = Some (role, b)) \<or>
    (\<exists>c r. c \<in> dispatched y \<and> unfinished look (pool y) c r \<and> rec_role_name r = role)"
proof -
  have inv: "inv (pool y)" and lease: "lease_ok look (pool y) (svc y) (calls y) (dispatched y)"
    using assms by (simp_all add: system_ok_def)
  note ok = lease_okD [OF lease]
  show ?thesis
  proof (cases "map_of (leases (svc y)) role")
    case None
    have "\<not> (c \<in> pending (svc y) \<and> calls y c = Some (role, b))" for c b
      using None ok(3) [of c] by auto
    moreover have "\<not> (c \<in> dispatched y \<and> unfinished look (pool y) c r \<and> rec_role_name r = role)" for c r
      using None ok(4) [of c r] by auto
    ultimately show ?thesis using None by (simp add: reserve_def Let_def)
  next
    case (Some c)
    have settled: "settled_record r \<longleftrightarrow> \<not> unfinished look (pool y) c r" if "look (pool y) c = Some r" for r
      using look_settled [OF inv that] that by (auto simp: settled_record_def unfinished_def)
    have "\<not> fst (reserve (look (pool y)) role t (svc y)) \<longleftrightarrow>
        c \<in> pending (svc y) \<or> (\<exists>r. unfinished look (pool y) c r)"
      using Some settled by (auto simp: reserve_def Let_def unfinished_def split: option.split)
    moreover have "c \<in> pending (svc y) \<longleftrightarrow> (\<exists>c' b. c' \<in> pending (svc y) \<and> calls y c' = Some (role, b))"
    proof
      assume pending: "c \<in> pending (svc y)"
      then obtain role' b where call: "calls y c = Some (role', b)" using ok(3) by blast
      with ok(7) [OF Some this] pending
      show "\<exists>c' b. c' \<in> pending (svc y) \<and> calls y c' = Some (role, b)" by blast
    next
      assume "\<exists>c' b. c' \<in> pending (svc y) \<and> calls y c' = Some (role, b)"
      then obtain c' b where c': "c' \<in> pending (svc y)" "calls y c' = Some (role, b)" by blast
      from ok(3) [OF c'(1)] c'(2) have "map_of (leases (svc y)) role = Some c'" by auto
      with Some c'(1) show "c \<in> pending (svc y)" by simp
    qed
    moreover have "(\<exists>r. unfinished look (pool y) c r) \<longleftrightarrow>
        (\<exists>c' r. c' \<in> dispatched y \<and> unfinished look (pool y) c' r \<and> rec_role_name r = role)"
    proof
      assume "\<exists>r. unfinished look (pool y) c r"
      then obtain r where r: "unfinished look (pool y) c r" by blast
      then have "look (pool y) c = Some r" by (simp add: unfinished_def)
      from ok(6) [OF Some this] ok(5) [OF Some] r
      show "\<exists>c' r. c' \<in> dispatched y \<and> unfinished look (pool y) c' r \<and> rec_role_name r = role" by blast
    next
      assume "\<exists>c' r. c' \<in> dispatched y \<and> unfinished look (pool y) c' r \<and> rec_role_name r = role"
      then obtain c' r where c': "c' \<in> dispatched y" "unfinished look (pool y) c' r" "rec_role_name r = role"
        by blast
      from ok(4) [OF c'(2,1)] c'(3) Some have "c' = c" by simp
      with c'(2) show "\<exists>r. unfinished look (pool y) c r" by blast
    qed
    ultimately show ?thesis by blast
  qed
qed

end

section \<open>The service over the supervisor\<close>

abbreviation worker_record :: "world \<Rightarrow> pystr \<Rightarrow> task_record option" where
  "worker_record w \<equiv> get_record (sup w)"

interpretation role_pool: worker_pool "sup_step env" worker_record alive "sup_inv env" for env
proof
  show "sup_step env s l s' \<Longrightarrow> sup_inv env s \<Longrightarrow> sup_inv env s'" for s l s'
    by (rule sup_step_inv)
  show "keeps l (worker_record s t) (worker_record s' t) True" if "sup_step env s l s'" "sup_inv env s" for s l s' t
    using step_keeps [OF that, of t] by (auto simp: get_record_def keeps_def split: option.splits)
  show "\<exists>r. unfinished worker_record s t r" if "sup_inv env s" "t \<in> alive s" for s t
    using sup_invD(2) [OF that(1), of t] that(2)
    by (auto simp: unfinished_def get_record_def task_ok_def split: option.splits if_splits)
  show "rec_task_id r = t \<and> (is_terminal (rec_status r) \<longrightarrow> rec_confirmed r)"
    if "sup_inv env s" "worker_record s t = Some r" for s t r
    using sup_invD(2) [OF that(1), of t] that(2) by (simp add: get_record_def task_ok_def split: if_splits)
  show "worker_record s (rec_task_id r) = Some r \<and> settled_record r \<and> s' = s"
    if "sup_step env s (Observed r) s'" "sup_inv env s" for s r s'
    using that(1)
  proof cases
    case (step_observe t)
    have "rec_of (sup s) t \<noteq> None"
      using sup_invD(2) [OF that(2), of t] step_observe(2) task_ok_unknown [of s t env] by force
    then obtain a where a: "rec_of (sup s) t = Some a" by blast
    then have "a = r \<and> rec_task_id a = t \<and> is_terminal (rec_status a) \<and> rec_confirmed a"
      using sup_invD(2) [OF that(2), of t] step_observe(2) by (simp add: task_ok_def split: if_splits)
    then show ?thesis using a step_observe(1) by (auto simp: get_record_def settled_record_def)
  qed
qed

definition dispatching :: "sup_env \<Rightarrow> world system \<Rightarrow> bool" where
  "dispatching env y \<longleftrightarrow> (\<exists>w ls. supervised env w \<and>
     lrun (dispatch_step (sup_step env) worker_record) (start_system w) ls y)"

lemma dispatching_ok: "dispatching env y \<Longrightarrow> role_pool.system_ok env y"
  unfolding dispatching_def using role_pool.run_ok role_pool.start_ok supervised_inv by blast
section \<open>Properties\<close>

text \<open>
  C29: at most one worker per role. However dispatches, direct submissions, cancellations,
  monitors and process exits interleave, two live processes of tasks that the dispatch service
  took on for the same role are the same process.
\<close>

theorem one_worker_per_role:
  assumes "dispatching env y" and "t1 \<in> alive (pool y)" "t2 \<in> alive (pool y)"
    and "t1 \<in> dispatched y" "t2 \<in> dispatched y"
    and "worker_record (pool y) t1 = Some r1" "worker_record (pool y) t2 = Some r2"
    and "rec_role_name r1 = rec_role_name r2"
  shows "t1 = t2"
  by (rule role_pool.one_worker [OF dispatching_ok [OF assms(1)] assms(2-8)])

text \<open>
  A role is refused as busy exactly when it is. \<open>_reserve\<close> answers no if and only if another
  dispatch of the role is still being submitted or a task that the service took on for the role
  is unfinished; so no lease outlives its task, and none is lost while the task lives.
\<close>

theorem reserve_refused_iff:
  assumes "dispatching env y"
  shows "\<not> fst (reserve (worker_record (pool y)) role t (svc y)) \<longleftrightarrow>
    (\<exists>c b. c \<in> pending (svc y) \<and> calls y c = Some (role, b)) \<or>
    (\<exists>c r. c \<in> dispatched y \<and> worker_record (pool y) c = Some r \<and> \<not> is_terminal (rec_status r)
       \<and> rec_role_name r = role)"
  using role_pool.refused_iff [OF dispatching_ok [OF assms], of role t] by (simp add: unfinished_def)

definition demo_system :: "world system" where
  "demo_system = \<lparr>pool = demo_busy, svc = \<lparr>leases = [(u ''tester'', u ''t1'')], pending = {u ''t1''}\<rparr>,
     calls = [u ''t1'' \<mapsto> (u ''tester'', True)], dispatched = {u ''t1''}\<rparr>"

lemma demo_dispatching: "dispatching demo_env demo_system"
proof -
  let ?y = "(start_system (start_world demo_sup))\<lparr>svc := \<lparr>leases = [(u ''tester'', u ''t1'')], pending = {u ''t1''}\<rparr>,
     calls := (calls (start_system (start_world demo_sup)))(u ''t1'' \<mapsto> (u ''tester'', False)),
     dispatched := insert (u ''t1'') (dispatched (start_system (start_world demo_sup)))\<rparr>"
  have "dispatch_step (sup_step demo_env) worker_record (start_system (start_world demo_sup)) () ?y"
    by (rule do_reserve) (simp_all add: start_system_def reserve_def Let_def get_record_def start_world_def demo_sup_def)
  moreover have "dispatch_step (sup_step demo_env) worker_record ?y ()
      (?y\<lparr>pool := demo_busy, calls := (calls ?y)(u ''t1'' \<mapsto> (u ''tester'', True))\<rparr>)"
  proof (rule do_submit)
    show "sup_step demo_env (pool ?y) (Started_task demo_running) demo_busy"
      using demo_first by (simp add: start_system_def)
  qed (simp_all add: demo_running_def demo_record_def)
  moreover have "?y\<lparr>pool := demo_busy, calls := (calls ?y)(u ''t1'' \<mapsto> (u ''tester'', True))\<rparr> = demo_system"
    by (simp add: demo_system_def start_system_def)
  ultimately have "lrun (dispatch_step (sup_step demo_env) worker_record) (start_system (start_world demo_sup))
      [(), ()] demo_system"
    by (auto simp: lrun_Cons_iff)
  moreover have "supervised demo_env (start_world demo_sup)"
    unfolding supervised_def using demo_new lrun_Nil [of "sup_step demo_env" "start_world demo_sup"] by metis
  ultimately show ?thesis unfolding dispatching_def by blast
qed

lemma one_worker_per_role_witness:
  "{t. t \<in> alive (pool demo_system) \<and> t \<in> dispatched demo_system \<and>
     map_option rec_role_name (worker_record (pool demo_system) t) = Some (rec_role_name demo_running)} = {u ''t1''}"
proof -
  have found: "worker_record (pool demo_system) (u ''t1'') = Some demo_running" "u ''t1'' \<in> alive (pool demo_system)"
      "u ''t1'' \<in> dispatched demo_system"
    by (simp_all add: demo_system_def demo_busy_def start_world_def get_record_def)
  have "t = u ''t1''" if "t \<in> alive (pool demo_system)" "t \<in> dispatched demo_system"
      "worker_record (pool demo_system) t = Some r" "rec_role_name r = rec_role_name demo_running" for t r
    using one_worker_per_role [OF demo_dispatching that(1) found(2) that(2) found(3) that(3) found(1) that(4)] .
  note only = this
  show ?thesis
  proof (intro equalityI subsetI)
    fix t assume "t \<in> {t. t \<in> alive (pool demo_system) \<and> t \<in> dispatched demo_system \<and>
      map_option rec_role_name (worker_record (pool demo_system) t) = Some (rec_role_name demo_running)}"
    then obtain r where "t \<in> alive (pool demo_system)" "t \<in> dispatched demo_system"
      "worker_record (pool demo_system) t = Some r" "rec_role_name r = rec_role_name demo_running" by blast
    then have "t = u ''t1''" by (rule only)
    then show "t \<in> {u ''t1''}" by blast
  next
    fix t assume "t \<in> {u ''t1''}"
    then have "t = u ''t1''" by (rule singletonD)
    then show "t \<in> {t. t \<in> alive (pool demo_system) \<and> t \<in> dispatched demo_system \<and>
      map_option rec_role_name (worker_record (pool demo_system) t) = Some (rec_role_name demo_running)}"
      using found by simp
  qed
qed

lemma reserve_refused_iff_witness:
  "\<not> fst (reserve (worker_record (pool demo_system)) (u ''tester'') (u ''t2'') (svc demo_system)) \<and>
   fst (reserve (worker_record (pool demo_system)) (u ''writer'') (u ''t2'') (svc demo_system))"
  using reserve_refused_iff [OF demo_dispatching, of "u ''tester''" "u ''t2''"]
    reserve_refused_iff [OF demo_dispatching, of "u ''writer''" "u ''t2''"]
  by (simp add: demo_system_def demo_busy_def start_world_def get_record_def demo_running_def demo_record_def)

text \<open>
  One oversized prompt loses a whole batch. A batch item whose prompt is longer than the
  worker protocol allows passes the checks of the batch, and the error its dispatch then raises
  is not one the loop catches: whatever was dispatched before, no results come back.
\<close>

theorem oversized_item_loses_batch:
  assumes "field d ''role'' = Some (PStr role)" "role \<noteq> []" and "field d ''prompt'' = Some (PStr s)" "py_strip s \<noteq> []"
    and "utf8_length s = Some n" "MAX_WORKER_PROMPT_BYTES < n" and "field d ''timeout'' = None"
    and "get_role role rs = Some (Some p)"
  shows "\<nexists>results. batch_dispatch parse_iso rs (before @ (env, PDict d) # after) = Inr results"
proof -
  have "batch_route rs (PDict d) = ToRole role (PStr s) (PInt 300)"
    using assms(1-4,7) by (simp add: batch_route_def Let_def get_default_def)
  moreover have "\<exists>e. dispatch_by_role parse_iso rs env role (PStr s) (PInt 300) = Inl (BadRequest e)"
  proof -
    have "\<nexists>q. new_request parse_iso (now_text env) (fresh_task env) (fresh_attempt env) (PStr (name p)) (PStr s)
        (PInt 300) (PStr (fresh_task env)) PNone = Inr q"
      using assms(5,6) by (auto simp: new_request_def WorkerTaskRequest_Inr valid_request_def text_fits_def)
    then show ?thesis using assms(8)
      by (cases "new_request parse_iso (now_text env) (fresh_task env) (fresh_attempt env) (PStr (name p)) (PStr s)
        (PInt 300) (PStr (fresh_task env)) PNone") (auto simp: dispatch_by_role_def)
  qed
  ultimately have failed: "\<nexists>r. dispatch_item parse_iso rs (env, PDict d) = Inr r"
    by (auto simp: dispatch_item_def caught_def)
  show ?thesis
  proof
    assume "\<exists>results. batch_dispatch parse_iso rs (before @ (env, PDict d) # after) = Inr results"
    then obtain ys where "list_all2 (\<lambda>x y. dispatch_item parse_iso rs x = Inr y) (before @ (env, PDict d) # after) ys"
      by (auto simp: batch_dispatch_def mapr_Inr)
    then show False using failed by (auto simp: list_all2_append1 list_all2_Cons1)
  qed
qed
definition demo_roles :: roles where
  "demo_roles = [(u ''tester'', (hd BASE_ROLES)\<lparr>name := u ''tester'', parent_role := None\<rparr>)]"

lemma utf8_length_replicate: "utf8_length (replicate n 97) = Some n"
  by (induction n) (simp_all add: utf8_width_def is_surrogate_def)

lemma oversized_item_loses_batch_witness:
  "\<forall>before env. \<nexists>results. batch_dispatch demo_iso demo_roles (before @ [(env,
      PDict [(PStr (u ''role''), PStr (u ''tester'')), (PStr (u ''prompt''), PStr (replicate 32769 97))])]) = Inr results"
proof (intro allI)
  fix before env
  have "\<exists>p. get_role (u ''tester'') demo_roles = Some (Some p)"
    by (simp add: get_role_def demo_roles_def resolve_inheritance_def parent_chain.simps)
  then obtain p where p: "get_role (u ''tester'') demo_roles = Some (Some p)" by blast
  have "py_strip (replicate 32769 97) \<noteq> []"
    by (simp add: py_strip_eq_Nil py_isspace_def)
  moreover have "MAX_WORKER_PROMPT_BYTES < (32769::nat)" unfolding MAX_WORKER_PROMPT_BYTES_def by linarith
  ultimately show "\<nexists>results. batch_dispatch demo_iso demo_roles (before @ [(env,
      PDict [(PStr (u ''role''), PStr (u ''tester'')), (PStr (u ''prompt''), PStr (replicate 32769 97))])]) = Inr results"
    by (intro oversized_item_loses_batch [OF _ _ _ _ utf8_length_replicate _ _ p]) simp_all
qed


end
