(* ===== verification/Event_Bus.thy ===== *)
theory Event_Bus
  imports Py_Value
begin

text \<open>
  The event bus of \<open>src/core/kernel/event_bus.py\<close>: subscriptions by event type (with the
  wildcard \<open>*\<close>), one-shot subscriptions, and a bounded history. A callback is a parameter
  \<open>run\<close>: it may raise (its exception is swallowed) and may call the bus again, so it is a
  function of the bus state. Each operation under the lock is one atomic step.
\<close>

section \<open>State\<close>

record 'd event =
  event_type :: pystr
  ev_source :: pystr
  ev_data :: 'd
  timestamp :: pystr
  correlation_id :: pystr

record 'cb subscription =
  sub_id :: int
  callback :: 'cb
  once :: bool

record ('cb, 'd) bus =
  history :: "'d event list"
  max_history :: nat
  subscribers :: "(pystr, 'cb subscription list) pydict"
  sub_id_counter :: int

datatype bus_error = MaxHistoryNegative | LimitInvalid | EventsInvalid

definition EventBus :: "int \<Rightarrow> bus_error + ('cb, 'd) bus" where
  "EventBus n = (if n < 0 then Inl MaxHistoryNegative
     else Inr \<lparr>history = [], max_history = nat n, subscribers = [], sub_id_counter = 0\<rparr>)"

abbreviation subs_of :: "('cb, 'd) bus \<Rightarrow> pystr \<Rightarrow> 'cb subscription list" where
  "subs_of b t \<equiv> (case map_of (subscribers b) t of None \<Rightarrow> [] | Some ss \<Rightarrow> ss)"

section \<open>Operations\<close>

definition subscribe :: "pystr \<Rightarrow> 'cb \<Rightarrow> bool \<Rightarrow> ('cb, 'd) bus \<Rightarrow> int \<times> ('cb, 'd) bus" where
  "subscribe t cb one b =
     (let i = sub_id_counter b;
          s = \<lparr>sub_id = i, callback = cb, once = one\<rparr>
      in (i, b\<lparr>sub_id_counter := i + 1,
               subscribers := AList.update t (subs_of b t @ [s]) (subscribers b)\<rparr>))"

text \<open>One pass over the keys: filter the list of each, note a removal, drop empty entries.\<close>

definition drop_id :: "int \<Rightarrow> (pystr, 'cb subscription list) pydict \<Rightarrow> (pystr, 'cb subscription list) pydict" where
  "drop_id i d = filter (\<lambda>(t, ss). ss \<noteq> [])
     (map (\<lambda>(t, ss). (t, filter (\<lambda>s. sub_id s \<noteq> i) ss)) d)"

definition unsubscribe :: "pyval \<Rightarrow> ('cb, 'd) bus \<Rightarrow> bool \<times> ('cb, 'd) bus" where
  "unsubscribe v b = (case v of
       PInt i \<Rightarrow>
         (\<exists>(t, ss)\<in>set (subscribers b). length (filter (\<lambda>s. sub_id s \<noteq> i) ss) \<noteq> length ss,
          b\<lparr>subscribers := drop_id i (subscribers b)\<rparr>)
     | _ \<Rightarrow> (False, b))"

definition record_event :: "'d event \<Rightarrow> ('cb, 'd) bus \<Rightarrow> ('cb, 'd) bus" where
  "record_event e b = b\<lparr>history := dq_append (max_history b) (history b) e\<rparr>"

text \<open>
  The critical section of \<open>_notify\<close>: for the event's own type and then the wildcard, collect
  the subscribers and keep only those that are not one-shot.
\<close>

definition take_type :: "pystr \<Rightarrow> 'cb subscription list \<times> (pystr, 'cb subscription list) pydict
    \<Rightarrow> 'cb subscription list \<times> (pystr, 'cb subscription list) pydict" where
  "take_type t = (\<lambda>(calls, d). case map_of d t of
       None \<Rightarrow> (calls, d)
     | Some [] \<Rightarrow> (calls, d)
     | Some ss \<Rightarrow> (let retained = filter (\<lambda>s. \<not> once s) ss in
         (calls @ ss, if retained \<noteq> [] then AList.update t retained d else AList.delete t d)))"

definition notify_types :: "pystr \<Rightarrow> pystr list" where
  "notify_types t = (if t \<noteq> u ''*'' then [t, u ''*''] else [t])"

definition collect_subs :: "'d event \<Rightarrow> ('cb, 'd) bus \<Rightarrow> 'cb subscription list \<times> ('cb, 'd) bus" where
  "collect_subs e b =
     (case fold take_type (notify_types (event_type e)) ([], subscribers b) of
        (calls, d) \<Rightarrow> (calls, b\<lparr>subscribers := d\<rparr>))"

text \<open>
  The delivery loop. \<open>run cb e b\<close> is what a callback does: whether it raised, and the bus after
  it. The result lists the subscriptions called, with the flag.
\<close>

fun deliver :: "('cb \<Rightarrow> 'd event \<Rightarrow> ('cb, 'd) bus \<Rightarrow> bool \<times> ('cb, 'd) bus) \<Rightarrow> 'd event
    \<Rightarrow> 'cb subscription list \<Rightarrow> ('cb, 'd) bus \<Rightarrow> ('cb subscription \<times> bool) list \<times> ('cb, 'd) bus" where
  "deliver run e [] b = ([], b)"
| "deliver run e (s # ss) b =
     (case run (callback s) e b of (raised, b') \<Rightarrow>
        case deliver run e ss b' of (out, b'') \<Rightarrow> ((s, raised) # out, b''))"

definition notify where
  "notify run e b = (case collect_subs e b of (calls, b') \<Rightarrow> deliver run e calls b')"

definition dispatch where
  "dispatch run e b = notify run e (record_event e b)"

definition publish where
  "publish run e b = dispatch run e b"

definition emit where
  "emit run now cid t payload b = dispatch run
     \<lparr>event_type = t, ev_source = u ''event_bus'', ev_data = payload, timestamp = now,
      correlation_id = cid\<rparr> b"

text \<open>
  \<open>record_many\<close>: \<open>None\<close> marks an element that is not an event. \<open>lock\<close> is what happened at the
  lock: no deadline, or a deadline with the outcome of the timed acquisition.
\<close>

datatype lock_attempt = NoDeadline | Deadline (expired: bool) (acquired: bool) (late: bool)

definition record_many :: "'d event option list \<Rightarrow> lock_attempt \<Rightarrow> ('cb, 'd) bus
    \<Rightarrow> bus_error + bool \<times> ('cb, 'd) bus" where
  "record_many es lock b =
     (if None \<in> set es then Inl EventsInvalid
      else let done = Inr (True, b\<lparr>history := dq_extend (max_history b) (history b) (map the es)\<rparr>) in
        (case lock of
           NoDeadline \<Rightarrow> done
         | Deadline ex acq lt \<Rightarrow> if ex \<or> \<not> acq then Inr (False, b)
             else if lt then Inr (False, b) else done))"

definition get_history :: "pystr option \<Rightarrow> pyval \<Rightarrow> ('cb, 'd) bus \<Rightarrow> bus_error + 'd event list" where
  "get_history t limit b = (case limit of
       PInt n \<Rightarrow>
         if n < 0 then Inl LimitInvalid
         else if n = 0 then Inr []
         else Inr (lastn (nat n) (case t of None \<Rightarrow> history b
                | Some ty \<Rightarrow> filter (\<lambda>e. event_type e = ty) (history b)))
     | _ \<Rightarrow> Inl LimitInvalid)"

definition clear_history :: "('cb, 'd) bus \<Rightarrow> ('cb, 'd) bus" where
  "clear_history b = b\<lparr>history := []\<rparr>"

definition get_subscription_count :: "('cb, 'd) bus \<Rightarrow> nat" where
  "get_subscription_count b = sum_list (map (length \<circ> snd) (subscribers b))"

definition destroy :: "('cb, 'd) bus \<Rightarrow> ('cb, 'd) bus" where
  "destroy b = b\<lparr>subscribers := [], history := []\<rparr>"

section \<open>Well-formed subscription tables\<close>

definition ids_in :: "(pystr, 'cb subscription list) pydict \<Rightarrow> int set" where
  "ids_in d = {i. \<exists>t ss s. map_of d t = Some ss \<and> s \<in> set ss \<and> sub_id s = i}"

definition subs_ok :: "int \<Rightarrow> (pystr, 'cb subscription list) pydict \<Rightarrow> bool" where
  "subs_ok n d \<longleftrightarrow> dict_ok d
     \<and> (\<forall>t ss. map_of d t = Some ss \<longrightarrow> ss \<noteq> [] \<and> distinct (map sub_id ss))
     \<and> (\<forall>t t' ss ss'. t \<noteq> t' \<longrightarrow> map_of d t = Some ss \<longrightarrow> map_of d t' = Some ss' \<longrightarrow>
          sub_id ` set ss \<inter> sub_id ` set ss' = {})
     \<and> (\<forall>i\<in>ids_in d. 0 \<le> i \<and> i < n)"

definition bus_inv :: "('cb, 'd) bus \<Rightarrow> bool" where
  "bus_inv b \<longleftrightarrow> subs_ok (sub_id_counter b) (subscribers b) \<and> 0 \<le> sub_id_counter b
     \<and> length (history b) \<le> max_history b"

lemma subs_ok_Nil [simp]: "subs_ok n []"
  by (simp add: subs_ok_def ids_in_def)

lemma ids_inI: "map_of d t = Some ss \<Longrightarrow> s \<in> set ss \<Longrightarrow> sub_id s \<in> ids_in d"
  by (auto simp: ids_in_def)

text \<open>Shrinking the list of one type (or removing the type) keeps the table well formed.\<close>

lemma ids_in_update:
  "map_of d t = Some ss \<Longrightarrow> set ss' \<subseteq> set ss \<Longrightarrow> ids_in (AList.update t ss' d) \<subseteq> ids_in d"
  by (fastforce simp: ids_in_def split: if_splits)

lemma ids_in_delete: "ids_in (AList.delete t d) \<subseteq> ids_in d"
  by (auto simp: ids_in_def split: if_splits)

lemma subs_ok_shrink:
  assumes ok: "subs_ok n d" and t: "map_of d t = Some ss"
    and ss': "ss' = filter p ss" "ss' \<noteq> []"
  shows "subs_ok n (AList.update t ss' d)"
proof -
  have "set ss' \<subseteq> set ss" using ss' by auto
  moreover have "distinct (map sub_id ss')"
    using ok t ss' by (auto simp: subs_ok_def intro: distinct_map_filter)
  ultimately show ?thesis
    using ok ss'(2) t ids_in_update [OF t, of ss']
    unfolding subs_ok_def by (simp split: if_splits) (blast)
qed

lemma subs_ok_delete: "subs_ok n d \<Longrightarrow> subs_ok n (AList.delete t d)"
  using ids_in_delete [of t d] unfolding subs_ok_def by (simp split: if_splits) blast

lemma map_of_filter_ne:
  "dict_ok d \<Longrightarrow> map_of (filter (\<lambda>(t, ss). ss \<noteq> []) d) t =
     (case map_of d t of None \<Rightarrow> None | Some ss \<Rightarrow> if ss = [] then None else Some ss)"
proof (induction d)
  case (Cons x d)
  have "t \<notin> fst ` set d \<Longrightarrow> map_of (filter (\<lambda>(t, ss). ss \<noteq> []) d) t = None"
    by (auto simp: map_of_eq_None_iff)
  with Cons show ?case by (cases x) (auto simp: dict_ok_def)
qed simp

lemma map_of_drop_id:
  assumes "dict_ok d"
  shows "map_of (drop_id i d) t = (case map_of d t of None \<Rightarrow> None | Some ss \<Rightarrow>
     let ss' = filter (\<lambda>s. sub_id s \<noteq> i) ss in if ss' = [] then None else Some ss')"
proof -
  have keys: "dict_ok (map (\<lambda>(t, ss). (t, filter (\<lambda>s. sub_id s \<noteq> i) ss)) d)"
    using assms by (simp add: dict_ok_def comp_def case_prod_beta)
  have "map_of (map (\<lambda>(t, ss). (t, filter (\<lambda>s. sub_id s \<noteq> i) ss)) d) t
      = map_option (filter (\<lambda>s. sub_id s \<noteq> i)) (map_of d t)"
    by (induction d) auto
  with map_of_filter_ne [OF keys, of t] show ?thesis
    by (cases "map_of d t") (simp_all add: drop_id_def Let_def)
qed

lemma dict_ok_drop_id: "dict_ok d \<Longrightarrow> dict_ok (drop_id i d)"
  unfolding drop_id_def dict_ok_def
  by (rule distinct_map_filter) (simp add: comp_def case_prod_beta)

lemma ids_in_drop_id: "dict_ok d \<Longrightarrow> ids_in (drop_id i d) = ids_in d - {i}"
  by (fastforce simp: ids_in_def map_of_drop_id Let_def filter_empty_conv
      split: option.splits if_splits)

lemma subs_ok_drop_id: "subs_ok n d \<Longrightarrow> subs_ok n (drop_id i d)"
  unfolding subs_ok_def
  by (auto simp: dict_ok_drop_id map_of_drop_id ids_in_drop_id Let_def distinct_map_filter
      split: option.splits if_splits) (blast)

lemma subs_ok_subscribe:
  assumes ok: "subs_ok n d" and s: "sub_id s = n" and n: "0 \<le> n"
  shows "subs_ok (n + 1) (AList.update t ((case map_of d t of None \<Rightarrow> [] | Some ss \<Rightarrow> ss) @ [s]) d)"
    (is "subs_ok _ (AList.update t (?old @ [s]) d)")
proof -
  have lt: "sub_id x < n" if "map_of d t' = Some ss" "x \<in> set ss" for t' ss x
    using ok that ids_inI by (fastforce simp: subs_ok_def)
  have old: "sub_id x < n" if "x \<in> set ?old" for x
    using that by (cases "map_of d t") (auto dest: lt)
  have dis: "distinct (map sub_id (?old @ [s]))"
    using ok old s by (cases "map_of d t") (fastforce simp: subs_ok_def)+
  have disj: "sub_id ` set (?old @ [s]) \<inter> sub_id ` set ss' = {}"
    if "t \<noteq> t'" "map_of d t' = Some ss'" for t' ss'
  proof -
    have "sub_id ` set ?old \<inter> sub_id ` set ss' = {}"
      using ok that by (cases "map_of d t") (auto simp: subs_ok_def)
    moreover have "sub_id s \<notin> sub_id ` set ss'" using lt [OF that(2)] s by force
    ultimately show ?thesis by auto
  qed
  have ids: "0 \<le> i \<and> i < n + 1" if i: "i \<in> ids_in (AList.update t (?old @ [s]) d)" for i
  proof -
    have "i = n \<or> i \<in> ids_in d"
      using i s by (cases "map_of d t") (auto simp: ids_in_def split: if_splits)
    then show ?thesis using ok n by (auto simp: subs_ok_def)
  qed
  show ?thesis
    unfolding subs_ok_def
  proof (intro conjI allI impI ballI)
    show "dict_ok (AList.update t (?old @ [s]) d)" using ok by (simp add: subs_ok_def)
  next
    fix t' ss' assume "map_of (AList.update t (?old @ [s]) d) t' = Some ss'"
    then show "ss' \<noteq> []" "distinct (map sub_id ss')"
      using ok dis by (auto simp: subs_ok_def split: if_splits)
  next
    fix t1 t2 ss1 ss2
    assume "t1 \<noteq> t2" and "map_of (AList.update t (?old @ [s]) d) t1 = Some ss1"
      and "map_of (AList.update t (?old @ [s]) d) t2 = Some ss2"
    then show "sub_id ` set ss1 \<inter> sub_id ` set ss2 = {}"
      using ok disj [of t1 ss1] disj [of t2 ss2]
      by (cases "t1 = t"; cases "t2 = t") (auto simp: subs_ok_def Int_commute)
  qed (use ids in auto)
qed

text \<open>The critical section of a notification only shrinks the table.\<close>

lemma take_type_ok: "subs_ok n d \<Longrightarrow> subs_ok n (snd (take_type t (calls, d)))"
proof (cases "map_of d t")
  case (Some ss)
  assume "subs_ok n d"
  then show ?thesis
    using Some subs_ok_shrink [of n d t ss "filter (\<lambda>s. \<not> once s) ss" "\<lambda>s. \<not> once s"]
      subs_ok_delete [of n d t]
    by (cases ss) (simp_all add: take_type_def Let_def)
qed (simp add: take_type_def)

lemma fold_take_type_ok: "subs_ok n d \<Longrightarrow> subs_ok n (snd (fold take_type ts (calls, d)))"
proof (induction ts arbitrary: calls d)
  case (Cons t ts)
  then show ?case using take_type_ok [of n d t calls]
    by (cases "take_type t (calls, d)") simp
qed simp

section \<open>The bus as a state machine\<close>

text \<open>
  Every public operation is one or two critical sections. Any interleaving of threads and
  any call a callback makes back into the bus is a sequence of these atomic steps; a step
  returns the subscriptions it hands to the delivery loop.
\<close>

datatype ('cb, 'd) bus_op =
    OpSubscribe pystr 'cb bool
  | OpUnsubscribe pyval
  | OpRecord "'d event"
  | OpCollect "'d event"
  | OpRecordMany "'d event option list" lock_attempt
  | OpClear
  | OpDestroy

fun bus_step :: "('cb, 'd) bus \<Rightarrow> ('cb, 'd) bus_op \<Rightarrow> 'cb subscription list \<times> ('cb, 'd) bus" where
  "bus_step b (OpSubscribe t cb one) = ([], snd (subscribe t cb one b))"
| "bus_step b (OpUnsubscribe v) = ([], snd (unsubscribe v b))"
| "bus_step b (OpRecord e) = ([], record_event e b)"
| "bus_step b (OpCollect e) = collect_subs e b"
| "bus_step b (OpRecordMany es l) =
     ([], case record_many es l b of Inl _ \<Rightarrow> b | Inr (_, b') \<Rightarrow> b')"
| "bus_step b OpClear = ([], clear_history b)"
| "bus_step b OpDestroy = ([], destroy b)"

fun bus_run :: "('cb, 'd) bus \<Rightarrow> ('cb, 'd) bus_op list \<Rightarrow> 'cb subscription list \<times> ('cb, 'd) bus" where
  "bus_run b [] = ([], b)"
| "bus_run b (x # xs) = (case bus_step b x of (calls, b') \<Rightarrow>
     case bus_run b' xs of (calls', b'') \<Rightarrow> (calls @ calls', b''))"

lemma dq_extend_length: "length xs \<le> n \<Longrightarrow> length (dq_extend n xs ys) \<le> n"
  using dq_extend_lastn [of n xs ys] by (simp add: lastn_short)

lemma bus_step_inv: "bus_inv b \<Longrightarrow> bus_inv (snd (bus_step b x))"
proof (cases x)
  case (OpSubscribe t cb one)
  assume "bus_inv b"
  then show ?thesis
    using OpSubscribe subs_ok_subscribe [of "sub_id_counter b" "subscribers b"
        "\<lparr>sub_id = sub_id_counter b, callback = cb, once = one\<rparr>" t]
    by (simp add: bus_inv_def subscribe_def Let_def)
next
  case (OpCollect e)
  assume "bus_inv b"
  then show ?thesis
    using OpCollect fold_take_type_ok [of "sub_id_counter b" "subscribers b"
        "notify_types (event_type e)" "[]"]
    by (simp add: bus_inv_def collect_subs_def case_prod_beta)
qed (auto simp: bus_inv_def unsubscribe_def record_event_def record_many_def clear_history_def
    destroy_def dq_append_length dq_extend_length subs_ok_drop_id Let_def
    split: pyval.splits lock_attempt.splits sum.splits prod.splits if_splits)

interpretation bus: guarded_machine "\<lambda>b x. snd (bus_step b x)" bus_inv
  by unfold_locales (rule bus_step_inv)

lemma bus_run_state: "snd (bus_run b xs) = foldl (\<lambda>b x. snd (bus_step b x)) b xs"
  by (induction xs arbitrary: b) (simp_all add: case_prod_beta)

lemma EventBus_inv: "EventBus n = Inr b \<Longrightarrow> bus_inv b"
  by (auto simp: EventBus_def bus_inv_def split: if_splits)

interpretation bus_log: bounded_log record_event history max_history
  by unfold_locales (simp_all add: record_event_def)

section \<open>What a notification collects\<close>

lemma take_type_calls:
  "take_type t (calls, d) = (calls @ (case map_of d t of None \<Rightarrow> [] | Some ss \<Rightarrow> ss),
     case map_of d t of None \<Rightarrow> d | Some [] \<Rightarrow> d
     | Some ss \<Rightarrow> (if filter (\<lambda>s. \<not> once s) ss \<noteq> [] then AList.update t (filter (\<lambda>s. \<not> once s) ss) d
                  else AList.delete t d))"
  by (auto simp: take_type_def Let_def split: option.splits list.splits)

lemma collect_subs_calls:
  "fst (collect_subs e b) = subs_of b (event_type e)
     @ (if event_type e = u ''*'' then [] else subs_of b (u ''*''))"
proof -
  have "map_of (snd (take_type t (calls, d))) t' = map_of d t'" if "t' \<noteq> t" for t t' calls d
    using that by (auto simp: take_type_calls split: option.splits list.splits)
  then show ?thesis
    by (simp add: collect_subs_def notify_types_def case_prod_beta take_type_calls
        split: option.splits list.splits)
qed

definition after_collect :: "'cb subscription list option \<Rightarrow> 'cb subscription list option" where
  "after_collect m = (case m of None \<Rightarrow> None | Some ss \<Rightarrow>
     if ss = [] then Some [] else
       (let kept = filter (\<lambda>s. \<not> once s) ss in if kept = [] then None else Some kept))"

lemma take_type_lookup:
  "map_of (snd (take_type t (calls, d))) t' =
     (if t' = t then after_collect (map_of d t) else map_of d t')"
  by (auto simp: take_type_calls after_collect_def Let_def split: option.splits list.splits)

lemma collect_subs_lookup:
  "map_of (subscribers (snd (collect_subs e b))) t =
     (if t = event_type e \<or> t = u ''*'' then after_collect (map_of (subscribers b) t)
      else map_of (subscribers b) t)"
proof -
  have fold2: "fold take_type [a, c] x = take_type c (take_type a x)" for a c and x :: "'a subscription list \<times> _"
    by simp
  obtain c1 d1 where 1: "take_type (event_type e) ([], subscribers b) = (c1, d1)"
    by (cases "take_type (event_type e) ([], subscribers b)")
  then have d1: "map_of d1 t' = (if t' = event_type e then after_collect (map_of (subscribers b) (event_type e))
      else map_of (subscribers b) t')" for t'
    using take_type_lookup [of "event_type e" "[]" "subscribers b" t'] by simp
  show ?thesis
  proof (cases "event_type e = u ''*''")
    case True
    then show ?thesis using 1 d1 by (simp add: collect_subs_def notify_types_def case_prod_beta)
  next
    case False
    then have "subscribers (snd (collect_subs e b)) = snd (take_type (u ''*'') (c1, d1))"
      using 1 by (simp add: collect_subs_def notify_types_def case_prod_beta)
    then show ?thesis using False d1 by (simp add: take_type_lookup)
  qed
qed

lemma after_collect_SomeD:
  "after_collect m = Some ss \<Longrightarrow> \<exists>ss0. m = Some ss0 \<and> set ss \<subseteq> set ss0 \<and> (\<forall>s\<in>set ss. \<not> once s)"
  by (auto simp: after_collect_def Let_def split: option.splits if_splits)

lemma collect_subs_entry:
  assumes "map_of (subscribers (snd (collect_subs e b))) t = Some ss"
  shows "\<exists>ss0. map_of (subscribers b) t = Some ss0 \<and> set ss \<subseteq> set ss0 \<and>
    (t = event_type e \<or> t = u ''*'' \<longrightarrow> (\<forall>s\<in>set ss. \<not> once s))"
proof (cases "t = event_type e \<or> t = u ''*''")
  case True
  then show ?thesis using assms after_collect_SomeD by (fastforce simp: collect_subs_lookup)
qed (use assms in \<open>auto simp: collect_subs_lookup\<close>)

lemma collect_subs_ids: "ids_in (subscribers (snd (collect_subs e b))) \<subseteq> ids_in (subscribers b)"
proof
  fix i assume "i \<in> ids_in (subscribers (snd (collect_subs e b)))"
  then obtain t ss s where "map_of (subscribers (snd (collect_subs e b))) t = Some ss" "s \<in> set ss"
    "sub_id s = i" by (auto simp: ids_in_def)
  then show "i \<in> ids_in (subscribers b)" using collect_subs_entry ids_inI by blast
qed

lemma in_subs_of: "s \<in> set (subs_of b t) \<longleftrightarrow> (\<exists>ss. map_of (subscribers b) t = Some ss \<and> s \<in> set ss)"
  by (cases "map_of (subscribers b) t") auto

lemma same_id_same_entry:
  assumes "subs_ok n d" and "map_of d t = Some ss" "s \<in> set ss"
    and "map_of d t' = Some ss'" "s' \<in> set ss'" and "sub_id s = sub_id s'"
  shows "t = t' \<and> s = s'"
proof (cases "t = t'")
  case True
  then show ?thesis using assms by (auto simp: subs_ok_def distinct_map inj_on_def)
next
  case False
  then have "sub_id ` set ss \<inter> sub_id ` set ss' = {}" using assms unfolding subs_ok_def by blast
  then show ?thesis using assms by auto
qed

lemma collected_entry:
  assumes "s \<in> set (fst (collect_subs e b))"
  obtains t ss where "t = event_type e \<or> t = u ''*''" "map_of (subscribers b) t = Some ss" "s \<in> set ss"
  using assms in_subs_of [of s b "event_type e"] in_subs_of [of s b "u ''*''"]
  by (auto simp: collect_subs_calls split: if_splits)

lemma collect_subs_once_gone:
  assumes inv: "bus_inv b" and s: "s \<in> set (fst (collect_subs e b))" and one: "once s"
  shows "sub_id s \<notin> ids_in (subscribers (snd (collect_subs e b)))"
proof
  assume "sub_id s \<in> ids_in (subscribers (snd (collect_subs e b)))"
  then obtain t ss x where t: "map_of (subscribers (snd (collect_subs e b))) t = Some ss"
    and x: "x \<in> set ss" "sub_id x = sub_id s" by (auto simp: ids_in_def)
  from t obtain ss0 where ss0: "map_of (subscribers b) t = Some ss0" "set ss \<subseteq> set ss0"
    and kept: "t = event_type e \<or> t = u ''*'' \<longrightarrow> (\<forall>y\<in>set ss. \<not> once y)"
    using collect_subs_entry by blast
  from s obtain t1 ss1 where t1: "t1 = event_type e \<or> t1 = u ''*''"
    "map_of (subscribers b) t1 = Some ss1" "s \<in> set ss1" by (rule collected_entry)
  have "t = t1 \<and> x = s"
    using same_id_same_entry [OF _ ss0(1) _ t1(2,3) x(2)] inv x(1) ss0(2)
    by (auto simp: bus_inv_def)
  then show False using kept t1(1) x(1) one by auto
qed

lemma fresh_ids: "bus_inv b \<Longrightarrow> sub_id_counter b \<notin> ids_in (subscribers b)"
  by (auto simp: bus_inv_def subs_ok_def)

lemma bus_step_counter: "sub_id_counter b \<le> sub_id_counter (snd (bus_step b x))"
  by (cases x) (auto simp: subscribe_def unsubscribe_def record_event_def collect_subs_def
      record_many_def clear_history_def destroy_def Let_def
      split: pyval.splits lock_attempt.splits sum.splits prod.splits if_splits)

text \<open>A step adds no id but the fresh one of a new subscription.\<close>

lemma bus_step_ids:
  "bus_inv b \<Longrightarrow> i \<in> ids_in (subscribers (snd (bus_step b x))) \<Longrightarrow>
     i \<in> ids_in (subscribers b) \<or> sub_id_counter b \<le> i"
proof (cases x)
  case (OpSubscribe t cb one)
  assume "i \<in> ids_in (subscribers (snd (bus_step b x)))"
  with OpSubscribe show ?thesis
    by (cases "map_of (subscribers b) t")
       (auto simp: subscribe_def Let_def ids_in_def split: if_splits)
next
  case (OpUnsubscribe v)
  assume "bus_inv b" and "i \<in> ids_in (subscribers (snd (bus_step b x)))"
  with OpUnsubscribe show ?thesis
    by (auto simp: unsubscribe_def bus_inv_def subs_ok_def ids_in_drop_id split: pyval.splits)
next
  case (OpCollect e)
  assume "i \<in> ids_in (subscribers (snd (bus_step b x)))"
  with OpCollect show ?thesis using collect_subs_ids [of e b] by auto
next
  case OpDestroy
  assume "i \<in> ids_in (subscribers (snd (bus_step b x)))"
  with OpDestroy show ?thesis by (simp add: destroy_def ids_in_def)
qed (auto simp: record_event_def record_many_def clear_history_def Let_def
    split: lock_attempt.splits sum.splits prod.splits if_splits)

lemma bus_step_called:
  assumes "s \<in> set (fst (bus_step b x))"
  obtains e where "x = OpCollect e" "s \<in> set (fst (collect_subs e b))"
  using assms by (cases x) auto

lemma collected_ids: "s \<in> set (fst (collect_subs e b)) \<Longrightarrow> sub_id s \<in> ids_in (subscribers b)"
  by (erule collected_entry) (rule ids_inI)

lemma collect_subs_distinct:
  assumes "bus_inv b" shows "distinct (map sub_id (fst (collect_subs e b)))"
proof -
  have "sub_id ` set (subs_of b (event_type e)) \<inter> sub_id ` set (subs_of b (u ''*'')) = {}"
    if "event_type e \<noteq> u ''*''"
    using assms that
    by (cases "map_of (subscribers b) (event_type e)"; cases "map_of (subscribers b) (u ''*'')")
       (auto simp: bus_inv_def subs_ok_def)
  moreover have "distinct (map sub_id (subs_of b t))" for t
    using assms by (cases "map_of (subscribers b) t") (auto simp: bus_inv_def subs_ok_def)
  ultimately show ?thesis by (simp add: collect_subs_calls)
qed

text \<open>
  An id that is neither in the table nor still to be issued is never called again; a one-shot
  subscription leaves the table when it is called.
\<close>

lemma dead_id_not_called:
  "bus_inv b \<Longrightarrow> i \<notin> ids_in (subscribers b) \<Longrightarrow> i < sub_id_counter b \<Longrightarrow>
     \<forall>s\<in>set (fst (bus_run b xs)). sub_id s \<noteq> i"
proof (induction xs arbitrary: b)
  case (Cons x xs)
  have "bus_inv (snd (bus_step b x))" using Cons.prems(1) by (rule bus_step_inv)
  moreover have "i \<notin> ids_in (subscribers (snd (bus_step b x)))"
    using bus_step_ids [OF Cons.prems(1)] Cons.prems(2,3) by force
  moreover have "i < sub_id_counter (snd (bus_step b x))"
    using bus_step_counter [of b x] Cons.prems(3) by linarith
  ultimately have "\<forall>s\<in>set (fst (bus_run (snd (bus_step b x)) xs)). sub_id s \<noteq> i"
    by (rule Cons.IH)
  moreover have "\<forall>s\<in>set (fst (bus_step b x)). sub_id s \<noteq> i"
    using Cons.prems(2) collected_ids by (blast elim: bus_step_called)
  ultimately show ?case by (auto simp: case_prod_beta)
qed simp

lemma once_called_once:
  "bus_inv b \<Longrightarrow> distinct (map sub_id (filter once (fst (bus_run b xs))))"
proof (induction xs arbitrary: b)
  case (Cons x xs)
  let ?b = "snd (bus_step b x)" and ?now = "fst (bus_step b x)"
  have inv: "bus_inv ?b" using Cons.prems by (rule bus_step_inv)
  have "distinct (map sub_id ?now)"
    using Cons.prems collect_subs_distinct by (cases x) auto
  then have now: "distinct (map sub_id (filter once ?now))" by (rule distinct_map_filter)
  have "\<forall>s'\<in>set (fst (bus_run ?b xs)). sub_id s' \<noteq> sub_id s" if s: "s \<in> set ?now" "once s" for s
  proof -
    from s(1) obtain e where e: "x = OpCollect e" "s \<in> set (fst (collect_subs e b))"
      by (rule bus_step_called)
    have "sub_id s < sub_id_counter b"
      using Cons.prems collected_ids [OF e(2)] by (auto simp: bus_inv_def subs_ok_def)
    then have "sub_id s < sub_id_counter ?b" using bus_step_counter [of b x] by linarith
    then show ?thesis
      using dead_id_not_called [OF inv] collect_subs_once_gone [OF Cons.prems e(2) s(2)] e(1) by simp
  qed
  then have "sub_id ` set (filter once ?now) \<inter> sub_id ` set (filter once (fst (bus_run ?b xs))) = {}"
    by fastforce
  with now Cons.IH [OF inv] show ?case by (simp add: case_prod_beta)
qed simp

section \<open>Properties\<close>

text \<open>
  C4: in every execution of the bus, however threads and re-entrant callbacks interleave its
  critical sections, a one-shot subscription is handed to the delivery loop at most once.
\<close>

theorem once_subscription_called_at_most_once:
  assumes "EventBus n = Inr b"
  shows "distinct (map sub_id (filter once (fst (bus_run b xs))))"
  using EventBus_inv [OF assms] by (rule once_called_once)

lemma once_subscription_called_at_most_once_witness:
  "distinct (map sub_id (filter once (fst (bus_run
     (\<lparr>history = [], max_history = 1, subscribers = [], sub_id_counter = 0\<rparr> :: (nat, nat) bus)
     [OpSubscribe (u ''a'') 7 True]))))"
  by (rule once_subscription_called_at_most_once [of 1]) (simp add: EventBus_def)

lemma length_filter_neq: "length (filter P xs) \<noteq> length xs \<longleftrightarrow> (\<exists>x\<in>set xs. \<not> P x)"
  by (metis (no_types, lifting) filter_True length_filter_less less_irrefl)

lemma unsubscribe_removed_iff:
  assumes "bus_inv b"
  shows "fst (unsubscribe (PInt i) b) \<longleftrightarrow> i \<in> ids_in (subscribers b)"
proof -
  have "(t, ss) \<in> set (subscribers b) \<longleftrightarrow> map_of (subscribers b) t = Some ss" for t ss
    using assms by (simp add: bus_inv_def subs_ok_def dict_ok_def)
  then show ?thesis by (fastforce simp: unsubscribe_def ids_in_def length_filter_neq)
qed

lemma unsubscribe_never_called:
  assumes inv: "bus_inv b" and i: "i \<in> ids_in (subscribers b)"
  shows "\<forall>s\<in>set (fst (bus_run (snd (unsubscribe (PInt i) b)) xs)). sub_id s \<noteq> i"
proof (rule dead_id_not_called)
  show "bus_inv (snd (unsubscribe (PInt i) b))"
    using bus_step_inv [OF inv, of "OpUnsubscribe (PInt i)"] by simp
  show "i \<notin> ids_in (subscribers (snd (unsubscribe (PInt i) b)))"
    "i < sub_id_counter (snd (unsubscribe (PInt i) b))"
    using inv i by (auto simp: unsubscribe_def ids_in_drop_id bus_inv_def subs_ok_def)
qed

text \<open>
  At any point of any execution, \<open>unsubscribe\<close> reports True exactly when the id is
  subscribed, and then no later step of the execution ever calls that subscription.
\<close>

theorem unsubscribe_final:
  assumes "EventBus n = Inr b0" and "b = snd (bus_run b0 ys)"
  shows "(fst (unsubscribe (PInt i) b) \<longleftrightarrow> i \<in> ids_in (subscribers b)) \<and>
    (fst (unsubscribe (PInt i) b) \<longrightarrow>
      (\<forall>s\<in>set (fst (bus_run (snd (unsubscribe (PInt i) b)) xs)). sub_id s \<noteq> i))"
proof -
  have "bus_inv b"
    unfolding assms(2) bus_run_state by (rule bus.run_inv) (rule EventBus_inv [OF assms(1)])
  then show ?thesis using unsubscribe_removed_iff unsubscribe_never_called by blast
qed

lemma unsubscribe_final_witness:
  "fst (unsubscribe (PInt 0) (snd (bus_run
     (\<lparr>history = [], max_history = 1, subscribers = [], sub_id_counter = 0\<rparr> :: (nat, nat) bus)
     [OpSubscribe (u ''a'') 7 False])))"
proof -
  let ?b0 = "\<lparr>history = [], max_history = 1, subscribers = [], sub_id_counter = 0\<rparr> :: (nat, nat) bus"
  have "EventBus 1 = Inr ?b0" by (simp add: EventBus_def)
  from unsubscribe_final [where i = 0 and ys = "[OpSubscribe (u ''a'') 7 False]", OF this refl,
      THEN conjunct1, THEN iffD2]
  show ?thesis by (simp add: subscribe_def ids_in_def)
qed

fun recorded :: "'d event list \<Rightarrow> ('cb, 'd) bus_op list \<Rightarrow> 'd event list" where
  "recorded acc [] = acc"
| "recorded acc (OpRecord e # xs) = recorded (acc @ [e]) xs"
| "recorded acc (OpRecordMany es l # xs) =
     recorded (if None \<in> set es \<or> (case l of NoDeadline \<Rightarrow> False | Deadline ex acq lt \<Rightarrow> ex \<or> \<not> acq \<or> lt)
               then acc else acc @ map the es) xs"
| "recorded acc (OpClear # xs) = recorded [] xs"
| "recorded acc (OpDestroy # xs) = recorded [] xs"
| "recorded acc (_ # xs) = recorded acc xs"

lemma max_history_step [simp]: "max_history (snd (bus_step b x)) = max_history b"
  by (cases x) (auto simp: subscribe_def unsubscribe_def record_event_def collect_subs_def
      record_many_def clear_history_def destroy_def Let_def
      split: pyval.splits lock_attempt.splits sum.splits prod.splits if_splits)

lemma max_history_run [simp]: "max_history (snd (bus_run b xs)) = max_history b"
  by (induction xs arbitrary: b) (simp_all add: case_prod_beta)

lemma bus_run_history:
  "history b = lastn (max_history b) acc \<Longrightarrow>
     history (snd (bus_run b xs)) = lastn (max_history b) (recorded acc xs)"
proof (induction acc xs arbitrary: b rule: recorded.induct)
  case (2 acc e xs)
  then show ?case by (simp add: case_prod_beta record_event_def dq_append_lastn)
next
  case (3 acc es l xs)
  then show ?case
    by (cases l) (auto simp: case_prod_beta record_many_def dq_extend_lastn Let_def)
next
  case (4 acc xs)
  then show ?case by (simp add: case_prod_beta clear_history_def lastn_def)
next
  case (5 acc xs)
  then show ?case by (simp add: case_prod_beta destroy_def lastn_def)
qed (auto simp: case_prod_beta subscribe_def unsubscribe_def collect_subs_def Let_def split: pyval.splits)

text \<open>
  The history is exact: after any execution it holds the newest \<open>max_history\<close> of all the
  events recorded since the last \<open>clear\<close> or \<open>destroy\<close>, in order, and \<open>get_history\<close> returns the
  newest \<open>limit\<close> of those of the wanted type.
\<close>

theorem history_is_newest_recorded:
  assumes "EventBus n = Inr b0" and "b = snd (bus_run b0 xs)" and "0 < k"
  shows "history b = lastn (nat n) (recorded [] xs) \<and>
    get_history (Some t) (PInt k) b
      = Inr (lastn (nat k) (filter (\<lambda>e. event_type e = t) (lastn (nat n) (recorded [] xs))))"
proof -
  have "history b = lastn (nat n) (recorded [] xs)"
    using assms(1,2) bus_run_history [of b0 "[]" xs]
    by (auto simp: EventBus_def lastn_def split: if_splits)
  then show ?thesis using assms(3) by (simp add: get_history_def)
qed

lemma history_is_newest_recorded_witness:
  "history (snd (bus_run
     (\<lparr>history = [], max_history = 1, subscribers = [], sub_id_counter = 0\<rparr> :: (nat, nat) bus)
     [OpRecord \<lparr>event_type = u ''a'', ev_source = u ''s'', ev_data = 1, timestamp = [], correlation_id = []\<rparr>,
      OpRecord \<lparr>event_type = u ''b'', ev_source = u ''s'', ev_data = 2, timestamp = [], correlation_id = []\<rparr>]))
   = [\<lparr>event_type = u ''b'', ev_source = u ''s'', ev_data = 2, timestamp = [], correlation_id = []\<rparr>]"
proof -
  let ?b0 = "\<lparr>history = [], max_history = 1, subscribers = [], sub_id_counter = 0\<rparr> :: (nat, nat) bus"
  have "EventBus 1 = Inr ?b0" by (simp add: EventBus_def)
  from history_is_newest_recorded [where k = 1, OF this refl, THEN conjunct1]
  show ?thesis by (simp add: lastn_def del: bus_run.simps)
qed

lemma deliver_calls: "map fst (fst (deliver run e ss b)) = ss"
  by (induction ss arbitrary: b) (simp_all add: case_prod_beta)

text \<open>
  A notification calls every subscriber of the event's own type and then every wildcard
  subscriber, in subscription order, each exactly once, whatever the callbacks do: neither an
  exception nor a call back into the bus keeps a later subscriber from being called.
\<close>

theorem notify_calls_every_subscriber:
  "map fst (fst (dispatch run e b)) = subs_of b (event_type e)
     @ (if event_type e = u ''*'' then [] else subs_of b (u ''*''))"
  using collect_subs_calls [of e "record_event e b"]
  by (simp add: dispatch_def notify_def case_prod_beta deliver_calls)
     (simp add: record_event_def)

end
