(* ===== verification/Workflow_Dag.thy ===== *)
theory Workflow_Dag
  imports Py_Value
begin

text \<open>
  The workflow engine of \<open>src/core/brain/workflow_dag.py\<close>: validation of the graph, Kahn layering,
  and layer-by-layer execution under the two failure policies. The dispatch callback is a
  parameter: \<open>Inr\<close> its output, \<open>Inl\<close> the exception text. Time stamps and durations are left out.
  \<open>None\<close> as the value of the layering means that its loop ran out of fuel; it never does.
\<close>

section \<open>Data\<close>

record wf_node =
  node_id :: pystr
  agent_name :: pystr
  prompt :: pystr
  depends_on :: "pystr list"
  wf_timeout :: int
  metadata :: "(pyval \<times> pyval) list"

datatype wf_error =
    NotNonEmptyString string
  | IdentifierTooLong string
  | TooManyNodes
  | DuplicateNode pystr
  | SelfDependency pystr
  | UnknownDependency pystr pystr
  | TooManyEdges
  | CycleAmong "pystr list"
  | DefinitionNotObject
  | NodesMissing
  | NodeNotObject nat
  | DependsOnInvalid nat
  | TimeoutInvalid nat
  | MetadataInvalid nat

record workflow =
  workflow_id :: pystr
  nodes :: "(pystr, wf_node) pydict"
  layers :: "pystr list list"

definition WORKFLOW_MAX_NODES :: nat where "WORKFLOW_MAX_NODES = 512"
definition WORKFLOW_MAX_EDGES :: nat where "WORKFLOW_MAX_EDGES = 4096"
definition WORKFLOW_MAX_PARALLELISM :: int where "WORKFLOW_MAX_PARALLELISM = 16"
definition WORKFLOW_DEFAULT_TIMEOUT_SECONDS :: int where "WORKFLOW_DEFAULT_TIMEOUT_SECONDS = 300"

section \<open>Construction and validation\<close>

definition validate_identifier :: "pyval \<Rightarrow> string \<Rightarrow> wf_error + pystr" where
  "validate_identifier v field_name = (case v of
       PStr s \<Rightarrow> if py_strip s = [] then Inl (NotNonEmptyString field_name)
                else if length s > 128 then Inl (IdentifierTooLong field_name) else Inr s
     | _ \<Rightarrow> Inl (NotNonEmptyString field_name))"

fun add_nodes :: "wf_node list \<Rightarrow> (pystr, wf_node) pydict \<Rightarrow> wf_error + (pystr, wf_node) pydict" where
  "add_nodes [] d = Inr d"
| "add_nodes (n # ns) d =
     (if map_of d (node_id n) \<noteq> None then Inl (DuplicateNode (node_id n))
      else add_nodes ns (AList.update (node_id n) n d))"

text \<open>One node's dependencies in order; the running edge count is threaded through.\<close>

fun check_edges :: "(pystr, wf_node) pydict \<Rightarrow> pystr \<Rightarrow> pystr list \<Rightarrow> nat \<Rightarrow> wf_error + nat" where
  "check_edges d v [] c = Inr c"
| "check_edges d v (x # xs) c =
     (if x = v then Inl (SelfDependency v)
      else if map_of d x = None then Inl (UnknownDependency v x)
      else check_edges d v xs (Suc c))"

fun count_edges :: "(pystr, wf_node) pydict \<Rightarrow> wf_node list \<Rightarrow> nat \<Rightarrow> wf_error + nat" where
  "count_edges d [] c = Inr c"
| "count_edges d (n # ns) c =
     bindr (check_edges d (node_id n) (depends_on n) c) (count_edges d ns)"

definition validate_edges :: "(pystr, wf_node) pydict \<Rightarrow> wf_error + unit" where
  "validate_edges d = bindr (count_edges d (map snd d) 0)
     (\<lambda>c. ensure (c \<le> WORKFLOW_MAX_EDGES) TooManyEdges)"

section \<open>Kahn layering\<close>

definition list_of :: "('k, 'a list) pydict \<Rightarrow> 'k \<Rightarrow> 'a list" where
  "list_of m k = (case map_of m k of None \<Rightarrow> [] | Some l \<Rightarrow> l)"

definition dependents_of :: "(pystr, wf_node) pydict \<Rightarrow> (pystr, pystr list) pydict" where
  "dependents_of d = foldl (\<lambda>m n. foldl (\<lambda>m x.
       AList.update x (list_of m x @ [node_id n]) m) m (depends_on n))
     (map (\<lambda>(k, n). (k, [])) d) (map snd d)"

definition indegree_of :: "(pystr, wf_node) pydict \<Rightarrow> (pystr, int) pydict" where
  "indegree_of d = map (\<lambda>(k, n). (k, int (length (depends_on n)))) d"

definition rem_of :: "(pystr, int) pydict \<Rightarrow> pystr \<Rightarrow> int" where
  "rem_of m x = (case map_of m x of None \<Rightarrow> 0 | Some r \<Rightarrow> r)"

text \<open>The body of the inner loop: decrement one dependent, schedule it when it reaches zero.\<close>

definition release :: "(pystr, int) pydict \<times> pystr list \<Rightarrow> pystr \<Rightarrow> (pystr, int) pydict \<times> pystr list" where
  "release = (\<lambda>(rem, nxt) x.
     let r = rem_of rem x - 1
     in (AList.update x r rem, if r = 0 then nxt @ [x] else nxt))"

definition next_layer :: "(pystr, pystr list) pydict \<Rightarrow> pystr list \<Rightarrow> (pystr, int) pydict
    \<Rightarrow> (pystr, int) pydict \<times> pystr list" where
  "next_layer deps cur rem = foldl release (rem, [])
     (concat (map (list_of deps) cur))"

fun kahn :: "nat \<Rightarrow> (pystr, pystr list) pydict \<Rightarrow> pystr list \<Rightarrow> (pystr, int) pydict \<Rightarrow> pystr list list
    \<Rightarrow> nat \<Rightarrow> (pystr list list \<times> (pystr, int) pydict \<times> nat) option" where
  "kahn 0 deps cur rem acc visited = None"
| "kahn (Suc fuel) deps cur rem acc visited =
     (if cur = [] then Some (acc, rem, visited)
      else case next_layer deps cur rem of (rem', nxt) \<Rightarrow>
        kahn fuel deps (sort nxt) rem' (acc @ [cur]) (visited + length cur))"

definition compute_layers :: "(pystr, wf_node) pydict \<Rightarrow> (wf_error + pystr list list) option" where
  "compute_layers d =
     (case kahn (Suc (length d)) (dependents_of d)
             (sort (map fst (filter (\<lambda>(k, r). r = 0) (indegree_of d)))) (indegree_of d) [] 0 of
        None \<Rightarrow> None
      | Some (ls, rem, visited) \<Rightarrow>
          Some (if visited \<noteq> length d
                then Inl (CycleAmong (sort (map fst (filter (\<lambda>(k, r). r > 0) rem))))
                else Inr ls))"

definition Workflow :: "pyval \<Rightarrow> wf_node list \<Rightarrow> (wf_error + workflow) option" where
  "Workflow wid ns =
     (case validate_identifier wid ''workflow_id'' of
        Inl e \<Rightarrow> Some (Inl e)
      | Inr w \<Rightarrow>
          if length ns > WORKFLOW_MAX_NODES then Some (Inl TooManyNodes)
          else (case add_nodes ns [] of
              Inl e \<Rightarrow> Some (Inl e)
            | Inr d \<Rightarrow> (case validate_edges d of
                  Inl e \<Rightarrow> Some (Inl e)
                | Inr _ \<Rightarrow> (case compute_layers d of
                      None \<Rightarrow> None
                    | Some (Inl e) \<Rightarrow> Some (Inl e)
                    | Some (Inr ls) \<Rightarrow>
                        Some (Inr \<lparr>workflow_id = w, nodes = d, layers = ls\<rparr>)))))"

section \<open>Reading a definition\<close>

text \<open>\<open>dict(value)\<close>: a mapping, or a sequence of pairs.\<close>

fun pair_of :: "pyval \<Rightarrow> (pyval \<times> pyval) option" where
  "pair_of (PList [k, v]) = Some (k, v)"
| "pair_of (PTuple [k, v]) = Some (k, v)"
| "pair_of (PStr [a, b]) = Some (PStr [a], PStr [b])"
| "pair_of (PDict [(k, _), (k', _)]) = Some (k, k')"
| "pair_of _ = None"

fun hashable :: "pyval \<Rightarrow> bool" where
  "hashable (PList _) = False"
| "hashable (PDict _) = False"
| "hashable (PTuple xs) = list_all hashable xs"
| "hashable _ = True"

fun dict_of_pairs :: "pyval list \<Rightarrow> (pyval \<times> pyval) list \<Rightarrow> (pyval \<times> pyval) list option" where
  "dict_of_pairs [] d = Some d"
| "dict_of_pairs (x # xs) d = (case pair_of x of
     Some (k, v) \<Rightarrow> if hashable k then dict_of_pairs xs (AList.update k v d) else None
   | None \<Rightarrow> None)"

definition dict_of :: "pyval \<Rightarrow> (pyval \<times> pyval) list option" where
  "dict_of v = (case v of
       PDict d \<Rightarrow> Some d
     | PList xs \<Rightarrow> dict_of_pairs xs []
     | PTuple xs \<Rightarrow> dict_of_pairs xs []
     | PStr [] \<Rightarrow> Some []
     | _ \<Rightarrow> None)"

text \<open>\<open>str_of\<close> is Python's \<open>str()\<close> on a value that is not a string.\<close>

definition node_from_dict :: "(pyval \<Rightarrow> pystr) \<Rightarrow> nat \<Rightarrow> pyval \<Rightarrow> wf_error + wf_node" where
  "node_from_dict str_of i raw = (case raw of
       PDict d \<Rightarrow>
         (case get_default d ''depends_on'' (PList []) of
            PList ds \<Rightarrow>
              if \<not> list_all (\<lambda>x. as_str x \<noteq> None) ds then Inl (DependsOnInvalid i)
              else (case get_default d ''timeout'' (PInt WORKFLOW_DEFAULT_TIMEOUT_SECONDS) of
                  PInt t \<Rightarrow>
                    bindr (validate_identifier (get_default d ''node_id'' PNone) ''node_id'') (\<lambda>nid.
                    bindr (validate_identifier (get_default d ''agent_name'' PNone) ''agent_name'') (\<lambda>an.
                      (case dict_of (get_default d ''metadata'' (PDict [])) of
                         None \<Rightarrow> Inl (MetadataInvalid i)
                       | Some md \<Rightarrow> Inr \<lparr>node_id = nid, agent_name = an,
                           prompt = (case get_default d ''prompt'' (PStr []) of PStr s \<Rightarrow> s | v \<Rightarrow> str_of v),
                           depends_on = map (\<lambda>x. the (as_str x)) ds, wf_timeout = t, metadata = md\<rparr>)))
                | _ \<Rightarrow> Inl (TimeoutInvalid i))
          | _ \<Rightarrow> Inl (DependsOnInvalid i))
     | _ \<Rightarrow> Inl (NodeNotObject i))"

definition workflow_from_dict :: "(pyval \<Rightarrow> pystr) \<Rightarrow> pyval \<Rightarrow> (wf_error + workflow) option" where
  "workflow_from_dict str_of data = (case data of
       PDict d \<Rightarrow>
         (case get_default d ''nodes'' PNone of
            PList raw \<Rightarrow>
              if raw = [] then Some (Inl NodesMissing)
              else (case mapr (\<lambda>(i, r). node_from_dict str_of i r) (enumerate 0 raw) of
                  Inl e \<Rightarrow> Some (Inl e)
                | Inr ns \<Rightarrow> Workflow (get_default d ''workflow_id'' PNone) ns)
          | _ \<Rightarrow> Some (Inl NodesMissing))
     | _ \<Rightarrow> Some (Inl DefinitionNotObject))"

section \<open>Execution\<close>

datatype node_status = PENDING | RUNNING | SUCCEEDED | FAILED | SKIPPED

datatype failure_policy = FAIL_FAST | CONTINUE

datatype node_error = DependencyNotSucceeded | AbortedByFailFast | Raised pystr

record 'o node_result =
  res_id :: pystr
  status :: node_status
  node_output :: "'o option"
  res_error :: "node_error option"

record 'o run_result =
  run_workflow_id :: pystr
  success :: bool
  run_layers_of :: "pystr list list"
  results :: "(pystr, 'o node_result) pydict"

datatype engine_error = DispatchNotCallable | MaxParallelismInvalid

text \<open>The constructor's guard on \<open>max_parallelism\<close> (a boolean is refused).\<close>

definition engine_init :: "pyval \<Rightarrow> engine_error + int" where
  "engine_init mp = (case mp of
       PInt n \<Rightarrow> if 1 \<le> n \<and> n \<le> WORKFLOW_MAX_PARALLELISM then Inr n else Inl MaxParallelismInvalid
     | _ \<Rightarrow> Inl MaxParallelismInvalid)"

definition pending_result :: "pystr \<Rightarrow> 'o node_result" where
  "pending_result v = \<lparr>res_id = v, status = PENDING, node_output = None, res_error = None\<rparr>"

definition skipped_result :: "node_error \<Rightarrow> pystr \<Rightarrow> 'o node_result" where
  "skipped_result e v = \<lparr>res_id = v, status = SKIPPED, node_output = None, res_error = Some e\<rparr>"

definition execute_node :: "(wf_node \<Rightarrow> pystr + 'o) \<Rightarrow> workflow \<Rightarrow> pystr \<Rightarrow> 'o node_result" where
  "execute_node dispatch w v = (case map_of (nodes w) v of
       None \<Rightarrow> \<lparr>res_id = v, status = FAILED, node_output = None, res_error = Some (Raised (u ''KeyError''))\<rparr>
     | Some n \<Rightarrow> (case dispatch n of
           Inl e \<Rightarrow> \<lparr>res_id = v, status = FAILED, node_output = None, res_error = Some (Raised e)\<rparr>
         | Inr y \<Rightarrow> \<lparr>res_id = v, status = SUCCEEDED, node_output = Some y, res_error = None\<rparr>))"

definition status_in :: "(pystr, 'o node_result) pydict \<Rightarrow> pystr \<Rightarrow> node_status option" where
  "status_in rs v = map_option status (map_of rs v)"

definition dependencies_satisfied :: "workflow \<Rightarrow> (pystr, 'o node_result) pydict \<Rightarrow> pystr \<Rightarrow> bool" where
  "dependencies_satisfied w rs v = (case map_of (nodes w) v of
       None \<Rightarrow> False
     | Some n \<Rightarrow> list_all (\<lambda>x. status_in rs x = Some SUCCEEDED) (depends_on n))"

text \<open>The futures of a layer complete in the order \<open>sched\<close> gives them; each result is then stored.\<close>

definition run_layer :: "(pystr list \<Rightarrow> pystr list) \<Rightarrow> (wf_node \<Rightarrow> pystr + 'o) \<Rightarrow> workflow \<Rightarrow> pystr list
    \<Rightarrow> (pystr, 'o node_result) pydict \<Rightarrow> (pystr, 'o node_result) pydict" where
  "run_layer sched dispatch w layer rs =
     foldl (\<lambda>rs v. AList.update v (execute_node dispatch w v) rs) rs (sched layer)"

definition any_failed :: "(pystr, 'o node_result) pydict \<Rightarrow> bool" where
  "any_failed rs = list_ex (\<lambda>(v, r). status r = FAILED) rs"

definition abort_pending :: "(pystr, 'o node_result) pydict \<Rightarrow> (pystr, 'o node_result) pydict" where
  "abort_pending rs = map (\<lambda>(v, r). (v, if status r = PENDING then skipped_result AbortedByFailFast v else r)) rs"

text \<open>The loop over the layers. The second component is the sequence of dispatched nodes.\<close>

fun run_layers :: "failure_policy \<Rightarrow> (pystr list \<Rightarrow> pystr list) \<Rightarrow> (wf_node \<Rightarrow> pystr + 'o) \<Rightarrow> workflow
    \<Rightarrow> pystr list list \<Rightarrow> (pystr, 'o node_result) pydict \<Rightarrow> pystr list
    \<Rightarrow> (pystr, 'o node_result) pydict \<times> pystr list" where
  "run_layers pol sched dispatch w [] rs calls = (rs, calls)"
| "run_layers pol sched dispatch w (l # ls) rs calls =
     (let runnable = filter (dependencies_satisfied w rs) l;
          skipped = filter (\<lambda>v. v \<notin> set runnable) l;
          rs1 = foldl (\<lambda>rs v. AList.update v (skipped_result DependencyNotSucceeded v) rs) rs skipped;
          rs2 = (if runnable \<noteq> [] then run_layer sched dispatch w runnable rs1 else rs1);
          calls' = calls @ (if runnable \<noteq> [] then sched runnable else [])
      in if pol = FAIL_FAST \<and> any_failed rs2 then (abort_pending rs2, calls')
         else run_layers pol sched dispatch w ls rs2 calls')"

definition failed_nodes :: "(pystr, 'o node_result) pydict \<Rightarrow> pystr list" where
  "failed_nodes rs = map fst (filter (\<lambda>(v, r). status r = FAILED) rs)"

definition engine_run :: "failure_policy \<Rightarrow> (pystr list \<Rightarrow> pystr list) \<Rightarrow> (wf_node \<Rightarrow> pystr + 'o) \<Rightarrow> workflow
    \<Rightarrow> pystr list + 'o run_result" where
  "engine_run pol sched dispatch w =
     (let rs = fst (run_layers pol sched dispatch w (layers w)
                (map (\<lambda>(v, n). (v, pending_result v)) (nodes w)) []);
          ok = list_all (\<lambda>(v, r). status r = SUCCEEDED) rs
      in if \<not> ok \<and> pol = FAIL_FAST
         then Inl (if failed_nodes rs = [] then [u ''<none>''] else failed_nodes rs)
         else Inr \<lparr>run_workflow_id = workflow_id w, success = ok, run_layers_of = layers w, results = rs\<rparr>)"

section \<open>Well-formed graphs\<close>

definition deps_in :: "(pystr, wf_node) pydict \<Rightarrow> pystr \<Rightarrow> pystr list" where
  "deps_in d v = (case map_of d v of None \<Rightarrow> [] | Some n \<Rightarrow> depends_on n)"

definition graph_ok :: "(pystr, wf_node) pydict \<Rightarrow> bool" where
  "graph_ok d \<longleftrightarrow> dict_ok d \<and> (\<forall>(k, n)\<in>set d. node_id n = k
     \<and> (\<forall>x\<in>set (depends_on n). x \<noteq> k \<and> x \<in> fst ` set d))"

lemma add_nodes_ok:
  "add_nodes ns d = Inr d' \<Longrightarrow> dict_ok d \<Longrightarrow> (\<forall>(k, n)\<in>set d. node_id n = k) \<Longrightarrow>
     dict_ok d' \<and> (\<forall>(k, n)\<in>set d'. node_id n = k) \<and> map snd d' = map snd d @ ns"
proof (induction ns arbitrary: d)
  case (Cons n ns)
  then have new: "node_id n \<notin> set (map fst d)"
    by (auto simp: map_of_eq_None_iff split: if_splits)
  have "add_nodes ns (d @ [(node_id n, n)]) = Inr d'"
    using Cons.prems(1) new by (simp add: keys_update_absent split: if_splits)
  moreover have "dict_ok (d @ [(node_id n, n)])" using Cons.prems(2) new by (simp add: dict_ok_def)
  ultimately show ?case using Cons.IH [of "d @ [(node_id n, n)]"] Cons.prems(3) by auto
qed auto

lemma check_edges_Inr:
  "check_edges d v xs c = Inr c' \<longleftrightarrow>
     (\<forall>x\<in>set xs. x \<noteq> v \<and> x \<in> fst ` set d) \<and> c' = c + length xs"
  by (induction xs arbitrary: c) (auto simp: map_of_eq_None_iff)

lemma count_edges_Inr:
  "count_edges d ns c = Inr c' \<longleftrightarrow>
     (\<forall>n\<in>set ns. \<forall>x\<in>set (depends_on n). x \<noteq> node_id n \<and> x \<in> fst ` set d)
     \<and> c' = c + sum_list (map (length \<circ> depends_on) ns)"
  by (induction ns arbitrary: c) (auto simp: bindr_Inr_iff check_edges_Inr)

lemma validate_edges_ok:
  assumes "validate_edges d = Inr x" "dict_ok d" "\<forall>(k, n)\<in>set d. node_id n = k"
  shows "graph_ok d \<and> sum_list (map (length \<circ> depends_on \<circ> snd) d) \<le> WORKFLOW_MAX_EDGES"
  using assms
  by (fastforce simp: validate_edges_def bindr_Inr_iff ensure_Inr count_edges_Inr graph_ok_def
      comp_def)

lemma deps_in_mem: "x \<in> set (deps_in d v) \<longleftrightarrow> (\<exists>n. map_of d v = Some n \<and> x \<in> set (depends_on n))"
  by (cases "map_of d v") (simp_all add: deps_in_def)

lemma deps_in_ok:
  assumes "graph_ok d" and "x \<in> set (deps_in d v)"
  shows "x \<noteq> v \<and> x \<in> fst ` set d"
proof -
  obtain n where "(v, n) \<in> set d" and "x \<in> set (depends_on n)"
    using assms(2) by (auto simp: deps_in_mem dest: map_of_SomeD)
  then show ?thesis using assms(1) unfolding graph_ok_def by blast
qed

section \<open>One round of Kahn's algorithm\<close>

definition count_in :: "'a list \<Rightarrow> 'a \<Rightarrow> int" where
  "count_in xs x = int (count_list xs x)"

lemma rem_of_update [simp]: "rem_of (AList.update y r m) x = (if x = y then r else rem_of m x)"
  by (simp add: rem_of_def)

text \<open>
  Releasing a list of dependents: every counter drops by its number of occurrences, and the
  nodes appended are exactly those whose counter went from positive to zero or below.
\<close>

lemma release_all:
  assumes "distinct nxt" and "\<forall>x\<in>set nxt. rem_of m x \<le> 0"
  shows "(\<forall>x. rem_of (fst (foldl release (m, nxt) xs)) x = rem_of m x - count_in xs x)
    \<and> set (snd (foldl release (m, nxt) xs)) =
        set nxt \<union> {x \<in> set xs. 0 < rem_of m x \<and> rem_of m x \<le> count_in xs x}
    \<and> distinct (snd (foldl release (m, nxt) xs))"
  using assms
proof (induction xs arbitrary: m nxt)
  case (Cons y ys)
  define m' where "m' = AList.update y (rem_of m y - 1) m"
  define nxt' where "nxt' = (if rem_of m y - 1 = 0 then nxt @ [y] else nxt)"
  have step: "release (m, nxt) y = (m', nxt')"
    by (simp add: release_def m'_def nxt'_def Let_def)
  have m': "rem_of m' x = (if x = y then rem_of m y - 1 else rem_of m x)" for x
    by (simp add: m'_def)
  have "distinct nxt'" "\<forall>x\<in>set nxt'. rem_of m' x \<le> 0"
    using Cons.prems by (auto simp: nxt'_def m')
  from Cons.IH [OF this] have IH:
    "\<forall>x. rem_of (fst (foldl release (m', nxt') ys)) x = rem_of m' x - count_in ys x"
    "set (snd (foldl release (m', nxt') ys)) =
        set nxt' \<union> {x \<in> set ys. 0 < rem_of m' x \<and> rem_of m' x \<le> count_in ys x}"
    "distinct (snd (foldl release (m', nxt') ys))" by auto
  have cnt: "count_in (y # ys) x = (if x = y then 1 else 0) + count_in ys x" for x
    by (simp add: count_in_def)
  have pos: "0 < count_in ys x \<longleftrightarrow> x \<in> set ys" "0 \<le> count_in ys x" for x
    using count_list_0_iff [of ys x] by (auto simp: count_in_def)
  have mem: "x \<in> set nxt' \<or> (x \<in> set ys \<and> 0 < rem_of m' x \<and> rem_of m' x \<le> count_in ys x)
      \<longleftrightarrow> x \<in> set nxt \<or> (x \<in> set (y # ys) \<and> 0 < rem_of m x \<and> rem_of m x \<le> count_in (y # ys) x)" for x
  proof (cases "x = y")
    case True
    have "y \<in> set nxt' \<longleftrightarrow> y \<in> set nxt \<or> rem_of m y = 1" by (auto simp: nxt'_def)
    with True show ?thesis
      unfolding m' cnt using pos [of y] by (cases "y \<in> set ys") (simp_all, linarith+)
  next
    case False
    then show ?thesis unfolding m' cnt by (auto simp: nxt'_def)
  qed
  have set_eq: "set (snd (foldl release (m', nxt') ys)) =
      set nxt \<union> {x \<in> set (y # ys). 0 < rem_of m x \<and> rem_of m x \<le> count_in (y # ys) x}"
    using IH(2) mem by blast
  have rem_eq: "rem_of (fst (foldl release (m', nxt') ys)) x = rem_of m x - count_in (y # ys) x" for x
    using IH(1) by (simp add: m' cnt)
  show ?case unfolding foldl_Cons step by (intro conjI allI rem_eq set_eq IH(3))
qed (auto simp: count_in_def)


text \<open>The dependents table: how often \<open>v\<close> occurs in the entry of \<open>x\<close> is how often \<open>v\<close> names \<open>x\<close>.\<close>

lemma list_of_update [simp]: "list_of (AList.update k l m) k' = (if k' = k then l else list_of m k')"
  by (simp add: list_of_def)

lemma add_dependents:
  "count_list (list_of (foldl (\<lambda>m x. AList.update x (list_of m x @ [a]) m) m xs) x) v
     = count_list (list_of m x) v + (if v = a then count_list xs x else 0)"
  by (induction xs arbitrary: m) (auto simp: count_list_append)

lemma dependents_fold:
  "count_list (list_of (foldl (\<lambda>m n. foldl (\<lambda>m x. AList.update x (list_of m x @ [node_id n]) m) m (depends_on n))
      m ns) x) v
   = count_list (list_of m x) v
     + sum_list (map (\<lambda>n. if node_id n = v then count_list (depends_on n) x else 0) ns)"
  by (induction ns arbitrary: m) (auto simp: add_dependents)

lemma sum_unique_key:
  "dict_ok d \<Longrightarrow> \<forall>(k, n)\<in>set d. node_id n = k \<Longrightarrow>
     sum_list (map (\<lambda>n. if node_id n = v then f n else 0) (map snd d))
       = (case map_of d v of None \<Rightarrow> 0 | Some n \<Rightarrow> (f n :: nat))"
proof (induction d)
  case (Cons a d)
  obtain k n where a: "a = (k, n)" by (cases a)
  have "k \<notin> fst ` set d" using Cons.prems(1) by (simp add: a dict_ok_def)
  then have "k = v \<Longrightarrow> map_of d v = None" by (simp add: map_of_eq_None_iff)
  moreover have "sum_list (map (\<lambda>n. if node_id n = v then f n else 0) (map snd d))
       = (case map_of d v of None \<Rightarrow> 0 | Some n \<Rightarrow> f n)"
    using Cons by (simp add: dict_ok_def)
  ultimately show ?case using Cons.prems(2) by (auto simp: a)
qed simp

lemma dependents_count:
  assumes "graph_ok d"
  shows "count_list (list_of (dependents_of d) x) v = count_list (deps_in d v) x"
proof -
  have "list_of (map (\<lambda>(k, n). (k, [] :: pystr list)) d) x = []"
    by (induction d) (auto simp: list_of_def)
  moreover have "\<forall>(k, n)\<in>set d. node_id n = k" "dict_ok d" using assms by (auto simp: graph_ok_def)
  ultimately show ?thesis
    using sum_unique_key [of d v "\<lambda>n. count_list (depends_on n) x"]
    unfolding dependents_of_def dependents_fold by (cases "map_of d v") (simp_all add: deps_in_def)
qed

text \<open>Occurrences of \<open>v\<close> among the dependents of a layer: its dependencies inside the layer.\<close>

lemma count_layer:
  assumes "graph_ok d" and "distinct cur"
  shows "count_list (concat (map (list_of (dependents_of d)) cur)) v
    = length (filter (\<lambda>x. x \<in> set cur) (deps_in d v))"
  using assms(2)
proof (induction cur)
  case (Cons c cur)
  have "length (filter (\<lambda>x. x = c \<or> x \<in> set cur) xs)
      = count_list xs c + length (filter (\<lambda>x. x \<in> set cur) xs)" for xs
    using Cons.prems by (induction xs) auto
  with Cons show ?case by (simp add: dependents_count [OF assms(1)])
qed simp


section \<open>The layering specification\<close>

text \<open>
  \<open>layered d P ls\<close>: each layer is exactly the set of nodes that are not scheduled yet and whose
  dependencies all are, in sorted order; \<open>P\<close> is what was scheduled before.
\<close>

definition ready :: "(pystr, wf_node) pydict \<Rightarrow> pystr set \<Rightarrow> pystr set" where
  "ready d P = {v \<in> fst ` set d. v \<notin> P \<and> set (deps_in d v) \<subseteq> P}"

fun layered :: "(pystr, wf_node) pydict \<Rightarrow> pystr set \<Rightarrow> pystr list list \<Rightarrow> bool" where
  "layered d P [] = True"
| "layered d P (l # ls) = (l \<noteq> [] \<and> sorted l \<and> distinct l \<and> set l = ready d P
     \<and> layered d (P \<union> set l) ls)"

definition kahn_inv :: "(pystr, wf_node) pydict \<Rightarrow> pystr set \<Rightarrow> pystr list \<Rightarrow> (pystr, int) pydict \<Rightarrow> bool" where
  "kahn_inv d P cur rem \<longleftrightarrow> P \<subseteq> fst ` set d \<and> (\<forall>v\<in>P. set (deps_in d v) \<subseteq> P)
     \<and> (\<forall>v\<in>fst ` set d. rem_of rem v = int (length (filter (\<lambda>x. x \<notin> P) (deps_in d v))))
     \<and> set cur = ready d P \<and> distinct cur \<and> sorted cur"

lemma filter_none_iff: "length (filter (\<lambda>x. x \<notin> P) xs) = 0 \<longleftrightarrow> set xs \<subseteq> P"
  by (auto simp: filter_empty_conv)

lemma kahn_round:
  assumes ok: "graph_ok d" and inv: "kahn_inv d P cur rem"
    and step: "next_layer (dependents_of d) cur rem = (rem', nxt)"
  shows "kahn_inv d (P \<union> set cur) (sort nxt) rem'"
proof -
  let ?V = "fst ` set d" and ?Q = "P \<union> set cur"
  let ?ds = "concat (map (list_of (dependents_of d)) cur)"
  have P: "P \<subseteq> ?V" "\<And>v. v \<in> P \<Longrightarrow> set (deps_in d v) \<subseteq> P"
    and rem: "\<And>v. v \<in> ?V \<Longrightarrow> rem_of rem v = int (length (filter (\<lambda>x. x \<notin> P) (deps_in d v)))"
    and cur: "set cur = ready d P" "distinct cur"
    using inv by (auto simp: kahn_inv_def)
  have rel: "foldl release (rem, []) ?ds = (rem', nxt)" using step by (simp add: next_layer_def)
  have rem': "rem_of rem' x = rem_of rem x - count_in ?ds x" for x
    using release_all [of "[]" rem ?ds] rel by simp
  have nxt: "set nxt = {x \<in> set ?ds. 0 < rem_of rem x \<and> rem_of rem x \<le> count_in ?ds x}" "distinct nxt"
    using release_all [of "[]" rem ?ds] rel by simp_all
  have cnt: "count_in ?ds v = int (length (filter (\<lambda>x. x \<in> set cur) (deps_in d v)))" for v
    using count_layer [OF ok cur(2)] by (simp add: count_in_def)
  have disj: "P \<inter> set cur = {}" using cur by (auto simp: ready_def)
  have split: "length (filter (\<lambda>x. x \<notin> P) xs) =
      length (filter (\<lambda>x. x \<notin> ?Q) xs) + length (filter (\<lambda>x. x \<in> set cur) xs)" for xs
    using disj by (induction xs) auto
  have rem2: "rem_of rem' v = int (length (filter (\<lambda>x. x \<notin> ?Q) (deps_in d v)))" if "v \<in> ?V" for v
    using that by (simp add: rem' rem cnt split)
  have ds: "x \<in> set ?ds \<longleftrightarrow> 0 < count_in ?ds x" for x
    using count_list_0_iff [of ?ds x] by (auto simp: count_in_def)
  have inV: "x \<in> ?V" if "x \<in> set ?ds" for x
  proof -
    have "filter (\<lambda>y. y \<in> set cur) (deps_in d x) \<noteq> []" using that ds [of x] by (auto simp: cnt)
    then have "deps_in d x \<noteq> []" by auto
    then show ?thesis by (force simp: deps_in_def image_iff dest: map_of_SomeD split: option.splits)
  qed
  have "x \<in> set nxt \<longleftrightarrow> x \<in> ready d ?Q" for x
  proof (cases "x \<in> ?V")
    case True
    have "x \<in> P \<union> set cur \<longleftrightarrow> rem_of rem x = 0"
      using True P(2) cur(1) rem [OF True] filter_none_iff [of P "deps_in d x"] by (auto simp: ready_def)
    moreover have "set (deps_in d x) \<subseteq> ?Q \<longleftrightarrow> rem_of rem' x = 0"
      using rem2 [OF True] filter_none_iff [of ?Q "deps_in d x"] by auto
    moreover have "0 \<le> rem_of rem' x" "0 \<le> rem_of rem x" using rem2 [OF True] rem [OF True] by auto
    ultimately show ?thesis
      using True rem' [of x] ds [of x] by (auto simp: nxt ready_def)
  next
    case False
    then show ?thesis using inV by (auto simp: nxt ready_def)
  qed
  then have "set nxt = ready d ?Q" by blast
  moreover have "\<forall>v\<in>?Q. set (deps_in d v) \<subseteq> ?Q" using P(2) cur(1) by (auto simp: ready_def)
  moreover have "?Q \<subseteq> ?V" using P(1) cur(1) by (auto simp: ready_def)
  ultimately show ?thesis using nxt(2) rem2 by (simp add: kahn_inv_def)
qed


lemma kahn_result:
  assumes ok: "graph_ok d"
  shows "kahn_inv d P cur rem \<Longrightarrow> card (fst ` set d - P) < fuel \<Longrightarrow>
    \<exists>ls rem'. kahn fuel (dependents_of d) cur rem acc n
        = Some (acc @ ls, rem', n + length (concat ls))
      \<and> layered d P ls \<and> kahn_inv d (P \<union> set (concat ls)) [] rem'"
proof (induction fuel arbitrary: P cur rem acc n)
  case (Suc fuel)
  show ?case
  proof (cases "cur = []")
    case True
    then show ?thesis using Suc.prems by (intro exI [of _ "[]"] exI [of _ rem]) simp
  next
    case False
    obtain rem1 nxt where step: "next_layer (dependents_of d) cur rem = (rem1, nxt)"
      by (cases "next_layer (dependents_of d) cur rem")
    have cur: "set cur = ready d P" "distinct cur" "sorted cur"
      using Suc.prems(1) by (simp_all add: kahn_inv_def)
    have inv1: "kahn_inv d (P \<union> set cur) (sort nxt) rem1"
      using ok Suc.prems(1) step by (rule kahn_round)
    have sub: "set cur \<subseteq> fst ` set d - P" using cur(1) by (auto simp: ready_def)
    have "card (fst ` set d - (P \<union> set cur)) < card (fst ` set d - P)"
    proof (rule psubset_card_mono)
      obtain c where "c \<in> set cur" using False by (cases cur) auto
      then show "fst ` set d - (P \<union> set cur) \<subset> fst ` set d - P" using sub by blast
    qed simp
    then have "card (fst ` set d - (P \<union> set cur)) < fuel" using Suc.prems(2) by linarith
    from Suc.IH [OF inv1 this, of "acc @ [cur]" "n + length cur"] obtain ls rem' where
      "kahn fuel (dependents_of d) (sort nxt) rem1 (acc @ [cur]) (n + length cur)
        = Some ((acc @ [cur]) @ ls, rem', n + length cur + length (concat ls))"
      "layered d (P \<union> set cur) ls" "kahn_inv d (P \<union> set cur \<union> set (concat ls)) [] rem'"
      by blast
    then show ?thesis
      using step False cur by (intro exI [of _ "cur # ls"] exI [of _ rem']) (simp add: Un_assoc)
  qed
qed simp

lemma kahn_start:
  assumes "graph_ok d"
  shows "kahn_inv d {} (sort (map fst (filter (\<lambda>(k, r). r = 0) (indegree_of d)))) (indegree_of d)"
proof -
  have rem: "rem_of (indegree_of d) v = int (length (deps_in d v))" for v
    by (induction d) (auto simp: indegree_of_def rem_of_def deps_in_def)
  have d: "dict_ok d" using assms by (simp add: graph_ok_def)
  have lookup: "(v, n) \<in> set d \<Longrightarrow> deps_in d v = depends_on n" for v n
    using d by (simp add: deps_in_def dict_ok_def)
  have "set (map fst (filter (\<lambda>(k, r). r = 0) (indegree_of d))) = ready d {}"
    using lookup by (force simp: indegree_of_def ready_def)
  moreover have "distinct (map fst (filter (\<lambda>(k, r). r = 0) (indegree_of d)))"
    using d by (intro distinct_map_filter) (simp add: indegree_of_def dict_ok_def comp_def case_prod_beta)
  ultimately show ?thesis by (simp add: kahn_inv_def rem)
qed

section \<open>Cycles\<close>

definition dep_edges :: "(pystr, wf_node) pydict \<Rightarrow> (pystr \<times> pystr) set" where
  "dep_edges d = {(x, v). x \<in> set (deps_in d v)}"

lemma dep_edges_finite:
  assumes "graph_ok d" shows "finite (dep_edges d)"
proof (rule finite_subset)
  show "dep_edges d \<subseteq> fst ` set d \<times> fst ` set d"
    using deps_in_ok [OF assms] by (force simp: dep_edges_def deps_in_mem dest: map_of_SomeD)
qed simp

lemma layered_avoids_cycle:
  assumes "layered d P ls" and "\<And>v. v \<in> S \<Longrightarrow> \<exists>x\<in>S. x \<in> set (deps_in d v)" and "S \<inter> P = {}"
  shows "S \<inter> (P \<union> set (concat ls)) = {}"
  using assms(1,3)
proof (induction ls arbitrary: P)
  case (Cons l ls)
  have "v \<notin> set l" if v: "v \<in> S" for v
  proof
    assume "v \<in> set l"
    then have "set (deps_in d v) \<subseteq> P" using Cons.prems(1) by (simp add: ready_def)
    with assms(2) [OF v] Cons.prems(2) show False by blast
  qed
  then have "S \<inter> set l = {}" by blast
  then have "S \<inter> (P \<union> set l \<union> set (concat ls)) = {}"
    using Cons.prems by (intro Cons.IH) auto
  then show ?case by auto
qed simp

text \<open>The layering schedules every node exactly when the graph has no cycle.\<close>

lemma layered_complete_iff:
  assumes ok: "graph_ok d" and lay: "layered d {} ls" and stuck: "ready d (set (concat ls)) = {}"
  shows "set (concat ls) = fst ` set d \<longleftrightarrow> acyclic (dep_edges d)"
proof
  assume all: "set (concat ls) = fst ` set d"
  show "acyclic (dep_edges d)"
  proof (rule acyclicI, rule allI, rule notI)
    fix v assume v: "(v, v) \<in> (dep_edges d)\<^sup>+"
    let ?S = "{x. (x, x) \<in> (dep_edges d)\<^sup>+}"
    have pre: "\<exists>x\<in>?S. x \<in> set (deps_in d w)" if "w \<in> ?S" for w
    proof -
      from that obtain x where "(w, x) \<in> (dep_edges d)\<^sup>*" "(x, w) \<in> dep_edges d"
        by (auto dest: tranclD2)
      then have "(x, x) \<in> (dep_edges d)\<^sup>+" by (meson rtrancl_into_trancl2)
      then show ?thesis using \<open>(x, w) \<in> dep_edges d\<close> by (auto simp: dep_edges_def)
    qed
    from layered_avoids_cycle [OF lay pre] have "?S \<inter> fst ` set d = {}" using all by simp
    moreover from pre [of v] v have "v \<in> fst ` set d"
      by (force simp: deps_in_mem dest: map_of_SomeD)
    ultimately show False using v by blast
  qed
next
  assume "acyclic (dep_edges d)"
  then have wf: "wf (dep_edges d)" using dep_edges_finite [OF ok] by (rule finite_acyclic_wf [rotated])
  have sub: "set (concat ls) \<subseteq> fst ` set d" if "layered d P ls" for P ls
    using that by (induction ls arbitrary: P) (auto simp: ready_def)
  show "set (concat ls) = fst ` set d"
  proof (rule ccontr)
    assume "set (concat ls) \<noteq> fst ` set d"
    then obtain w where "w \<in> fst ` set d - set (concat ls)" using sub [OF lay] by blast
    from wfE_min [OF wf this] obtain v where v: "v \<in> fst ` set d - set (concat ls)"
      and min: "\<And>x. (x, v) \<in> dep_edges d \<Longrightarrow> x \<notin> fst ` set d - set (concat ls)" by blast
    have "set (deps_in d v) \<subseteq> set (concat ls)"
      using min deps_in_ok [OF ok] by (fastforce simp: dep_edges_def)
    with v stuck show False by (auto simp: ready_def)
  qed
qed

lemma layered_distinct:
  "layered d P ls \<Longrightarrow> distinct (concat ls) \<and> set (concat ls) \<inter> P = {} \<and> set (concat ls) \<subseteq> fst ` set d"
  by (induction ls arbitrary: P) (fastforce simp: ready_def)+

lemma compute_layers_result:
  assumes ok: "graph_ok d"
  shows "\<exists>ls. layered d {} ls \<and> ready d (set (concat ls)) = {} \<and>
    (if acyclic (dep_edges d) then compute_layers d = Some (Inr ls)
     else \<exists>c. compute_layers d = Some (Inl (CycleAmong c)))"
proof -
  have d: "distinct (map fst d)" using ok by (simp add: graph_ok_def dict_ok_def)
  have "card (fst ` set d - {}) < Suc (length d)"
    by (metis Diff_empty card_length le_imp_less_Suc length_map list.set_map)
  from kahn_result [OF ok kahn_start [OF ok] this, of "[]" 0] obtain ls rem' where
    k: "kahn (Suc (length d)) (dependents_of d) (sort (map fst (filter (\<lambda>(k, r). r = 0) (indegree_of d))))
        (indegree_of d) [] 0 = Some (ls, rem', length (concat ls))"
    and lay: "layered d {} ls" and inv: "kahn_inv d (set (concat ls)) [] rem'"
    by (auto simp del: kahn.simps)
  have stuck: "ready d (set (concat ls)) = {}" using inv by (simp add: kahn_inv_def)
  have "length (concat ls) = card (set (concat ls))"
    using layered_distinct [OF lay] distinct_card [of "concat ls"] by simp
  moreover have "length d = card (fst ` set d)"
    using d by (metis distinct_card length_map list.set_map)
  ultimately have "length (concat ls) = length d \<longleftrightarrow> set (concat ls) = fst ` set d"
    using layered_distinct [OF lay] card_subset_eq [of "fst ` set d" "set (concat ls)"] by auto
  then show ?thesis
    using layered_complete_iff [OF ok lay stuck] lay stuck k
    by (intro exI [of _ ls]) (simp add: compute_layers_def del: kahn.simps)
qed


section \<open>The constructor\<close>

lemma Workflow_Inr:
  assumes "Workflow wid ns = Some (Inr w)"
  shows "graph_ok (nodes w) \<and> map snd (nodes w) = ns \<and> layered (nodes w) {} (layers w)
    \<and> set (concat (layers w)) = fst ` set (nodes w) \<and> acyclic (dep_edges (nodes w))
    \<and> length ns \<le> WORKFLOW_MAX_NODES
    \<and> sum_list (map (length \<circ> depends_on) ns) \<le> WORKFLOW_MAX_EDGES"
proof -
  obtain i d x where d: "add_nodes ns [] = Inr d" and e: "validate_edges d = Inr x"
    and c: "compute_layers d = Some (Inr (layers w))" and n: "nodes w = d"
    and b: "length ns \<le> WORKFLOW_MAX_NODES"
    using assms by (auto simp: Workflow_def split: sum.splits option.splits if_splits)
  from add_nodes_ok [OF d] have k: "dict_ok d" "\<forall>(k, n)\<in>set d. node_id n = k" "map snd d = ns"
    by auto
  from validate_edges_ok [OF e k(1,2)] have g: "graph_ok d"
    and ec: "sum_list (map (length \<circ> depends_on) ns) \<le> WORKFLOW_MAX_EDGES"
    using k(3) by (auto simp flip: map_map)
  from compute_layers_result [OF g] c obtain ls where "layered d {} ls" "acyclic (dep_edges d)"
    "ready d (set (concat ls)) = {}" "layers w = ls" by (auto split: if_splits)
  with layered_complete_iff [OF g] show ?thesis using n g k(3) b ec by auto
qed

lemma Workflow_terminates: "\<exists>r. Workflow wid ns = Some r"
proof -
  have "\<exists>r. compute_layers d = Some r" if "add_nodes ns [] = Inr d" "validate_edges d = Inr x" for d x
  proof -
    from add_nodes_ok [OF that(1)] have "dict_ok d" "\<forall>(k, n)\<in>set d. node_id n = k" by auto
    with validate_edges_ok [OF that(2)] have "graph_ok d" by blast
    then show ?thesis using compute_layers_result by (metis)
  qed
  then show ?thesis by (fastforce simp: Workflow_def split: sum.splits option.splits)
qed

lemma Workflow_cycle_iff:
  assumes w: "validate_identifier wid ''workflow_id'' = Inr s" and b: "length ns \<le> WORKFLOW_MAX_NODES"
    and d: "add_nodes ns [] = Inr d" and e: "validate_edges d = Inr x"
  shows "(\<exists>c. Workflow wid ns = Some (Inl (CycleAmong c))) \<longleftrightarrow> \<not> acyclic (dep_edges d)"
proof -
  from add_nodes_ok [OF d] have "dict_ok d" "\<forall>(k, n)\<in>set d. node_id n = k" by auto
  with validate_edges_ok [OF e] have "graph_ok d" by blast
  from compute_layers_result [OF this] show ?thesis
    using assms by (auto simp: Workflow_def split: if_splits)
qed

section \<open>Correctness of execution\<close>

definition workflow_ok :: "workflow \<Rightarrow> bool" where
  "workflow_ok w \<longleftrightarrow> graph_ok (nodes w) \<and> layered (nodes w) {} (layers w)
     \<and> set (concat (layers w)) = fst ` set (nodes w)"

text \<open>Every future of a layer completes exactly once, in some order.\<close>

definition completes_all :: "(pystr list \<Rightarrow> pystr list) \<Rightarrow> bool" where
  "completes_all sched \<longleftrightarrow> (\<forall>xs. set (sched xs) = set xs \<and> length (sched xs) = length xs)"

lemma completes_distinct: "completes_all sched \<Longrightarrow> distinct xs \<Longrightarrow> distinct (sched xs)"
  by (metis card_distinct completes_all_def distinct_card)

definition after_layer where
  "after_layer sched dispatch w l rs =
     (let runnable = filter (dependencies_satisfied w rs) l;
          rs1 = foldl (\<lambda>rs v. AList.update v (skipped_result DependencyNotSucceeded v) rs) rs
                  (filter (\<lambda>v. v \<notin> set runnable) l)
      in if runnable \<noteq> [] then run_layer sched dispatch w runnable rs1 else rs1)"

lemma run_layers_Cons:
  "run_layers pol sched dispatch w (l # ls) rs calls =
     (let rs2 = after_layer sched dispatch w l rs;
          runnable = filter (dependencies_satisfied w rs) l;
          calls' = calls @ (if runnable \<noteq> [] then sched runnable else [])
      in if pol = FAIL_FAST \<and> any_failed rs2 then (abort_pending rs2, calls')
         else run_layers pol sched dispatch w ls rs2 calls')"
  by (simp add: after_layer_def Let_def)

lemma after_layer_lookup:
  assumes "completes_all sched"
  shows "map_of (after_layer sched dispatch w l rs) v =
    (if v \<in> set l then Some (if dependencies_satisfied w rs v then execute_node dispatch w v
                            else skipped_result DependencyNotSucceeded v)
     else map_of rs v)"
  using assms
  by (auto simp: after_layer_def run_layer_def Let_def dict.foldl_assign completes_all_def
      filter_empty_conv)

lemma foldl_update_keys:
  "set ks \<subseteq> set (map fst d) \<Longrightarrow> map fst (foldl (\<lambda>d k. AList.update k (f k) d) d ks) = map fst d"
proof (induction ks arbitrary: d)
  case (Cons k ks)
  then have "map fst (AList.update k (f k) d) = map fst d" by (simp add: keys_update_present)
  with Cons show ?case by (metis foldl_Cons set_subset_Cons subset_trans)
qed simp

lemma after_layer_keys:
  assumes "completes_all sched" and "set l \<subseteq> set (map fst rs)"
  shows "map fst (after_layer sched dispatch w l rs) = map fst rs"
proof -
  let ?run = "filter (dependencies_satisfied w rs) l"
  let ?rs1 = "foldl (\<lambda>rs v. AList.update v (skipped_result DependencyNotSucceeded v) rs) rs
                  (filter (\<lambda>v. v \<notin> set ?run) l)"
  have 1: "map fst ?rs1 = map fst rs" by (rule foldl_update_keys) (use assms in auto)
  have "set (sched ?run) \<subseteq> set (map fst ?rs1)"
    unfolding 1 using assms by (auto simp: completes_all_def)
  then have "map fst (run_layer sched dispatch w ?run ?rs1) = map fst ?rs1"
    unfolding run_layer_def by (rule foldl_update_keys)
  with 1 have "map fst (run_layer sched dispatch w ?run ?rs1) = map fst rs" by simp
  with 1 show ?thesis unfolding after_layer_def Let_def by presburger
qed

lemma status_in_Some: "status_in rs v = Some s \<longleftrightarrow> (\<exists>r. map_of rs v = Some r \<and> status r = s)"
  by (auto simp: status_in_def)

lemma any_failed_iff:
  "dict_ok rs \<Longrightarrow> any_failed rs \<longleftrightarrow> (\<exists>v. status_in rs v = Some FAILED)"
  by (force simp: any_failed_def list_ex_iff status_in_Some dict_ok_def)

lemma dependencies_satisfied_iff:
  "v \<in> fst ` set (nodes w) \<Longrightarrow> dependencies_satisfied w rs v \<longleftrightarrow>
     (\<forall>x\<in>set (deps_in (nodes w) v). status_in rs x = Some SUCCEEDED)"
  by (auto simp: dependencies_satisfied_def deps_in_def list_all_iff map_of_eq_None_iff split: option.splits)

subsection \<open>Continue on error\<close>

text \<open>The settled result of a node, given the results of its dependencies.\<close>

definition settled :: "(wf_node \<Rightarrow> pystr + 'o) \<Rightarrow> workflow \<Rightarrow> (pystr, 'o node_result) pydict \<Rightarrow> pystr \<Rightarrow> bool" where
  "settled dispatch w rs v \<longleftrightarrow> map_of rs v =
     Some (if \<forall>x\<in>set (deps_in (nodes w) v). status_in rs x = Some SUCCEEDED
           then execute_node dispatch w v else skipped_result DependencyNotSucceeded v)"

lemma settled_cong:
  "map_of rs v = map_of rs' v \<Longrightarrow> \<forall>x\<in>set (deps_in (nodes w) v). map_of rs x = map_of rs' x \<Longrightarrow>
     settled dispatch w rs v \<longleftrightarrow> settled dispatch w rs' v"
  by (simp add: settled_def status_in_def)

lemma run_layers_continue:
  assumes sched: "completes_all sched"
  shows "layered (nodes w) P ls \<Longrightarrow> P \<subseteq> fst ` set (nodes w) \<Longrightarrow> (\<forall>v\<in>P. set (deps_in (nodes w) v) \<subseteq> P) \<Longrightarrow>
    map fst rs = map fst (nodes w) \<Longrightarrow> (\<forall>v\<in>P. settled dispatch w rs v) \<Longrightarrow>
    rs' = fst (run_layers CONTINUE sched dispatch w ls rs calls) \<Longrightarrow>
    map fst rs' = map fst (nodes w) \<and> (\<forall>v\<in>P \<union> set (concat ls). settled dispatch w rs' v)"
proof (induction ls arbitrary: P rs calls)
  case (Cons l ls)
  let ?rs2 = "after_layer sched dispatch w l rs"
  have l: "set l = ready (nodes w) P" and lay: "layered (nodes w) (P \<union> set l) ls" using Cons.prems(1) by auto
  have keys: "map fst ?rs2 = map fst (nodes w)"
  proof -
    have "set l \<subseteq> set (map fst rs)" unfolding Cons.prems(4) using l by (auto simp: ready_def)
    then show ?thesis using after_layer_keys [OF sched] Cons.prems(4) by metis
  qed
  have old: "map_of ?rs2 v = map_of rs v" if "v \<in> P" for v
    using that l by (auto simp: after_layer_lookup [OF sched] ready_def)
  have settled: "settled dispatch w ?rs2 v" if v: "v \<in> P \<union> set l" for v
  proof (cases "v \<in> P")
    case True
    then have "settled dispatch w ?rs2 v \<longleftrightarrow> settled dispatch w rs v"
      using Cons.prems(3) by (intro settled_cong) (use old True in blast)+
    then show ?thesis using Cons.prems(5) True by simp
  next
    case False
    with v have vl: "v \<in> set l" "v \<in> fst ` set (nodes w)" "set (deps_in (nodes w) v) \<subseteq> P"
      using l by (auto simp: ready_def)
    then have "\<forall>x\<in>set (deps_in (nodes w) v). status_in ?rs2 x = status_in rs x"
      using old by (auto simp: status_in_def)
    then show ?thesis using vl
      by (simp add: settled_def after_layer_lookup [OF sched] dependencies_satisfied_iff)
  qed
  have sub: "P \<union> set l \<subseteq> fst ` set (nodes w)" "\<forall>v\<in>P \<union> set l. set (deps_in (nodes w) v) \<subseteq> P \<union> set l"
    using Cons.prems(2,3) l by (auto simp: ready_def)
  obtain calls' where "rs' = fst (run_layers CONTINUE sched dispatch w ls ?rs2 calls')"
    using Cons.prems(6) by (auto simp: run_layers_Cons Let_def simp del: run_layers.simps)
  from Cons.IH [OF lay sub keys _ this] settled show ?case by (auto simp: Un_assoc)
qed simp

subsection \<open>Fail fast\<close>

definition dispatch_ok :: "(wf_node \<Rightarrow> pystr + 'o) \<Rightarrow> workflow \<Rightarrow> pystr \<Rightarrow> bool" where
  "dispatch_ok dispatch w v \<longleftrightarrow> status (execute_node dispatch w v) = SUCCEEDED"

lemma execute_node_status:
  "status (execute_node dispatch w v) = (if dispatch_ok dispatch w v then SUCCEEDED else FAILED)"
  by (auto simp: dispatch_ok_def execute_node_def split: option.splits sum.splits)

lemma map_of_abort [simp]:
  "map_of (abort_pending rs) v = (case map_of rs v of None \<Rightarrow> None
     | Some r \<Rightarrow> Some (if status r = PENDING then skipped_result AbortedByFailFast v else r))"
  by (induction rs) (auto simp: abort_pending_def)

lemma keys_abort [simp]: "map fst (abort_pending rs) = map fst rs"
  by (simp add: abort_pending_def comp_def case_prod_beta)

text \<open>
  Up to the first layer with a failing dispatch everything succeeds; that layer is run in
  full, and everything after it is skipped.
\<close>

lemma run_layers_fail_fast:
  assumes sched: "completes_all sched" and d: "dict_ok (nodes w)"
  shows "layered (nodes w) P ls \<Longrightarrow> P \<subseteq> fst ` set (nodes w) \<Longrightarrow>
    map fst rs = map fst (nodes w) \<Longrightarrow>
    (\<forall>v\<in>fst ` set (nodes w). map_of rs v = Some (if v \<in> P then execute_node dispatch w v else pending_result v)) \<Longrightarrow>
    (\<forall>v\<in>P. dispatch_ok dispatch w v) \<Longrightarrow>
    rs' = fst (run_layers FAIL_FAST sched dispatch w ls rs calls) \<Longrightarrow>
    map fst rs' = map fst (nodes w) \<and>
    ((\<forall>v\<in>set (concat ls). dispatch_ok dispatch w v) \<longrightarrow>
       (\<forall>v\<in>P \<union> set (concat ls). map_of rs' v = Some (execute_node dispatch w v))) \<and>
    (\<forall>ls1 l ls2. ls = ls1 @ l # ls2 \<longrightarrow> (\<forall>v\<in>set (concat ls1). dispatch_ok dispatch w v) \<longrightarrow>
       (\<exists>v\<in>set l. \<not> dispatch_ok dispatch w v) \<longrightarrow>
       (\<forall>v\<in>fst ` set (nodes w). map_of rs' v = Some (if v \<in> P \<union> set (concat (ls1 @ [l]))
          then execute_node dispatch w v else skipped_result AbortedByFailFast v)))"
proof (induction ls arbitrary: P rs calls)
  case (Cons l ls)
  let ?rs2 = "after_layer sched dispatch w l rs"
  let ?V = "fst ` set (nodes w)"
  have l: "set l = ready (nodes w) P" and lay: "layered (nodes w) (P \<union> set l) ls" using Cons.prems(1) by auto
  have lV: "set l \<subseteq> ?V" using l by (auto simp: ready_def)
  have keys: "map fst ?rs2 = map fst (nodes w)"
  proof -
    have "set l \<subseteq> set (map fst rs)" unfolding Cons.prems(3) using lV by auto
    then show ?thesis using after_layer_keys [OF sched] Cons.prems(3) by metis
  qed
  have sat: "dependencies_satisfied w rs v" if "v \<in> set l" for v
  proof -
    have v: "v \<in> ?V" "set (deps_in (nodes w) v) \<subseteq> P" using that l by (auto simp: ready_def)
    have "status_in rs x = Some SUCCEEDED" if "x \<in> set (deps_in (nodes w) v)" for x
    proof -
      have "x \<in> P" using that v(2) by blast
      then have "map_of rs x = Some (execute_node dispatch w x)" "dispatch_ok dispatch w x"
        using bspec [OF Cons.prems(4), of x] Cons.prems(2,5) by auto
      then show ?thesis by (simp add: status_in_def execute_node_status)
    qed
    then show ?thesis using v(1) by (simp add: dependencies_satisfied_iff)
  qed
  have rs2: "map_of ?rs2 v = Some (if v \<in> P \<union> set l then execute_node dispatch w v else pending_result v)"
    if "v \<in> ?V" for v
    using that sat Cons.prems(4) by (auto simp: after_layer_lookup [OF sched])
  have "dict_ok ?rs2" using keys d by (simp add: dict_ok_def)
  moreover have none: "map_of ?rs2 v = None" if "v \<notin> ?V" for v
    using that keys by (metis list.set_map map_of_eq_None_iff)
  ultimately have failed: "any_failed ?rs2 \<longleftrightarrow> (\<exists>v\<in>set l. \<not> dispatch_ok dispatch w v)"
  proof -
    have "status_in ?rs2 v = Some FAILED \<longleftrightarrow> v \<in> set l \<and> \<not> dispatch_ok dispatch w v" for v
    proof (cases "v \<in> ?V")
      case True
      then show ?thesis using rs2 Cons.prems(5)
        by (auto simp: status_in_def execute_node_status pending_result_def)
    next
      case False
      then show ?thesis using none lV by (auto simp: status_in_def)
    qed
    then show ?thesis using any_failed_iff [OF \<open>dict_ok ?rs2\<close>] by blast
  qed
  show ?case
  proof (cases "any_failed ?rs2")
    case True
    then have rs': "rs' = abort_pending ?rs2"
      using Cons.prems(6) by (simp add: run_layers_Cons Let_def del: run_layers.simps)
    from True failed obtain v where v: "v \<in> set l" "\<not> dispatch_ok dispatch w v" by blast
    have "map_of rs' x = Some (if x \<in> P \<union> set l then execute_node dispatch w x
        else skipped_result AbortedByFailFast x)" if "x \<in> ?V" for x
      using that rs2 by (simp add: rs' execute_node_status pending_result_def)
    moreover have "ls1 = [] \<and> l' = l"
      if "l # ls = ls1 @ l' # ls2" "\<forall>v\<in>set (concat ls1). dispatch_ok dispatch w v" for ls1 l' ls2
      using that v by (cases ls1) auto
    moreover have "\<not> (\<forall>v\<in>set (concat (l # ls)). dispatch_ok dispatch w v)" using v by auto
    moreover have "map fst rs' = map fst (nodes w)" using keys rs' by simp
    ultimately show ?thesis by (metis concat.simps(1,2) append_Nil append_Nil2)
  next
    case False
    then obtain calls' where rs': "rs' = fst (run_layers FAIL_FAST sched dispatch w ls ?rs2 calls')"
      using Cons.prems(6) by (auto simp: run_layers_Cons Let_def simp del: run_layers.simps)
    have ok: "\<forall>v\<in>P \<union> set l. dispatch_ok dispatch w v" using False failed Cons.prems(5) by blast
    have "P \<union> set l \<subseteq> ?V" using Cons.prems(2) lV by blast
    from Cons.IH [OF lay this keys _ ok rs'] rs2 have IH:
      "map fst rs' = map fst (nodes w)"
      "(\<forall>v\<in>set (concat ls). dispatch_ok dispatch w v) \<longrightarrow>
         (\<forall>v\<in>P \<union> set l \<union> set (concat ls). map_of rs' v = Some (execute_node dispatch w v))"
      "\<And>ls1 l' ls2. ls = ls1 @ l' # ls2 \<Longrightarrow> (\<forall>v\<in>set (concat ls1). dispatch_ok dispatch w v) \<Longrightarrow>
         (\<exists>v\<in>set l'. \<not> dispatch_ok dispatch w v) \<Longrightarrow>
         (\<forall>v\<in>?V. map_of rs' v = Some (if v \<in> P \<union> set l \<union> set (concat (ls1 @ [l']))
            then execute_node dispatch w v else skipped_result AbortedByFailFast v))" by auto
    have "\<forall>v\<in>?V. map_of rs' v = Some (if v \<in> P \<union> set (concat (ls1 @ [l']))
            then execute_node dispatch w v else skipped_result AbortedByFailFast v)"
      if "l # ls = ls1 @ l' # ls2" "\<forall>v\<in>set (concat ls1). dispatch_ok dispatch w v"
        "\<exists>v\<in>set l'. \<not> dispatch_ok dispatch w v" for ls1 l' ls2
    proof -
      from that ok obtain ls1' where "ls1 = l # ls1'" by (cases ls1) auto
      with that IH(3) [of ls1' l' ls2] show ?thesis by (simp add: Un_assoc)
    qed
    then show ?thesis using IH(1,2) by (auto simp: Un_assoc)
  qed
next
  case Nil
  have "map_of rs v = Some (execute_node dispatch w v)" if "v \<in> P" for v
    using bspec [OF Nil.prems(4), of v] subsetD [OF Nil.prems(2) that] that by simp
  then show ?case using Nil.prems by simp
qed



subsection \<open>The whole run\<close>

lemma dict_eqI:
  assumes "map fst d = map fst e" and "dict_ok d" and "\<And>k. k \<in> fst ` set d \<Longrightarrow> map_of d k = map_of e k"
  shows "d = e"
  using assms
proof (induction d arbitrary: e)
  case (Cons x d)
  then obtain y e' where e: "e = y # e'" by (cases e) auto
  have "map_of (x # d) (fst x) = map_of (y # e') (fst x)" using Cons.prems(3) [of "fst x"] e by simp
  then have xy: "x = y" using Cons.prems(1) e by (cases x; cases y) simp
  have "map_of d k = map_of e' k" if "k \<in> fst ` set d" for k
  proof -
    have "fst x \<notin> fst ` set d" using Cons.prems(2) by (simp add: dict_ok_def)
    with that have "k \<noteq> fst x" by blast
    then show ?thesis using Cons.prems(3) [of k] that e xy by (cases y) auto
  qed
  with Cons.IH [of e'] Cons.prems(1,2) e have "d = e'" by (simp add: dict_ok_def)
  with e xy show ?case by simp
qed simp

definition final_results where
  "final_results pol sched dispatch w = fst (run_layers pol sched dispatch w (layers w)
     (map (\<lambda>(v, n). (v, pending_result v)) (nodes w)) [])"

lemma pending_keys: "map fst (map (\<lambda>(v, n). (v, pending_result v)) ns) = map fst ns"
  by (simp add: comp_def case_prod_beta)

lemma pending_lookup:
  "v \<in> fst ` set ns \<Longrightarrow> map_of (map (\<lambda>(v, n). (v, pending_result v)) ns) v = Some (pending_result v)"
  by (induction ns) auto

lemma final_continue:
  assumes "completes_all sched" and "workflow_ok w"
  shows "map fst (final_results CONTINUE sched dispatch w) = map fst (nodes w)
    \<and> (\<forall>v\<in>fst ` set (nodes w). settled dispatch w (final_results CONTINUE sched dispatch w) v)"
  using run_layers_continue [OF assms(1) _ _ _ pending_keys _ refl, of w "{}" "layers w" dispatch "[]"] assms(2)
  by (simp add: final_results_def workflow_ok_def del: set_concat)

lemma all_ok_continue:
  assumes set: "\<forall>v\<in>fst ` set (nodes w). settled dispatch w rs v" and ok: "workflow_ok w"
    and disp: "\<forall>v\<in>fst ` set (nodes w). dispatch_ok dispatch w v"
  shows "v \<in> fst ` set (nodes w) \<Longrightarrow> map_of rs v = Some (execute_node dispatch w v)"
proof -
  have g: "graph_ok (nodes w)" using ok by (simp add: workflow_ok_def)
  have "acyclic (dep_edges (nodes w))"
    using ok layered_complete_iff [of "nodes w" "layers w"] by (auto simp: workflow_ok_def ready_def)
  then have wf: "wf (dep_edges (nodes w))" using dep_edges_finite [OF g] by (rule finite_acyclic_wf [rotated])
  show "v \<in> fst ` set (nodes w) \<Longrightarrow> map_of rs v = Some (execute_node dispatch w v)"
    using wf
  proof (induction v rule: wf_induct_rule)
    case (less v)
    have "status_in rs x = Some SUCCEEDED" if "x \<in> set (deps_in (nodes w) v)" for x
    proof -
      have xV: "x \<in> fst ` set (nodes w)" using deps_in_ok [OF g that] by simp
      have "map_of rs x = Some (execute_node dispatch w x)"
        using less.IH [of x] that xV by (simp add: dep_edges_def)
      then show ?thesis using bspec [OF disp xV] by (simp add: status_in_def execute_node_status)
    qed
    then show ?case using bspec [OF set less.prems] by (simp add: settled_def)
  qed
qed

lemma settled_unique:
  assumes ok: "workflow_ok w" and rs: "\<forall>v\<in>fst ` set (nodes w). settled dispatch w rs v"
    and rs': "\<forall>v\<in>fst ` set (nodes w). settled dispatch w rs' v"
  shows "v \<in> fst ` set (nodes w) \<Longrightarrow> map_of rs v = map_of rs' v"
proof -
  have g: "graph_ok (nodes w)" using ok by (simp add: workflow_ok_def)
  have "acyclic (dep_edges (nodes w))"
    using ok layered_complete_iff [of "nodes w" "layers w"] by (auto simp: workflow_ok_def ready_def)
  then have wf: "wf (dep_edges (nodes w))" using dep_edges_finite [OF g] by (rule finite_acyclic_wf [rotated])
  show "v \<in> fst ` set (nodes w) \<Longrightarrow> map_of rs v = map_of rs' v"
    using wf
  proof (induction v rule: wf_induct_rule)
    case (less v)
    have "status_in rs x = status_in rs' x" if "x \<in> set (deps_in (nodes w) v)" for x
      using less.IH [of x] that deps_in_ok [OF g that] by (simp add: dep_edges_def status_in_def)
    then show ?case using bspec [OF rs less.prems] bspec [OF rs' less.prems] by (simp add: settled_def)
  qed
qed

lemma final_fail_fast:
  fixes dispatch :: "wf_node \<Rightarrow> pystr + 'o"
  assumes sched: "completes_all sched" and ok: "workflow_ok w"
  defines "rs' \<equiv> final_results FAIL_FAST sched dispatch w"
  shows "map fst rs' = map fst (nodes w) \<and>
    ((\<forall>v\<in>fst ` set (nodes w). dispatch_ok dispatch w v) \<longrightarrow>
       (\<forall>v\<in>fst ` set (nodes w). map_of rs' v = Some (execute_node dispatch w v))) \<and>
    (\<forall>ls1 l ls2. layers w = ls1 @ l # ls2 \<longrightarrow> (\<forall>v\<in>set (concat ls1). dispatch_ok dispatch w v) \<longrightarrow>
       (\<exists>v\<in>set l. \<not> dispatch_ok dispatch w v) \<longrightarrow>
       (\<forall>v\<in>fst ` set (nodes w). map_of rs' v = Some (if v \<in> set (concat (ls1 @ [l]))
          then execute_node dispatch w v else skipped_result AbortedByFailFast v)))"
proof -
  have d: "dict_ok (nodes w)" and lay: "layered (nodes w) {} (layers w)"
    and all: "set (concat (layers w)) = fst ` set (nodes w)"
    using ok by (auto simp: workflow_ok_def graph_ok_def)
  have start: "\<forall>v\<in>fst ` set (nodes w). map_of (map (\<lambda>(v, n). (v, pending_result v)) (nodes w)) v
      = Some (if v \<in> {} then execute_node dispatch w v else pending_result v)"
    by (intro ballI) (simp only: pending_lookup empty_iff if_False)
  have eq: "rs' = fst (run_layers FAIL_FAST sched dispatch w (layers w)
      (map (\<lambda>(v, n). (v, pending_result v)) (nodes w)) [])" by (simp add: rs'_def final_results_def)
  from run_layers_fail_fast [OF sched d lay empty_subsetI pending_keys start _ eq]
  show ?thesis using all by (simp del: set_concat)
qed

lemma first_failing_layer:
  assumes "workflow_ok w" and "\<exists>v\<in>fst ` set (nodes w). \<not> dispatch_ok dispatch w v"
  shows "\<exists>ls1 l ls2. layers w = ls1 @ l # ls2 \<and> (\<forall>v\<in>set (concat ls1). dispatch_ok dispatch w v) \<and>
    (\<exists>v\<in>set l. \<not> dispatch_ok dispatch w v)"
proof -
  have "fst ` set (nodes w) = set (concat (layers w))" using assms(1) by (simp add: workflow_ok_def)
  with assms(2) have "\<exists>v\<in>set (concat (layers w)). \<not> dispatch_ok dispatch w v" by metis
  then have "\<exists>l\<in>set (layers w). \<exists>v\<in>set l. \<not> dispatch_ok dispatch w v" by auto
  from split_list_first_prop [OF this] show ?thesis by fastforce
qed

lemma list_all_dict:
  "dict_ok rs \<Longrightarrow> list_all (\<lambda>(v, r). p r) rs \<longleftrightarrow> (\<forall>v r. map_of rs v = Some r \<longrightarrow> p r)"
  by (auto simp: list_all_iff dict_ok_def)

lemma failed_nodes_set:
  "dict_ok rs \<Longrightarrow> set (failed_nodes rs) = {v. status_in rs v = Some FAILED}"
  by (force simp: failed_nodes_def status_in_Some dict_ok_def)

lemma engine_run_eq:
  "engine_run pol sched dispatch w =
     (let rs = final_results pol sched dispatch w; ok = list_all (\<lambda>(v, r). status r = SUCCEEDED) rs
      in if \<not> ok \<and> pol = FAIL_FAST
         then Inl (if failed_nodes rs = [] then [u ''<none>''] else failed_nodes rs)
         else Inr \<lparr>run_workflow_id = workflow_id w, success = ok, run_layers_of = layers w, results = rs\<rparr>)"
  by (simp add: engine_run_def final_results_def)


lemma keys_eq_mem: "map fst d = map fst e \<Longrightarrow> map_of d v = Some r \<Longrightarrow> v \<in> fst ` set e"
  by (metis domI dom_map_of_conv_image_fst list.set_map)

lemma final_dict_ok:
  "completes_all sched \<Longrightarrow> workflow_ok w \<Longrightarrow> dict_ok (final_results pol sched dispatch w)
     \<and> map fst (final_results pol sched dispatch w) = map fst (nodes w)"
  using final_continue [of sched w dispatch] final_fail_fast [of sched w dispatch]
  by (cases pol) (simp_all add: dict_ok_def workflow_ok_def graph_ok_def)

lemma final_all_ok:
  assumes "completes_all sched" and "workflow_ok w"
    and "\<forall>v\<in>fst ` set (nodes w). dispatch_ok dispatch w v" and "v \<in> fst ` set (nodes w)"
  shows "map_of (final_results pol sched dispatch w) v = Some (execute_node dispatch w v)"
  using final_continue [OF assms(1,2), of dispatch] final_fail_fast [OF assms(1,2), of dispatch]
    all_ok_continue [OF _ assms(2,3,4)] assms(3,4)
  by (cases pol) blast+

lemma final_not_ok:
  assumes sched: "completes_all sched" and ok: "workflow_ok w"
    and v: "v \<in> fst ` set (nodes w)" "\<not> dispatch_ok dispatch w v"
  shows "\<exists>v. \<exists>r. map_of (final_results pol sched dispatch w) v = Some r \<and> status r \<noteq> SUCCEEDED"
proof (cases pol)
  case CONTINUE
  have "settled dispatch w (final_results CONTINUE sched dispatch w) v"
    using final_continue [OF sched ok] v(1) by blast
  then obtain r where "map_of (final_results CONTINUE sched dispatch w) v = Some r" "status r \<noteq> SUCCEEDED"
    using v(2) by (auto simp: settled_def execute_node_status skipped_result_def split: if_splits)
  with CONTINUE show ?thesis by blast
next
  case FAIL_FAST
  from v obtain ls1 l ls2 where l: "layers w = ls1 @ l # ls2" "\<forall>v\<in>set (concat ls1). dispatch_ok dispatch w v"
    "\<exists>v\<in>set l. \<not> dispatch_ok dispatch w v" using first_failing_layer [OF ok] by blast
  then obtain x where x: "x \<in> set l" "\<not> dispatch_ok dispatch w x" by blast
  have "x \<in> set (concat (layers w))" using l(1) x(1) by auto
  moreover have "set (concat (layers w)) = fst ` set (nodes w)" using ok unfolding workflow_ok_def by blast
  ultimately have "x \<in> fst ` set (nodes w)" by (simp only:)
  then have "map_of (final_results pol sched dispatch w) x = Some (execute_node dispatch w x)"
    using final_fail_fast [OF sched ok, of dispatch] l x(1) FAIL_FAST by fastforce
  then show ?thesis using x(2)
    by (intro exI [of _ x] exI [of _ "execute_node dispatch w x"]) (simp add: execute_node_status)
qed

lemma final_success_iff:
  assumes "completes_all sched" and "workflow_ok w"
  shows "list_all (\<lambda>(v, r). status r = SUCCEEDED) (final_results pol sched dispatch w)
    \<longleftrightarrow> (\<forall>v\<in>fst ` set (nodes w). dispatch_ok dispatch w v)"
proof -
  have d: "dict_ok (final_results pol sched dispatch w)"
    and k: "map fst (final_results pol sched dispatch w) = map fst (nodes w)"
    using final_dict_ok [OF assms] by auto
  have "r = execute_node dispatch w v" if "\<forall>v\<in>fst ` set (nodes w). dispatch_ok dispatch w v"
    "map_of (final_results pol sched dispatch w) v = Some r" for v r
  proof -
    have "v \<in> fst ` set (nodes w)" using k that(2) by (rule keys_eq_mem)
    then show ?thesis using final_all_ok [OF assms that(1)] that(2) by simp
  qed
  moreover have "v \<in> fst ` set (nodes w)" if "map_of (final_results pol sched dispatch w) v = Some r" for v r
    using k that by (rule keys_eq_mem)
  ultimately show ?thesis
    unfolding list_all_dict [OF d] using final_not_ok [OF assms]
    by (metis execute_node_status)
qed

lemma schedule_independent:
  assumes "completes_all sched" and "completes_all sched'" and ok: "workflow_ok w"
  shows "final_results pol sched dispatch w = final_results pol sched' dispatch w"
proof (rule dict_eqI)
  show "map fst (final_results pol sched dispatch w) = map fst (final_results pol sched' dispatch w)"
    "dict_ok (final_results pol sched dispatch w)"
    by (simp_all add: final_dict_ok assms)
  fix v assume "v \<in> fst ` set (final_results pol sched dispatch w)"
  then have v: "v \<in> fst ` set (nodes w)" using final_dict_ok [OF assms(1) ok] by (metis list.set_map)
  show "map_of (final_results pol sched dispatch w) v = map_of (final_results pol sched' dispatch w) v"
  proof (cases "\<forall>v\<in>fst ` set (nodes w). dispatch_ok dispatch w v")
    case True
    then show ?thesis using final_all_ok [OF assms(1) ok True v] final_all_ok [OF assms(2) ok True v] by simp
  next
    case False
    then obtain ls1 l ls2 where l: "layers w = ls1 @ l # ls2" "\<forall>v\<in>set (concat ls1). dispatch_ok dispatch w v"
      "\<exists>v\<in>set l. \<not> dispatch_ok dispatch w v" using first_failing_layer [OF ok] by blast
    have "map_of (final_results FAIL_FAST s dispatch w) v = Some (if v \<in> set (concat (ls1 @ [l]))
          then execute_node dispatch w v else skipped_result AbortedByFailFast v)" if "completes_all s" for s
      using final_fail_fast [OF that ok, of dispatch] l v by blast
    moreover have "map_of (final_results CONTINUE sched dispatch w) v = map_of (final_results CONTINUE sched' dispatch w) v"
      using settled_unique [OF ok _ _ v] final_continue [OF assms(1) ok] final_continue [OF assms(2) ok] by blast
    ultimately show ?thesis using assms(1,2) by (cases pol) simp_all
  qed
qed


section \<open>Properties\<close>

lemma Workflow_ok: "Workflow wid ns = Some (Inr w) \<Longrightarrow> workflow_ok w"
  using Workflow_Inr by (simp add: workflow_ok_def)

abbreviation wnode :: "string \<Rightarrow> string list \<Rightarrow> wf_node" where
  "wnode v ds \<equiv> \<lparr>node_id = u v, agent_name = u ''a'', prompt = [], depends_on = map u ds,
     wf_timeout = 300, metadata = []\<rparr>"

definition diamond :: workflow where
  "diamond = \<lparr>workflow_id = u ''w'',
     nodes = [(u ''b'', wnode ''b'' [''a'']), (u ''a'', wnode ''a'' []), (u ''c'', wnode ''c'' [''a'', ''b''])],
     layers = [[u ''a''], [u ''b''], [u ''c'']]\<rparr>"

lemma diamond_built:
  "Workflow (PStr (u ''w'')) [wnode ''b'' [''a''], wnode ''a'' [], wnode ''c'' [''a'', ''b'']]
    = Some (Inr diamond)"
  by code_simp

lemma completes_id: "completes_all (\<lambda>xs. xs)"
  by (simp add: completes_all_def)

text \<open>
  C1: construction always returns, and an accepted workflow is layered exactly as Kahn's
  algorithm should: each layer is the set of all nodes not yet scheduled whose dependencies are
  all scheduled (\<open>layered\<close>), every node is in exactly one layer, the graph is acyclic and within
  the node and edge limits.
\<close>

theorem workflow_layers_sound:
  assumes "Workflow wid ns = Some (Inr w)"
  shows "map snd (nodes w) = ns \<and> layered (nodes w) {} (layers w)
    \<and> distinct (concat (layers w)) \<and> set (concat (layers w)) = node_id ` set ns
    \<and> acyclic (dep_edges (nodes w))
    \<and> length ns \<le> WORKFLOW_MAX_NODES \<and> sum_list (map (length \<circ> depends_on) ns) \<le> WORKFLOW_MAX_EDGES"
proof -
  have "graph_ok (nodes w)" and ns: "map snd (nodes w) = ns" using Workflow_Inr [OF assms] by blast+
  then have "map fst (nodes w) = map (node_id \<circ> snd) (nodes w)" by (auto simp: graph_ok_def)
  then have "map fst (nodes w) = map node_id ns" using ns by (metis map_map)
  then have ids: "fst ` set (nodes w) = node_id ` set ns" by (metis list.set_map)
  have lay: "layered (nodes w) {} (layers w)" and all: "set (concat (layers w)) = fst ` set (nodes w)"
    using Workflow_Inr [OF assms] by blast+
  have "distinct (concat (layers w))" using layered_distinct [OF lay] by blast
  then show ?thesis
    using Workflow_Inr [OF assms] trans [OF all ids] by (simp only: simp_thms)
qed

lemma workflow_layers_sound_witness:
  "layered (nodes diamond) {} (layers diamond) \<and> acyclic (dep_edges (nodes diamond))"
  using workflow_layers_sound [OF diamond_built] by simp

text \<open>
  C2: the constructor always terminates, and when the identifier, the node count, the node ids
  and the edges are valid, it reports a cycle exactly when the dependency graph has one.
\<close>

theorem workflow_cycle_detection:
  assumes "validate_identifier wid ''workflow_id'' = Inr s" and "length ns \<le> WORKFLOW_MAX_NODES"
    and "add_nodes ns [] = Inr d" and "validate_edges d = Inr x"
  shows "(\<exists>r. Workflow wid ns = Some r)
    \<and> ((\<exists>c. Workflow wid ns = Some (Inl (CycleAmong c))) \<longleftrightarrow> \<not> acyclic (dep_edges d))"
  using Workflow_terminates Workflow_cycle_iff [OF assms] by blast

lemma workflow_cycle_detection_witness:
  "\<not> acyclic (dep_edges [(u ''a'', wnode ''a'' [''b'']), (u ''b'', wnode ''b'' [''a''])])"
proof -
  have "validate_identifier (PStr (u ''w'')) ''workflow_id'' = Inr (u ''w'')"
    "length [wnode ''a'' [''b''], wnode ''b'' [''a'']] \<le> WORKFLOW_MAX_NODES"
    "add_nodes [wnode ''a'' [''b''], wnode ''b'' [''a'']] []
      = Inr [(u ''a'', wnode ''a'' [''b'']), (u ''b'', wnode ''b'' [''a''])]"
    "validate_edges [(u ''a'', wnode ''a'' [''b'']), (u ''b'', wnode ''b'' [''a''])] = Inr ()"
    by code_simp+
  note w = workflow_cycle_detection [OF this]
  have "Workflow (PStr (u ''w'')) [wnode ''a'' [''b''], wnode ''b'' [''a'']]
    = Some (Inl (CycleAmong [u ''a'', u ''b'']))" by code_simp
  with w show ?thesis by blast
qed

text \<open>
  Under the continue policy the run always returns a result in which every node is
  settled: it ran (and holds what its dispatch gave) exactly when all its dependencies
  succeeded, and is skipped otherwise; the run is a success exactly when every dispatch is.
\<close>

theorem run_continue_settles:
  assumes "Workflow wid ns = Some (Inr w)" and "completes_all sched"
  shows "\<exists>r. engine_run CONTINUE sched dispatch w = Inr r
    \<and> map fst (results r) = map fst (nodes w)
    \<and> (\<forall>v\<in>fst ` set (nodes w). settled dispatch w (results r) v)
    \<and> (success r \<longleftrightarrow> (\<forall>v\<in>fst ` set (nodes w). dispatch_ok dispatch w v))"
  using final_continue [OF assms(2) Workflow_ok [OF assms(1)], of dispatch]
    final_success_iff [OF assms(2) Workflow_ok [OF assms(1)], of CONTINUE dispatch]
  by (simp add: engine_run_eq Let_def)

lemma run_continue_settles_witness:
  "\<exists>r. engine_run CONTINUE (\<lambda>xs. xs) (\<lambda>n. Inr (node_id n)) diamond = Inr r \<and> success r"
proof -
  from run_continue_settles [OF diamond_built completes_id, of "\<lambda>n. Inr (node_id n)"]
  obtain r where r: "engine_run CONTINUE (\<lambda>xs. xs) (\<lambda>n. Inr (node_id n)) diamond = Inr r"
    "success r \<longleftrightarrow> (\<forall>v\<in>fst ` set (nodes diamond). dispatch_ok (\<lambda>n. Inr (node_id n)) diamond v)" by blast
  have "\<forall>v\<in>fst ` set (nodes diamond). dispatch_ok (\<lambda>n. Inr (node_id n)) diamond v"
    by (simp add: diamond_def dispatch_ok_def execute_node_def)
  with r show ?thesis by blast
qed

text \<open>
  C3: under fail-fast the run raises exactly when some dispatch fails; the error then names
  precisely the failing nodes of the first layer that has one, and no node of a later layer is
  dispatched.
\<close>

theorem run_fail_fast_raises_iff:
  assumes "Workflow wid ns = Some (Inr w)" and "completes_all sched"
  shows "(if \<forall>v\<in>fst ` set (nodes w). dispatch_ok dispatch w v
     then \<exists>r. engine_run FAIL_FAST sched dispatch w = Inr r \<and> success r
     else \<exists>fs ls1 l ls2. engine_run FAIL_FAST sched dispatch w = Inl fs
        \<and> layers w = ls1 @ l # ls2 \<and> (\<forall>v\<in>set (concat ls1). dispatch_ok dispatch w v)
        \<and> fs \<noteq> [] \<and> set fs = {v \<in> set l. \<not> dispatch_ok dispatch w v})"
proof (cases "\<forall>v\<in>fst ` set (nodes w). dispatch_ok dispatch w v")
  case True
  then show ?thesis using final_success_iff [OF assms(2) Workflow_ok [OF assms(1)], of FAIL_FAST dispatch]
    by (simp add: engine_run_eq Let_def)
next
  case False
  let ?rs = "final_results FAIL_FAST sched dispatch w"
  have ok: "workflow_ok w" using assms(1) by (rule Workflow_ok)
  from False obtain ls1 l ls2 where l: "layers w = ls1 @ l # ls2" "\<forall>v\<in>set (concat ls1). dispatch_ok dispatch w v"
    "\<exists>v\<in>set l. \<not> dispatch_ok dispatch w v" using first_failing_layer [OF ok] by blast
  have rs: "map_of ?rs v = Some (if v \<in> set (concat (ls1 @ [l])) then execute_node dispatch w v
      else skipped_result AbortedByFailFast v)" if "v \<in> fst ` set (nodes w)" for v
    using final_fail_fast [OF assms(2) ok, of dispatch] l that by blast
  have d: "dict_ok ?rs" "map fst ?rs = map fst (nodes w)" using final_dict_ok [OF assms(2) ok] by auto
  have lV: "set l \<subseteq> fst ` set (nodes w)"
    using ok l(1) unfolding workflow_ok_def by (metis Un_iff set_concat concat.simps(2) concat_append set_append subsetI)
  have "v \<in> set (failed_nodes ?rs) \<longleftrightarrow> v \<in> set l \<and> \<not> dispatch_ok dispatch w v" for v
  proof (cases "v \<in> fst ` set (nodes w)")
    case True
    then show ?thesis using rs [OF True] l(2)
      by (auto simp: failed_nodes_set [OF d(1)] status_in_def execute_node_status skipped_result_def)
  next
    case False
    then have "map_of ?rs v = None" using d(2) by (metis keys_eq_mem not_None_eq)
    then show ?thesis using False lV by (auto simp: failed_nodes_set [OF d(1)] status_in_def)
  qed
  then have fs: "set (failed_nodes ?rs) = {v \<in> set l. \<not> dispatch_ok dispatch w v}" by blast
  then have "failed_nodes ?rs \<noteq> []" using l(3) by force
  moreover have "\<not> list_all (\<lambda>(v, r). status r = SUCCEEDED) ?rs"
    using False final_success_iff [OF assms(2) ok] by blast
  ultimately have "engine_run FAIL_FAST sched dispatch w = Inl (failed_nodes ?rs)"
    by (simp add: engine_run_eq Let_def)
  with False l fs \<open>failed_nodes ?rs \<noteq> []\<close> show ?thesis by (simp only: if_False) blast
qed

lemma run_fail_fast_raises_iff_witness:
  "\<exists>fs. engine_run FAIL_FAST (\<lambda>xs. xs) (\<lambda>n. (Inl (u ''boom'') :: pystr + nat)) diamond = Inl fs \<and> fs \<noteq> []"
proof -
  have "\<not> (\<forall>v\<in>fst ` set (nodes diamond). dispatch_ok (\<lambda>n. Inl (u ''boom'') :: pystr + nat) diamond v)"
    by (simp add: diamond_def dispatch_ok_def execute_node_def)
  with run_fail_fast_raises_iff [OF diamond_built completes_id, of "\<lambda>n. Inl (u ''boom'') :: pystr + nat"]
  show ?thesis by (auto simp only: if_False)
qed

text \<open>
  The outcome of a run does not depend on the order in which the parallel dispatches of a
  layer complete.
\<close>

theorem run_schedule_independent:
  assumes "Workflow wid ns = Some (Inr w)" and "completes_all sched" and "completes_all sched'"
  shows "engine_run pol sched dispatch w = engine_run pol sched' dispatch w"
  by (simp only: engine_run_eq schedule_independent [OF assms(2,3) Workflow_ok [OF assms(1)]])

lemma run_schedule_independent_witness:
  "engine_run FAIL_FAST (\<lambda>xs. xs) (\<lambda>n. Inr (node_id n)) diamond
    = engine_run FAIL_FAST rev (\<lambda>n. Inr (node_id n)) diamond"
  by (rule run_schedule_independent [OF diamond_built]) (simp_all add: completes_all_def)

end
