(* ===== verification/Role_Tools.thy ===== *)
theory Role_Tools
  imports Role_Registry Role_Tool_Protocol
begin

text \<open>
  The default-deny broker of \<open>src/core/brain/role_tools.py\<close>: grants, registered handlers and
  definitions, the decision for one tool, the audited invocation of a protocol call, and the
  two bounded logs. A handler is a function of its arguments: it returns a value or raises
  one of the exceptions the broker tells apart. An invocation also returns the handler calls
  it made, so that properties can speak of them. Clock readings are parameters.
\<close>

section \<open>Policy\<close>

type_synonym policy = "(pystr, pystr list) pydict"

datatype broker_error =
    PolicyName | GrantsNotIterable | GrantName | AuditLimit | HandlerInvalid | DefinitionMismatch

text \<open>The grants of one role: \<open>None\<close> is a value that is not iterable.\<close>

fun RoleToolPolicy :: "(pyval \<times> pyval list option) list \<Rightarrow> broker_error + policy" where
  "RoleToolPolicy [] = Inr []"
| "RoleToolPolicy ((role, granted) # gs) =
     (if \<not> nonempty_str role then Inl PolicyName
      else case granted of
        None \<Rightarrow> Inl GrantsNotIterable
      | Some ts \<Rightarrow>
          if \<not> (\<forall>t\<in>set ts. nonempty_str t) then Inl GrantName
          else bindr (RoleToolPolicy gs) (\<lambda>p. Inr ((str_of role, map str_of ts) # p)))"

definition is_granted :: "policy \<Rightarrow> pystr \<Rightarrow> pystr \<Rightarrow> bool" where
  "is_granted p role tool \<longleftrightarrow> (case map_of p role of None \<Rightarrow> False | Some ts \<Rightarrow> tool \<in> set ts)"

section \<open>The broker\<close>

datatype handler_reply = HandlerValue pyval | HandlerDenied | HandlerProtocolError | HandlerRaised nat

type_synonym handler = "pyval \<Rightarrow> handler_reply"

record decision =
  dec_role :: pystr
  dec_tool :: pystr
  dec_allowed :: bool
  dec_reason :: string

record broker =
  grants :: policy
  handlers :: "(pystr, handler) pydict"
  definitions :: "(pystr, tool_definition) pydict"
  budget :: tool_budget
  audit :: "decision list"
  invocations :: "invocation list"
  audit_limit :: nat

definition RoleToolBroker :: "policy \<Rightarrow> (pyval \<times> handler option) list \<Rightarrow> pyval
    \<Rightarrow> (pyval \<times> tool_definition) list \<Rightarrow> tool_budget option \<Rightarrow> broker_error + broker" where
  "RoleToolBroker p hs limit ds b = (case limit of
       PInt n \<Rightarrow>
         if n < 1 then Inl AuditLimit
         else if \<not> (\<forall>(nm, h)\<in>set hs. nonempty_str nm \<and> h \<noteq> None) then Inl HandlerInvalid
         else if \<not> (\<forall>(nm, d)\<in>set ds. nonempty_str nm \<and> def_name d = str_of nm) then Inl DefinitionMismatch
         else Inr \<lparr>grants = p, handlers = map (\<lambda>(nm, h). (str_of nm, the h)) hs,
           definitions = map (\<lambda>(nm, d). (str_of nm, d)) ds,
           budget = (case b of None \<Rightarrow> default_budget | Some x \<Rightarrow> x),
           audit = [], invocations = [], audit_limit = nat n\<rparr>
     | _ \<Rightarrow> Inl AuditLimit)"

definition record_decision :: "decision \<Rightarrow> broker \<Rightarrow> broker" where
  "record_decision d b = b\<lparr>audit := dq_append (audit_limit b) (audit b) d\<rparr>"

definition record_invocation :: "invocation \<Rightarrow> broker \<Rightarrow> broker" where
  "record_invocation i b = b\<lparr>invocations := dq_append (audit_limit b) (invocations b) i\<rparr>"

definition decide_reason :: "broker \<Rightarrow> agent_profile \<Rightarrow> pystr \<Rightarrow> string" where
  "decide_reason b p tool =
     (if tool \<notin> set (tools p) then ''tool_not_declared''
      else if \<not> is_granted (grants b) (name p) tool then ''tool_not_granted''
      else if map_of (handlers b) tool = None then ''tool_not_registered''
      else ''allowed'')"

definition decide :: "agent_profile \<Rightarrow> pystr \<Rightarrow> broker \<Rightarrow> decision \<times> broker" where
  "decide p tool b =
     (let r = decide_reason b p tool;
          d = \<lparr>dec_role = name p, dec_tool = tool, dec_allowed = (r = ''allowed''), dec_reason = r\<rparr>
      in (d, record_decision d b))"

fun authorize_each :: "agent_profile \<Rightarrow> pystr list \<Rightarrow> broker \<Rightarrow> pystr list \<times> broker" where
  "authorize_each p [] b = ([], b)"
| "authorize_each p (t # ts) b =
     (case decide p t b of (d, b1) \<Rightarrow> case authorize_each p ts b1 of (out, b2) \<Rightarrow>
        (if dec_allowed d then t # out else out, b2))"

definition authorized_tools :: "agent_profile \<Rightarrow> broker \<Rightarrow> pystr list \<times> broker" where
  "authorized_tools p b = authorize_each p (fromkeys (tools p)) b"

definition authorized_definitions :: "agent_profile \<Rightarrow> broker \<Rightarrow> tool_definition list \<times> broker" where
  "authorized_definitions p b = (case authorized_tools p b of (ts, b1) \<Rightarrow>
     (List.map_filter (map_of (definitions b)) ts, b1))"

section \<open>Invocation\<close>

datatype invoke_result =
    Returned pyval
  | Denied string
  | Propagated nat
  | ProtocolRaised
  | UnicodeRaised

type_synonym handler_call = "pystr \<times> pyval"

definition record_call :: "agent_profile \<Rightarrow> tool_call \<Rightarrow> tool_result \<Rightarrow> bool \<Rightarrow> string \<Rightarrow> pyval
    \<Rightarrow> broker \<Rightarrow> broker" where
  "record_call p call res ok reason secs b = record_invocation
     \<lparr>inv_role = name p, inv_call = call, inv_result = res, inv_allowed = ok,
      inv_reason = reason, inv_elapsed = secs\<rparr> b"

definition deny_call :: "agent_profile \<Rightarrow> tool_call \<Rightarrow> string \<Rightarrow> broker \<Rightarrow> invoke_result \<times> broker" where
  "deny_call p call reason b =
     (Denied reason, record_call p call (result_failure reason) False reason (PFloat (Fin 0 (u ''0.0''))) b)"

text \<open>The checks of a call before its handler: the size of the arguments, then the schema.\<close>

definition argument_problem :: "broker \<Rightarrow> tool_definition \<Rightarrow> tool_call \<Rightarrow> (size_error + string) option" where
  "argument_problem b d call =
     (case bounded_stable_json_size (arguments call) (max_argument_bytes (budget b)) of
        Inl SizeOverflow \<Rightarrow> Some (Inr ''argument_too_large'')
      | Inl (SizeProtocol e) \<Rightarrow> Some (Inr ''invalid_arguments'')
      | Inl e \<Rightarrow> Some (Inl e)
      | Inr _ \<Rightarrow> (case validate_arguments d (arguments call) of
          Inl _ \<Rightarrow> Some (Inr ''invalid_arguments'') | Inr _ \<Rightarrow> None))"

text \<open>What happens to the value a handler returned.\<close>

definition finish_call :: "agent_profile \<Rightarrow> tool_call \<Rightarrow> pyval \<Rightarrow> pyval \<Rightarrow> broker \<Rightarrow> invoke_result \<times> broker" where
  "finish_call p call v secs b =
     (let cap = max_result_bytes (budget b) in
      case bindr (bounded_stable_json_size v cap) (\<lambda>_. result_from_value v) of
        Inl SizeOverflow \<Rightarrow> deny_call p call ''result_too_large'' b
      | Inl (SizeProtocol e) \<Rightarrow> deny_call p call ''invalid_result'' b
      | Inl e \<Rightarrow> (UnicodeRaised,
          record_call p call (result_failure ''handler_error'') False ''handler_error'' secs b)
      | Inr r \<Rightarrow>
          if int (byte_size r) > cap then deny_call p call ''result_too_large'' b
          else (Returned v, record_call p call r True ''allowed'' secs b))"

text \<open>\<open>invoke\<close> on a protocol call. \<open>secs\<close> is the elapsed time it would record.\<close>

definition invoke_call :: "pyval \<Rightarrow> agent_profile \<Rightarrow> tool_call \<Rightarrow> broker
    \<Rightarrow> invoke_result \<times> handler_call list \<times> broker" where
  "invoke_call secs p call b0 = (case decide p (call_name call) b0 of (d, b) \<Rightarrow>
     if \<not> dec_allowed d
     then (Denied (dec_reason d), [],
       record_call p call (result_failure (dec_reason d)) False (dec_reason d) (PFloat (Fin 0 (u ''0.0''))) b)
     else (case map_of (definitions b) (call_name call) of
         None \<Rightarrow> (case deny_call p call ''tool_definition_not_registered'' b of (r, b') \<Rightarrow> (r, [], b'))
       | Some df \<Rightarrow> (case argument_problem b df call of
           Some (Inl _) \<Rightarrow> (UnicodeRaised, [], b)
         | Some (Inr reason) \<Rightarrow> (case deny_call p call reason b of (r, b') \<Rightarrow> (r, [], b'))
         | None \<Rightarrow>
             (let h = the (map_of (handlers b) (call_name call));
                  runs = [(call_name call, arguments call)] in
              case h (arguments call) of
                HandlerDenied \<Rightarrow> (Denied ''handler'', runs, b)
              | HandlerProtocolError \<Rightarrow> (case deny_call p call ''invalid_result'' b of (r, b') \<Rightarrow> (r, runs, b'))
              | HandlerRaised n \<Rightarrow> (Propagated n, runs,
                  record_call p call (result_failure ''handler_error'') False ''handler_error'' secs b)
              | HandlerValue v \<Rightarrow> (case finish_call p call v secs b of (r, b') \<Rightarrow> (r, runs, b'))))))"

text \<open>\<open>invoke\<close> on a tool name: no definition, no size limit and no invocation record.\<close>

definition invoke_name :: "agent_profile \<Rightarrow> pyval \<Rightarrow> pyval \<Rightarrow> broker
    \<Rightarrow> invoke_result \<times> handler_call list \<times> broker" where
  "invoke_name p tool args b0 =
     (if \<not> nonempty_str tool then (Denied ''invalid tool name'', [], b0)
      else if args \<noteq> PNone \<and> as_mapping args = None then (Denied ''invalid arguments'', [], b0)
      else case decide p (str_of tool) b0 of (d, b) \<Rightarrow>
        if \<not> dec_allowed d then (Denied (dec_reason d), [], b)
        else (let a = (if args = PNone then PDict [] else args) in
          case (the (map_of (handlers b) (str_of tool))) a of
            HandlerValue v \<Rightarrow> (Returned v, [(str_of tool, a)], b)
          | HandlerDenied \<Rightarrow> (Denied ''handler'', [(str_of tool, a)], b)
          | HandlerProtocolError \<Rightarrow> (ProtocolRaised, [(str_of tool, a)], b)
          | HandlerRaised n \<Rightarrow> (Propagated n, [(str_of tool, a)], b)))"

section \<open>The logs\<close>

interpretation audit_log: bounded_log record_decision audit audit_limit
  by unfold_locales (simp_all add: record_decision_def)

interpretation invocation_log: bounded_log record_invocation invocations audit_limit
  by unfold_locales (simp_all add: record_invocation_def)

lemma record_decision_fields [simp]:
  "grants (record_decision d b) = grants b" "handlers (record_decision d b) = handlers b"
  "definitions (record_decision d b) = definitions b" "budget (record_decision d b) = budget b"
  "audit_limit (record_decision d b) = audit_limit b" "invocations (record_decision d b) = invocations b"
  by (simp_all add: record_decision_def)

lemma record_call_fields [simp]:
  "grants (record_call p c r ok rs s b) = grants b" "handlers (record_call p c r ok rs s b) = handlers b"
  "definitions (record_call p c r ok rs s b) = definitions b" "budget (record_call p c r ok rs s b) = budget b"
  "audit_limit (record_call p c r ok rs s b) = audit_limit b" "audit (record_call p c r ok rs s b) = audit b"
  by (simp_all add: record_call_def record_invocation_def)

text \<open>The fixed part of a broker, which no operation changes.\<close>

definition same_rules :: "broker \<Rightarrow> broker \<Rightarrow> bool" where
  "same_rules b b' \<longleftrightarrow> grants b' = grants b \<and> handlers b' = handlers b \<and> definitions b' = definitions b
     \<and> budget b' = budget b \<and> audit_limit b' = audit_limit b"

lemma same_rules_refl [simp]: "same_rules b b"
  by (simp add: same_rules_def)

lemma same_rules_trans: "same_rules b b1 \<Longrightarrow> same_rules b1 b2 \<Longrightarrow> same_rules b b2"
  by (simp add: same_rules_def)

lemma decide_simps [simp]:
  "dec_reason (fst (decide p t b)) = decide_reason b p t"
  "dec_allowed (fst (decide p t b)) \<longleftrightarrow> decide_reason b p t = ''allowed''"
  "same_rules b (snd (decide p t b))" "invocations (snd (decide p t b)) = invocations b"
  by (simp_all add: decide_def Let_def same_rules_def)

lemma decide_audit:
  "audit (snd (decide p t b)) = dq_append (audit_limit b) (audit b) (fst (decide p t b))"
  by (simp add: decide_def Let_def record_decision_def)

lemma allowed_iff:
  "decide_reason b p t = ''allowed'' \<longleftrightarrow>
     t \<in> set (tools p) \<and> is_granted (grants b) (name p) t \<and> map_of (handlers b) t \<noteq> None"
  by (simp add: decide_reason_def)

lemma same_rules_reason: "same_rules b b' \<Longrightarrow> decide_reason b' p t = decide_reason b p t"
  by (simp add: same_rules_def decide_reason_def)

lemma authorize_each_result:
  "fst (authorize_each p ts b) = filter (\<lambda>t. decide_reason b p t = ''allowed'') ts
     \<and> same_rules b (snd (authorize_each p ts b)) \<and> invocations (snd (authorize_each p ts b)) = invocations b"
proof (induction ts arbitrary: b)
  case (Cons t ts)
  obtain d b1 where d: "decide p t b = (d, b1)" by (cases "decide p t b")
  then have "same_rules b b1" "dec_allowed d \<longleftrightarrow> decide_reason b p t = ''allowed''" "invocations b1 = invocations b"
    by (metis decide_simps fst_conv snd_conv)+
  then show ?case using Cons.IH [of b1] d
    by (auto simp: case_prod_beta same_rules_reason intro: same_rules_trans)
qed simp


lemma authorized_tools_eq:
  "fst (authorized_tools p b) = filter (\<lambda>t. decide_reason b p t = ''allowed'') (fromkeys (tools p))"
  "same_rules b (snd (authorized_tools p b))" "invocations (snd (authorized_tools p b)) = invocations b"
  using authorize_each_result [of p "fromkeys (tools p)" b] by (simp_all add: authorized_tools_def)

section \<open>What an invocation does\<close>

definition accepted_call :: "broker \<Rightarrow> agent_profile \<Rightarrow> tool_call \<Rightarrow> bool" where
  "accepted_call b p call \<longleftrightarrow> decide_reason b p (call_name call) = ''allowed'' \<and>
     (\<exists>df. map_of (definitions b) (call_name call) = Some df \<and> argument_problem b df call = None)"

lemma argument_problem_None:
  "argument_problem b df call = None \<longleftrightarrow>
     (\<exists>n. bounded_stable_json_size (arguments call) (max_argument_bytes (budget b)) = Inr n)
     \<and> validate_arguments df (arguments call) = Inr ()"
  by (auto simp: argument_problem_def split: sum.splits size_error.splits)

lemma argument_problem_rules:
  "same_rules b b' \<Longrightarrow> argument_problem b' df call = argument_problem b df call"
  by (simp add: same_rules_def argument_problem_def)

lemma deny_call_simps [simp]: "fst (deny_call p c r b) = Denied r" "same_rules b (snd (deny_call p c r b))"
  "audit (snd (deny_call p c r b)) = audit b"
  by (simp_all add: deny_call_def same_rules_def)

lemma finish_call_rules [simp]:
  "same_rules b (snd (finish_call p c v secs b))" "audit (snd (finish_call p c v secs b)) = audit b"
  by (auto simp: finish_call_def Let_def same_rules_def deny_call_def split: sum.split size_error.split)

text \<open>The decision of a call, and the broker after it.\<close>

lemma invoke_call_cases:
  obtains d b1 where "decide p (call_name call) b = (d, b1)" "same_rules b b1"
    "dec_allowed d \<longleftrightarrow> decide_reason b p (call_name call) = ''allowed''"
    "dec_reason d = decide_reason b p (call_name call)" "invocations b1 = invocations b"
proof (cases "decide p (call_name call) b")
  case (Pair d b1)
  with that show ?thesis by (metis decide_simps fst_conv snd_conv)
qed

lemma invoke_call_ran:
  "fst (snd (invoke_call secs p call b)) =
     (if accepted_call b p call then [(call_name call, arguments call)] else [])"
proof (rule invoke_call_cases [of p call b])
  fix d b1
  assume d: "decide p (call_name call) b = (d, b1)" "same_rules b b1"
    "dec_allowed d \<longleftrightarrow> decide_reason b p (call_name call) = ''allowed''"
  then have "definitions b1 = definitions b" by (simp add: same_rules_def)
  moreover have "argument_problem b1 df call = argument_problem b df call" for df
    by (rule argument_problem_rules) (rule d(2))
  ultimately show ?thesis using d(1,3)
    by (auto simp: invoke_call_def accepted_call_def Let_def case_prod_beta
        split: option.split sum.split handler_reply.split)
qed

lemma invoke_call_rules: "same_rules b (snd (snd (invoke_call secs p call b)))"
proof (rule invoke_call_cases [of p call b])
  fix d b1
  assume d: "decide p (call_name call) b = (d, b1)" "same_rules b b1"
  show ?thesis
    using d by (auto simp: invoke_call_def Let_def case_prod_beta same_rules_def
        split: option.split sum.split handler_reply.split)
       (simp_all add: finish_call_rules [unfolded same_rules_def] deny_call_simps [unfolded same_rules_def])
qed


text \<open>
  The two ways a protocol call leaves no evidence: its handler raises the broker's own denial,
  or its arguments hold a lone surrogate, which no branch of \<open>invoke\<close> catches.
\<close>

definition unrecorded :: "broker \<Rightarrow> agent_profile \<Rightarrow> tool_call \<Rightarrow> bool" where
  "unrecorded b p call \<longleftrightarrow>
     (accepted_call b p call \<and> the (map_of (handlers b) (call_name call)) (arguments call) = HandlerDenied)
     \<or> (decide_reason b p (call_name call) = ''allowed'' \<and>
         (\<exists>df e. map_of (definitions b) (call_name call) = Some df \<and> argument_problem b df call = Some (Inl e)))"

definition evidence :: "broker \<Rightarrow> agent_profile \<Rightarrow> tool_call \<Rightarrow> invoke_result \<Rightarrow> invocation \<Rightarrow> bool" where
  "evidence b p call res i \<longleftrightarrow> inv_call i = call \<and> inv_role i = name p
     \<and> (inv_allowed i \<longleftrightarrow> (\<exists>v. res = Returned v))
     \<and> (\<forall>v. res = Returned v \<longrightarrow> result_from_value v = Inr (inv_result i)
          \<and> int (byte_size (inv_result i)) \<le> max_result_bytes (budget b))
     \<and> (\<forall>r. res = Denied r \<longrightarrow> inv_result i = result_failure r)"

text \<open>\<open>recorded_as b s res s'\<close>: the step from \<open>s\<close> to \<open>s'\<close> appended the evidence of \<open>res\<close>.\<close>

definition recorded_as :: "broker \<Rightarrow> agent_profile \<Rightarrow> tool_call \<Rightarrow> invocation list \<Rightarrow> invoke_result \<times> broker \<Rightarrow> bool" where
  "recorded_as b p call old rb \<longleftrightarrow>
     (\<exists>i. invocations (snd rb) = dq_append (audit_limit b) old i \<and> evidence b p call (fst rb) i)"

lemma deny_call_recorded:
  "same_rules b b1 \<Longrightarrow> recorded_as b p call (invocations b1) (deny_call p call r b1)"
  by (auto simp: recorded_as_def deny_call_def record_call_def record_invocation_def evidence_def same_rules_def)

lemma deny_call_recorded_pair:
  "same_rules b b1 \<Longrightarrow> recorded_as b p call (invocations b1) (Denied r, snd (deny_call p call r b1))"
  using deny_call_recorded [of b b1 p call r] by (simp add: deny_call_def)

lemma record_call_recorded:
  "same_rules b b1 \<Longrightarrow> res \<in> {UnicodeRaised} \<union> range Propagated \<Longrightarrow>
     recorded_as b p call (invocations b1) (res, record_call p call (result_failure r) False r secs b1)"
  by (auto simp: recorded_as_def record_call_def record_invocation_def evidence_def same_rules_def)

lemma refused_recorded:
  "same_rules b b1 \<Longrightarrow> recorded_as b p call (invocations b1)
     (Denied r, record_call p call (result_failure r) False r secs b1)"
  by (auto simp: recorded_as_def record_call_def record_invocation_def evidence_def same_rules_def)

lemma finish_call_recorded:
  assumes "same_rules b b1"
  shows "recorded_as b p call (invocations b1) (finish_call p call v secs b1)"
proof (cases "bindr (bounded_stable_json_size v (max_result_bytes (budget b1))) (\<lambda>_. result_from_value v)")
  case (Inl e)
  then show ?thesis
    using deny_call_recorded [OF assms] record_call_recorded [OF assms]
    by (cases e) (simp_all add: finish_call_def Let_def)
next
  case (Inr r)
  then have r: "result_from_value v = Inr r" by (simp add: bindr_Inr_iff)
  show ?thesis
  proof (cases "int (byte_size r) > max_result_bytes (budget b1)")
    case True
    with Inr show ?thesis using deny_call_recorded [OF assms] by (simp add: finish_call_def Let_def)
  next
    case False
    let ?i = "\<lparr>inv_role = name p, inv_call = call, inv_result = r, inv_allowed = True,
        inv_reason = ''allowed'', inv_elapsed = secs\<rparr>"
    have "finish_call p call v secs b1 = (Returned v, record_invocation ?i b1)"
      using Inr False by (simp add: finish_call_def Let_def record_call_def)
    moreover have "evidence b p call (Returned v) ?i"
      using r False assms by (simp add: evidence_def same_rules_def)
    ultimately show ?thesis
      using assms unfolding recorded_as_def
      by (intro exI [of _ ?i]) (simp add: record_invocation_def same_rules_def)
  qed
qed

lemma invoke_call_recorded:
  assumes "\<not> unrecorded b p call"
  shows "recorded_as b p call (invocations b)
    (fst (invoke_call secs p call b), snd (snd (invoke_call secs p call b)))"
proof (rule invoke_call_cases [of p call b])
  fix d b1
  assume d: "decide p (call_name call) b = (d, b1)" and same: "same_rules b b1"
    and allowed: "dec_allowed d \<longleftrightarrow> decide_reason b p (call_name call) = ''allowed''"
    and inv: "invocations b1 = invocations b"
  note defs = same [unfolded same_rules_def] argument_problem_rules [OF same]
  show ?thesis
  proof (cases "dec_allowed d")
    case False
    then show ?thesis
      using refused_recorded [OF same] d inv by (simp add: invoke_call_def)
  next
    case True
    note ok = True
    show ?thesis
    proof (cases "map_of (definitions b) (call_name call)")
      case None
      then show ?thesis using deny_call_recorded_pair [OF same] d inv ok defs
        by (simp add: invoke_call_def case_prod_beta)
    next
      case (Some df)
      note df = Some
      show ?thesis
      proof (cases "argument_problem b df call")
        case None
        let ?h = "the (map_of (handlers b) (call_name call)) (arguments call)"
        have "?h \<noteq> HandlerDenied"
          using assms ok allowed df None by (auto simp: unrecorded_def accepted_call_def)
        then show ?thesis
          using deny_call_recorded_pair [OF same] record_call_recorded [OF same] finish_call_recorded [OF same]
            d inv ok defs df None
          by (cases ?h) (simp_all add: invoke_call_def case_prod_beta Let_def)
      next
        case (Some e)
        then obtain reason where "e = Inr reason"
          using assms ok allowed df by (cases e) (auto simp: unrecorded_def)
        then show ?thesis using deny_call_recorded_pair [OF same] d inv ok defs df Some
          by (simp add: invoke_call_def case_prod_beta)
      qed
    qed
  qed
qed

lemma invoke_call_unrecorded:
  assumes "unrecorded b p call"
  shows "invocations (snd (snd (invoke_call secs p call b))) = invocations b
    \<and> fst (invoke_call secs p call b) \<in> {Denied ''handler'', UnicodeRaised}"
proof (rule invoke_call_cases [of p call b])
  fix d b1
  assume d: "decide p (call_name call) b = (d, b1)" and same: "same_rules b b1"
    and allowed: "dec_allowed d \<longleftrightarrow> decide_reason b p (call_name call) = ''allowed''"
    and inv: "invocations b1 = invocations b"
  note defs = same [unfolded same_rules_def] argument_problem_rules [OF same]
  from assms show ?thesis
    using d inv defs allowed
    by (auto simp: unrecorded_def accepted_call_def invoke_call_def Let_def)
qed

lemma invoke_call_denied:
  assumes "accepted_call b p call"
    and "the (map_of (handlers b) (call_name call)) (arguments call) = HandlerDenied"
  shows "fst (invoke_call secs p call b) = Denied ''handler''"
proof (rule invoke_call_cases [of p call b])
  fix d b1
  assume d: "decide p (call_name call) b = (d, b1)" and same: "same_rules b b1"
    and allowed: "dec_allowed d \<longleftrightarrow> decide_reason b p (call_name call) = ''allowed''"
  note defs = same [unfolded same_rules_def] argument_problem_rules [OF same]
  from assms show ?thesis
    using d defs allowed by (auto simp: accepted_call_def invoke_call_def Let_def)
qed

lemma invoke_call_audit:
  "audit (snd (snd (invoke_call secs p call b))) =
     dq_append (audit_limit b) (audit b) (fst (decide p (call_name call) b))"
proof (rule invoke_call_cases [of p call b])
  fix d b1
  assume d: "decide p (call_name call) b = (d, b1)"
  then have "audit b1 = dq_append (audit_limit b) (audit b) d" using decide_audit [of p _ b] by (metis fst_conv snd_conv)
  then show ?thesis
    using d by (auto simp: invoke_call_def Let_def case_prod_beta
        split: option.split sum.split handler_reply.split)
qed

section \<open>Sequences of requests\<close>

text \<open>What callers do with a broker, in any order: invoke, by call or by name, or list tools.\<close>

datatype broker_op =
    InvokeCall pyval agent_profile tool_call
  | InvokeName agent_profile pyval pyval
  | ListTools agent_profile

fun broker_step :: "broker_op \<Rightarrow> broker \<Rightarrow> handler_call list \<times> broker" where
  "broker_step (InvokeCall secs p call) b = snd (invoke_call secs p call b)"
| "broker_step (InvokeName p tool args) b = snd (invoke_name p tool args b)"
| "broker_step (ListTools p) b = ([], snd (authorized_tools p b))"

fun broker_run :: "broker_op list \<Rightarrow> broker \<Rightarrow> handler_call list \<times> broker" where
  "broker_run [] b = ([], b)"
| "broker_run (x # xs) b =
     (case broker_step x b of (runs, b1) \<Rightarrow> case broker_run xs b1 of (rest, b2) \<Rightarrow> (runs @ rest, b2))"

text \<open>The decisions a request takes, in order.\<close>

fun op_decisions :: "broker \<Rightarrow> broker_op \<Rightarrow> decision list" where
  "op_decisions b (InvokeCall secs p call) = [fst (decide p (call_name call) b)]"
| "op_decisions b (InvokeName p tool args) =
     (if nonempty_str tool \<and> (args = PNone \<or> as_mapping args \<noteq> None) then [fst (decide p (str_of tool) b)] else [])"
| "op_decisions b (ListTools p) = map (\<lambda>t. fst (decide p t b)) (fromkeys (tools p))"

lemma decide_same: "same_rules b b' \<Longrightarrow> fst (decide p t b') = fst (decide p t b)"
  by (simp add: decide_def Let_def same_rules_reason)

lemma op_decisions_same: "same_rules b b' \<Longrightarrow> op_decisions b' x = op_decisions b x"
  by (cases x) (simp_all add: decide_same)

lemma authorize_each_audit:
  "audit (snd (authorize_each p ts b)) =
     dq_extend (audit_limit b) (audit b) (map (\<lambda>t. fst (decide p t b)) ts)"
proof (induction ts arbitrary: b)
  case (Cons t ts)
  obtain d b1 where d: "decide p t b = (d, b1)" by (cases "decide p t b")
  then have b1: "same_rules b b1" "audit b1 = dq_append (audit_limit b) (audit b) d" "fst (decide p t b) = d"
    using decide_audit [of p t b] by (metis decide_simps(3) fst_conv snd_conv)+
  have "audit_limit b1 = audit_limit b" using b1(1) by (simp add: same_rules_def)
  then have "audit (snd (authorize_each p ts b1)) =
      dq_extend (audit_limit b) (audit b1) (map (\<lambda>t. fst (decide p t b)) ts)"
    using Cons.IH [of b1] by (simp add: decide_same [OF b1(1)])
  then show ?case using d b1(2,3) by (simp add: case_prod_beta dq_extend_def)
qed (simp add: dq_extend_def)

lemma broker_step_facts:
  "same_rules b (snd (broker_step x b)) \<and>
   audit (snd (broker_step x b)) = dq_extend (audit_limit b) (audit b) (op_decisions b x)"
proof (cases x)
  case (InvokeCall secs p call)
  then show ?thesis using invoke_call_rules [of b secs p call] invoke_call_audit [of secs p call b]
    by (simp add: dq_extend_def)
next
  case (InvokeName p tool args)
  then show ?thesis using decide_audit [of p "str_of tool" b] decide_simps(3) [of b p "str_of tool"]
    by (auto simp: invoke_name_def case_prod_beta Let_def dq_extend_def split: handler_reply.split)
next
  case (ListTools p)
  then show ?thesis using authorize_each_audit [of p "fromkeys (tools p)" b] authorized_tools_eq(2) [of b p]
    by (simp add: authorized_tools_def)
qed

lemma broker_run_facts:
  "same_rules b (snd (broker_run xs b)) \<and>
   audit (snd (broker_run xs b)) = dq_extend (audit_limit b) (audit b) (concat (map (op_decisions b) xs))"
proof (induction xs arbitrary: b)
  case (Cons x xs)
  let ?b = "snd (broker_step x b)"
  have f: "same_rules b ?b" "audit ?b = dq_extend (audit_limit b) (audit b) (op_decisions b x)"
    using broker_step_facts by blast+
  have "audit_limit ?b = audit_limit b" using f(1) by (simp add: same_rules_def)
  then have "audit (snd (broker_run xs ?b)) =
      dq_extend (audit_limit b) (audit ?b) (concat (map (op_decisions b) xs))"
    using Cons.IH [of ?b] unfolding op_decisions_same [OF f(1)] by simp
  then show ?case using Cons.IH [of ?b] f(2) same_rules_trans [OF f(1)]
    by (simp add: case_prod_beta dq_extend_def)
qed (simp add: dq_extend_def)

lemma invoke_name_ran:
  "set (fst (snd (invoke_name p tool args b))) \<subseteq>
     {c. fst c = str_of tool \<and> decide_reason b p (str_of tool) = ''allowed''}"
  using decide_simps(2) [of p "str_of tool" b]
  by (auto simp: invoke_name_def case_prod_beta Let_def split: handler_reply.splits if_splits)

text \<open>Every handler call of a step answers to an allowing decision of that step.\<close>

lemma decide_fields: "dec_tool (fst (decide p t b)) = t" "dec_role (fst (decide p t b)) = name p"
  by (simp_all add: decide_def Let_def)

lemma broker_step_allowed:
  "c \<in> set (fst (broker_step x b)) \<Longrightarrow> \<exists>d\<in>set (op_decisions b x). dec_tool d = fst c \<and> dec_allowed d"
proof (cases x)
  case (InvokeCall secs p call)
  assume "c \<in> set (fst (broker_step x b))"
  with InvokeCall show ?thesis
    by (auto simp: invoke_call_ran accepted_call_def decide_fields split: if_splits)
next
  case (InvokeName p tool args)
  assume c: "c \<in> set (fst (broker_step x b))"
  then have "nonempty_str tool \<and> (args = PNone \<or> as_mapping args \<noteq> None)"
    using InvokeName by (auto simp: invoke_name_def split: if_splits)
  with c InvokeName invoke_name_ran [of p tool args b] show ?thesis
    by (auto simp: decide_fields)
qed simp

lemma broker_run_allowed:
  "c \<in> set (fst (broker_run xs b)) \<Longrightarrow> \<exists>d\<in>set (concat (map (op_decisions b) xs)). dec_tool d = fst c \<and> dec_allowed d"
proof (induction xs arbitrary: b)
  case (Cons x xs)
  have same: "same_rules b (snd (broker_step x b))" using broker_step_facts by blast
  from Cons.prems consider "c \<in> set (fst (broker_step x b))"
    | "c \<in> set (fst (broker_run xs (snd (broker_step x b))))"
    by (auto simp: case_prod_beta)
  then show ?case
  proof cases
    case 1
    then show ?thesis using broker_step_allowed by fastforce
  next
    case 2
    then show ?thesis using Cons.IH [OF 2] unfolding op_decisions_same [OF same] by auto
  qed
qed simp

lemma broker_initial:
  assumes "RoleToolBroker pol hs limit ds bud = Inr b"
  shows "audit b = [] \<and> invocations b = [] \<and> 0 < audit_limit b"
  using assms by (cases limit) (auto simp: RoleToolBroker_def split: if_splits)

section \<open>Properties\<close>

text \<open>
  C18: default deny. A protocol call runs its handler, once and with its own arguments, exactly
  when the profile declares the tool, the policy grants it to that role, a handler and a
  definition are registered, the arguments conform to the schema and their canonical encoding
  fits the budget; in every other case no handler runs.
\<close>

theorem handler_runs_iff_authorized:
  "fst (snd (invoke_call secs p call b)) =
     (if call_name call \<in> set (tools p) \<and> is_granted (grants b) (name p) (call_name call)
         \<and> map_of (handlers b) (call_name call) \<noteq> None
         \<and> (\<exists>df t n. map_of (definitions b) (call_name call) = Some df
              \<and> (\<exists>m. arguments call = PDict m) \<and> conforms (parameters df) (arguments call)
              \<and> stable_json_bytes (arguments call) = Inr t \<and> utf8_length t = Some n
              \<and> int n \<le> max_argument_bytes (budget b))
      then [(call_name call, arguments call)] else [])"
proof -
  have "argument_problem b df call = None \<longleftrightarrow> (\<exists>m. arguments call = PDict m) \<and>
      conforms (parameters df) (arguments call) \<and> (\<exists>t n. stable_json_bytes (arguments call) = Inr t \<and>
        utf8_length t = Some n \<and> int n \<le> max_argument_bytes (budget b))" for df
    unfolding argument_problem_None validate_arguments_iff bounded_size_iff
    by (auto simp: stable_json_bytes_Inr json_ok_def)
  then show ?thesis unfolding invoke_call_ran accepted_call_def allowed_iff by (auto split: if_splits)
qed


text \<open>
  C19: over any sequence of requests the broker keeps its rules, its audit log holds exactly the
  newest decisions in order, up to the limit, and every handler call made anywhere in the
  sequence answers to an allowing decision for that tool.
\<close>

theorem broker_audit_exact:
  assumes "RoleToolBroker pol hs limit ds bud = Inr b"
  shows "same_rules b (snd (broker_run xs b)) \<and>
    audit (snd (broker_run xs b)) = lastn (audit_limit b) (concat (map (op_decisions b) xs)) \<and>
    (\<forall>c\<in>set (fst (broker_run xs b)). \<exists>d\<in>set (concat (map (op_decisions b) xs)).
       dec_tool d = fst c \<and> dec_allowed d)"
proof -
  have "audit b = lastn (audit_limit b) []" using broker_initial [OF assms] by (simp add: lastn_def)
  then show ?thesis
    using broker_run_facts [of b xs] broker_run_allowed [of _ xs b]
      dq_extend_lastn [of "audit_limit b" "[]"] by auto
qed

abbreviation tool_user :: agent_profile where
  "tool_user \<equiv> \<lparr>name = u ''tester'', display_name = u ''Tester'', description = [], parent_role = None,
     capabilities = [], constraints = [], prompt_template = [], tools = [u ''model_list''],
     priority = 1, metadata = []\<rparr>"

definition demo_broker :: broker where
  "demo_broker = \<lparr>grants = [(u ''tester'', [u ''model_list''])],
     handlers = [(u ''model_list'', \<lambda>a. HandlerValue (PList []))],
     definitions = [(u ''model_list'', limit_definition)], budget = default_budget,
     audit = [], invocations = [], audit_limit = 1\<rparr>"

lemma demo_broker_built:
  "RoleToolBroker [(u ''tester'', [u ''model_list''])]
     [(PStr (u ''model_list''), Some (\<lambda>a. HandlerValue (PList [])))] (PInt 1)
     [(PStr (u ''model_list''), limit_definition)] None = Inr demo_broker"
  by (simp add: RoleToolBroker_def nonempty_str_def str_of_def demo_broker_def)

lemma broker_audit_exact_witness:
  "audit (snd (broker_run [ListTools tool_user, InvokeName tool_user (PStr (u ''rm'')) PNone] demo_broker))
     = [\<lparr>dec_role = u ''tester'', dec_tool = u ''rm'', dec_allowed = False, dec_reason = ''tool_not_declared''\<rparr>]"
proof -
  have "concat (map (op_decisions demo_broker)
      [ListTools tool_user, InvokeName tool_user (PStr (u ''rm'')) PNone])
    = [\<lparr>dec_role = u ''tester'', dec_tool = u ''model_list'', dec_allowed = True, dec_reason = ''allowed''\<rparr>,
       \<lparr>dec_role = u ''tester'', dec_tool = u ''rm'', dec_allowed = False, dec_reason = ''tool_not_declared''\<rparr>]"
    by code_simp
  moreover have "audit_limit demo_broker = 1" by (simp add: demo_broker_def)
  ultimately show ?thesis
    using broker_audit_exact [OF demo_broker_built,
        of "[ListTools tool_user, InvokeName tool_user (PStr (u ''rm'')) PNone]", THEN conjunct2, THEN conjunct1]
    by (simp add: lastn_def del: broker_run.simps op_decisions.simps)
qed

text \<open>
  Every protocol call leaves exactly one invocation record, of that role and that call,
  which is marked allowed exactly when a value is returned and then holds that value's
  canonical encoding within the byte budget, and otherwise the reason of the denial. The only
  calls without a record are those whose handler raises the broker's own denial and those whose
  arguments cannot be encoded.
\<close>

theorem invocation_evidence:
  "(\<not> unrecorded b p call \<longrightarrow>
     (\<exists>i. invocations (snd (snd (invoke_call secs p call b))) = dq_append (audit_limit b) (invocations b) i \<and>
       evidence b p call (fst (invoke_call secs p call b)) i)) \<and>
   (unrecorded b p call \<longrightarrow>
      invocations (snd (snd (invoke_call secs p call b))) = invocations b \<and>
      fst (invoke_call secs p call b) \<in> {Denied ''handler'', UnicodeRaised})"
proof (intro conjI impI)
  assume "\<not> unrecorded b p call"
  from invoke_call_recorded [OF this] show "\<exists>i. invocations (snd (snd (invoke_call secs p call b)))
      = dq_append (audit_limit b) (invocations b) i \<and> evidence b p call (fst (invoke_call secs p call b)) i"
    by (simp add: recorded_as_def)
next
  assume "unrecorded b p call"
  from invoke_call_unrecorded [OF this] show
    "invocations (snd (snd (invoke_call secs p call b))) = invocations b"
    "fst (invoke_call secs p call b) \<in> {Denied ''handler'', UnicodeRaised}"
    by auto
qed

lemma invocation_evidence_witness:
  "\<exists>i. invocations (snd (snd (invoke_call PNone tool_user \<lparr>call_name = u ''rm'', arguments = PDict [],
      round_index = 0, call_index = 0, call_id = None\<rparr> demo_broker))) = [i]"
proof -
  let ?call = "\<lparr>call_name = u ''rm'', arguments = PDict [], round_index = 0, call_index = 0, call_id = None\<rparr>"
  have "\<not> unrecorded demo_broker tool_user ?call"
    by (simp add: unrecorded_def accepted_call_def decide_reason_def)
  moreover have "invocations demo_broker = []" "audit_limit demo_broker = 1" by (simp_all add: demo_broker_def)
  ultimately show ?thesis
    using invocation_evidence [of demo_broker tool_user ?call PNone] by (auto simp: dq_append_def)
qed

end
