(* ===== verification/Role_Tool_Loop.thy ===== *)
theory Role_Tool_Loop
  imports Role_Tools
begin

text \<open>
  The bounded model-to-tool conversation of \<open>src/core/brain/role_tool_loop.py\<close>. The model
  service is a parameter \<open>chat\<close> (its reply at a round to a history, \<open>None\<close> when it raises), the
  clock a function of the number of readings so far, and \<open>json.loads\<close> is \<open>loads\<close>. The loop
  carries the broker, whose handlers it may run, and two lists of what happened, which nothing reads: the handler
  calls made and the results handed to the model. A rnd that
  calls no tool ends the loop and every other round uses up part of the call budget, so the
  loop is a total function without fuel.
\<close>

section \<open>State and errors\<close>

datatype loop_error =
    ModelInvalid | TimeoutInvalid | TimeoutOverflow | MessagesInvalid | MessageInvalid | ElapsedExceeded | ChatRaised
  | ResponseInvalid | AssistantInvalid | ContentInvalid | ToolCallsInvalid | ContentEmpty
  | CallBudgetExceeded | CallInvalid protocol_error | ResultBudgetExceeded | OutputBudgetExceeded
  | EncodeRaised

record loop_env =
  chat :: "nat \<Rightarrow> pyval list \<Rightarrow> pyval option"
  clock :: "nat \<Rightarrow> rat"
  loads :: "pystr \<Rightarrow> pyval option"
  call_secs :: "nat \<Rightarrow> pyval"
  loop_budget :: tool_budget
  profile :: agent_profile
  started_at :: rat
  elapsed_limit :: rat

record loop_state =
  ticks :: nat
  conversation :: "pyval list"
  brk :: broker
  calls_used :: int
  result_bytes_used :: int
  handler_runs :: "handler_call list"
  tool_answers :: "(tool_call \<times> tool_result) list"

type_synonym 'a loop_result = "(loop_error + 'a) \<times> loop_state"

definition seq_loop :: "'a loop_result \<Rightarrow> ('a \<Rightarrow> loop_state \<Rightarrow> 'b loop_result) \<Rightarrow> 'b loop_result" where
  "seq_loop m f = (case m of (Inl e, s) \<Rightarrow> (Inl e, s) | (Inr x, s) \<Rightarrow> f x s)"

lemma seq_loop_simps [simp]: "seq_loop (Inl e, s) f = (Inl e, s)" "seq_loop (Inr x, s) f = f x s"
  by (simp_all add: seq_loop_def)

lemma seq_loop_Inr: "seq_loop m f = (Inr y, s') \<longleftrightarrow> (\<exists>x s. m = (Inr x, s) \<and> f x s = (Inr y, s'))"
  by (cases m; cases "fst m") auto

lemma seq_loop_cong [fundef_cong]:
  assumes "m = m'" and "\<And>x s. m' = (Inr x, s) \<Longrightarrow> f x s = f' x s"
  shows "seq_loop m f = seq_loop m' f'"
  using assms by (cases m'; cases "fst m'") auto

section \<open>Operations\<close>

definition check_deadline :: "loop_env \<Rightarrow> loop_state \<Rightarrow> unit loop_result" where
  "check_deadline e s =
     (let s' = s\<lparr>ticks := ticks s + 1\<rparr> in
      if clock e (ticks s) - started_at e \<ge> elapsed_limit e then (Inl ElapsedExceeded, s') else (Inr (), s'))"

text \<open>\<open>_parse_assistant\<close>: the assistant message kept in the history, its content and its calls.\<close>

definition parse_assistant :: "pyval \<Rightarrow> loop_error + pyval \<times> pystr \<times> pyval list" where
  "parse_assistant response =
     bindr (case as_mapping response of
          None \<Rightarrow> Inl ResponseInvalid
        | Some r \<Rightarrow> if truthy (get_default r ''error'' PNone) then Inl ResponseInvalid else Inr r) (\<lambda>r.
     bindr (case as_mapping (get_default r ''message'' PNone) of
          None \<Rightarrow> Inl AssistantInvalid
        | Some m \<Rightarrow> if py_eq (get_default m ''role'' PNone) (PStr (u ''assistant'')) then Inr m
                   else Inl AssistantInvalid) (\<lambda>m.
     bindr (case get_default m ''content'' PNone of
          PNone \<Rightarrow> Inr [] | PStr t \<Rightarrow> Inr t | _ \<Rightarrow> Inl ContentInvalid) (\<lambda>text.
     bindr (case get_default m ''tool_calls'' PNone of
          PNone \<Rightarrow> Inr []
        | PList cs \<Rightarrow> if \<forall>c\<in>set cs. as_mapping c \<noteq> None then Inr cs else Inl ToolCallsInvalid
        | _ \<Rightarrow> Inl ToolCallsInvalid) (\<lambda>calls.
       Inr (PDict ([(PStr (u ''role''), PStr (u ''assistant'')), (PStr (u ''content''), PStr text)]
              @ (if calls = [] then [] else [(PStr (u ''tool_calls''), PList calls)])), text, calls)))))"

definition tool_message :: "tool_call \<Rightarrow> tool_result \<Rightarrow> pyval" where
  "tool_message c r = PDict ([(PStr (u ''role''), PStr (u ''tool'')), (PStr (u ''content''), PStr (content r)),
     (PStr (u ''tool_name''), PStr (call_name c))] @ opt_member ''tool_call_id'' (map_option PStr (call_id c)))"

text \<open>\<open>_find_invocation\<close>: the newest evidence of this role and an equal call.\<close>

definition find_invocation :: "agent_profile \<Rightarrow> tool_call \<Rightarrow> broker \<Rightarrow> invocation option" where
  "find_invocation p c b = List.find
     (\<lambda>i. inv_role i = name p \<and> py_eq (call_to_dict (inv_call i)) (call_to_dict c)) (rev (invocations b))"

text \<open>
  \<open>_invoke\<close>: any exception of the broker is dropped, and then the evidence decides. Without
  evidence the value the broker returned, or \<open>None\<close> after an exception, becomes the result.
\<close>

definition invoke_tool :: "pyval \<Rightarrow> agent_profile \<Rightarrow> tool_call \<Rightarrow> broker
    \<Rightarrow> (size_error + tool_result) \<times> handler_call list \<times> broker" where
  "invoke_tool secs p c b = (case invoke_call secs p c b of (res, runs, b') \<Rightarrow>
     ((case find_invocation p c b' of
         Some i \<Rightarrow> Inr (inv_result i)
       | None \<Rightarrow> (case result_from_value (case res of Returned v \<Rightarrow> v | _ \<Rightarrow> PNone) of
           Inr r \<Rightarrow> Inr r
         | Inl (SizeProtocol _) \<Rightarrow> Inr (result_failure ''tool_error'')
         | Inl x \<Rightarrow> Inl x)), runs, b'))"

fun run_calls :: "loop_env \<Rightarrow> tool_call list \<Rightarrow> loop_state \<Rightarrow> unit loop_result" where
  "run_calls e [] s = (Inr (), s)"
| "run_calls e (c # cs) s =
     seq_loop (check_deadline e (s\<lparr>calls_used := calls_used s + 1\<rparr>)) (\<lambda>_ s1.
     case invoke_tool (call_secs e (ticks s1)) (profile e) c (brk s1) of (result, runs, b') \<Rightarrow>
       (let s2 = s1\<lparr>brk := b', handler_runs := handler_runs s1 @ runs\<rparr> in
        case result of
          Inl _ \<Rightarrow> (Inl EncodeRaised, s2)
        | Inr r \<Rightarrow>
            if int (byte_size r) > max_result_bytes (loop_budget e) then (Inl ResultBudgetExceeded, s2)
            else let s3 = s2\<lparr>result_bytes_used := result_bytes_used s2 + int (byte_size r)\<rparr> in
              if result_bytes_used s3 > max_total_result_bytes (loop_budget e) then (Inl OutputBudgetExceeded, s3)
              else seq_loop (check_deadline e s3) (\<lambda>_ s4.
                run_calls e cs (s4\<lparr>conversation := conversation s4 @ [tool_message c r],
                  tool_answers := tool_answers s4 @ [(c, r)]\<rparr>))))"

text \<open>One exchange with the model: the parsed calls of the round and its text.\<close>

definition exchange :: "loop_env \<Rightarrow> nat \<Rightarrow> loop_state \<Rightarrow> (pystr \<times> pyval list) loop_result" where
  "exchange e rnd s =
     seq_loop (check_deadline e s) (\<lambda>_ s1.
     case chat e rnd (conversation s1) of
       None \<Rightarrow> (Inl ChatRaised, s1)
     | Some reply \<Rightarrow> seq_loop (check_deadline e s1) (\<lambda>_ s2.
         case parse_assistant reply of
           Inl x \<Rightarrow> (Inl x, s2)
         | Inr parsed \<Rightarrow> (Inr (snd parsed), s2\<lparr>conversation := conversation s2 @ [fst parsed]\<rparr>)))"

definition parse_calls :: "loop_env \<Rightarrow> nat \<Rightarrow> pyval list \<Rightarrow> protocol_error + tool_call list" where
  "parse_calls e rnd raws =
     mapr (\<lambda>(i, raw). from_ollama (loads e) raw (int rnd) (int i)) (enumerate 0 raws)"

lemma exchange_fields:
  "calls_used (snd (exchange e r s)) = calls_used s \<and> brk (snd (exchange e r s)) = brk s
     \<and> handler_runs (snd (exchange e r s)) = handler_runs s \<and> tool_answers (snd (exchange e r s)) = tool_answers s
     \<and> set (conversation s) \<subseteq> set (conversation (snd (exchange e r s)))
     \<and> result_bytes_used (snd (exchange e r s)) = result_bytes_used s"
  by (auto simp: exchange_def check_deadline_def Let_def split: option.split sum.split)

lemma exchange_calls_used: "exchange e r s = (Inr x, s') \<Longrightarrow> calls_used s' = calls_used s"
  using exchange_fields [of e r s] by simp

lemma mapr_length: "mapr f xs = Inr ys \<Longrightarrow> length ys = length xs"
  by (simp add: mapr_Inr list_all2_lengthD)

lemma run_calls_used: "run_calls e cs s = (Inr x, s') \<Longrightarrow> calls_used s' = calls_used s + int (length cs)"
  by (induction cs arbitrary: s)
     (auto simp: seq_loop_Inr check_deadline_def Let_def split: sum.splits if_splits prod.splits)

lemma parse_calls_length: "parse_calls e r raws = Inr calls \<Longrightarrow> length calls = length raws"
  unfolding parse_calls_def by (drule mapr_length) simp

function run_rounds :: "loop_env \<Rightarrow> nat \<Rightarrow> loop_state \<Rightarrow> pystr loop_result" where
  "run_rounds e rnd s =
     seq_loop (exchange e rnd s) (\<lambda>reply s1.
       if snd reply = [] then
         (if py_strip (fst reply) \<noteq> [] then (Inr (py_strip (fst reply)), s1) else (Inl ContentEmpty, s1))
       else if calls_used s1 + int (length (snd reply)) > max_calls (loop_budget e)
       then (Inl CallBudgetExceeded, s1)
       else (case parse_calls e rnd (snd reply) of
           Inl x \<Rightarrow> (Inl (CallInvalid x), s1)
         | Inr calls \<Rightarrow> seq_loop (run_calls e calls s1) (\<lambda>_ s2. run_rounds e (rnd + 1) s2)))"
  by pat_completeness auto

termination
  by (relation "measure (\<lambda>(e, r, s). nat (max_calls (loop_budget e) - calls_used s))")
     (auto dest!: exchange_calls_used run_calls_used parse_calls_length simp flip: length_greater_0_conv)

declare run_rounds.simps [simp del]

definition positive_finite :: "pyval \<Rightarrow> bool" where
  "positive_finite v \<longleftrightarrow> matches_type v TNumber \<and> the (num_val v) > 0"

text \<open>\<open>run\<close>: the checks of its arguments, the authorised tools, then the rounds.\<close>

definition start_problem :: "pyval \<Rightarrow> pyval \<Rightarrow> pyval \<Rightarrow> loop_error option" where
  "start_problem model timeout messages =
     (if \<not> (case model of PStr m \<Rightarrow> py_strip m \<noteq> [] | _ \<Rightarrow> False) then Some ModelInvalid
      else if isfinite_raises timeout then Some TimeoutOverflow
      else if \<not> positive_finite timeout then Some TimeoutInvalid
      else (case as_seq messages of
          None \<Rightarrow> Some MessagesInvalid
        | Some ms \<Rightarrow> if \<forall>m\<in>set ms. as_mapping m \<noteq> None then None else Some MessageInvalid))"

definition start_env :: "(nat \<Rightarrow> pyval list \<Rightarrow> pyval option) \<Rightarrow> (nat \<Rightarrow> rat) \<Rightarrow> (pystr \<Rightarrow> pyval option)
    \<Rightarrow> (nat \<Rightarrow> pyval) \<Rightarrow> tool_budget \<Rightarrow> agent_profile \<Rightarrow> pyval \<Rightarrow> loop_env" where
  "start_env cht clk lds secs bd p timeout =
     \<lparr>chat = cht, clock = clk, loads = lds, call_secs = secs, loop_budget = bd, profile = p,
      started_at = clk 0, elapsed_limit = min (the (num_val timeout)) (max_elapsed_seconds bd)\<rparr>"

definition start_state :: "pyval list \<Rightarrow> broker \<Rightarrow> loop_state" where
  "start_state ms b = \<lparr>ticks = 1, conversation = ms, brk = b, calls_used = 0, result_bytes_used = 0,
     handler_runs = [], tool_answers = []\<rparr>"

definition run_loop :: "(nat \<Rightarrow> pyval list \<Rightarrow> pyval option) \<Rightarrow> (nat \<Rightarrow> rat) \<Rightarrow> (pystr \<Rightarrow> pyval option)
    \<Rightarrow> (nat \<Rightarrow> pyval) \<Rightarrow> tool_budget option \<Rightarrow> pyval \<Rightarrow> pyval \<Rightarrow> agent_profile \<Rightarrow> pyval \<Rightarrow> broker
    \<Rightarrow> pystr loop_result" where
  "run_loop cht clk lds secs bud model messages p timeout b =
     (case start_problem model timeout messages of
        Some err \<Rightarrow> (Inl err, (start_state [] b)\<lparr>ticks := 0\<rparr>)
      | None \<Rightarrow> run_rounds
          (start_env cht clk lds secs (case bud of None \<Rightarrow> budget b | Some x \<Rightarrow> x) p timeout) 0
          (start_state (the (as_seq messages)) (snd (authorized_definitions p b))))"

section \<open>Bounds of a conversation\<close>

text \<open>What every step of the loop keeps, for the budget and the rules it started with.\<close>

definition answer_bytes :: "loop_state \<Rightarrow> int" where
  "answer_bytes s = (\<Sum>(c, r)\<leftarrow>tool_answers s. int (byte_size r))"

definition answers_in_budget :: "tool_budget \<Rightarrow> loop_state \<Rightarrow> bool" where
  "answers_in_budget bd s \<longleftrightarrow> (\<forall>(c, r)\<in>set (tool_answers s). int (byte_size r) \<le> max_result_bytes bd
     \<and> tool_message c r \<in> set (conversation s)) \<and> answer_bytes s \<le> max_total_result_bytes bd"

definition loop_inv :: "loop_env \<Rightarrow> broker \<Rightarrow> loop_state \<Rightarrow> bool" where
  "loop_inv e b s \<longleftrightarrow> same_rules b (brk s)
     \<and> int (length (handler_runs s)) \<le> calls_used s
     \<and> result_bytes_used s = answer_bytes s \<and> int (length (tool_answers s)) \<le> calls_used s
     \<and> answers_in_budget (loop_budget e) s
     \<and> (\<forall>c\<in>set (handler_runs s). decide_reason b (profile e) (fst c) = ''allowed'')"

text \<open>
  After an error the counters may have passed their limit by the entry that broke it, so the
  weaker facts that hold then, too, are stated apart.
\<close>

definition loop_safe :: "loop_env \<Rightarrow> broker \<Rightarrow> loop_state \<Rightarrow> bool" where
  "loop_safe e b s \<longleftrightarrow> same_rules b (brk s) \<and> int (length (handler_runs s)) \<le> calls_used s
     \<and> (\<forall>c\<in>set (handler_runs s). decide_reason b (profile e) (fst c) = ''allowed'')"

lemma loop_inv_safe: "loop_inv e b s \<Longrightarrow> loop_safe e b s"
  by (simp add: loop_inv_def loop_safe_def)

lemma check_deadline_state:
  "loop_inv e b s \<Longrightarrow> loop_inv e b (snd (check_deadline e s))"
  "calls_used (snd (check_deadline e s)) = calls_used s"
  by (simp_all add: check_deadline_def Let_def loop_inv_def answers_in_budget_def answer_bytes_def)

lemma invoke_tool_facts:
  "same_rules b (snd (snd (invoke_tool secs p c b)))"
  "fst (snd (invoke_tool secs p c b)) = (if accepted_call b p c then [(call_name c, arguments c)] else [])"
  using invoke_call_rules [of b secs p c] invoke_call_ran [of secs p c b]
  by (simp_all add: invoke_tool_def case_prod_beta)

lemma invoke_tool_step:
  assumes "loop_inv e b s" and "invoke_tool secs (profile e) c (brk s) = (r, runs, b')"
  shows "same_rules b b'" "length runs \<le> 1"
    "\<forall>x\<in>set runs. decide_reason b (profile e) (fst x) = ''allowed''"
proof -
  have s: "same_rules b (brk s)" using assms(1) by (simp add: loop_inv_def)
  have f: "same_rules (brk s) b'" "runs = (if accepted_call (brk s) (profile e) c then [(call_name c, arguments c)] else [])"
    using invoke_tool_facts [where p = "profile e" and c = c and b = "brk s" and secs = secs] assms(2) by simp_all
  show "same_rules b b'" using s f(1) by (rule same_rules_trans)
  show "length runs \<le> 1" using f(2) by simp
  show "\<forall>x\<in>set runs. decide_reason b (profile e) (fst x) = ''allowed''"
    using f(2) by (simp add: accepted_call_def same_rules_reason [OF s])
qed

lemma run_calls_inv:
  assumes "loop_inv e b s"
  shows "loop_safe e b (snd (run_calls e cs s)) \<and>
    calls_used (snd (run_calls e cs s)) \<le> calls_used s + int (length cs) \<and>
    (isl (fst (run_calls e cs s)) \<or> loop_inv e b (snd (run_calls e cs s)))"
  using assms
proof (induction cs arbitrary: s)
  case Nil
  then show ?case by (simp add: loop_inv_safe)
next
  case (Cons c cs)
  let ?s0 = "s\<lparr>calls_used := calls_used s + 1\<rparr>"
  have s0: "loop_inv e b ?s0" using Cons.prems by (simp add: loop_inv_def answers_in_budget_def answer_bytes_def)
  obtain x s1 where x: "check_deadline e ?s0 = (x, s1)" by (cases "check_deadline e ?s0")
  have s1: "loop_inv e b s1" "calls_used s1 = calls_used s + 1"
    using check_deadline_state(1) [OF s0] check_deadline_state(2) [of e ?s0] x by simp_all
  have runs1: "handler_runs s1 = handler_runs s" "result_bytes_used s1 = result_bytes_used s"
    and answers1: "int (length (tool_answers s1)) \<le> calls_used s"
    using x Cons.prems by (auto simp: check_deadline_def Let_def loop_inv_def split: if_splits)
  show ?case
  proof (cases x)
    case (Inl err)
    then show ?thesis using x s1 by (simp add: loop_inv_safe)
  next
    case (Inr ux)
    obtain r runs b' where i: "invoke_tool (call_secs e (ticks s1)) (profile e) c (brk s1) = (r, runs, b')"
      by (cases "invoke_tool (call_secs e (ticks s1)) (profile e) c (brk s1)") auto
    note step = invoke_tool_step [OF s1(1) i]
    let ?s2 = "s1\<lparr>brk := b', handler_runs := handler_runs s1 @ runs\<rparr>"
    have s2: "loop_inv e b ?s2"
      using s1 step runs1 Cons.prems by (auto simp: loop_inv_def answers_in_budget_def answer_bytes_def)
    show ?thesis
    proof (cases r)
      case (Inl err)
      then show ?thesis using x Inr i s2 s1(2) by (simp add: Let_def loop_inv_safe)
    next
      case (Inr res)
      let ?s3 = "?s2\<lparr>result_bytes_used := result_bytes_used ?s2 + int (byte_size res)\<rparr>"
      have safe3: "loop_safe e b ?s3" using loop_inv_safe [OF s2] by (simp add: loop_safe_def)
      show ?thesis
      proof (cases "int (byte_size res) > max_result_bytes (loop_budget e)
          \<or> result_bytes_used ?s3 > max_total_result_bytes (loop_budget e)")
        case True
        then show ?thesis using x \<open>x = Inr ux\<close> i Inr s2 s1(2) safe3 by (auto simp: Let_def loop_inv_safe)
      next
        case False
        obtain y s4 where y: "check_deadline e ?s3 = (y, s4)" by (cases "check_deadline e ?s3")
        then have s4: "s4 = ?s3\<lparr>ticks := ticks ?s3 + 1\<rparr>" by (auto simp: check_deadline_def Let_def split: if_splits)
        let ?s5 = "s4\<lparr>conversation := conversation s4 @ [tool_message c res], tool_answers := tool_answers s4 @ [(c, res)]\<rparr>"
        have "loop_inv e b ?s5"
          using s2 False answers1 s1(2) by (auto simp: s4 loop_inv_def answers_in_budget_def answer_bytes_def)
        note IH = Cons.IH [OF this]
        have "loop_safe e b s4" "calls_used s4 = calls_used s + 1" using safe3 s1(2) by (simp_all add: s4 loop_safe_def)
        then show ?thesis
          using x \<open>x = Inr ux\<close> i Inr False y IH by (cases y) (auto simp: Let_def)
      qed
    qed
  qed
qed


lemma exchange_inv: "loop_inv e b s \<Longrightarrow> loop_inv e b (snd (exchange e r s))"
  using exchange_fields [of e r s] by (auto simp: loop_inv_def answers_in_budget_def answer_bytes_def)

text \<open>What a finished conversation guarantees, whether it returned a text or an error.\<close>

definition loop_outcome :: "loop_env \<Rightarrow> broker \<Rightarrow> pystr loop_result \<Rightarrow> bool" where
  "loop_outcome e b out \<longleftrightarrow> same_rules b (brk (snd out))
     \<and> int (length (handler_runs (snd out))) \<le> max_calls (loop_budget e)
     \<and> (\<forall>c\<in>set (handler_runs (snd out)). decide_reason b (profile e) (fst c) = ''allowed'')
     \<and> (\<forall>text. fst out = Inr text \<longrightarrow>
          int (length (tool_answers (snd out))) \<le> max_calls (loop_budget e)
          \<and> answers_in_budget (loop_budget e) (snd out) \<and> text \<noteq> [])"

lemma run_rounds_outcome:
  "loop_inv e b s \<Longrightarrow> calls_used s \<le> max_calls (loop_budget e) \<Longrightarrow> loop_outcome e b (run_rounds e r s)"
proof (induction e r s rule: run_rounds.induct)
  case (1 e r s)
  obtain x s1 where x: "exchange e r s = (x, s1)" by (cases "exchange e r s")
  have s1: "loop_inv e b s1" "calls_used s1 = calls_used s"
    using exchange_inv [OF "1.prems"(1), of r] exchange_fields [of e r s] x by simp_all
  have stop: "loop_outcome e b (y, s1)" if "\<And>t. y = Inr t \<Longrightarrow> t \<noteq> []" for y
    using s1 "1.prems"(2) that by (auto simp: loop_outcome_def loop_inv_def)
  show ?case
  proof (cases x)
    case (Inl err)
    then show ?thesis using x stop [of "Inl err"] by (subst run_rounds.simps) simp
  next
    case (Inr reply)
    note reply = Inr
    show ?thesis
    proof (cases "snd reply = [] \<or> calls_used s1 + int (length (snd reply)) > max_calls (loop_budget e)")
      case True
      then show ?thesis
        using x reply stop [of "Inr (py_strip (fst reply))"] stop [of "Inl ContentEmpty"]
          stop [of "Inl CallBudgetExceeded"]
        by (subst run_rounds.simps) auto
    next
      case False
      show ?thesis
      proof (cases "parse_calls e r (snd reply)")
        case (Inl err)
        then show ?thesis using x reply False stop [of "Inl (CallInvalid err)"]
          by (subst run_rounds.simps) simp
      next
        case (Inr calls)
        have len: "length calls = length (snd reply)" by (rule parse_calls_length [OF Inr])
        obtain y s2 where y: "run_calls e calls s1 = (y, s2)" by (cases "run_calls e calls s1")
        note calls = run_calls_inv [OF s1(1), of calls, unfolded y fst_conv snd_conv]
        have used: "calls_used s2 \<le> max_calls (loop_budget e)" using calls False len by simp
        show ?thesis
        proof (cases y)
          case (Inl err)
          have "loop_outcome e b (Inl err, s2)"
            using calls used by (auto simp: loop_outcome_def loop_safe_def)
          then show ?thesis using x reply False Inr y Inl by (subst run_rounds.simps) simp
        next
          case (Inr un)
          then have "loop_inv e b s2" using calls by simp
          from "1.IH" [OF x [unfolded reply] _ _ \<open>parse_calls e r (snd reply) = Inr calls\<close>
              y [unfolded Inr] this used] False
          have "loop_outcome e b (run_rounds e (r + 1) s2)" by simp
          then show ?thesis using x reply False \<open>parse_calls e r (snd reply) = Inr calls\<close> y Inr
            by (subst run_rounds.simps) simp
        qed
      qed
    qed
  qed
qed


section \<open>Properties\<close>

lemma authorized_definitions_rules: "same_rules b (snd (authorized_definitions p b))"
  using authorized_tools_eq(2) [of b p] by (simp add: authorized_definitions_def case_prod_beta)

text \<open>
  C20: a role conversation always ends, whatever the model answers, and stays within its budget:
  it runs at most \<open>max_calls\<close> handlers, each of a tool its role is authorised for, and leaves the
  broker's rules alone. A returned text is not empty, and it was reached with at most \<open>max_calls\<close> tool
  results, each in the conversation and of at most \<open>max_result_bytes\<close>, which together are at most
  \<open>max_total_result_bytes\<close>.
\<close>

theorem conversation_bounded:
  assumes "bd = (case bud of None \<Rightarrow> budget b | Some x \<Rightarrow> x)"
    and "0 \<le> max_calls bd" and "0 \<le> max_total_result_bytes bd"
    and "run_loop cht clk lds secs bud model messages p timeout b = (res, s)"
  shows "same_rules b (brk s) \<and> int (length (handler_runs s)) \<le> max_calls bd \<and>
    (\<forall>c\<in>set (handler_runs s). decide_reason b p (fst c) = ''allowed'') \<and>
    (\<forall>text. res = Inr text \<longrightarrow> text \<noteq> [] \<and> int (length (tool_answers s)) \<le> max_calls bd
      \<and> (\<forall>(c, r)\<in>set (tool_answers s). int (byte_size r) \<le> max_result_bytes bd \<and> tool_message c r \<in> set (conversation s))
      \<and> (\<Sum>(c, r)\<leftarrow>tool_answers s. int (byte_size r)) \<le> max_total_result_bytes bd)"
proof (cases "start_problem model timeout messages")
  case (Some err)
  then have "s = (start_state [] b)\<lparr>ticks := 0\<rparr>" "res = Inl err" using assms(4) by (auto simp: run_loop_def)
  then show ?thesis using assms(2) by (simp add: start_state_def)
next
  case None
  let ?e = "start_env cht clk lds secs bd p timeout"
  let ?s = "start_state (the (as_seq messages)) (snd (authorized_definitions p b))"
  have e: "loop_budget ?e = bd" "profile ?e = p" by (simp_all add: start_env_def)
  have "loop_inv ?e b ?s"
    using assms(3) by (simp add: loop_inv_def answers_in_budget_def answer_bytes_def start_state_def e authorized_definitions_rules)
  then have "loop_outcome ?e b (run_rounds ?e 0 ?s)"
    by (rule run_rounds_outcome) (use assms(2) in \<open>simp add: e start_state_def\<close>)
  moreover have "run_rounds ?e 0 ?s = (res, s)" using assms(1,4) None by (simp add: run_loop_def)
  ultimately show ?thesis by (simp add: loop_outcome_def answers_in_budget_def answer_bytes_def e)
qed

definition talk_reply :: pyval where
  "talk_reply = PDict [(PStr (u ''message''), PDict [(PStr (u ''role''), PStr (u ''assistant'')),
     (PStr (u ''content''), PStr (u '' done ''))])]"

definition call_reply :: pyval where
  "call_reply = PDict [(PStr (u ''message''), PDict [(PStr (u ''role''), PStr (u ''assistant'')), (PStr (u ''content''), PNone),
     (PStr (u ''tool_calls''), PList [PDict [(PStr (u ''function''), PDict [(PStr (u ''name''), PStr (u ''model_list'')),
        (PStr (u ''arguments''), PDict [])])]])])]"

definition demo_conversation :: "pystr loop_result" where
  "demo_conversation = run_loop (\<lambda>n _. Some (if n = 0 then call_reply else talk_reply)) (\<lambda>_. 0) (\<lambda>_. None) (\<lambda>_. PInt 1) None
     (PStr (u ''m'')) (PList []) tool_user (PInt 5) demo_broker"

lemma demo_conversation_result: "fst demo_conversation = Inr (u ''done'')"
  "map (\<lambda>(c, r). byte_size r) (tool_answers (snd demo_conversation)) = [2]"
  by code_simp+

lemma conversation_bounded_witness:
  "length (tool_answers (snd demo_conversation)) = 1 \<and> length (handler_runs (snd demo_conversation)) \<le> 5 \<and>
   (\<Sum>(c, r)\<leftarrow>tool_answers (snd demo_conversation). int (byte_size r)) \<le> max_total_result_bytes default_budget"
proof -
  have "run_loop (\<lambda>n _. Some (if n = 0 then call_reply else talk_reply)) (\<lambda>_. 0) (\<lambda>_. None) (\<lambda>_. PInt 1) None
     (PStr (u ''m'')) (PList []) tool_user (PInt 5) demo_broker = (Inr (u ''done''), snd demo_conversation)"
    using demo_conversation_result(1) by (metis demo_conversation_def prod.collapse)
  from conversation_bounded [OF refl _ _ this] have
    "int (length (handler_runs (snd demo_conversation))) \<le> max_calls default_budget"
    "(\<Sum>(c, r)\<leftarrow>tool_answers (snd demo_conversation). int (byte_size r)) \<le> max_total_result_bytes default_budget"
    by (simp_all add: demo_broker_def default_budget_def)
  moreover have "length (tool_answers (snd demo_conversation)) = 1"
    using arg_cong [OF demo_conversation_result(2), of length] by simp
  ultimately show ?thesis by (simp add: default_budget_def)
qed

text \<open>
  A denial that leaves no evidence is reported to the model as a success. When a handler
  raises the broker's denial and the log holds no earlier equal call, the loop drops the
  exception and hands the model a successful result whose content is \<open>null\<close>.
\<close>

theorem denied_handler_reported_as_null:
  assumes "accepted_call b p c"
    and "the (map_of (handlers b) (call_name c)) (arguments c) = HandlerDenied"
    and "find_invocation p c b = None"
  shows "\<exists>r. fst (invoke_tool secs p c b) = Inr r \<and> success r \<and> content r = u ''null'' \<and>
    fst (invoke_call secs p c b) = Denied ''handler''"
proof -
  have un: "unrecorded b p c" using assms(1,2) by (simp add: unrecorded_def)
  note gone = invoke_call_unrecorded [OF un, of secs]
  have "find_invocation p c (snd (snd (invoke_call secs p c b))) = None"
    using assms(3) gone by (simp add: find_invocation_def)
  moreover have "fst (invoke_call secs p c b) = Denied ''handler''"
    using invoke_call_denied [OF assms(1,2)] .
  moreover have "stable_json_bytes PNone = Inr (u ''null'')"
    by (simp add: stable_json_bytes_Inr json_ok_def u_def is_surrogate_def)
  ultimately show ?thesis
    by (simp add: invoke_tool_def case_prod_beta result_from_value_def)
qed

definition denying_broker :: broker where
  "denying_broker = demo_broker\<lparr>handlers := [(u ''model_list'', \<lambda>a. HandlerDenied)]\<rparr>"

definition list_call :: tool_call where
  "list_call = \<lparr>call_name = u ''model_list'', arguments = PDict [], round_index = 0, call_index = 0,
     call_id = None\<rparr>"

lemma denied_handler_reported_as_null_witness:
  "\<exists>r. fst (invoke_tool PNone tool_user list_call denying_broker) = Inr r \<and> success r"
proof -
  have a: "accepted_call denying_broker tool_user list_call"
    by (simp add: accepted_call_def decide_reason_def is_granted_def denying_broker_def demo_broker_def
        list_call_def argument_problem_None bounded_stable_json_size_def add_size_def default_budget_def
        validate_arguments_def validate_value.simps)
  have d: "the (map_of (handlers denying_broker) (call_name list_call)) (arguments list_call) = HandlerDenied"
    "find_invocation tool_user list_call denying_broker = None"
    by (simp_all add: denying_broker_def list_call_def find_invocation_def demo_broker_def)
  show ?thesis using denied_handler_reported_as_null [OF a d, of PNone] by blast
qed

end
