(* ===== verification/Orchestrator.thy ===== *)
theory Orchestrator
  imports Worker_Protocol Json_Text
begin

text \<open>
  The multi-agent orchestrator of \<open>src/core/brain/orchestrator.py\<close>: the state machine of one
  agent (assignment, completion, error, quarantine of an execution that outlived its
  deadline), registration, dispatch with its statistics and bounded history, retry, collection
  and shutdown. Threads are numbers, and \<open>alive\<close> tells which still run; what a child worker
  answers, and whether it may still be running, are parameters. Durations are not modelled.
\<close>

section \<open>One agent\<close>

datatype agent_status = Idle | Busy | Error | Shutdown

record agent =
  agent_name :: pystr
  declared :: bool
  agent_caps :: "pystr list"
  status :: agent_status
  current_task :: "pystr option"
  tasks_completed :: nat
  errors_count :: nat
  error_recoverable :: bool
  pending_thread :: "nat option"
  pending_declared :: bool

text \<open>What an agent can observe of its surroundings: live threads, and its worker's own report.\<close>

record probe =
  alive :: "nat \<Rightarrow> bool"
  worker_pending :: bool

definition new_agent :: "pystr \<Rightarrow> bool \<Rightarrow> pystr list \<Rightarrow> agent" where
  "new_agent n dec caps = \<lparr>agent_name = n, declared = dec, agent_caps = caps, status = Idle,
     current_task = None, tasks_completed = 0, errors_count = 0, error_recoverable = False,
     pending_thread = None, pending_declared = False\<rparr>"

definition to_idle :: "agent \<Rightarrow> agent" where
  "to_idle a = a\<lparr>current_task := None, error_recoverable := False,
     status := (if status a \<noteq> Shutdown then Idle else Shutdown)\<rparr>"

text \<open>\<open>_declared_worker_has_pending_locked\<close>: a failing probe counts as pending (the parameter says so).\<close>

definition declared_pending :: "probe \<Rightarrow> agent \<Rightarrow> bool" where
  "declared_pending w a \<longleftrightarrow> declared a \<and> worker_pending w"

definition reap_declared :: "probe \<Rightarrow> agent \<Rightarrow> agent" where
  "reap_declared w a =
     (if \<not> pending_declared a then a
      else if declared_pending w a then a
      else to_idle (a\<lparr>pending_declared := False\<rparr>))"

definition reap :: "probe \<Rightarrow> agent \<Rightarrow> agent" where
  "reap w a = (case pending_thread a of
       Some t \<Rightarrow> if alive w t then a else reap_declared w (to_idle (a\<lparr>pending_thread := None\<rparr>))
     | None \<Rightarrow> reap_declared w a)"

definition is_available :: "probe \<Rightarrow> agent \<Rightarrow> bool \<times> agent" where
  "is_available w a = (let a = reap w a in (status a = Idle, a))"

definition try_assign :: "probe \<Rightarrow> pystr \<Rightarrow> agent \<Rightarrow> bool \<times> agent" where
  "try_assign w task a = (let a = reap w a in
     if status a \<noteq> Idle then (False, a)
     else (True, a\<lparr>current_task := Some task, status := Busy, error_recoverable := False\<rparr>))"

definition complete :: "agent \<Rightarrow> agent" where
  "complete a = to_idle (a\<lparr>tasks_completed := tasks_completed a + 1\<rparr>)"

definition release_assignment :: "agent \<Rightarrow> agent" where
  "release_assignment a = to_idle a"

definition fail :: "bool \<Rightarrow> agent \<Rightarrow> agent" where
  "fail recoverable a = a\<lparr>errors_count := errors_count a + 1, current_task := None,
     error_recoverable := recoverable, status := (if status a \<noteq> Shutdown then Error else Shutdown)\<rparr>"

definition reset_agent :: "probe \<Rightarrow> agent \<Rightarrow> agent" where
  "reset_agent w a = (let a = reap w a in
     if pending_thread a \<noteq> None \<or> pending_declared a \<or> status a \<noteq> Error then a
     else a\<lparr>status := Idle, current_task := None, error_recoverable := False\<rparr>)"

definition recover_from_error :: "probe \<Rightarrow> agent \<Rightarrow> bool \<times> agent" where
  "recover_from_error w a = (let a = reap w a in
     if status a \<noteq> Error \<or> \<not> error_recoverable a then (False, a)
     else (True, a\<lparr>status := Idle, current_task := None, error_recoverable := False\<rparr>))"

definition quarantine :: "probe \<Rightarrow> nat \<Rightarrow> agent \<Rightarrow> agent" where
  "quarantine w t a = (let a = reap w a in
     a\<lparr>errors_count := errors_count a + 1, status := (if status a \<noteq> Shutdown then Error else Shutdown),
       error_recoverable := False, pending_thread := Some t\<rparr>)"

definition quarantine_declared_worker :: "probe \<Rightarrow> agent \<Rightarrow> agent" where
  "quarantine_declared_worker w a = (let a = reap w a in
     a\<lparr>errors_count := (if pending_declared a then errors_count a else errors_count a + 1),
       status := (if status a \<noteq> Shutdown then Error else Shutdown),
       error_recoverable := False, pending_declared := True\<rparr>)"

definition has_pending_execution :: "probe \<Rightarrow> agent \<Rightarrow> bool \<times> agent" where
  "has_pending_execution w a = (let a = reap w a in
     (pending_thread a \<noteq> None \<or> pending_declared a \<or> declared_pending w a, a))"

definition can_unregister :: "probe \<Rightarrow> agent \<Rightarrow> bool \<times> agent" where
  "can_unregister w a = (let a = reap w a in
     (status a \<noteq> Busy \<and> pending_thread a = None \<and> \<not> pending_declared a, a))"

definition shutdown_agent :: "agent \<Rightarrow> agent" where
  "shutdown_agent a = a\<lparr>status := Shutdown, current_task := None, error_recoverable := False\<rparr>"

section \<open>Results and statistics\<close>

record 'v agent_result =
  res_task_id :: pystr
  res_agent :: pystr
  res_value :: "'v option"
  res_error :: pystr
  res_status :: string

definition ORCHESTRATOR_HISTORY_LIMIT :: nat where "ORCHESTRATOR_HISTORY_LIMIT = 1000"

record stats =
  total_dispatched :: nat
  total_success :: nat
  total_errors :: nat
  total_timeouts :: nat
  total_retries :: "nat option"

text \<open>The task fields that dispatching reads.\<close>

record task =
  task_id :: pystr
  task_agent :: pystr
  task_timeout :: int

text \<open>
  Agents live in a store by identity (a dispatch keeps its agent even when the name is
  registered anew); \<open>agents\<close> maps names to identities.
\<close>

record 'v orch =
  store :: "nat \<Rightarrow> agent"
  next_id :: nat
  agents :: "(pystr, nat) pydict"
  closed :: bool
  orch_stats :: stats
  results :: "'v agent_result list"

definition initial_stats :: stats where
  "initial_stats = \<lparr>total_dispatched = 0, total_success = 0, total_errors = 0, total_timeouts = 0,
     total_retries = None\<rparr>"

definition new_orch :: "'v orch" where
  "new_orch = \<lparr>store = (\<lambda>_. new_agent [] False []), next_id = 0, agents = [], closed = False,
     orch_stats = initial_stats, results = []\<rparr>"

abbreviation bump :: "((nat \<Rightarrow> nat) \<Rightarrow> stats \<Rightarrow> stats) \<Rightarrow> 'v orch \<Rightarrow> 'v orch" where
  "bump f \<sigma> \<equiv> \<sigma>\<lparr>orch_stats := f Suc (orch_stats \<sigma>)\<rparr>"

definition set_agent :: "nat \<Rightarrow> agent \<Rightarrow> 'v orch \<Rightarrow> 'v orch" where
  "set_agent i a \<sigma> = \<sigma>\<lparr>store := (store \<sigma>)(i := a)\<rparr>"

definition record_result :: "'v agent_result \<Rightarrow> 'v orch \<Rightarrow> 'v orch" where
  "record_result r \<sigma> = \<sigma>\<lparr>results := dq_append ORCHESTRATOR_HISTORY_LIMIT (results \<sigma>) r\<rparr>"

definition error_result :: "task \<Rightarrow> pystr \<Rightarrow> string \<Rightarrow> 'v agent_result" where
  "error_result t err st = \<lparr>res_task_id = task_id t, res_agent = task_agent t, res_value = None,
     res_error = err, res_status = st\<rparr>"

section \<open>Registration\<close>

text \<open>
  \<open>register_in_process\<close>, \<open>register_declared\<close> and \<open>register_worker\<close> differ in the executor only. A
  displaced agent with a worker of its own is shut down.
\<close>

definition register_agent :: "(nat \<Rightarrow> probe) \<Rightarrow> pystr \<Rightarrow> bool \<Rightarrow> pystr list \<Rightarrow> 'v orch \<Rightarrow> 'v orch" where
  "register_agent w n dec caps \<sigma> =
     (let i = next_id \<sigma>; add = (\<lambda>\<sigma>. \<sigma>\<lparr>store := (store \<sigma>)(i := new_agent n dec caps), next_id := i + 1,
            agents := AList.update n i (agents \<sigma>)\<rparr>) in
      case map_of (agents \<sigma>) n of
        None \<Rightarrow> add \<sigma>
      | Some j \<Rightarrow> (case can_unregister (w j) (store \<sigma> j) of (ok, a) \<Rightarrow>
          if \<not> ok then set_agent j a \<sigma>
          else add (set_agent j (if declared a then shutdown_agent a else a) \<sigma>)))"

definition unregister_agent :: "(nat \<Rightarrow> probe) \<Rightarrow> pystr \<Rightarrow> 'v orch \<Rightarrow> bool \<times> 'v orch" where
  "unregister_agent w n \<sigma> = (case map_of (agents \<sigma>) n of
       None \<Rightarrow> (False, \<sigma>)
     | Some j \<Rightarrow> (case can_unregister (w j) (store \<sigma> j) of (ok, a) \<Rightarrow>
         if \<not> ok then (False, set_agent j a \<sigma>)
         else (True, (set_agent j (if declared a then shutdown_agent a else a) \<sigma>)
                       \<lparr>agents := AList.delete n (agents \<sigma>)\<rparr>)))"

definition recover_agent :: "(nat \<Rightarrow> probe) \<Rightarrow> pystr \<Rightarrow> 'v orch \<Rightarrow> bool \<times> 'v orch" where
  "recover_agent w n \<sigma> = (case map_of (agents \<sigma>) n of
       None \<Rightarrow> (False, \<sigma>)
     | Some j \<Rightarrow> (case recover_from_error (w j) (store \<sigma> j) of (ok, a) \<Rightarrow> (ok, set_agent j a \<sigma>)))"

text \<open>\<open>cancel\<close>: the answer of the worker is a parameter.\<close>

definition cancel :: "(nat \<Rightarrow> task_record option) \<Rightarrow> pystr \<Rightarrow> 'v orch \<Rightarrow> bool" where
  "cancel answer n \<sigma> = (case map_of (agents \<sigma>) n of
       None \<Rightarrow> False
     | Some j \<Rightarrow> declared (store \<sigma> j) \<and> (case answer j of
         None \<Rightarrow> False | Some r \<Rightarrow> rec_status r = Cancelled \<and> rec_confirmed r))"

text \<open>\<open>list_agents\<close> reaps every agent as it reads it; its order is the order of registration.\<close>

definition info_agents :: "(nat \<Rightarrow> probe) \<Rightarrow> 'v orch \<Rightarrow> agent list \<times> 'v orch" where
  "info_agents w \<sigma> =
     (let ids = map snd (agents \<sigma>) in
      (map (\<lambda>j. reap (w j) (store \<sigma> j)) ids,
       \<sigma>\<lparr>store := (\<lambda>j. if j \<in> set ids then reap (w j) (store \<sigma> j) else store \<sigma> j)\<rparr>))"

definition shutdown_orch :: "'v orch \<Rightarrow> 'v orch" where
  "shutdown_orch \<sigma> = (let ids = map snd (agents \<sigma>) in
     \<sigma>\<lparr>closed := True,
       store := (\<lambda>j. if j \<in> set ids then shutdown_agent (store \<sigma> j) else store \<sigma> j)\<rparr>)"


section \<open>Dispatch\<close>

text \<open>
  The part of \<open>dispatch\<close> before the execution, under the lock: a refusal with its result, or the
  identity of the agent that took the task.
\<close>

definition dispatch_begin :: "(nat \<Rightarrow> probe) \<Rightarrow> task \<Rightarrow> 'v orch \<Rightarrow> ('v agent_result + nat) \<times> 'v orch" where
  "dispatch_begin w t \<sigma>0 =
     (let \<sigma> = bump total_dispatched_update \<sigma>0 in
      if closed \<sigma> then (Inl (error_result t (u ''Orchestrator is shutting down'') ''error''), \<sigma>)
      else (case map_of (agents \<sigma>) (task_agent t) of
          None \<Rightarrow> (Inl (error_result t (u ''Agent '' @ [39] @ task_agent t @ [39] @ u '' not found'') ''error''),
                   bump total_errors_update \<sigma>)
        | Some i \<Rightarrow> (case try_assign (w i) (task_id t) (store \<sigma> i) of (ok, a) \<Rightarrow>
            if \<not> ok then (Inl (error_result t (u ''Agent '' @ [39] @ task_agent t @ [39] @ u '' is busy'') ''busy''),
                   bump total_errors_update (set_agent i a \<sigma>))
            else (Inr i, set_agent i a \<sigma>))))"

text \<open>What the thread of an in-process handler did, and what a handler can return.\<close>

datatype 'v handler_output = PlainOutput 'v | ResultOutput "'v agent_result"

datatype 'v thread_outcome =
    ThreadReturned "'v handler_output"
  | StillRunning nat
  | ThreadTimeoutError
  | ThreadRaised pystr

definition timeout_result :: "task \<Rightarrow> 'v agent_result" where
  "timeout_result t = error_result t (u ''Task timed out after '' @ dec_int (task_timeout t) @ u ''s'') ''timeout''"

definition output_result :: "task \<Rightarrow> 'v handler_output \<Rightarrow> 'v agent_result" where
  "output_result t out = (case out of
       ResultOutput r \<Rightarrow> r
     | PlainOutput v \<Rightarrow> \<lparr>res_task_id = task_id t, res_agent = task_agent t, res_value = Some v,
         res_error = [], res_status = ''success''\<rparr>)"

definition finish_in_process :: "probe \<Rightarrow> task \<Rightarrow> nat \<Rightarrow> 'v thread_outcome \<Rightarrow> 'v orch
    \<Rightarrow> 'v agent_result \<times> 'v orch" where
  "finish_in_process w t i out \<sigma> =
     (let a = store \<sigma> i; done = (\<lambda>r a f. (r, record_result r (bump f (set_agent i a \<sigma>)))) in
      case out of
        ThreadReturned v \<Rightarrow> done (output_result t v) (complete a) total_success_update
      | StillRunning th \<Rightarrow> done (timeout_result t) (quarantine w th a) total_timeouts_update
      | ThreadTimeoutError \<Rightarrow> done (timeout_result t) (fail False a) total_timeouts_update
      | ThreadRaised err \<Rightarrow> done (error_result t err ''error'') (fail True a) total_errors_update)"

text \<open>The answer of a child worker: rejection before execution, an exception, or its record.\<close>

datatype worker_answer = TaskRejected pystr | WorkerRaised pystr | Answered "task_record option"

definition or_text :: "pystr \<Rightarrow> string \<Rightarrow> pystr" where
  "or_text s d = (if s \<noteq> [] then s else u d)"

definition finish_declared :: "probe \<Rightarrow> (pyval \<Rightarrow> pystr + 'v handler_output) \<Rightarrow> task \<Rightarrow> nat \<Rightarrow> worker_answer
    \<Rightarrow> 'v orch \<Rightarrow> 'v agent_result \<times> 'v orch" where
  "finish_declared w decode t i ans \<sigma> =
     (let a = store \<sigma> i; done = (\<lambda>r a f. (r, record_result r (bump f (set_agent i a \<sigma>)))) in
      case ans of
        TaskRejected err \<Rightarrow> done (error_result t err ''error'') (release_assignment a) total_errors_update
      | WorkerRaised err \<Rightarrow> (case has_pending_execution w a of (pending, a') \<Rightarrow>
          done (error_result t err ''error'')
            (if pending then quarantine_declared_worker w a' else fail True a') total_errors_update)
      | Answered None \<Rightarrow> done (timeout_result t) (quarantine_declared_worker w a) total_timeouts_update
      | Answered (Some r) \<Rightarrow>
          if \<not> is_terminal (rec_status r) \<or> \<not> rec_confirmed r
          then done (timeout_result t) (quarantine_declared_worker w a) total_timeouts_update
          else if rec_status r = Succeeded then (case decode (rec_result r) of
              Inl err \<Rightarrow> done (error_result t err ''error'') (fail True a) total_errors_update
            | Inr v \<Rightarrow> done (output_result t v) (complete a) total_success_update)
          else if rec_status r = Timeout
          then done (timeout_result t) (fail False a) total_timeouts_update
          else if rec_status r = Cancelled
          then done (error_result t (or_text (rec_error r) ''Worker task cancelled'') ''cancelled'')
                 (release_assignment a) (\<lambda>f s. s)
          else done (error_result t (or_text (rec_error r) ''Declared agent worker failed'') ''error'')
                 (fail True a) total_errors_update)"

text \<open>
  One whole dispatch in a given environment: the probes before and after, and what the handler
  or the worker of each agent does.
\<close>

record 'v dispatch_env =
  before :: "nat \<Rightarrow> probe"
  after :: "nat \<Rightarrow> probe"
  handler_does :: "nat \<Rightarrow> 'v thread_outcome"
  worker_says :: "nat \<Rightarrow> worker_answer"
  decode_result :: "pyval \<Rightarrow> pystr + 'v handler_output"

definition dispatch_task :: "'v dispatch_env \<Rightarrow> task \<Rightarrow> 'v orch \<Rightarrow> 'v agent_result \<times> 'v orch" where
  "dispatch_task e t \<sigma> = (case dispatch_begin (before e) t \<sigma> of
       (Inl r, \<sigma>') \<Rightarrow> (r, \<sigma>')
     | (Inr i, \<sigma>') \<Rightarrow>
         if declared (store \<sigma>' i)
         then finish_declared (after e i) (decode_result e) t i (worker_says e i) \<sigma>'
         else finish_in_process (after e i) t i (handler_does e i) \<sigma>')"

text \<open>The attempt source of a retry: whether the assigned agent was a worker, if one was assigned.\<close>

definition assigned_declared :: "'v dispatch_env \<Rightarrow> task \<Rightarrow> 'v orch \<Rightarrow> bool" where
  "assigned_declared e t \<sigma> = (case dispatch_begin (before e) t \<sigma> of
       (Inr i, \<sigma>') \<Rightarrow> declared (store \<sigma>' i) | _ \<Rightarrow> False)"

definition reset_named :: "(nat \<Rightarrow> probe) \<Rightarrow> pystr \<Rightarrow> 'v orch \<Rightarrow> 'v orch" where
  "reset_named w n \<sigma> = (case map_of (agents \<sigma>) n of
       None \<Rightarrow> \<sigma> | Some i \<Rightarrow> set_agent i (reset_agent (w i) (store \<sigma> i)) \<sigma>)"

definition pending_named :: "(nat \<Rightarrow> probe) \<Rightarrow> pystr \<Rightarrow> 'v orch \<Rightarrow> bool \<times> 'v orch" where
  "pending_named w n \<sigma> = (case map_of (agents \<sigma>) n of
       None \<Rightarrow> (False, \<sigma>)
     | Some i \<Rightarrow> (case has_pending_execution (w i) (store \<sigma> i) of (p, a) \<Rightarrow> (p, set_agent i a \<sigma>)))"

definition add_retries :: "nat \<Rightarrow> 'v orch \<Rightarrow> 'v orch" where
  "add_retries k \<sigma> = \<sigma>\<lparr>orch_stats := (orch_stats \<sigma>)\<lparr>total_retries := Some (k +
     (case total_retries (orch_stats \<sigma>) of None \<Rightarrow> 0 | Some n \<Rightarrow> n))\<rparr>\<rparr>"

text \<open>After the last attempt: a worker's result stands, any other becomes a recorded failure.\<close>

definition give_up :: "int \<Rightarrow> bool \<Rightarrow> 'v agent_result \<Rightarrow> 'v orch \<Rightarrow> 'v agent_result \<times> 'v orch" where
  "give_up max_retries was_declared r \<sigma> =
     (if was_declared then (r, \<sigma>)
      else let r' = r\<lparr>res_status := ''failed'',
                 res_error := res_error r @ u '' [after '' @ dec_int max_retries @ u '' retries]''\<rparr>
           in (r', bump total_errors_update (record_result r' \<sigma>)))"

text \<open>The loop over the attempts; \<open>k\<close> is the number of attempts left, \<open>n\<close> the number of this one.\<close>

fun retry_loop :: "(nat \<Rightarrow> 'v dispatch_env) \<Rightarrow> task \<Rightarrow> int \<Rightarrow> nat \<Rightarrow> nat \<Rightarrow> 'v orch
    \<Rightarrow> 'v agent_result option \<times> 'v orch" where
  "retry_loop es t m n 0 \<sigma> = (None, \<sigma>)"
| "retry_loop es t m n (Suc k) \<sigma> =
     (let e = es n;
          \<sigma>1 = (if n > 0 then reset_named (before e) (task_agent t) \<sigma> else \<sigma>);
          dec = assigned_declared e t \<sigma>1 in
      case dispatch_task e t \<sigma>1 of (r, \<sigma>2) \<Rightarrow>
        if res_status r = ''success'' then (Some r, add_retries n \<sigma>2)
        else if res_status r = ''busy'' \<or> res_status r = ''timeout''
        then (case pending_named (after e) (task_agent t) \<sigma>2 of (pending, \<sigma>3) \<Rightarrow>
          if pending then (Some r, \<sigma>3)
          else if k > 0 then retry_loop es t m (n + 1) k \<sigma>3
          else map_prod Some id (give_up m dec r \<sigma>3))
        else map_prod Some id (give_up m dec r \<sigma>2))"

definition dispatch_with_retry :: "(nat \<Rightarrow> 'v dispatch_env) \<Rightarrow> task \<Rightarrow> int \<Rightarrow> 'v orch
    \<Rightarrow> 'v agent_result option \<times> 'v orch" where
  "dispatch_with_retry es t max_retries \<sigma> = retry_loop es t max_retries 0 (nat (max_retries + 1)) \<sigma>"

section \<open>Collection\<close>

definition wanted :: "pystr option \<Rightarrow> pystr option \<Rightarrow> string option \<Rightarrow> 'v agent_result \<Rightarrow> bool" where
  "wanted tid an st r \<longleftrightarrow> none_or (\<lambda>x. res_task_id r = x) tid \<and> none_or (\<lambda>x. res_agent r = x) an
     \<and> none_or (\<lambda>x. res_status r = x) st"

definition collect :: "pystr option \<Rightarrow> pystr option \<Rightarrow> string option \<Rightarrow> pyval \<Rightarrow> 'v orch
    \<Rightarrow> 'v agent_result list option" where
  "collect tid an st limit \<sigma> = (case limit of
       PInt n \<Rightarrow> if n < 0 then None
         else if n = 0 then Some []
         else Some (take (nat n) (filter (wanted tid an st) (rev (results \<sigma>))))
     | _ \<Rightarrow> None)"

definition get_stats :: "'v orch \<Rightarrow> stats" where
  "get_stats \<sigma> = orch_stats \<sigma>"

interpretation result_log: bounded_log record_result results "\<lambda>_. ORCHESTRATOR_HISTORY_LIMIT"
  by unfold_locales (simp_all add: record_result_def)


section \<open>The agent invariant\<close>

text \<open>
  \<open>I\<close> are the executions a dispatch is still waiting for, \<open>L\<close> the live handler threads of the
  agent. At most one dispatch waits; a live thread is either waited for or quarantined; an
  agent with a quarantined execution is not idle.
\<close>

definition agent_inv :: "nat list \<Rightarrow> nat list \<Rightarrow> agent \<Rightarrow> bool" where
  "agent_inv I L a \<longleftrightarrow> length I \<le> 1
     \<and> (I \<noteq> [] \<longrightarrow> status a \<in> {Busy, Shutdown} \<and> pending_thread a = None \<and> \<not> pending_declared a)
     \<and> (\<forall>x\<in>set L. x \<in> set I \<or> pending_thread a = Some x)
     \<and> (pending_thread a \<noteq> None \<or> pending_declared a \<longrightarrow> status a \<in> {Error, Shutdown})
     \<and> (declared a \<longrightarrow> pending_thread a = None \<and> L = [])
     \<and> (pending_declared a \<longrightarrow> declared a)
     \<and> (error_recoverable a \<longrightarrow> pending_thread a = None \<and> \<not> pending_declared a)"

lemma agent_inv_new [simp]: "agent_inv [] [] (new_agent n d c)"
  by (simp add: agent_inv_def new_agent_def)

lemma reap_fields [simp]: "declared (reap w a) = declared a" "agent_name (reap w a) = agent_name a"
  by (simp_all add: reap_def reap_declared_def to_idle_def split: option.split)

lemma reap_waiting: "agent_inv I L a \<Longrightarrow> I \<noteq> [] \<Longrightarrow> reap w a = a"
  by (simp add: agent_inv_def reap_def reap_declared_def)

lemma reap_inv:
  assumes "agent_inv I L a" and "\<forall>x\<in>set L. alive w x"
  shows "agent_inv I L (reap w a)"
proof (cases "pending_thread a")
  case None
  then show ?thesis using assms(1)
    by (auto simp: agent_inv_def reap_def reap_declared_def to_idle_def)
next
  case (Some t)
  then show ?thesis using assms
    by (cases L) (auto simp: agent_inv_def reap_def reap_declared_def to_idle_def)
qed

lemma reap_shutdown: "status (reap w a) = Shutdown \<longleftrightarrow> status a = Shutdown"
  by (auto simp: reap_def reap_declared_def to_idle_def split: option.split)

lemma try_assign_inv:
  assumes "agent_inv I L a" and "\<forall>x\<in>set L. alive w x" and "try_assign w t a = (True, a')"
  shows "I = [] \<and> L = [] \<and> agent_inv [x] (if declared a then [] else [x]) a' \<and>
    declared a' = declared a \<and> agent_name a' = agent_name a \<and> status a' = Busy"
proof -
  have idle: "status (reap w a) = Idle"
    and a': "a' = (reap w a)\<lparr>current_task := Some t, status := Busy, error_recoverable := False\<rparr>"
    using assms(3) by (auto simp: try_assign_def Let_def split: if_splits)
  have inv: "agent_inv I L (reap w a)" using assms(1,2) by (rule reap_inv)
  have "I = []" using inv idle by (auto simp: agent_inv_def)
  moreover have "L = []" using inv idle \<open>I = []\<close> by (cases L) (auto simp: agent_inv_def)
  ultimately show ?thesis using inv idle a' by (auto simp: agent_inv_def)
qed

lemma try_assign_refused:
  "agent_inv I L a \<Longrightarrow> \<forall>x\<in>set L. alive w x \<Longrightarrow> try_assign w t a = (False, a') \<Longrightarrow>
     agent_inv I L a' \<and> a' = reap w a"
  using reap_inv by (auto simp: try_assign_def Let_def split: if_splits)

text \<open>A dispatch whose execution ended leaves no live thread behind.\<close>

lemma finished_inv:
  assumes "agent_inv [x] L a" and "x \<notin> set L"
  shows "agent_inv [] L (complete a)" "agent_inv [] L (release_assignment a)" "agent_inv [] L (fail r a)"
proof -
  have "L = []" "pending_thread a = None" "\<not> pending_declared a"
    using assms by (cases L; auto simp: agent_inv_def)+
  then show "agent_inv [] L (complete a)" "agent_inv [] L (release_assignment a)" "agent_inv [] L (fail r a)"
    by (simp_all add: agent_inv_def complete_def release_assignment_def fail_def to_idle_def)
qed

lemma quarantine_inv:
  assumes "agent_inv [x] L a" and "\<not> declared a"
  shows "agent_inv [] L (quarantine w x a)"
proof -
  have "reap w a = a" using assms(1) by (rule reap_waiting) simp
  then show ?thesis using assms by (auto simp: agent_inv_def quarantine_def Let_def)
qed

lemma quarantine_declared_inv:
  assumes "agent_inv [x] [] a" and "declared a"
  shows "agent_inv [] [] (quarantine_declared_worker w a)"
proof -
  have "reap w a = a" using assms(1) by (rule reap_waiting) simp
  then show ?thesis using assms by (auto simp: agent_inv_def quarantine_declared_worker_def Let_def)
qed

lemma touch_inv:
  assumes "agent_inv I L a" and "\<forall>x\<in>set L. alive w x"
  shows "agent_inv I L (snd (can_unregister w a))" "agent_inv I L (snd (has_pending_execution w a))"
    "agent_inv I L (reset_agent w a)" "agent_inv I L (snd (recover_from_error w a))"
    "agent_inv I L (shutdown_agent a)" "agent_inv I L (snd (is_available w a))"
proof -
  note inv = reap_inv [OF assms]
  show "agent_inv I L (snd (can_unregister w a))" "agent_inv I L (snd (has_pending_execution w a))"
    "agent_inv I L (snd (is_available w a))"
    using inv by (simp_all add: can_unregister_def has_pending_execution_def is_available_def Let_def)
  show "agent_inv I L (reset_agent w a)" using inv by (auto simp: reset_agent_def Let_def agent_inv_def)
  show "agent_inv I L (shutdown_agent a)" using assms(1) by (auto simp: shutdown_agent_def agent_inv_def)
  show "agent_inv I L (snd (recover_from_error w a))"
    using inv by (auto simp: recover_from_error_def Let_def agent_inv_def)
qed

end
