(* ===== verification/Orchestrator_Runs.thy ===== *)
theory Orchestrator_Runs
  imports Orchestrator
begin

text \<open>
  The orchestrator of \<open>src/core/brain/orchestrator.py\<close> under concurrency: dispatches whose
  executions overlap in any order, with threads that outlive their deadline, registration,
  recovery and shutdown in between. The invariant gives mutual exclusion per agent name.
\<close>

section \<open>Interleaved executions\<close>

text \<open>
  The orchestrator under concurrency: each critical section is one step. A dispatch begins
  under the lock and, later, finishes with what its execution did; handler threads exit on
  their own, before or after the dispatch has given up waiting. \<open>wp\<close> is what the workers report.
\<close>

record 'v sys =
  orch :: "'v orch"
  live :: "(nat \<times> nat) list"
  inflight :: "(nat \<times> nat \<times> task) list"
  next_thread :: nat

definition probes :: "(nat \<Rightarrow> bool) \<Rightarrow> 'v sys \<Rightarrow> nat \<Rightarrow> probe" where
  "probes wp s i = \<lparr>alive = (\<lambda>t. t \<in> fst ` set (live s)), worker_pending = wp i\<rparr>"

datatype 'v sys_op =
    Register pystr bool "pystr list"
  | Unregister pystr
  | Recover pystr
  | Reset pystr
  | ListAgents
  | Begin task
  | ThreadExit nat
  | GiveUpWaiting nat
  | FinishThread nat "'v thread_outcome"
  | FinishWorker nat "pyval \<Rightarrow> pystr + 'v handler_output" worker_answer
  | ShutDown

text \<open>The end of a dispatch, for an agent of the given kind only.\<close>

definition finish_with :: "nat \<Rightarrow> bool \<Rightarrow> (nat \<Rightarrow> task \<Rightarrow> 'v orch \<Rightarrow> 'v agent_result \<times> 'v orch)
    \<Rightarrow> 'v sys \<Rightarrow> 'v sys" where
  "finish_with x kind f s = (case map_of (inflight s) x of
       None \<Rightarrow> s
     | Some (i, t) \<Rightarrow> if declared (store (orch s) i) \<noteq> kind then s
         else s\<lparr>orch := snd (f i t (orch s)), inflight := AList.delete x (inflight s)\<rparr>)"

definition sys_step :: "(nat \<Rightarrow> bool) \<Rightarrow> 'v sys \<Rightarrow> 'v sys_op \<Rightarrow> 'v sys" where
  "sys_step wp s x = (let w = probes wp s; \<sigma> = orch s in case x of
       Register n d c \<Rightarrow> s\<lparr>orch := register_agent w n d c \<sigma>\<rparr>
     | Unregister n \<Rightarrow> s\<lparr>orch := snd (unregister_agent w n \<sigma>)\<rparr>
     | Recover n \<Rightarrow> s\<lparr>orch := snd (recover_agent w n \<sigma>)\<rparr>
     | Reset n \<Rightarrow> s\<lparr>orch := reset_named w n \<sigma>\<rparr>
     | ListAgents \<Rightarrow> s\<lparr>orch := snd (info_agents w \<sigma>)\<rparr>
     | Begin t \<Rightarrow> (case dispatch_begin w t \<sigma> of
           (Inl _, \<sigma>') \<Rightarrow> s\<lparr>orch := \<sigma>'\<rparr>
         | (Inr i, \<sigma>') \<Rightarrow> s\<lparr>orch := \<sigma>', inflight := (next_thread s, i, t) # inflight s,
             live := (if declared (store \<sigma>' i) then live s else (next_thread s, i) # live s),
             next_thread := next_thread s + 1\<rparr>)
     | ThreadExit th \<Rightarrow> s\<lparr>live := filter (\<lambda>e. fst e \<noteq> th) (live s)\<rparr>
     | GiveUpWaiting th \<Rightarrow> finish_with th False (\<lambda>i t. finish_in_process (w i) t i (StillRunning th)) s
     | FinishThread th out \<Rightarrow>
         if th \<in> fst ` set (live s) \<or> (case out of StillRunning _ \<Rightarrow> True | _ \<Rightarrow> False) then s
         else finish_with th False (\<lambda>i t. finish_in_process (w i) t i out) s
     | FinishWorker th dec ans \<Rightarrow> finish_with th True (\<lambda>i t. finish_declared (w i) dec t i ans) s
     | ShutDown \<Rightarrow> s\<lparr>orch := shutdown_orch \<sigma>\<rparr>)"

definition new_sys :: "'v sys" where
  "new_sys = \<lparr>orch = new_orch, live = [], inflight = [], next_thread = 0\<rparr>"

definition sys_run :: "((nat \<Rightarrow> bool) \<times> 'v sys_op) list \<Rightarrow> 'v sys \<Rightarrow> 'v sys" where
  "sys_run xs s = foldl (\<lambda>s (wp, x). sys_step wp s x) s xs"

section \<open>The system invariant\<close>

definition waiting :: "'v sys \<Rightarrow> nat \<Rightarrow> nat list" where
  "waiting s i = map fst (filter (\<lambda>e. fst (snd e) = i) (inflight s))"

definition running :: "'v sys \<Rightarrow> nat \<Rightarrow> nat list" where
  "running s i = map fst (filter (\<lambda>e. snd e = i) (live s))"

definition engaged :: "'v sys \<Rightarrow> nat \<Rightarrow> bool" where
  "engaged s i \<longleftrightarrow> waiting s i \<noteq> [] \<or> running s i \<noteq> []"

text \<open>Every agent is in order; thread numbers are fresh; names and identities agree.\<close>

definition agents_ok :: "'v sys \<Rightarrow> bool" where
  "agents_ok s \<longleftrightarrow> (\<forall>i. agent_inv (waiting s i) (running s i) (store (orch s) i))"

definition threads_ok :: "'v sys \<Rightarrow> bool" where
  "threads_ok s \<longleftrightarrow> distinct (map fst (live s)) \<and> distinct (map fst (inflight s))
     \<and> (\<forall>e\<in>set (live s). fst e < next_thread s) \<and> (\<forall>e\<in>set (inflight s). fst e < next_thread s)"

definition names_ok :: "'v sys \<Rightarrow> bool" where
  "names_ok s \<longleftrightarrow> distinct (map fst (agents (orch s)))
     \<and> (\<forall>(n, i)\<in>set (agents (orch s)). i < next_id (orch s) \<and> agent_name (store (orch s) i) = n)
     \<and> (\<forall>i. engaged s i \<longrightarrow> i < next_id (orch s))
     \<and> (\<forall>i j. running s i \<noteq> [] \<longrightarrow> running s j \<noteq> [] \<longrightarrow>
          agent_name (store (orch s) i) = agent_name (store (orch s) j) \<longrightarrow> i = j)"

text \<open>Until shutdown a working agent keeps its place in the table.\<close>

definition open_ok :: "'v sys \<Rightarrow> bool" where
  "open_ok s \<longleftrightarrow> closed (orch s) \<or>
     (\<forall>i. engaged s i \<longrightarrow> i \<in> snd ` set (agents (orch s)))
     \<and> (\<forall>i \<in> snd ` set (agents (orch s)). status (store (orch s) i) \<noteq> Shutdown)"

definition sys_inv :: "'v sys \<Rightarrow> bool" where
  "sys_inv s \<longleftrightarrow> agents_ok s \<and> threads_ok s \<and> names_ok s \<and> open_ok s"

lemmas sys_inv_defs = sys_inv_def agents_ok_def threads_ok_def names_ok_def open_ok_def

lemma sys_inv_new [simp]: "sys_inv new_sys"
  by (simp add: sys_inv_defs new_sys_def new_orch_def waiting_def running_def engaged_def)

lemma views_orch [simp]:
  "waiting (s\<lparr>orch := \<sigma>\<rparr>) = waiting s" "running (s\<lparr>orch := \<sigma>\<rparr>) = running s"
  "engaged (s\<lparr>orch := \<sigma>\<rparr>) = engaged s"
  by (simp_all add: waiting_def running_def engaged_def fun_eq_iff)

lemma set_agent_fields [simp]:
  "store (set_agent i a \<sigma>) = (store \<sigma>)(i := a)" "agents (set_agent i a \<sigma>) = agents \<sigma>"
  "closed (set_agent i a \<sigma>) = closed \<sigma>" "next_id (set_agent i a \<sigma>) = next_id \<sigma>"
  by (simp_all add: set_agent_def)

lemma record_result_fields [simp]:
  "store (record_result r \<sigma>) = store \<sigma>" "agents (record_result r \<sigma>) = agents \<sigma>"
  "closed (record_result r \<sigma>) = closed \<sigma>" "next_id (record_result r \<sigma>) = next_id \<sigma>"
  by (simp_all add: record_result_def)

lemma running_alive: "\<forall>x\<in>set (running s i). alive (probes wp s j) x"
  by (force simp: running_def probes_def)

lemma agents_okD: "agents_ok s \<Longrightarrow> agent_inv (waiting s i) (running s i) (store (orch s) i)"
  by (simp add: agents_ok_def)

text \<open>
  Steps that only touch agents in place, keeping names, kinds and shutdown, keep the invariant.
\<close>

definition same_table :: "'v orch \<Rightarrow> 'v orch \<Rightarrow> bool" where
  "same_table \<sigma> \<sigma>' \<longleftrightarrow> agents \<sigma>' = agents \<sigma> \<and> next_id \<sigma>' = next_id \<sigma> \<and> closed \<sigma>' = closed \<sigma>
     \<and> (\<forall>i. agent_name (store \<sigma>' i) = agent_name (store \<sigma> i)
          \<and> (status (store \<sigma>' i) = Shutdown \<longrightarrow> status (store \<sigma> i) = Shutdown))"

lemma same_table_inv:
  assumes "sys_inv s" and "same_table (orch s) \<sigma>'"
    and "\<And>i. agent_inv (waiting s i) (running s i) (store \<sigma>' i)"
  shows "sys_inv (s\<lparr>orch := \<sigma>'\<rparr>)"
  using assms unfolding sys_inv_defs same_table_def by (auto; blast)

lemma touch_one:
  assumes "sys_inv s" and "agent_inv (waiting s j) (running s j) a"
    and "agent_name a = agent_name (store (orch s) j)"
    and "status a = Shutdown \<longrightarrow> status (store (orch s) j) = Shutdown"
  shows "sys_inv (s\<lparr>orch := set_agent j a (orch s)\<rparr>)"
  using assms(1) by (rule same_table_inv)
    (use assms in \<open>auto simp: same_table_def sys_inv_def agents_ok_def\<close>)

lemma touched_fields [simp]:
  "agent_name (snd (can_unregister w a)) = agent_name a"
  "agent_name (snd (has_pending_execution w a)) = agent_name a"
  "agent_name (reset_agent w a) = agent_name a" "agent_name (snd (recover_from_error w a)) = agent_name a"
  "agent_name (shutdown_agent a) = agent_name a"
  "status (snd (can_unregister w a)) = Shutdown \<longleftrightarrow> status a = Shutdown"
  "status (reset_agent w a) = Shutdown \<longleftrightarrow> status a = Shutdown"
  "status (snd (recover_from_error w a)) = Shutdown \<longleftrightarrow> status a = Shutdown"
  using reap_shutdown [of w a]
  by (auto simp: can_unregister_def has_pending_execution_def reset_agent_def recover_from_error_def
    shutdown_agent_def Let_def)

text \<open>A new registration: nothing runs yet under the fresh identity.\<close>

lemma fresh_idle:
  assumes "sys_inv s" and "next_id (orch s) \<le> i"
  shows "waiting s i = [] \<and> running s i = []"
proof -
  have "engaged s i \<longrightarrow> i < next_id (orch s)" using assms(1) by (simp add: sys_inv_def names_ok_def)
  with assms(2) show ?thesis by (auto simp: engaged_def)
qed

definition add_agent :: "pystr \<Rightarrow> bool \<Rightarrow> pystr list \<Rightarrow> 'v orch \<Rightarrow> 'v orch" where
  "add_agent n dec caps \<sigma> = \<sigma>\<lparr>store := (store \<sigma>)(next_id \<sigma> := new_agent n dec caps),
     next_id := next_id \<sigma> + 1, agents := AList.update n (next_id \<sigma>) (agents \<sigma>)\<rparr>"

text \<open>Entries of a table: an update replaces one, a deletion removes one.\<close>

lemma table_ids:
  "distinct (map fst d) \<Longrightarrow> i \<in> snd ` set d \<longleftrightarrow> (\<exists>n. map_of d n = Some i)"
  by (force simp: image_iff)

lemma update_entries:
  "distinct (map fst d) \<Longrightarrow> set (AList.update n i d) = insert (n, i) {e \<in> set d. fst e \<noteq> n}"
proof -
  assume d: "distinct (map fst d)"
  have "map_of (AList.update n i d) = (map_of d)(n \<mapsto> i)" by (rule update_conv')
  moreover have "distinct (map fst (AList.update n i d))" using d by (rule distinct_update)
  ultimately have "(m, x) \<in> set (AList.update n i d) \<longleftrightarrow> ((map_of d)(n \<mapsto> i)) m = Some x" for m x
    by (metis map_of_eq_Some_iff)
  then show ?thesis using d by (auto split: if_splits)
qed

lemma delete_entries: "set (AList.delete n d) = {e \<in> set d. fst e \<noteq> n}"
  by (auto simp: AList.delete_eq)

lemma add_agent_inv:
  assumes "sys_inv s" and free: "\<And>j. map_of (agents (orch s)) n = Some j \<Longrightarrow> \<not> closed (orch s) \<Longrightarrow> \<not> engaged s j"
  shows "sys_inv (s\<lparr>orch := add_agent n dec caps (orch s)\<rparr>)"
proof -
  let ?\<sigma> = "orch s"
  have d: "distinct (map fst (agents ?\<sigma>))" using assms(1) by (simp add: sys_inv_def names_ok_def)
  have fresh: "waiting s (next_id ?\<sigma>) = []" "running s (next_id ?\<sigma>) = []"
    using fresh_idle [OF assms(1)] by auto
  have old: "\<And>m i. (m, i) \<in> set (agents ?\<sigma>) \<Longrightarrow> i < next_id ?\<sigma> \<and> agent_name (store ?\<sigma> i) = m"
    using assms(1) by (auto simp: sys_inv_def names_ok_def)
  have "agents_ok (s\<lparr>orch := add_agent n dec caps ?\<sigma>\<rparr>)"
    using assms(1) fresh by (simp add: sys_inv_def agents_ok_def add_agent_def)
  moreover have "threads_ok (s\<lparr>orch := add_agent n dec caps ?\<sigma>\<rparr>)"
    using assms(1) by (simp add: sys_inv_def threads_ok_def)
  moreover have "names_ok (s\<lparr>orch := add_agent n dec caps ?\<sigma>\<rparr>)"
    using assms(1) fresh old
    by (auto simp: sys_inv_def names_ok_def add_agent_def update_entries [OF d] distinct_update new_agent_def
        less_Suc_eq split: if_splits)
  moreover have "open_ok (s\<lparr>orch := add_agent n dec caps ?\<sigma>\<rparr>)"
  proof (cases "closed ?\<sigma>")
    case False
    have "i \<in> snd ` set (AList.update n (next_id ?\<sigma>) (agents ?\<sigma>))" if e: "engaged s i" for i
    proof -
      have "i \<in> snd ` set (agents ?\<sigma>)"
        using assms(1) False e by (simp add: sys_inv_def open_ok_def)
      then obtain m where m: "(m, i) \<in> set (agents ?\<sigma>)" by auto
      then have "m \<noteq> n" using free [of i] d False e by auto
      with m show ?thesis by (force simp: update_entries [OF d])
    qed
    moreover have "status (store (add_agent n dec caps ?\<sigma>) i) \<noteq> Shutdown"
      if "i \<in> snd ` set (AList.update n (next_id ?\<sigma>) (agents ?\<sigma>))" for i
      using that assms(1) False old
      by (force simp: update_entries [OF d] add_agent_def new_agent_def sys_inv_def open_ok_def)
    ultimately show ?thesis by (simp add: open_ok_def add_agent_def)
  qed (simp add: open_ok_def add_agent_def)
  ultimately show ?thesis by (simp add: sys_inv_def)
qed

lemma sys_inv_shut: "agent_inv I L a \<Longrightarrow> agent_inv I L (shutdown_agent a)"
  by (auto simp: agent_inv_def shutdown_agent_def)

text \<open>The bookkeeping of results leaves the table alone.\<close>

lemma sys_inv_more:
  assumes "sys_inv (s\<lparr>orch := \<sigma>\<rparr>)" and "store \<sigma>' = store \<sigma>" "agents \<sigma>' = agents \<sigma>"
    "next_id \<sigma>' = next_id \<sigma>" "closed \<sigma>' = closed \<sigma>"
  shows "sys_inv (s\<lparr>orch := \<sigma>'\<rparr>)"
  using assms by (simp add: sys_inv_def agents_ok_def threads_ok_def names_ok_def open_ok_def)

text \<open>An agent that may be unregistered is not engaged.\<close>

lemma can_unregister_idle:
  assumes "sys_inv s" and "can_unregister (probes wp s j) (store (orch s) j) = (True, a)"
    and "j \<in> snd ` set (agents (orch s))" and "\<not> closed (orch s)"
  shows "\<not> engaged s j"
proof -
  let ?a = "store (orch s) j"
  have inv: "agent_inv (waiting s j) (running s j) (reap (probes wp s j) ?a)"
    using assms(1) by (intro reap_inv running_alive agents_okD) (simp add: sys_inv_def)
  have "status ?a \<noteq> Shutdown" using assms(1,3,4) by (auto simp: sys_inv_def open_ok_def)
  then have "status (reap (probes wp s j) ?a) \<noteq> Shutdown" by (simp add: reap_shutdown)
  then show ?thesis using inv assms(2)
    by (auto simp: can_unregister_def Let_def engaged_def agent_inv_def)
qed

lemma touched_inv:
  assumes "sys_inv s"
  shows "sys_inv (s\<lparr>orch := set_agent j (snd (can_unregister (probes wp s j) (store (orch s) j))) (orch s)\<rparr>)"
    "sys_inv (s\<lparr>orch := set_agent j (snd (recover_from_error (probes wp s j) (store (orch s) j))) (orch s)\<rparr>)"
    "sys_inv (s\<lparr>orch := set_agent j (reset_agent (probes wp s j) (store (orch s) j)) (orch s)\<rparr>)"
proof -
  have "agents_ok s" using assms by (simp add: sys_inv_def)
  note touch = touch_inv [OF agents_okD [OF this] running_alive]
  show "sys_inv (s\<lparr>orch := set_agent j (snd (can_unregister (probes wp s j) (store (orch s) j))) (orch s)\<rparr>)"
    by (rule touch_one [OF assms touch(1)]) simp_all
  show "sys_inv (s\<lparr>orch := set_agent j (snd (recover_from_error (probes wp s j) (store (orch s) j))) (orch s)\<rparr>)"
    by (rule touch_one [OF assms touch(4)]) simp_all
  show "sys_inv (s\<lparr>orch := set_agent j (reset_agent (probes wp s j) (store (orch s) j)) (orch s)\<rparr>)"
    by (rule touch_one [OF assms touch(3)]) simp_all
qed

text \<open>Taking an idle entry out of the table and shutting its worker down.\<close>

definition retire :: "nat \<Rightarrow> agent \<Rightarrow> 'v orch \<Rightarrow> 'v orch" where
  "retire j a \<sigma> = set_agent j (if declared a then shutdown_agent a else a) \<sigma>"

lemma retired_inv:
  assumes "sys_inv s" and "map_of (agents (orch s)) n = Some j"
    and "can_unregister (probes wp s j) (store (orch s) j) = (True, a)"
  shows "sys_inv (s\<lparr>orch := (retire j a (orch s))\<lparr>agents := AList.delete n (agents (orch s))\<rparr>\<rparr>)"
proof -
  let ?\<sigma> = "(retire j a (orch s))\<lparr>agents := AList.delete n (agents (orch s))\<rparr>"
  have a: "a = reap (probes wp s j) (store (orch s) j)"
    using assms(3) by (simp add: can_unregister_def Let_def)
  have d: "distinct (map fst (agents (orch s)))" and mem: "(n, j) \<in> set (agents (orch s))"
    using assms(1,2) by (auto simp: sys_inv_def names_ok_def dest: map_of_SomeD)
  have old: "\<And>m i. (m, i) \<in> set (agents (orch s)) \<Longrightarrow> i < next_id (orch s) \<and> agent_name (store (orch s) i) = m"
    using assms(1) by (auto simp: sys_inv_def names_ok_def)
  have idle: "\<not> closed (orch s) \<Longrightarrow> \<not> engaged s j"
    using can_unregister_idle [OF assms(1,3)] mem by force
  have inv: "agent_inv (waiting s j) (running s j) a"
    unfolding a using assms(1) by (intro reap_inv running_alive agents_okD) (simp add: sys_inv_def)
  have "agents_ok (s\<lparr>orch := ?\<sigma>\<rparr>)"
    using assms(1) inv by (auto simp: sys_inv_def agents_ok_def retire_def sys_inv_shut)
  moreover have "names_ok (s\<lparr>orch := ?\<sigma>\<rparr>)"
  proof -
    have "agent_name (store ?\<sigma> i) = agent_name (store (orch s) i)" for i
      by (simp add: retire_def a)
    moreover have "next_id ?\<sigma> = next_id (orch s)" by (simp add: retire_def)
    moreover have "names_ok s" using assms(1) by (simp add: sys_inv_def)
    ultimately show ?thesis
      by (simp add: names_ok_def delete_entries distinct_delete)
  qed
  moreover have "open_ok (s\<lparr>orch := ?\<sigma>\<rparr>)"
  proof (cases "closed (orch s)")
    case False
    have open_s: "\<And>i. engaged s i \<Longrightarrow> i \<in> snd ` set (agents (orch s))"
      "\<And>i. i \<in> snd ` set (agents (orch s)) \<Longrightarrow> status (store (orch s) i) \<noteq> Shutdown"
      using assms(1) False by (auto simp: sys_inv_def open_ok_def)
    have kept: "i \<in> snd ` set (AList.delete n (agents (orch s))) \<longleftrightarrow>
        i \<in> snd ` set (agents (orch s)) \<and> i \<noteq> j" for i
    proof -
      have eq: "m = n \<longleftrightarrow> i = j" if e: "(m, i) \<in> set (agents (orch s))" for m
      proof
        assume "m = n"
        with map_of_is_SomeI [OF d e] assms(2) show "i = j" by simp
      next
        assume "i = j"
        with old [OF e] old [OF mem] show "m = n" by simp
      qed
      have "i \<in> snd ` set (AList.delete n (agents (orch s))) \<longleftrightarrow> (\<exists>m. (m, i) \<in> set (agents (orch s)) \<and> m \<noteq> n)"
        by (force simp: delete_entries)
      also have "\<dots> \<longleftrightarrow> (\<exists>m. (m, i) \<in> set (agents (orch s)) \<and> i \<noteq> j)" using eq by blast
      finally show ?thesis by force
    qed
    have "i \<in> snd ` set (AList.delete n (agents (orch s)))" if "engaged s i" for i
      using open_s(1) [OF that] idle [OF False] that kept by blast
    moreover have "status (store ?\<sigma> i) \<noteq> Shutdown" if "i \<in> snd ` set (AList.delete n (agents (orch s)))" for i
      using that kept open_s(2) [of i] by (simp add: retire_def)
    ultimately show ?thesis by (simp add: open_ok_def)
  qed (simp add: open_ok_def retire_def)
  ultimately show ?thesis using assms(1) by (simp add: sys_inv_def threads_ok_def)
qed

text \<open>The order of the table does not matter.\<close>

lemma same_set_inv:
  assumes "sys_inv (s\<lparr>orch := \<sigma>\<rparr>)" and "store \<sigma>' = store \<sigma>" "next_id \<sigma>' = next_id \<sigma>" "closed \<sigma>' = closed \<sigma>"
    and "set (agents \<sigma>') = set (agents \<sigma>)" "distinct (map fst (agents \<sigma>'))"
  shows "sys_inv (s\<lparr>orch := \<sigma>'\<rparr>)"
  using assms by (simp add: sys_inv_def agents_ok_def threads_ok_def names_ok_def open_ok_def)

lemma register_cases:
  "register_agent w n dec caps \<sigma> = (case map_of (agents \<sigma>) n of
     None \<Rightarrow> add_agent n dec caps \<sigma>
   | Some j \<Rightarrow> if fst (can_unregister (w j) (store \<sigma> j))
       then add_agent n dec caps (retire j (snd (can_unregister (w j) (store \<sigma> j))) \<sigma>)
       else set_agent j (snd (can_unregister (w j) (store \<sigma> j))) \<sigma>)"
  by (simp add: register_agent_def add_agent_def retire_def Let_def split: option.split prod.split)

lemma register_sys_inv [inv_intros]:
  assumes "sys_inv s"
  shows "sys_inv (s\<lparr>orch := register_agent (probes wp s) n dec caps (orch s)\<rparr>)"
proof (cases "map_of (agents (orch s)) n")
  case None
  then show ?thesis using add_agent_inv [OF assms, of n] by (simp add: register_cases)
next
  case (Some j)
  obtain ok a where cu: "can_unregister (probes wp s j) (store (orch s) j) = (ok, a)" by fastforce
  show ?thesis
  proof (cases ok)
    case False
    then show ?thesis using touched_inv(1) [OF assms, of j wp] cu Some by (simp add: register_cases)
  next
    case True
    let ?s = "s\<lparr>orch := (retire j a (orch s))\<lparr>agents := AList.delete n (agents (orch s))\<rparr>\<rparr>"
    have d: "distinct (map fst (agents (orch s)))" using assms by (simp add: sys_inv_def names_ok_def)
    have "sys_inv ?s" using retired_inv [OF assms Some] cu True by simp
    then have "sys_inv (?s\<lparr>orch := add_agent n dec caps (orch ?s)\<rparr>)"
      by (rule add_agent_inv) (simp add: delete_conv')
    then have "sys_inv (s\<lparr>orch := add_agent n dec caps ((retire j a (orch s))\<lparr>agents := AList.delete n (agents (orch s))\<rparr>)\<rparr>)"
      by simp
    then have "sys_inv (s\<lparr>orch := add_agent n dec caps (retire j a (orch s))\<rparr>)"
      by (rule same_set_inv)
        (use d in \<open>auto simp: add_agent_def retire_def update_entries distinct_delete delete_entries distinct_update\<close>)
    then show ?thesis using cu Some True by (simp add: register_cases)
  qed
qed

lemma unregister_sys_inv [inv_intros]:
  assumes "sys_inv s"
  shows "sys_inv (s\<lparr>orch := snd (unregister_agent (probes wp s) n (orch s))\<rparr>)"
proof (cases "map_of (agents (orch s)) n")
  case (Some j)
  obtain ok a where cu: "can_unregister (probes wp s j) (store (orch s) j) = (ok, a)" by fastforce
  show ?thesis
  proof (cases ok)
    case True
    then show ?thesis using retired_inv [OF assms Some] cu Some by (simp add: unregister_agent_def retire_def)
  next
    case False
    then show ?thesis using touched_inv(1) [OF assms, of j wp] cu Some by (simp add: unregister_agent_def)
  qed
qed (use assms in \<open>simp add: unregister_agent_def\<close>)

lemma recover_inv [inv_intros]:
  assumes "sys_inv s"
  shows "sys_inv (s\<lparr>orch := snd (recover_agent (probes wp s) n (orch s))\<rparr>)"
    "sys_inv (s\<lparr>orch := reset_named (probes wp s) n (orch s)\<rparr>)"
  using assms touched_inv [OF assms]
  by (auto simp: recover_agent_def reset_named_def split: option.split prod.split) (metis snd_conv)

lemma info_inv [inv_intros]:
  assumes "sys_inv s"
  shows "sys_inv (s\<lparr>orch := snd (info_agents (probes wp s) (orch s))\<rparr>)"
  using assms
proof (rule same_table_inv)
  show "same_table (orch s) (snd (info_agents (probes wp s) (orch s)))"
    by (simp add: same_table_def info_agents_def Let_def reap_shutdown)
next
  fix i
  have "agents_ok s" using assms by (simp add: sys_inv_def)
  from reap_inv [OF agents_okD [OF this] running_alive] agents_okD [OF this]
  show "agent_inv (waiting s i) (running s i) (store (snd (info_agents (probes wp s) (orch s))) i)"
    by (simp add: info_agents_def Let_def)
qed

lemma shutdown_inv [inv_intros]:
  "sys_inv s \<Longrightarrow> sys_inv (s\<lparr>orch := shutdown_orch (orch s)\<rparr>)"
proof -
  assume s: "sys_inv s"
  let ?\<sigma> = "shutdown_orch (orch s)"
  have "agent_name (store ?\<sigma> i) = agent_name (store (orch s) i)" for i
    by (simp add: shutdown_orch_def Let_def)
  moreover have "agents ?\<sigma> = agents (orch s)" "next_id ?\<sigma> = next_id (orch s)" "closed ?\<sigma>"
    by (simp_all add: shutdown_orch_def Let_def)
  moreover have "agent_inv (waiting s i) (running s i) (store ?\<sigma> i)" for i
    using s by (simp add: shutdown_orch_def Let_def sys_inv_def agents_ok_def sys_inv_shut)
  ultimately show ?thesis using s
    by (simp add: sys_inv_def agents_ok_def threads_ok_def names_ok_def open_ok_def)
qed

text \<open>The end of a dispatch.\<close>

lemma waiting_member: "map_of (inflight s) x = Some (i, t) \<Longrightarrow> x \<in> set (waiting s i)"
  by (force simp: waiting_def dest: map_of_SomeD)

lemma waiting_entry:
  assumes "sys_inv s" and "map_of (inflight s) x = Some (i, t)"
  shows "waiting s i = [x]" and "agent_inv [x] (running s i) (store (orch s) i)"
proof -
  have inv: "agent_inv (waiting s i) (running s i) (store (orch s) i)"
    using assms(1) by (simp add: sys_inv_def agents_ok_def)
  have "length (waiting s i) \<le> 1" using inv by (simp add: agent_inv_def)
  then show "waiting s i = [x]"
    using waiting_member [OF assms(2)] by (cases "waiting s i") auto
  then show "agent_inv [x] (running s i) (store (orch s) i)" using inv by simp
qed

lemma waiting_delete:
  assumes "distinct (map fst (inflight s))" and "map_of (inflight s) x = Some (i, t)"
  shows "waiting (s\<lparr>orch := \<sigma>, inflight := AList.delete x (inflight s)\<rparr>) k =
     (if k = i then filter (\<lambda>y. y \<noteq> x) (waiting s i) else waiting s k)"
proof -
  have gone: "filter (\<lambda>e. fst (snd e) = k \<and> fst e \<noteq> x) (inflight s) = filter (\<lambda>e. fst (snd e) = k) (inflight s)"
    if "k \<noteq> i"
  proof (rule filter_cong [OF refl])
    fix e assume e: "e \<in> set (inflight s)"
    have "map_of (inflight s) (fst e) = Some (snd e)" using e assms(1) by (simp add: map_of_is_SomeI)
    then show "(fst (snd e) = k \<and> fst e \<noteq> x) = (fst (snd e) = k)" using assms(2) that by (cases e) auto
  qed
  have "waiting (s\<lparr>orch := \<sigma>, inflight := AList.delete x (inflight s)\<rparr>) k
      = map fst (filter (\<lambda>e. fst (snd e) = k \<and> fst e \<noteq> x) (inflight s))"
    by (auto simp: waiting_def AList.delete_eq intro!: arg_cong [where f = "map fst"] filter_cong)
  then show ?thesis
    by (auto simp: gone) (auto simp: waiting_def filter_map o_def intro!: arg_cong [where f = "map fst"] filter_cong)
qed

lemma finish_inv:
  assumes "sys_inv s" and x: "map_of (inflight s) x = Some (i, t)"
    and a: "agent_inv [] (running s i) a" "agent_name a = agent_name (store (orch s) i)"
      "status a = Shutdown \<longrightarrow> status (store (orch s) i) = Shutdown"
    and \<sigma>: "store \<sigma> = (store (orch s))(i := a)" "agents \<sigma> = agents (orch s)"
      "next_id \<sigma> = next_id (orch s)" "closed \<sigma> = closed (orch s)"
  shows "sys_inv (s\<lparr>orch := \<sigma>, inflight := AList.delete x (inflight s)\<rparr>)"
proof -
  let ?s = "s\<lparr>orch := \<sigma>, inflight := AList.delete x (inflight s)\<rparr>"
  have d: "distinct (map fst (inflight s))" using assms(1) by (simp add: sys_inv_def threads_ok_def)
  have w: "waiting ?s k = (if k = i then [] else waiting s k)" for k
    using waiting_delete [OF d x] waiting_entry(1) [OF assms(1) x] by simp
  have r: "running ?s = running s" by (simp add: running_def fun_eq_iff)
  have e: "engaged ?s k \<Longrightarrow> engaged s k" for k by (auto simp: engaged_def w r split: if_splits)
  have n: "agent_name (store \<sigma> k) = agent_name (store (orch s) k)" for k by (simp add: \<sigma> a)
  have "agents_ok ?s" using assms(1) a(1) by (simp add: sys_inv_def agents_ok_def w r \<sigma>)
  moreover have "threads_ok ?s"
    using assms(1) by (simp add: sys_inv_def threads_ok_def delete_entries distinct_delete)
  moreover have "names_ok ?s"
    using assms(1) e by (simp add: sys_inv_def names_ok_def r \<sigma>(2,3) n)
  moreover have "open_ok ?s"
    using assms(1) e a(3) by (auto simp: sys_inv_def open_ok_def \<sigma>)
  ultimately show ?thesis by (simp add: sys_inv_def)
qed

text \<open>What either way of finishing does to the agent of the dispatch.\<close>

definition ended :: "nat \<Rightarrow> nat list \<Rightarrow> nat \<Rightarrow> 'v orch \<Rightarrow> 'v orch \<Rightarrow> bool" where
  "ended x L i \<sigma> \<sigma>' \<longleftrightarrow> agents \<sigma>' = agents \<sigma> \<and> next_id \<sigma>' = next_id \<sigma> \<and> closed \<sigma>' = closed \<sigma>
     \<and> (\<exists>a. store \<sigma>' = (store \<sigma>)(i := a) \<and> agent_inv [] L a \<and> agent_name a = agent_name (store \<sigma> i)
          \<and> (status a = Shutdown \<longrightarrow> status (store \<sigma> i) = Shutdown))"

lemma end_names [simp]:
  "agent_name (complete a) = agent_name a" "agent_name (release_assignment a) = agent_name a"
  "agent_name (fail r a) = agent_name a" "agent_name (quarantine w t a) = agent_name a"
  "agent_name (quarantine_declared_worker w a) = agent_name a"
  by (simp_all add: complete_def release_assignment_def to_idle_def fail_def quarantine_def
      quarantine_declared_worker_def Let_def)

lemma end_status [simp]:
  "status (complete a) = Shutdown \<longleftrightarrow> status a = Shutdown"
  "status (release_assignment a) = Shutdown \<longleftrightarrow> status a = Shutdown"
  "status (fail r a) = Shutdown \<longleftrightarrow> status a = Shutdown"
  "status (quarantine w t a) = Shutdown \<longleftrightarrow> status a = Shutdown"
  "status (quarantine_declared_worker w a) = Shutdown \<longleftrightarrow> status a = Shutdown"
  by (auto simp: complete_def release_assignment_def to_idle_def fail_def quarantine_def
      quarantine_declared_worker_def Let_def reap_shutdown)

lemma endedI:
  "agent_inv [] L a \<Longrightarrow> agent_name a = agent_name (store \<sigma> i) \<Longrightarrow>
     (status a = Shutdown \<longrightarrow> status (store \<sigma> i) = Shutdown) \<Longrightarrow>
     ended x L i \<sigma> (record_result r (bump f (set_agent i a \<sigma>))) \<and>
     ended x L i \<sigma> (record_result r (set_agent i a \<sigma>))"
  by (auto simp: ended_def)

lemmas endeds = endedI [THEN conjunct1] endedI [THEN conjunct2]

lemma finish_in_process_ended:
  assumes "agent_inv [x] L (store \<sigma> i)" and "\<not> declared (store \<sigma> i)"
    and "out = StillRunning x \<or> (x \<notin> set L \<and> (\<forall>y. out \<noteq> StillRunning y))"
  shows "ended x L i \<sigma> (snd (finish_in_process w t i out \<sigma>))"
  using assms(3)
proof
  assume "out = StillRunning x"
  then show ?thesis
    using quarantine_inv [OF assms(1,2)] by (auto simp: finish_in_process_def Let_def intro!: endeds)
next
  assume "x \<notin> set L \<and> (\<forall>y. out \<noteq> StillRunning y)"
  then show ?thesis using finished_inv [OF assms(1)]
    by (auto simp: finish_in_process_def Let_def intro!: endeds split: thread_outcome.split)
qed

lemma finish_declared_ended:
  assumes "agent_inv [x] L (store \<sigma> i)" and "declared (store \<sigma> i)"
  shows "ended x L i \<sigma> (snd (finish_declared w dec t i ans \<sigma>))"
proof -
  have L: "L = []" using assms by (simp add: agent_inv_def)
  have r: "reap w (store \<sigma> i) = store \<sigma> i" using assms(1) by (rule reap_waiting) simp
  note ends = finished_inv [OF assms(1)] quarantine_declared_inv [of x, OF assms(1) [unfolded L] assms(2)]
  show ?thesis
  proof (cases ans)
    case (Answered ro)
    then show ?thesis using ends L
      by (cases ro) (auto simp: finish_declared_def Let_def intro!: endeds split: sum.split)
  qed (use ends L in \<open>auto simp: finish_declared_def Let_def has_pending_execution_def r intro!: endeds\<close>)
qed

lemma finish_with_inv:
  assumes "sys_inv s"
    and "\<And>i t. map_of (inflight s) x = Some (i, t) \<Longrightarrow> declared (store (orch s) i) = kind \<Longrightarrow>
       ended x (running s i) i (orch s) (snd (f i t (orch s)))"
  shows "sys_inv (finish_with x kind f s)"
  using assms finish_inv [OF assms(1)]
  by (auto simp: finish_with_def ended_def split: option.split prod.split)

text \<open>The beginning of a dispatch.\<close>

lemma dispatch_begin_cases:
  "dispatch_begin w t \<sigma> = (if closed \<sigma> then (Inl (error_result t (u ''Orchestrator is shutting down'') ''error''),
       bump total_dispatched_update \<sigma>)
     else case map_of (agents \<sigma>) (task_agent t) of
       None \<Rightarrow> (Inl (error_result t (u ''Agent '' @ [39] @ task_agent t @ [39] @ u '' not found'') ''error''),
         bump total_errors_update (bump total_dispatched_update \<sigma>))
     | Some i \<Rightarrow> (let (ok, a) = try_assign (w i) (task_id t) (store \<sigma> i) in
         if ok then (Inr i, set_agent i a (bump total_dispatched_update \<sigma>))
         else (Inl (error_result t (u ''Agent '' @ [39] @ task_agent t @ [39] @ u '' is busy'') ''busy''),
           bump total_errors_update (set_agent i a (bump total_dispatched_update \<sigma>)))))"
  by (simp add: dispatch_begin_def Let_def split: option.split prod.split)

lemma begin_refused_inv:
  assumes "sys_inv s" and "dispatch_begin (probes wp s) t (orch s) = (Inl r, \<sigma>)"
  shows "sys_inv (s\<lparr>orch := \<sigma>\<rparr>)"
proof -
  have s: "sys_inv (s\<lparr>orch := orch s\<rparr>)" using assms(1) by simp
  consider "store \<sigma> = store (orch s)" "agents \<sigma> = agents (orch s)" "next_id \<sigma> = next_id (orch s)"
      "closed \<sigma> = closed (orch s)"
    | i a where "try_assign (probes wp s i) (task_id t) (store (orch s) i) = (False, a)"
      "\<sigma> = bump total_errors_update (set_agent i a (bump total_dispatched_update (orch s)))"
    using assms(2) by (fastforce simp: dispatch_begin_cases split: if_splits option.splits prod.splits)
  then show ?thesis
  proof cases
    case 1
    then show ?thesis by (rule sys_inv_more [OF s])
  next
    case 2
    have "agents_ok s" using assms(1) by (simp add: sys_inv_def)
    note refused = try_assign_refused [OF agents_okD [OF this] running_alive 2(1)]
    then have "a = reap (probes wp s i) (store (orch s) i)" by blast
    with refused have "sys_inv (s\<lparr>orch := set_agent i a (orch s)\<rparr>)"
      by (intro touch_one [OF assms(1)]) (simp_all add: reap_shutdown)
    then show ?thesis by (rule sys_inv_more) (simp_all add: 2(2))
  qed
qed

definition begun :: "'v sys \<Rightarrow> task \<Rightarrow> nat \<Rightarrow> 'v orch \<Rightarrow> 'v sys" where
  "begun s t i \<sigma> = s\<lparr>orch := \<sigma>, inflight := (next_thread s, i, t) # inflight s,
     live := (if declared (store \<sigma> i) then live s else (next_thread s, i) # live s),
     next_thread := next_thread s + 1\<rparr>"

lemma begun_views:
  "waiting (begun s t i \<sigma>) k = (if k = i then next_thread s # waiting s k else waiting s k)"
  "running (begun s t i \<sigma>) k =
     (if k = i \<and> \<not> declared (store \<sigma> i) then next_thread s # running s k else running s k)"
  by (simp_all add: waiting_def running_def begun_def)

lemma begin_accepted:
  assumes "dispatch_begin w t \<sigma> = (Inr i, \<sigma>')"
  obtains a where "\<not> closed \<sigma>" "map_of (agents \<sigma>) (task_agent t) = Some i"
    "try_assign (w i) (task_id t) (store \<sigma> i) = (True, a)"
    "\<sigma>' = set_agent i a (bump total_dispatched_update \<sigma>)"
  using assms by (auto simp: dispatch_begin_cases split: if_splits option.splits prod.splits)

lemma begun_inv:
  assumes "sys_inv s" and "dispatch_begin (probes wp s) t (orch s) = (Inr i, \<sigma>)"
  shows "waiting s i = [] \<and> running s i = [] \<and> sys_inv (begun s t i \<sigma>)"
proof -
  from assms(2) obtain a where op: "\<not> closed (orch s)" and i: "map_of (agents (orch s)) (task_agent t) = Some i"
    and assigned: "try_assign (probes wp s i) (task_id t) (store (orch s) i) = (True, a)"
    and \<sigma>: "\<sigma> = set_agent i a (bump total_dispatched_update (orch s))" by (rule begin_accepted)
  have parts: "agents_ok s" "threads_ok s" "names_ok s" "open_ok s" using assms(1) by (simp_all add: sys_inv_def)
  note assign = try_assign_inv [OF agents_okD [OF parts(1)] running_alive assigned, of "next_thread s"]
  have free: "waiting s i = []" "running s i = []" using assign by auto
  have mem: "i \<in> snd ` set (agents (orch s))" using i by (force dest: map_of_SomeD)
  have old: "\<And>m k. (m, k) \<in> set (agents (orch s)) \<Longrightarrow> k < next_id (orch s) \<and> agent_name (store (orch s) k) = m"
    and d: "distinct (map fst (agents (orch s)))" using parts(3) by (auto simp: names_ok_def)
  let ?s = "begun s t i \<sigma>"
  have \<sigma>s: "store \<sigma> = (store (orch s))(i := a)" "agents \<sigma> = agents (orch s)" "closed \<sigma> = closed (orch s)"
    "next_id \<sigma> = next_id (orch s)" by (simp_all add: \<sigma>)
  have orch: "orch ?s = \<sigma>" by (simp add: begun_def)
  have names: "agent_name (store \<sigma> k) = agent_name (store (orch s) k)" for k
    using assign by (simp add: \<sigma>s)
  have eng: "engaged ?s k \<Longrightarrow> k = i \<or> engaged s k" for k
    by (auto simp: engaged_def begun_views split: if_splits)
  have registered: "k \<in> snd ` set (agents (orch s))" if "engaged ?s k" for k
    using eng [OF that] mem parts(4) op by (auto simp: open_ok_def)
  have same: "k = l" if k: "k \<in> snd ` set (agents (orch s))" and l: "l \<in> snd ` set (agents (orch s))"
    and kl: "agent_name (store (orch s) k) = agent_name (store (orch s) l)" for k l
  proof -
    obtain m m' where "(m, k) \<in> set (agents (orch s))" "(m', l) \<in> set (agents (orch s))"
      using k l by auto
    with old kl show ?thesis by (metis d eq_key_imp_eq_value)
  qed
  have "agents_ok ?s"
    using parts(1) assign free unfolding agents_ok_def orch \<sigma>s(1)
    by (cases "declared (store (orch s) i)") (auto simp: begun_views \<sigma>s)
  moreover have "threads_ok ?s"
    using parts(2) by (fastforce simp: threads_ok_def begun_def less_Suc_eq)
  moreover have "names_ok ?s"
  proof -
    have "\<forall>k l. running ?s k \<noteq> [] \<longrightarrow> running ?s l \<noteq> [] \<longrightarrow>
        agent_name (store (orch s) k) = agent_name (store (orch s) l) \<longrightarrow> k = l"
      using registered same by (metis engaged_def)
    moreover have "\<forall>k. engaged ?s k \<longrightarrow> k < next_id (orch s)" using registered old by fastforce
    ultimately show ?thesis using d old unfolding names_ok_def orch names \<sigma>s(2,4) by blast
  qed
  moreover have "open_ok ?s"
    using registered parts(4) op assign by (auto simp: open_ok_def orch \<sigma>s)
  ultimately show ?thesis using free by (simp add: sys_inv_def)
qed

text \<open>A handler thread ends.\<close>

lemma names_ok_mono:
  assumes "names_ok s" and "orch s' = orch s" and "\<forall>k. engaged s' k \<longrightarrow> engaged s k"
    and "\<forall>k. running s' k \<noteq> [] \<longrightarrow> running s k \<noteq> []"
  shows "names_ok s'"
  using assms(1) unfolding names_ok_def assms(2) by (intro conjI) (use assms(3,4) in blast)+

lemma thread_exit_inv:
  assumes "sys_inv s"
  shows "sys_inv (s\<lparr>live := filter (\<lambda>e. fst e \<noteq> x) (live s)\<rparr>)"
proof -
  let ?s = "s\<lparr>live := filter (\<lambda>e. fst e \<noteq> x) (live s)\<rparr>"
  have w: "waiting ?s = waiting s" by (simp add: waiting_def fun_eq_iff)
  have r: "running ?s k = filter (\<lambda>y. y \<noteq> x) (running s k)" for k
    by (simp add: running_def filter_map o_def conj_commute)
  have some: "running ?s k \<noteq> [] \<Longrightarrow> running s k \<noteq> []" for k by (auto simp: r)
  then have e: "engaged ?s k \<Longrightarrow> engaged s k" for k by (auto simp: engaged_def w)
  have smaller: "agent_inv I L a \<Longrightarrow> agent_inv I (filter P L) a" for I L P a
    by (auto simp: agent_inv_def)
  have parts: "agents_ok s" "threads_ok s" "names_ok s" "open_ok s" using assms by (simp_all add: sys_inv_def)
  have "agents_ok ?s" using parts(1) smaller by (simp add: agents_ok_def w r)
  moreover have "threads_ok ?s" using parts(2) by (simp add: threads_ok_def distinct_map_filter)
  moreover have "names_ok ?s" by (rule names_ok_mono [OF parts(3)]) (use e some in simp_all)
  moreover have "open_ok ?s" using parts(4) e by (auto simp: open_ok_def)
  ultimately show ?thesis by (simp add: sys_inv_def)
qed

theorem sys_step_inv:
  assumes "sys_inv s"
  shows "sys_inv (sys_step wp s x)"
proof (cases x)
  case (Begin t)
  show ?thesis
  proof (cases "dispatch_begin (probes wp s) t (orch s)")
    case (Pair r \<sigma>)
    with assms Begin show ?thesis
      using begin_refused_inv [OF assms] begun_inv [OF assms]
      by (cases r) (auto simp: sys_step_def Let_def begun_def)
  qed
next
  case (GiveUpWaiting th)
  have "sys_inv (finish_with th False (\<lambda>i t. finish_in_process (probes wp s i) t i (StillRunning th)) s)"
    using assms
    by (rule finish_with_inv) (auto intro: finish_in_process_ended waiting_entry(2) [OF assms])
  with GiveUpWaiting show ?thesis by (simp add: sys_step_def Let_def)
next
  case (FinishThread th out)
  have "sys_inv (finish_with th False (\<lambda>i t. finish_in_process (probes wp s i) t i out) s)"
    if "th \<notin> fst ` set (live s)" "\<forall>y. out \<noteq> StillRunning y"
    using assms
  proof (rule finish_with_inv)
    fix i t assume e: "map_of (inflight s) th = Some (i, t)" "declared (store (orch s) i) = False"
    have "th \<notin> set (running s i)" using that(1) by (auto simp: running_def)
    then show "ended th (running s i) i (orch s) (snd (finish_in_process (probes wp s i) t i out (orch s)))"
      using waiting_entry(2) [OF assms e(1)] e(2) that(2) by (intro finish_in_process_ended) auto
  qed
  with FinishThread assms show ?thesis by (auto simp: sys_step_def Let_def split: thread_outcome.split)
next
  case (FinishWorker th dec ans)
  have "sys_inv (finish_with th True (\<lambda>i t. finish_declared (probes wp s i) dec t i ans) s)"
    using assms
    by (rule finish_with_inv) (auto intro: finish_declared_ended waiting_entry(2) [OF assms])
  with FinishWorker show ?thesis by (simp add: sys_step_def Let_def)
qed (use assms in \<open>simp_all add: sys_step_def Let_def inv_intros thread_exit_inv\<close>)

interpretation system: guarded_machine "\<lambda>s (wp, x). sys_step wp s x" sys_inv
  by unfold_locales (auto intro: sys_step_inv)

lemma reachable_inv: "sys_inv (sys_run xs new_sys)"
  unfolding sys_run_def by (rule system.run_inv) simp

lemma engaged_registered:
  assumes "sys_inv s" and "\<not> closed (orch s)" and "map_of (agents (orch s)) n = Some i"
  shows "status (store (orch s) i) \<noteq> Shutdown"
  using assms by (fastforce simp: sys_inv_def open_ok_def dest: map_of_SomeD)

lemma engaged_not_idle:
  assumes "sys_inv s" and "\<not> closed (orch s)" and "map_of (agents (orch s)) n = Some i" and "engaged s i"
    and a: "a = reap (probes wp s i) (store (orch s) i)"
  shows "status a \<in> {Busy, Error} \<and> (status a = Error \<longrightarrow> pending_thread a \<noteq> None \<and> \<not> error_recoverable a)"
proof -
  have inv: "agent_inv (waiting s i) (running s i) a"
    unfolding a using assms(1) by (intro reap_inv running_alive agents_okD) (simp add: sys_inv_def)
  have "status a \<noteq> Shutdown"
    unfolding a using engaged_registered [OF assms(1-3)] by (simp add: reap_shutdown)
  then show ?thesis using inv assms(4)
    by (cases "waiting s i"; cases "running s i") (auto simp: agent_inv_def engaged_def)
qed

section \<open>Properties\<close>

lemma agent_inv_one:
  assumes "agent_inv I L a" and "x \<in> set L" and "y \<in> set L"
  shows "x = y"
proof -
  have "length I \<le> 1" "I \<noteq> [] \<longrightarrow> pending_thread a = None"
    and L: "\<forall>z\<in>set L. z \<in> set I \<or> pending_thread a = Some z"
    using assms(1) unfolding agent_inv_def by blast+
  then consider "I = []" | z where "I = [z]" "pending_thread a = None"
    by (cases I) auto
  then show ?thesis using bspec [OF L assms(2)] bspec [OF L assms(3)] by cases auto
qed

text \<open>
  C21: in every interleaving of dispatches, handler threads, registrations, recoveries and
  shutdown, at most one handler thread per agent name is alive at any time.
\<close>

theorem one_thread_per_name:
  "let s = sys_run xs new_sys in distinct (map (\<lambda>(th, i). agent_name (store (orch s) i)) (live s))"
proof -
  define s where "s = sys_run xs new_sys"
  have inv: "sys_inv s" unfolding s_def by (rule reachable_inv)
  have mem: "th \<in> set (running s i)" if "(th, i) \<in> set (live s)" for th i
    using that by (force simp: running_def)
  have "th = th' \<and> i = i'" if e: "(th, i) \<in> set (live s)" "(th', i') \<in> set (live s)"
    and n: "agent_name (store (orch s) i) = agent_name (store (orch s) i')" for th i th' i'
  proof -
    have "running s i \<noteq> []" "running s i' \<noteq> []" using mem [OF e(1)] mem [OF e(2)] by auto
    with n have "i = i'" using inv [unfolded sys_inv_def names_ok_def] by simp
    moreover have "agent_inv (waiting s i) (running s i) (store (orch s) i)"
      using inv by (simp add: sys_inv_def agents_ok_def)
    ultimately show ?thesis using agent_inv_one mem [OF e(1)] mem [OF e(2)] by blast
  qed
  then have "inj_on (\<lambda>(th, i). agent_name (store (orch s) i)) (set (live s))"
    by (auto intro!: inj_onI)
  moreover have "distinct (live s)" using inv by (simp add: sys_inv_def threads_ok_def distinct_map)
  ultimately show ?thesis unfolding s_def [symmetric] Let_def by (simp add: distinct_map)
qed

text \<open>
  While a task of a registered agent is being waited for, or its handler thread is still
  alive after its deadline, the agent is out of reach until shutdown: a dispatch to it is refused
  as busy, it cannot be unregistered or recovered, and registering its name again changes nothing
  but what was observed of it.
\<close>

theorem engaged_agent_is_protected:
  assumes "s = sys_run xs new_sys" and "\<not> closed (orch s)"
    and "map_of (agents (orch s)) n = Some i" and "engaged s i" and "task_agent t = n"
  shows "(\<exists>r \<sigma>. dispatch_begin (probes wp s) t (orch s) = (Inl r, \<sigma>) \<and> res_status r = ''busy'') \<and>
    \<not> fst (unregister_agent (probes wp s) n (orch s)) \<and> \<not> fst (recover_agent (probes wp s) n (orch s)) \<and>
    agents (register_agent (probes wp s) n dec caps (orch s)) = agents (orch s)"
proof -
  have inv: "sys_inv s" unfolding assms(1) by (rule reachable_inv)
  note busy = engaged_not_idle [OF inv assms(2-4) refl, of wp]
  have "fst (try_assign (probes wp s i) (task_id t) (store (orch s) i)) = False"
    using busy by (auto simp: try_assign_def Let_def)
  moreover have "fst (can_unregister (probes wp s i) (store (orch s) i)) = False"
    using busy by (auto simp: can_unregister_def Let_def)
  moreover have "fst (recover_from_error (probes wp s i) (store (orch s) i)) = False"
    using busy by (auto simp: recover_from_error_def Let_def)
  ultimately show ?thesis using assms(2,3,5)
    by (auto simp: dispatch_begin_cases unregister_agent_def recover_agent_def register_cases error_result_def
        split: prod.splits)
qed

text \<open>
  Quarantine ends: when the handler thread that outlived its deadline finally exits, the
  next dispatch to its agent is accepted, whatever happened in between.
\<close>

theorem quarantine_ends:
  assumes "s = sys_run xs new_sys" and "\<not> closed (orch s)"
    and "map_of (agents (orch s)) (task_agent t) = Some i" and "pending_thread (store (orch s) i) = Some th"
  shows "let s' = sys_step wp s (ThreadExit th) in
    \<exists>\<sigma>. dispatch_begin (probes wp s') t (orch s') = (Inr i, \<sigma>) \<and> status (store \<sigma> i) = Busy"
proof -
  have inv: "sys_inv s" unfolding assms(1) by (rule reachable_inv)
  let ?s = "sys_step wp s (ThreadExit th)"
  have \<sigma>: "orch ?s = orch s" "live ?s = filter (\<lambda>e. fst e \<noteq> th) (live s)" by (simp_all add: sys_step_def Let_def)
  have "agent_inv (waiting s i) (running s i) (store (orch s) i)"
    using inv by (simp add: sys_inv_def agents_ok_def)
  then have kind: "\<not> declared (store (orch s) i)" "\<not> pending_declared (store (orch s) i)"
    using assms(4) by (auto simp: agent_inv_def)
  have open_status: "status (store (orch s) i) \<noteq> Shutdown"
    by (rule engaged_registered [OF inv assms(2,3)])
  have "\<not> alive (probes wp ?s i) th" by (auto simp: probes_def \<sigma>)
  then have "status (reap (probes wp ?s i) (store (orch s) i)) = Idle"
    using kind open_status assms(4) by (simp add: reap_def reap_declared_def to_idle_def)
  then show ?thesis using assms(2,3)
    by (simp add: Let_def dispatch_begin_cases \<sigma>(1) try_assign_def)
qed

definition demo_task :: task where
  "demo_task = \<lparr>task_id = u ''t1'', task_agent = u ''a'', task_timeout = 1\<rparr>"

definition demo_ops :: "((nat \<Rightarrow> bool) \<times> nat sys_op) list" where
  "demo_ops = map (Pair (\<lambda>_. False)) [Register (u ''a'') False [], Begin demo_task, GiveUpWaiting 0]"

lemma demo_sys:
  "let s = sys_run demo_ops new_sys in \<not> closed (orch s) \<and> map_of (agents (orch s)) (u ''a'') = Some 0
     \<and> live s = [(0, 0)] \<and> pending_thread (store (orch s) 0) = Some 0"
  by code_simp

lemma engaged_agent_is_protected_witness:
  "\<not> fst (unregister_agent (probes (\<lambda>_. False) (sys_run demo_ops new_sys)) (u ''a'') (orch (sys_run demo_ops new_sys)))"
  using engaged_agent_is_protected [OF refl, of demo_ops "u ''a''" 0 demo_task "\<lambda>_. False" False "[]"] demo_sys
  by (simp add: Let_def engaged_def running_def demo_task_def)

lemma quarantine_ends_witness:
  "let s = sys_step (\<lambda>_. False) (sys_run demo_ops new_sys) (ThreadExit 0) in
     \<exists>\<sigma>. dispatch_begin (probes (\<lambda>_. False) s) demo_task (orch s) = (Inr 0, \<sigma>) \<and> status (store \<sigma> 0) = Busy"
  by (rule quarantine_ends [OF refl]) (use demo_sys in \<open>simp_all add: Let_def demo_task_def\<close>)

definition outcome_count :: "stats \<Rightarrow> nat" where
  "outcome_count st = total_success st + total_errors st + total_timeouts st"

definition uncounted :: "'v dispatch_env \<Rightarrow> task \<Rightarrow> 'v orch \<Rightarrow> bool" where
  "uncounted e t \<sigma> \<longleftrightarrow> closed \<sigma> \<or> (case dispatch_begin (before e) t \<sigma> of
       (Inr i, \<sigma>') \<Rightarrow> declared (store \<sigma>' i) \<and> (case worker_says e i of
           Answered (Some r) \<Rightarrow> rec_status r = Cancelled \<and> rec_confirmed r | _ \<Rightarrow> False)
     | _ \<Rightarrow> False)"

lemma stats_of_parts [simp]:
  "orch_stats (set_agent i a \<sigma>) = orch_stats \<sigma>" "orch_stats (record_result r \<sigma>) = orch_stats \<sigma>"
  "results (set_agent i a \<sigma>) = results \<sigma>"
  by (simp_all add: set_agent_def record_result_def)

lemma outcome_bump [simp]:
  "outcome_count (total_success_update Suc st) = Suc (outcome_count st)"
  "outcome_count (total_errors_update Suc st) = Suc (outcome_count st)"
  "outcome_count (total_timeouts_update Suc st) = Suc (outcome_count st)"
  "outcome_count (total_dispatched_update Suc st) = outcome_count st"
  by (simp_all add: outcome_count_def)

lemma begin_counts:
  assumes "dispatch_begin w t \<sigma> = (r, \<sigma>')"
  shows "total_dispatched (orch_stats \<sigma>') = Suc (total_dispatched (orch_stats \<sigma>)) \<and> results \<sigma>' = results \<sigma> \<and>
    outcome_count (orch_stats \<sigma>') = outcome_count (orch_stats \<sigma>) + (if \<not> closed \<sigma> \<and> isl r then 1 else 0)"
  using assms by (auto simp: dispatch_begin_cases Let_def split: if_splits option.splits prod.splits)

lemma finish_in_process_counts:
  "finish_in_process w t i out \<sigma> = (r, \<sigma>') \<Longrightarrow>
     total_dispatched (orch_stats \<sigma>') = total_dispatched (orch_stats \<sigma>)
     \<and> outcome_count (orch_stats \<sigma>') = Suc (outcome_count (orch_stats \<sigma>))
     \<and> results \<sigma>' = dq_append ORCHESTRATOR_HISTORY_LIMIT (results \<sigma>) r"
  by (auto simp: finish_in_process_def Let_def record_result_def split: thread_outcome.splits)

lemma finish_declared_counts:
  "finish_declared w dec t i ans \<sigma> = (r, \<sigma>') \<Longrightarrow>
     total_dispatched (orch_stats \<sigma>') = total_dispatched (orch_stats \<sigma>)
     \<and> outcome_count (orch_stats \<sigma>') = outcome_count (orch_stats \<sigma>) + (if (case ans of
           Answered (Some r) \<Rightarrow> rec_status r = Cancelled \<and> rec_confirmed r | _ \<Rightarrow> False) then 0 else 1)
     \<and> results \<sigma>' = dq_append ORCHESTRATOR_HISTORY_LIMIT (results \<sigma>) r"
  by (auto simp: finish_declared_def Let_def record_result_def
      split: worker_answer.splits option.splits prod.splits if_splits sum.splits)

text \<open>
  One dispatch counts once: it adds one to the dispatches and one to exactly one of
  successes, errors and timeouts, unless the orchestrator is closed or a worker confirmed a
  cancellation; and its result enters the history exactly when an agent took the task.
\<close>

theorem dispatch_accounting:
  assumes "dispatch_task e t \<sigma> = (r, \<sigma>')"
  shows "total_dispatched (orch_stats \<sigma>') = Suc (total_dispatched (orch_stats \<sigma>)) \<and>
    outcome_count (orch_stats \<sigma>') = outcome_count (orch_stats \<sigma>) + (if uncounted e t \<sigma> then 0 else 1) \<and>
    results \<sigma>' = (if isl (fst (dispatch_begin (before e) t \<sigma>)) then results \<sigma>
      else dq_append ORCHESTRATOR_HISTORY_LIMIT (results \<sigma>) r)"
proof -
  obtain b \<sigma>1 where b: "dispatch_begin (before e) t \<sigma> = (b, \<sigma>1)" by fastforce
  note begin_counts [OF b]
  then show ?thesis
  proof (cases b)
    case (Inl r')
    then show ?thesis using assms b begin_counts [OF b] by (auto simp: dispatch_task_def uncounted_def)
  next
    case (Inr i)
    then have "\<not> closed \<sigma>" using b begin_accepted by metis
    then show ?thesis using assms b Inr begin_counts [OF b]
      by (auto simp: dispatch_task_def uncounted_def dest!: finish_declared_counts finish_in_process_counts split: if_splits)
  qed
qed

definition demo_env :: "nat dispatch_env" where
  "demo_env = \<lparr>before = (\<lambda>_. \<lparr>alive = (\<lambda>_. False), worker_pending = False\<rparr>),
     after = (\<lambda>_. \<lparr>alive = (\<lambda>_. False), worker_pending = False\<rparr>),
     handler_does = (\<lambda>_. ThreadReturned (PlainOutput 7)), worker_says = (\<lambda>_. Answered None),
     decode_result = (\<lambda>_. Inl [])\<rparr>"

definition demo_orch :: "nat orch" where
  "demo_orch = register_agent (before demo_env) (u ''a'') False [] new_orch"

lemma dispatch_accounting_witness:
  "outcome_count (orch_stats (snd (dispatch_task demo_env demo_task demo_orch))) = 1"
proof -
  obtain r \<sigma> where d: "dispatch_task demo_env demo_task demo_orch = (r, \<sigma>)" by fastforce
  have "outcome_count (orch_stats demo_orch) = 0" "\<not> uncounted demo_env demo_task demo_orch" by code_simp+
  with dispatch_accounting [OF d] d show ?thesis by simp
qed

definition attempt_made :: "(nat \<Rightarrow> 'v dispatch_env) \<Rightarrow> task \<Rightarrow> 'v agent_result \<Rightarrow> bool" where
  "attempt_made es t r \<longleftrightarrow> (\<exists>k \<sigma>. r = fst (dispatch_task (es k) t \<sigma>))"

lemma kept_stats [simp]:
  "orch_stats (reset_named w n \<sigma>) = orch_stats \<sigma>"
  "orch_stats (snd (pending_named w n \<sigma>)) = orch_stats \<sigma>"
  by (simp_all add: reset_named_def pending_named_def split: option.split prod.split)

lemma give_up_kept [simp]:
  "total_dispatched (orch_stats (snd (give_up m d r \<sigma>))) = total_dispatched (orch_stats \<sigma>)"
  "fst (give_up m d r \<sigma>) = (if d then r else r\<lparr>res_status := ''failed'',
     res_error := res_error r @ u '' [after '' @ dec_int m @ u '' retries]''\<rparr>)"
  by (simp_all add: give_up_def Let_def)

lemma add_retries_kept [simp]: "total_dispatched (orch_stats (add_retries k \<sigma>)) = total_dispatched (orch_stats \<sigma>)"
  by (simp add: add_retries_def)

lemma dispatch_once [simp]:
  "total_dispatched (orch_stats (snd (dispatch_task e t \<sigma>))) = Suc (total_dispatched (orch_stats \<sigma>))"
  using dispatch_accounting [of e t \<sigma>] by (cases "dispatch_task e t \<sigma>") simp

lemma retry_loop_cases:
  "retry_loop es t m n (Suc k) \<sigma> =
     (let e = es n;
          \<sigma>1 = (if n > 0 then reset_named (before e) (task_agent t) \<sigma> else \<sigma>);
          dec = assigned_declared e t \<sigma>1;
          r = fst (dispatch_task e t \<sigma>1); \<sigma>2 = snd (dispatch_task e t \<sigma>1);
          pending = fst (pending_named (after e) (task_agent t) \<sigma>2);
          \<sigma>3 = snd (pending_named (after e) (task_agent t) \<sigma>2) in
      if res_status r = ''success'' then (Some r, add_retries n \<sigma>2)
      else if res_status r = ''busy'' \<or> res_status r = ''timeout''
      then (if pending then (Some r, \<sigma>3)
            else if k > 0 then retry_loop es t m (n + 1) k \<sigma>3
            else (Some (fst (give_up m dec r \<sigma>3)), snd (give_up m dec r \<sigma>3)))
      else (Some (fst (give_up m dec r \<sigma>2)), snd (give_up m dec r \<sigma>2)))"
  by (simp add: Let_def case_prod_unfold map_prod_def)

lemma retry_loop_bounds:
  "retry_loop es t m n k \<sigma> = (ro, \<sigma>') \<Longrightarrow> (ro = None \<longleftrightarrow> k = 0)
     \<and> total_dispatched (orch_stats \<sigma>') \<le> total_dispatched (orch_stats \<sigma>) + k
     \<and> (k > 0 \<longrightarrow> total_dispatched (orch_stats \<sigma>') > total_dispatched (orch_stats \<sigma>))
     \<and> (\<forall>r. ro = Some r \<longrightarrow> attempt_made es t r \<or> res_status r = ''failed'')"
proof (induction k arbitrary: n \<sigma> ro \<sigma>')
  case (Suc k)
  define \<sigma>1 where "\<sigma>1 = (if n > 0 then reset_named (before (es n)) (task_agent t) \<sigma> else \<sigma>)"
  have count: "total_dispatched (orch_stats \<sigma>1) = total_dispatched (orch_stats \<sigma>)" by (simp add: \<sigma>1_def)
  have made: "attempt_made es t (fst (dispatch_task (es n) t \<sigma>1))" unfolding attempt_made_def by blast
  let ?\<sigma>3 = "snd (pending_named (after (es n)) (task_agent t) (snd (dispatch_task (es n) t \<sigma>1)))"
  have three: "total_dispatched (orch_stats ?\<sigma>3) = Suc (total_dispatched (orch_stats \<sigma>))" using count by simp
  show ?case
  proof (cases "retry_loop es t m (n + 1) k ?\<sigma>3 = (ro, \<sigma>') \<and> k > 0")
    case True
    with Suc.IH [of "n + 1" ?\<sigma>3 ro \<sigma>'] three show ?thesis by auto
  next
    case False
    with Suc.prems made count show ?thesis
      unfolding retry_loop_cases Let_def \<sigma>1_def [symmetric]
      by (auto split: if_splits)
  qed
qed simp

text \<open>
  Retrying always ends within its attempts: no result only when no attempt was allowed;
  otherwise at least one and at most one more than \<open>max_retries\<close> dispatches were made, and the
  result is the one of some attempt or is marked as failed.
\<close>

theorem retry_bounded:
  assumes "dispatch_with_retry es t m \<sigma> = (ro, \<sigma>')"
  shows "(ro = None \<longleftrightarrow> m < 0) \<and>
    total_dispatched (orch_stats \<sigma>') \<le> total_dispatched (orch_stats \<sigma>) + nat (m + 1) \<and>
    (0 \<le> m \<longrightarrow> total_dispatched (orch_stats \<sigma>') > total_dispatched (orch_stats \<sigma>)) \<and>
    (\<forall>r. ro = Some r \<longrightarrow> attempt_made es t r \<or> res_status r = ''failed'')"
  using retry_loop_bounds [OF assms [unfolded dispatch_with_retry_def]] by auto

lemma retry_bounded_witness:
  "total_dispatched (orch_stats (snd (dispatch_with_retry (\<lambda>_. demo_env) demo_task 2 demo_orch))) \<in> {1, 2, 3}"
proof -
  obtain ro \<sigma> where d: "dispatch_with_retry (\<lambda>_. demo_env) demo_task 2 demo_orch = (ro, \<sigma>)" by fastforce
  have "total_dispatched (orch_stats demo_orch) = 0" by code_simp
  with retry_bounded [OF d] d show ?thesis by auto
qed

end
