(* ===== verification/Run_State.thy ===== *)
theory Run_State
  imports Worker_Protocol
begin

text \<open>
  The durable state of a run, \<open>src/core/contracts/run_state.py\<close>: stages, work packages and the
  run itself with their validation, the revision that every change raises by one, and the
  dictionary form. The ISO parser and \<open>str.casefold\<close> are parameters.
\<close>

section \<open>Values\<close>

datatype run_status = RunPlanning | RunRunning | RunVerifying | RunBlocked | RunCompleted | RunUnknown
  | RunPartial

definition run_status_value :: "run_status \<Rightarrow> string" where
  "run_status_value s = (case s of RunPlanning \<Rightarrow> ''planning'' | RunRunning \<Rightarrow> ''running''
     | RunVerifying \<Rightarrow> ''verifying'' | RunBlocked \<Rightarrow> ''blocked'' | RunCompleted \<Rightarrow> ''completed''
     | RunUnknown \<Rightarrow> ''unknown'' | RunPartial \<Rightarrow> ''partial'')"

definition run_statuses :: "run_status list" where
  "run_statuses = [RunPlanning, RunRunning, RunVerifying, RunBlocked, RunCompleted, RunUnknown, RunPartial]"

datatype context_level = Green | Amber | Orange | Red

definition level_value :: "context_level \<Rightarrow> string" where
  "level_value l = (case l of Green \<Rightarrow> ''green'' | Amber \<Rightarrow> ''amber'' | Orange \<Rightarrow> ''orange'' | Red \<Rightarrow> ''red'')"

definition context_levels :: "context_level list" where
  "context_levels = [Green, Amber, Orange, Red]"

datatype run_error =
    RunInvalid string | RunNotObject string | RunBadFields string | RunNotArray string
  | RunUnsupported string | RevisionRegress | GenericAction | DuplicateIds string | ManagedFields

section \<open>Validators\<close>

definition nonblank :: "pystr \<Rightarrow> bool" where
  "nonblank s \<longleftrightarrow> py_strip s \<noteq> []"

definition non_empty :: "pyval \<Rightarrow> string \<Rightarrow> run_error + pystr" where
  "non_empty v f = (case v of
       PStr s \<Rightarrow> if nonblank s then Inr s else Inl (RunInvalid f)
     | _ \<Rightarrow> Inl (RunInvalid f))"

definition string_tuple :: "pyval \<Rightarrow> string \<Rightarrow> run_error + pystr list" where
  "string_tuple v f = bindr (need (as_tuple v) (RunInvalid f)) (mapr (\<lambda>x. non_empty x f))"

text \<open>\<open>" ".join(s.split())\<close>: the words of a string, joined by single spaces.\<close>

fun words_from :: "pystr \<Rightarrow> pystr \<Rightarrow> pystr list" where
  "words_from w [] = (if w = [] then [] else [w])"
| "words_from w (c # cs) = (if py_isspace c
     then (if w = [] then words_from [] cs else w # words_from [] cs)
     else words_from (w @ [c]) cs)"

fun join_space :: "pystr list \<Rightarrow> pystr" where
  "join_space [] = []"
| "join_space [w] = w"
| "join_space (w # ws) = w @ 32 # join_space ws"

definition GENERIC_ACTIONS :: "pystr list" where
  "GENERIC_ACTIONS = [u ''continue'', u ''continue development'', [32487, 32493], [32487, 32493, 24320, 21457]]"

definition is_generic :: "(pystr \<Rightarrow> pystr) \<Rightarrow> pystr \<Rightarrow> bool" where
  "is_generic casefold s \<longleftrightarrow> casefold (join_space (words_from [] s)) \<in> set GENERIC_ACTIONS"

definition validate_next_action :: "(pystr \<Rightarrow> pystr) \<Rightarrow> pyval \<Rightarrow> run_error + pystr" where
  "validate_next_action casefold v =
     bindr (non_empty v ''next_action'') (\<lambda>s.
     bindr (ensure (\<not> is_generic casefold s) GenericAction) (\<lambda>_. Inr s))"

definition expect_exact_fields :: "pyval \<Rightarrow> string list \<Rightarrow> string \<Rightarrow> run_error + (pyval \<times> pyval) list" where
  "expect_exact_fields v expected f =
     bindr (need (as_mapping v) (RunNotObject f)) (\<lambda>d.
     bindr (ensure (fst ` set d = set (map (\<lambda>k. PStr (u k)) expected)) (RunBadFields f)) (\<lambda>_. Inr d))"

text \<open>\<open>_json_array\<close> turns a list into a tuple.\<close>

definition json_array :: "pyval \<Rightarrow> string \<Rightarrow> run_error + pyval list" where
  "json_array v f = need (as_list v) (RunNotArray f)"

text \<open>A field that may be \<open>None\<close>.\<close>

definition optional :: "(pyval \<Rightarrow> run_error + 'a) \<Rightarrow> pyval \<Rightarrow> run_error + 'a option" where
  "optional check v = (if v = PNone then Inr None else bindr (check v) (\<lambda>x. Inr (Some x)))"

section \<open>Stages and work packages\<close>

record stage_state =
  stage_id :: pystr
  stage_objective :: pystr
  stage_status :: run_status
  acceptance_criteria :: "pystr list"
  completed_packages :: "pystr list"

definition StageState :: "pyval \<Rightarrow> pyval \<Rightarrow> run_status option \<Rightarrow> pyval \<Rightarrow> pyval \<Rightarrow> run_error + stage_state" where
  "StageState sid obj st crit donep =
     bindr (non_empty sid ''stage_id'') (\<lambda>i.
     bindr (non_empty obj ''objective'') (\<lambda>ob.
     bindr (need st (RunInvalid ''status'')) (\<lambda>s.
     bindr (string_tuple crit ''acceptance_criteria'') (\<lambda>a.
     bindr (string_tuple donep ''completed_work_packages'') (\<lambda>c.
       Inr \<lparr>stage_id = i, stage_objective = ob, stage_status = s, acceptance_criteria = a,
            completed_packages = c\<rparr>)))))"

record package_state =
  package_id :: pystr
  package_objective :: pystr
  package_status :: run_status
  allowed_paths :: "pystr list"
  forbidden_paths :: "pystr list"
  dependencies :: "pystr list"
  acceptance_commands :: "pystr list"
  handoff_path :: "pystr option"
  package_next :: "pystr option"

definition WorkPackageState :: "(pystr \<Rightarrow> pystr) \<Rightarrow> pyval \<Rightarrow> pyval \<Rightarrow> run_status option \<Rightarrow> pyval \<Rightarrow> pyval
    \<Rightarrow> pyval \<Rightarrow> pyval \<Rightarrow> pyval \<Rightarrow> pyval \<Rightarrow> run_error + package_state" where
  "WorkPackageState casefold pid obj st al fo dep com hand nxt =
     bindr (non_empty pid ''work_package_id'') (\<lambda>i.
     bindr (non_empty obj ''objective'') (\<lambda>ob.
     bindr (need st (RunInvalid ''status'')) (\<lambda>s.
     bindr (string_tuple al ''allowed_paths'') (\<lambda>a.
     bindr (string_tuple fo ''forbidden_paths'') (\<lambda>f.
     bindr (string_tuple dep ''dependencies'') (\<lambda>d.
     bindr (string_tuple com ''acceptance_commands'') (\<lambda>c.
     bindr (optional (\<lambda>v. non_empty v ''handoff_path'') hand) (\<lambda>h.
     bindr (optional (validate_next_action casefold) nxt) (\<lambda>n.
       Inr \<lparr>package_id = i, package_objective = ob, package_status = s, allowed_paths = a,
            forbidden_paths = f, dependencies = d, acceptance_commands = c, handoff_path = h,
            package_next = n\<rparr>)))))))))"

section \<open>Runs\<close>

record run_state =
  schema_version :: pyval
  run_id :: pystr
  revision :: int
  updated_at :: pystr
  goal :: pystr
  current_stage :: pystr
  run_status :: run_status
  base_commit :: pystr
  active_branch :: pystr
  context_level :: context_level
  next_action :: pystr
  next_command :: "pystr option"
  stages :: "stage_state list"
  work_packages :: "package_state list"

text \<open>
  The arguments of a constructor call. \<open>None\<close> for a status or level is a value that is not of the
  enum, for stages or packages one that is not a tuple of them.
\<close>

record raw_run =
  rw_schema :: pyval
  rw_run_id :: pyval
  rw_revision :: pyval
  rw_updated_at :: pyval
  rw_goal :: pyval
  rw_current_stage :: pyval
  rw_status :: "run_status option"
  rw_base_commit :: pyval
  rw_active_branch :: pyval
  rw_context_level :: "context_level option"
  rw_next_action :: pyval
  rw_next_command :: pyval
  rw_stages :: "stage_state list option"
  rw_packages :: "package_state list option"

text \<open>\<open>^run-[0-9]{8}-[0-9]{6}(?:-[a-z0-9]{4,12})?$\<close> and \<open>^[0-9a-f]{40}$\<close>, matched in full.\<close>

definition is_run_suffix :: "pystr \<Rightarrow> bool" where
  "is_run_suffix s \<longleftrightarrow> s = [] \<or> (hd s = 45 \<and> 4 \<le> length (tl s) \<and> length (tl s) \<le> 12
     \<and> (\<forall>c\<in>set (tl s). ascii_lower c \<or> ascii_digit c))"

definition is_run_id :: "pystr \<Rightarrow> bool" where
  "is_run_id s \<longleftrightarrow> 19 \<le> length s \<and> take 4 s = u ''run-'' \<and> (\<forall>c\<in>set (take 8 (drop 4 s)). ascii_digit c)
     \<and> s ! 12 = 45 \<and> (\<forall>c\<in>set (take 6 (drop 13 s)). ascii_digit c) \<and> is_run_suffix (drop 19 s)"

definition is_commit :: "pystr \<Rightarrow> bool" where
  "is_commit s \<longleftrightarrow> length s = 40 \<and> (\<forall>c\<in>set s. hex_lower c)"

definition check_str :: "(pystr \<Rightarrow> bool) \<Rightarrow> pyval \<Rightarrow> string \<Rightarrow> run_error + pystr" where
  "check_str p v f = (case v of PStr s \<Rightarrow> if p s then Inr s else Inl (RunInvalid f) | _ \<Rightarrow> Inl (RunInvalid f))"

definition check_revision :: "pyval \<Rightarrow> int \<Rightarrow> run_error + int" where
  "check_revision v least = (case v of
       PInt n \<Rightarrow> if n < 1 \<or> n < least then Inl RevisionRegress
                else if least < 1 then Inl (RunInvalid ''revision floor'') else Inr n
     | _ \<Rightarrow> Inl (RunInvalid ''revision''))"

definition has_timezone :: "(pystr \<Rightarrow> bool option) \<Rightarrow> pystr \<Rightarrow> bool" where
  "has_timezone parse_iso s \<longleftrightarrow> parse_iso (replace_Z s) = Some True"

definition RunState :: "(pystr \<Rightarrow> bool option) \<Rightarrow> (pystr \<Rightarrow> pystr) \<Rightarrow> int \<Rightarrow> raw_run \<Rightarrow> run_error + run_state" where
  "RunState parse_iso casefold least w =
     bindr (ensure (version_ok (rw_schema w)) (RunInvalid ''schema_version'')) (\<lambda>_.
     bindr (check_revision (rw_revision w) least) (\<lambda>rev.
     bindr (check_str is_run_id (rw_run_id w) ''run_id'') (\<lambda>rid.
     bindr (non_empty (rw_goal w) ''goal'') (\<lambda>g.
     bindr (non_empty (rw_current_stage w) ''current_stage'') (\<lambda>cs.
     bindr (check_str is_commit (rw_base_commit w) ''base_commit'') (\<lambda>bc.
     bindr (non_empty (rw_active_branch w) ''active_branch'') (\<lambda>br.
     bindr (need (rw_status w) (RunInvalid ''status'')) (\<lambda>st.
     bindr (need (rw_context_level w) (RunInvalid ''context_level'')) (\<lambda>cl.
     bindr (validate_next_action casefold (rw_next_action w)) (\<lambda>na.
     bindr (optional (\<lambda>v. non_empty v ''next_command'') (rw_next_command w)) (\<lambda>nc.
     bindr (need (rw_stages w) (RunInvalid ''stages'')) (\<lambda>ss.
     bindr (need (rw_packages w) (RunInvalid ''work_packages'')) (\<lambda>ps.
     bindr (ensure (distinct (map stage_id ss)) (DuplicateIds ''stage_id'')) (\<lambda>_.
     bindr (ensure (distinct (map package_id ps)) (DuplicateIds ''work_package_id'')) (\<lambda>_.
     bindr (check_str (has_timezone parse_iso) (rw_updated_at w) ''updated_at'') (\<lambda>up.
       Inr \<lparr>schema_version = rw_schema w, run_id = rid, revision = rev, updated_at = up, goal = g,
         current_stage = cs, run_status = st, base_commit = bc, active_branch = br, context_level = cl,
         next_action = na, next_command = nc, stages = ss, work_packages = ps\<rparr>))))))))))))))))"

definition raw_of_run :: "run_state \<Rightarrow> raw_run" where
  "raw_of_run r = \<lparr>rw_schema = schema_version r, rw_run_id = PStr (run_id r), rw_revision = PInt (revision r),
     rw_updated_at = PStr (updated_at r), rw_goal = PStr (goal r), rw_current_stage = PStr (current_stage r),
     rw_status = Some (run_status r), rw_base_commit = PStr (base_commit r),
     rw_active_branch = PStr (active_branch r), rw_context_level = Some (context_level r),
     rw_next_action = PStr (next_action r), rw_next_command = opt_value PStr (next_command r),
     rw_stages = Some (stages r), rw_packages = Some (work_packages r)\<rparr>"

text \<open>\<open>RunState.new\<close>: version, revision and time are set by the constructor.\<close>

definition new_run :: "(pystr \<Rightarrow> bool option) \<Rightarrow> (pystr \<Rightarrow> pystr) \<Rightarrow> pystr \<Rightarrow> raw_run \<Rightarrow> run_error + run_state" where
  "new_run parse_iso casefold now w = RunState parse_iso casefold 1
     (w\<lparr>rw_schema := PInt 1, rw_revision := PInt 1, rw_updated_at := PStr now\<rparr>)"

definition evolve_run :: "(pystr \<Rightarrow> bool option) \<Rightarrow> (pystr \<Rightarrow> pystr) \<Rightarrow> pystr \<Rightarrow> (raw_run \<Rightarrow> raw_run) \<Rightarrow> bool
    \<Rightarrow> run_state \<Rightarrow> run_error + run_state" where
  "evolve_run parse_iso casefold now changes touches_managed r =
     (if touches_managed then Inl ManagedFields
      else RunState parse_iso casefold (revision r + 1)
        ((changes (raw_of_run r))\<lparr>rw_schema := schema_version r, rw_revision := PInt (revision r + 1),
           rw_updated_at := PStr now\<rparr>))"

section \<open>Dictionary form\<close>

definition strs :: "pystr list \<Rightarrow> pyval" where
  "strs xs = PList (map PStr xs)"

definition stage_to_dict :: "stage_state \<Rightarrow> pyval" where
  "stage_to_dict s = PDict [
     (PStr (u ''stage_id''), PStr (stage_id s)),
     (PStr (u ''objective''), PStr (stage_objective s)),
     (PStr (u ''status''), PStr (u (run_status_value (stage_status s)))),
     (PStr (u ''acceptance_criteria''), strs (acceptance_criteria s)),
     (PStr (u ''completed_work_packages''), strs (completed_packages s))]"

definition package_to_dict :: "package_state \<Rightarrow> pyval" where
  "package_to_dict p = PDict [
     (PStr (u ''work_package_id''), PStr (package_id p)),
     (PStr (u ''objective''), PStr (package_objective p)),
     (PStr (u ''status''), PStr (u (run_status_value (package_status p)))),
     (PStr (u ''allowed_paths''), strs (allowed_paths p)),
     (PStr (u ''forbidden_paths''), strs (forbidden_paths p)),
     (PStr (u ''dependencies''), strs (dependencies p)),
     (PStr (u ''acceptance_commands''), strs (acceptance_commands p)),
     (PStr (u ''handoff_path''), opt_value PStr (handoff_path p)),
     (PStr (u ''next_action''), opt_value PStr (package_next p))]"

definition run_to_dict :: "run_state \<Rightarrow> pyval" where
  "run_to_dict r = PDict [
     (PStr (u ''schema_version''), schema_version r),
     (PStr (u ''run_id''), PStr (run_id r)),
     (PStr (u ''revision''), PInt (revision r)),
     (PStr (u ''updated_at''), PStr (updated_at r)),
     (PStr (u ''goal''), PStr (goal r)),
     (PStr (u ''current_stage''), PStr (current_stage r)),
     (PStr (u ''status''), PStr (u (run_status_value (run_status r)))),
     (PStr (u ''base_commit''), PStr (base_commit r)),
     (PStr (u ''active_branch''), PStr (active_branch r)),
     (PStr (u ''context_level''), PStr (u (level_value (context_level r)))),
     (PStr (u ''next_action''), PStr (next_action r)),
     (PStr (u ''next_command''), opt_value PStr (next_command r)),
     (PStr (u ''stages''), PList (map stage_to_dict (stages r))),
     (PStr (u ''work_packages''), PList (map package_to_dict (work_packages r)))]"

definition stage_fields :: "string list" where
  "stage_fields = [''stage_id'', ''objective'', ''status'', ''acceptance_criteria'', ''completed_work_packages'']"

definition package_fields :: "string list" where
  "package_fields = [''work_package_id'', ''objective'', ''status'', ''allowed_paths'', ''forbidden_paths'',
     ''dependencies'', ''acceptance_commands'', ''handoff_path'', ''next_action'']"

definition run_fields :: "string list" where
  "run_fields = [''schema_version'', ''run_id'', ''revision'', ''updated_at'', ''goal'', ''current_stage'',
     ''status'', ''base_commit'', ''active_branch'', ''context_level'', ''next_action'', ''next_command'',
     ''stages'', ''work_packages'']"

definition array_item :: "(pyval \<times> pyval) list \<Rightarrow> string \<Rightarrow> run_error + pyval" where
  "array_item d k = bindr (json_array (item_of d k) k) (\<lambda>xs. Inr (PTuple xs))"

definition stage_from_dict :: "pyval \<Rightarrow> run_error + stage_state" where
  "stage_from_dict v =
     bindr (expect_exact_fields v stage_fields ''stages'') (\<lambda>d.
     bindr (need (enum_of run_status_value run_statuses (item_of d ''status'')) (RunUnsupported ''status'')) (\<lambda>st.
     bindr (array_item d ''acceptance_criteria'') (\<lambda>a.
     bindr (array_item d ''completed_work_packages'') (\<lambda>c.
       StageState (item_of d ''stage_id'') (item_of d ''objective'') (Some st) a c))))"

definition package_from_dict :: "(pystr \<Rightarrow> pystr) \<Rightarrow> pyval \<Rightarrow> run_error + package_state" where
  "package_from_dict casefold v =
     bindr (expect_exact_fields v package_fields ''work_packages'') (\<lambda>d.
     bindr (need (enum_of run_status_value run_statuses (item_of d ''status'')) (RunUnsupported ''status'')) (\<lambda>st.
     bindr (array_item d ''allowed_paths'') (\<lambda>al.
     bindr (array_item d ''forbidden_paths'') (\<lambda>fo.
     bindr (array_item d ''dependencies'') (\<lambda>dep.
     bindr (array_item d ''acceptance_commands'') (\<lambda>com.
       WorkPackageState casefold (item_of d ''work_package_id'') (item_of d ''objective'') (Some st)
         al fo dep com (item_of d ''handoff_path'') (item_of d ''next_action'')))))))"

definition floor_of :: "pyval \<Rightarrow> int" where
  "floor_of v = (case v of PInt n \<Rightarrow> n | _ \<Rightarrow> 1)"

definition run_from_dict :: "(pystr \<Rightarrow> bool option) \<Rightarrow> (pystr \<Rightarrow> pystr) \<Rightarrow> pyval \<Rightarrow> run_error + run_state" where
  "run_from_dict parse_iso casefold v =
     bindr (expect_exact_fields v run_fields ''run state'') (\<lambda>d.
     bindr (bindr (json_array (item_of d ''stages'') ''stages'') (mapr stage_from_dict)) (\<lambda>ss.
     bindr (bindr (json_array (item_of d ''work_packages'') ''work_packages'') (mapr (package_from_dict casefold))) (\<lambda>ps.
     bindr (need (enum_of run_status_value run_statuses (item_of d ''status'')) (RunUnsupported ''enum'')) (\<lambda>st.
     bindr (need (enum_of level_value context_levels (item_of d ''context_level'')) (RunUnsupported ''enum'')) (\<lambda>cl.
       RunState parse_iso casefold (floor_of (item_of d ''revision''))
         \<lparr>rw_schema = item_of d ''schema_version'', rw_run_id = item_of d ''run_id'',
          rw_revision = item_of d ''revision'', rw_updated_at = item_of d ''updated_at'',
          rw_goal = item_of d ''goal'', rw_current_stage = item_of d ''current_stage'',
          rw_status = Some st, rw_base_commit = item_of d ''base_commit'',
          rw_active_branch = item_of d ''active_branch'', rw_context_level = Some cl,
          rw_next_action = item_of d ''next_action'', rw_next_command = item_of d ''next_command'',
          rw_stages = Some ss, rw_packages = Some ps\<rparr>)))))"

section \<open>Valid values\<close>

lemma enum_run_status [simp]: "enum_of run_status_value run_statuses (PStr (u (run_status_value s))) = Some s"
  by (cases s) (simp_all add: enum_of_def run_status_value_def run_statuses_def)

lemma enum_level [simp]: "enum_of level_value context_levels (PStr (u (level_value l))) = Some l"
  by (cases l) (simp_all add: enum_of_def level_value_def context_levels_def)

lemma non_empty_Inr [result_simps]: "non_empty v f = Inr s \<longleftrightarrow> v = PStr s \<and> nonblank s"
  by (cases v) (auto simp: non_empty_def)

lemma check_str_Inr [result_simps]: "check_str p v f = Inr s \<longleftrightarrow> v = PStr s \<and> p s"
  by (cases v) (auto simp: check_str_def)

lemma string_tuple_Inr [result_simps]:
  "string_tuple v f = Inr xs \<longleftrightarrow> v = PTuple (map PStr xs) \<and> (\<forall>x\<in>set xs. nonblank x)"
proof -
  have "list_all2 (\<lambda>x y. non_empty x f = Inr y) vs xs \<longleftrightarrow> vs = map PStr xs \<and> (\<forall>x\<in>set xs. nonblank x)" for vs
    by (induction vs arbitrary: xs) (auto simp: non_empty_Inr list_all2_Cons1 Cons_eq_map_conv)
  then show ?thesis by (auto simp: string_tuple_def result_simps)
qed

lemma json_array_Inr [result_simps]: "json_array v f = Inr xs \<longleftrightarrow> v = PList xs"
  by (simp add: json_array_def result_simps)

lemma validate_next_action_Inr [result_simps]:
  "validate_next_action casefold v = Inr s \<longleftrightarrow> v = PStr s \<and> nonblank s \<and> \<not> is_generic casefold s"
  by (auto simp: validate_next_action_def result_simps)

lemma optional_Inr:
  "(\<And>w s. check w = Inr s \<longleftrightarrow> w = PStr s \<and> p s) \<Longrightarrow>
     optional check v = Inr x \<longleftrightarrow> v = opt_value PStr x \<and> none_or p x"
  by (cases x) (auto simp: optional_def bindr_Inr_iff)

lemma optional_text_Inr [result_simps]:
  "optional (\<lambda>v. non_empty v f) v = Inr x \<longleftrightarrow> v = opt_value PStr x \<and> none_or nonblank x"
  by (rule optional_Inr) (rule non_empty_Inr)

lemma optional_action_Inr [result_simps]:
  "optional (validate_next_action casefold) v = Inr x \<longleftrightarrow>
     v = opt_value PStr x \<and> none_or (\<lambda>s. nonblank s \<and> \<not> is_generic casefold s) x"
  by (rule optional_Inr) (rule validate_next_action_Inr)

lemma check_revision_Inr [result_simps]:
  "check_revision v least = Inr n \<longleftrightarrow> v = PInt n \<and> 1 \<le> least \<and> least \<le> n"
  by (cases v) (auto simp: check_revision_def)

lemma expect_exact_fields_Inr [result_simps]:
  "expect_exact_fields v ks f = Inr d \<longleftrightarrow> v = PDict d \<and> fst ` set d = set (map (\<lambda>k. PStr (u k)) ks)"
  by (auto simp: expect_exact_fields_def result_simps)

definition valid_stage :: "stage_state \<Rightarrow> bool" where
  "valid_stage s \<longleftrightarrow> nonblank (stage_id s) \<and> nonblank (stage_objective s)
     \<and> (\<forall>x\<in>set (acceptance_criteria s). nonblank x) \<and> (\<forall>x\<in>set (completed_packages s). nonblank x)"

definition valid_package :: "(pystr \<Rightarrow> pystr) \<Rightarrow> package_state \<Rightarrow> bool" where
  "valid_package casefold p \<longleftrightarrow> nonblank (package_id p) \<and> nonblank (package_objective p)
     \<and> (\<forall>x\<in>set (allowed_paths p). nonblank x) \<and> (\<forall>x\<in>set (forbidden_paths p). nonblank x)
     \<and> (\<forall>x\<in>set (dependencies p). nonblank x) \<and> (\<forall>x\<in>set (acceptance_commands p). nonblank x)
     \<and> none_or nonblank (handoff_path p)
     \<and> none_or (\<lambda>s. nonblank s \<and> \<not> is_generic casefold s) (package_next p)"

definition valid_run :: "(pystr \<Rightarrow> bool option) \<Rightarrow> (pystr \<Rightarrow> pystr) \<Rightarrow> run_state \<Rightarrow> bool" where
  "valid_run parse_iso casefold r \<longleftrightarrow> version_ok (schema_version r) \<and> 1 \<le> revision r \<and> is_run_id (run_id r)
     \<and> nonblank (goal r) \<and> nonblank (current_stage r) \<and> is_commit (base_commit r) \<and> nonblank (active_branch r)
     \<and> nonblank (next_action r) \<and> \<not> is_generic casefold (next_action r) \<and> none_or nonblank (next_command r)
     \<and> distinct (map stage_id (stages r)) \<and> distinct (map package_id (work_packages r))
     \<and> has_timezone parse_iso (updated_at r)"

lemma StageState_Inr:
  "StageState sid obj st crit donep = Inr s \<longleftrightarrow> valid_stage s \<and> sid = PStr (stage_id s)
     \<and> obj = PStr (stage_objective s) \<and> st = Some (stage_status s)
     \<and> crit = PTuple (map PStr (acceptance_criteria s)) \<and> donep = PTuple (map PStr (completed_packages s))"
  unfolding StageState_def by (cases s) (auto simp: result_simps valid_stage_def)

lemma WorkPackageState_Inr:
  "WorkPackageState casefold pid obj st al fo dep com hand nxt = Inr p \<longleftrightarrow> valid_package casefold p
     \<and> pid = PStr (package_id p) \<and> obj = PStr (package_objective p) \<and> st = Some (package_status p)
     \<and> al = PTuple (map PStr (allowed_paths p)) \<and> fo = PTuple (map PStr (forbidden_paths p))
     \<and> dep = PTuple (map PStr (dependencies p)) \<and> com = PTuple (map PStr (acceptance_commands p))
     \<and> hand = opt_value PStr (handoff_path p) \<and> nxt = opt_value PStr (package_next p)"
  unfolding WorkPackageState_def by (cases p) (auto simp: result_simps valid_package_def)

lemma RunState_Inr:
  "RunState parse_iso casefold least w = Inr r \<longleftrightarrow>
     valid_run parse_iso casefold r \<and> 1 \<le> least \<and> least \<le> revision r \<and> w = raw_of_run r"
  unfolding RunState_def by (cases w; cases r) (auto simp: result_simps valid_run_def raw_of_run_def)


text \<open>A run whose stages and packages came from their constructors.\<close>

definition wf_run :: "(pystr \<Rightarrow> bool option) \<Rightarrow> (pystr \<Rightarrow> pystr) \<Rightarrow> run_state \<Rightarrow> bool" where
  "wf_run parse_iso casefold r \<longleftrightarrow> valid_run parse_iso casefold r
     \<and> (\<forall>s\<in>set (stages r). valid_stage s) \<and> (\<forall>p\<in>set (work_packages r). valid_package casefold p)"

interpretation stage_wire: wire_format stage_to_dict stage_from_dict valid_stage
proof
  fix s assume "valid_stage s"
  then show "stage_from_dict (stage_to_dict s) = Inr s"
    by (simp add: stage_from_dict_def result_simps StageState_Inr array_item_def)
       (simp add: stage_to_dict_def item_of_def stage_fields_def strs_def)
next
  fix v s assume "stage_from_dict v = Inr s"
  then show "valid_stage s" by (auto simp: stage_from_dict_def result_simps StageState_Inr)
qed

interpretation package_wire: wire_format package_to_dict "package_from_dict casefold" "valid_package casefold"
  for casefold
proof
  fix p assume "valid_package casefold p"
  then show "package_from_dict casefold (package_to_dict p) = Inr p"
    by (simp add: package_from_dict_def result_simps WorkPackageState_Inr array_item_def)
       (simp add: package_to_dict_def item_of_def package_fields_def strs_def)
next
  fix v p assume "package_from_dict casefold v = Inr p"
  then show "valid_package casefold p" by (auto simp: package_from_dict_def result_simps WorkPackageState_Inr)
qed

lemma mapr_valid:
  assumes "mapr f xs = Inr ys" and "\<And>x y. f x = Inr y \<Longrightarrow> P y"
  shows "\<forall>y\<in>set ys. P y"
  using assms(1) unfolding mapr_Inr
  by (induction rule: list_all2_induct) (auto intro: assms(2))

lemma run_decodes:
  assumes "wf_run parse_iso casefold r"
  shows "run_from_dict parse_iso casefold (run_to_dict r) = Inr r"
proof -
  have fields: "expect_exact_fields (run_to_dict r) run_fields ''run state'' = Inr (the (as_mapping (run_to_dict r)))"
    by (simp add: expect_exact_fields_Inr) (simp add: run_to_dict_def run_fields_def)
  have st: "mapr stage_from_dict (map stage_to_dict (stages r)) = Inr (stages r)"
    using assms by (intro stage_wire.decode_all) (simp add: wf_run_def)
  have pk: "mapr (package_from_dict casefold) (map package_to_dict (work_packages r)) = Inr (work_packages r)"
    using assms by (intro package_wire.decode_all) (simp add: wf_run_def)
  have items: "item_of (the (as_mapping (run_to_dict r))) ''stages'' = PList (map stage_to_dict (stages r))"
    "item_of (the (as_mapping (run_to_dict r))) ''work_packages'' = PList (map package_to_dict (work_packages r))"
    by (simp_all add: run_to_dict_def item_of_def)
  have "valid_run parse_iso casefold r" "1 \<le> revision r" using assms by (simp_all add: wf_run_def valid_run_def)
  then have "RunState parse_iso casefold (revision r) (raw_of_run r) = Inr r" by (simp add: RunState_Inr)
  then show ?thesis
    unfolding run_from_dict_def fields bindr.simps items json_array_def need_def as_list.simps option.case st pk
    by (simp add: run_to_dict_def item_of_def raw_of_run_def floor_of_def)
qed

interpretation run_wire: wire_format run_to_dict "run_from_dict parse_iso casefold" "wf_run parse_iso casefold"
  for parse_iso casefold
proof
  fix r assume "wf_run parse_iso casefold r"
  then show "run_from_dict parse_iso casefold (run_to_dict r) = Inr r" by (rule run_decodes)
next
  fix v r assume "run_from_dict parse_iso casefold v = Inr r"
  then obtain d ss ps where ss: "mapr stage_from_dict d = Inr ss" and "\<exists>e. mapr (package_from_dict casefold) e = Inr ps"
    and r: "valid_run parse_iso casefold r" "stages r = ss" "work_packages r = ps"
    unfolding run_from_dict_def by (auto simp: bindr_Inr_iff RunState_Inr raw_of_run_def)
  then obtain e where ps: "mapr (package_from_dict casefold) e = Inr ps" by blast
  show "wf_run parse_iso casefold r"
    using r mapr_valid [OF ss, of valid_stage] mapr_valid [OF ps, of "valid_package casefold"]
      stage_wire.decode_valid package_wire.decode_valid
    by (simp add: wf_run_def)
qed

section \<open>The life of a run\<close>

text \<open>A run: created once, then evolved; the changes hand over stages that exist, so valid ones.\<close>

definition good_changes :: "(pystr \<Rightarrow> pystr) \<Rightarrow> (raw_run \<Rightarrow> raw_run) \<Rightarrow> bool" where
  "good_changes casefold f \<longleftrightarrow> (\<forall>w.
     (\<forall>ss. rw_stages w = Some ss \<longrightarrow> (\<forall>s\<in>set ss. valid_stage s)) \<longrightarrow>
     (\<forall>ps. rw_packages w = Some ps \<longrightarrow> (\<forall>p\<in>set ps. valid_package casefold p)) \<longrightarrow>
     (\<forall>ss. rw_stages (f w) = Some ss \<longrightarrow> (\<forall>s\<in>set ss. valid_stage s)) \<and>
     (\<forall>ps. rw_packages (f w) = Some ps \<longrightarrow> (\<forall>p\<in>set ps. valid_package casefold p)))"

inductive run_history :: "(pystr \<Rightarrow> bool option) \<Rightarrow> (pystr \<Rightarrow> pystr) \<Rightarrow> run_state list \<Rightarrow> bool"
  for parse_iso casefold where
  history_new: "new_run parse_iso casefold now w = Inr r \<Longrightarrow>
     (\<forall>ss. rw_stages w = Some ss \<longrightarrow> (\<forall>s\<in>set ss. valid_stage s)) \<Longrightarrow>
     (\<forall>ps. rw_packages w = Some ps \<longrightarrow> (\<forall>p\<in>set ps. valid_package casefold p)) \<Longrightarrow>
     run_history parse_iso casefold [r]"
| history_evolve: "run_history parse_iso casefold (rs @ [r]) \<Longrightarrow> good_changes casefold changes \<Longrightarrow>
     evolve_run parse_iso casefold now changes touches r = Inr r' \<Longrightarrow>
     run_history parse_iso casefold (rs @ [r, r'])"
| history_reload: "run_history parse_iso casefold (rs @ [r]) \<Longrightarrow>
     run_from_dict parse_iso casefold (run_to_dict r) = Inr r' \<Longrightarrow>
     run_history parse_iso casefold (rs @ [r'])"

inductive_cases run_historyE: "run_history parse_iso casefold rs"

lemma raw_of_run_parts:
  "w\<lparr>rw_schema := a, rw_revision := b, rw_updated_at := c\<rparr> = raw_of_run r \<Longrightarrow>
     b = PInt (revision r) \<and> c = PStr (updated_at r) \<and> rw_stages w = Some (stages r)
     \<and> rw_packages w = Some (work_packages r)"
  by (cases w) (simp add: raw_of_run_def)

lemma new_run_wf:
  assumes "new_run parse_iso casefold now w = Inr r"
    and "\<forall>ss. rw_stages w = Some ss \<longrightarrow> (\<forall>s\<in>set ss. valid_stage s)"
    and "\<forall>ps. rw_packages w = Some ps \<longrightarrow> (\<forall>p\<in>set ps. valid_package casefold p)"
  shows "wf_run parse_iso casefold r \<and> revision r = 1 \<and> updated_at r = now"
  using assms by (auto simp: new_run_def RunState_Inr wf_run_def dest: raw_of_run_parts)

lemma evolve_run_wf:
  assumes "evolve_run parse_iso casefold now changes touches r = Inr r'"
    and "wf_run parse_iso casefold r" and "good_changes casefold changes"
  shows "wf_run parse_iso casefold r' \<and> revision r' = revision r + 1 \<and> updated_at r' = now"
proof -
  from assms(1) have run: "valid_run parse_iso casefold r'"
    and eq: "(changes (raw_of_run r))\<lparr>rw_schema := schema_version r, rw_revision := PInt (revision r + 1),
       rw_updated_at := PStr now\<rparr> = raw_of_run r'"
    by (auto simp: evolve_run_def RunState_Inr split: if_splits)
  note parts = raw_of_run_parts [OF eq]
  have "\<forall>ss. rw_stages (raw_of_run r) = Some ss \<longrightarrow> (\<forall>s\<in>set ss. valid_stage s)"
    "\<forall>ps. rw_packages (raw_of_run r) = Some ps \<longrightarrow> (\<forall>p\<in>set ps. valid_package casefold p)"
    using assms(2) by (simp_all add: raw_of_run_def wf_run_def)
  with assms(3) [unfolded good_changes_def, THEN spec, of "raw_of_run r"] parts
  have "(\<forall>s\<in>set (stages r'). valid_stage s) \<and> (\<forall>p\<in>set (work_packages r'). valid_package casefold p)"
    by simp
  with run parts show ?thesis by (simp add: wf_run_def)
qed

lemma run_history_props:
  "run_history parse_iso casefold rs \<Longrightarrow> rs \<noteq> [] \<and> (\<forall>r\<in>set rs. wf_run parse_iso casefold r)
     \<and> map revision rs = map int [1..<length rs + 1]"
proof (induction rule: run_history.induct)
  case (history_new now w r)
  then show ?case using new_run_wf by fastforce
next
  case (history_evolve rs r changes now touches r')
  then have "wf_run parse_iso casefold r" by simp
  note step = evolve_run_wf [OF history_evolve.hyps(3) this history_evolve.hyps(2)]
  have "last (map revision (rs @ [r])) = last (map int [1..<length (rs @ [r]) + 1])"
    using history_evolve.IH by (simp only:)
  then have "revision r = int (length rs + 1)" by simp
  then show ?case using history_evolve.IH step by auto
next
  case (history_reload rs r r')
  then have "r' = r" using run_wire.decode_encode by fastforce
  with history_reload.IH show ?case by simp
qed

section \<open>Properties\<close>

text \<open>
  C22: a run state survives its dictionary form exactly when it is well formed: decoding what
  was written gives the same run, with its stages and packages in order, and every decoded run
  is well formed.
\<close>

theorem run_state_roundtrip:
  "(wf_run parse_iso casefold r \<longleftrightarrow> run_from_dict parse_iso casefold (run_to_dict r) = Inr r) \<and>
   (run_from_dict parse_iso casefold v = Inr r \<longrightarrow> wf_run parse_iso casefold r)"
  using run_wire.valid_iff run_wire.decode_valid by blast

text \<open>
  C23: the revision counts the changes: along any history of creation, changes and reloads every
  state is well formed and the revisions are exactly 1, 2, 3, and so on, so no change is lost
  or repeated without showing in the revision.
\<close>

theorem revisions_count_changes:
  assumes "run_history parse_iso casefold rs"
  shows "(\<forall>r\<in>set rs. wf_run parse_iso casefold r) \<and> map revision rs = map int [1..<length rs + 1]"
  using run_history_props [OF assms] by blast

definition demo_raw :: raw_run where
  "demo_raw = \<lparr>rw_schema = PNone, rw_run_id = PStr (u ''run-20240101-120000''), rw_revision = PNone,
     rw_updated_at = PNone, rw_goal = PStr (u ''g''), rw_current_stage = PStr (u ''s''),
     rw_status = Some RunPlanning, rw_base_commit = PStr (replicate 40 48), rw_active_branch = PStr (u ''main''),
     rw_context_level = Some Green, rw_next_action = PStr (u ''write tests''), rw_next_command = PNone,
     rw_stages = Some [], rw_packages = Some []\<rparr>"

definition demo_run_state :: run_state where
  "demo_run_state = \<lparr>schema_version = PInt 1, run_id = u ''run-20240101-120000'', revision = 1,
     updated_at = u ''now'', goal = u ''g'', current_stage = u ''s'', run_status = RunPlanning,
     base_commit = replicate 40 48, active_branch = u ''main'', context_level = Green,
     next_action = u ''write tests'', next_command = None, stages = [], work_packages = []\<rparr>"

lemma demo_run_new: "new_run demo_iso (\<lambda>s. s) (u ''now'') demo_raw = Inr demo_run_state"
  by code_simp

lemma revisions_count_changes_witness: "wf_run demo_iso (\<lambda>s. s) demo_run_state"
proof -
  have "run_history demo_iso (\<lambda>s. s) [demo_run_state]"
    by (rule history_new [OF demo_run_new]) (simp_all add: demo_raw_def)
  from revisions_count_changes [OF this] show ?thesis by simp
qed

lemma run_state_roundtrip_witness:
  "run_from_dict demo_iso (\<lambda>s. s) (run_to_dict demo_run_state) = Inr demo_run_state"
proof -
  have "wf_run demo_iso (\<lambda>s. s) demo_run_state"
    using new_run_wf [OF demo_run_new] by (simp add: demo_raw_def)
  then show ?thesis using run_state_roundtrip [of demo_iso "\<lambda>s. s" demo_run_state PNone] by blast
qed

end
