(* ===== verification/Resume_Document.thy ===== *)
theory Resume_Document
  imports Run_State Json_Text Secret_Redaction
begin

text \<open>
  The resume document, \<open>src/core/brain/resume_document.py\<close>, and how it is read back,
  \<open>RunLifecycleCoordinator._sections_from_document\<close> of \<open>src/app/run_lifecycle.py\<close>: a header of
  fields, then headed lists of items.
\<close>

section \<open>Sections\<close>

record resume_sections =
  confirmed_decisions :: "pystr list"
  completed_work :: "pystr list"
  files_and_git_state :: "pystr list"
  verification_notes :: "pystr list"
  agent_state :: "pystr list"
  downloaded_resources :: "pystr list"
  risks :: "pystr list"
  do_not_repeat :: "pystr list"

definition empty_sections :: resume_sections where
  "empty_sections = \<lparr>confirmed_decisions = [], completed_work = [], files_and_git_state = [],
     verification_notes = [], agent_state = [], downloaded_resources = [], risks = [], do_not_repeat = []\<rparr>"

text \<open>The items of every section, in the order of the fields.\<close>

definition all_items :: "resume_sections \<Rightarrow> pystr list list" where
  "all_items x = [confirmed_decisions x, completed_work x, files_and_git_state x, verification_notes x,
     agent_state x, downloaded_resources x, risks x, do_not_repeat x]"

definition ResumeSections :: "resume_sections \<Rightarrow> run_error + resume_sections" where
  "ResumeSections x = bindr (ensure (\<forall>items\<in>set (all_items x). \<forall>i\<in>set items. nonblank i)
     (RunInvalid ''sections'')) (\<lambda>_. Inr x)"

section \<open>Rendering\<close>

text \<open>\<open>s.replace("\r\n", "\n").replace("\r", "\n")\<close>\<close>

fun unix_lines :: "pystr \<Rightarrow> pystr" where
  "unix_lines [] = []"
| "unix_lines [c] = [if c = 13 then 10 else c]"
| "unix_lines (c # d # cs) = (if c = 13 then 10 # unix_lines (if d = 10 then cs else d # cs)
     else c # unix_lines (d # cs))"

definition version_text :: "pyval \<Rightarrow> pystr" where
  "version_text v = (case v of PInt n \<Rightarrow> dec_int n | PBool b \<Rightarrow> u (if b then ''True'' else ''False'')
     | PFloat (Fin r t) \<Rightarrow> t | _ \<Rightarrow> [])"

definition header_value :: "redactor \<Rightarrow> pystr \<Rightarrow> pystr" where
  "header_value e s = join_with [32] (split_lines (redact_text e s))"

definition header_option :: "redactor \<Rightarrow> pystr option \<Rightarrow> pystr" where
  "header_option e v = (case v of None \<Rightarrow> [] | Some s \<Rightarrow> header_value e s)"

definition render_item :: "redactor \<Rightarrow> pystr \<Rightarrow> pystr list" where
  "render_item e item = (case split_at 10 (unix_lines (redact_text e item)) of
       [] \<Rightarrow> []
     | first # rest \<Rightarrow> (u ''- '' @ first) # map (\<lambda>line. u ''  '' @ line) rest)"

definition NONE_RECORDED :: pystr where
  "NONE_RECORDED = u ''None recorded.''"

definition render_items :: "redactor \<Rightarrow> pystr list \<Rightarrow> pystr list" where
  "render_items e items = (if items = [] then [u ''- '' @ NONE_RECORDED]
     else concat (map (render_item e) items))"

definition header_lines :: "redactor \<Rightarrow> run_state \<Rightarrow> pystr list" where
  "header_lines e r = [
     u ''schema_version: '' @ version_text (schema_version r),
     u ''run_id: '' @ header_value e (run_id r),
     u ''revision: '' @ dec_int (revision r),
     u ''updated_at: '' @ header_value e (updated_at r),
     u ''goal: '' @ header_value e (goal r),
     u ''current_stage: '' @ header_value e (current_stage r),
     u ''status: '' @ u (run_status_value (run_status r)),
     u ''base_commit: '' @ header_value e (base_commit r),
     u ''active_branch: '' @ header_value e (active_branch r),
     u ''context_level: '' @ u (level_value (context_level r)),
     u ''next_action: '' @ header_value e (next_action r),
     u ''next_command: '' @ header_option e (next_command r)]"

definition next_step_items :: "run_state \<Rightarrow> pystr list" where
  "next_step_items r = next_action r # (case next_command r of
       Some c \<Rightarrow> if c = [] then [] else [u ''Suggested command: '' @ c] | None \<Rightarrow> [])"

definition section_content :: "run_state \<Rightarrow> resume_sections \<Rightarrow> (string \<times> pystr list) list" where
  "section_content r x = [
     (''Current Goal'', [goal r]),
     (''Confirmed Decisions'', confirmed_decisions x),
     (''Completed Work'', completed_work x),
     (''Files and Git State'', files_and_git_state x),
     (''Verification'', verification_notes x),
     (''Agent State'', agent_state x),
     (''Downloaded Resources'', downloaded_resources x),
     (''Risks and Approvals'', risks x),
     (''Next Step'', next_step_items r),
     (''Do Not Repeat'', do_not_repeat x)]"

definition render_section :: "redactor \<Rightarrow> string \<times> pystr list \<Rightarrow> pystr list" where
  "render_section e s = [] # (u ''## '' @ u (fst s)) # render_items e (snd s)"

definition render_resume_document :: "redactor \<Rightarrow> run_state \<Rightarrow> resume_sections \<Rightarrow> pystr" where
  "render_resume_document e r x =
     join_with [10] (header_lines e r @ concat (map (render_section e) (section_content r x))) @ [10]"

section \<open>Reading a document back\<close>

datatype section_field = FDecisions | FWork | FFiles | FVerification | FAgent | FResources | FRisks | FRepeat

definition SECTION_FIELDS :: "(pystr \<times> section_field) list" where
  "SECTION_FIELDS = [(u ''Confirmed Decisions'', FDecisions), (u ''Completed Work'', FWork),
     (u ''Files and Git State'', FFiles), (u ''Verification'', FVerification), (u ''Agent State'', FAgent),
     (u ''Downloaded Resources'', FResources), (u ''Risks and Approvals'', FRisks),
     (u ''Do Not Repeat'', FRepeat)]"

text \<open>The loop of the reader: the field of the last heading and the items collected so far.\<close>

definition starts_with :: "string \<Rightarrow> pystr \<Rightarrow> bool" where
  "starts_with p s \<longleftrightarrow> take (length p) s = u p"

definition read_line :: "pystr \<Rightarrow> section_field option \<times> (section_field \<Rightarrow> pystr list)
    \<Rightarrow> section_field option \<times> (section_field \<Rightarrow> pystr list)" where
  "read_line line st = (case st of (heading, found) \<Rightarrow>
     if starts_with ''## '' line then (map_of SECTION_FIELDS (drop 3 line), found)
     else (case heading of
         None \<Rightarrow> (heading, found)
       | Some f \<Rightarrow> if \<not> starts_with ''- '' line then (heading, found)
           else if drop 2 line = NONE_RECORDED then (heading, found)
           else (heading, found(f := found f @ [drop 2 line]))))"

definition sections_from_document :: "pystr \<Rightarrow> run_error + resume_sections" where
  "sections_from_document document =
     (let found = snd (fold read_line (split_lines document) (None, \<lambda>_. [])) in
      ResumeSections \<lparr>confirmed_decisions = found FDecisions, completed_work = found FWork,
        files_and_git_state = found FFiles, verification_notes = found FVerification,
        agent_state = found FAgent, downloaded_resources = found FResources, risks = found FRisks,
        do_not_repeat = found FRepeat\<rparr>)"

section \<open>What a reader finds\<close>

lemma starts_with_append [simp]: "starts_with p (u p @ s)"
  by (simp add: starts_with_def)

lemma unix_lines_chars: "c \<in> set (unix_lines s) \<Longrightarrow> c \<noteq> 13 \<and> (c = 10 \<or> c \<in> set s)"
  by (induction s rule: unix_lines.induct) (auto split: if_splits)

lemma unix_lines_one: "one_line s \<Longrightarrow> unix_lines s = s"
  by (induction s rule: unix_lines.induct) (auto simp: line_boundary_def)

text \<open>A text whose lines end in the boundaries the renderer knows about.\<close>

definition unix_boundaries :: "redactor \<Rightarrow> pystr \<Rightarrow> bool" where
  "unix_boundaries e s \<longleftrightarrow> (\<forall>c\<in>set (redact_text e s). line_boundary c \<longrightarrow> c = 10 \<or> c = 13)"

lemma rendered_lines:
  assumes "unix_boundaries e s" and "l \<in> set (split_at 10 (unix_lines (redact_text e s)))"
  shows "one_line l"
  unfolding one_line_def
proof
  fix c assume "c \<in> set l"
  with split_at_parts [OF assms(2)] have "c \<in> set (unix_lines (redact_text e s))" "c \<noteq> 10" by auto
  with unix_lines_chars have "c \<noteq> 13" "c \<in> set (redact_text e s)" by blast+
  with \<open>c \<noteq> 10\<close> assms(1) show "\<not> line_boundary c" by (auto simp: unix_boundaries_def)
qed

definition first_line :: "redactor \<Rightarrow> pystr \<Rightarrow> pystr" where
  "first_line e i = hd (split_at 10 (unix_lines (redact_text e i)))"

definition kept :: "redactor \<Rightarrow> pystr list \<Rightarrow> pystr list" where
  "kept e items = filter (\<lambda>l. l \<noteq> NONE_RECORDED) (map (first_line e) items)"

lemma render_item_lines:
  obtains rest where "render_item e i = (u ''- '' @ first_line e i) # map (\<lambda>line. u ''  '' @ line) rest"
    and "set (first_line e i # rest) = set (split_at 10 (unix_lines (redact_text e i)))"
  by (cases "split_at 10 (unix_lines (redact_text e i))") (auto simp: render_item_def first_line_def)

lemma bullet_lines [simp]:
  "\<not> starts_with ''## '' (u ''- '' @ l)" "\<not> starts_with ''## '' (u ''  '' @ l)"
  "\<not> starts_with ''- '' (u ''  '' @ l)" "\<not> starts_with ''## '' []" "\<not> starts_with ''- '' []"
  "drop 2 (u ''- '' @ l) = l"
  by (simp_all add: starts_with_def u_def)

lemma read_skip: "\<not> starts_with ''## '' l \<Longrightarrow> read_line l (None, found) = (None, found)"
  by (simp add: read_line_def)

lemma read_skips:
  "\<forall>l\<in>set ls. \<not> starts_with ''## '' l \<Longrightarrow> fold read_line ls (None, found) = (None, found)"
  by (induction ls) (simp_all add: read_skip)

lemma read_blank [simp]: "read_line [] st = st"
  by (cases st) (simp add: read_line_def split: option.split)

lemma read_heading [simp]:
  "read_line (u ''## '' @ u h) st = (map_of SECTION_FIELDS (u h), snd st)"
  by (cases st) (simp add: read_line_def)

lemma read_continuation [simp]: "read_line (u ''  '' @ l) st = st"
  by (cases st) (simp add: read_line_def split: option.split)

lemma read_bullet [simp]:
  "read_line (u ''- '' @ l) (Some f, found) =
     (Some f, if l = NONE_RECORDED then found else found(f := found f @ [l]))"
  by (simp add: read_line_def)

lemma read_continuations: "fold read_line (map (\<lambda>line. u ''  '' @ line) ls) st = st"
  by (induction ls) simp_all

lemma read_item:
  "fold read_line (render_item e i) (Some f, found) = (Some f, found(f := found f @ kept e [i]))"
  by (rule render_item_lines [of e i]) (simp add: read_continuations kept_def)

lemma read_items:
  "fold read_line (render_items e items) (Some f, found) = (Some f, found(f := found f @ kept e items))"
proof (cases "items = []")
  case True
  then show ?thesis by (simp add: render_items_def kept_def)
next
  case False
  have "fold read_line (concat (map (render_item e) items)) (Some f, found) =
      (Some f, found(f := found f @ kept e items))" for found
    by (induction items arbitrary: found) (simp_all add: read_item, simp_all add: kept_def)
  with False show ?thesis by (simp add: render_items_def)
qed

lemma item_lines: "l \<in> set (render_items e items) \<Longrightarrow> \<exists>k. l = u ''- '' @ k \<or> l = u ''  '' @ k"
proof -
  have "l \<in> set (render_item e i) \<Longrightarrow> \<exists>k. l = u ''- '' @ k \<or> l = u ''  '' @ k" for i
    by (rule render_item_lines [of e i]) auto
  then show "l \<in> set (render_items e items) \<Longrightarrow> \<exists>k. l = u ''- '' @ k \<or> l = u ''  '' @ k"
    by (auto simp: render_items_def split: if_splits)
qed

lemma read_section:
  "fold read_line (render_section e (h, items)) st = (case map_of SECTION_FIELDS (u h) of
       None \<Rightarrow> (None, snd st)
     | Some f \<Rightarrow> (Some f, (snd st)(f := snd st f @ kept e items)))"
proof (cases "map_of SECTION_FIELDS (u h)")
  case None
  have "\<forall>l\<in>set (render_items e items). \<not> starts_with ''## '' l" using item_lines bullet_lines by blast
  with None show ?thesis by (simp add: render_section_def read_skips)
next
  case (Some f)
  then show ?thesis by (simp add: render_section_def read_items)
qed

section \<open>The lines of a document\<close>

lemma header_value_line: "one_line (header_value e s)"
  unfolding header_value_def by (rule join_one_line) (auto simp: split_lines_parts line_boundary_def)

lemma header_option_line: "one_line (header_option e v)"
  by (cases v) (simp_all add: header_option_def header_value_line)

lemma ascii_one_line: "\<forall>c\<in>set s. 32 \<le> c \<and> c < 128 \<Longrightarrow> one_line s"
  by (auto simp: one_line_def line_boundary_def)

lemma dec_int_one_line [simp]: "one_line (dec_int n)"
  by (rule ascii_one_line) (auto simp: dec_int_def dest: dec_nat_ascii)

definition version_line :: "run_state \<Rightarrow> bool" where
  "version_line r \<longleftrightarrow> one_line (version_text (schema_version r))"

lemma header_lines_one_line: "version_line r \<Longrightarrow> l \<in> set (header_lines e r) \<Longrightarrow> one_line l"
proof -
  have status: "one_line (u (run_status_value s))" for s by (cases s) (simp_all add: run_status_value_def u_def line_boundary_def)
  have level: "one_line (u (level_value v))" for v by (cases v) (simp_all add: level_value_def u_def line_boundary_def)
  show "version_line r \<Longrightarrow> l \<in> set (header_lines e r) \<Longrightarrow> one_line l"
    by (auto simp: header_lines_def version_line_def status level header_value_line header_option_line)
       (simp_all add: u_def line_boundary_def)
qed

lemma header_lines_no_heading: "l \<in> set (header_lines e r) \<Longrightarrow> \<not> starts_with ''## '' l"
  by (auto simp: header_lines_def starts_with_def u_def)

lemma render_items_one_line:
  assumes "\<forall>i\<in>set items. unix_boundaries e i" and "l \<in> set (render_items e items)"
  shows "one_line l"
proof -
  have item: "one_line l" if "unix_boundaries e i" "l \<in> set (render_item e i)" for i
  proof (rule render_item_lines [of e i])
    fix rest assume r: "render_item e i = (u ''- '' @ first_line e i) # map (\<lambda>line. u ''  '' @ line) rest"
      and "set (first_line e i # rest) = set (split_at 10 (unix_lines (redact_text e i)))"
    with rendered_lines [OF that(1)] have "\<forall>k\<in>set (first_line e i # rest). one_line k" by blast
    with that(2) r show ?thesis by (auto simp: u_def line_boundary_def)
  qed
  have "one_line (u ''- '' @ NONE_RECORDED)" by code_simp
  with item assms show ?thesis by (auto simp: render_items_def split: if_splits)
qed

definition readable_items :: "redactor \<Rightarrow> run_state \<Rightarrow> resume_sections \<Rightarrow> bool" where
  "readable_items e r x \<longleftrightarrow> version_line r
     \<and> (\<forall>i\<in>set (concat (map snd (section_content r x))). unix_boundaries e i)"

lemma document_lines:
  assumes "readable_items e r x"
  shows "split_lines (render_resume_document e r x) =
    header_lines e r @ concat (map (render_section e) (section_content r x))"
proof -
  let ?ls = "header_lines e r @ concat (map (render_section e) (section_content r x))"
  have "one_line l" if "l \<in> set ?ls" for l
  proof -
    have titles: "one_line (u ''## '' @ u h)" if "(h, items) \<in> set (section_content r x)" for h items
      using that by (auto simp: section_content_def u_def line_boundary_def)
    have items: "one_line k" if "(h, items) \<in> set (section_content r x)" "k \<in> set (render_items e items)"
      for h items k
      using that assms by (intro render_items_one_line [of items e]) (force simp: readable_items_def)+
    from that consider "l \<in> set (header_lines e r)"
      | h items where "(h, items) \<in> set (section_content r x)" "l \<in> set (render_section e (h, items))"
      by auto
    then show ?thesis
    proof cases
      case 1
      with assms show ?thesis by (auto simp: readable_items_def intro: header_lines_one_line)
    next
      case 2
      then show ?thesis using titles [OF 2(1)] items [OF 2(1), of l] by (auto simp: render_section_def)
    qed
  qed
  then have "split_lines (concat (map (\<lambda>l. l @ [10]) ?ls)) = ?ls" by (intro split_lines_joined ballI)
  moreover have "?ls \<noteq> []" by (simp add: header_lines_def)
  ultimately show ?thesis
    unfolding render_resume_document_def using join_lines [of ?ls] by simp
qed

definition kept_sections :: "redactor \<Rightarrow> resume_sections \<Rightarrow> resume_sections" where
  "kept_sections e x = \<lparr>confirmed_decisions = kept e (confirmed_decisions x),
     completed_work = kept e (completed_work x), files_and_git_state = kept e (files_and_git_state x),
     verification_notes = kept e (verification_notes x), agent_state = kept e (agent_state x),
     downloaded_resources = kept e (downloaded_resources x), risks = kept e (risks x),
     do_not_repeat = kept e (do_not_repeat x)\<rparr>"

definition read_whole :: "redactor \<Rightarrow> string \<times> pystr list \<Rightarrow> section_field option \<times> (section_field \<Rightarrow> pystr list)
    \<Rightarrow> section_field option \<times> (section_field \<Rightarrow> pystr list)" where
  "read_whole e s st = (case map_of SECTION_FIELDS (u (fst s)) of
       None \<Rightarrow> (None, snd st)
     | Some f \<Rightarrow> (Some f, (snd st)(f := snd st f @ kept e (snd s))))"

lemma read_section_whole: "fold read_line (render_section e s) st = read_whole e s st"
  by (cases s) (simp add: read_section read_whole_def split: option.split)

lemma read_whole_titled:
  "read_whole e (''Current Goal'', items) st = (None, snd st)"
  "read_whole e (''Next Step'', items) st = (None, snd st)"
  "read_whole e (''Confirmed Decisions'', items) st = (Some FDecisions, (snd st)(FDecisions := snd st FDecisions @ kept e items))"
  "read_whole e (''Completed Work'', items) st = (Some FWork, (snd st)(FWork := snd st FWork @ kept e items))"
  "read_whole e (''Files and Git State'', items) st = (Some FFiles, (snd st)(FFiles := snd st FFiles @ kept e items))"
  "read_whole e (''Verification'', items) st = (Some FVerification, (snd st)(FVerification := snd st FVerification @ kept e items))"
  "read_whole e (''Agent State'', items) st = (Some FAgent, (snd st)(FAgent := snd st FAgent @ kept e items))"
  "read_whole e (''Downloaded Resources'', items) st = (Some FResources, (snd st)(FResources := snd st FResources @ kept e items))"
  "read_whole e (''Risks and Approvals'', items) st = (Some FRisks, (snd st)(FRisks := snd st FRisks @ kept e items))"
  "read_whole e (''Do Not Repeat'', items) st = (Some FRepeat, (snd st)(FRepeat := snd st FRepeat @ kept e items))"
  by (simp_all add: read_whole_def SECTION_FIELDS_def)

lemma document_sections:
  assumes "readable_items e r x"
  shows "sections_from_document (render_resume_document e r x) = ResumeSections (kept_sections e x)"
proof -
  have "fold read_line (header_lines e r) (None, \<lambda>_. []) = (None, \<lambda>_. [])"
    by (rule read_skips) (auto dest: header_lines_no_heading)
  moreover have "fold read_line (concat (map (render_section e) ss)) st = fold (read_whole e) ss st" for ss st
    by (induction ss arbitrary: st) (simp_all add: read_section_whole)
  ultimately show ?thesis
    unfolding sections_from_document_def document_lines [OF assms] fold_append comp_def
    by (simp only: section_content_def fold_simps read_whole_titled)
      (simp add: kept_sections_def)
qed

text \<open>An item that comes back as it was written.\<close>

definition plain_item :: "redactor \<Rightarrow> pystr \<Rightarrow> bool" where
  "plain_item e i \<longleftrightarrow> nonblank i \<and> one_line i \<and> redact_text e i = i \<and> i \<noteq> NONE_RECORDED"

lemma plain_first_line: "plain_item e i \<Longrightarrow> first_line e i = i"
proof -
  assume i: "plain_item e i"
  then have line: "one_line i" and stable: "redact_text e i = i" by (simp_all add: plain_item_def)
  from line have "\<not> line_boundary 10 \<or> 10 \<notin> set i" unfolding one_line_def by blast
  then have "10 \<notin> set i" by (simp add: line_boundary_def)
  then show ?thesis by (simp add: first_line_def stable unix_lines_one [OF line] split_at_free)
qed

lemma kept_plain: "\<forall>i\<in>set items. plain_item e i \<Longrightarrow> kept e items = items"
proof -
  assume plain: "\<forall>i\<in>set items. plain_item e i"
  then have "map (first_line e) items = items" by (intro map_idI) (simp add: plain_first_line)
  with plain show ?thesis by (simp add: kept_def plain_item_def)
qed

definition plain_sections :: "redactor \<Rightarrow> resume_sections \<Rightarrow> bool" where
  "plain_sections e x \<longleftrightarrow> (\<forall>items\<in>set (all_items x). \<forall>i\<in>set items. plain_item e i)"

lemma kept_plain_sections: "plain_sections e x \<Longrightarrow> kept_sections e x = x"
  by (cases x) (simp add: plain_sections_def kept_sections_def all_items_def kept_plain)

text \<open>
  What the document says of the run itself: the goal and the next step are rendered in sections
  the reader skips, so they only need line ends the renderer knows.
\<close>

definition plain_run :: "redactor \<Rightarrow> run_state \<Rightarrow> bool" where
  "plain_run e r \<longleftrightarrow> version_line r \<and> (\<forall>i\<in>set (goal r # next_step_items r). unix_boundaries e i)"

lemma plain_readable:
  assumes "plain_run e r" and "plain_sections e x"
  shows "readable_items e r x"
proof -
  have "unix_boundaries e i" if "plain_item e i" for i
    using that by (auto simp: plain_item_def unix_boundaries_def one_line_def)
  with assms show ?thesis
    by (auto simp: readable_items_def plain_run_def plain_sections_def section_content_def all_items_def)
qed

lemma plain_document:
  assumes "plain_run e r" and "plain_sections e x"
  shows "sections_from_document (render_resume_document e r x) = Inr x"
proof -
  have "ResumeSections x = Inr x"
    using assms(2) by (auto simp: ResumeSections_def plain_sections_def plain_item_def ensure_def)
  then show ?thesis
    using document_sections [OF plain_readable [OF assms]] by (simp add: kept_plain_sections [OF assms(2)])
qed

section \<open>Properties\<close>


text \<open>
  A valid section can make its document unreadable: an item whose redacted text starts with an empty
  line is accepted by the constructor and rendered, and reading the document back raises.
\<close>

theorem leading_line_break_is_unreadable:
  assumes "readable_items e r x" and "items \<in> set (all_items x)" and "i \<in> set items"
    and "\<not> nonblank (first_line e i)"
  shows "\<exists>err. sections_from_document (render_resume_document e r x) = Inl err"
proof -
  have "first_line e i \<noteq> NONE_RECORDED" using assms(4) by (auto simp: NONE_RECORDED_def nonblank_def) code_simp
  then have "first_line e i \<in> set (kept e items)" using assms(3) by (auto simp: kept_def)
  moreover have "all_items (kept_sections e x) = map (kept e) (all_items x)"
    by (simp add: all_items_def kept_sections_def)
  ultimately have "\<exists>items\<in>set (all_items (kept_sections e x)). \<exists>i\<in>set items. \<not> nonblank i"
    using assms(2,4) by auto
  then have "ResumeSections (kept_sections e x) = Inl (RunInvalid ''sections'')"
    by (auto simp: ResumeSections_def ensure_def)
  then show ?thesis using document_sections [OF assms(1)] by simp
qed

definition demo_items :: resume_sections where
  "demo_items = empty_sections\<lparr>risks := [u ''flaky''], agent_state := [u ''a'' @ [10] @ u ''b'']\<rparr>"

lemma demo_readable: "readable_items demo_redactor demo_run_state demo_items"
  unfolding readable_items_def version_line_def unix_boundaries_def by code_simp


definition demo_broken :: resume_sections where
  "demo_broken = empty_sections\<lparr>risks := [10 # u ''flaky'']\<rparr>"

lemma leading_line_break_is_unreadable_witness:
  "ResumeSections demo_broken = Inr demo_broken \<and>
   (\<exists>err. sections_from_document (render_resume_document demo_redactor demo_run_state demo_broken) = Inl err)"
proof
  show "ResumeSections demo_broken = Inr demo_broken" by code_simp
  have "readable_items demo_redactor demo_run_state demo_broken"
    unfolding readable_items_def version_line_def unix_boundaries_def by code_simp
  moreover have "risks demo_broken \<in> set (all_items demo_broken)" by (simp add: all_items_def)
  moreover have "10 # u ''flaky'' \<in> set (risks demo_broken)" by (simp add: demo_broken_def)
  moreover have "\<not> nonblank (first_line demo_redactor (10 # u ''flaky''))" by code_simp
  ultimately show "\<exists>err. sections_from_document (render_resume_document demo_redactor demo_run_state demo_broken) = Inl err"
    by (rule leading_line_break_is_unreadable)
qed

text \<open>
  A goal with line separators other than the line feed writes headings of its own: here a section
  without items is read back with a risk nobody recorded.
\<close>

lemma goal_writes_a_section:
  "sections_from_document (render_resume_document demo_redactor
     (demo_run_state\<lparr>goal := u ''g'' @ [8232] @ u ''## Risks and Approvals'' @ [8232] @ u ''- approved''\<rparr>)
     empty_sections) = Inr (empty_sections\<lparr>risks := [u ''approved'']\<rparr>)"
  by code_simp

end
