(* ===== verification/Json_Loads.thy ===== *)
theory Json_Loads
  imports Json_Text
begin

text \<open>
  \<open>json.loads\<close> of the Python standard library on a \<open>str\<close>, as the program calls it: the scanner of one
  value with its whitespace, escapes, surrogate pairs, numbers and the three non-finite constants,
  and the hook that turns the members of an object into a value. The double that a literal
  denotes is a parameter, and the recursion limit of the interpreter is left out.

  \<open>None\<close> is the ValueError. The recursion takes fuel; twice the length of the text is enough, as
  \<open>loads_fuel\<close> shows. The point of the theory is that \<open>json.loads\<close> reads back what \<open>json.dumps\<close>
  prints.
\<close>

section \<open>Documents and what comes back\<close>

text \<open>\<open>json.dumps(v, ensure_ascii=False, sort_keys=True, indent=2)\<close>, at a depth of nesting.\<close>

definition new_line :: "nat \<Rightarrow> pystr" where
  "new_line n = 10 # replicate (2 * n) 32"

definition block_text :: "nat \<Rightarrow> nat \<Rightarrow> nat \<Rightarrow> pystr list \<Rightarrow> pystr" where
  "block_text l r n ts = (if ts = [] then [l, r]
     else l # new_line (Suc n) @ join_with (44 # new_line (Suc n)) ts @ new_line n @ [r])"

primrec json_pretty :: "pyval \<Rightarrow> nat \<Rightarrow> pystr" where
  "json_pretty PNone n = u ''null''"
| "json_pretty (PBool b) n = (if b then u ''true'' else u ''false'')"
| "json_pretty (PInt i) n = dec_int i"
| "json_pretty (PFloat f) n = (case f of Fin _ t \<Rightarrow> t | NonFin t \<Rightarrow> t)"
| "json_pretty (PStr s) n = json_string s"
| "json_pretty (PList xs) n = block_text 91 93 n (map (\<lambda>f. f (Suc n)) (map json_pretty xs))"
| "json_pretty (PTuple xs) n = block_text 91 93 n (map (\<lambda>f. f (Suc n)) (map json_pretty xs))"
| "json_pretty (PDict d) n = block_text 123 125 n (map (\<lambda>(k, f). json_string k @ u '': '' @ f (Suc n))
     (sort_key fst (zip (map (key_text \<circ> fst) d) (map snd (map (map_prod json_pretty json_pretty) d)))))"
| "json_pretty (POther k) n = []"

text \<open>\<open>int\<close> and \<open>str\<close> refuse to convert more than 4300 digits.\<close>

definition small_int :: "int \<Rightarrow> bool" where
  "small_int i \<longleftrightarrow> length (dec_nat (nat \<bar>i\<bar>)) \<le> 4300"

lemma small_int_digit [simp]: "0 \<le> i \<Longrightarrow> i < 10 \<Longrightarrow> small_int i"
proof -
  assume "0 \<le> i" "i < 10"
  then have "nat \<bar>i\<bar> < 10" by simp
  then have "dec_nat (nat \<bar>i\<bar>) = [48 + nat \<bar>i\<bar>]" by (subst dec_nat.simps) simp
  then show ?thesis by (simp add: small_int_def)
qed

text \<open>What \<open>json.dumps\<close> accepts, and the value that \<open>json.loads\<close> reads back: lists, and sorted keys.\<close>

primrec dumpable :: "pyval \<Rightarrow> bool" where
  "dumpable PNone = True"
| "dumpable (PBool b) = True"
| "dumpable (PInt i) = small_int i"
| "dumpable (PFloat f) = True"
| "dumpable (PStr s) = True"
| "dumpable (PList xs) = list_all id (map dumpable xs)"
| "dumpable (PTuple xs) = list_all id (map dumpable xs)"
| "dumpable (PDict d) = (list_all (\<lambda>k. as_str k \<noteq> None) (map fst d)
     \<and> list_all snd (map (map_prod dumpable dumpable) d))"
| "dumpable (POther n) = False"

primrec json_norm :: "pyval \<Rightarrow> pyval" where
  "json_norm PNone = PNone"
| "json_norm (PBool b) = PBool b"
| "json_norm (PInt i) = PInt i"
| "json_norm (PFloat f) = PFloat f"
| "json_norm (PStr s) = PStr s"
| "json_norm (PList xs) = PList (map json_norm xs)"
| "json_norm (PTuple xs) = PList (map json_norm xs)"
| "json_norm (PDict d) = PDict (sort_key (key_text \<circ> fst)
     (zip (map fst d) (map snd (map (map_prod json_norm json_norm) d))))"
| "json_norm (POther n) = POther n"

section \<open>Strings\<close>

definition hex_value :: "nat \<Rightarrow> nat option" where
  "hex_value c = (if 48 \<le> c \<and> c \<le> 57 then Some (c - 48)
     else if 65 \<le> c \<and> c \<le> 70 then Some (c - 55)
     else if 97 \<le> c \<and> c \<le> 102 then Some (c - 87) else None)"

fun read4 :: "pystr \<Rightarrow> (nat \<times> pystr) option" where
  "read4 (a # b # c # d # s) = Option.bind (hex_value a) (\<lambda>w. Option.bind (hex_value b) (\<lambda>x.
     Option.bind (hex_value c) (\<lambda>y. Option.bind (hex_value d) (\<lambda>z.
       Some (((w * 16 + x) * 16 + y) * 16 + z, s)))))"
| "read4 _ = None"

definition escape_of :: "nat \<Rightarrow> nat option" where
  "escape_of c = map_of [(34, 34), (92, 92), (47, 47), (98, 8), (102, 12), (110, 10), (114, 13), (116, 9)] c"

text \<open>After \<open>\u\<close>: a high surrogate takes the low one that may follow.\<close>

definition read_unicode :: "pystr \<Rightarrow> (nat \<times> pystr) option" where
  "read_unicode s = Option.bind (read4 s) (\<lambda>(c, r).
     if 55296 \<le> c \<and> c \<le> 56319 \<and> take 2 r = [92, 117]
     then Option.bind (read4 (drop 2 r)) (\<lambda>(d, r').
       if 56320 \<le> d \<and> d \<le> 57343 then Some (65536 + (c - 55296) * 1024 + (d - 56320), r') else Some (c, r))
     else Some (c, r))"

lemma read4_shorter: "read4 s = Some (c, r) \<Longrightarrow> length r < length s"
  by (induction s rule: read4.induct) (auto simp: bind_eq_Some_conv)

lemma read_unicode_shorter: "read_unicode s = Some (c, r) \<Longrightarrow> length r < length s"
  by (fastforce simp: read_unicode_def bind_eq_Some_conv split: if_splits dest: read4_shorter)

text \<open>The characters up to the closing quote; control characters are refused.\<close>

function read_chars :: "pystr \<Rightarrow> (pystr \<times> pystr) option" where
  "read_chars [] = None"
| "read_chars (c # s) = (if c = 34 then Some ([], s)
     else if c < 32 then None
     else if c \<noteq> 92 then map_option (apfst ((#) c)) (read_chars s)
     else (case s of
         [] \<Rightarrow> None
       | e # r \<Rightarrow> (case (if e = 117 then read_unicode r else map_option (\<lambda>x. (x, r)) (escape_of e)) of
           None \<Rightarrow> None
         | Some (x, r') \<Rightarrow> map_option (apfst ((#) x)) (read_chars r'))))"
  by pat_completeness auto

termination
  by (relation "measure length") (auto split: if_splits dest!: read_unicode_shorter)

section \<open>Numbers and constants\<close>

definition whole_part :: "pystr \<Rightarrow> (pystr \<times> pystr) option" where
  "whole_part s = (case s of
       [] \<Rightarrow> None
     | c # r \<Rightarrow> if c = 48 then Some ([48], r)
         else if ascii_digit c then Some (takeWhile ascii_digit s, dropWhile ascii_digit s) else None)"

definition read_sign :: "nat list \<Rightarrow> pystr \<Rightarrow> pystr \<times> pystr" where
  "read_sign signs s = (case s of [] \<Rightarrow> ([], []) | c # r \<Rightarrow> if c \<in> set signs then ([c], r) else ([], s))"

definition read_frac :: "pystr \<Rightarrow> pystr \<times> pystr" where
  "read_frac s = (case s of
       [] \<Rightarrow> ([], [])
     | c # r \<Rightarrow> if c = 46 \<and> takeWhile ascii_digit r \<noteq> []
         then (c # takeWhile ascii_digit r, dropWhile ascii_digit r) else ([], s))"

definition read_exp :: "pystr \<Rightarrow> pystr \<times> pystr" where
  "read_exp s = (case s of
       [] \<Rightarrow> ([], [])
     | c # r \<Rightarrow> (case read_sign [43, 45] r of (g, r') \<Rightarrow>
         if c \<in> {69, 101} \<and> takeWhile ascii_digit r' \<noteq> []
         then (c # g @ takeWhile ascii_digit r', dropWhile ascii_digit r') else ([], s)))"

text \<open>The sign, the whole part, the fraction, the exponent and what follows.\<close>

definition number_parts :: "pystr \<Rightarrow> (pystr \<times> pystr \<times> pystr \<times> pystr \<times> pystr) option" where
  "number_parts s = (case read_sign [45] s of (g, r) \<Rightarrow> Option.bind (whole_part r) (\<lambda>(w, r1).
     case read_frac r1 of (p, r2) \<Rightarrow> case read_exp r2 of (e, r3) \<Rightarrow> Some (g, w, p, e, r3)))"

definition digits_value :: "pystr \<Rightarrow> nat" where
  "digits_value t = foldl (\<lambda>n c. 10 * n + (c - 48)) 0 t"

text \<open>\<open>int\<close> refuses more than 4300 digits.\<close>

definition read_number :: "(pystr \<Rightarrow> pyfloat) \<Rightarrow> pystr \<Rightarrow> (pyval \<times> pystr) option" where
  "read_number flt s = Option.bind (number_parts s) (\<lambda>(g, w, p, e, r).
     if p = [] \<and> e = []
     then (if 4300 < length w then None
       else Some (PInt (if g = [] then int (digits_value w) else - int (digits_value w)), r))
     else Some (PFloat (flt (g @ w @ p @ e)), r))"

definition CONSTANTS :: "(pystr \<times> pyval) list" where
  "CONSTANTS = [(u ''null'', PNone), (u ''true'', PBool True), (u ''false'', PBool False),
     (u ''NaN'', PFloat (NonFin (u ''NaN''))), (u ''Infinity'', PFloat (NonFin (u ''Infinity''))),
     (u ''-Infinity'', PFloat (NonFin (u ''-Infinity'')))]"

definition constant_at :: "pystr \<Rightarrow> (pystr \<times> pyval) option" where
  "constant_at s = find (\<lambda>(t, v). take (length t) s = t) CONSTANTS"

definition read_scalar :: "(pystr \<Rightarrow> pyfloat) \<Rightarrow> pystr \<Rightarrow> (pyval \<times> pystr) option" where
  "read_scalar flt s = (case constant_at s of
       Some (t, v) \<Rightarrow> Some (v, drop (length t) s)
     | None \<Rightarrow> read_number flt s)"

section \<open>The scanner\<close>

definition is_blank :: "nat \<Rightarrow> bool" where
  "is_blank c \<longleftrightarrow> c \<in> {32, 9, 10, 13}"

definition skip_blanks :: "pystr \<Rightarrow> pystr" where
  "skip_blanks = dropWhile is_blank"

type_synonym pairs_hook = "(pystr \<times> pyval) list \<Rightarrow> pyval option"

fun read_value :: "(pystr \<Rightarrow> pyfloat) \<Rightarrow> pairs_hook \<Rightarrow> nat \<Rightarrow> pystr \<Rightarrow> (pyval \<times> pystr) option"
  and read_elems :: "(pystr \<Rightarrow> pyfloat) \<Rightarrow> pairs_hook \<Rightarrow> nat \<Rightarrow> pystr \<Rightarrow> (pyval list \<times> pystr) option"
  and read_members :: "(pystr \<Rightarrow> pyfloat) \<Rightarrow> pairs_hook \<Rightarrow> nat \<Rightarrow> pystr \<Rightarrow> ((pystr \<times> pyval) list \<times> pystr) option"
where
  "read_value flt hook 0 s = None"
| "read_value flt hook (Suc n) s = (case s of
       [] \<Rightarrow> None
     | c # r \<Rightarrow>
         if c = 34 then map_option (apfst PStr) (read_chars r)
         else if c = 91 then (case skip_blanks r of
             [] \<Rightarrow> None
           | d # r' \<Rightarrow> if d = 93 then Some (PList [], r')
               else map_option (apfst PList) (read_elems flt hook n (d # r')))
         else if c = 123 then (case skip_blanks r of
             [] \<Rightarrow> None
           | d # r' \<Rightarrow> if d = 125 then map_option (\<lambda>v. (v, r')) (hook [])
               else Option.bind (read_members flt hook n (d # r')) (\<lambda>(ps, r''). map_option (\<lambda>v. (v, r'')) (hook ps)))
         else read_scalar flt s)"
| "read_elems flt hook 0 s = None"
| "read_elems flt hook (Suc n) s = Option.bind (read_value flt hook n s) (\<lambda>(v, r).
     case skip_blanks r of
       [] \<Rightarrow> None
     | c # r' \<Rightarrow> if c = 93 then Some ([v], r')
         else if c = 44 then map_option (apfst ((#) v)) (read_elems flt hook n (skip_blanks r'))
         else None)"
| "read_members flt hook 0 s = None"
| "read_members flt hook (Suc n) s = (case s of
       [] \<Rightarrow> None
     | c # r \<Rightarrow> if c \<noteq> 34 then None
         else Option.bind (read_chars r) (\<lambda>(k, r1).
           case skip_blanks r1 of
             [] \<Rightarrow> None
           | d # r2 \<Rightarrow> if d \<noteq> 58 then None
               else Option.bind (read_value flt hook n (skip_blanks r2)) (\<lambda>(v, r3).
                 case skip_blanks r3 of
                   [] \<Rightarrow> None
                 | e # r4 \<Rightarrow> if e = 125 then Some ([(k, v)], r4)
                     else if e = 44 then map_option (apfst ((#) (k, v))) (read_members flt hook n (skip_blanks r4))
                     else None)))"

definition loads_with :: "nat \<Rightarrow> (pystr \<Rightarrow> pyfloat) \<Rightarrow> pairs_hook \<Rightarrow> pystr \<Rightarrow> pyval option" where
  "loads_with n flt hook t = Option.bind (read_value flt hook n (skip_blanks t)) (\<lambda>(v, r).
     if skip_blanks r = [] then Some v else None)"

definition loads :: "(pystr \<Rightarrow> pyfloat) \<Rightarrow> pairs_hook \<Rightarrow> pystr \<Rightarrow> pyval option" where
  "loads flt hook t = loads_with (Suc (2 * length t)) flt hook t"

text \<open>Without a hook, the last of several members with one key wins; the other hook refuses them.\<close>

definition dict_hook :: pairs_hook where
  "dict_hook ps = Some (PDict (fold (\<lambda>(k, v). AList.update (PStr k) v) ps []))"

definition unique_hook :: pairs_hook where
  "unique_hook ps = (if distinct (map fst ps) then Some (PDict (map (\<lambda>(k, v). (PStr k, v)) ps)) else None)"
section \<open>The scanner makes progress\<close>

lemma read_chars_shorter: "read_chars s = Some (t, r) \<Longrightarrow> length r < length s"
proof (induction s arbitrary: t r rule: read_chars.induct)
  case (2 c s)
  show ?case
  proof (cases "c = 34 \<or> c < 32 \<or> c \<noteq> 92")
    case True
    then show ?thesis using 2 by (force split: if_splits)
  next
    case False
    with 2(3) obtain e r0 x r1 t' where s: "s = e # r0"
      and x: "(if e = 117 then read_unicode r0 else map_option (\<lambda>x. (x, r0)) (escape_of e)) = Some (x, r1)"
      and rest: "read_chars r1 = Some (t', r)"
      by (auto split: list.splits option.splits simp del: read_chars.simps simp: read_chars.simps(2))
    have "length r < length r1" by (rule 2(2) [OF _ _ _ s x refl rest]) (use False in auto)
    moreover have "length r1 \<le> length r0" using x by (auto split: if_splits dest: read_unicode_shorter)
    ultimately show ?thesis using s by simp
  qed
qed simp

lemma dropWhile_shorter: "length (dropWhile P s) \<le> length s"
  by (induction s) auto

lemma skip_blanks_shorter: "length (skip_blanks s) \<le> length s"
  unfolding skip_blanks_def by (rule dropWhile_shorter)

lemma whole_part_shorter: "whole_part s = Some (w, r) \<Longrightarrow> length r < length s"
  using dropWhile_shorter [of ascii_digit "tl s"] by (cases s) (auto simp: whole_part_def split: if_splits)

lemma read_sign_shorter: "length (snd (read_sign gs s)) \<le> length s"
  by (cases s) (auto simp: read_sign_def)

lemma read_frac_shorter: "length (snd (read_frac s)) \<le> length s"
  using dropWhile_shorter [of ascii_digit "tl s"] by (cases s) (auto simp: read_frac_def)

lemma read_exp_shorter: "length (snd (read_exp s)) \<le> length s"
proof (cases s)
  case (Cons c r)
  with dropWhile_shorter [of ascii_digit "snd (read_sign [43, 45] r)"] read_sign_shorter [of "[43, 45]" r]
  show ?thesis by (auto simp: read_exp_def split: prod.split)
qed (simp add: read_exp_def)

lemma number_parts_shorter: "number_parts s = Some (g, w, p, e, r) \<Longrightarrow> length r < length s"
proof -
  assume parts: "number_parts s = Some (g, w, p, e, r)"
  obtain g' r0 where sign: "read_sign [45] s = (g', r0)" by fastforce
  obtain w' r1 where whole: "whole_part r0 = Some (w', r1)"
    using parts sign by (cases "whole_part r0") (auto simp: number_parts_def)
  obtain p' r2 where frac: "read_frac r1 = (p', r2)" by fastforce
  obtain e' r3 where exp: "read_exp r2 = (e', r3)" by fastforce
  have "r = r3" using parts by (simp add: number_parts_def sign whole frac exp)
  with read_sign_shorter [of "[45]" s] sign whole_part_shorter [OF whole] read_frac_shorter [of r1] frac
    read_exp_shorter [of r2] exp show ?thesis by simp
qed

lemma read_scalar_shorter:
  assumes "read_scalar flt s = Some (v, r)"
  shows "length r < length s"
proof (cases "constant_at s")
  case None
  with assms show ?thesis
    by (auto simp: read_scalar_def read_number_def bind_eq_Some_conv split: if_splits dest: number_parts_shorter)
next
  case (Some x)
  obtain t v where x: "x = (t, v)" by (cases x)
  from Some [unfolded x constant_at_def find_Some_iff] have "(t, v) \<in> set CONSTANTS" "take (length t) s = t"
    using nth_mem by fastforce+
  then have "t \<noteq> []" "take (length t) s = t" by (auto simp: CONSTANTS_def)
  then have "0 < length t" "s \<noteq> []" by auto
  with assms Some x show ?thesis by (auto simp: read_scalar_def)
qed

lemma read_elems_Some:
  "read_elems flt hook (Suc n) s = Some (vs, r) \<longleftrightarrow> (\<exists>v t c t'. read_value flt hook n s = Some (v, t)
     \<and> skip_blanks t = c # t' \<and> (c = 93 \<and> vs = [v] \<and> r = t'
       \<or> c = 44 \<and> (\<exists>ws. read_elems flt hook n (skip_blanks t') = Some (ws, r) \<and> vs = v # ws)))"
proof (cases "read_value flt hook n s")
  case (Some x)
  obtain v t where x: "x = (v, t)" by (cases x)
  show ?thesis by (cases "skip_blanks t") (auto simp: Some x apfst_def)
qed simp

lemma read_members_Some:
  "read_members flt hook (Suc n) s = Some (ps, r) \<longleftrightarrow> (\<exists>s' k r1 r2 v r3 e r4. s = 34 # s'
     \<and> read_chars s' = Some (k, r1) \<and> skip_blanks r1 = 58 # r2
     \<and> read_value flt hook n (skip_blanks r2) = Some (v, r3) \<and> skip_blanks r3 = e # r4
     \<and> (e = 125 \<and> ps = [(k, v)] \<and> r = r4
       \<or> e = 44 \<and> (\<exists>qs. read_members flt hook n (skip_blanks r4) = Some (qs, r) \<and> ps = (k, v) # qs)))"
proof (cases s)
  case (Cons c s')
  show ?thesis
  proof (cases "c = 34 \<and> read_chars s' \<noteq> None")
    case True
    then obtain k r1 where k: "c = 34" "read_chars s' = Some (k, r1)" by auto
    show ?thesis
    proof (cases "\<exists>r2 v r3. skip_blanks r1 = 58 # r2 \<and> read_value flt hook n (skip_blanks r2) = Some (v, r3)")
      case True
      then obtain r2 v r3 where v: "skip_blanks r1 = 58 # r2" "read_value flt hook n (skip_blanks r2) = Some (v, r3)"
        by blast
      show ?thesis by (cases "skip_blanks r3") (auto simp: Cons k v apfst_def)
    next
      case False
      have "read_members flt hook (Suc n) s = None"
      proof (cases "skip_blanks r1")
        case (Cons d r2)
        with False show ?thesis
          by (cases "read_value flt hook n (skip_blanks r2)") (auto simp: \<open>s = c # s'\<close> k)
      qed (simp add: \<open>s = c # s'\<close> k)
      with False show ?thesis by (auto simp: Cons k)
    qed
  next
    case False
    then have "read_members flt hook (Suc n) s = None" by (cases "read_chars s'") (auto simp: Cons)
    with False show ?thesis by (auto simp: Cons)
  qed
qed simp

lemma read_shorter:
  "read_value flt hook n s = Some (v, r) \<Longrightarrow> length r < length s"
  "read_elems flt hook n s = Some (vs, r) \<Longrightarrow> length r < length s"
  "read_members flt hook n s = Some (ps, r) \<Longrightarrow> length r < length s"
proof (induction n arbitrary: s v r vs ps)
  case (Suc n)
  {
    case 1
    then obtain c t where s: "s = c # t" by (cases s) auto
    have b: "length (skip_blanks t) \<le> length t" by (rule skip_blanks_shorter)
    consider "c = 34" | "c = 91" | "c = 123" | "c \<noteq> 34 \<and> c \<noteq> 91 \<and> c \<noteq> 123" by blast
    then show ?case
    proof cases
      case 2
      with 1 s obtain d u where t: "skip_blanks t = d # u" by (auto split: list.splits)
      show ?thesis
      proof (cases "d = 93")
        case False
        with 1 s 2 t obtain vs where "read_elems flt hook n (d # u) = Some (vs, r)" by (auto simp: apfst_def)
        from Suc.IH(2) [OF this] b t s show ?thesis by simp
      qed (use 1 s 2 t b in auto)
    next
      case 3
      with 1 s obtain d u where t: "skip_blanks t = d # u" by (auto split: list.splits)
      show ?thesis
      proof (cases "d = 125")
        case False
        with 1 s 3 t obtain ps where "read_members flt hook n (d # u) = Some (ps, r)"
          by (auto simp: bind_eq_Some_conv)
        from Suc.IH(3) [OF this] b t s show ?thesis by simp
      qed (use 1 s 3 t b in auto)
    next
      case 4
      with 1 s have "read_scalar flt s = Some (v, r)" by simp
      then show ?thesis by (rule read_scalar_shorter)
    qed (use 1 s in \<open>auto simp: apfst_def dest: read_chars_shorter\<close>)
  next
    case 2
    then obtain v t c u where v: "read_value flt hook n s = Some (v, t)" and t: "skip_blanks t = c # u"
      and r: "r = u \<or> (\<exists>ws. read_elems flt hook n (skip_blanks u) = Some (ws, r))"
      unfolding read_elems_Some by blast
    from Suc.IH(1) [OF v] skip_blanks_shorter [of t] t have "length u < length s" by simp
    with r Suc.IH(2) [of "skip_blanks u"] skip_blanks_shorter [of u] show ?case by fastforce
  next
    case 3
    then obtain s' k r1 r2 v r3 e r4 where s: "s = 34 # s'" and k: "read_chars s' = Some (k, r1)"
      and r1: "skip_blanks r1 = 58 # r2" and v: "read_value flt hook n (skip_blanks r2) = Some (v, r3)"
      and r3: "skip_blanks r3 = e # r4"
      and r: "r = r4 \<or> (\<exists>qs. read_members flt hook n (skip_blanks r4) = Some (qs, r))"
      unfolding read_members_Some by blast
    from Suc.IH(1) [OF v] skip_blanks_shorter [of r3] r3 skip_blanks_shorter [of r2] skip_blanks_shorter [of r1] r1
      read_chars_shorter [OF k] s have "length r4 < length s" by simp
    with r Suc.IH(3) [of "skip_blanks r4"] skip_blanks_shorter [of r4] show ?case by fastforce
  }
qed simp_all

text \<open>Fuel beyond twice the length changes nothing.\<close>

lemma read_fuel:
  "2 * length s < n \<Longrightarrow> read_value flt hook (Suc n) s = read_value flt hook n s"
  "2 * length s + 1 < n \<Longrightarrow> read_elems flt hook (Suc n) s = read_elems flt hook n s"
  "2 * length s < n \<Longrightarrow> read_members flt hook (Suc n) s = read_members flt hook n s"
proof (induction n arbitrary: s)
  case (Suc n)
  {
    case 1
    show ?case
    proof (cases s)
      case (Cons c t)
      show ?thesis
      proof (cases "skip_blanks t")
        case Nil
        then show ?thesis by (simp add: Cons)
      next
        case t: (Cons d u)
        have "2 * length (d # u) + 1 < n" using 1 Cons t skip_blanks_shorter [of t] by simp
        then have "read_elems flt hook (Suc n) (d # u) = read_elems flt hook n (d # u)"
          "read_members flt hook (Suc n) (d # u) = read_members flt hook n (d # u)"
          using Suc.IH(2,3) [of "d # u"] by simp_all
        then show ?thesis by (simp add: Cons t del: read_elems.simps read_members.simps)
      qed
    qed simp
  next
    case 2
    have head: "read_value flt hook (Suc n) s = read_value flt hook n s" using 2 by (intro Suc.IH(1)) simp
    have "read_elems flt hook (Suc n) (skip_blanks u) = read_elems flt hook n (skip_blanks u)"
      if "read_value flt hook n s = Some (v, t)" "skip_blanks t = c # u" for v t c u
      using 2 read_shorter(1) [OF that(1)] skip_blanks_shorter [of t] skip_blanks_shorter [of u] that(2)
      by (intro Suc.IH(2)) simp
    then show ?case unfolding read_elems.simps(2) [of flt hook "Suc n"] read_elems.simps(2) [of flt hook n] head
      by (auto intro!: Option.bind_cong split: list.split)
  next
    case 3
    show ?case
    proof (cases "\<exists>s' k r1 r2. s = 34 # s' \<and> read_chars s' = Some (k, r1) \<and> skip_blanks r1 = 58 # r2")
      case True
      then obtain s' k r1 r2 where s: "s = 34 # s'" and k: "read_chars s' = Some (k, r1)" and r1: "skip_blanks r1 = 58 # r2"
        by blast
      from read_chars_shorter [OF k] skip_blanks_shorter [of r1] r1 skip_blanks_shorter [of r2] s
      have short: "length (skip_blanks r2) < length s" by simp
      have head: "read_value flt hook (Suc n) (skip_blanks r2) = read_value flt hook n (skip_blanks r2)"
        using 3 short by (intro Suc.IH(1)) simp
      have "read_members flt hook (Suc n) (skip_blanks u) = read_members flt hook n (skip_blanks u)"
        if "read_value flt hook n (skip_blanks r2) = Some (v, t)" "skip_blanks t = c # u" for v t c u
        using 3 short read_shorter(1) [OF that(1)] skip_blanks_shorter [of t] skip_blanks_shorter [of u] that(2)
        by (intro Suc.IH(3)) simp
      then show ?thesis
        unfolding read_members.simps(2) [of flt hook "Suc n"] read_members.simps(2) [of flt hook n]
        by (auto simp: s k r1 head simp del: read_value.simps intro!: Option.bind_cong split: list.split)
    next
      case False
      then have "read_members flt hook (Suc m) s = None" for m
        by (cases "read_members flt hook (Suc m) s") (auto simp: read_members_Some simp del: read_members.simps)
      then show ?thesis by (simp del: read_members.simps)
    qed
  }
qed simp_all

text \<open>More fuel than \<open>loads\<close> takes gives the same result, so it never runs out.\<close>

lemma loads_fuel: "2 * length t < n \<Longrightarrow> loads_with n flt hook t = loads flt hook t"
proof -
  assume "2 * length t < n"
  then obtain k where n: "n = Suc (2 * length t) + k" by (metis Suc_leI le_iff_add)
  have "read_value flt hook (Suc (2 * length t) + k) (skip_blanks t) = read_value flt hook (Suc (2 * length t)) (skip_blanks t)"
  proof (induction k)
    case (Suc k)
    have "read_value flt hook (Suc (Suc (2 * length t) + k)) (skip_blanks t) = read_value flt hook (Suc (2 * length t) + k) (skip_blanks t)"
      by (rule read_fuel(1)) (use skip_blanks_shorter [of t] in simp)
    with Suc show ?case by simp
  qed simp
  then show ?thesis by (simp only: loads_def loads_with_def n)
qed

section \<open>JSON texts\<close>

definition blanks :: "pystr \<Rightarrow> bool" where
  "blanks s \<longleftrightarrow> list_all is_blank s"

definition float_literal :: "pystr \<Rightarrow> bool" where
  "float_literal t = (case number_parts t of Some (g, w, p, e, r) \<Rightarrow> r = [] \<and> p @ e \<noteq> [] | None \<Rightarrow> False)"

text \<open>The texts of a value, with blanks wherever they may stand.\<close>

inductive spells :: "(pystr \<Rightarrow> pyfloat) \<Rightarrow> pairs_hook \<Rightarrow> pyval \<Rightarrow> pystr \<Rightarrow> bool"
  and spells_elems :: "(pystr \<Rightarrow> pyfloat) \<Rightarrow> pairs_hook \<Rightarrow> pyval list \<Rightarrow> pystr \<Rightarrow> bool"
  and spells_members :: "(pystr \<Rightarrow> pyfloat) \<Rightarrow> pairs_hook \<Rightarrow> (pystr \<times> pyval) list \<Rightarrow> pystr \<Rightarrow> bool"
  for flt hook where
  spells_constant: "(t, v) \<in> set CONSTANTS \<Longrightarrow> spells flt hook v t"
| spells_int: "small_int i \<Longrightarrow> spells flt hook (PInt i) (dec_int i)"
| spells_float: "float_literal t \<Longrightarrow> spells flt hook (PFloat (flt t)) t"
| spells_str: "spells flt hook (PStr s) (json_string s)"
| spells_nil: "blanks a \<Longrightarrow> spells flt hook (PList []) (91 # a @ [93])"
| spells_list: "blanks a \<Longrightarrow> spells_elems flt hook vs t \<Longrightarrow> spells flt hook (PList vs) (91 # a @ t)"
| spells_empty: "blanks a \<Longrightarrow> hook [] = Some v \<Longrightarrow> spells flt hook v (123 # a @ [125])"
| spells_dict: "blanks a \<Longrightarrow> spells_members flt hook ps t \<Longrightarrow> hook ps = Some v \<Longrightarrow> spells flt hook v (123 # a @ t)"
| elems_last: "spells flt hook v t \<Longrightarrow> blanks b \<Longrightarrow> spells_elems flt hook [v] (t @ b @ [93])"
| elems_more: "spells flt hook v t \<Longrightarrow> blanks b \<Longrightarrow> blanks c \<Longrightarrow> spells_elems flt hook vs ts \<Longrightarrow>
     spells_elems flt hook (v # vs) (t @ b @ 44 # c @ ts)"
| members_last: "spells flt hook v t \<Longrightarrow> blanks a \<Longrightarrow> blanks b \<Longrightarrow> blanks c \<Longrightarrow>
     spells_members flt hook [(k, v)] (json_string k @ a @ 58 # b @ t @ c @ [125])"
| members_more: "spells flt hook v t \<Longrightarrow> blanks a \<Longrightarrow> blanks b \<Longrightarrow> blanks c \<Longrightarrow> blanks d \<Longrightarrow>
     spells_members flt hook ps ts \<Longrightarrow>
     spells_members flt hook ((k, v) # ps) (json_string k @ a @ 58 # b @ t @ c @ 44 # d @ ts)"

text \<open>Strings come back.\<close>

lemma hex_value_digit: "n < 16 \<Longrightarrow> hex_value (hex_digit n) = Some n"
  by (auto simp: hex_value_def hex_digit_def)

lemma read_chars_char: "read_chars (json_char c @ s) = map_option (apfst ((#) c)) (read_chars s)"
proof (cases "c < 32 \<and> c \<notin> {8, 9, 10, 12, 13}")
  case True
  then have "c div 16 < 16" by (simp add: less_mult_imp_div_less)
  then have "hex_value (hex_digit (c div 16)) = Some (c div 16)" "hex_value (hex_digit (c mod 16)) = Some (c mod 16)"
    by (simp_all add: hex_value_digit)
  moreover have "hex_value 48 = Some 0" by (simp add: hex_value_def)
  moreover have "json_char c = [92, 117, 48, 48, hex_digit (c div 16), hex_digit (c mod 16)]"
    using True by (simp add: json_char_def)
  ultimately show ?thesis using True by (simp add: read_unicode_def)
next
  case False
  show ?thesis
    by (cases "c \<in> {34, 92, 8, 9, 10, 12, 13}") (use False in \<open>auto simp: json_char_def escape_of_def\<close>)
qed

lemma read_chars_text: "read_chars (concat (map json_char s) @ 34 # r) = Some (s, r)"
  by (induction s) (simp_all add: read_chars_char)

text \<open>Numbers come back, when a number cannot go on.\<close>

definition ends_number :: "pystr \<Rightarrow> bool" where
  "ends_number r \<longleftrightarrow> (r = [] \<or> (\<not> ascii_digit (hd r) \<and> hd r \<notin> {46, 69, 101}))"

lemma digits_stop: "ends_number r \<Longrightarrow> takeWhile ascii_digit r = [] \<and> dropWhile ascii_digit r = r"
  by (cases r) (auto simp: ends_number_def)

lemma digits_append:
  "takeWhile ascii_digit (s @ r) = (if list_all ascii_digit s then s @ takeWhile ascii_digit r else takeWhile ascii_digit s)"
  "dropWhile ascii_digit (s @ r) = (if list_all ascii_digit s then dropWhile ascii_digit r else dropWhile ascii_digit s @ r)"
  by (induction s) auto

lemma digits_all: "list_all ascii_digit s \<Longrightarrow> takeWhile ascii_digit s = s"
  by (induction s) auto

lemma dropWhile_Nil: "dropWhile P s = [] \<longleftrightarrow> list_all P s"
  by (induction s) auto

lemma read_exp_stop: "ends_number r \<Longrightarrow> read_exp r = ([], r)"
  by (cases r) (auto simp: read_exp_def ends_number_def split: prod.split)

lemma read_exp_append: "read_exp s = (e, []) \<Longrightarrow> e \<noteq> [] \<Longrightarrow> ends_number r \<Longrightarrow> read_exp (s @ r) = (e, r)"
  by (cases s rule: list.exhaust; cases "tl s")
     (auto simp: read_exp_def read_sign_def digits_append digits_all dropWhile_Nil digits_stop split: if_splits)


lemma read_frac_append:
  "read_frac s = (p, []) \<Longrightarrow> p \<noteq> [] \<Longrightarrow> ends_number r \<Longrightarrow> read_frac (s @ r) = (p, r)"
  by (cases s) (auto simp: read_frac_def digits_append digits_all dropWhile_Nil digits_stop split: if_splits)

lemma digits_then:
  "dropWhile ascii_digit s \<noteq> [] \<Longrightarrow> takeWhile ascii_digit (s @ r) = takeWhile ascii_digit s
     \<and> dropWhile ascii_digit (s @ r) = dropWhile ascii_digit s @ r"
  by (auto simp: digits_append list_all_iff)

lemma read_frac_then: "read_frac s = (p, s') \<Longrightarrow> s' \<noteq> [] \<Longrightarrow> hd s' \<noteq> 46 \<Longrightarrow> read_frac (s @ r) = (p, s' @ r)"
  by (cases s) (auto simp: read_frac_def digits_then split: if_splits)

lemma whole_part_then: "whole_part s = Some (w, s') \<Longrightarrow> s' \<noteq> [] \<Longrightarrow> whole_part (s @ r) = Some (w, s' @ r)"
  by (cases s) (auto simp: whole_part_def digits_then split: if_splits)

lemma read_sign_then: "read_sign gs s = (g, s') \<Longrightarrow> s' \<noteq> [] \<Longrightarrow> read_sign gs (s @ r) = (g, s' @ r)"
  by (cases s) (auto simp: read_sign_def split: if_splits)

text \<open>What follows a number does not change its parts.\<close>

lemma float_parts_append:
  assumes "number_parts t = Some (g, w, p, e, [])" and "p @ e \<noteq> []" and "ends_number r"
  shows "number_parts (t @ r) = Some (g, w, p, e, r)"
proof -
  obtain g' s0 where sign: "read_sign [45] t = (g', s0)" by fastforce
  with assms(1) obtain w' s1 where whole: "whole_part s0 = Some (w', s1)"
    by (cases "whole_part s0") (auto simp: number_parts_def)
  obtain p' s2 where frac: "read_frac s1 = (p', s2)" by fastforce
  obtain e' s3 where exp: "read_exp s2 = (e', s3)" by fastforce
  from assms(1) have eqs: "g' = g" "w' = w" "p' = p" "e' = e" "s3 = []"
    by (auto simp: number_parts_def sign whole frac exp)
  have "s0 \<noteq> []" using whole by (auto simp: whole_part_def)
  have "s1 \<noteq> []" using frac exp eqs assms(2) by (auto simp: read_frac_def read_exp_def)
  have ends: "read_frac (s1 @ r) = (p, s2 @ r) \<and> read_exp (s2 @ r) = (e, r)"
  proof (cases "s2 = []")
    case True
    with exp eqs have "e = []" by (simp add: read_exp_def)
    with True assms(2,3) frac eqs read_exp_stop read_frac_append show ?thesis by simp
  next
    case False
    with exp eqs have "e \<noteq> []" "hd s2 \<noteq> 46"
      by (auto simp: read_exp_def split: list.splits prod.splits if_splits)
    with False exp eqs assms(3) frac read_exp_append read_frac_then show ?thesis by simp
  qed
  show ?thesis
    unfolding number_parts_def
    by (simp add: read_sign_then [OF sign \<open>s0 \<noteq> []\<close>] whole_part_then [OF whole \<open>s1 \<noteq> []\<close>] ends eqs)
qed

lemma dec_nat_Cons: "10 \<le> n \<Longrightarrow> dec_nat n = dec_nat (n div 10) @ [48 + n mod 10]"
  by (subst dec_nat.simps) simp

lemma dec_nat_small: "n < 10 \<Longrightarrow> dec_nat n = [48 + n]"
  by (subst dec_nat.simps) simp

lemma digits_value_dec [simp]: "digits_value (dec_nat n) = n"
  by (induction n rule: dec_nat.induct) (subst dec_nat.simps, auto simp: digits_value_def)

lemma dec_nat_hd: "0 < n \<Longrightarrow> hd (dec_nat n) \<noteq> 48 \<and> dec_nat n \<noteq> []"
proof (induction n rule: dec_nat.induct)
  case (1 n)
  then show ?case by (cases "n < 10") (auto simp: dec_nat_small dec_nat_Cons [of n] hd_append)
qed

lemma dec_nat_digits: "list_all ascii_digit (dec_nat n)" "dec_nat n \<noteq> []"
  using dec_nat_ascii [of _ n] by (fastforce simp: list_all_iff ascii_digit_def) (subst dec_nat.simps, simp)

lemma whole_part_dec: "ends_number r \<Longrightarrow> whole_part (dec_nat n @ r) = Some (dec_nat n, r)"
proof (cases "n = 0")
  case True
  then show "ends_number r \<Longrightarrow> ?thesis" by (simp add: dec_nat_small whole_part_def)
next
  case False
  assume r: "ends_number r"
  obtain c s where s: "dec_nat n = c # s" using dec_nat_digits(2) by (cases "dec_nat n") auto
  have "c \<noteq> 48" "ascii_digit c" "list_all ascii_digit (c # s)"
    using dec_nat_hd [of n] False dec_nat_digits(1) [of n] s by simp_all
  with s digits_append [of "c # s" r] digits_stop [OF r] show ?thesis by (simp add: whole_part_def)
qed

lemma int_parts:
  assumes "ends_number r"
  shows "number_parts (dec_int i @ r) = Some (if i < 0 then [45] else [], dec_nat (nat \<bar>i\<bar>), [], [], r)"
proof -
  have frac: "read_frac r = ([], r)" using assms by (cases r) (auto simp: read_frac_def ends_number_def)
  have "\<exists>c s. dec_nat n = c # s \<and> c \<noteq> 45" for n
    using dec_nat_digits [of n] by (cases "dec_nat n") (auto simp: ascii_digit_def)
  then have "read_sign [45] (dec_nat n @ r) = ([], dec_nat n @ r)" for n
  proof -
    obtain c s where "dec_nat n = c # s" "c \<noteq> 45" using \<open>\<And>n. \<exists>c s. dec_nat n = c # s \<and> c \<noteq> 45\<close> by blast
    then show "read_sign [45] (dec_nat n @ r) = ([], dec_nat n @ r)" by (simp add: read_sign_def)
  qed
  moreover have "read_sign [45] (45 # s) = ([45], s)" for s by (simp add: read_sign_def)
  ultimately show ?thesis
    by (simp add: number_parts_def dec_int_def whole_part_dec [OF assms] frac read_exp_stop [OF assms])
qed

section \<open>Every text of a value reads as the value\<close>

lemma skip_append [simp]: "blanks a \<Longrightarrow> skip_blanks (a @ s) = skip_blanks s"
  by (induction a) (auto simp: blanks_def skip_blanks_def)

lemma skip_stop [simp]: "\<not> is_blank c \<Longrightarrow> skip_blanks (c # s) = c # s"
  by (simp add: skip_blanks_def)

lemma skip_blanks_all [simp]: "blanks a \<Longrightarrow> skip_blanks a = []"
  using skip_append [of a "[]"] by (simp add: skip_blanks_def)

lemma blank_chars [simp]: "\<not> is_blank 34" "\<not> is_blank 44" "\<not> is_blank 58" "\<not> is_blank 91" "\<not> is_blank 93"
  "\<not> is_blank 123" "\<not> is_blank 125"
  by (simp_all add: is_blank_def)

text \<open>A value starts neither with a blank nor with a closing bracket, and what is no string, list or object is a scalar.\<close>

definition opens_value :: "pystr \<Rightarrow> bool" where
  "opens_value t \<longleftrightarrow> t \<noteq> [] \<and> \<not> is_blank (hd t) \<and> hd t \<noteq> 93 \<and> hd t \<noteq> 125"

definition opens_scalar :: "pystr \<Rightarrow> bool" where
  "opens_scalar t \<longleftrightarrow> opens_value t \<and> hd t \<noteq> 34 \<and> hd t \<noteq> 91 \<and> hd t \<noteq> 123"

lemma number_hd:
  assumes "number_parts t = Some x"
  shows "t \<noteq> [] \<and> (ascii_digit (hd t) \<or> (hd t = 45 \<and> tl t \<noteq> [] \<and> ascii_digit (hd (tl t))))"
proof -
  have whole: "whole_part s \<noteq> None \<Longrightarrow> s \<noteq> [] \<and> ascii_digit (hd s)" for s
    by (cases s) (auto simp: whole_part_def ascii_digit_def split: if_splits)
  from assms have "whole_part (snd (read_sign [45] t)) \<noteq> None"
    by (auto simp: number_parts_def split: prod.splits bind_splits)
  from whole [OF this] show ?thesis by (cases t) (auto simp: read_sign_def split: if_splits)
qed

lemma constants_scalar: "(t, v) \<in> set CONSTANTS \<Longrightarrow> opens_scalar t"
  by (auto simp: CONSTANTS_def opens_scalar_def opens_value_def is_blank_def u_def)

lemma number_scalar: "number_parts t = Some x \<Longrightarrow> opens_scalar t"
  by (drule number_hd) (auto simp: opens_scalar_def opens_value_def is_blank_def ascii_digit_def)

text \<open>No constant starts a number, and no constant starts another one.\<close>

lemma CONSTANTS_code:
  "CONSTANTS = [([110, 117, 108, 108], PNone), ([116, 114, 117, 101], PBool True),
     ([102, 97, 108, 115, 101], PBool False), ([78, 97, 78], PFloat (NonFin [78, 97, 78])),
     ([73, 110, 102, 105, 110, 105, 116, 121], PFloat (NonFin [73, 110, 102, 105, 110, 105, 116, 121])),
     ([45, 73, 110, 102, 105, 110, 105, 116, 121], PFloat (NonFin [45, 73, 110, 102, 105, 110, 105, 116, 121]))]"
  by (simp add: CONSTANTS_def u_def)

lemma constant_at_hd:
  "constant_at (c # s) = (if c \<notin> {110, 116, 102, 78, 73, 45} then None else constant_at (c # s))"
  by (simp add: constant_at_def CONSTANTS_code)

lemma number_no_constant:
  assumes "number_parts s = Some x"
  shows "constant_at s = None"
proof -
  from number_hd [OF assms] obtain c r where s: "s = c # r" "ascii_digit c \<or> (c = 45 \<and> r \<noteq> [] \<and> ascii_digit (hd r))"
    by (cases s) auto
  show ?thesis
  proof (cases "ascii_digit c")
    case True
    then have "c \<notin> {110, 116, 102, 78, 73, 45}" by (auto simp: ascii_digit_def)
    then show ?thesis using s constant_at_hd [of c r] by simp
  next
    case False
    with s obtain d r' where "s = 45 # d # r'" "d \<noteq> 73" by (cases r) (auto simp: ascii_digit_def)
    then show ?thesis by (simp add: constant_at_def CONSTANTS_code)
  qed
qed

lemma constant_found: "(t, v) \<in> set CONSTANTS \<Longrightarrow> constant_at (t @ r) = Some (t, v)"
  unfolding constant_at_def CONSTANTS_code by (simp, elim disjE, simp_all)

lemma read_scalar_constant: "(t, v) \<in> set CONSTANTS \<Longrightarrow> read_scalar flt (t @ r) = Some (v, r)"
  by (simp add: read_scalar_def constant_found)

lemma read_scalar_int:
  assumes "small_int i" and "ends_number r"
  shows "read_scalar flt (dec_int i @ r) = Some (PInt i, r)"
  using assms int_parts [OF assms(2), of i] number_no_constant [OF int_parts [OF assms(2)], of i]
  by (simp add: read_scalar_def read_number_def small_int_def)

lemma float_parts: "float_literal t \<Longrightarrow> \<exists>g w p e. number_parts t = Some (g, w, p, e, []) \<and> p @ e \<noteq> []"
  by (auto simp: float_literal_def split: option.splits)

lemma number_parts_text:
  assumes "number_parts s = Some (g, w, p, e, r)"
  shows "g @ w @ p @ e @ r = s"
proof -
  have sign: "read_sign gs s = (g, s') \<Longrightarrow> g @ s' = s" for gs s g s'
    by (cases s) (auto simp: read_sign_def split: if_splits)
  have whole: "whole_part s = Some (w, s') \<Longrightarrow> w @ s' = s" for s w s'
    by (cases s) (auto simp: whole_part_def split: if_splits)
  have frac: "read_frac s = (p, s') \<Longrightarrow> p @ s' = s" for s p s'
    by (cases s) (auto simp: read_frac_def split: if_splits)
  have exp: "read_exp s = (e, s') \<Longrightarrow> e @ s' = s" for s e s'
    using sign by (cases s) (fastforce simp: read_exp_def split: prod.splits if_splits)+
  obtain g' s0 where 1: "read_sign [45] s = (g', s0)" by fastforce
  with assms obtain w' s1 where 2: "whole_part s0 = Some (w', s1)"
    by (cases "whole_part s0") (auto simp: number_parts_def)
  obtain p' s2 where 3: "read_frac s1 = (p', s2)" by fastforce
  obtain e' s3 where 4: "read_exp s2 = (e', s3)" by fastforce
  from assms have "g' = g" "w' = w" "p' = p" "e' = e" "s3 = r" by (auto simp: number_parts_def 1 2 3 4)
  with sign [OF 1] whole [OF 2] frac [OF 3] exp [OF 4] show ?thesis by simp
qed

lemma ends_number_blanks: "blanks b \<Longrightarrow> \<not> ascii_digit c \<Longrightarrow> c \<notin> {46, 69, 101} \<Longrightarrow> ends_number (b @ c # s)"
  by (cases b) (auto simp: ends_number_def blanks_def is_blank_def ascii_digit_def)

lemma closers [simp]: "\<not> ascii_digit 44" "\<not> ascii_digit 93" "\<not> ascii_digit 125"
  by (simp_all add: ascii_digit_def)

lemma spells_opens:
  "spells flt hook v t \<Longrightarrow> opens_value t"
  "spells_elems flt hook vs ts \<Longrightarrow> opens_value ts"
  "spells_members flt hook ps us \<Longrightarrow> \<exists>us'. us = 34 # us'"
proof (induction rule: spells_spells_elems_spells_members.inducts)
  case (spells_constant t v)
  then show ?case using constants_scalar by (auto simp: opens_scalar_def)
next
  case (spells_int i)
  have "number_parts (dec_int i) = Some (if i < 0 then [45] else [], dec_nat (nat \<bar>i\<bar>), [], [], [])"
    using int_parts [of "[]" i] by (simp add: ends_number_def)
  from number_scalar [OF this] show ?case by (simp add: opens_scalar_def)
next
  case (spells_float t)
  then obtain x where "number_parts t = Some x" using float_parts by blast
  then show ?case using number_scalar by (auto simp: opens_scalar_def)
qed (auto simp: opens_value_def json_string_def)

lemma read_value_scalar:
  assumes "opens_scalar t" and "read_scalar flt (t @ r) = Some (v, r)" and "0 < n"
  shows "read_value flt hook n (t @ r) = Some (v, r)"
proof -
  from assms(1) obtain c s where t: "t = c # s" "c \<noteq> 34" "c \<noteq> 91" "c \<noteq> 123"
    by (cases t) (auto simp: opens_scalar_def opens_value_def)
  obtain m where "n = Suc m" using assms(3) by (cases n) auto
  then show ?thesis using t assms(2) by simp
qed

lemma opens_value_Cons: "opens_value t \<Longrightarrow> \<exists>c s. t = c # s \<and> \<not> is_blank c \<and> c \<noteq> 93 \<and> c \<noteq> 125"
  by (cases t) (auto simp: opens_value_def)

lemma skip_opens: "opens_value t \<Longrightarrow> skip_blanks (t @ s) = t @ s"
  by (auto dest: opens_value_Cons)

lemma read_spelled:
  "spells flt hook v t \<Longrightarrow> 2 * length t < n \<Longrightarrow> ends_number r \<Longrightarrow> read_value flt hook n (t @ r) = Some (v, r)"
  "spells_elems flt hook vs ts \<Longrightarrow> 2 * length ts < n \<Longrightarrow> read_elems flt hook n (ts @ r) = Some (vs, r)"
  "spells_members flt hook ps us \<Longrightarrow> 2 * length us < n \<Longrightarrow> read_members flt hook n (us @ r) = Some (ps, r)"
proof (induction arbitrary: n r and n r and n r rule: spells_spells_elems_spells_members.inducts)
  case (spells_constant t v)
  then show ?case using constants_scalar read_scalar_constant by (intro read_value_scalar) auto
next
  case (spells_int i)
  have "opens_scalar (dec_int i)"
    using int_parts [of "[]" i] by (intro number_scalar) (simp add: ends_number_def)
  then show ?case using spells_int read_scalar_int by (intro read_value_scalar) auto
next
  case (spells_float t)
  from float_parts [OF spells_float(1)] obtain g w p e where parts: "number_parts t = Some (g, w, p, e, [])" "p @ e \<noteq> []"
    by blast
  note more = float_parts_append [OF parts spells_float(3)]
  have "g @ w @ p @ e = t" using number_parts_text [OF parts(1)] by simp
  then have "read_scalar flt (t @ r) = Some (PFloat (flt t), r)"
    using parts(2) more number_no_constant [OF more] by (auto simp: read_scalar_def read_number_def)
  then show ?case using number_scalar [OF parts(1)] spells_float by (intro read_value_scalar) auto
next
  case (spells_str s)
  then obtain m where "n = Suc m" by (cases n) auto
  then show ?case by (simp add: json_string_def read_chars_text)
next
  case (spells_nil a)
  then obtain m where "n = Suc m" by (cases n) auto
  then show ?case using spells_nil by simp
next
  case (spells_list a vs t)
  then obtain m where n: "n = Suc m" by (cases n) auto
  obtain c s where t: "t = c # s" "\<not> is_blank c" "c \<noteq> 93"
    using spells_opens(2) [OF spells_list(2)] by (blast dest: opens_value_Cons)
  have "read_elems flt hook m (t @ r) = Some (vs, r)" using spells_list n by (intro spells_list.IH) simp
  then show ?case using spells_list(1) n t by simp
next
  case (spells_empty a v)
  then obtain m where "n = Suc m" by (cases n) auto
  then show ?case using spells_empty by simp
next
  case (spells_dict a ps t v)
  then obtain m where n: "n = Suc m" by (cases n) auto
  obtain s where t: "t = 34 # s" using spells_opens(3) [OF spells_dict(2)] by blast
  have "read_members flt hook m (t @ r) = Some (ps, r)" using spells_dict n by (intro spells_dict.IH) simp
  then show ?case using spells_dict(1,4) n t by simp
next
  case (elems_last v t b)
  then obtain m where n: "n = Suc m" by (cases n) auto
  have "read_value flt hook m (t @ b @ 93 # r) = Some (v, b @ 93 # r)"
    using elems_last n by (intro elems_last.IH ends_number_blanks) simp_all
  then show ?case using elems_last(3) n by simp
next
  case (elems_more v t b c vs ts)
  then obtain m where n: "n = Suc m" by (cases n) auto
  have "read_value flt hook m (t @ b @ 44 # c @ ts @ r) = Some (v, b @ 44 # c @ ts @ r)"
    using elems_more n by (intro elems_more.IH ends_number_blanks) simp_all
  moreover have "read_elems flt hook m (ts @ r) = Some (vs, r)" using elems_more n by (intro elems_more.IH) simp
  ultimately show ?case
    using elems_more.hyps n skip_opens [OF spells_opens(2) [OF \<open>spells_elems flt hook vs ts\<close>]] by simp
next
  case (members_last v t a b c k)
  then obtain m where n: "n = Suc m" by (cases n) auto
  have "read_value flt hook m (t @ c @ 125 # r) = Some (v, c @ 125 # r)"
    using members_last n by (intro members_last.IH ends_number_blanks) simp_all
  then show ?case
    using members_last.hyps n skip_opens [OF spells_opens(1) [OF \<open>spells flt hook v t\<close>]]
    by (simp add: json_string_def read_chars_text)
next
  case (members_more v t a b c d ps ts k)
  then obtain m where n: "n = Suc m" by (cases n) auto
  have "read_value flt hook m (t @ c @ 44 # d @ ts @ r) = Some (v, c @ 44 # d @ ts @ r)"
    using members_more n by (intro members_more.IH ends_number_blanks) simp_all
  moreover have "read_members flt hook m (ts @ r) = Some (ps, r)" using members_more n by (intro members_more.IH) simp
  moreover obtain s where "ts = 34 # s" using spells_opens(3) [OF \<open>spells_members flt hook ps ts\<close>] by blast
  ultimately show ?case
    using members_more.hyps n skip_opens [OF spells_opens(1) [OF \<open>spells flt hook v t\<close>]]
    by (simp add: json_string_def read_chars_text)
qed

theorem loads_spelled:
  assumes "spells flt hook v t" and "blanks a" and "blanks b"
  shows "loads flt hook (a @ t @ b) = Some v"
proof -
  have "ends_number b" using assms(3) by (cases b) (auto simp: ends_number_def blanks_def is_blank_def ascii_digit_def)
  then have "read_value flt hook (Suc (2 * length (a @ t @ b))) (t @ b) = Some (v, b)"
    by (intro read_spelled(1) [OF assms(1)]) simp_all
  then show ?thesis
    using assms skip_opens [OF spells_opens(1) [OF assms(1)]] by (simp add: loads_def loads_with_def)
qed

section \<open>What \<open>json.dumps\<close> prints\<close>

text \<open>
  Values that come back: a number is within the digits \<open>int\<close> accepts, the text of a float denotes that
  float (\<open>float(repr(x)) == x\<close>), and the keys of an object are distinct strings.
\<close>

definition float_back :: "(pystr \<Rightarrow> pyfloat) \<Rightarrow> pyfloat \<Rightarrow> bool" where
  "float_back flt f = (case f of
       Fin r t \<Rightarrow> float_literal t \<and> flt t = f
     | NonFin t \<Rightarrow> t \<in> {u ''NaN'', u ''Infinity'', u ''-Infinity''})"

primrec loadable :: "(pystr \<Rightarrow> pyfloat) \<Rightarrow> pyval \<Rightarrow> bool" where
  "loadable flt PNone = True"
| "loadable flt (PBool b) = True"
| "loadable flt (PInt i) = small_int i"
| "loadable flt (PFloat f) = float_back flt f"
| "loadable flt (PStr s) = True"
| "loadable flt (PList xs) = list_all id (map (loadable flt) xs)"
| "loadable flt (PTuple xs) = list_all id (map (loadable flt) xs)"
| "loadable flt (PDict d) = (distinct (map fst d) \<and> list_all (\<lambda>k. as_str k \<noteq> None) (map fst d)
     \<and> list_all snd (map (map_prod (loadable flt) (loadable flt)) d))"
| "loadable flt (POther n) = False"

text \<open>A hook that keeps the members of an object whose keys are distinct.\<close>

definition keeps_members :: "pairs_hook \<Rightarrow> bool" where
  "keeps_members hook \<longleftrightarrow> (\<forall>ps. distinct (map fst ps) \<longrightarrow> hook ps = Some (PDict (map (\<lambda>(k, v). (PStr k, v)) ps)))"

lemma update_fresh: "k \<notin> fst ` set d \<Longrightarrow> AList.update k v d = d @ [(k, v)]"
  by (induction d) auto

lemma fold_update:
  "distinct (map fst d @ map fst ps) \<Longrightarrow>
     fold (\<lambda>(k, v). AList.update (PStr k) v) ps (map (\<lambda>(k, v). (PStr k, v)) d) = map (\<lambda>(k, v). (PStr k, v)) (d @ ps)"
proof (induction ps arbitrary: d)
  case (Cons p ps)
  obtain k v where p: "p = (k, v)" by (cases p)
  have "PStr k \<notin> fst ` set (map (\<lambda>(k, v). (PStr k, v)) d)" using Cons.prems p by force
  with Cons.IH [of "d @ [(k, v)]"] Cons.prems p show ?case by (simp add: update_fresh)
qed simp

lemma hooks_keep: "keeps_members dict_hook" "keeps_members unique_hook"
  using fold_update [of "[]"] by (auto simp: keeps_members_def dict_hook_def unique_hook_def)

text \<open>The members of an object as \<open>sort_keys\<close> orders them.\<close>

definition sorted_members :: "(pyval \<times> pyval) list \<Rightarrow> (pystr \<times> pyval) list" where
  "sorted_members d = sort_key fst (map (\<lambda>(k, v). (key_text k, v)) d)"

lemma map_sort_key: "(\<And>x. x \<in> set xs \<Longrightarrow> f (g x) = k x) \<Longrightarrow> map g (sort_key k xs) = sort_key f (map g xs)"
proof (induction xs)
  case (Cons x xs)
  have "map g (insort_key k x ys) = insort_key f (g x) (map g ys)" if "set ys \<subseteq> set xs" for ys
    using that Cons.prems by (induction ys) auto
  with Cons show ?case by simp
qed simp

lemma norm_dict: "json_norm (PDict d) = PDict (sort_key (key_text \<circ> fst) (map (\<lambda>(k, v). (k, json_norm v)) d))"
  by (induction d) (auto simp: comp_def case_prod_unfold zip_map_fst_snd map_prod_def zip_map_map zip_same_conv_map)

lemma norm_members:
  assumes "list_all (\<lambda>k. as_str k \<noteq> None) (map fst d)"
  shows "json_norm (PDict d) = PDict (map (\<lambda>(k, v). (PStr k, json_norm v)) (sorted_members d))"
proof -
  have str: "x \<in> set d \<Longrightarrow> PStr (key_text (fst x)) = fst x" for x
    using assms by (auto simp: list_all_iff key_text_def)
  have "map (\<lambda>(k, v). (PStr k, json_norm v)) (sorted_members d) =
      sort_key (key_text \<circ> fst) (map (\<lambda>(k, v). (PStr k, json_norm v)) (map (\<lambda>(k, v). (key_text k, v)) d))"
    unfolding sorted_members_def by (rule map_sort_key) (auto simp: key_text_def)
  also have "map (\<lambda>(k, v). (PStr k, json_norm v)) (map (\<lambda>(k, v). (key_text k, v)) d) = map (\<lambda>(k, v). (k, json_norm v)) d"
    using str by (auto simp: case_prod_unfold)
  finally show ?thesis by (simp only: norm_dict)
qed

lemma sorted_members_distinct:
  assumes "distinct (map fst d)" and "list_all (\<lambda>k. as_str k \<noteq> None) (map fst d)"
  shows "distinct (map fst (sorted_members d))"
proof -
  have "inj_on key_text (set (map fst d))"
    using assms(2) by (fastforce simp: inj_on_def list_all_iff key_text_def split: option.splits)
  then have "distinct (map key_text (map fst d))" using assms(1) by (simp add: distinct_map comp_inj_on)
  moreover have "distinct (map fst (sort_key fst ps)) = distinct (map fst ps)" for ps :: "(pystr \<times> pyval) list"
    by (metis mset_map mset_sort mset_eq_imp_distinct_iff)
  ultimately show ?thesis by (simp add: sorted_members_def case_prod_unfold comp_def)
qed

lemma dumps_members:
  "json_dumps (PDict d) = 123 # join_comma (map member_text (map (\<lambda>(k, v). (k, json_dumps v)) (sorted_members d))) @ [125]"
proof -
  have "map (\<lambda>(k, v). (k, json_dumps v)) (sorted_members d) =
      sort_key fst (map (\<lambda>(k, v). (k, json_dumps v)) (map (\<lambda>(k, v). (key_text k, v)) d))"
    unfolding sorted_members_def by (rule map_sort_key) auto
  then show ?thesis by (simp add: dumps_dict case_prod_unfold comp_def zip_map_map zip_same_conv_map)
qed

lemma spelled_elems:
  "vs \<noteq> [] \<Longrightarrow> blanks b \<Longrightarrow> blanks c \<Longrightarrow> list_all2 (spells flt hook) vs ts \<Longrightarrow>
     spells_elems flt hook vs (join_with (44 # c) ts @ b @ [93])"
proof (induction vs arbitrary: ts)
  case (Cons v vs)
  then obtain t ts' where ts: "ts = t # ts'" "spells flt hook v t" "list_all2 (spells flt hook) vs ts'"
    by (auto simp: list_all2_Cons1)
  show ?case
  proof (cases vs)
    case Nil
    with ts have "ts' = []" by simp
    with elems_last [OF ts(2) Cons.prems(2)] Nil ts show ?thesis by simp
  next
    case (Cons w ws)
    with ts obtain s ss where ts': "ts' = s # ss" by (auto simp: list_all2_Cons1)
    have "blanks []" by (simp add: blanks_def)
    from elems_more [OF ts(2) this Cons.prems(3) Cons.IH [OF _ Cons.prems(2,3) ts(3)]] Cons ts ts' show ?thesis
      by simp
  qed
qed simp

lemma spelled_members:
  "ps \<noteq> [] \<Longrightarrow> blanks b \<Longrightarrow> blanks c \<Longrightarrow> blanks d \<Longrightarrow> list_all2 (\<lambda>(k, v) (k', t). k' = k \<and> spells flt hook v t) ps ts \<Longrightarrow>
     spells_members flt hook ps (join_with (44 # c) (map (\<lambda>(k, t). json_string k @ 58 # d @ t) ts) @ b @ [125])"
proof (induction ps arbitrary: ts)
  case (Cons p ps)
  then obtain k v t ts' where ts: "p = (k, v)" "ts = (k, t) # ts'" "spells flt hook v t"
    "list_all2 (\<lambda>(k, v) (k', t). k' = k \<and> spells flt hook v t) ps ts'"
    by (fastforce simp: list_all2_Cons1)
  have none: "blanks []" by (simp add: blanks_def)
  show ?case
  proof (cases ps)
    case Nil
    with ts have "ts' = []" by simp
    with members_last [OF ts(3) none Cons.prems(4,2), of k] Nil ts show ?thesis by simp
  next
    case (Cons q qs)
    with ts obtain s ss where ts': "ts' = s # ss" by (auto simp: list_all2_Cons1)
    from members_more [OF ts(3) none Cons.prems(4) none Cons.prems(3) Cons.IH [OF _ Cons.prems(2,3,4) ts(4)], of k] Cons ts ts'
    show ?thesis by simp
  qed
qed simp

lemma join_comma_with: "join_comma ts = join_with [44] ts"
  by (induction ts rule: join_comma.induct) simp_all

lemma spelled_list:
  assumes "blanks a" and "blanks b" and "blanks c" and "list_all2 (spells flt hook) vs ts" and "vs \<noteq> []"
  shows "spells flt hook (PList vs) (91 # a @ join_with (44 # c) ts @ b @ [93])"
  by (rule spells_list [OF assms(1) spelled_elems [OF assms(5,2,3,4)]])

lemma spelled_dict:
  assumes "keeps_members hook" and "blanks a" and "blanks b" and "blanks c" and "blanks d"
    and "list_all2 (\<lambda>(k, v) (k', t). k' = k \<and> spells flt hook v t) ps ts" and "ps \<noteq> []" and "distinct (map fst ps)"
  shows "spells flt hook (PDict (map (\<lambda>(k, v). (PStr k, v)) ps))
    (123 # a @ join_with (44 # c) (map (\<lambda>(k, t). json_string k @ 58 # d @ t) ts) @ b @ [125])"
  using assms(1,8) spelled_members [OF assms(7,3,4,5,6)]
  by (intro spells_dict [OF assms(2)]) (auto simp: keeps_members_def)

lemma loadable_scalars:
  "spells flt hook PNone (u ''null'')" "spells flt hook (PBool b) (if b then u ''true'' else u ''false'')"
  "float_back flt f \<Longrightarrow> spells flt hook (PFloat f) (case f of Fin _ t \<Rightarrow> t | NonFin t \<Rightarrow> t)"
proof -
  show "spells flt hook PNone (u ''null'')" "spells flt hook (PBool b) (if b then u ''true'' else u ''false'')"
    by (rule spells_constant, simp add: CONSTANTS_def)+
  assume printed: "float_back flt f"
  show "spells flt hook (PFloat f) (case f of Fin _ t \<Rightarrow> t | NonFin t \<Rightarrow> t)"
  proof (cases f)
    case (Fin r t)
    with printed spells_float [of t flt hook] show ?thesis by (simp add: float_back_def)
  next
    case (NonFin t)
    with printed show ?thesis by (auto simp: float_back_def CONSTANTS_def intro!: spells_constant)
  qed
qed

lemma loadable_dict [simp]:
  "loadable flt (PDict d) \<longleftrightarrow> distinct (map fst d) \<and> list_all (\<lambda>k. as_str k \<noteq> None) (map fst d)
     \<and> (\<forall>x\<in>set d. loadable flt (snd x))"
  by (induction d) auto

lemma loadable_seq [simp]:
  "loadable flt (PList xs) \<longleftrightarrow> (\<forall>x\<in>set xs. loadable flt x)" "loadable flt (PTuple xs) \<longleftrightarrow> (\<forall>x\<in>set xs. loadable flt x)"
  by (auto simp: list_all_iff)

declare loadable.simps(6-8) [simp del]

lemma sorted_members_in: "(k, v) \<in> set (sorted_members d) \<Longrightarrow> \<exists>k'. (k', v) \<in> set d"
  by (auto simp: sorted_members_def)

lemma members_spelled:
  assumes "\<And>x. x \<in> set d \<Longrightarrow> spells flt hook (json_norm (snd x)) (f (snd x))"
  shows "list_all2 (\<lambda>(k, v) (k', t). k' = k \<and> spells flt hook v t)
    (map (\<lambda>(k, v). (k, json_norm v)) (sorted_members d)) (map (\<lambda>(k, v). (k, f v)) (sorted_members d))"
proof -
  have "list_all2 (\<lambda>(k, v) (k', t). k' = k \<and> spells flt hook v t) (map (\<lambda>(k, v). (k, json_norm v)) ps) (map (\<lambda>(k, v). (k, f v)) ps)"
    if "\<And>k v. (k, v) \<in> set ps \<Longrightarrow> spells flt hook (json_norm v) (f v)" for ps :: "(pystr \<times> pyval) list"
    using that by (induction ps) auto
  moreover have "spells flt hook (json_norm v) (f v)" if "(k, v) \<in> set (sorted_members d)" for k v
    using sorted_members_in [OF that] assms by fastforce
  ultimately show ?thesis by blast
qed

lemma sorted_members_Nil [simp]: "sorted_members d = [] \<longleftrightarrow> d = []"
  by (simp add: sorted_members_def flip: length_0_conv)

lemma members_distinct_map:
  "map fst (map (\<lambda>(k, v). (k, f v)) ps) = map fst ps"
  by (simp add: case_prod_unfold comp_def)

lemma norm_spelled:
  assumes "keeps_members hook" and "loadable flt (PDict d)" and "d \<noteq> []"
    and "\<And>x. x \<in> set d \<Longrightarrow> spells flt hook (json_norm (snd x)) (f (snd x))"
    and "blanks a" and "blanks b" and "blanks c" and "blanks e"
  shows "spells flt hook (json_norm (PDict d)) (123 # a @ join_with (44 # c)
    (map (\<lambda>(k, t). json_string k @ 58 # e @ t) (map (\<lambda>(k, v). (k, f v)) (sorted_members d))) @ b @ [125])"
proof -
  have str: "list_all (\<lambda>k. as_str k \<noteq> None) (map fst d)" and dist: "distinct (map fst d)" using assms(2) by simp_all
  have "distinct (map fst (map (\<lambda>(k, v). (k, json_norm v)) (sorted_members d)))"
    unfolding members_distinct_map by (rule sorted_members_distinct [OF dist str])
  from spelled_dict [OF assms(1,5,6,7,8) members_spelled [OF assms(4)] _ this] assms(3)
  show ?thesis unfolding norm_members [OF str] by (simp add: case_prod_unfold comp_def)
qed

lemma dumps_spelled: "keeps_members hook \<Longrightarrow> loadable flt v \<Longrightarrow> spells flt hook (json_norm v) (json_dumps v)"
proof (induction v)
  case (PList xs)
  have "list_all2 (spells flt hook) (map json_norm xs) (map json_dumps xs)"
    using PList by (auto simp: list_all2_conv_all_nth)
  with spelled_list [of "[]" "[]" "[]" flt hook] spells_nil [of "[]" flt hook] show ?case
    by (cases xs) (simp_all add: blanks_def join_comma_with)
next
  case (PTuple xs)
  have "list_all2 (spells flt hook) (map json_norm xs) (map json_dumps xs)"
    using PTuple by (auto simp: list_all2_conv_all_nth)
  with spelled_list [of "[]" "[]" "[]" flt hook] spells_nil [of "[]" flt hook] show ?case
    by (cases xs) (simp_all add: blanks_def join_comma_with)
next
  case (PDict d)
  have inner: "spells flt hook (json_norm (snd x)) (json_dumps (snd x))" if "x \<in> set d" for x
    using PDict.IH(2) [OF that, of "snd x"] PDict.prems that by (cases x) auto
  have none: "blanks []" by (simp add: blanks_def)
  show ?case
  proof (cases "d = []")
    case True
    then show ?thesis using spells_empty [OF none, of hook] PDict.prems(1) by (simp add: keeps_members_def)
  next
    case False
    from norm_spelled [OF PDict.prems False inner none none none none]
    show ?thesis by (simp add: dumps_members join_comma_with member_text_def case_prod_unfold comp_def del: json_dumps.simps json_norm.simps)
  qed
qed (use loadable_scalars spells_int spells_str in \<open>simp_all\<close>)

lemma pretty_members:
  "json_pretty (PDict d) n = block_text 123 125 n
     (map (\<lambda>(k, t). json_string k @ 58 # [32] @ t) (map (\<lambda>(k, v). (k, json_pretty v (Suc n))) (sorted_members d)))"
proof -
  have sorted: "map (\<lambda>(k, v). (k, json_pretty v)) (sorted_members d) =
      sort_key fst (map (\<lambda>(k, v). (k, json_pretty v)) (map (\<lambda>(k, v). (key_text k, v)) d))"
    unfolding sorted_members_def by (rule map_sort_key) auto
  have pairs: "zip (map (key_text \<circ> fst) d) (map snd (map (map_prod json_pretty json_pretty) d)) =
      map (\<lambda>(k, v). (k, json_pretty v)) (map (\<lambda>(k, v). (key_text k, v)) d)"
    by (simp add: zip_map_map zip_same_conv_map case_prod_unfold comp_def)
  have "json_pretty (PDict d) n = block_text 123 125 n (map (\<lambda>(k, f). json_string k @ u '': '' @ f (Suc n))
      (map (\<lambda>(k, v). (k, json_pretty v)) (sorted_members d)))"
    unfolding json_pretty.simps(8) pairs sorted ..
  then show ?thesis by (simp add: case_prod_unfold comp_def u_def)
qed

lemma new_line_blanks [simp]: "blanks (new_line n)"
  by (simp add: new_line_def blanks_def is_blank_def list_all_iff)

lemma block_elems:
  assumes "list_all2 (spells flt hook) vs ts"
  shows "spells flt hook (PList vs) (block_text 91 93 n ts)"
proof (cases "vs = []")
  case True
  then show ?thesis using assms spells_nil [of "[]" flt hook] by (simp add: block_text_def blanks_def)
next
  case False
  moreover from this assms have "ts \<noteq> []" by (cases vs) (auto simp: list_all2_Cons1)
  ultimately show ?thesis using spelled_list [OF _ _ _ assms] by (simp add: block_text_def)
qed

lemma pretty_spelled: "keeps_members hook \<Longrightarrow> loadable flt v \<Longrightarrow> spells flt hook (json_norm v) (json_pretty v n)"
proof (induction v arbitrary: n)
  case (PList xs)
  have "list_all2 (spells flt hook) (map json_norm xs) (map (\<lambda>v. json_pretty v (Suc n)) xs)"
    using PList by (auto simp: list_all2_conv_all_nth)
  then show ?case by (simp add: block_elems comp_def)
next
  case (PTuple xs)
  have "list_all2 (spells flt hook) (map json_norm xs) (map (\<lambda>v. json_pretty v (Suc n)) xs)"
    using PTuple by (auto simp: list_all2_conv_all_nth)
  then show ?case by (simp add: block_elems comp_def)
next
  case (PDict d)
  have inner: "spells flt hook (json_norm (snd x)) (json_pretty (snd x) (Suc n))" if "x \<in> set d" for x
    using PDict.IH(2) [OF that, of "snd x"] PDict.prems that by (cases x) auto
  show ?case
  proof (cases "d = []")
    case True
    then show ?thesis using spells_empty [of "[]" hook] PDict.prems(1)
      by (simp add: keeps_members_def block_text_def blanks_def)
  next
    case False
    have "blanks [32]" by (simp add: blanks_def is_blank_def)
    from norm_spelled [OF PDict.prems False inner new_line_blanks new_line_blanks new_line_blanks this] False
    show ?thesis unfolding pretty_members by (simp add: block_text_def del: json_norm.simps)
  qed
qed (use loadable_scalars spells_int spells_str in \<open>simp_all\<close>)

lemma loads_dumps:
  assumes "keeps_members hook" and "loadable flt v"
  shows "loads flt hook (json_dumps v) = Some (json_norm v)"
    and "loads flt hook (json_pretty v n @ [10]) = Some (json_norm v)"
  using loads_spelled [OF dumps_spelled [OF assms], of "[]" "[]"] loads_spelled [OF pretty_spelled [OF assms], of "[]" "[10]"]
  by (simp_all add: blanks_def is_blank_def)

section \<open>Properties\<close>

text \<open>
  C7: what \<open>json.dumps\<close> writes is what \<open>json.loads\<close> reads: both the canonical text and the indented
  document of a value, with any escapes, nesting and order of keys, come back as the value itself,
  with its tuples as lists and its keys sorted, whether or not repeated keys are refused.
\<close>

theorem json_text_roundtrip:
  assumes "loadable flt v"
  shows "loads flt dict_hook (json_dumps v) = Some (json_norm v) \<and>
    loads flt dict_hook (json_pretty v 0 @ [10]) = Some (json_norm v) \<and>
    loads flt unique_hook (json_dumps v) = Some (json_norm v)"
  using loads_dumps [OF hooks_keep(1) assms] loads_dumps(1) [OF hooks_keep(2) assms] by blast

text \<open>Equal canonical texts are texts of equal values.\<close>

lemma dumps_injective:
  "loadable flt v \<Longrightarrow> loadable flt w \<Longrightarrow> json_dumps v = json_dumps w \<Longrightarrow> json_norm v = json_norm w"
  using loads_dumps(1) [OF hooks_keep(1), of flt v] loads_dumps(1) [OF hooks_keep(1), of flt w] by simp

definition demo_value :: pyval where
  "demo_value = PDict [(PStr (u ''b''), PTuple [PInt (-12), PBool True, PNone, PFloat (Fin (3/2) (u ''1.5''))]),
     (PStr (u ''a''), PStr [10, 34, 1, 8232])]"

definition demo_float :: "pystr \<Rightarrow> pyfloat" where
  "demo_float t = Fin (3/2) t"

lemma json_text_roundtrip_witness:
  "loads demo_float dict_hook (json_dumps demo_value) = Some (PDict
     [(PStr (u ''a''), PStr [10, 34, 1, 8232]),
      (PStr (u ''b''), PList [PInt (-12), PBool True, PNone, PFloat (Fin (3/2) (u ''1.5''))])])"
proof -
  have "loadable demo_float demo_value" by (simp add: demo_value_def small_int_def dec_nat_small dec_nat_Cons float_back_def demo_float_def float_literal_def number_parts_def read_sign_def whole_part_def read_frac_def read_exp_def ascii_digit_def u_def)
  moreover have "json_norm demo_value = PDict [(PStr (u ''a''), PStr [10, 34, 1, 8232]),
      (PStr (u ''b''), PList [PInt (-12), PBool True, PNone, PFloat (Fin (3/2) (u ''1.5''))])]"
    by (simp add: demo_value_def key_text_def u_def)
  ultimately show ?thesis using json_text_roundtrip by metis
qed

end
