(* ===== verification/Json_Members.thy ===== *)
theory Json_Members
  imports Json_Loads Worker_Protocol
begin

text \<open>
  Facts of written and read documents that the components share: the characters of a text, and the
  members of a mapping once its keys are in order.
\<close>

section \<open>The characters of a text\<close>

lemma encodable_u [simp]: "encodable (u s)"
proof -
  have "\<not> is_surrogate x" if "x < 256" for x using that by (simp add: is_surrogate_def)
  then show ?thesis by (simp add: encodable_def u_def)
qed

text \<open>Printable texts of floats: what Python writes for them.\<close>

primrec printable_floats :: "pyval \<Rightarrow> bool" where
  "printable_floats PNone = True"
| "printable_floats (PBool b) = True"
| "printable_floats (PInt i) = True"
| "printable_floats (PFloat f) = (case f of Fin _ t \<Rightarrow> \<forall>c\<in>set t. 32 \<le> c | NonFin t \<Rightarrow> \<forall>c\<in>set t. 32 \<le> c)"
| "printable_floats (PStr s) = True"
| "printable_floats (PList xs) = list_all id (map printable_floats xs)"
| "printable_floats (PTuple xs) = list_all id (map printable_floats xs)"
| "printable_floats (PDict d) = list_all snd (map (map_prod printable_floats printable_floats) d)"
| "printable_floats (POther n) = True"

lemma json_string_printable: "c \<in> set (json_string s) \<Longrightarrow> 32 \<le> c"
proof -
  have hex: "32 \<le> hex_digit n" for n by (simp add: hex_digit_def)
  have "\<forall>c\<in>set (json_char x). 32 \<le> c" for x
    unfolding json_char_def by (simp add: hex)
  then show "c \<in> set (json_string s) \<Longrightarrow> 32 \<le> c" by (fastforce simp: json_string_def)
qed

lemma join_comma_chars: "c \<in> set (join_comma ts) \<Longrightarrow> c = 44 \<or> (\<exists>t\<in>set ts. c \<in> set t)"
  by (induction ts rule: join_comma.induct) auto

lemma dumps_printable: "printable_floats v \<Longrightarrow> c \<in> set (json_dumps v) \<Longrightarrow> 32 \<le> c"
proof (induction v arbitrary: c)
  case (PInt i)
  then show ?case by (fastforce simp: dec_int_def split: if_splits dest: dec_nat_ascii)
next
  case (PFloat f)
  then show ?case by (cases f) auto
next
  case (PStr s)
  then show ?case by (simp add: json_string_printable)
next
  case (PList xs)
  have "32 \<le> a" if "a \<in> set (join_comma (map json_dumps xs))" for a
    using join_comma_chars [OF that] PList by (auto simp: list_all_iff)
  with PList.prems(2) show ?case by auto
next
  case (PTuple xs)
  have "32 \<le> a" if "a \<in> set (join_comma (map json_dumps xs))" for a
    using join_comma_chars [OF that] PTuple by (auto simp: list_all_iff)
  with PTuple.prems(2) show ?case by auto
next
  case (PDict d)
  have member: "32 \<le> a" if "(k, v) \<in> set d" "a \<in> set (member_text (key_text k, json_dumps v))" for k v a
  proof -
    have "v \<in> Basic_BNFs.snds (k, v)" by simp
    with that PDict.IH(2) [OF that(1) this] PDict.prems(1) show ?thesis
      by (auto simp: member_text_def list_all_iff dest: json_string_printable)
  qed
  have "32 \<le> a" if "a \<in> set (join_comma (map member_text (sort_key fst (map (\<lambda>(k, v). (key_text k, json_dumps v)) d))))" for a
    using join_comma_chars [OF that] member by auto
  then show ?case using PDict.prems(2) unfolding dumps_dict by auto
qed (auto simp: u_def split: if_splits)

lemma number_chars:
  assumes "number_parts s = Some (g, w, p, e, r)"
  shows "\<forall>c\<in>set (g @ w @ p @ e). 32 \<le> c"
proof -
  have digits: "\<forall>c\<in>set (takeWhile ascii_digit t). 32 \<le> c" for t
    by (auto dest!: set_takeWhileD simp: ascii_digit_def)
  have sign: "read_sign gs t = (g', t') \<Longrightarrow> set g' \<subseteq> set gs" for gs t g' t'
    by (auto simp: read_sign_def split: list.splits if_splits)
  have whole: "whole_part t = Some (w', t') \<Longrightarrow> \<forall>c\<in>set w'. 32 \<le> c" for t w' t'
    using digits by (auto simp: whole_part_def ascii_digit_def split: list.splits if_splits)
  have frac: "read_frac t = (p', t') \<Longrightarrow> \<forall>c\<in>set p'. 32 \<le> c" for t p' t'
    using digits by (auto simp: read_frac_def split: list.splits if_splits)
  have exponent: "read_exp t = (e', t') \<Longrightarrow> \<forall>c\<in>set e'. 32 \<le> c" for t e' t'
  proof (cases t)
    case (Cons c cs)
    assume read: "read_exp t = (e', t')"
    obtain g' s' where g': "read_sign [43, 45] cs = (g', s')" by fastforce
    with read Cons have "e' = [] \<or> c \<in> {69, 101} \<and> e' = c # g' @ takeWhile ascii_digit s'"
      by (auto simp: read_exp_def split: if_splits)
    moreover have "\<forall>x\<in>set g'. 32 \<le> x" using sign [OF g'] by auto
    ultimately show ?thesis using digits [of s'] by auto
  qed (simp add: read_exp_def)
  obtain g' s1 where s1: "read_sign [45] s = (g', s1)" by fastforce
  with assms obtain w' s2 where s2: "whole_part s1 = Some (w', s2)"
    by (auto simp: number_parts_def bind_eq_Some_conv)
  obtain p' s3 where s3: "read_frac s2 = (p', s3)" by fastforce
  obtain e' s4 where s4: "read_exp s3 = (e', s4)" by fastforce
  have parts: "read_sign [45] s = (g, s1)" "whole_part s1 = Some (w, s2)" "read_frac s2 = (p, s3)" "read_exp s3 = (e, r)"
    using assms s1 s2 s3 s4 by (simp_all add: number_parts_def)
  from sign [OF parts(1)] whole [OF parts(2)] frac [OF parts(3)] exponent [OF parts(4)] show ?thesis by auto
qed

lemma loadable_printable: "loadable flt v \<Longrightarrow> printable_floats v"
proof (induction v)
  case (PFloat f)
  then show ?case
  proof (cases f)
    case (Fin x t)
    with PFloat have "float_literal t" by (simp add: float_back_def)
    then obtain g w p e where "number_parts t = Some (g, w, p, e, [])" using float_parts by blast
    from number_chars [OF this] number_parts_text [OF this] show ?thesis by (auto simp: Fin)
  next
    case (NonFin t)
    with PFloat show ?thesis by (auto simp: float_back_def u_def)
  qed
next
  case (PDict d)
  then show ?case by (auto simp: list_all_iff)
qed (auto simp: list_all_iff)

section \<open>Members in order\<close>

text \<open>Sorting the keys first does not change the text.\<close>

lemma dumps_norm: "json_dumps (json_norm v) = json_dumps v"
proof (induction v)
  case (PDict d)
  let ?e = "map (\<lambda>(k, v). (k, json_norm v)) d"
  have a: "map (\<lambda>(k, v). (key_text k, json_dumps v)) (sort_key (key_text \<circ> fst) ?e) =
      sort_key fst (map (\<lambda>(k, v). (key_text k, json_dumps v)) ?e)"
    by (rule map_sort_key) auto
  have b: "map (\<lambda>(k, v). (key_text k, json_dumps v)) ?e = map (\<lambda>(k, v). (key_text k, json_dumps v)) d"
    using PDict.IH(2) by fastforce
  have c: "sort_key fst (sort_key fst xs) = sort_key fst xs" for xs :: "(pystr \<times> pystr) list"
    by (rule sort_key_id_if_sorted) simp
  show ?case by (simp only: norm_dict dumps_dict a b c)
qed (simp_all add: comp_def cong: map_cong)

lemma item_of_sorted:
  assumes "distinct (map fst d)"
  shows "item_of (sort_key f d) k = item_of d k"
proof -
  have "map_of (sort_key f d) = map_of d"
  proof (rule map_of_eqI)
    show "\<forall>x\<in>set (map fst (sort_key f d)). map_of (sort_key f d) x = map_of d x"
    proof
      fix x assume "x \<in> set (map fst (sort_key f d))"
      then obtain y where y: "(x, y) \<in> set (sort_key f d)" by auto
      have "distinct (map fst (sort_key f d))"
        using assms by (metis mset_eq_imp_distinct_iff mset_map mset_sort)
      with y assms show "map_of (sort_key f d) x = map_of d x" by (simp add: map_of_is_SomeI)
    qed
  qed simp
  then show ?thesis by (simp add: item_of_def field_def)
qed

lemma item_of_norm:
  assumes "distinct (map fst d)" and "json_norm (PDict d) = PDict d'"
  shows "fst ` set d' = fst ` set d" and "PStr (u k) \<in> fst ` set d \<Longrightarrow> item_of d' k = json_norm (item_of d k)"
proof -
  have d': "d' = sort_key (key_text \<circ> fst) (map (\<lambda>(k, v). (k, json_norm v)) d)"
  proof -
    have "zip (map fst d) (map snd (map (map_prod json_norm json_norm) d)) = map (\<lambda>(k, v). (k, json_norm v)) d"
      by (induction d) auto
    with assms(2) show ?thesis by simp
  qed
  show "fst ` set d' = fst ` set d" by (force simp: d' image_iff)
  have keys: "map fst (map (\<lambda>(k, v). (k, json_norm v)) d) = map fst d" by (simp add: comp_def case_prod_unfold)
  show "item_of d' k = json_norm (item_of d k)" if "PStr (u k) \<in> fst ` set d"
  proof -
    have "item_of d' k = item_of (map (\<lambda>(k, v). (k, json_norm v)) d) k"
      unfolding d' by (rule item_of_sorted) (simp only: keys assms(1))
    also from that have "\<dots> = json_norm (item_of d k)"
      by (induction d) (auto simp: item_of_def field_def)
    finally show ?thesis .
  qed
qed

text \<open>The members of a dictionary after a round through JSON.\<close>

lemma sorted_items:
  assumes "json_norm (PDict d) = PDict d'" and "distinct (map fst d)"
  shows "fst ` set d' = fst ` set d"
    and "field d k = Some v \<Longrightarrow> item_of d' k = json_norm v"
    and "field d k = Some v \<Longrightarrow> field d' k = Some (json_norm v)"
proof -
  show keys: "fst ` set d' = fst ` set d" by (rule item_of_norm(1) [OF assms(2,1)])
  assume "field d k = Some v"
  then have k: "PStr (u k) \<in> fst ` set d" by (force simp: field_def dest: map_of_SomeD)
  with \<open>field d k = Some v\<close> item_of_norm(2) [OF assms(2,1)] show item: "item_of d' k = json_norm v"
    by (simp add: item_of_def)
  from k keys have "field d' k \<noteq> None" by (simp add: field_def map_of_eq_None_iff)
  with item show "field d' k = Some (json_norm v)" by (auto simp: item_of_def)
qed

lemma norm_is_dict: obtains d' where "json_norm (PDict d) = PDict d'"
  by simp

end
