(* ===== verification/Run_Repository.thy ===== *)
theory Run_Repository
  imports Resume_Document Json_Members
begin

text \<open>
  The durable store of the active run, \<open>src/adapters/file_run_state_repository.py\<close>: a signed manifest
  that points at the six files of one revision, saved by publishing a revision directory, replacing
  the manifest and pruning the older revisions.

  The disk is the record \<open>repo\<close>: the active manifest, the revision directories, the files of the
  older layout, the archived manifests and the staging directories left behind. A file is its
  decoded text; one that is not UTF-8 holds a surrogate. An operation returns the disk states
  it passes through, each the effect of one rename or unlink (what is written into a staging directory
  before its rename does not count), so a crash leaves one of them. The integrity key, SHA-256, HMAC and \<open>json.loads\<close> are parameters; symbolic links, locks, failing
  system calls and mappings with keys that are not strings are left out.
\<close>

section \<open>Values of the repository\<close>

datatype repo_error = Integrity string | Rejected string | Mistyped string | NotEncodable | BadRunState run_error

record repo_env =
  key_provider :: "pystr option"
  hmac_hex :: "pystr \<Rightarrow> pystr \<Rightarrow> pystr"
  sha256_hex :: "pystr \<Rightarrow> pystr"
  json_loads :: "pystr \<Rightarrow> pyval option"
  redactor_of :: redactor
  iso_reader :: "pystr \<Rightarrow> bool option"
  casefold_of :: "pystr \<Rightarrow> pystr"
  safe_cleanup :: bool

datatype file_name = StateFile | ResumeFile | DecisionsFile | EventsFile | ArtifactsFile | VerificationFile

definition file_names :: "file_name list" where
  "file_names = [StateFile, ResumeFile, DecisionsFile, EventsFile, ArtifactsFile, VerificationFile]"

definition name_key :: "file_name \<Rightarrow> string" where
  "name_key f = (case f of StateFile \<Rightarrow> ''state'' | ResumeFile \<Rightarrow> ''resume'' | DecisionsFile \<Rightarrow> ''decisions''
     | EventsFile \<Rightarrow> ''events'' | ArtifactsFile \<Rightarrow> ''artifacts'' | VerificationFile \<Rightarrow> ''verification'')"

definition file_text :: "file_name \<Rightarrow> string" where
  "file_text f = (case f of StateFile \<Rightarrow> ''state.json'' | ResumeFile \<Rightarrow> ''resume.md''
     | DecisionsFile \<Rightarrow> ''decisions.jsonl'' | EventsFile \<Rightarrow> ''events.jsonl''
     | ArtifactsFile \<Rightarrow> ''artifacts.json'' | VerificationFile \<Rightarrow> ''verification.json'')"

definition MAX_FILE_BYTES :: nat where
  "MAX_FILE_BYTES = 8 * 1024 * 1024"

definition MAX_TOTAL_BYTES :: nat where
  "MAX_TOTAL_BYTES = 32 * 1024 * 1024"

type_synonym snapshot_files = "file_name \<Rightarrow> pystr option"

record repo =
  active_file :: "pystr option"
  revision_dirs :: "((pystr \<times> int) \<times> snapshot_files) list"
  legacy_files :: "pystr \<Rightarrow> snapshot_files"
  archive_files :: "pystr \<Rightarrow> pystr option"
  staging_dirs :: "(pystr \<times> int) list"

definition empty_repo :: repo where
  "empty_repo = \<lparr>active_file = None, revision_dirs = [], legacy_files = (\<lambda>_ _. None),
     archive_files = (\<lambda>_. None), staging_dirs = []\<rparr>"

record stored_run =
  stored_state :: run_state
  resume_markdown :: pystr
  stored_decisions :: "pyval list"
  stored_events :: "pyval list"
  stored_artifacts :: pyval
  stored_verification :: pyval

section \<open>Encoding and decoding\<close>

definition encode_text :: "pystr \<Rightarrow> repo_error + pystr" where
  "encode_text t = (if encodable t then Inr t else Inl NotEncodable)"

definition canonical_json :: "pyval \<Rightarrow> repo_error + pystr" where
  "canonical_json v = (if dumpable v then encode_text (json_dumps v) else Inl NotEncodable)"

definition document_json :: "pyval \<Rightarrow> repo_error + pystr" where
  "document_json v = (if dumpable v then encode_text (json_pretty v 0 @ [10]) else Inl NotEncodable)"

definition jsonl_bytes :: "pyval list \<Rightarrow> repo_error + pystr" where
  "jsonl_bytes rs = bindr (mapr canonical_json rs) (\<lambda>ls. Inr (if ls = [] then [] else join_with [10] ls @ [10]))"

definition decode_json :: "repo_env \<Rightarrow> pystr \<Rightarrow> repo_error + pyval" where
  "decode_json e t = bindr (ensure (encodable t) (Integrity ''invalid JSON'')) (\<lambda>_.
     need (json_loads e t) (Integrity ''invalid JSON''))"

definition decode_mapping :: "repo_env \<Rightarrow> pystr \<Rightarrow> repo_error + pyval" where
  "decode_mapping e t = bindr (decode_json e t) (\<lambda>v.
     bindr (ensure (as_mapping v \<noteq> None) (Integrity ''not an object'')) (\<lambda>_. Inr v))"

definition decode_line :: "repo_env \<Rightarrow> pystr \<Rightarrow> repo_error + pyval" where
  "decode_line e l = bindr (need (json_loads e l) (Integrity ''invalid line'')) (\<lambda>v.
     bindr (ensure (as_mapping v \<noteq> None) (Integrity ''line is not an object'')) (\<lambda>_. Inr v))"

definition decode_jsonl :: "repo_env \<Rightarrow> pystr \<Rightarrow> repo_error + pyval list" where
  "decode_jsonl e t = (if t = [] then Inr [] else
     bindr (ensure (encodable t) (Integrity ''not UTF-8'')) (\<lambda>_. mapr (decode_line e) (split_lines t)))"

definition require_key :: "repo_env \<Rightarrow> repo_error + pystr" where
  "require_key e = bindr (need (key_provider e) (Integrity ''key'')) (\<lambda>k.
     bindr (ensure (32 \<le> length k) (Integrity ''key'')) (\<lambda>_. Inr k))"

section \<open>The signed manifest\<close>

definition run_path :: "pystr \<Rightarrow> pystr" where
  "run_path rid = u ''runs/'' @ rid @ u ''/''"

definition legacy_path :: "pystr \<Rightarrow> file_name \<Rightarrow> pystr" where
  "legacy_path rid f = run_path rid @ u (file_text f)"

definition revision_path :: "pystr \<Rightarrow> int \<Rightarrow> file_name \<Rightarrow> pystr" where
  "revision_path rid rv f = run_path rid @ u ''revisions/'' @ dec_int rv @ u ''/'' @ u (file_text f)"

text \<open>A save request after its values were sanitized.\<close>

record save_request =
  rq_state :: run_state
  rq_resume :: pystr
  rq_events :: "pyval list"
  rq_decisions :: "pyval list"
  rq_artifacts :: pyval
  rq_verification :: pyval

definition expected_value :: "(pystr \<times> int) option \<Rightarrow> pyval" where
  "expected_value expected = (case expected of None \<Rightarrow> PNone
     | Some (rid, rv) \<Rightarrow> PDict [(PStr (u ''revision''), PInt rv), (PStr (u ''run_id''), PStr rid)])"

definition request_value :: "(pystr \<times> int) option \<Rightarrow> save_request \<Rightarrow> pyval" where
  "request_value expected q = PDict [
     (PStr (u ''artifacts''), rq_artifacts q),
     (PStr (u ''decisions''), PTuple (rq_decisions q)),
     (PStr (u ''events''), PTuple (rq_events q)),
     (PStr (u ''expected_active''), expected_value expected),
     (PStr (u ''resume_markdown''), PStr (rq_resume q)),
     (PStr (u ''revision''), PInt (revision (rq_state q))),
     (PStr (u ''run_id''), PStr (run_id (rq_state q))),
     (PStr (u ''state''), run_to_dict (rq_state q)),
     (PStr (u ''verification''), rq_verification q)]"

definition request_digest :: "repo_env \<Rightarrow> (pystr \<times> int) option \<Rightarrow> save_request \<Rightarrow> repo_error + pystr" where
  "request_digest e expected q = bindr (canonical_json (request_value expected q)) (\<lambda>t. Inr (sha256_hex e t))"

definition request_metadata :: "(pystr \<times> int) option \<Rightarrow> pystr \<Rightarrow> pyval" where
  "request_metadata expected digest = PDict [(PStr (u ''expected_active''), expected_value expected),
     (PStr (u ''sha256''), PStr digest)]"

text \<open>\<open>_validate_save_request_metadata\<close>: 64 lower case hex digits, and an older revision of the same run.\<close>

definition is_digest :: "pystr \<Rightarrow> bool" where
  "is_digest s \<longleftrightarrow> length s = 64 \<and> (\<forall>c\<in>set s. hex_lower c)"

definition mapping_with :: "pyval \<Rightarrow> string list \<Rightarrow> repo_error \<Rightarrow> repo_error + (pyval \<times> pyval) list" where
  "mapping_with v ks err = bindr (need (as_mapping v) err) (\<lambda>d.
     bindr (ensure (fst ` set d = set (map (\<lambda>k. PStr (u k)) ks)) err) (\<lambda>_. Inr d))"

definition validate_metadata :: "pyval \<Rightarrow> pystr \<Rightarrow> int \<Rightarrow> repo_error + (pystr \<times> int) option" where
  "validate_metadata v rid rv =
     bindr (mapping_with v [''expected_active'', ''sha256''] (Integrity ''save request'')) (\<lambda>d.
     bindr (need (as_str (item_of d ''sha256'')) (Integrity ''save request digest'')) (\<lambda>s.
     bindr (ensure (is_digest s) (Integrity ''save request digest'')) (\<lambda>_.
     if item_of d ''expected_active'' = PNone then Inr None
     else bindr (mapping_with (item_of d ''expected_active'') [''run_id'', ''revision''] (Integrity ''save request base'')) (\<lambda>x.
       bindr (ensure (item_of x ''run_id'' = PStr rid) (Integrity ''save request base'')) (\<lambda>_.
       bindr (need (as_int (item_of x ''revision'')) (Integrity ''save request base'')) (\<lambda>n.
       bindr (ensure (1 \<le> n \<and> n < rv) (Integrity ''save request base'')) (\<lambda>_. Inr (Some (rid, n)))))))))"

definition file_entries :: "repo_env \<Rightarrow> (file_name \<Rightarrow> pystr) \<Rightarrow> (file_name \<Rightarrow> pystr) \<Rightarrow> pyval" where
  "file_entries e paths contents = PDict (map (\<lambda>f. (PStr (u (name_key f)), PDict [
     (PStr (u ''path''), PStr (paths f)), (PStr (u ''sha256''), PStr (sha256_hex e (contents f)))]))
     [ArtifactsFile, DecisionsFile, EventsFile, ResumeFile, StateFile, VerificationFile])"

text \<open>The manifest of a save: what is signed, and the signed whole, with sorted keys.\<close>

definition unsigned_manifest :: "repo_env \<Rightarrow> (file_name \<Rightarrow> pystr) \<Rightarrow> pystr \<Rightarrow> (pystr \<times> int) option \<Rightarrow> save_request
    \<Rightarrow> (pyval \<times> pyval) list" where
  "unsigned_manifest e contents digest expected q = (let rid = run_id (rq_state q); rv = revision (rq_state q) in [
     (PStr (u ''files''), file_entries e (revision_path rid rv) contents),
     (PStr (u ''revision''), PInt rv),
     (PStr (u ''run_id''), PStr rid),
     (PStr (u ''save_request''), request_metadata expected digest),
     (PStr (u ''schema_version''), PInt 1)])"

definition signed_manifest :: "repo_env \<Rightarrow> pystr \<Rightarrow> (pyval \<times> pyval) list \<Rightarrow> pyval" where
  "signed_manifest e key m = PDict (take 1 m @ (PStr (u ''hmac_sha256''), PStr (hmac_hex e key (json_dumps (PDict m)))) # drop 1 m)"

section \<open>Loading\<close>

definition read_bounded :: "pystr \<Rightarrow> repo_error + pystr" where
  "read_bounded t = (if MAX_FILE_BYTES < usize t then Inl (Integrity ''file size'') else Inr t)"

definition manifest_fields :: "string list" where
  "manifest_fields = [''schema_version'', ''run_id'', ''revision'', ''files'', ''hmac_sha256'']"

text \<open>\<open>hmac.compare_digest\<close> on strings raises for characters beyond ASCII.\<close>

definition same_digest :: "pyval \<Rightarrow> pystr \<Rightarrow> repo_error \<Rightarrow> repo_error + unit" where
  "same_digest v t err = bindr (need (as_str v) err) (\<lambda>s.
     bindr (ensure (\<forall>c\<in>set s. c < 128) (Mistyped ''digest'')) (\<lambda>_. ensure (s = t) err))"

text \<open>The files of the manifest, in order: present, within the bounds, with the signed digests.\<close>

fun load_files :: "repo_env \<Rightarrow> snapshot_files \<Rightarrow> (file_name \<Rightarrow> pyval) \<Rightarrow> file_name list \<Rightarrow> nat
    \<Rightarrow> repo_error + (file_name \<times> pystr) list" where
  "load_files e dir digests [] loaded = Inr []"
| "load_files e dir digests (f # fs) loaded =
     bindr (need (dir f) (Integrity ''recovery file is missing'')) (\<lambda>raw.
     bindr (read_bounded raw) (\<lambda>content.
     bindr (ensure (loaded + usize content \<le> MAX_TOTAL_BYTES) (Integrity ''recovery snapshot size'')) (\<lambda>_.
     bindr (same_digest (digests f) (sha256_hex e content) (Integrity ''recovery digest'')) (\<lambda>_.
     bindr (load_files e dir digests fs (loaded + usize content)) (\<lambda>rest. Inr ((f, content) # rest))))))"

definition bad_state :: "run_error + 'a \<Rightarrow> repo_error + 'a" where
  "bad_state r = (case r of Inl _ \<Rightarrow> Inl (Integrity ''stored run state'') | Inr x \<Rightarrow> Inr x)"

definition file_of :: "(file_name \<times> pystr) list \<Rightarrow> file_name \<Rightarrow> pystr" where
  "file_of fs f = (case map_of fs f of None \<Rightarrow> [] | Some t \<Rightarrow> t)"

text \<open>The values of authenticated files.\<close>

definition decode_files :: "repo_env \<Rightarrow> pystr \<Rightarrow> int \<Rightarrow> (file_name \<Rightarrow> pystr) \<Rightarrow> repo_error + stored_run" where
  "decode_files e rid rv text =
     bindr (decode_json e (text StateFile)) (\<lambda>sv.
     bindr (bad_state (run_from_dict (iso_reader e) (casefold_of e) sv)) (\<lambda>r.
     bindr (ensure (run_id r = rid) (Integrity ''stored run_id'')) (\<lambda>_.
     bindr (ensure (revision r = rv) (Integrity ''stored revision'')) (\<lambda>_.
     bindr (ensure (encodable (text ResumeFile)) (Integrity ''resume document'')) (\<lambda>_.
     bindr (decode_jsonl e (text DecisionsFile)) (\<lambda>ds.
     bindr (decode_jsonl e (text EventsFile)) (\<lambda>es.
     bindr (decode_mapping e (text ArtifactsFile)) (\<lambda>av.
     bindr (decode_mapping e (text VerificationFile)) (\<lambda>vv.
       Inr \<lparr>stored_state = r, resume_markdown = text ResumeFile, stored_decisions = ds, stored_events = es,
            stored_artifacts = av, stored_verification = vv\<rparr>)))))))))"

definition check_signature :: "repo_env \<Rightarrow> pystr \<Rightarrow> (pyval \<times> pyval) list \<Rightarrow> repo_error + unit" where
  "check_signature e key d =
     bindr (need (as_str (item_of d ''hmac_sha256'')) (Integrity ''HMAC is missing'')) (\<lambda>s.
     bindr (canonical_json (PDict (AList.delete (PStr (u ''hmac_sha256'')) d))) (\<lambda>t.
     same_digest (PStr s) (hmac_hex e key t) (Integrity ''HMAC verification'')))"

text \<open>What a manifest that passes every check points at.\<close>

record manifest_target =
  tg_value :: pyval
  tg_run_id :: pystr
  tg_revision :: int
  tg_legacy :: bool
  tg_digest :: "file_name \<Rightarrow> pyval"

definition read_manifest :: "repo_env \<Rightarrow> pystr \<Rightarrow> repo_error + manifest_target" where
  "read_manifest e text =
     bindr (require_key e) (\<lambda>key.
     bindr (read_bounded text) (\<lambda>raw.
     bindr (decode_json e raw) (\<lambda>v.
     bindr (need (as_mapping v) (Integrity ''manifest schema'')) (\<lambda>d.
     bindr (ensure (fst ` set d = set (map (\<lambda>x. PStr (u x)) manifest_fields)
         \<or> fst ` set d = set (map (\<lambda>x. PStr (u x)) (''save_request'' # manifest_fields))) (Integrity ''manifest schema'')) (\<lambda>_.
     bindr (ensure (py_eq (item_of d ''schema_version'') (PInt 1)) (Integrity ''manifest version'')) (\<lambda>_.
     bindr (check_signature e key d) (\<lambda>_.
     bindr (need (as_str (item_of d ''run_id'')) (Integrity ''manifest run_id'')) (\<lambda>rid.
     bindr (need (as_int (item_of d ''revision'')) (Integrity ''manifest revision'')) (\<lambda>rv.
     bindr (ensure (1 \<le> rv) (Integrity ''manifest revision'')) (\<lambda>_.
     bindr (case field d ''save_request'' of None \<Rightarrow> Inr None | Some x \<Rightarrow> validate_metadata x rid rv) (\<lambda>_.
     bindr (mapping_with (item_of d ''files'') (map name_key file_names) (Integrity ''manifest file set'')) (\<lambda>fs.
     bindr (mapr (\<lambda>f. mapping_with (item_of fs (name_key f)) [''path'', ''sha256''] (Integrity ''manifest entry'')) file_names) (\<lambda>entries.
     let entry = (\<lambda>f. the (map_of (zip file_names entries) f));
         at_paths = (\<lambda>p. list_all (\<lambda>f. item_of (entry f) ''path'' = PStr (p f)) file_names) in
     bindr (ensure (at_paths (legacy_path rid) \<or> at_paths (revision_path rid rv)) (Integrity ''manifest paths'')) (\<lambda>_.
       Inr \<lparr>tg_value = v, tg_run_id = rid, tg_revision = rv, tg_legacy = at_paths (legacy_path rid),
            tg_digest = (\<lambda>f. item_of (entry f) ''sha256'')\<rparr>))))))))))))))"

definition target_files :: "repo \<Rightarrow> manifest_target \<Rightarrow> snapshot_files" where
  "target_files k g = (if tg_legacy g then legacy_files k (tg_run_id g)
     else (case map_of (revision_dirs k) (tg_run_id g, tg_revision g) of None \<Rightarrow> (\<lambda>_. None) | Some x \<Rightarrow> x))"

definition load_active_manifest :: "repo_env \<Rightarrow> repo \<Rightarrow> pystr \<Rightarrow> repo_error + stored_run \<times> pyval" where
  "load_active_manifest e k text =
     bindr (read_manifest e text) (\<lambda>g.
     bindr (load_files e (target_files k g) (tg_digest g) file_names 0) (\<lambda>files.
     bindr (decode_files e (tg_run_id g) (tg_revision g) (file_of files)) (\<lambda>st. Inr (st, tg_value g))))"

definition load_authenticated :: "repo_env \<Rightarrow> repo \<Rightarrow> repo_error + (stored_run \<times> pyval) option" where
  "load_authenticated e k = (case active_file k of
       None \<Rightarrow> Inr None
     | Some t \<Rightarrow> bindr (load_active_manifest e k t) (\<lambda>x. Inr (Some x)))"

definition load_active :: "repo_env \<Rightarrow> repo \<Rightarrow> repo_error + stored_run option" where
  "load_active e k = bindr (load_authenticated e k) (\<lambda>x. Inr (map_option fst x))"

section \<open>Saving\<close>

definition sanitize_record :: "repo_env \<Rightarrow> pyval \<Rightarrow> repo_error + pyval" where
  "sanitize_record e v = bindr (need (as_mapping v) (Mistyped ''entries must be mappings'')) (\<lambda>_.
     bindr (canonical_json (redact_value (redactor_of e) v)) (\<lambda>_. Inr (redact_value (redactor_of e) v)))"

definition sanitize_mapping :: "repo_env \<Rightarrow> pyval \<Rightarrow> repo_error + pyval" where
  "sanitize_mapping e v = sanitize_record e (if truthy v then v else PDict [])"

definition sanitize_request :: "repo_env \<Rightarrow> save_request \<Rightarrow> repo_error + save_request" where
  "sanitize_request e q =
     bindr (case run_from_dict (iso_reader e) (casefold_of e) (redact_value (redactor_of e) (run_to_dict (rq_state q))) of
       Inl err \<Rightarrow> Inl (BadRunState err) | Inr r \<Rightarrow> Inr r) (\<lambda>r.
     bindr (mapr (sanitize_record e) (rq_events q)) (\<lambda>es.
     bindr (mapr (sanitize_record e) (rq_decisions q)) (\<lambda>ds.
     bindr (sanitize_mapping e (rq_artifacts q)) (\<lambda>av.
     bindr (sanitize_mapping e (rq_verification q)) (\<lambda>vv.
       Inr \<lparr>rq_state = r, rq_resume = redact_text (redactor_of e) (rq_resume q), rq_events = es,
         rq_decisions = ds, rq_artifacts = av, rq_verification = vv\<rparr>)))))"

definition is_idempotent_retry :: "repo_env \<Rightarrow> pyval \<Rightarrow> save_request \<Rightarrow> repo_error + bool" where
  "is_idempotent_retry e m q = (case get_default (the (as_mapping m)) ''save_request'' PNone of
       PDict d \<Rightarrow>
         bindr (validate_metadata (PDict d) (run_id (rq_state q)) (revision (rq_state q))) (\<lambda>expected.
         bindr (request_digest e expected q) (\<lambda>s. Inr (item_of d ''sha256'' = PStr s)))
     | _ \<Rightarrow> Inr False)"

text \<open>The children of a run's directory, and whether it only holds an unpublished attempt.\<close>

definition MAX_ENTRIES :: nat where
  "MAX_ENTRIES = 8192"

definition revisions_of :: "repo \<Rightarrow> pystr \<Rightarrow> int list" where
  "revisions_of k rid = map (snd \<circ> fst) (filter (\<lambda>x. fst (fst x) = rid) (revision_dirs k))"

definition stagings_of :: "repo \<Rightarrow> pystr \<Rightarrow> int list" where
  "stagings_of k rid = map snd (filter (\<lambda>x. fst x = rid) (staging_dirs k))"

definition run_children :: "repo \<Rightarrow> pystr \<Rightarrow> nat" where
  "run_children k rid = length (filter (\<lambda>f. legacy_files k rid f \<noteq> None) file_names)
     + (if archive_files k rid = None then 0 else 1)
     + (if revisions_of k rid = [] \<and> stagings_of k rid = [] then 0 else 1)"

definition can_resume :: "repo \<Rightarrow> pystr \<Rightarrow> int \<Rightarrow> bool" where
  "can_resume k rid rv \<longleftrightarrow> run_children k rid \<le> 1 \<and> (revisions_of k rid \<noteq> [] \<or> stagings_of k rid \<noteq> [])
     \<and> length (revisions_of k rid) + length (stagings_of k rid) \<le> MAX_ENTRIES
     \<and> list_all (\<lambda>n. n = rv) (revisions_of k rid) \<and> list_all (\<lambda>n. n = rv) (stagings_of k rid)"

definition check_new_run :: "repo \<Rightarrow> pystr \<Rightarrow> int \<Rightarrow> repo_error + unit" where
  "check_new_run k rid rv =
     bindr (ensure (run_children k rid \<le> 2) (Integrity ''too many entries'')) (\<lambda>_.
     ensure (run_children k rid = 0 \<or> can_resume k rid rv) (Rejected ''run_id has recovery data''))"

text \<open>What a save is about to do: repeat a finished one, or write files over an expected revision.\<close>

datatype save_plan = Repeat stored_run | Write "(pystr \<times> int) option" "file_name \<Rightarrow> pystr"

definition check_existing :: "repo_env \<Rightarrow> repo \<Rightarrow> save_request \<Rightarrow> stored_run \<Rightarrow> pyval \<Rightarrow> repo_error + stored_run option" where
  "check_existing e k q st m = (let old = stored_state st; new = rq_state q in
     bindr (ensure (archive_files k (run_id old) = None) (Integrity ''archive is pending'')) (\<lambda>_.
     bindr (ensure (run_id old = run_id new) (Rejected ''another run is active'')) (\<lambda>_.
     if revision old < revision new then Inr None
     else if revision new = revision old
     then bindr (is_idempotent_retry e m q) (\<lambda>same.
       if same then Inr (Some st) else Inl (Rejected ''revision must increase''))
     else Inl (Rejected ''revision must increase''))))"

definition carry_over :: "stored_run option \<Rightarrow> save_request \<Rightarrow> save_request" where
  "carry_over old q = (case old of None \<Rightarrow> q
     | Some st \<Rightarrow> q\<lparr>rq_events := stored_events st @ rq_events q,
         rq_decisions := stored_decisions st @ rq_decisions q,
         rq_artifacts := (if truthy (rq_artifacts q) then rq_artifacts q else stored_artifacts st),
         rq_verification := (if truthy (rq_verification q) then rq_verification q else stored_verification st)\<rparr>)"

definition file_contents :: "save_request \<Rightarrow> repo_error + (file_name \<Rightarrow> pystr)" where
  "file_contents q =
     bindr (document_json (run_to_dict (rq_state q))) (\<lambda>s.
     bindr (encode_text (rq_resume q)) (\<lambda>r.
     bindr (jsonl_bytes (rq_decisions q)) (\<lambda>d.
     bindr (jsonl_bytes (rq_events q)) (\<lambda>v.
     bindr (document_json (rq_artifacts q)) (\<lambda>a.
     bindr (document_json (rq_verification q)) (\<lambda>w.
       Inr (\<lambda>f. case f of StateFile \<Rightarrow> s | ResumeFile \<Rightarrow> r | DecisionsFile \<Rightarrow> d | EventsFile \<Rightarrow> v
         | ArtifactsFile \<Rightarrow> a | VerificationFile \<Rightarrow> w)))))))"

definition plan_save :: "repo_env \<Rightarrow> repo \<Rightarrow> save_request \<Rightarrow> repo_error + save_plan" where
  "plan_save e k q =
     bindr (load_authenticated e k) (\<lambda>auth.
     bindr (case auth of None \<Rightarrow> Inr None | Some (st, m) \<Rightarrow> check_existing e k q st m) (\<lambda>retry.
     case retry of
       Some st \<Rightarrow> Inr (Repeat st)
     | None \<Rightarrow>
         bindr (if auth = None then check_new_run k (run_id (rq_state q)) (revision (rq_state q)) else Inr ()) (\<lambda>_.
         bindr (file_contents (carry_over (map_option fst auth) q)) (\<lambda>contents.
           Inr (Write (map_option (\<lambda>(st, m). (run_id (stored_state st), revision (stored_state st))) auth) contents)))))"

text \<open>Verifying a revision directory: exactly the six files, each as expected.\<close>

fun verify_files :: "snapshot_files \<Rightarrow> (file_name \<Rightarrow> pystr) \<Rightarrow> file_name list \<Rightarrow> repo_error + unit" where
  "verify_files dir contents [] = Inr ()"
| "verify_files dir contents (f # fs) =
     bindr (need (dir f) (Integrity ''revision file set'')) (\<lambda>raw.
     bindr (read_bounded raw) (\<lambda>t.
     bindr (ensure (t = contents f) (Integrity ''conflicts with the snapshot'')) (\<lambda>_.
     verify_files dir contents fs)))"

definition verify_revision :: "snapshot_files \<Rightarrow> (file_name \<Rightarrow> pystr) \<Rightarrow> repo_error + unit" where
  "verify_revision dir contents =
     bindr (ensure (list_all (\<lambda>f. dir f \<noteq> None) file_names) (Integrity ''revision file set'')) (\<lambda>_.
     verify_files dir contents file_names)"

definition publish_revision :: "repo_env \<Rightarrow> pystr \<Rightarrow> int \<Rightarrow> (file_name \<Rightarrow> pystr) \<Rightarrow> repo \<Rightarrow> repo list \<times> (repo_error + unit)" where
  "publish_revision e rid rv contents k = (case map_of (revision_dirs k) (rid, rv) of
       Some dir \<Rightarrow> ([], verify_revision dir contents)
     | None \<Rightarrow>
         let staged = k\<lparr>staging_dirs := (rid, rv) # staging_dirs k\<rparr>;
             dir = (\<lambda>f. Some (contents f)) in
         if list_ex (\<lambda>f. MAX_FILE_BYTES < usize (contents f)) file_names
         then (staged # (if safe_cleanup e then [k] else []), Inl (Integrity ''file size''))
         else ([staged, k\<lparr>revision_dirs := ((rid, rv), dir) # revision_dirs k\<rparr>], verify_revision dir contents))"

text \<open>Pruning removes the other revisions of the run: the files of each one at a time, then its directory.\<close>

definition unlink_files :: "pystr \<times> int \<Rightarrow> file_name list \<Rightarrow> repo \<Rightarrow> repo" where
  "unlink_files r fs k = k\<lparr>revision_dirs := map (\<lambda>(x, dir).
     (x, \<lambda>f. if x = r \<and> f \<in> set fs then None else dir f)) (revision_dirs k)\<rparr>"

fun drop_each :: "(pystr \<times> int) list \<Rightarrow> repo \<Rightarrow> repo list" where
  "drop_each [] k = []"
| "drop_each (r # rs) k = (let k' = k\<lparr>revision_dirs := filter (\<lambda>x. fst x \<noteq> r) (revision_dirs k)\<rparr> in
     map (\<lambda>n. unlink_files r (take n file_names) k) [1, 2, 3, 4, 5, 6] @ k' # drop_each rs k')"

definition prune_revisions :: "repo_env \<Rightarrow> pystr \<Rightarrow> int \<Rightarrow> repo \<Rightarrow> repo list" where
  "prune_revisions e rid keep k = (if safe_cleanup e
       \<and> length (revisions_of k rid) + length (stagings_of k rid) \<le> MAX_ENTRIES
     then drop_each (map (\<lambda>n. (rid, n)) (filter (\<lambda>n. n \<noteq> keep \<and> 1 \<le> n) (revisions_of k rid))) k
     else [])"

definition last_disk :: "repo \<Rightarrow> repo list \<Rightarrow> repo" where
  "last_disk k ks = last (k # ks)"

definition assert_active :: "repo_env \<Rightarrow> repo \<Rightarrow> (pystr \<times> int) option \<Rightarrow> repo_error + unit" where
  "assert_active e k expected = bindr (load_active e k) (\<lambda>st.
     ensure (map_option (\<lambda>x. (run_id (stored_state x), revision (stored_state x))) st = expected)
       (Integrity ''active run changed''))"

text \<open>The manifest text of a save that may go ahead.\<close>

definition next_manifest :: "repo_env \<Rightarrow> repo \<Rightarrow> (pystr \<times> int) option \<Rightarrow> save_request \<Rightarrow> (file_name \<Rightarrow> pystr)
    \<Rightarrow> pystr \<Rightarrow> repo_error + pystr" where
  "next_manifest e k expected q contents key =
     bindr (request_digest e expected q) (\<lambda>digest.
     let m = unsigned_manifest e contents digest expected q in
     bindr (canonical_json (PDict m)) (\<lambda>_.
     bindr (assert_active e k expected) (\<lambda>_.
     bindr (document_json (signed_manifest e key m)) (\<lambda>t. read_bounded t))))"

definition save_locked :: "repo_env \<Rightarrow> pystr \<Rightarrow> save_request \<Rightarrow> repo \<Rightarrow> repo list \<times> (repo_error + stored_run)" where
  "save_locked e key q k = (let rid = run_id (rq_state q); rv = revision (rq_state q) in
     case plan_save e k q of
       Inl err \<Rightarrow> ([], Inl err)
     | Inr (Repeat st) \<Rightarrow> (prune_revisions e rid rv k, Inr st)
     | Inr (Write expected contents) \<Rightarrow>
         (case publish_revision e rid rv contents k of
            (ks, Inl err) \<Rightarrow> (ks, Inl err)
          | (ks, Inr _) \<Rightarrow>
              let k1 = last_disk k ks in
              (case next_manifest e k1 expected q contents key of
                 Inl err \<Rightarrow> (ks, Inl err)
               | Inr text \<Rightarrow>
                   let k2 = k1\<lparr>active_file := Some text\<rparr> in
                   (case load_active e k2 of
                      Inl err \<Rightarrow> (ks @ [k2], Inl err)
                    | Inr None \<Rightarrow> (ks @ [k2], Inl (Integrity ''active manifest disappeared''))
                    | Inr (Some st) \<Rightarrow> (ks @ k2 # prune_revisions e rid rv k2, Inr st)))))"

definition save_run :: "repo_env \<Rightarrow> save_request \<Rightarrow> repo \<Rightarrow> repo list \<times> (repo_error + stored_run)" where
  "save_run e q k = (case require_key e of
       Inl err \<Rightarrow> ([], Inl err)
     | Inr key \<Rightarrow> (case sanitize_request e q of
         Inl err \<Rightarrow> ([], Inl err)
       | Inr q' \<Rightarrow> save_locked e key q' k))"

text \<open>\<open>archive_active\<close>: keep the manifest in the run's directory, then drop the active one.\<close>

definition archive_active :: "repo_env \<Rightarrow> pystr \<Rightarrow> repo \<Rightarrow> repo list \<times> (repo_error + unit)" where
  "archive_active e expected k = (case load_authenticated e k of
       Inl err \<Rightarrow> ([], Inl err)
     | Inr None \<Rightarrow> ([], Inr ())
     | Inr (Some (st, m)) \<Rightarrow>
         let rid = run_id (stored_state st) in
         if rid \<noteq> expected then ([], Inl (Rejected ''expected run_id''))
         else (case document_json m of
            Inl err \<Rightarrow> ([], Inl err)
          | Inr text \<Rightarrow>
              let ks = prune_revisions e rid (revision (stored_state st)) k; k1 = last_disk k ks in
              (case archive_files k1 rid of
                 Some old \<Rightarrow>
                   (case read_bounded old of
                      Inl err \<Rightarrow> (ks, Inl err)
                    | Inr t \<Rightarrow> if t \<noteq> text then (ks, Inl (Integrity ''archive conflicts''))
                               else (ks @ [k1\<lparr>active_file := None\<rparr>], Inr ()))
               | None \<Rightarrow>
                   (case read_bounded text of
                      Inl err \<Rightarrow> (ks, Inl err)
                    | Inr t \<Rightarrow>
                        let k2 = k1\<lparr>archive_files := (archive_files k1)(rid := Some t)\<rparr> in
                        (ks @ [k2, k2\<lparr>active_file := None\<rparr>], Inr ())))))"

section \<open>What a load depends on\<close>

definition target_of :: "stored_run \<Rightarrow> pystr \<times> int" where
  "target_of st = (run_id (stored_state st), revision (stored_state st))"

lemma decode_files_Inr:
  "decode_files e rid rv text = Inr st \<Longrightarrow> target_of st = (rid, rv) \<and> resume_markdown st = text ResumeFile
     \<and> decode_jsonl e (text EventsFile) = Inr (stored_events st)
     \<and> decode_jsonl e (text DecisionsFile) = Inr (stored_decisions st)"
  by (auto simp: decode_files_def target_of_def result_simps)

lemma load_files_cong:
  "load_files e dir dg fs n = Inr xs \<Longrightarrow> (\<And>f. f \<in> set fs \<Longrightarrow> dir' f = dir f) \<Longrightarrow> load_files e dir' dg fs n = Inr xs"
  by (induction e dir dg fs n arbitrary: xs rule: load_files.induct) (auto simp: result_simps)

lemma load_files_absent: "load_files e (\<lambda>_. None) dg file_names n \<noteq> Inr xs"
  by (simp add: file_names_def result_simps)

text \<open>The disk agrees on the files a stored run was read from.\<close>

definition same_target :: "pystr \<times> int \<Rightarrow> repo \<Rightarrow> repo \<Rightarrow> bool" where
  "same_target p k k' \<longleftrightarrow> active_file k' = active_file k \<and> legacy_files k' = legacy_files k
     \<and> (\<forall>d. map_of (revision_dirs k) p = Some d \<longrightarrow> map_of (revision_dirs k') p = Some d)"

lemma same_target_refl [simp]: "same_target p k k"
  by (simp add: same_target_def)

lemma same_target_trans: "same_target p k k' \<Longrightarrow> same_target p k' k'' \<Longrightarrow> same_target p k k''"
  by (simp add: same_target_def)

lemma load_manifest_local:
  assumes load: "load_active_manifest e k t = Inr (st, m)" and same: "same_target (target_of st) k k'"
  shows "load_active_manifest e k' t = Inr (st, m)"
proof -
  from load obtain g files where g: "read_manifest e t = Inr g" "m = tg_value g"
    and files: "load_files e (target_files k g) (tg_digest g) file_names 0 = Inr files"
    and st: "decode_files e (tg_run_id g) (tg_revision g) (file_of files) = Inr st"
    by (auto simp: load_active_manifest_def result_simps)
  from decode_files_Inr [OF st] have target: "target_of st = (tg_run_id g, tg_revision g)" by blast
  have "target_files k' g = target_files k g"
  proof (cases "tg_legacy g")
    case True
    with same show ?thesis by (simp add: target_files_def same_target_def)
  next
    case False
    with files obtain d where "map_of (revision_dirs k) (target_of st) = Some d"
      by (cases "map_of (revision_dirs k) (target_of st)") (auto simp: target_files_def target load_files_absent)
    with False same show ?thesis by (auto simp: target_files_def same_target_def target)
  qed
  with g files st show ?thesis by (simp add: load_active_manifest_def)
qed

lemma load_authenticated_local:
  assumes "load_authenticated e k = Inr (Some (st, m))" and "same_target (target_of st) k k'"
  shows "load_authenticated e k' = Inr (Some (st, m))"
proof -
  from assms(1) obtain t where t: "active_file k = Some t" "load_active_manifest e k t = Inr (st, m)"
    by (cases "active_file k") (auto simp: load_authenticated_def result_simps)
  with load_manifest_local [OF t(2) assms(2)] assms(2) show ?thesis
    by (simp add: load_authenticated_def same_target_def)
qed

lemma load_active_None: "load_authenticated e k = Inr None \<longleftrightarrow> active_file k = None"
  by (cases "active_file k") (auto simp: load_authenticated_def result_simps)

lemma load_active_Inr:
  "load_active e k = Inr x \<longleftrightarrow> (\<exists>y. load_authenticated e k = Inr y \<and> x = map_option fst y)"
  by (auto simp: load_active_def result_simps)

text \<open>Any two disks that agree on the active run load alike.\<close>

definition agrees :: "repo_env \<Rightarrow> repo \<Rightarrow> repo \<Rightarrow> bool" where
  "agrees e k k' \<longleftrightarrow> load_authenticated e k' = load_authenticated e k"

lemma agreesI:
  assumes "load_authenticated e k = Inr x"
    and "active_file k' = active_file k"
    and "\<And>st m. x = Some (st, m) \<Longrightarrow> same_target (target_of st) k k'"
  shows "agrees e k k'"
proof (cases x)
  case None
  then show ?thesis using assms(1,2) load_active_None [of e k] load_active_None [of e k'] by (simp add: agrees_def)
next
  case (Some y)
  then obtain st m where "x = Some (st, m)" by (cases y) auto
  with assms show ?thesis by (auto simp: agrees_def intro: load_authenticated_local)
qed

section \<open>The disk while saving\<close>

lemma unlink_keeps:
  assumes "p \<noteq> r"
  shows "same_target p k (unlink_files r fs k)" "archive_files (unlink_files r fs k) = archive_files k"
    "staging_dirs (unlink_files r fs k) = staging_dirs k"
proof -
  have "map_of (map (\<lambda>(x, dir). (x, \<lambda>f. if x = r \<and> f \<in> set fs then None else dir f)) xs) p = map_of xs p"
    for xs :: "((pystr \<times> int) \<times> snapshot_files) list"
    using assms by (induction xs) auto
  then show "same_target p k (unlink_files r fs k)" by (simp add: same_target_def unlink_files_def)
qed (simp_all add: unlink_files_def)

lemma drop_each_keeps:
  "k' \<in> set (drop_each ps k) \<Longrightarrow> p \<notin> set ps \<Longrightarrow>
     same_target p k k' \<and> archive_files k' = archive_files k \<and> staging_dirs k' = staging_dirs k"
proof (induction ps arbitrary: k)
  case (Cons q ps)
  let ?k = "k\<lparr>revision_dirs := filter (\<lambda>x. fst x \<noteq> q) (revision_dirs k)\<rparr>"
  have "map_of (filter (\<lambda>x. fst x \<noteq> q) xs) p = map_of xs p" if "p \<noteq> q" for xs :: "((pystr \<times> int) \<times> snapshot_files) list"
    using that by (induction xs) auto
  then have first: "same_target p k ?k" using Cons.prems(2) by (simp add: same_target_def)
  from Cons.prems consider "k' = ?k" | fs where "k' = unlink_files q fs k" | "k' \<in> set (drop_each ps ?k)"
    unfolding drop_each.simps Let_def set_append set_map list.set by blast
  then show ?case
  proof cases
    case 1
    with first show ?thesis by simp
  next
    case 2
    then show ?thesis using unlink_keeps(1) [of p q] unlink_keeps(2,3) [of p q] Cons.prems(2) by simp
  next
    case 3
    with Cons.IH [OF 3] Cons.prems(2) show ?thesis using same_target_trans [OF first] by simp
  qed
qed simp

lemma prune_keeps:
  assumes "k' \<in> set (prune_revisions e rid keep k)" and "p = (rid, keep) \<or> fst p \<noteq> rid"
  shows "same_target p k k' \<and> archive_files k' = archive_files k \<and> staging_dirs k' = staging_dirs k"
  using assms unfolding prune_revisions_def by (auto split: if_splits intro!: drop_each_keeps)

lemma prune_agrees:
  assumes "load_authenticated e k = Inr (Some (st, m))" and "k' \<in> set (prune_revisions e rid keep k)"
    and "target_of st = (rid, keep)"
  shows "agrees e k k'"
  using prune_keeps [OF assms(2), of "(rid, keep)"] assms(1,3) by (intro agreesI) (auto simp: same_target_def)

lemma json_norm_manifest:
  "json_norm (signed_manifest e key (unsigned_manifest e contents digest expected q)) =
     signed_manifest e key (unsigned_manifest e contents digest expected q)"
proof -
  have "json_norm (expected_value expected) = expected_value expected"
    by (simp add: expected_value_def key_text_def u_def split: option.split)
  then have "json_norm (request_metadata expected digest) = request_metadata expected digest"
    by (simp add: request_metadata_def key_text_def u_def)
  moreover have "json_norm (file_entries e paths contents) = file_entries e paths contents" for paths
    by (simp add: file_entries_def name_key_def key_text_def u_def)
  ultimately show ?thesis
    by (simp add: signed_manifest_def unsigned_manifest_def Let_def key_text_def u_def)
qed

lemma manifest_items:
  assumes "signed_manifest e key (unsigned_manifest e contents digest expected q) = PDict d"
  shows "item_of d ''run_id'' = PStr (run_id (rq_state q))" "item_of d ''revision'' = PInt (revision (rq_state q))"
    "field d ''save_request'' = Some (request_metadata expected digest)"
  using assms by (auto simp: signed_manifest_def unsigned_manifest_def Let_def item_of_def)

lemma read_manifest_Inr:
  assumes "read_manifest e t = Inr g"
  obtains d where "json_loads e t = Some (PDict d)" "tg_value g = PDict d"
    "item_of d ''run_id'' = PStr (tg_run_id g)" "item_of d ''revision'' = PInt (tg_revision g)"
  using assms unfolding read_manifest_def by (auto simp: result_simps Let_def decode_json_def read_bounded_def split: if_splits)

text \<open>
  \<open>json.loads\<close> reads the manifest of a save back as \<open>json.dumps\<close> wrote it: the documented behaviour of
  the library on the one value it is used for.
\<close>

definition reads_own_manifest :: "repo_env \<Rightarrow> pystr \<Rightarrow> save_request \<Rightarrow> repo \<Rightarrow> bool" where
  "reads_own_manifest e key q k = (case plan_save e k q of
       Inr (Write expected contents) \<Rightarrow> (case request_digest e expected q of
           Inr digest \<Rightarrow> (let m = signed_manifest e key (unsigned_manifest e contents digest expected q) in
             json_loads e (json_pretty m 0 @ [10]) = Some (json_norm m))
         | Inl _ \<Rightarrow> True)
     | _ \<Rightarrow> True)"

lemma next_manifest_Inr:
  assumes "next_manifest e k expected q contents key = Inr t"
  obtains digest where "request_digest e expected q = Inr digest"
    "t = json_pretty (signed_manifest e key (unsigned_manifest e contents digest expected q)) 0 @ [10]"
    "assert_active e k expected = Inr ()"
  using assms by (auto simp: next_manifest_def result_simps Let_def document_json_def encode_text_def
    read_bounded_def split: if_splits)

lemma own_manifest_target:
  assumes plan: "plan_save e k q = Inr (Write expected contents)" and own: "reads_own_manifest e key q k"
    and following: "next_manifest e k1 expected q contents key = Inr t"
    and load: "load_active_manifest e k2 t = Inr (st, m)"
  shows "target_of st = (run_id (rq_state q), revision (rq_state q))"
proof -
  from following obtain digest where digest: "request_digest e expected q = Inr digest"
    and t: "t = json_pretty (signed_manifest e key (unsigned_manifest e contents digest expected q)) 0 @ [10]"
    by (rule next_manifest_Inr)
  with plan own have loads: "json_loads e t = Some (signed_manifest e key (unsigned_manifest e contents digest expected q))"
    by (simp add: reads_own_manifest_def json_norm_manifest Let_def)
  from load obtain g files where g: "read_manifest e t = Inr g"
    and st: "decode_files e (tg_run_id g) (tg_revision g) (file_of files) = Inr st"
    by (auto simp: load_active_manifest_def result_simps)
  from g obtain d where "json_loads e t = Some (PDict d)"
    "item_of d ''run_id'' = PStr (tg_run_id g)" "item_of d ''revision'' = PInt (tg_revision g)"
    by (rule read_manifest_Inr)
  with loads manifest_items [of e key contents digest expected q d] decode_files_Inr [OF st] show ?thesis by simp
qed

lemma check_existing_Inr:
  assumes "check_existing e k q st m = Inr x"
  shows "run_id (stored_state st) = run_id (rq_state q)" "archive_files k (run_id (stored_state st)) = None"
    and "x = None \<Longrightarrow> revision (stored_state st) < revision (rq_state q)"
    and "x = Some st' \<Longrightarrow> st' = st \<and> revision (stored_state st) = revision (rq_state q)"
  using assms by (auto simp: check_existing_def result_simps Let_def split: if_splits)

lemma plan_save_Repeat:
  assumes "plan_save e k q = Inr (Repeat st)"
  obtains m where "load_authenticated e k = Inr (Some (st, m))"
    "target_of st = (run_id (rq_state q), revision (rq_state q))" "check_existing e k q st m = Inr (Some st)"
proof -
  from assms obtain auth where auth: "load_authenticated e k = Inr auth"
    and retry: "(case auth of None \<Rightarrow> Inr None | Some (st, m) \<Rightarrow> check_existing e k q st m) = Inr (Some st)"
    by (auto simp: plan_save_def result_simps split: option.splits if_splits)
  then obtain st' m where x: "auth = Some (st', m)" "check_existing e k q st' m = Inr (Some st)"
    by (cases auth) auto
  with check_existing_Inr [OF x(2)] auth show ?thesis by (intro that [of m]) (auto simp: target_of_def)
qed

lemma plan_save_Write:
  assumes "plan_save e k q = Inr (Write expected contents)"
  obtains auth where "load_authenticated e k = Inr auth"
    "expected = map_option (target_of \<circ> fst) auth"
    "file_contents (carry_over (map_option fst auth) q) = Inr contents"
    "\<And>st m. auth = Some (st, m) \<Longrightarrow> check_existing e k q st m = Inr None"
    "auth = None \<Longrightarrow> check_new_run k (run_id (rq_state q)) (revision (rq_state q)) = Inr ()"
proof -
  from assms obtain auth where auth: "load_authenticated e k = Inr auth"
    and retry: "(case auth of None \<Rightarrow> Inr None | Some (st, m) \<Rightarrow> check_existing e k q st m) = Inr None"
    and new: "(if auth = None then check_new_run k (run_id (rq_state q)) (revision (rq_state q)) else Inr ()) = Inr ()"
    and contents: "file_contents (carry_over (map_option fst auth) q) = Inr contents"
    and expected: "expected = map_option (\<lambda>(st, m). (run_id (stored_state st), revision (stored_state st))) auth"
    by (auto simp: plan_save_def result_simps split: option.splits)
  show ?thesis
  proof (rule that [OF auth _ contents])
    show "expected = map_option (target_of \<circ> fst) auth"
      unfolding expected by (cases auth) (auto simp: target_of_def)
  qed (use retry new in \<open>auto split: if_splits\<close>)
qed

lemma publish_keeps:
  assumes "publish_revision e rid rv contents k = (ks, r)" and "k' \<in> insert (last_disk k ks) (set ks)"
  shows "same_target p k k' \<and> archive_files k' = archive_files k"
proof (cases "map_of (revision_dirs k) (rid, rv)")
  case None
  then have "same_target p k (k\<lparr>revision_dirs := ((rid, rv), d) # revision_dirs k\<rparr>)" for d
    by (simp add: same_target_def)
  moreover have "same_target p k (k\<lparr>staging_dirs := xs\<rparr>)" for xs by (simp add: same_target_def)
  ultimately show ?thesis using assms None
    by (auto simp: publish_revision_def Let_def last_disk_def split: if_splits)
next
  case (Some d)
  with assms show ?thesis by (simp add: publish_revision_def last_disk_def)
qed

lemma publish_agrees:
  assumes "load_authenticated e k = Inr x" and "publish_revision e rid rv contents k = (ks, r)"
    and "k' \<in> insert (last_disk k ks) (set ks)"
  shows "agrees e k k'"
  using publish_keeps [OF assms(2,3)] assms(1) by (intro agreesI) (auto simp: same_target_def)

text \<open>The outcomes of a save, one case each.\<close>

lemma save_locked_cases:
  assumes "save_locked e key q k = (ks, r)"
  obtains (refused) err where "plan_save e k q = Inl err" "ks = []" "r = Inl err"
    | (repeated) st where "plan_save e k q = Inr (Repeat st)" "r = Inr st"
      "ks = prune_revisions e (run_id (rq_state q)) (revision (rq_state q)) k"
    | (unpublished) expected contents err where "plan_save e k q = Inr (Write expected contents)"
      "publish_revision e (run_id (rq_state q)) (revision (rq_state q)) contents k = (ks, Inl err)" "r = Inl err"
    | (inactive) expected contents err where "plan_save e k q = Inr (Write expected contents)"
      "publish_revision e (run_id (rq_state q)) (revision (rq_state q)) contents k = (ks, Inr ())"
      "next_manifest e (last_disk k ks) expected q contents key = Inl err" "r = Inl err"
    | (unreadable) expected contents js t k2 err where "plan_save e k q = Inr (Write expected contents)"
      "publish_revision e (run_id (rq_state q)) (revision (rq_state q)) contents k = (js, Inr ())"
      "next_manifest e (last_disk k js) expected q contents key = Inr t"
      "k2 = (last_disk k js)\<lparr>active_file := Some t\<rparr>" "load_active e k2 = Inl err"
      "ks = js @ [k2]" "r = Inl err"
    | (saved) expected contents js t k2 st where "plan_save e k q = Inr (Write expected contents)"
      "publish_revision e (run_id (rq_state q)) (revision (rq_state q)) contents k = (js, Inr ())"
      "next_manifest e (last_disk k js) expected q contents key = Inr t"
      "k2 = (last_disk k js)\<lparr>active_file := Some t\<rparr>" "load_active e k2 = Inr (Some st)"
      "ks = js @ k2 # prune_revisions e (run_id (rq_state q)) (revision (rq_state q)) k2" "r = Inr st"
proof (cases "plan_save e k q")
  case (Inl err)
  with assms show ?thesis by (intro refused) (auto simp: save_locked_def Let_def)
next
  case (Inr p)
  note plan = Inr
  show ?thesis
  proof (cases p)
    case (Repeat st)
    with plan assms show ?thesis by (intro repeated) (auto simp: save_locked_def Let_def)
  next
    case (Write expected contents)
    obtain js x where pub: "publish_revision e (run_id (rq_state q)) (revision (rq_state q)) contents k = (js, x)"
      by (cases "publish_revision e (run_id (rq_state q)) (revision (rq_state q)) contents k")
    show ?thesis
    proof (cases x)
      case (Inl err)
      with plan Write pub assms show ?thesis
        by (intro unpublished [of expected contents err]) (simp_all add: save_locked_def Let_def)
    next
      case (Inr i)
      show ?thesis
      proof (cases "next_manifest e (last_disk k js) expected q contents key")
        case (Inl err)
        with plan Write pub Inr assms show ?thesis
          by (intro inactive [of expected contents err]) (simp_all add: save_locked_def Let_def)
      next
        case writes: (Inr t)
        let ?k2 = "(last_disk k js)\<lparr>active_file := Some t\<rparr>"
        show ?thesis
        proof (cases "load_active e ?k2")
          case (Inl err)
          with plan Write pub Inr writes assms show ?thesis
            by (intro unreadable [of expected contents js t ?k2 err]) (auto simp: save_locked_def Let_def)
        next
          case loaded: (Inr y)
          have "load_authenticated e ?k2 \<noteq> Inr None" unfolding load_active_None by simp
          with loaded obtain st where "y = Some st" by (cases y) (auto simp: load_active_Inr)
          with plan Write pub Inr writes assms loaded show ?thesis
            by (intro saved [of expected contents js t ?k2 st]) (simp_all add: save_locked_def Let_def)
        qed
      qed
    qed
  qed
qed

lemma last_disk_simps [simp]: "last_disk k [] = k" "last_disk k (ks @ [k']) = k'"
  "last_disk k (ks @ k' # ks') = last_disk k' ks'"
  by (simp_all add: last_disk_def)

lemma last_disk_in: "last_disk k ks \<in> insert k (set ks)"
  by (simp add: last_disk_def)

lemma agrees_refl [simp]: "agrees e k k"
  by (simp add: agrees_def)

lemma saved_target:
  assumes "plan_save e k q = Inr (Write expected contents)" and "reads_own_manifest e key q k"
    and "next_manifest e k1 expected q contents key = Inr t" and "active_file k2 = Some t"
    and "load_active e k2 = Inr (Some st)"
  obtains m where "load_authenticated e k2 = Inr (Some (st, m))"
    and "target_of st = (run_id (rq_state q), revision (rq_state q))"
proof -
  from assms(4,5) obtain m where m: "load_authenticated e k2 = Inr (Some (st, m))" "load_active_manifest e k2 t = Inr (st, m)"
    by (auto simp: load_active_Inr load_authenticated_def result_simps)
  from own_manifest_target [OF assms(1,2,3) m(2)] m(1) show ?thesis by (rule that [rotated])
qed

lemma save_steps:
  assumes save: "save_locked e key q k = (ks, r)" and own: "reads_own_manifest e key q k" and "k' \<in> set ks"
  shows "agrees e k k' \<or> agrees e (last_disk k ks) k'"
  using save
proof (cases rule: save_locked_cases)
  case refused
  with assms(3) show ?thesis by simp
next
  case (repeated st)
  with assms(3) prune_agrees show ?thesis by (elim plan_save_Repeat) blast
next
  case (unpublished expected contents err)
  then obtain x where "load_authenticated e k = Inr x" by (elim plan_save_Write)
  with unpublished assms(3) publish_agrees show ?thesis by blast
next
  case (inactive expected contents err)
  then obtain x where "load_authenticated e k = Inr x" by (elim plan_save_Write)
  with inactive assms(3) publish_agrees show ?thesis by blast
next
  case (unreadable expected contents js t k2 err)
  then obtain x where "load_authenticated e k = Inr x" by (elim plan_save_Write)
  from publish_agrees [OF this unreadable(2)] unreadable(6) assms(3) show ?thesis by auto
next
  case (saved expected contents js t k2 st)
  then obtain x where x: "load_authenticated e k = Inr x" by (elim plan_save_Write)
  have "active_file k2 = Some t" using saved(4) by simp
  then obtain m where m: "load_authenticated e k2 = Inr (Some (st, m))"
      "target_of st = (run_id (rq_state q), revision (rq_state q))"
    by (rule saved_target [OF saved(1) own saved(3) _ saved(5)])
  let ?ps = "prune_revisions e (run_id (rq_state q)) (revision (rq_state q)) k2"
  have pruned: "agrees e k2 k'" if "k' \<in> insert k2 (set ?ps)" for k'
    using that prune_agrees [OF m(1) _ m(2)] by auto
  moreover have "last_disk k ks \<in> insert k2 (set ?ps)" using saved(6) last_disk_in [of k2 ?ps] by simp
  ultimately have last: "agrees e k2 (last_disk k ks)" by blast
  have "k' \<in> set js \<or> k' \<in> insert k2 (set ?ps)" using saved(6) assms(3) by (simp, blast)
  then show ?thesis
  proof
    assume "k' \<in> set js"
    with publish_agrees [OF x saved(2)] show ?thesis by simp
  next
    assume "k' \<in> insert k2 (set ?ps)"
    from pruned [OF this] last have "agrees e (last_disk k ks) k'" by (simp add: agrees_def)
    then show ?thesis ..
  qed
qed

lemma saved_is_active:
  assumes save: "save_locked e key q k = (ks, Inr st)" and own: "reads_own_manifest e key q k"
  shows "load_active e (last_disk k ks) = Inr (Some st)"
    and "target_of st = (run_id (rq_state q), revision (rq_state q))"
proof -
  have "\<exists>m. load_authenticated e (last_disk k ks) = Inr (Some (st, m))
      \<and> target_of st = (run_id (rq_state q), revision (rq_state q))"
    using save
  proof (cases rule: save_locked_cases)
    case (repeated st')
    then obtain m where m: "load_authenticated e k = Inr (Some (st, m))"
      "target_of st = (run_id (rq_state q), revision (rq_state q))" by (auto elim: plan_save_Repeat)
    have "agrees e k (last_disk k ks)"
      using prune_agrees [OF m(1) _ m(2)] last_disk_in [of k ks] repeated(3) by auto
    with m show ?thesis by (auto simp: agrees_def)
  next
    case (saved expected contents js t k2 st')
    have "active_file k2 = Some t" using saved(4) by simp
    then obtain m where m: "load_authenticated e k2 = Inr (Some (st', m))"
        "target_of st' = (run_id (rq_state q), revision (rq_state q))"
      by (rule saved_target [OF saved(1) own saved(3) _ saved(5)])
    have "last_disk k ks \<in> insert k2 (set (prune_revisions e (run_id (rq_state q)) (revision (rq_state q)) k2))"
      using saved(6) last_disk_in [of k2] by simp
    then have "agrees e k2 (last_disk k ks)" using prune_agrees [OF m(1) _ m(2)] by auto
    with m saved(7) show ?thesis by (auto simp: agrees_def)
  qed simp_all
  then show "load_active e (last_disk k ks) = Inr (Some st)"
    "target_of st = (run_id (rq_state q), revision (rq_state q))"
    by (auto simp: load_active_Inr)
qed

section \<open>What comes back\<close>

definition reads_back :: "repo_env \<Rightarrow> pyval \<Rightarrow> bool" where
  "reads_back e v \<longleftrightarrow> json_loads e (json_pretty v 0 @ [10]) = Some (json_norm v)"

definition reads_line :: "repo_env \<Rightarrow> pyval \<Rightarrow> bool" where
  "reads_line e v \<longleftrightarrow> json_loads e (json_dumps v) = Some (json_norm v)"

lemma canonical_json_Inr [result_simps]: "canonical_json v = Inr t \<longleftrightarrow> dumpable v \<and> encodable (json_dumps v) \<and> t = json_dumps v"
  by (auto simp: canonical_json_def encode_text_def)

lemma document_json_Inr [result_simps]:
  "document_json v = Inr t \<longleftrightarrow> dumpable v \<and> encodable (json_pretty v 0) \<and> t = json_pretty v 0 @ [10]"
  by (auto simp: document_json_def encode_text_def is_surrogate_def)

lemma jsonl_bytes_Inr [result_simps]:
  "jsonl_bytes rs = Inr t \<longleftrightarrow> (\<forall>r\<in>set rs. dumpable r \<and> encodable (json_dumps r))
     \<and> t = concat (map (\<lambda>r. json_dumps r @ [10]) rs)"
proof -
  have "list_all2 (\<lambda>x y. canonical_json x = Inr y) rs ls \<longleftrightarrow>
      (\<forall>r\<in>set rs. dumpable r \<and> encodable (json_dumps r)) \<and> ls = map json_dumps rs" for ls
    by (induction rs arbitrary: ls) (auto simp: result_simps list_all2_Cons1)
  then show ?thesis by (auto simp: jsonl_bytes_def result_simps join_lines comp_def)
qed

text \<open>How many lines a text has.\<close>

lemma split_lines_from_count:
  "13 \<notin> set l \<Longrightarrow> length (split_lines_from w (l @ 10 # t)) =
     Suc (length (filter line_boundary l) + length (split_lines t))"
  unfolding split_lines_def
  by (induction l arbitrary: w) (auto simp: line_boundary_def)

lemma split_lines_count:
  "\<forall>l\<in>set ls. 13 \<notin> set l \<Longrightarrow> length (split_lines (concat (map (\<lambda>l. l @ [10]) ls))) =
     length ls + sum_list (map (\<lambda>l. length (filter line_boundary l)) ls)"
proof (induction ls)
  case (Cons l ls)
  then show ?case using split_lines_from_count [of l "[]" "concat (map (\<lambda>l. l @ [10]) ls)"]
    by (simp add: split_lines_def)
qed (simp add: split_lines_def)

lemma decode_jsonl_lines:
  assumes "decode_jsonl e t = Inr rs"
  shows "length (split_lines t) = length rs"
  using assms by (auto simp: decode_jsonl_def split_lines_def result_simps dest: list_all2_lengthD split: if_splits)

lemma jsonl_roundtrip_iff:
  assumes t: "jsonl_bytes rs = Inr t"
    and rs: "\<forall>r\<in>set rs. as_mapping r \<noteq> None \<and> printable_floats r \<and> reads_line e r"
  shows "decode_jsonl e t = Inr (map json_norm rs) \<longleftrightarrow> (\<forall>r\<in>set rs. one_line (json_dumps r))"
proof
  have cr: "\<forall>l\<in>set (map json_dumps rs). 13 \<notin> set l" using rs dumps_printable by fastforce
  have t': "t = concat (map (\<lambda>l. l @ [10]) (map json_dumps rs))" "\<forall>r\<in>set rs. encodable (json_dumps r)"
    using t by (auto simp: result_simps comp_def)
  show "\<forall>r\<in>set rs. one_line (json_dumps r)" if "decode_jsonl e t = Inr (map json_norm rs)"
  proof
    fix r assume r: "r \<in> set rs"
    from decode_jsonl_lines [OF that] have "sum_list (map (\<lambda>l. length (filter line_boundary l)) (map json_dumps rs)) = 0"
      unfolding t'(1) split_lines_count [OF cr] by simp
    with r have "filter line_boundary (json_dumps r) = []" by (auto simp: comp_def)
    then show "one_line (json_dumps r)" by (auto simp: one_line_def filter_empty_conv)
  qed
  assume lines: "\<forall>r\<in>set rs. one_line (json_dumps r)"
  then have "split_lines t = map json_dumps rs" unfolding t'(1) by (intro split_lines_joined) simp
  moreover have "encodable t" using t' by (auto simp: encodable_def is_surrogate_def)
  moreover have "mapr (decode_line e) (map json_dumps rs) = Inr (map json_norm rs)"
    unfolding mapr_Inr list_all2_map1 list_all2_map2 list_all2_same
  proof
    fix r assume "r \<in> set rs"
    with rs obtain d where "r = PDict d" "json_loads e (json_dumps r) = Some (json_norm r)"
      by (auto simp: reads_line_def)
    then show "decode_line e (json_dumps r) = Inr (json_norm r)"
      by (simp add: decode_line_def need_def ensure_def)
  qed
  moreover have "rs = []" if "t = []" using that t'(1) by (cases rs) simp_all
  ultimately show "decode_jsonl e t = Inr (map json_norm rs)"
    by (auto simp: decode_jsonl_def ensure_def)
qed

text \<open>A run written with sorted keys is read back as it was.\<close>

lemma norm_strs [simp]: "json_norm (strs xs) = strs xs"
  by (simp add: strs_def comp_def)

lemma norm_opt [simp]: "json_norm (opt_value PStr x) = opt_value PStr x"
  by (cases x) simp_all

lemma dict_parts:
  "stage_to_dict s = PDict d \<Longrightarrow> distinct (map fst d) \<and> fst ` set d = set (map (\<lambda>k. PStr (u k)) stage_fields)"
  "package_to_dict p = PDict d \<Longrightarrow> distinct (map fst d) \<and> fst ` set d = set (map (\<lambda>k. PStr (u k)) package_fields)"
  "run_to_dict r = PDict d \<Longrightarrow> distinct (map fst d) \<and> fst ` set d = set (map (\<lambda>k. PStr (u k)) run_fields)"
  by (auto simp: stage_to_dict_def stage_fields_def package_to_dict_def package_fields_def run_to_dict_def
      run_fields_def)

lemma norm_stage_decodes:
  assumes "valid_stage s" shows "stage_from_dict (json_norm (stage_to_dict s)) = Inr s"
proof -
  obtain d where d: "stage_to_dict s = PDict d" by (simp add: stage_to_dict_def)
  obtain d' where d': "json_norm (PDict d) = PDict d'" by simp
  note parts = dict_parts(1) [OF d]
  have keys: "fst ` set d' = set (map (\<lambda>k. PStr (u k)) stage_fields)"
    using item_of_norm(1) [OF _ d'] parts by simp
  have items: "item_of d' k = json_norm (item_of d k)" if "k \<in> set stage_fields" for k
    using item_of_norm(2) [OF _ d', of k] parts that by auto
  have same: "json_norm (item_of d k) = item_of d k" if "k \<in> set stage_fields" for k
    using that d by (auto simp: stage_to_dict_def item_of_def stage_fields_def)
  have eq: "item_of d' k = item_of d k" if "k \<in> set stage_fields" for k using items [OF that] same [OF that] by simp
  have "stage_from_dict (PDict d') = stage_from_dict (PDict d)"
    using keys parts
    by (simp add: stage_from_dict_def expect_exact_fields_def array_item_def ensure_def need_def eq stage_fields_def)
  with d d' stage_wire.decode_encode [OF assms] show ?thesis by simp
qed

lemma norm_package_decodes:
  assumes "valid_package cf p" shows "package_from_dict cf (json_norm (package_to_dict p)) = Inr p"
proof -
  obtain d where d: "package_to_dict p = PDict d" by (simp add: package_to_dict_def)
  obtain d' where d': "json_norm (PDict d) = PDict d'" by simp
  note parts = dict_parts(2) [OF d]
  have keys: "fst ` set d' = set (map (\<lambda>k. PStr (u k)) package_fields)"
    using item_of_norm(1) [OF _ d'] parts by simp
  have items: "item_of d' k = json_norm (item_of d k)" if "k \<in> set package_fields" for k
    using item_of_norm(2) [OF _ d', of k] parts that by auto
  have same: "json_norm (item_of d k) = item_of d k" if "k \<in> set package_fields" for k
    using that d by (auto simp: package_to_dict_def item_of_def package_fields_def)
  have eq: "item_of d' k = item_of d k" if "k \<in> set package_fields" for k using items [OF that] same [OF that] by simp
  have "package_from_dict cf (PDict d') = package_from_dict cf (PDict d)"
    using keys parts
    by (simp add: package_from_dict_def expect_exact_fields_def array_item_def ensure_def need_def eq package_fields_def)
  with d d' package_wire.decode_encode [OF assms] show ?thesis by simp
qed

lemma norm_run_decodes:
  assumes wf: "wf_run parse cf r" shows "run_from_dict parse cf (json_norm (run_to_dict r)) = Inr r"
proof -
  obtain d where d: "run_to_dict r = PDict d" by (simp add: run_to_dict_def)
  obtain d' where d': "json_norm (PDict d) = PDict d'" by simp
  note parts = dict_parts(3) [OF d]
  have keys: "fst ` set d' = set (map (\<lambda>k. PStr (u k)) run_fields)"
    using item_of_norm(1) [OF _ d'] parts by simp
  have items: "item_of d' k = json_norm (item_of d k)" if "k \<in> set run_fields" for k
    using item_of_norm(2) [OF _ d', of k] parts that by auto
  have version: "json_norm (schema_version r) = schema_version r"
    using wf by (cases "schema_version r") (auto simp: wf_run_def valid_run_def version_ok_def)
  have "d = the (as_mapping (run_to_dict r))" by (simp add: d)
  then have "list_all (\<lambda>k. k = ''stages'' \<or> k = ''work_packages'' \<or> json_norm (item_of d k) = item_of d k) run_fields"
    by (simp add: run_fields_def item_of_def version) (simp add: run_to_dict_def version)
  then have same: "json_norm (item_of d k) = item_of d k" if "k \<in> set run_fields" "k \<noteq> ''stages''" "k \<noteq> ''work_packages''" for k
    using that by (auto simp: list_all_iff)
  have eq: "item_of d' k = item_of d k" if "k \<in> set run_fields" "k \<noteq> ''stages''" "k \<noteq> ''work_packages''" for k
    using items [OF that(1)] same [OF that] by simp
  have st: "item_of d ''stages'' = PList (map stage_to_dict (stages r))"
      "item_of d ''work_packages'' = PList (map package_to_dict (work_packages r))"
    using d by (auto simp: run_to_dict_def item_of_def)
  then have st': "item_of d' ''stages'' = PList (map (json_norm \<circ> stage_to_dict) (stages r))"
      "item_of d' ''work_packages'' = PList (map (json_norm \<circ> package_to_dict) (work_packages r))"
    using items by (simp_all add: run_fields_def)
  have ss: "mapr stage_from_dict (map (json_norm \<circ> stage_to_dict) (stages r)) = Inr (stages r)"
      "mapr stage_from_dict (map stage_to_dict (stages r)) = Inr (stages r)"
    using wf by (auto simp: mapr_Inr list_all2_map1 list_all2_same wf_run_def norm_stage_decodes stage_wire.decode_encode)
  have ps: "mapr (package_from_dict cf) (map (json_norm \<circ> package_to_dict) (work_packages r)) = Inr (work_packages r)"
      "mapr (package_from_dict cf) (map package_to_dict (work_packages r)) = Inr (work_packages r)"
    using wf by (auto simp: mapr_Inr list_all2_map1 list_all2_same wf_run_def norm_package_decodes package_wire.decode_encode)
  have "run_from_dict parse cf (PDict d') = run_from_dict parse cf (PDict d)"
    using keys parts unfolding run_from_dict_def expect_exact_fields_def
    by (simp add: json_array_def ensure_def need_def run_fields_def eq st st' ss ps)
  with d d' run_wire.decode_encode [OF wf] show ?thesis by simp
qed

section \<open>The content of a save\<close>

lemma file_names_all [simp]: "f \<in> set file_names"
  by (cases f) (simp_all add: file_names_def)

lemma read_bounded_Inr [result_simps]: "read_bounded t = Inr x \<longleftrightarrow> x = t \<and> usize t \<le> MAX_FILE_BYTES"
  by (auto simp: read_bounded_def)

lemma verify_revision_Inr:
  "verify_revision dir contents = Inr x \<longleftrightarrow> (\<forall>f. dir f = Some (contents f) \<and> usize (contents f) \<le> MAX_FILE_BYTES)"
proof -
  have "verify_files dir contents fs = Inr y \<longleftrightarrow>
      (\<forall>f\<in>set fs. dir f = Some (contents f) \<and> usize (contents f) \<le> MAX_FILE_BYTES)" for fs y
    by (induction fs) (auto simp: result_simps)
  then show ?thesis by (auto simp: verify_revision_def result_simps list_all_iff)
qed

lemma publish_Inr:
  assumes "publish_revision e rid rv contents k = (ks, Inr x)"
  shows "\<exists>dir. map_of (revision_dirs (last_disk k ks)) (rid, rv) = Some dir \<and> (\<forall>f. dir f = Some (contents f))"
    and "active_file (last_disk k ks) = active_file k" "legacy_files (last_disk k ks) = legacy_files k"
  using assms
  by (cases "map_of (revision_dirs k) (rid, rv)";
      auto simp: publish_revision_def Let_def last_disk_def verify_revision_Inr split: if_splits)+

lemma own_target:
  assumes "read_manifest e t = Inr g"
    and "json_loads e t = Some (signed_manifest e key (unsigned_manifest e contents digest expected q))"
  shows "tg_run_id g = run_id (rq_state q)" "tg_revision g = revision (rq_state q)" "\<not> tg_legacy g"
proof -
  let ?m = "signed_manifest e key (unsigned_manifest e contents digest expected q)"
  let ?rid = "run_id (rq_state q)" and ?rv = "revision (rq_state q)"
  obtain d where d: "?m = PDict d" by (simp add: signed_manifest_def)
  define fs where "fs = the (as_mapping (file_entries e (revision_path ?rid ?rv) contents))"
  have fs: "item_of d ''files'' = PDict fs"
    using d unfolding fs_def
    by (auto simp: signed_manifest_def unsigned_manifest_def Let_def item_of_def file_entries_def)
  define entry where "entry f = [(PStr (u ''path''), PStr (revision_path ?rid ?rv f)),
      (PStr (u ''sha256''), PStr (sha256_hex e (contents f)))]" for f
  have entry: "item_of fs (name_key f) = PDict (entry f)" for f
    by (cases f) (simp_all add: fs_def file_entries_def item_of_def name_key_def entry_def)
  have entries: "mapr (\<lambda>f. mapping_with (item_of fs (name_key f)) [''path'', ''sha256''] err) file_names =
      Inr (map entry file_names)" for err
    by (rule mapr_all) (simp add: mapping_with_def entry need_def ensure_def, simp add: entry_def)
  have the_entry: "the (map_of (zip file_names (map entry file_names)) f) = entry f" for f
    by (cases f) (simp_all add: file_names_def)
  have path: "item_of (entry f) ''path'' = PStr (revision_path ?rid ?rv f)" for f
    by (simp add: entry_def item_of_def)
  have "legacy_path ?rid StateFile \<noteq> revision_path ?rid ?rv StateFile"
    by (simp add: legacy_path_def revision_path_def run_path_def file_text_def u_def)
  then have legacy: "\<not> list_all (\<lambda>f. item_of (entry f) ''path'' = PStr (legacy_path ?rid f)) file_names"
    by (auto simp: list_all_iff path intro!: bexI [of _ StateFile])
  have "mapping_with (PDict fs) (map name_key file_names) err = Inr fs" for err
    by (simp add: mapping_with_def need_def ensure_def)
       (simp add: fs_def file_entries_def file_names_def insert_commute)
  with assms d fs manifest_items [OF d] show "tg_run_id g = ?rid" "tg_revision g = ?rv" "\<not> tg_legacy g"
    unfolding read_manifest_def
    by (auto simp: bindr_Inr_iff need_Inr ensure_Inr read_bounded_Inr decode_json_def Let_def entries the_entry legacy)
qed

lemma load_files_values:
  assumes "load_files e dir dg file_names n = Inr xs" shows "dir f = Some (file_of xs f)"
proof -
  have "load_files e dir dg fs n = Inr xs \<Longrightarrow> map fst xs = fs \<and> (\<forall>(g, t)\<in>set xs. dir g = Some t)" for fs n xs
    by (induction fs arbitrary: n xs) (fastforce simp: result_simps)+
  with assms have keys: "map fst xs = file_names" and vals: "\<forall>(g, t)\<in>set xs. dir g = Some t" by blast+
  then have "f \<in> fst ` set xs" using file_names_all by (metis list.set_map)
  then obtain t where "map_of xs f = Some t" by (metis map_of_eq_None_iff option.exhaust)
  with vals show ?thesis by (auto simp: file_of_def dest: map_of_SomeD)
qed

text \<open>A save that went through holds what decoding the written files gives.\<close>

lemma saved_decodes:
  assumes save: "save_locked e key q k = (ks, Inr st)" and own: "reads_own_manifest e key q k"
    and plan: "plan_save e k q = Inr (Write expected contents)"
  shows "decode_files e (run_id (rq_state q)) (revision (rq_state q)) contents = Inr st"
  using save
proof (cases rule: save_locked_cases)
  case (saved expected' contents' js t k2 st')
  with plan have pub: "publish_revision e (run_id (rq_state q)) (revision (rq_state q)) contents k = (js, Inr ())"
    and nxt: "next_manifest e (last_disk k js) expected q contents key = Inr t" and st': "st' = st" by simp_all
  from nxt obtain digest where digest: "request_digest e expected q = Inr digest"
    and t: "t = json_pretty (signed_manifest e key (unsigned_manifest e contents digest expected q)) 0 @ [10]"
    by (rule next_manifest_Inr)
  with plan own have loads: "json_loads e t = Some (signed_manifest e key (unsigned_manifest e contents digest expected q))"
    by (simp add: reads_own_manifest_def json_norm_manifest Let_def)
  from saved(4,5) obtain g files where g: "read_manifest e t = Inr g"
    and files: "load_files e (target_files k2 g) (tg_digest g) file_names 0 = Inr files"
    and dec: "decode_files e (tg_run_id g) (tg_revision g) (file_of files) = Inr st"
    unfolding st' by (auto simp: load_active_def load_authenticated_def load_active_manifest_def result_simps)
  note target = own_target [OF g loads]
  from publish_Inr(1) [OF pub] saved(4) target have "target_files k2 g f = Some (contents f)" for f
    by (auto simp: target_files_def)
  with load_files_values [OF files] have "file_of files = contents" by (intro ext) (metis option.inject)
  with dec target show ?thesis by simp
qed (use plan in \<open>auto elim: plan_save_Repeat\<close>)

text \<open>The values that survive the trip through the files.\<close>

definition faithful_record :: "repo_env \<Rightarrow> pyval \<Rightarrow> bool" where
  "faithful_record e r \<longleftrightarrow> as_mapping r \<noteq> None \<and> printable_floats r \<and> reads_line e r \<and> one_line (json_dumps r)"

definition faithful_request :: "repo_env \<Rightarrow> save_request \<Rightarrow> bool" where
  "faithful_request e q \<longleftrightarrow> wf_run (iso_reader e) (casefold_of e) (rq_state q)
     \<and> reads_back e (run_to_dict (rq_state q)) \<and> reads_back e (rq_artifacts q) \<and> reads_back e (rq_verification q)
     \<and> as_mapping (rq_artifacts q) \<noteq> None \<and> as_mapping (rq_verification q) \<noteq> None
     \<and> (\<forall>r\<in>set (rq_events q @ rq_decisions q). faithful_record e r)"

lemma faithful_jsonl:
  "jsonl_bytes rs = Inr t \<Longrightarrow> \<forall>r\<in>set rs. faithful_record e r \<Longrightarrow> decode_jsonl e t = Inr (map json_norm rs)"
  by (subst jsonl_roundtrip_iff) (auto simp: faithful_record_def)

lemma faithful_contents:
  assumes contents: "file_contents q = Inr contents" and ok: "faithful_request e q"
  shows "decode_files e (run_id (rq_state q)) (revision (rq_state q)) contents =
    Inr \<lparr>stored_state = rq_state q, resume_markdown = rq_resume q, stored_decisions = map json_norm (rq_decisions q),
      stored_events = map json_norm (rq_events q), stored_artifacts = json_norm (rq_artifacts q),
      stored_verification = json_norm (rq_verification q)\<rparr>"
proof -
  from contents obtain d v where d: "jsonl_bytes (rq_decisions q) = Inr d" and v: "jsonl_bytes (rq_events q) = Inr v"
    and enc: "encodable (json_pretty (run_to_dict (rq_state q)) 0)" "encodable (json_pretty (rq_artifacts q) 0)"
      "encodable (json_pretty (rq_verification q) 0)" "encodable (rq_resume q)"
    and c: "contents StateFile = json_pretty (run_to_dict (rq_state q)) 0 @ [10]" "contents ResumeFile = rq_resume q"
      "contents DecisionsFile = d" "contents EventsFile = v"
      "contents ArtifactsFile = json_pretty (rq_artifacts q) 0 @ [10]"
      "contents VerificationFile = json_pretty (rq_verification q) 0 @ [10]"
    by (auto simp: file_contents_def encode_text_def bindr_Inr_iff document_json_Inr split: if_splits)
  have dec: "decode_jsonl e d = Inr (map json_norm (rq_decisions q))" "decode_jsonl e v = Inr (map json_norm (rq_events q))"
    using ok faithful_jsonl [OF d] faithful_jsonl [OF v] by (simp_all add: faithful_request_def)
  have maps: "as_mapping (json_norm x) \<noteq> None" if "as_mapping x \<noteq> None" for x using that by (cases x) simp_all
  have reread: "decode_json e (json_pretty x 0 @ [10]) = Inr (json_norm x)"
    if "reads_back e x" "encodable (json_pretty x 0)" for x
    using that by (simp add: decode_json_def reads_back_def ensure_def need_def is_surrogate_def)
  from ok have "run_from_dict (iso_reader e) (casefold_of e) (json_norm (run_to_dict (rq_state q))) = Inr (rq_state q)"
    by (intro norm_run_decodes) (simp add: faithful_request_def)
  then show ?thesis
    using ok enc maps dec
    by (simp add: decode_files_def c reread faithful_request_def bad_state_def decode_mapping_def ensure_def)
qed

section \<open>A save that succeeds\<close>

text \<open>What the library functions return: ASCII signatures, and digests of 64 hex digits.\<close>

definition digests_ok :: "repo_env \<Rightarrow> pystr \<Rightarrow> bool" where
  "digests_ok e key \<longleftrightarrow> (\<forall>t. is_digest (sha256_hex e t)) \<and> (\<forall>t. \<forall>c\<in>set (hmac_hex e key t). c < 128)"

lemma digest_ascii: "is_digest s \<Longrightarrow> c \<in> set s \<Longrightarrow> c < 128"
  by (auto simp: is_digest_def hex_lower_def)

lemma same_digest_refl: "\<forall>c\<in>set s. c < 128 \<Longrightarrow> same_digest (PStr s) s err = Inr ()"
  by (simp add: same_digest_def need_def ensure_def)

lemma load_files_all:
  assumes "\<And>f. dir f = Some (c f)" and "\<And>f. usize (c f) \<le> MAX_FILE_BYTES"
    and "\<And>f. same_digest (dg f) (sha256_hex e (c f)) (Integrity ''recovery digest'') = Inr ()"
  shows "n + sum_list (map (\<lambda>f. usize (c f)) fs) \<le> MAX_TOTAL_BYTES \<Longrightarrow>
    load_files e dir dg fs n = Inr (map (\<lambda>f. (f, c f)) fs)"
  by (induction fs arbitrary: n) (simp_all add: assms need_def read_bounded_def ensure_def not_less)

lemma file_of_all: "file_of (map (\<lambda>f. (f, c f)) file_names) = c"
proof
  fix f show "file_of (map (\<lambda>f. (f, c f)) file_names) f = c f"
    by (cases f) (simp_all add: file_of_def file_names_def)
qed

text \<open>The manifest of a save passes every check of the loader.\<close>

lemma own_manifest_read:
  assumes key: "require_key e = Inr key" and ok: "digests_ok e key"
    and loads: "json_loads e t = Some (signed_manifest e key (unsigned_manifest e contents digest expected q))"
    and size: "usize t \<le> MAX_FILE_BYTES" "encodable t"
    and digest: "is_digest digest" and rv: "1 \<le> revision (rq_state q)"
    and expected: "expected = None \<or> (\<exists>n. expected = Some (run_id (rq_state q), n) \<and> 1 \<le> n \<and> n < revision (rq_state q))"
    and dump: "canonical_json (PDict (unsigned_manifest e contents digest expected q)) =
      Inr (json_dumps (PDict (unsigned_manifest e contents digest expected q)))"
  shows "\<exists>g. read_manifest e t = Inr g \<and> (\<forall>f. tg_digest g f = PStr (sha256_hex e (contents f)))"
proof -
  let ?m = "signed_manifest e key (unsigned_manifest e contents digest expected q)"
  let ?rid = "run_id (rq_state q)" and ?rv = "revision (rq_state q)"
  obtain d where d: "?m = PDict d" by (simp add: signed_manifest_def)
  have d': "d = the (as_mapping ?m)" by (simp add: d)
  define fs where "fs = the (as_mapping (file_entries e (revision_path ?rid ?rv) contents))"
  have fs: "item_of d ''files'' = PDict fs"
    unfolding d' fs_def by (simp add: signed_manifest_def unsigned_manifest_def Let_def item_of_def file_entries_def)
  define entry where "entry f = [(PStr (u ''path''), PStr (revision_path ?rid ?rv f)),
      (PStr (u ''sha256''), PStr (sha256_hex e (contents f)))]" for f
  have entry: "item_of fs (name_key f) = PDict (entry f)" for f
    by (cases f) (simp_all add: fs_def file_entries_def item_of_def name_key_def entry_def)
  have entries: "mapr (\<lambda>f. mapping_with (item_of fs (name_key f)) [''path'', ''sha256''] err) file_names =
      Inr (map entry file_names)" for err
    by (rule mapr_all) (simp add: mapping_with_def entry need_def ensure_def, simp add: entry_def)
  have the_entry: "the (map_of (zip file_names (map entry file_names)) f) = entry f" for f
    by (cases f) (simp_all add: file_names_def)
  have paths: "list_all (\<lambda>f. item_of (entry f) ''path'' = PStr (revision_path ?rid ?rv f)) file_names"
    and sha: "item_of (entry f) ''sha256'' = PStr (sha256_hex e (contents f))" for f
    by (simp_all add: list_all_iff entry_def item_of_def)
  have files: "mapping_with (PDict fs) (map name_key file_names) err = Inr fs" for err
    by (simp add: mapping_with_def need_def ensure_def)
       (simp add: fs_def file_entries_def file_names_def insert_commute)
  have fields: "fst ` set d = set (map (\<lambda>x. PStr (u x)) (''save_request'' # manifest_fields))"
    unfolding d' by (simp add: signed_manifest_def unsigned_manifest_def Let_def manifest_fields_def insert_commute)
  have version: "item_of d ''schema_version'' = PInt 1"
    unfolding d' by (simp add: signed_manifest_def unsigned_manifest_def Let_def item_of_def)
  have sig: "item_of d ''hmac_sha256'' = PStr (hmac_hex e key (json_dumps (PDict (unsigned_manifest e contents digest expected q))))"
    and rest: "AList.delete (PStr (u ''hmac_sha256'')) d = unsigned_manifest e contents digest expected q"
    unfolding d' by (simp_all add: signed_manifest_def unsigned_manifest_def Let_def item_of_def AList.delete_eq)
  have signature: "check_signature e key d = Inr ()"
    unfolding check_signature_def sig rest dump using ok
    by (simp add: need_def digests_ok_def same_digest_refl)
  have meta: "\<exists>x. validate_metadata (request_metadata expected digest) ?rid ?rv = Inr x"
    using expected digest
    by (auto simp: validate_metadata_def mapping_with_def need_def ensure_def request_metadata_def item_of_def
        expected_value_def)
  note items = manifest_items [OF d]
  let ?g = "\<lparr>tg_value = PDict d, tg_run_id = ?rid, tg_revision = ?rv,
     tg_legacy = list_all (\<lambda>f. item_of (entry f) ''path'' = PStr (legacy_path ?rid f)) file_names,
     tg_digest = (\<lambda>f. item_of (entry f) ''sha256'')\<rparr>"
  from meta obtain x where x: "validate_metadata (request_metadata expected digest) ?rid ?rv = Inr x" ..
  have "read_manifest e t = Inr ?g"
    unfolding read_manifest_def key bindr.simps
    using size loads d fields version signature items rv x
    by (simp add: read_bounded_def decode_json_def ensure_def need_def fs files entries the_entry paths Let_def)
  then show ?thesis by (auto simp: sha intro!: exI [of _ ?g])
qed

lemma wf_revision: "wf_run parse cf r \<Longrightarrow> 1 \<le> revision r"
  by (simp add: wf_run_def valid_run_def)

lemma run_from_dict_wf: "run_from_dict parse cf v = Inr r \<Longrightarrow> wf_run parse cf r"
  by (rule run_wire.decode_valid)

lemma decode_files_wf:
  assumes "decode_files e rid rv c = Inr st"
  shows "wf_run (iso_reader e) (casefold_of e) (stored_state st)"
proof -
  have bad: "bad_state r = Inr x \<longleftrightarrow> r = Inr x" for r :: "run_error + run_state" and x
    by (cases r) (simp_all add: bad_state_def)
  from assms obtain v where "run_from_dict (iso_reader e) (casefold_of e) v = Inr (stored_state st)"
    by (auto simp: decode_files_def result_simps bad)
  then show ?thesis by (rule run_from_dict_wf)
qed

lemma loaded_revision:
  assumes "load_authenticated e k = Inr (Some (st, m))" shows "1 \<le> revision (stored_state st)"
proof -
  from assms obtain c rid rv where "decode_files e rid rv c = Inr st"
    by (auto simp: load_authenticated_def load_active_manifest_def result_simps split: option.splits)
  from decode_files_wf [OF this] show ?thesis using wf_revision by blast
qed

text \<open>What a save needs of the sizes: files within the bounds of one file and of all.\<close>

definition sizes_ok :: "repo_env \<Rightarrow> pystr \<Rightarrow> save_request \<Rightarrow> (pystr \<times> int) option \<Rightarrow> (file_name \<Rightarrow> pystr) \<Rightarrow> bool" where
  "sizes_ok e key q expected contents \<longleftrightarrow> list_all (\<lambda>f. usize (contents f) \<le> MAX_FILE_BYTES) file_names
     \<and> sum_list (map (\<lambda>f. usize (contents f)) file_names) \<le> MAX_TOTAL_BYTES
     \<and> (case request_digest e expected q of Inl _ \<Rightarrow> False | Inr digest \<Rightarrow>
         (let m = unsigned_manifest e contents digest expected q in
          canonical_json (PDict m) = Inr (json_dumps (PDict m))
          \<and> (case document_json (signed_manifest e key m) of Inl _ \<Rightarrow> False | Inr t \<Rightarrow> usize t \<le> MAX_FILE_BYTES)))"

lemma own_manifest_loads:
  assumes key: "require_key e = Inr key" and ok: "digests_ok e key"
    and loads: "json_loads e t = Some (signed_manifest e key (unsigned_manifest e contents digest expected q))"
    and size: "usize t \<le> MAX_FILE_BYTES" "encodable t" and digest: "is_digest digest"
    and base: "expected = None \<or> (\<exists>n. expected = Some (run_id (rq_state q), n) \<and> 1 \<le> n \<and> n < revision (rq_state q))"
    and dump: "canonical_json (PDict (unsigned_manifest e contents digest expected q)) =
      Inr (json_dumps (PDict (unsigned_manifest e contents digest expected q)))"
    and dir: "map_of (revision_dirs k) (run_id (rq_state q), revision (rq_state q)) = Some (\<lambda>f. Some (contents f))"
    and small: "\<And>f. usize (contents f) \<le> MAX_FILE_BYTES"
    and bound: "sum_list (map (\<lambda>f. usize (contents f)) file_names) \<le> MAX_TOTAL_BYTES"
    and dec: "decode_files e (run_id (rq_state q)) (revision (rq_state q)) contents = Inr st"
  shows "load_active_manifest e k t = Inr (st, signed_manifest e key (unsigned_manifest e contents digest expected q))"
proof -
  have rv: "1 \<le> revision (rq_state q)"
    using wf_revision [OF decode_files_wf [OF dec]] decode_files_Inr [OF dec] by (simp add: target_of_def)
  from own_manifest_read [OF key ok loads size digest rv base dump]
  obtain g where g: "read_manifest e t = Inr g" and sha: "\<And>f. tg_digest g f = PStr (sha256_hex e (contents f))" by blast
  note target = own_target [OF g loads]
  have files: "target_files k g = (\<lambda>f. Some (contents f))" using target dir by (simp add: target_files_def)
  have "same_digest (tg_digest g f) (sha256_hex e (contents f)) (Integrity ''recovery digest'') = Inr ()" for f
    unfolding sha using ok digest_ascii by (intro same_digest_refl) (auto simp: digests_ok_def)
  then have "load_files e (target_files k g) (tg_digest g) file_names 0 = Inr (map (\<lambda>f. (f, contents f)) file_names)"
    unfolding files using small bound by (intro load_files_all) simp_all
  moreover from g obtain d where "json_loads e t = Some (PDict d)" "tg_value g = PDict d" by (rule read_manifest_Inr)
  ultimately show ?thesis
    using g dec target loads by (simp add: load_active_manifest_def file_of_all)
qed

text \<open>A plan of bounded files is published, and its manifest is written next.\<close>

definition published :: "save_request \<Rightarrow> (file_name \<Rightarrow> pystr) \<Rightarrow> repo \<Rightarrow> repo list" where
  "published q contents k = (let key = (run_id (rq_state q), revision (rq_state q)) in
     [k\<lparr>staging_dirs := key # staging_dirs k\<rparr>, k\<lparr>revision_dirs := (key, \<lambda>f. Some (contents f)) # revision_dirs k\<rparr>])"

lemma small_plan_published:
  assumes "list_all (\<lambda>f. usize (contents f) \<le> MAX_FILE_BYTES) file_names"
    and "map_of (revision_dirs k) (run_id (rq_state q), revision (rq_state q)) = None"
  shows "publish_revision e (run_id (rq_state q)) (revision (rq_state q)) contents k = (published q contents k, Inr ())"
proof -
  have small: "usize (contents f) \<le> MAX_FILE_BYTES" for f using assms(1) file_names_all by (auto simp: list_all_iff)
  then have "\<not> list_ex (\<lambda>f. MAX_FILE_BYTES < usize (contents f)) file_names" by (auto simp: list_ex_iff not_less)
  then show ?thesis
    using assms(2) verify_revision_Inr [of "\<lambda>f. Some (contents f)" contents "()"] small
    by (simp add: publish_revision_def published_def Let_def)
qed

lemma planned_manifest:
  assumes plan: "plan_save e k q = Inr (Write expected contents)"
    and fresh: "map_of (revision_dirs k) (run_id (rq_state q), revision (rq_state q)) = None"
    and sizes: "sizes_ok e key q expected contents" and digest: "request_digest e expected q = Inr digest"
  shows "next_manifest e (last_disk k (published q contents k)) expected q contents key =
    Inr (json_pretty (signed_manifest e key (unsigned_manifest e contents digest expected q)) 0 @ [10])"
proof -
  from plan obtain auth where auth: "load_authenticated e k = Inr auth"
    and expected: "expected = map_option (target_of \<circ> fst) auth" by (rule plan_save_Write)
  let ?k1 = "last_disk k (published q contents k)"
  have "list_all (\<lambda>f. usize (contents f) \<le> MAX_FILE_BYTES) file_names" using sizes by (simp add: sizes_ok_def)
  from publish_agrees [OF auth small_plan_published [OF this fresh], of ?k1] auth
  have "load_authenticated e ?k1 = Inr auth" by (simp add: agrees_def)
  then have "assert_active e ?k1 expected = Inr ()"
    by (simp add: assert_active_def load_active_def expected ensure_def target_of_def option.map_comp comp_def)
  then show ?thesis
    using sizes digest by (auto simp: next_manifest_def Let_def read_bounded_def sizes_ok_def result_simps split: sum.splits)
qed

lemma save_goes_through:
  assumes key: "require_key e = Inr key" and ok: "digests_ok e key"
    and plan: "plan_save e k q = Inr (Write expected contents)" and own: "reads_own_manifest e key q k"
    and fresh: "map_of (revision_dirs k) (run_id (rq_state q), revision (rq_state q)) = None"
    and sizes: "sizes_ok e key q expected contents"
    and dec: "decode_files e (run_id (rq_state q)) (revision (rq_state q)) contents = Inr st"
  shows "\<exists>ks. save_locked e key q k = (ks, Inr st)"
proof -
  let ?rid = "run_id (rq_state q)" and ?rv = "revision (rq_state q)"
  from plan obtain auth where auth: "load_authenticated e k = Inr auth"
    and expected: "expected = map_option (target_of \<circ> fst) auth"
    and existing: "\<forall>st m. auth = Some (st, m) \<longrightarrow> check_existing e k q st m = Inr None"
    by (elim plan_save_Write) blast
  have base: "expected = None \<or> (\<exists>n. expected = Some (?rid, n) \<and> 1 \<le> n \<and> n < ?rv)"
  proof (cases auth)
    case (Some y)
    obtain s m where y: "auth = Some (s, m)" using Some by (cases y) auto
    with existing have "check_existing e k q s m = Inr None" by blast
    from check_existing_Inr [OF this] loaded_revision [of e k s m] auth y expected show ?thesis
      by (simp add: target_of_def)
  qed (simp add: expected)
  from sizes obtain digest where digest: "request_digest e expected q = Inr digest"
    by (cases "request_digest e expected q") (auto simp: sizes_ok_def)
  let ?m = "unsigned_manifest e contents digest expected q"
  let ?t = "json_pretty (signed_manifest e key ?m) 0 @ [10]"
  from sizes digest have small: "usize (contents f) \<le> MAX_FILE_BYTES" for f
    unfolding sizes_ok_def list_all_iff using file_names_all by blast
  from sizes digest have total: "sum_list (map (\<lambda>f. usize (contents f)) file_names) \<le> MAX_TOTAL_BYTES"
    and dump: "canonical_json (PDict ?m) = Inr (json_dumps (PDict ?m))"
    and doc: "document_json (signed_manifest e key ?m) = Inr ?t" "usize ?t \<le> MAX_FILE_BYTES" "encodable ?t"
    by (auto simp: sizes_ok_def Let_def result_simps is_surrogate_def split: sum.splits)
  have "is_digest digest" using digest ok by (auto simp: request_digest_def result_simps digests_ok_def)
  let ?js = "published q contents k" and ?k1 = "last_disk k (published q contents k)"
  have pub: "publish_revision e ?rid ?rv contents k = (?js, Inr ())"
    by (rule small_plan_published [OF _ fresh]) (use sizes in \<open>simp add: sizes_ok_def\<close>)
  have dir: "map_of (revision_dirs ?k1) (?rid, ?rv) = Some (\<lambda>f. Some (contents f))"
    by (simp add: published_def last_disk_def Let_def)
  note nxt = planned_manifest [OF plan fresh sizes digest]
  have loads: "json_loads e ?t = Some (signed_manifest e key ?m)"
    using plan own digest by (simp add: reads_own_manifest_def json_norm_manifest Let_def)
  let ?k2 = "?k1\<lparr>active_file := Some ?t\<rparr>"
  have "load_active_manifest e ?k2 ?t = Inr (st, signed_manifest e key ?m)"
    using own_manifest_loads [OF key ok loads doc(2,3) \<open>is_digest digest\<close> base dump _ small total dec, of ?k2] dir by simp
  then have "load_active e ?k2 = Inr (Some st)"
    by (simp add: load_active_def load_authenticated_def)
  then have "save_locked e key q k = (?js @ ?k2 # prune_revisions e ?rid ?rv ?k2, Inr st)"
    using plan pub nxt by (simp add: save_locked_def Let_def)
  then show ?thesis ..
qed

lemma plan_decodes:
  assumes "plan_save e k q = Inr (Write expected contents)" and "load_active e k = Inr old"
    and "faithful_request e (carry_over old q)"
  shows "\<exists>st. decode_files e (run_id (rq_state q)) (revision (rq_state q)) contents = Inr st \<and> stored_state st = rq_state q
    \<and> resume_markdown st = rq_resume q
    \<and> stored_events st = map json_norm ((case old of None \<Rightarrow> [] | Some x \<Rightarrow> stored_events x) @ rq_events q)"
proof -
  from assms(1) obtain auth where auth: "load_authenticated e k = Inr auth"
    and contents: "file_contents (carry_over (map_option fst auth) q) = Inr contents"
    by (rule plan_save_Write)
  with assms(2) have old: "old = map_option fst auth" by (simp add: load_active_Inr)
  have same: "rq_state (carry_over old q) = rq_state q" "rq_resume (carry_over old q) = rq_resume q"
    "rq_events (carry_over old q) = (case old of None \<Rightarrow> [] | Some x \<Rightarrow> stored_events x) @ rq_events q"
    by (simp_all add: carry_over_def split: option.split)
  from faithful_contents [OF contents [folded old] assms(3)] show ?thesis by (simp add: same)
qed

lemma saved_run_is_loaded:
  assumes "save_locked e key q k = (ks, Inr st)" and "reads_own_manifest e key q k"
    and "plan_save e k q = Inr (Write expected contents)" and "load_active e k = Inr old"
    and "faithful_request e (carry_over old q)"
  shows "load_active e (last_disk k ks) = Inr (Some st) \<and> stored_state st = rq_state q
    \<and> resume_markdown st = rq_resume q
    \<and> stored_events st = map json_norm ((case old of None \<Rightarrow> [] | Some x \<Rightarrow> stored_events x) @ rq_events q)"
  using plan_decodes [OF assms(3-5)] saved_decodes [OF assms(1-3)] saved_is_active(1) [OF assms(1,2)] by auto

section \<open>Runs that cannot go on\<close>

lemma unreadable_refuses:
  assumes "load_active e k = Inl err"
  shows "\<exists>x. save_run e q k = ([], Inl x)" "\<exists>x. archive_active e rid k = ([], Inl x)"
proof -
  have "\<exists>x. load_authenticated e k = Inl x" using assms
    by (cases "load_authenticated e k") (auto simp: load_active_def)
  then obtain x where x: "load_authenticated e k = Inl x" ..
  then have "plan_save e k q = Inl x" for q by (simp add: plan_save_def)
  then have saves: "save_locked e key q k = ([], Inl x)" for key q by (simp add: save_locked_def Let_def)
  show "\<exists>x. save_run e q k = ([], Inl x)"
    by (simp add: save_run_def saves split: sum.split)
  show "\<exists>x. archive_active e rid k = ([], Inl x)"
    by (simp add: archive_active_def x)
qed

text \<open>A published revision whose files differ from those of a save stops it before it writes.\<close>

lemma published_conflict:
  assumes "plan_save e k q = Inr (Write expected contents)"
    and "map_of (revision_dirs k) (run_id (rq_state q), revision (rq_state q)) = Some dir"
    and "dir f \<noteq> Some (contents f)"
  shows "\<exists>err. save_locked e key q k = ([], Inl err)"
proof -
  have "verify_revision dir contents \<noteq> Inr ()" using assms(3) by (auto simp: verify_revision_Inr)
  then obtain err where "verify_revision dir contents = Inl err" by (cases "verify_revision dir contents") auto
  with assms(1,2) show ?thesis by (simp add: save_locked_def publish_revision_def Let_def)
qed

section \<open>Encodable values\<close>

primrec texts_ok :: "pyval \<Rightarrow> bool" where
  "texts_ok PNone = True"
| "texts_ok (PBool b) = True"
| "texts_ok (PInt i) = True"
| "texts_ok (PFloat f) = (case f of Fin _ t \<Rightarrow> encodable t | NonFin t \<Rightarrow> encodable t)"
| "texts_ok (PStr s) = encodable s"
| "texts_ok (PList xs) = list_all id (map texts_ok xs)"
| "texts_ok (PTuple xs) = list_all id (map texts_ok xs)"
| "texts_ok (PDict d) = (list_all (\<lambda>k. encodable (key_text k)) (map fst d)
     \<and> list_all snd (map (map_prod texts_ok texts_ok) d))"
| "texts_ok (POther n) = True"

lemma encodable_ascii: "encodable (u s)"
proof -
  have "\<not> is_surrogate (of_char c)" for c :: char
    unfolding is_surrogate_def using nat_of_char_less_256 [of c] by linarith
  then show ?thesis by (auto simp: encodable_def u_def)
qed

lemma encodable_join: "encodable sep \<Longrightarrow> \<forall>t\<in>set ts. encodable t \<Longrightarrow> encodable (join_with sep ts)"
  by (induction sep ts rule: join_with.induct) simp_all

lemma encodable_new_line [simp]: "encodable (new_line n)"
  by (auto simp: new_line_def encodable_def is_surrogate_def)

lemma encodable_block: "\<not> is_surrogate l \<Longrightarrow> \<not> is_surrogate r \<Longrightarrow> \<forall>t\<in>set ts. encodable t \<Longrightarrow> encodable (block_text l r n ts)"
  by (simp add: block_text_def encodable_join is_surrogate_def)

lemma dict_members:
  "zip (map (key_text \<circ> fst) d) (map snd (map (map_prod f g) d)) = map (\<lambda>(k, v). (key_text k, g v)) d"
  by (induction d) auto

lemma encodable_pretty: "texts_ok v \<Longrightarrow> encodable (json_pretty v n)"
proof (induction v arbitrary: n)
  case (PFloat f)
  then show ?case by (cases f) simp_all
next
  case (PList xs)
  then show ?case unfolding json_pretty.simps
    by (intro encodable_block) (auto simp: is_surrogate_def list_all_iff)
next
  case (PTuple xs)
  then show ?case unfolding json_pretty.simps
    by (intro encodable_block) (auto simp: is_surrogate_def list_all_iff)
next
  case (PDict d)
  have member: "encodable (json_string (key_text k) @ u '': '' @ json_pretty v (Suc n))" if "(k, v) \<in> set d" for k v
  proof -
    have "v \<in> Basic_BNFs.snds (k, v)" by simp
    with that PDict.IH(2) [OF that this] PDict.prems show ?thesis
      by (auto simp: list_all_iff encodable_ascii)
  qed
  then show ?case unfolding json_pretty.simps dict_members
    by (intro encodable_block) (auto simp: is_surrogate_def)
qed (simp_all add: encodable_ascii)

lemma encodable_dumps: "texts_ok v \<Longrightarrow> encodable (json_dumps v)"
proof (induction v)
  case (PFloat f)
  then show ?case by (cases f) simp_all
next
  case (PDict d)
  have member: "encodable (member_text (key_text k, json_dumps v))" if "(k, v) \<in> set d" for k v
  proof -
    have "v \<in> Basic_BNFs.snds (k, v)" by simp
    with that PDict.IH(2) [OF that this] PDict.prems show ?thesis
      by (auto simp: list_all_iff member_text_def is_surrogate_def)
  qed
  then show ?case unfolding dumps_dict by (auto simp: is_surrogate_def)
qed (auto simp: encodable_ascii list_all_iff is_surrogate_def)

text \<open>A bound on the length of a document, without building it.\<close>

primrec weight :: "pyval \<Rightarrow> nat \<Rightarrow> nat" where
  "weight PNone n = 4"
| "weight (PBool b) n = 5"
| "weight (PInt i) n = length (dec_int i)"
| "weight (PFloat f) n = (case f of Fin _ t \<Rightarrow> length t | NonFin t \<Rightarrow> length t)"
| "weight (PStr s) n = 6 * length s + 2"
| "weight (PList xs) n = 4 * n + 6 + sum_list (map (\<lambda>f. f (Suc n) + 2 * n + 4) (map weight xs))"
| "weight (PTuple xs) n = 4 * n + 6 + sum_list (map (\<lambda>f. f (Suc n) + 2 * n + 4) (map weight xs))"
| "weight (PDict d) n = 4 * n + 6 + sum_list (map (\<lambda>(k, f). 6 * length k + 4 + f (Suc n) + 2 * n + 4)
     (zip (map (key_text \<circ> fst) d) (map snd (map (map_prod weight weight) d))))"
| "weight (POther k) n = 0"

lemma length_json_string: "length (json_string s) \<le> 6 * length s + 2"
proof -
  have "length (json_char c) \<le> 6" for c by (simp add: json_char_def)
  then have "length (concat (map json_char s)) \<le> 6 * length s"
    by (induction s) (auto simp: add_mono)
  then show ?thesis by (simp add: json_string_def)
qed

lemma length_block: "length (block_text l r n ts) \<le> 4 * n + 6 + sum_list (map (\<lambda>t. length t + 2 * n + 4) ts)"
proof -
  have "length (join_with sep ts) \<le> sum_list (map (\<lambda>t. length t + length sep) ts)" for sep :: pystr
    by (induction sep ts rule: join_with.induct) simp_all
  note join = this [of "44 # new_line (Suc n)"]
  have size: "length (new_line k) = 2 * k + 1" for k by (simp add: new_line_def)
  have "length (44 # new_line (Suc n)) = 2 * n + 4" by (simp add: size)
  with join have "length (join_with (44 # new_line (Suc n)) ts) \<le> sum_list (map (\<lambda>t. length t + 2 * n + 4) ts)"
    by (simp only: add.assoc)
  then show ?thesis by (simp add: block_text_def size)
qed

lemma length_pretty: "length (json_pretty v n) \<le> weight v n"
proof (induction v arbitrary: n)
  case (PFloat f)
  then show ?case by (cases f) simp_all
next
  case (PList xs)
  have "sum_list (map (\<lambda>t. length t + 2 * n + 4) (map (\<lambda>f. f (Suc n)) (map json_pretty xs))) \<le>
      sum_list (map (\<lambda>f. f (Suc n) + 2 * n + 4) (map weight xs))"
    using PList by (auto simp: comp_def intro!: sum_list_mono)
  with length_block [of 91 93 n] show ?case unfolding json_pretty.simps weight.simps by (meson add_left_mono order_trans)
next
  case (PTuple xs)
  have "sum_list (map (\<lambda>t. length t + 2 * n + 4) (map (\<lambda>f. f (Suc n)) (map json_pretty xs))) \<le>
      sum_list (map (\<lambda>f. f (Suc n) + 2 * n + 4) (map weight xs))"
    using PTuple by (auto simp: comp_def intro!: sum_list_mono)
  with length_block [of 91 93 n] show ?case unfolding json_pretty.simps weight.simps by (meson add_left_mono order_trans)
next
  case (PDict d)
  let ?w = "\<lambda>(k, f). length (json_string k @ u '': '' @ f (Suc n)) + 2 * n + 4"
  have "sum_list (map (\<lambda>t. length t + 2 * n + 4) (map (\<lambda>(k, f). json_string k @ u '': '' @ f (Suc n))
        (sort_key fst (map (\<lambda>(k, v). (key_text k, json_pretty v)) d)))) =
      sum_list (map ?w (sort_key fst (map (\<lambda>(k, v). (key_text k, json_pretty v)) d)))"
    by (simp add: comp_def case_prod_unfold)
  also have "\<dots> = sum_list (map ?w (map (\<lambda>(k, v). (key_text k, json_pretty v)) d))"
    by (rule sum_list_sort_key)
  also have "\<dots> \<le> sum_list (map (\<lambda>(k, f). 6 * length k + 4 + f (Suc n) + 2 * n + 4)
      (map (\<lambda>(k, v). (key_text k, weight v)) d))"
  proof -
    have "length (json_string (key_text k) @ u '': '' @ json_pretty v (Suc n)) \<le> 6 * length (key_text k) + 4 + weight v (Suc n)"
      if "(k, v) \<in> set d" for k v
    proof -
      have "v \<in> Basic_BNFs.snds (k, v)" by simp
      from PDict.IH(2) [OF that this, of "Suc n"] length_json_string [of "key_text k"] show ?thesis by simp
    qed
    then show ?thesis by (auto simp: comp_def case_prod_unfold intro!: sum_list_mono)
  qed
  finally show ?case using length_block [of 123 125 n] unfolding json_pretty.simps weight.simps dict_members
    by (meson add_left_mono order_trans)
next
  case (PStr s)
  then show ?case using length_json_string [of s] by simp
qed simp_all

lemma usize_length: "usize s \<le> 4 * length s"
  by (induction s) (auto simp: usize_def utf8_width_def)

lemma document_size: "4 * weight v 0 + 4 \<le> b \<Longrightarrow> usize (json_pretty v 0 @ [10]) \<le> b"
  using usize_length [of "json_pretty v 0 @ [10]"] length_pretty [of v 0] by simp

section \<open>Python's \<open>json.loads\<close>\<close>

text \<open>With Python's own \<open>json.loads\<close>, a save always reads its manifest back.\<close>

definition python_json :: "repo_env \<Rightarrow> (pystr \<Rightarrow> pyfloat) \<Rightarrow> bool" where
  "python_json e flt \<longleftrightarrow> json_loads e = loads flt dict_hook"

lemma python_reads:
  "python_json e flt \<Longrightarrow> loadable flt v \<Longrightarrow> reads_back e v" "python_json e flt \<Longrightarrow> loadable flt v \<Longrightarrow> reads_line e v"
  by (simp_all add: python_json_def reads_back_def reads_line_def loads_dumps hooks_keep)

lemma manifest_loadable:
  assumes "dumpable (request_value expected q)"
  shows "loadable flt (signed_manifest e key (unsigned_manifest e contents digest expected q))"
proof -
  have "small_int (revision (rq_state q))" "loadable flt (expected_value expected)"
    using assms by (auto simp: request_value_def expected_value_def split: option.splits)
  then show ?thesis
    by (simp add: signed_manifest_def unsigned_manifest_def Let_def request_metadata_def file_entries_def name_key_def u_def)
qed

lemma python_reads_own: "python_json e flt \<Longrightarrow> reads_own_manifest e key q k"
proof -
  assume py: "python_json e flt"
  have "json_loads e (json_pretty m 0 @ [10]) = Some (json_norm m)"
    if "request_digest e expected q = Inr digest" and m: "m = signed_manifest e key (unsigned_manifest e contents digest expected q)"
    for expected digest contents m
  proof -
    have "dumpable (request_value expected q)" using that(1) by (auto simp: request_digest_def result_simps)
    from python_reads(1) [OF py manifest_loadable [OF this]] show ?thesis unfolding m reads_back_def .
  qed
  then show ?thesis by (auto simp: reads_own_manifest_def Let_def split: sum.split save_plan.split)
qed

lemma run_dict_loadable:
  "dumpable (run_to_dict r) \<Longrightarrow> loadable flt (schema_version r) \<Longrightarrow> loadable flt (run_to_dict r)"
  by (auto simp: run_to_dict_def stage_to_dict_def package_to_dict_def strs_def opt_value_def u_def split: option.split)

text \<open>A save that wrote something leaves the state it was given.\<close>

lemma python_saved_state:
  assumes py: "python_json e flt" and wf: "wf_run (iso_reader e) (casefold_of e) (rq_state q)"
    and schema: "loadable flt (schema_version (rq_state q))"
    and save: "save_locked e key q k = (ks, Inr st)" and plan: "plan_save e k q = Inr (Write expected contents)"
  shows "stored_state st = rq_state q"
proof -
  from plan obtain old where "file_contents (carry_over old q) = Inr contents" by (elim plan_save_Write) blast
  moreover have "rq_state (carry_over x q) = rq_state q" for x by (simp add: carry_over_def split: option.split)
  ultimately have doc: "document_json (run_to_dict (rq_state q)) = Inr (contents StateFile)"
    by (auto simp: file_contents_def bindr_Inr_iff)
  then have "loadable flt (run_to_dict (rq_state q))" by (intro run_dict_loadable schema) (simp add: document_json_Inr)
  from python_reads(1) [OF py this] doc have "json_loads e (contents StateFile) = Some (json_norm (run_to_dict (rq_state q)))"
    by (simp add: reads_back_def document_json_Inr)
  with saved_decodes [OF save python_reads_own [OF py] plan] show ?thesis
    using wf by (auto simp: decode_files_def decode_json_def bad_state_def norm_run_decodes bindr_Inr_iff result_simps)
qed

text \<open>Sanitising a state keeps its revision, status, level and version, when it is still a state.\<close>

lemma enum_redacted:
  assumes "enum_of f xs (if secret then PStr REDACTED else PStr (redact_text e (u (f s)))) = Some s'"
    and "\<And>x. 91 \<notin> set (u (f x))" and "\<And>x y. f x = f y \<Longrightarrow> x = y"
  shows "s' = s"
proof -
  let ?t = "if secret then REDACTED else redact_text e (u (f s))"
  from assms(1) have "?t = u (f s')" by (cases secret) (auto simp: enum_of_def find_Some_iff)
  then have "91 \<notin> set ?t" using assms(2) by simp
  then have "?t = u (f s)" using redact_text_marker [of e "u (f s)"] by (auto simp: REDACTED_def u_def split: if_splits)
  with \<open>?t = u (f s')\<close> assms(3) show ?thesis by simp
qed

lemma item_redacted:
  "item_of (map (\<lambda>(k, v). (k, if is_secret_key e (key_of e k) then PStr REDACTED else redact_value e v)) d) k =
     (if field d k = None then the None
      else if is_secret_key e (u k) then PStr REDACTED else redact_value e (item_of d k))"
proof (induction d)
  case (Cons x d)
  obtain k' v where x: "x = (k', v)" by (cases x)
  show ?case
  proof (cases "k' = PStr (u k)")
    case True
    then show ?thesis by (simp add: x item_of_def field_def key_of_def)
  next
    case False
    with Cons show ?thesis by (simp add: x item_of_def field_def)
  qed
qed (simp add: item_of_def field_def)

lemma plain_version:
  assumes "version_ok v" and "version_ok (if secret then PStr REDACTED else redact_value e v)"
  shows "(if secret then PStr REDACTED else redact_value e v) = v"
  using assms by (cases v) (auto simp: version_ok_def split: if_splits)

lemma level_no_bracket [simp]: "91 \<notin> set (u (level_value l))"
  by (cases l) (simp_all add: level_value_def u_def)

lemma status_no_bracket [simp]: "91 \<notin> set (u (run_status_value s))"
  by (cases s) (simp_all add: run_status_value_def u_def)

lemma run_from_dict_parts:
  assumes "run_from_dict parse cf (PDict d) = Inr r"
  shows "item_of d ''revision'' = PInt (revision r)" "item_of d ''schema_version'' = schema_version r"
    "enum_of run_status_value run_statuses (item_of d ''status'') = Some (run_status r)"
    "enum_of level_value context_levels (item_of d ''context_level'') = Some (context_level r)"
    "version_ok (schema_version r)"
proof -
  have exact: "expect_exact_fields (PDict d) ks f = Inr x \<Longrightarrow> x = d" for ks f x
    by (simp add: expect_exact_fields_Inr)
  from assms obtain st cl n ss ps where "enum_of run_status_value run_statuses (item_of d ''status'') = Some st"
    "enum_of level_value context_levels (item_of d ''context_level'') = Some cl"
    and run: "RunState parse cf n \<lparr>rw_schema = item_of d ''schema_version'', rw_run_id = item_of d ''run_id'',
      rw_revision = item_of d ''revision'', rw_updated_at = item_of d ''updated_at'', rw_goal = item_of d ''goal'',
      rw_current_stage = item_of d ''current_stage'', rw_status = Some st, rw_base_commit = item_of d ''base_commit'',
      rw_active_branch = item_of d ''active_branch'', rw_context_level = Some cl, rw_next_action = item_of d ''next_action'',
      rw_next_command = item_of d ''next_command'', rw_stages = Some ss, rw_packages = Some ps\<rparr> = Inr r"
    unfolding run_from_dict_def bindr_Inr_iff need_Inr by (blast dest: exact)
  with run [unfolded RunState_Inr] show "item_of d ''revision'' = PInt (revision r)"
    "item_of d ''schema_version'' = schema_version r"
    "enum_of run_status_value run_statuses (item_of d ''status'') = Some (run_status r)"
    "enum_of level_value context_levels (item_of d ''context_level'') = Some (context_level r)"
    "version_ok (schema_version r)"
    by (simp_all add: raw_of_run_def valid_run_def)
qed

lemma sanitized_state:
  assumes "run_from_dict parse cf (redact_value e (run_to_dict r)) = Inr r'" and "version_ok (schema_version r)"
  shows "revision r' = revision r \<and> run_status r' = run_status r \<and> context_level r' = context_level r
    \<and> schema_version r' = schema_version r"
proof -
  let ?secret = "\<lambda>k. is_secret_key e (u k)"
  let ?item = "\<lambda>k v. if ?secret k then PStr REDACTED else redact_value e v"
  obtain d where d: "run_to_dict r = PDict d" and fields:
    "field d ''revision'' = Some (PInt (revision r))" "field d ''schema_version'' = Some (schema_version r)"
    "field d ''status'' = Some (PStr (u (run_status_value (run_status r))))"
    "field d ''context_level'' = Some (PStr (u (level_value (context_level r))))"
    by (simp add: run_to_dict_def)
  let ?d = "map (\<lambda>(k, v). (k, if is_secret_key e (key_of e k) then PStr REDACTED else redact_value e v)) d"
  have items: "item_of ?d ''revision'' = ?item ''revision'' (PInt (revision r))"
    "item_of ?d ''schema_version'' = ?item ''schema_version'' (schema_version r)"
    "item_of ?d ''status'' = ?item ''status'' (PStr (u (run_status_value (run_status r))))"
    "item_of ?d ''context_level'' = ?item ''context_level'' (PStr (u (level_value (context_level r))))"
    unfolding item_redacted using fields by (simp_all add: item_of_def)
  note read = run_from_dict_parts [OF assms(1) [unfolded d redact_value.simps]]
  note parts = read [unfolded items]
  have inj: "run_status_value x = run_status_value y \<Longrightarrow> x = y" "level_value l = level_value l' \<Longrightarrow> l = l'" for x y l l'
    by (cases x; cases y; simp add: run_status_value_def) (cases l; cases l'; simp add: level_value_def)
  have "run_status r' = run_status r"
    by (rule enum_redacted [OF parts(3) [unfolded redact_value.simps] status_no_bracket inj(1)])
  moreover have "context_level r' = context_level r"
    by (rule enum_redacted [OF parts(4) [unfolded redact_value.simps] level_no_bracket inj(2)])
  moreover have "schema_version r' = schema_version r"
    using plain_version [OF assms(2), of "?secret ''schema_version''" e] parts(2,5) by simp
  moreover have "revision r' = revision r" using parts(1) by (simp split: if_splits)
  ultimately show ?thesis by blast
qed

text \<open>A save over an active run leaves that very run, or one of the same identifier at a higher revision.\<close>

lemma saved_forward:
  assumes "save_locked e key q k = (ks, Inr st)" and "reads_own_manifest e key q k"
    and "load_active e k = Inr (Some old)"
  shows "st = old \<or> run_id (stored_state st) = run_id (stored_state old)
    \<and> revision (stored_state old) < revision (stored_state st)"
  using assms(1)
proof (cases rule: save_locked_cases)
  case (repeated st')
  then obtain m where "load_authenticated e k = Inr (Some (st, m))" by (auto elim: plan_save_Repeat)
  with assms(3) show ?thesis by (simp add: load_active_Inr)
next
  case (saved expected contents js t k2 st')
  from saved(1) obtain auth where auth: "load_authenticated e k = Inr auth"
    and old: "\<forall>s m. auth = Some (s, m) \<longrightarrow> check_existing e k q s m = Inr None"
    by (elim plan_save_Write) blast
  from auth assms(3) obtain m where m: "auth = Some (old, m)" by (cases auth) (auto simp: load_active_Inr)
  with old have "check_existing e k q old m = Inr None" by blast
  from check_existing_Inr [OF this] saved_is_active(2) [OF assms(1,2)] show ?thesis
    by (simp add: target_of_def)
qed simp_all

section \<open>Properties\<close>

text \<open>
  C30: a save is atomic under crashes: every disk state it passes through, one of which a crash leaves,
  loads either the run that was active before or what the completed save loads, never a mixture
  and never nothing.
\<close>

theorem save_is_atomic:
  assumes "save_locked e key q k = (ks, r)" and "reads_own_manifest e key q k"
  shows "list_all (\<lambda>k'. load_active e k' = load_active e k \<or> load_active e k' = load_active e (last_disk k ks)) ks"
  unfolding list_all_iff
proof
  fix k' assume "k' \<in> set ks"
  from save_steps [OF assms this]
  show "load_active e k' = load_active e k \<or> load_active e k' = load_active e (last_disk k ks)"
    unfolding agrees_def load_active_def by (elim disjE) simp_all
qed


text \<open>
  Revisions never go back: a save over an active run either returns it unchanged, because the same
  request is repeated, or leaves the same run at a higher revision.
\<close>

theorem saves_move_forward:
  assumes "save_locked e key q k = (ks, Inr st)" and "reads_own_manifest e key q k"
    and "load_active e k = Inr (Some old)"
  shows "st = old \<or> run_id (stored_state st) = run_id (stored_state old)
    \<and> revision (stored_state old) < revision (stored_state st)"
  by (rule saved_forward [OF assms])

text \<open>
  C32: a crash can block a run for good: when a save stops after publishing its revision, the old run is
  still the active one, but every later save of that revision with other files, such as the next
  change of the state the restarted program loads, is refused before it writes anything.
\<close>

theorem interrupted_save_blocks_run:
  assumes "plan_save e k q = Inr (Write expected contents)"
    and "publish_revision e (run_id (rq_state q)) (revision (rq_state q)) contents k = (js, Inr ())"
    and "plan_save e (last_disk k js) q' = Inr (Write expected' contents')"
    and "run_id (rq_state q') = run_id (rq_state q)" and "revision (rq_state q') = revision (rq_state q)"
    and "contents' f \<noteq> contents f"
  shows "load_active e (last_disk k js) = load_active e k \<and>
    (\<exists>err. save_locked e key q' (last_disk k js) = ([], Inl err))"
proof
  from assms(1) obtain x where "load_authenticated e k = Inr x" by (rule plan_save_Write)
  from publish_agrees [OF this assms(2), of "last_disk k js"]
  show "load_active e (last_disk k js) = load_active e k" by (simp add: agrees_def load_active_def)
  from publish_Inr(1) [OF assms(2)] obtain dir where
    "map_of (revision_dirs (last_disk k js)) (run_id (rq_state q'), revision (rq_state q')) = Some dir"
    "dir f = Some (contents f)" unfolding assms(4,5) by blast
  with assms(6) published_conflict [OF assms(3), of dir f key]
  show "\<exists>err. save_locked e key q' (last_disk k js) = ([], Inl err)" by simp
qed

text \<open>
  The event log survives its file exactly when no record has a line separator: records come back as
  written if and only if the JSON text of each is a single line for \<open>splitlines\<close>, which counts the
  Unicode separators that \<open>json.dumps\<close> leaves as they are.
\<close>

theorem event_log_roundtrip:
  assumes "jsonl_bytes rs = Inr t"
    and "list_all (\<lambda>r. as_mapping r \<noteq> None \<and> printable_floats r \<and> reads_line e r) rs"
  shows "decode_jsonl e t = Inr (map json_norm rs) \<longleftrightarrow> list_all (\<lambda>r. one_line (json_dumps r)) rs"
  using jsonl_roundtrip_iff [OF assms(1)] assms(2) by (simp add: list_all_iff)

text \<open>
  C33: a log that cannot be read back makes the run unreadable for good: the save replaces the active
  manifest before it reads the files back, so it raises and leaves a disk on which loading raises, and
  every save and every archiving, whatever its arguments, raises and changes nothing.
\<close>

theorem unreadable_log_bricks_run:
  assumes "plan_save e k q = Inr (Write expected contents)" and "reads_own_manifest e key q k"
    and "publish_revision e (run_id (rq_state q)) (revision (rq_state q)) contents k = (js, Inr ())"
    and "next_manifest e (last_disk k js) expected q contents key = Inr t"
    and "decode_jsonl e (contents EventsFile) = Inl err"
  shows "\<exists>disk x y. save_locked e key q k = (js @ [disk], Inl x) \<and> load_active e disk = Inl y
    \<and> (\<forall>q'. \<exists>z. save_run e q' disk = ([], Inl z)) \<and> (\<forall>rid. \<exists>z. archive_active e rid disk = ([], Inl z))"
proof -
  obtain ks r where save: "save_locked e key q k = (ks, r)" by fastforce
  have "\<nexists>st. r = Inr st"
  proof
    assume "\<exists>st. r = Inr st"
    then obtain st where "r = Inr st" ..
    with save saved_decodes [of e key q k ks st, OF _ assms(2,1)] decode_files_Inr assms(5) show False by fastforce
  qed
  have "\<exists>disk x y. save_locked e key q k = (js @ [disk], Inl x) \<and> load_active e disk = Inl y"
    using save
  proof (cases rule: save_locked_cases)
    case (unreadable expected' contents' js' t' k2 err')
    then have "js' = js" using assms(1,3) by simp
    with unreadable save show ?thesis by blast
  qed (use assms(1,3,4) \<open>\<nexists>st. r = Inr st\<close> in auto)
  then obtain disk x y where disk: "save_locked e key q k = (js @ [disk], Inl x)" "load_active e disk = Inl y" by blast
  with unreadable_refuses [OF disk(2)] show ?thesis by blast
qed

section \<open>A concrete repository\<close>

text \<open>
  The witnesses use one run, digests and signatures that are 64 zeros, and a \<open>json.loads\<close> that tells
  the few texts it is asked about apart by their first characters.
\<close>

definition demo_zeros :: pystr where
  "demo_zeros = replicate 64 48"

definition demo_key :: pystr where
  "demo_key = replicate 32 0"

definition demo_event :: pyval where
  "demo_event = PDict [(PStr (u ''a''), PInt 1)]"

definition demo_save :: save_request where
  "demo_save = \<lparr>rq_state = demo_run_state, rq_resume = u ''r'', rq_events = [demo_event],
     rq_decisions = [], rq_artifacts = PDict [], rq_verification = PDict []\<rparr>"

definition demo_loads :: "pyval \<Rightarrow> pyval \<Rightarrow> pyval \<Rightarrow> pystr \<Rightarrow> pyval option" where
  "demo_loads old new st t = (if t = [120] then Some old
     else if take 2 t = [123, 125] then Some (PDict [])
     else if take 3 t = [123, 34, 97] then Some demo_event
     else if take 6 t = [123, 10, 32, 32, 34, 102] then Some new
     else if take 6 t = [123, 10, 32, 32, 34, 97] then Some st
     else None)"

definition demo_env :: "pyval \<Rightarrow> pyval \<Rightarrow> run_state \<Rightarrow> repo_env" where
  "demo_env old new r = \<lparr>key_provider = Some demo_key, hmac_hex = (\<lambda>_ _. demo_zeros), sha256_hex = (\<lambda>_. demo_zeros),
     json_loads = demo_loads old new (json_norm (run_to_dict r)),
     redactor_of = demo_redactor, iso_reader = demo_iso, casefold_of = (\<lambda>s. s), safe_cleanup = True\<rparr>"

definition demo_manifest :: "(pystr \<times> int) option \<Rightarrow> save_request \<Rightarrow> pyval" where
  "demo_manifest expected q = (let e = demo_env PNone PNone (rq_state q) in
     signed_manifest e demo_key (unsigned_manifest e (\<lambda>_. []) demo_zeros expected q))"

lemma demo_signed:
  "signed_manifest (demo_env a b r) demo_key (unsigned_manifest (demo_env a b r) c demo_zeros x q) = demo_manifest x q"
  by (simp add: demo_manifest_def signed_manifest_def unsigned_manifest_def file_entries_def demo_env_def Let_def)

lemma demo_manifest_norm: "json_norm (demo_manifest x q) = demo_manifest x q"
  unfolding demo_manifest_def Let_def by (rule json_norm_manifest)

lemma demo_env_simps [simp]:
  "require_key (demo_env a b r) = Inr demo_key" "sha256_hex (demo_env a b r) t = demo_zeros"
  "hmac_hex (demo_env a b r) k t = demo_zeros" "json_loads (demo_env a b r) = demo_loads a b (json_norm (run_to_dict r))"
  "iso_reader (demo_env a b r) = demo_iso" "casefold_of (demo_env a b r) = (\<lambda>s. s)"
  by (simp_all add: demo_env_def require_key_def demo_key_def need_def ensure_def)

lemma demo_digests: "digests_ok (demo_env a b r) demo_key"
  by (auto simp: digests_ok_def is_digest_def demo_zeros_def hex_lower_def)

lemma pretty_prefix:
  assumes "sorted_members d = (x # k, v) # ms" and "json_char x = [x]"
  shows "take 6 (json_pretty (PDict d) 0 @ [10]) = [123, 10, 32, 32, 34, x]"
proof -
  have "new_line (Suc 0) = [10, 32, 32]" by (simp add: new_line_def numeral_2_eq_2)
  moreover obtain s where "json_string (x # k) = 34 # x # s" using assms(2) by (simp add: json_string_def)
  ultimately show ?thesis
    by (cases ms) (simp_all add: assms(1) pretty_members block_text_def del: json_pretty.simps)
qed

lemma demo_texts:
  "take 6 (json_pretty (demo_manifest x q) 0 @ [10]) = [123, 10, 32, 32, 34, 102]"
  "take 6 (json_pretty (run_to_dict r) 0 @ [10]) = [123, 10, 32, 32, 34, 97]"
  "json_pretty (PDict []) 0 @ [10] = [123, 125, 10]"
proof -
  show "take 6 (json_pretty (demo_manifest x q) 0 @ [10]) = [123, 10, 32, 32, 34, 102]"
    unfolding demo_manifest_def Let_def signed_manifest_def unsigned_manifest_def
    by (rule pretty_prefix) (simp_all add: sorted_members_def key_text_def json_char_def u_def)
  show "take 6 (json_pretty (run_to_dict r) 0 @ [10]) = [123, 10, 32, 32, 34, 97]"
    unfolding run_to_dict_def by (rule pretty_prefix) (simp_all add: sorted_members_def key_text_def json_char_def u_def)
qed (simp add: block_text_def)

lemma demo_event_text: "json_dumps demo_event = [123, 34, 97, 34, 58, 49, 125]"
  by code_simp

lemma demo_loads_prefix:
  assumes "take 6 t = [123, 10, 32, 32, 34, x]"
  shows "demo_loads a b c t = (if x = 102 then Some b else if x = 97 then Some c else None)"
proof -
  have "take 2 t = take 2 (take 6 t)" "take 3 t = take 3 (take 6 t)" by simp_all
  then have "take 2 t = [123, 10]" "take 3 t = [123, 10, 32]" unfolding assms by simp_all
  moreover have "t \<noteq> [120]" using assms by auto
  ultimately show ?thesis using assms by (simp add: demo_loads_def)
qed

lemma demo_reads:
  "demo_loads a b c (json_pretty (demo_manifest x q) 0 @ [10]) = Some b"
  "demo_loads a b c (json_pretty (run_to_dict r) 0 @ [10]) = Some c"
  "demo_loads a b c (json_pretty (PDict []) 0 @ [10]) = Some (PDict [])"
  "demo_loads a b c (json_dumps demo_event) = Some demo_event" "demo_loads a b c [120] = Some a"
  unfolding demo_texts(3) demo_event_text demo_loads_prefix [OF demo_texts(1)] demo_loads_prefix [OF demo_texts(2)]
  by (simp_all add: demo_loads_def)

definition demo_run_ok :: "run_state \<Rightarrow> bool" where
  "demo_run_ok r \<longleftrightarrow> wf_run demo_iso (\<lambda>s. s) r \<and> texts_ok (run_to_dict r) \<and> dumpable (run_to_dict r)
     \<and> 4 * weight (run_to_dict r) 0 + 4 \<le> 10000"

lemma demo_event_ok: "faithful_record (demo_env a b r) demo_event"
proof -
  have "json_norm demo_event = demo_event" by code_simp
  moreover have "one_line (json_dumps demo_event)" "printable_floats demo_event" by code_simp+
  ultimately show ?thesis by (simp add: faithful_record_def reads_line_def demo_reads) (simp add: demo_event_def)
qed

lemma demo_faithful:
  assumes "demo_run_ok r" and "set (rq_events q) \<subseteq> {demo_event}" and "rq_decisions q = []"
    and "rq_artifacts q = PDict []" and "rq_verification q = PDict []" and "rq_state q = r"
  shows "faithful_request (demo_env a b r) q"
proof -
  have "reads_back (demo_env a b r) (PDict [])" "reads_back (demo_env a b r) (run_to_dict r)"
    unfolding reads_back_def demo_env_simps demo_reads by simp_all
  with assms demo_event_ok [of a b r] show ?thesis by (auto simp: faithful_request_def demo_run_ok_def)
qed

text \<open>The files of a request, and their sizes.\<close>

definition demo_files :: "run_state \<Rightarrow> pystr \<Rightarrow> pyval list \<Rightarrow> file_name \<Rightarrow> pystr" where
  "demo_files r doc es f = (case f of StateFile \<Rightarrow> json_pretty (run_to_dict r) 0 @ [10] | ResumeFile \<Rightarrow> doc
     | DecisionsFile \<Rightarrow> [] | EventsFile \<Rightarrow> concat (map (\<lambda>r. json_dumps r @ [10]) es)
     | ArtifactsFile \<Rightarrow> [123, 125, 10] | VerificationFile \<Rightarrow> [123, 125, 10])"

lemma demo_contents:
  assumes "demo_run_ok (rq_state q)" and "encodable (rq_resume q)" and "list_all (\<lambda>r. dumpable r \<and> texts_ok r) (rq_events q)"
    and "rq_decisions q = []" and "rq_artifacts q = PDict []" and "rq_verification q = PDict []"
  shows "file_contents q = Inr (demo_files (rq_state q) (rq_resume q) (rq_events q))"
proof -
  have empty: "document_json (PDict []) = Inr [123, 125, 10]"
    unfolding demo_texts(3) [symmetric] document_json_Inr by (simp add: block_text_def is_surrogate_def)
  have "document_json (run_to_dict (rq_state q)) = Inr (json_pretty (run_to_dict (rq_state q)) 0 @ [10])"
    "jsonl_bytes (rq_events q) = Inr (concat (map (\<lambda>r. json_dumps r @ [10]) (rq_events q)))"
    using assms(1,3) encodable_dumps unfolding document_json_Inr jsonl_bytes_Inr
    by (auto simp: demo_run_ok_def list_all_iff encodable_pretty)
  moreover have "jsonl_bytes [] = Inr []" by (simp add: jsonl_bytes_Inr)
  ultimately show ?thesis
    using assms(2,4-6) by (simp add: file_contents_def encode_text_def empty demo_files_def fun_eq_iff)
qed

lemma demo_file_sizes:
  assumes "demo_run_ok r" and "usize doc \<le> 10000" and "usize (concat (map (\<lambda>r. json_dumps r @ [10]) es)) \<le> 10000"
  shows "usize (demo_files r doc es f) \<le> 10000"
  using assms document_size [of "run_to_dict r" 10000]
  by (cases f) (simp_all add: demo_files_def demo_run_ok_def usize_def utf8_width_def is_surrogate_def)

lemma without_member:
  "texts_ok (PDict (xs @ y # ys)) \<Longrightarrow> texts_ok (PDict (xs @ ys))"
  "dumpable (PDict (xs @ y # ys)) \<Longrightarrow> dumpable (PDict (xs @ ys))"
  by simp_all

lemma demo_sizes:
  assumes "\<And>f. usize (c f) \<le> 10000" and "dumpable (request_value x q)" and "texts_ok (request_value x q)"
    and "texts_ok (demo_manifest x q)" and "dumpable (demo_manifest x q)" and "4 * weight (demo_manifest x q) 0 + 4 \<le> 100000"
  shows "sizes_ok (demo_env a b r) demo_key q x c"
proof -
  let ?e = "demo_env a b r"
  let ?m = "unsigned_manifest ?e c demo_zeros x q"
  have digest: "request_digest ?e x q = Inr demo_zeros"
    using assms(2,3) encodable_dumps by (simp add: request_digest_def canonical_json_def encode_text_def)
  have parts: "demo_manifest x q = PDict (take 1 ?m @ (PStr (u ''hmac_sha256''), PStr demo_zeros) # drop 1 ?m)"
    by (simp only: demo_signed [of a b r c x q, symmetric] signed_manifest_def demo_env_simps)
  have "texts_ok (PDict (take 1 ?m @ drop 1 ?m))" "dumpable (PDict (take 1 ?m @ drop 1 ?m))"
    using assms(4,5) without_member unfolding parts by blast+
  then have "texts_ok (PDict ?m)" "dumpable (PDict ?m)" by (simp_all only: append_take_drop_id)
  then have dump: "canonical_json (PDict ?m) = Inr (json_dumps (PDict ?m))"
    using encodable_dumps unfolding canonical_json_Inr by blast
  have doc: "document_json (signed_manifest ?e demo_key ?m) = Inr (json_pretty (demo_manifest x q) 0 @ [10])"
    unfolding demo_signed document_json_Inr using assms(4,5) encodable_pretty by blast
  have "MAX_FILE_BYTES = 8388608" "MAX_TOTAL_BYTES = 33554432" by (simp_all add: MAX_FILE_BYTES_def MAX_TOTAL_BYTES_def)
  moreover have "usize (json_pretty (demo_manifest x q) 0 @ [10]) \<le> 100000" by (rule document_size) (rule assms(6))
  moreover have "usize (c f) \<le> 8388608" for f using assms(1) [of f] by simp
  moreover have "sum_list (map (\<lambda>f. usize (c f)) file_names) \<le> sum_list (map (\<lambda>f. 10000) file_names)"
    using assms(1) by (intro sum_list_mono) simp
  ultimately show ?thesis
    unfolding sizes_ok_def digest sum.case Let_def dump doc by (simp add: list_all_iff file_names_def)
qed

lemma demo_own:
  "reads_own_manifest (demo_env a (demo_manifest x q) r) demo_key q k"
  if "\<And>y. request_digest (demo_env a (demo_manifest x q) r) y q = Inr demo_zeros"
    and "\<And>y c. plan_save (demo_env a (demo_manifest x q) r) k q = Inr (Write y c) \<Longrightarrow> y = x"
  using that by (auto simp: reads_own_manifest_def Let_def demo_signed demo_reads demo_manifest_norm split: sum.split save_plan.split)

lemma demo_checks:
  "demo_run_ok demo_run_state" "texts_ok (request_value None demo_save)" "dumpable (request_value None demo_save)"
  "texts_ok (demo_manifest None demo_save)" "dumpable (demo_manifest None demo_save)"
  "4 * weight (demo_manifest None demo_save) 0 + 4 \<le> 100000"
  "usize (concat (map (\<lambda>r. json_dumps r @ [10]) [demo_event])) \<le> 10000"
  by code_simp+

lemma demo_plan:
  assumes "file_contents q = Inr c"
  shows "plan_save (demo_env a b r) empty_repo q = Inr (Write None c)"
  using assms
  by (simp add: plan_save_def load_authenticated_def empty_repo_def check_new_run_def run_children_def revisions_of_def
      stagings_of_def file_names_def carry_over_def ensure_def)

lemma demo_digest:
  assumes "dumpable (request_value x q)" and "texts_ok (request_value x q)"
  shows "request_digest (demo_env a b r) x q = Inr demo_zeros"
  using assms encodable_dumps by (simp add: request_digest_def canonical_json_def encode_text_def)

definition demo_first :: repo_env where
  "demo_first = demo_env PNone (demo_manifest None demo_save) demo_run_state"

lemma demo_save_contents: "file_contents demo_save = Inr (demo_files demo_run_state (u ''r'') [demo_event])"
  using demo_contents [of demo_save] demo_checks(1)
  by (simp add: demo_save_def encodable_ascii) (simp add: demo_event_def encodable_ascii key_text_def)

lemma demo_first_plan: "plan_save demo_first empty_repo demo_save = Inr (Write None (demo_files demo_run_state (u ''r'') [demo_event]))"
  unfolding demo_first_def by (rule demo_plan) (rule demo_save_contents)

lemma demo_first_own: "reads_own_manifest demo_first demo_key demo_save empty_repo"
proof -
  have "request_digest demo_first None demo_save = Inr demo_zeros"
    unfolding demo_first_def by (rule demo_digest) (rule demo_checks(3), rule demo_checks(2))
  then show ?thesis
    unfolding reads_own_manifest_def demo_first_plan
    by (simp add: Let_def demo_first_def demo_signed demo_reads demo_manifest_norm)
qed

lemma demo_first_sizes: "usize (demo_files demo_run_state (u ''r'') [demo_event] f) \<le> 10000"
  by (rule demo_file_sizes) (use demo_checks(1,7) in \<open>simp_all add: usize_def u_def utf8_width_def is_surrogate_def\<close>)


lemma save_is_atomic_witness:
  "list_all (\<lambda>k'. load_active demo_first k' = Inr None \<or> load_active demo_first k' =
       load_active demo_first (last_disk empty_repo (fst (save_locked demo_first demo_key demo_save empty_repo))))
     (fst (save_locked demo_first demo_key demo_save empty_repo))"
proof -
  have "load_active demo_first empty_repo = Inr None"
    by (simp add: load_active_def load_authenticated_def empty_repo_def)
  with save_is_atomic [OF prod.collapse [symmetric] demo_first_own] show ?thesis by simp
qed

text \<open>The same run, found on the disk.\<close>

definition demo_later :: repo_env where
  "demo_later = demo_env (demo_manifest None demo_save) PNone demo_run_state"

definition demo_disk :: repo where
  "demo_disk = empty_repo\<lparr>active_file := Some [120],
     revision_dirs := [((run_id demo_run_state, 1), \<lambda>f. Some (demo_files demo_run_state (u ''r'') [demo_event] f))]\<rparr>"

definition demo_stored :: stored_run where
  "demo_stored = \<lparr>stored_state = demo_run_state, resume_markdown = u ''r'', stored_decisions = [],
     stored_events = [demo_event], stored_artifacts = PDict [], stored_verification = PDict []\<rparr>"

lemma demo_disk_loads: "load_authenticated demo_later demo_disk = Inr (Some (demo_stored, demo_manifest None demo_save))"
proof -
  let ?c = "demo_files demo_run_state (u ''r'') [demo_event]"
  have state: "rq_state demo_save = demo_run_state" by (simp add: demo_save_def)
  have "faithful_request demo_later demo_save"
    unfolding demo_later_def using demo_checks(1) by (intro demo_faithful) (simp_all add: demo_save_def)
  from faithful_contents [OF demo_save_contents this] have
    dec: "decode_files demo_later (run_id (rq_state demo_save)) (revision (rq_state demo_save)) ?c = Inr demo_stored"
  proof -
    have "json_norm demo_event = demo_event" by code_simp
    then show "decode_files demo_later (run_id (rq_state demo_save)) (revision (rq_state demo_save)) ?c = Inr demo_stored"
      using faithful_contents [OF demo_save_contents \<open>faithful_request demo_later demo_save\<close>]
      by (simp add: demo_stored_def demo_save_def)
  qed
  let ?m = "unsigned_manifest demo_later ?c demo_zeros None demo_save"
  have signed: "signed_manifest demo_later demo_key ?m = demo_manifest None demo_save"
    unfolding demo_later_def by (rule demo_signed)
  have "sizes_ok demo_later demo_key demo_save None ?c"
    unfolding demo_later_def
    by (rule demo_sizes [OF demo_first_sizes demo_checks(3) demo_checks(2) demo_checks(4) demo_checks(5) demo_checks(6)])
  moreover have "request_digest demo_later None demo_save = Inr demo_zeros"
    unfolding demo_later_def by (rule demo_digest) (rule demo_checks(3), rule demo_checks(2))
  ultimately have dump: "canonical_json (PDict ?m) = Inr (json_dumps (PDict ?m))"
    and total: "sum_list (map (\<lambda>f. usize (?c f)) file_names) \<le> MAX_TOTAL_BYTES"
    by (simp_all add: sizes_ok_def Let_def)
  have small: "usize (?c f) \<le> MAX_FILE_BYTES" for f
    using demo_first_sizes [of f] by (simp add: MAX_FILE_BYTES_def)
  have "load_active_manifest demo_later demo_disk [120] = Inr (demo_stored, signed_manifest demo_later demo_key ?m)"
  proof (rule own_manifest_loads)
    show "json_loads demo_later [120] = Some (signed_manifest demo_later demo_key ?m)"
      unfolding signed by (simp add: demo_later_def demo_reads)
    show "map_of (revision_dirs demo_disk) (run_id (rq_state demo_save), revision (rq_state demo_save)) = Some (\<lambda>f. Some (?c f))"
      by (simp add: demo_disk_def state) (simp add: demo_run_state_def)
  qed (use dump total small dec in \<open>simp_all add: demo_later_def demo_digests is_digest_def demo_zeros_def hex_lower_def
        usize_def utf8_width_def is_surrogate_def MAX_FILE_BYTES_def\<close>)
  then show ?thesis unfolding signed by (simp add: load_authenticated_def demo_disk_def)
qed

lemma saves_move_forward_witness:
  "snd (save_locked demo_later demo_key demo_save demo_disk) = Inr demo_stored
    \<and> load_active demo_later demo_disk = Inr (Some demo_stored)"
proof -
  have "request_digest demo_later None demo_save = Inr demo_zeros"
    unfolding demo_later_def by (rule demo_digest) (rule demo_checks(3), rule demo_checks(2))
  then have "is_idempotent_retry demo_later (demo_manifest None demo_save) demo_save = Inr True"
    by (simp add: is_idempotent_retry_def demo_manifest_def signed_manifest_def unsigned_manifest_def Let_def
      validate_metadata_def mapping_with_def request_metadata_def expected_value_def get_default_def field_def item_of_def
      need_def ensure_def is_digest_def demo_zeros_def hex_lower_def u_def)
  moreover have "rq_state demo_save = demo_run_state" by (simp add: demo_save_def)
  ultimately have "check_existing demo_later demo_disk demo_save demo_stored (demo_manifest None demo_save) = Inr (Some demo_stored)"
    by (simp add: check_existing_def demo_disk_def empty_repo_def demo_stored_def ensure_def)
  then have plan: "plan_save demo_later demo_disk demo_save = Inr (Repeat demo_stored)"
    by (simp add: plan_save_def demo_disk_loads)
  then have own: "reads_own_manifest demo_later demo_key demo_save demo_disk" by (simp add: reads_own_manifest_def)
  have load: "load_active demo_later demo_disk = Inr (Some demo_stored)"
    unfolding load_active_def demo_disk_loads by simp
  from plan obtain ks where "save_locked demo_later demo_key demo_save demo_disk = (ks, Inr demo_stored)"
    by (simp add: save_locked_def Let_def)
  with load saves_move_forward [OF this own load] show ?thesis by simp
qed

definition demo_next :: "pystr \<Rightarrow> save_request" where
  "demo_next doc = demo_save\<lparr>rq_state := demo_run_state\<lparr>revision := 2\<rparr>, rq_resume := doc\<rparr>"

lemma demo_next_checks: "demo_run_ok (demo_run_state\<lparr>revision := 2\<rparr>)"
  by code_simp

lemma demo_next_plan:
  assumes "load_authenticated demo_later k = load_authenticated demo_later demo_disk"
    and "archive_files k = (\<lambda>_. None)" and "encodable doc"
  shows "plan_save demo_later k (demo_next doc) =
    Inr (Write (Some (run_id demo_run_state, 1)) (demo_files (demo_run_state\<lparr>revision := 2\<rparr>) doc [demo_event, demo_event]))"
proof -
  have "file_contents (carry_over (Some demo_stored) (demo_next doc)) =
    Inr (demo_files (demo_run_state\<lparr>revision := 2\<rparr>) doc [demo_event, demo_event])"
    using demo_contents [of "carry_over (Some demo_stored) (demo_next doc)"] demo_next_checks assms(3)
    by (simp add: carry_over_def demo_next_def demo_save_def demo_stored_def) (simp add: demo_event_def encodable_ascii key_text_def)
  moreover have "check_existing demo_later k (demo_next doc) demo_stored (demo_manifest None demo_save) = Inr None"
    by (simp add: check_existing_def assms(2) demo_next_def demo_stored_def ensure_def) (simp add: demo_run_state_def)
  ultimately show ?thesis
    unfolding plan_save_def assms(1) demo_disk_loads
    by (simp add: demo_stored_def) (simp add: demo_run_state_def)
qed

text \<open>A restarted program changes the document it wrote before the crash.\<close>

lemma interrupted_save_blocks_run_witness:
  "\<exists>js err. publish_revision demo_later (run_id demo_run_state) 2
       (demo_files (demo_run_state\<lparr>revision := 2\<rparr>) (u ''r'') [demo_event, demo_event]) demo_disk = (js, Inr ())
    \<and> load_active demo_later (last_disk demo_disk js) = Inr (Some demo_stored)
    \<and> save_locked demo_later demo_key (demo_next (u ''s'')) (last_disk demo_disk js) = ([], Inl err)"
proof -
  let ?c = "demo_files (demo_run_state\<lparr>revision := 2\<rparr>) (u ''r'') [demo_event, demo_event]"
  let ?js = "published (demo_next (u ''r'')) ?c demo_disk"
  let ?k = "last_disk demo_disk ?js"
  have ids: "run_id (rq_state (demo_next d)) = run_id demo_run_state" "revision (rq_state (demo_next d)) = 2" for d
    by (simp_all add: demo_next_def)
  have "usize (?c f) \<le> 10000" for f
    by (rule demo_file_sizes [OF demo_next_checks]) (simp_all add: demo_event_text usize_def u_def utf8_width_def is_surrogate_def)
  then have "usize (?c f) \<le> MAX_FILE_BYTES" for f by (rule order_trans) (simp add: MAX_FILE_BYTES_def)
  then have "list_all (\<lambda>f. usize (?c f) \<le> MAX_FILE_BYTES) file_names" by (simp add: list_all_iff)
  moreover have "map_of (revision_dirs demo_disk) (run_id demo_run_state, 2) = None" by (simp add: demo_disk_def)
  ultimately have pub: "publish_revision demo_later (run_id demo_run_state) 2 ?c demo_disk = (?js, Inr ())"
    using small_plan_published [of ?c demo_disk "demo_next (u ''r'')"] by (simp add: ids)
  have docs: "encodable (u ''r'')" "encodable (u ''s'')" "u ''s'' \<noteq> u ''r''"
    by (simp_all add: encodable_ascii u_def is_surrogate_def)
  have free: "archive_files demo_disk = (\<lambda>_. None)" by (simp add: demo_disk_def empty_repo_def)
  have load: "load_active demo_later demo_disk = Inr (Some demo_stored)"
    unfolding load_active_def demo_disk_loads by simp
  have agree: "load_authenticated demo_later ?k = load_authenticated demo_later demo_disk"
    using publish_agrees [OF demo_disk_loads pub, of ?k] by (simp add: agrees_def)
  have plan: "plan_save demo_later demo_disk (demo_next (u ''r'')) = Inr (Write (Some (run_id demo_run_state, 1)) ?c)"
    by (rule demo_next_plan [OF refl free docs(1)])
  have plan': "plan_save demo_later ?k (demo_next (u ''s'')) = Inr (Write (Some (run_id demo_run_state, 1))
      (demo_files (demo_run_state\<lparr>revision := 2\<rparr>) (u ''s'') [demo_event, demo_event]))"
    by (rule demo_next_plan [OF agree _ docs(2)]) (simp add: free published_def last_disk_def Let_def)
  from interrupted_save_blocks_run [OF plan, unfolded ids, OF pub plan', of ResumeFile demo_key] docs(3) load pub
  show ?thesis unfolding ids by (simp add: demo_files_def)
qed

lemma event_log_roundtrip_witness:
  "decode_jsonl demo_first (json_dumps demo_event @ [10]) = Inr [demo_event]"
proof -
  have "json_norm demo_event = demo_event" "one_line (json_dumps demo_event)" by code_simp+
  moreover have "jsonl_bytes [demo_event] = Inr (json_dumps demo_event @ [10])"
    unfolding jsonl_bytes_Inr using encodable_dumps by (simp add: demo_event_text is_surrogate_def) (simp add: demo_event_def)
  moreover have "faithful_record demo_first demo_event" unfolding demo_first_def by (rule demo_event_ok)
  ultimately show ?thesis
    using event_log_roundtrip [of "[demo_event]" _ demo_first] by (simp add: faithful_record_def)
qed

text \<open>An event whose text holds a Unicode line separator.\<close>

definition demo_bad :: save_request where
  "demo_bad = demo_save\<lparr>rq_events := [PDict [(PStr (u ''a''), PStr [8232])]]\<rparr>"

definition demo_bad_env :: repo_env where
  "demo_bad_env = demo_env PNone (demo_manifest None demo_bad) demo_run_state"

lemma demo_bad_checks:
  "texts_ok (request_value None demo_bad)" "dumpable (request_value None demo_bad)"
  "texts_ok (demo_manifest None demo_bad)" "dumpable (demo_manifest None demo_bad)"
  "4 * weight (demo_manifest None demo_bad) 0 + 4 \<le> 100000"
  "json_dumps (PDict [(PStr (u ''a''), PStr [8232])]) = [123, 34, 97, 34, 58, 34, 8232, 34, 125]"
  by code_simp+

lemma unreadable_log_bricks_run_witness:
  "\<exists>ks disk x y z z'. save_locked demo_bad_env demo_key demo_bad empty_repo = (ks @ [disk], Inl x)
    \<and> load_active demo_bad_env disk = Inl y \<and> save_run demo_bad_env demo_save disk = ([], Inl z)
    \<and> archive_active demo_bad_env (run_id demo_run_state) disk = ([], Inl z')"
proof -
  let ?c = "demo_files demo_run_state (u ''r'') [PDict [(PStr (u ''a''), PStr [8232])]]"
  have ids: "rq_state demo_bad = demo_run_state" by (simp add: demo_bad_def demo_save_def)
  have "file_contents demo_bad = Inr ?c"
    using demo_contents [of demo_bad] demo_checks(1)
    by (simp add: demo_bad_def demo_save_def encodable_ascii) (simp add: encodable_ascii key_text_def is_surrogate_def)
  then have plan: "plan_save demo_bad_env empty_repo demo_bad = Inr (Write None ?c)"
    unfolding demo_bad_env_def by (rule demo_plan)
  have digest: "request_digest demo_bad_env None demo_bad = Inr demo_zeros"
    unfolding demo_bad_env_def by (rule demo_digest) (rule demo_bad_checks(2), rule demo_bad_checks(1))
  have own: "reads_own_manifest demo_bad_env demo_key demo_bad empty_repo"
    using digest unfolding reads_own_manifest_def plan
    by (simp add: Let_def demo_bad_env_def demo_signed demo_reads demo_manifest_norm)
  have "usize (?c f) \<le> 10000" for f
    by (rule demo_file_sizes [OF demo_checks(1)]) (simp_all only: demo_bad_checks(6) list.map concat.simps append_Cons append_Nil append_Nil2, simp_all add: usize_def u_def utf8_width_def is_surrogate_def)
  from demo_sizes [OF this demo_bad_checks(2,1,3,4,5)]
  have sizes: "sizes_ok demo_bad_env demo_key demo_bad None ?c" by (simp add: demo_bad_env_def)
  have fresh: "map_of (revision_dirs empty_repo) (run_id (rq_state demo_bad), revision (rq_state demo_bad)) = None"
    by (simp add: empty_repo_def)
  have pub: "publish_revision demo_bad_env (run_id (rq_state demo_bad)) (revision (rq_state demo_bad)) ?c empty_repo =
      (published demo_bad ?c empty_repo, Inr ())"
    by (rule small_plan_published [OF _ fresh]) (use sizes in \<open>simp add: sizes_ok_def\<close>)
  have "split_lines (?c EventsFile) = [[123, 34, 97, 34, 58, 34], [34, 125]]"
    unfolding demo_files_def file_name.case list.map concat.simps demo_bad_checks(6) by code_simp
  moreover have "decode_jsonl demo_bad_env (?c EventsFile) \<noteq> Inr rs" for rs
    unfolding decode_jsonl_def calculation by (auto simp: demo_files_def result_simps decode_line_def demo_bad_env_def demo_loads_def)
  then obtain err where bad: "decode_jsonl demo_bad_env (?c EventsFile) = Inl err"
    by (cases "decode_jsonl demo_bad_env (?c EventsFile)") auto
  from unreadable_log_bricks_run [OF plan own pub planned_manifest [OF plan fresh sizes digest] bad] show ?thesis by blast
qed


end
