(* ===== verification/Context_Budget.thy ===== *)
theory Context_Budget
  imports Run_State
begin

text \<open>
  The context budget, \<open>src/core/contracts/context_budget.py\<close> and
  \<open>src/core/brain/context_budget.py\<close>: snapshots of the tokens in use, the provider that falls back
  from a runtime reading to an estimate, and the monitor that reports a change of watermark.

  Thresholds and the usage ratio are Python floats. A float is its exact rational value; the
  true division of two integers rounds to the nearest double, ties to even, and \<open>double_of\<close> is
  that rounding on the ratios the monitor computes, which lie between 0 and 1.
\<close>

section \<open>Rounding a ratio to a double\<close>

definition round_half_even :: "rat \<Rightarrow> int" where
  "round_half_even x = (let n = \<lfloor>x\<rfloor>; d = x - of_int n in
     if d < 1 / 2 \<or> (d = 1 / 2 \<and> even n) then n else n + 1)"

text \<open>How often a number is doubled until it has 53 bits before the point, 1074 times at most.\<close>

fun doublings :: "nat \<Rightarrow> rat \<Rightarrow> nat" where
  "doublings 0 x = 0"
| "doublings (Suc n) x = (if 2 ^ 52 \<le> x then 0 else Suc (doublings n (2 * x)))"

definition double_of :: "rat \<Rightarrow> rat" where
  "double_of x = (let k = doublings 1074 x in of_int (round_half_even (x * 2 ^ k)) / 2 ^ k)"

lemma round_half_even_near: "\<bar>of_int (round_half_even x) - x\<bar> \<le> 1 / 2"
proof -
  define d where "d = x - of_int \<lfloor>x\<rfloor>"
  have d: "0 \<le> d" "d < 1" unfolding d_def by linarith+
  have "of_int (round_half_even x) - x = (if d < 1 / 2 \<or> (d = 1 / 2 \<and> even \<lfloor>x\<rfloor>) then - d else 1 - d)"
    unfolding round_half_even_def Let_def d_def [symmetric] by (simp add: d_def)
  with d show ?thesis by auto
qed

lemma round_half_even_of_int [simp]: "round_half_even (of_int n) = n"
  by (simp add: round_half_even_def)

lemma round_half_even_mono:
  assumes "x \<le> y" shows "round_half_even x \<le> round_half_even y"
proof (cases "\<lfloor>x\<rfloor> = \<lfloor>y\<rfloor>")
  case True
  with assms show ?thesis by (auto simp: round_half_even_def Let_def)
next
  case False
  have "\<lfloor>x\<rfloor> \<le> \<lfloor>y\<rfloor>" using assms by (rule floor_mono)
  with False have "\<lfloor>x\<rfloor> + 1 \<le> \<lfloor>y\<rfloor>" by simp
  moreover have "round_half_even x \<le> \<lfloor>x\<rfloor> + 1" "\<lfloor>y\<rfloor> \<le> round_half_even y"
    by (simp_all add: round_half_even_def Let_def)
  ultimately show ?thesis by simp
qed

lemma doublings_antimono: "x \<le> y \<Longrightarrow> doublings n y \<le> doublings n x"
  by (induction n x arbitrary: y rule: doublings.induct) auto

lemma doublings_le: "doublings n x \<le> n"
  by (induction n x rule: doublings.induct) auto

lemma doublings_reach: "doublings n x < n \<Longrightarrow> 2 ^ 52 \<le> x * 2 ^ doublings n x"
proof (induction n x rule: doublings.induct)
  case (2 n x)
  then show ?case by (auto simp: algebra_simps split: if_splits)
qed simp

lemma doublings_below: "k < doublings n x \<Longrightarrow> x * 2 ^ k < 2 ^ 52"
proof (induction n x arbitrary: k rule: doublings.induct)
  case (2 n x)
  show ?case
  proof (cases k)
    case 0
    with "2.prems" show ?thesis by (simp split: if_splits)
  next
    case (Suc j)
    with "2.prems" have "\<not> 2 ^ 52 \<le> x" "j < doublings n (2 * x)" by (auto split: if_splits)
    from "2.IH" [OF this] Suc show ?thesis by (simp add: algebra_simps)
  qed
qed simp

lemma double_of_mono:
  assumes "x \<le> y" shows "double_of x \<le> double_of y"
proof -
  define a b where "a = doublings 1074 x" and "b = doublings 1074 y"
  have ba: "b \<le> a" unfolding a_def b_def using assms by (rule doublings_antimono)
  show ?thesis
  proof (cases "b = a")
    case True
    have "round_half_even (x * 2 ^ a) \<le> round_half_even (y * 2 ^ a)"
      using assms by (intro round_half_even_mono) simp
    with True show ?thesis
      unfolding double_of_def Let_def a_def [symmetric] b_def [symmetric] by (simp add: divide_right_mono)
  next
    case False
    with ba have less: "b < a" by simp
    then have "b < 1074" using doublings_le [of 1074 x] by (simp add: a_def)
    then have "(2::rat) ^ 52 \<le> y * 2 ^ b" unfolding b_def by (rule doublings_reach)
    then have "round_half_even (of_int (2 ^ 52)) \<le> round_half_even (y * 2 ^ b)"
      by (intro round_half_even_mono) simp
    then have up: "(2::rat) ^ 52 \<le> of_int (round_half_even (y * 2 ^ b))"
      unfolding round_half_even_of_int by (metis of_int_le_iff of_int_numeral of_int_power)
    have "x * 2 ^ b < 2 ^ 52" using less unfolding a_def by (rule doublings_below)
    then have "x * 2 ^ b * 2 ^ (a - b) \<le> 2 ^ 52 * 2 ^ (a - b)" by simp
    moreover have "x * 2 ^ a = x * 2 ^ b * 2 ^ (a - b)"
      using less by (simp add: power_add [symmetric] mult.assoc)
    ultimately have "x * 2 ^ a \<le> of_int (2 ^ 52 * 2 ^ (a - b))"
      by (simp only: of_int_mult of_int_power of_int_numeral)
    then have "round_half_even (x * 2 ^ a) \<le> round_half_even (of_int (2 ^ 52 * 2 ^ (a - b)))"
      by (rule round_half_even_mono)
    then have "of_int (round_half_even (x * 2 ^ a)) \<le> (of_int (2 ^ 52 * 2 ^ (a - b)) :: rat)"
      unfolding round_half_even_of_int by (simp only: of_int_le_iff)
    then have "of_int (round_half_even (x * 2 ^ a)) / 2 ^ a \<le> (2 ^ 52 * 2 ^ (a - b) :: rat) / 2 ^ a"
      by (intro divide_right_mono) simp_all
    also have "\<dots> = 2 ^ 52 / 2 ^ b"
      using less by (simp add: power_diff field_simps)
    also have "\<dots> \<le> of_int (round_half_even (y * 2 ^ b)) / 2 ^ b"
      using up by (intro divide_right_mono) simp_all
    finally show ?thesis unfolding double_of_def Let_def a_def [symmetric] b_def [symmetric] .
  qed
qed

lemma doublings_small: "x < 1 \<Longrightarrow> 53 \<le> doublings 1074 x"
proof (rule ccontr)
  assume x: "x < 1" and small: "\<not> 53 \<le> doublings 1074 x"
  then have "(2::rat) ^ 52 \<le> x * 2 ^ doublings 1074 x" by (intro doublings_reach) simp
  also have "\<dots> < 2 ^ doublings 1074 x" using x by simp
  finally have "(52::nat) < doublings 1074 x" by (rule power_less_imp_less_exp [rotated]) simp
  with small show False by simp
qed

lemma double_of_near: "x < 1 \<Longrightarrow> \<bar>double_of x - x\<bar> \<le> 1 / 2 ^ 54"
proof -
  assume "x < 1"
  define k where "k = doublings 1074 x"
  have k: "53 \<le> k" unfolding k_def using \<open>x < 1\<close> by (rule doublings_small)
  have "double_of x - x = (of_int (round_half_even (x * 2 ^ k)) - x * 2 ^ k) / 2 ^ k"
    by (simp add: double_of_def Let_def k_def [symmetric] diff_divide_distrib)
  then have "\<bar>double_of x - x\<bar> = \<bar>of_int (round_half_even (x * 2 ^ k)) - x * 2 ^ k\<bar> / 2 ^ k"
    by simp
  also have "\<dots> \<le> (1 / 2) / 2 ^ k" by (intro divide_right_mono round_half_even_near) simp
  also have "\<dots> \<le> (1 / 2) / 2 ^ 53"
    by (rule divide_left_mono [OF power_increasing [OF k]]) simp_all
  finally show ?thesis by simp
qed

section \<open>Snapshots\<close>

datatype budget_error = BadTotal | BadUsed | BadSource | BadEstimate | BadThresholds | EstimateFailed

record budget_snapshot =
  used_tokens :: int
  total_tokens :: int
  budget_source :: pystr

definition ContextBudgetSnapshot :: "pyval \<Rightarrow> pyval \<Rightarrow> pyval \<Rightarrow> budget_error + budget_snapshot" where
  "ContextBudgetSnapshot used whole source =
     bindr (need (as_int whole) BadTotal) (\<lambda>t.
     bindr (ensure (0 < t) BadTotal) (\<lambda>_.
     bindr (need (as_int used) BadUsed) (\<lambda>n.
     bindr (ensure (0 \<le> n \<and> n \<le> t) BadUsed) (\<lambda>_.
     bindr (need (as_str source) BadSource) (\<lambda>s.
     bindr (ensure (py_strip s \<noteq> []) BadSource) (\<lambda>_.
       Inr \<lparr>used_tokens = n, total_tokens = t, budget_source = s\<rparr>))))))"

definition usage_ratio :: "budget_snapshot \<Rightarrow> rat" where
  "usage_ratio s = double_of (of_int (used_tokens s) / of_int (total_tokens s))"

definition valid_snapshot :: "budget_snapshot \<Rightarrow> bool" where
  "valid_snapshot s \<longleftrightarrow> 0 \<le> used_tokens s \<and> used_tokens s \<le> total_tokens s \<and> 0 < total_tokens s
     \<and> py_strip (budget_source s) \<noteq> []"

lemma ContextBudgetSnapshot_Inr [result_simps]:
  "ContextBudgetSnapshot used whole source = Inr s \<longleftrightarrow> valid_snapshot s \<and> used = PInt (used_tokens s)
     \<and> whole = PInt (total_tokens s) \<and> source = PStr (budget_source s)"
  by (cases s) (auto simp: ContextBudgetSnapshot_def valid_snapshot_def result_simps)

section \<open>The provider\<close>

definition is_token_count :: "bool \<Rightarrow> pyval \<Rightarrow> bool" where
  "is_token_count positive v = (case v of PInt n \<Rightarrow> (if positive then 1 else 0) \<le> n | _ \<Rightarrow> False)"

text \<open>
  A provider: its total, the estimate function (\<open>Inl\<close> when it raises), and the runtime reader,
  \<open>None\<close> when there is none and \<open>Some None\<close> when it raises.
\<close>

record budget_provider =
  provider_total :: pyval
  estimate :: "budget_error + pyval"
  runtime_reader :: "pyval option option"

definition read_runtime :: "budget_provider \<Rightarrow> (pyval \<times> pyval) option" where
  "read_runtime p = (case runtime_reader p of
       Some (Some (PTuple [n, t])) \<Rightarrow>
         if \<not> is_token_count True t then None
         else if \<not> is_token_count False n \<or> floor_of t < floor_of n then None
         else Some (n, t)
     | _ \<Rightarrow> None)"

definition provider_snapshot :: "budget_provider \<Rightarrow> budget_error + budget_snapshot" where
  "provider_snapshot p =
     bindr (ensure (is_token_count True (provider_total p)) BadTotal) (\<lambda>_.
     case read_runtime p of
       Some (n, t) \<Rightarrow> ContextBudgetSnapshot n t (PStr (u ''runtime''))
     | None \<Rightarrow> bindr (estimate p) (\<lambda>n.
         bindr (ensure (is_token_count False n) BadEstimate) (\<lambda>_.
         ContextBudgetSnapshot (PInt (min (floor_of n) (floor_of (provider_total p)))) (provider_total p)
           (PStr (u ''estimate'')))))"

lemma is_token_count_iff: "is_token_count positive v \<longleftrightarrow> (\<exists>n. v = PInt n \<and> (if positive then 1 else 0) \<le> n)"
  by (cases v) (auto simp: is_token_count_def)

lemma read_runtime_Some:
  "read_runtime p = Some (v, w) \<longleftrightarrow> (\<exists>n t. v = PInt n \<and> w = PInt t \<and> 0 \<le> n \<and> n \<le> t \<and> 0 < t
     \<and> runtime_reader p = Some (Some (PTuple [PInt n, PInt t])))"
  by (auto simp: read_runtime_def is_token_count_iff floor_of_def split: option.splits pyval.splits list.splits)

section \<open>The watermark monitor\<close>

definition level_rank :: "context_level \<Rightarrow> nat" where
  "level_rank l = (case l of Green \<Rightarrow> 0 | Amber \<Rightarrow> 1 | Orange \<Rightarrow> 2 | Red \<Rightarrow> 3)"

lemma level_rank_inject [simp]: "level_rank a = level_rank b \<longleftrightarrow> a = b"
  by (cases a; cases b) (simp_all add: level_rank_def)

instantiation context_level :: linorder
begin

definition less_eq_context_level :: "context_level \<Rightarrow> context_level \<Rightarrow> bool" where
  "less_eq_context_level a b \<longleftrightarrow> level_rank a \<le> level_rank b"

definition less_context_level :: "context_level \<Rightarrow> context_level \<Rightarrow> bool" where
  "less_context_level a b \<longleftrightarrow> level_rank a < level_rank b"

instance
  by standard (auto simp: less_eq_context_level_def less_context_level_def simp flip: level_rank_inject)

end

lemma Green_least [simp]: "Green \<le> l"
  by (simp add: less_eq_context_level_def level_rank_def)

lemma level_order_simps [simp]:
  "Amber \<le> Green = False" "Orange \<le> Green = False" "Red \<le> Green = False"
  "Amber \<le> Orange" "Amber \<le> Red" "Orange \<le> Amber = False" "Orange \<le> Red"
  "Red \<le> Amber = False" "Red \<le> Orange = False"
  by (simp_all add: less_eq_context_level_def level_rank_def)

record budget_monitor =
  amber_at :: rat
  orange_at :: rat
  red_at :: rat
  current_level :: context_level

text \<open>A threshold is an \<open>int\<close> or \<open>float\<close>; every comparison with a NaN or an infinity here fails.\<close>

definition threshold :: "pyval \<Rightarrow> rat option" where
  "threshold v = (case v of PInt i \<Rightarrow> Some (of_int i) | PFloat (Fin r _) \<Rightarrow> Some r | _ \<Rightarrow> None)"

definition ContextBudgetMonitor :: "pyval \<Rightarrow> pyval \<Rightarrow> pyval \<Rightarrow> budget_error + budget_monitor" where
  "ContextBudgetMonitor amber orange red =
     bindr (need (threshold amber) BadThresholds) (\<lambda>a.
     bindr (need (threshold orange) BadThresholds) (\<lambda>b.
     bindr (need (threshold red) BadThresholds) (\<lambda>c.
     bindr (ensure (0 < a \<and> a < b \<and> b < c \<and> c \<le> 1) BadThresholds) (\<lambda>_.
       Inr \<lparr>amber_at = a, orange_at = b, red_at = c, current_level = Green\<rparr>))))"

definition level_for :: "budget_monitor \<Rightarrow> budget_snapshot \<Rightarrow> context_level" where
  "level_for m s = (let ratio = usage_ratio s in
     if red_at m \<le> ratio then Red
     else if orange_at m \<le> ratio then Orange
     else if amber_at m \<le> ratio then Amber
     else Green)"

record watermark_changed =
  previous :: context_level
  current :: context_level
  snapshot_of :: budget_snapshot

definition observe :: "budget_monitor \<Rightarrow> budget_snapshot \<Rightarrow> budget_monitor \<times> watermark_changed option" where
  "observe m s = (let level = level_for m s in
     if level = current_level m then (m, None)
     else (m\<lparr>current_level := level\<rparr>,
           Some \<lparr>previous = current_level m, current = level, snapshot_of = s\<rparr>))"

text \<open>A monitor fed with a sequence of snapshots, and the events it reports, in order.\<close>

fun observe_all :: "budget_monitor \<Rightarrow> budget_snapshot list \<Rightarrow> budget_monitor \<times> watermark_changed list" where
  "observe_all m [] = (m, [])"
| "observe_all m (s # ss) = (let (m', w) = observe m s; (m'', ws) = observe_all m' ss in
     (m'', (case w of None \<Rightarrow> ws | Some e \<Rightarrow> e # ws)))"

section \<open>What the monitor reports\<close>

lemma level_for_level [simp]: "level_for (m\<lparr>current_level := l\<rparr>) s = level_for m s"
  by (simp add: level_for_def Let_def)

definition ordered_thresholds :: "budget_monitor \<Rightarrow> bool" where
  "ordered_thresholds m \<longleftrightarrow> 0 < amber_at m \<and> amber_at m < orange_at m \<and> orange_at m < red_at m \<and> red_at m \<le> 1"

lemma ContextBudgetMonitor_Inr [result_simps]:
  "ContextBudgetMonitor a b c = Inr m \<longleftrightarrow> ordered_thresholds m \<and> current_level m = Green
     \<and> threshold a = Some (amber_at m) \<and> threshold b = Some (orange_at m) \<and> threshold c = Some (red_at m)"
  by (cases m) (auto simp: ContextBudgetMonitor_def ordered_thresholds_def result_simps)

lemma level_for_mono:
  assumes "ordered_thresholds m" and "usage_ratio s \<le> usage_ratio s'"
  shows "level_for m s \<le> level_for m s'"
  using assms by (auto simp: level_for_def ordered_thresholds_def Let_def)

text \<open>The events form a chain: each starts where the one before ended, and none stays in place.\<close>

fun chained :: "context_level \<Rightarrow> watermark_changed list \<Rightarrow> context_level \<Rightarrow> bool" where
  "chained a [] b \<longleftrightarrow> a = b"
| "chained a (w # ws) b \<longleftrightarrow> previous w = a \<and> current w \<noteq> a \<and> chained (current w) ws b"

lemma observe_all_level:
  "current_level (fst (observe_all m ss)) = last (current_level m # map (level_for m) ss)"
proof (induction ss arbitrary: m)
  case (Cons s ss)
  show ?case
  proof (cases ss)
    case Nil
    then show ?thesis by (simp add: observe_def Let_def)
  next
    case (Cons t ts)
    have "level_for (fst (observe m s)) = level_for m" by (rule ext) (simp add: observe_def Let_def)
    with Cons Cons.IH [of "fst (observe m s)"] show ?thesis by (simp add: case_prod_unfold Let_def)
  qed
qed simp

lemma observe_all_chained:
  "chained (current_level m) (snd (observe_all m ss)) (current_level (fst (observe_all m ss)))"
proof (induction ss arbitrary: m)
  case (Cons s ss)
  show ?case
  proof (cases "level_for m s = current_level m")
    case True
    with Cons [of m] show ?thesis by (simp add: observe_def Let_def case_prod_unfold)
  next
    case False
    with Cons [of "m\<lparr>current_level := level_for m s\<rparr>"] show ?thesis
      by (simp add: observe_def Let_def case_prod_unfold)
  qed
qed simp

text \<open>Every reported event is about one of the snapshots, at the level of that snapshot.\<close>

lemma observe_all_events:
  "w \<in> set (snd (observe_all m ss)) \<Longrightarrow> snapshot_of w \<in> set ss \<and> current w = level_for m (snapshot_of w)"
proof (induction ss arbitrary: m)
  case (Cons s ss)
  then show ?case using Cons.IH [of m] Cons.IH [of "fst (observe m s)"]
    by (auto simp: observe_def Let_def case_prod_unfold split: if_splits)
qed simp

text \<open>
  A ratio below a percentage, over a total of at most \<open>2 ^ 46\<close> tokens, is further below it than the
  two roundings can hide.
\<close>

lemma percent_exact:
  assumes "0 \<le> n" "n \<le> t" "0 < t" "t \<le> 2 ^ 46" "0 < p" "p < 100"
  shows "double_of (of_int p / 100) \<le> double_of (of_int n / of_int t) \<longleftrightarrow> p * t \<le> 100 * n"
proof
  assume "p * t \<le> 100 * n"
  then have "(of_int (p * t) :: rat) \<le> of_int (100 * n)" by (simp only: of_int_le_iff)
  then have "(of_int p / 100 :: rat) \<le> of_int n / of_int t" using assms by (simp add: field_simps)
  then show "double_of (of_int p / 100) \<le> double_of (of_int n / of_int t)" by (rule double_of_mono)
next
  assume le: "double_of (of_int p / 100) \<le> double_of (of_int n / of_int t)"
  show "p * t \<le> 100 * n"
  proof (rule ccontr)
    assume "\<not> p * t \<le> 100 * n"
    then have "100 * n + 1 \<le> p * t" by simp
    then have "(of_int (100 * n + 1) :: rat) \<le> of_int (p * t)" by (simp only: of_int_le_iff)
    then have gap: "(100 * of_int n + 1 :: rat) \<le> of_int p * of_int t" by simp
    have t: "(0::rat) < of_int t" using assms by simp
    have "(of_int t :: rat) \<le> of_int (2 ^ 46)" using assms(4) by (simp only: of_int_le_iff)
    then have t_le: "(of_int t :: rat) \<le> 2 ^ 46" by simp
    have p: "(of_int p / 100 :: rat) < 1" using assms by simp
    have "(of_int n / of_int t :: rat) + 1 / (100 * of_int t) \<le> of_int p / 100"
      using gap t by (simp add: field_simps)
    moreover have "(1 :: rat) / (100 * 2 ^ 46) \<le> 1 / (100 * of_int t)"
      using t t_le by (intro divide_left_mono) simp_all
    ultimately have far: "(of_int n / of_int t :: rat) + 1 / (100 * 2 ^ 46) \<le> of_int p / 100" by linarith
    moreover have "(0 :: rat) < 1 / (100 * 2 ^ 46)" by simp
    ultimately have "(of_int n / of_int t :: rat) < 1" using p by linarith
    then have "double_of (of_int n / of_int t) \<le> of_int n / of_int t + 1 / 2 ^ 54"
      using double_of_near [of "of_int n / of_int t"] by linarith
    moreover have "of_int p / 100 - 1 / 2 ^ 54 \<le> double_of (of_int p / 100)"
      using double_of_near [OF p] by linarith
    ultimately have "(1 :: rat) / (100 * 2 ^ 46) \<le> 2 / 2 ^ 54" using le far by linarith
    then show False by simp
  qed
qed

section \<open>Properties\<close>

text \<open>The thresholds the code names: the doubles nearest to 0.65, 0.80 and 0.90.\<close>

definition default_monitor :: budget_monitor where
  "default_monitor = \<lparr>amber_at = double_of (65 / 100), orange_at = double_of (80 / 100),
     red_at = double_of (90 / 100), current_level = Green\<rparr>"

text \<open>
  C40: the watermarks are exact percentages: with the default thresholds, for any total up to
  \<open>2 ^ 46\<close> tokens, the level is red exactly from 90 percent on, orange from 80, amber from 65, and
  no rounding of the ratio moves a snapshot across a watermark.
\<close>

theorem watermarks_exact:
  assumes "valid_snapshot s" and "total_tokens s \<le> 2 ^ 46"
  shows "level_for default_monitor s =
    (if 90 * total_tokens s \<le> 100 * used_tokens s then Red
     else if 80 * total_tokens s \<le> 100 * used_tokens s then Orange
     else if 65 * total_tokens s \<le> 100 * used_tokens s then Amber
     else Green)"
proof -
  have "double_of (of_int p / 100) \<le> usage_ratio s \<longleftrightarrow> p * total_tokens s \<le> 100 * used_tokens s"
    if "0 < p" "p < 100" for p
    unfolding usage_ratio_def using assms that by (intro percent_exact) (simp_all add: valid_snapshot_def)
  from this [of 90] this [of 80] this [of 65] show ?thesis
    by (simp add: level_for_def default_monitor_def Let_def)
qed

definition demo_snapshot :: "int \<Rightarrow> budget_snapshot" where
  "demo_snapshot n = \<lparr>used_tokens = n, total_tokens = 1000, budget_source = u ''runtime''\<rparr>"

lemma watermarks_exact_witness:
  "level_for default_monitor (demo_snapshot 900) = Red \<and> level_for default_monitor (demo_snapshot 899) = Orange"
proof -
  have "valid_snapshot (demo_snapshot 900)" "valid_snapshot (demo_snapshot 899)" by code_simp+
  from this [THEN watermarks_exact] show ?thesis by (simp add: demo_snapshot_def)
qed

text \<open>
  The monitor reports changes and only changes: over any sequence of snapshots the events chain from
  the level before to the level of the last snapshot, no event keeps the level, and each event
  carries a snapshot of the sequence at its own level.
\<close>

theorem watermark_events_chain:
  "(let (m', ws) = observe_all m ss in
     chained (current_level m) ws (current_level m') \<and>
     current_level m' = last (current_level m # map (level_for m) ss) \<and>
     list_all (\<lambda>w. snapshot_of w \<in> set ss \<and> current w = level_for m (snapshot_of w)) ws)"
  using observe_all_chained [of m ss] observe_all_level [of m ss] observe_all_events [of _ m ss]
  by (auto simp: case_prod_unfold Let_def list_all_iff)

end
