(* ===== verification/Run_Lifecycle.thy ===== *)
theory Run_Lifecycle
  imports Run_Repository Context_Budget
begin

text \<open>
  The coordinator of a run, \<open>src/app/run_lifecycle.py\<close>, over the store of the active run, and the state of
  the working tree it looks at, \<open>src/adapters/git_workspace.py\<close>: starting, checkpointing and recovering a
  run, and raising its context level when a watermark is passed.

  The store is an argument, as in the code: its two operations are the record \<open>store\<close>, the laws the
  coordinator relies on are the locale \<open>run_store\<close>, and \<open>Run_Repository\<close> provides them. The output of
  git, the clock, the ISO parser and \<open>str.casefold\<close> are parameters; starting git and reading its pipe is left out.
\<close>

section \<open>The working tree\<close>

datatype git_error = BadHead | BadBranch | BadPaths | BadRecord | IncompleteRename | GitFailed

record workspace =
  head_commit :: pystr
  head_branch :: pystr
  dirty_paths :: "pystr list"

text \<open>\<open>sorted(set(paths))\<close>\<close>

definition sorted_paths :: "pystr list \<Rightarrow> pystr list" where
  "sorted_paths ps = sort (remdups ps)"

definition WorkspaceSnapshot :: "pystr \<Rightarrow> pystr \<Rightarrow> pystr list \<Rightarrow> git_error + workspace" where
  "WorkspaceSnapshot head br paths =
     bindr (ensure (is_commit head) BadHead) (\<lambda>_.
     bindr (ensure (nonblank br) BadBranch) (\<lambda>_.
     bindr (ensure (list_all (\<lambda>p. p \<noteq> []) paths) BadPaths) (\<lambda>_.
       Inr \<lparr>head_commit = head, head_branch = br, dirty_paths = sorted_paths paths\<rparr>)))"

text \<open>The records of \<open>git status --porcelain=v1 -z\<close>; a rename or copy takes the next record for its source.\<close>

fun dirty_records :: "pystr list \<Rightarrow> git_error + pystr list" where
  "dirty_records [] = Inr []"
| "dirty_records (r # rs) =
     (if r = [] then dirty_records rs
      else if length r < 4 \<or> r ! 2 \<noteq> 32 then Inl BadRecord
      else if 82 \<in> set (take 2 r) \<or> 67 \<in> set (take 2 r)
      then (case rs of
          [] \<Rightarrow> Inl IncompleteRename
        | s # rs' \<Rightarrow> if s = [] then Inl IncompleteRename
            else bindr (dirty_records rs') (\<lambda>ps. Inr (drop 3 r # s # ps)))
      else bindr (dirty_records rs) (\<lambda>ps. Inr (drop 3 r # ps)))"

definition parse_dirty_paths :: "pystr \<Rightarrow> git_error + pystr list" where
  "parse_dirty_paths t = bindr (dirty_records (split_at 0 t)) (\<lambda>ps. Inr (sorted_paths ps))"

text \<open>What the three git commands print, or their failure.\<close>

record git_output =
  rev_parse :: "pystr option"
  show_current :: "pystr option"
  porcelain :: "pystr option"

definition workspace_snapshot :: "git_output \<Rightarrow> git_error + workspace" where
  "workspace_snapshot g =
     bindr (need (rev_parse g) GitFailed) (\<lambda>h.
     bindr (ensure (list_all (\<lambda>c. c < 128) h) GitFailed) (\<lambda>_.
     bindr (need (show_current g) GitFailed) (\<lambda>b.
     bindr (need (porcelain g) GitFailed) (\<lambda>t.
     bindr (parse_dirty_paths t) (\<lambda>ps.
       WorkspaceSnapshot (py_strip h) (if py_strip b = [] then u ''HEAD'' else py_strip b) ps)))))"

section \<open>The coordinator\<close>

datatype lifecycle_error = StoreError repo_error | WorkspaceError git_error | StateError run_error | NoContextAction

record 'd store =
  store_save :: "save_request \<Rightarrow> 'd \<Rightarrow> 'd list \<times> (repo_error + stored_run)"
  store_load :: "'d \<Rightarrow> repo_error + stored_run option"

record lifecycle_env =
  now_iso :: pystr
  parse_iso_of :: "pystr \<Rightarrow> bool option"
  fold_of :: "pystr \<Rightarrow> pystr"
  env_redactor :: redactor
  git_of :: git_output

record recovery_outcome =
  outcome_state :: run_state
  outcome_reason :: pystr
  outcome_workspace :: workspace

definition CONTEXT_ACTIONS :: "(context_level \<times> pystr) list" where
  "CONTEXT_ACTIONS = [
     (Amber, u ''Deduplicate context and reference large outputs by file''),
     (Orange, u ''Update recovery document and complete active work-package handoff''),
     (Red, u ''Persist recovery checkpoint and stop dispatch before compression'')]"

definition RED_ACTION :: pystr where
  "RED_ACTION = u ''Persist recovery checkpoint and stop dispatch before compression''"

definition lift_store :: "repo_error + 'a \<Rightarrow> lifecycle_error + 'a" where
  "lift_store r = (case r of Inl err \<Rightarrow> Inl (StoreError err) | Inr x \<Rightarrow> Inr x)"

definition lift_git :: "git_error + 'a \<Rightarrow> lifecycle_error + 'a" where
  "lift_git r = (case r of Inl err \<Rightarrow> Inl (WorkspaceError err) | Inr x \<Rightarrow> Inr x)"

definition lift_state :: "run_error + 'a \<Rightarrow> lifecycle_error + 'a" where
  "lift_state r = (case r of Inl err \<Rightarrow> Inl (StateError err) | Inr x \<Rightarrow> Inr x)"

definition event_value :: "string \<Rightarrow> run_state \<Rightarrow> pystr \<Rightarrow> pyval" where
  "event_value kind r reason = PDict [(PStr (u ''type''), PStr (u kind)), (PStr (u ''run_id''), PStr (run_id r)),
     (PStr (u ''revision''), PInt (revision r)), (PStr (u ''reason''), PStr reason)]"

definition workspace_summary :: "workspace \<Rightarrow> pystr" where
  "workspace_summary w = u ''HEAD '' @ head_commit w @ u ''; branch '' @ head_branch w @ u ''; uncommitted paths: ''
     @ (if dirty_paths w = [] then u ''clean'' else join_with (u '', '') (dirty_paths w))"

definition resume_target :: "run_state \<Rightarrow> pystr" where
  "resume_target r = (case find (\<lambda>p. package_status p \<in> {RunRunning, RunPartial}) (work_packages r) of
       Some p \<Rightarrow> package_id p | None \<Rightarrow> current_stage r)"

definition partial_action :: "package_state \<Rightarrow> pystr" where
  "partial_action p =
     (case handoff_path p of
        Some h \<Rightarrow> if h = [] then u ''Review partial state for '' @ package_id p
          else u ''Resume '' @ package_id p @ u '' from '' @ h
      | None \<Rightarrow> u ''Review partial state for '' @ package_id p)
     @ (case package_next p of
        Some n \<Rightarrow> if n = [] then [] else u '' and execute: '' @ n
      | None \<Rightarrow> [])"

definition recovery_action :: "run_state \<Rightarrow> workspace \<Rightarrow> string \<times> pystr" where
  "recovery_action r w = (let target = resume_target r in
     if context_level r = Red then (''red_context'', RED_ACTION)
     else if run_status r = RunRunning
     then (''interrupted_running'', u ''Confirm terminated workers and resource leases before resuming '' @ target)
     else if head_commit w \<noteq> base_commit r \<or> head_branch w \<noteq> active_branch r
     then (''workspace_drift'', u ''Reconcile saved '' @ base_commit r @ u ''@'' @ active_branch r @ u '' with current ''
       @ head_commit w @ u ''@'' @ head_branch w @ u '' before resuming '' @ target)
     else (case find (\<lambda>p. package_status p = RunPartial) (work_packages r) of
         Some p \<Rightarrow> (''partial_work_package'', partial_action p)
       | None \<Rightarrow>
           if dirty_paths w \<noteq> []
           then (''dirty_workspace'', u ''Preserve and review '' @ dec_nat (length (dirty_paths w)) @ u '' uncommitted ''
             @ u (if length (dirty_paths w) = 1 then ''path'' else ''paths'') @ u '' before resuming '' @ target)
           else (''saved_next_action'', next_action r)))"

text \<open>Saving a state with its document and one event, and what the operation answers.\<close>

definition request_of :: "lifecycle_env \<Rightarrow> run_state \<Rightarrow> resume_sections \<Rightarrow> string \<Rightarrow> pystr \<Rightarrow> save_request" where
  "request_of env r x kind reason = \<lparr>rq_state = r, rq_resume = render_resume_document (env_redactor env) r x,
     rq_events = [event_value kind r reason], rq_decisions = [], rq_artifacts = PDict [], rq_verification = PDict []\<rparr>"

definition persist :: "'d store \<Rightarrow> lifecycle_env \<Rightarrow> run_state \<Rightarrow> resume_sections \<Rightarrow> string \<Rightarrow> pystr \<Rightarrow> workspace \<Rightarrow> 'd
    \<Rightarrow> 'd list \<times> (lifecycle_error + recovery_outcome)" where
  "persist st env r x kind reason w d = (case store_save st (request_of env r x kind reason) d of
       (ds, Inl err) \<Rightarrow> (ds, Inl (StoreError err))
     | (ds, Inr _) \<Rightarrow> (ds, Inr \<lparr>outcome_state = r, outcome_reason = reason, outcome_workspace = w\<rparr>))"

definition start_run :: "'d store \<Rightarrow> lifecycle_env \<Rightarrow> run_state \<Rightarrow> resume_sections option \<Rightarrow> 'd
    \<Rightarrow> 'd list \<times> (lifecycle_error + recovery_outcome)" where
  "start_run st env r sections d = (case lift_git (workspace_snapshot (git_of env)) of
       Inl err \<Rightarrow> ([], Inl err)
     | Inr w \<Rightarrow> persist st env r (case sections of None \<Rightarrow> empty_sections | Some x \<Rightarrow> x) ''run.started'' (u ''started'') w d)"

definition evolve_state :: "lifecycle_env \<Rightarrow> (raw_run \<Rightarrow> raw_run) \<Rightarrow> run_state \<Rightarrow> lifecycle_error + run_state" where
  "evolve_state env changes r = lift_state (evolve_run (parse_iso_of env) (fold_of env) (now_iso env) changes False r)"

text \<open>The state and sections a checkpoint writes; \<open>None\<close> when there is nothing to write.\<close>

definition checkpoint_plan :: "lifecycle_env \<Rightarrow> stored_run option \<Rightarrow> run_state option \<Rightarrow> resume_sections option
    \<Rightarrow> lifecycle_error + (run_state \<times> resume_sections) option" where
  "checkpoint_plan env stored state sections = (case stored of
       None \<Rightarrow> Inr (map_option (\<lambda>r. (r, case sections of None \<Rightarrow> empty_sections | Some x \<Rightarrow> x)) state)
     | Some s \<Rightarrow>
         bindr (case state of
             None \<Rightarrow> evolve_state env id (stored_state s)
           | Some r \<Rightarrow> if revision r \<le> revision (stored_state s) then evolve_state env id r else Inr r) (\<lambda>r.
         bindr (case sections of
             None \<Rightarrow> lift_state (sections_from_document (resume_markdown s))
           | Some x \<Rightarrow> Inr x) (\<lambda>x. Inr (Some (r, x)))))"

definition checkpoint :: "'d store \<Rightarrow> lifecycle_env \<Rightarrow> run_state option \<Rightarrow> resume_sections option \<Rightarrow> pystr \<Rightarrow> 'd
    \<Rightarrow> 'd list \<times> (lifecycle_error + recovery_outcome option)" where
  "checkpoint st env state sections reason d =
     (case bindr (lift_store (store_load st d)) (\<lambda>stored. checkpoint_plan env stored state sections) of
       Inl err \<Rightarrow> ([], Inl err)
     | Inr None \<Rightarrow> ([], Inr None)
     | Inr (Some (r, x)) \<Rightarrow> (case lift_git (workspace_snapshot (git_of env)) of
           Inl err \<Rightarrow> ([], Inl err)
         | Inr w \<Rightarrow> map_prod id (map_sum id Some) (persist st env r x ''run.checkpointed'' reason w d)))"

definition recovered_status :: "run_state \<Rightarrow> run_status" where
  "recovered_status r = (if run_status r = RunRunning then RunUnknown else run_status r)"

text \<open>What a recovery writes: the evolved state, the extended sections, and the reason.\<close>

definition recovery_plan :: "lifecycle_env \<Rightarrow> stored_run \<Rightarrow> workspace \<Rightarrow> lifecycle_error + run_state \<times> resume_sections \<times> pystr" where
  "recovery_plan env s w = (case recovery_action (stored_state s) w of (reason, action) \<Rightarrow>
     bindr (evolve_state env (\<lambda>v. v\<lparr>rw_status := Some (recovered_status (stored_state s)), rw_next_action := PStr action\<rparr>)
       (stored_state s)) (\<lambda>r.
     bindr (lift_state (sections_from_document (resume_markdown s))) (\<lambda>x.
     bindr (lift_state (ResumeSections (x\<lparr>files_and_git_state := files_and_git_state x @ [workspace_summary w],
       agent_state := agent_state x @ [u ''Recovery reason: '' @ u reason]\<rparr>))) (\<lambda>y.
       Inr (r, y, u reason)))))"

definition recover_active :: "'d store \<Rightarrow> lifecycle_env \<Rightarrow> 'd \<Rightarrow> 'd list \<times> (lifecycle_error + recovery_outcome option)" where
  "recover_active st env d = (case lift_store (store_load st d) of
       Inl err \<Rightarrow> ([], Inl err)
     | Inr None \<Rightarrow> ([], Inr None)
     | Inr (Some s) \<Rightarrow> (case bindr (lift_git (workspace_snapshot (git_of env))) (\<lambda>w.
           bindr (recovery_plan env s w) (\<lambda>(r, x, reason). Inr (w, r, x, reason))) of
         Inl err \<Rightarrow> ([], Inl err)
       | Inr (w, r, x, reason) \<Rightarrow> map_prod id (map_sum id Some) (persist st env r x ''run.recovered'' reason w d)))"

text \<open>The state and sections after a watermark was passed.\<close>

definition usage_note :: "budget_snapshot \<Rightarrow> pystr" where
  "usage_note s = u ''Context usage '' @ dec_int (used_tokens s) @ u ''/'' @ dec_int (total_tokens s) @ u '' from '' @ budget_source s"

definition escalation_plan :: "lifecycle_env \<Rightarrow> stored_run \<Rightarrow> watermark_changed \<Rightarrow> lifecycle_error + run_state \<times> resume_sections" where
  "escalation_plan env s ev =
     bindr (need (map_of CONTEXT_ACTIONS (current ev)) NoContextAction) (\<lambda>action.
     bindr (evolve_state env (\<lambda>v. v\<lparr>rw_context_level := Some (current ev), rw_next_action := PStr action\<rparr>) (stored_state s)) (\<lambda>r.
     bindr (lift_state (sections_from_document (resume_markdown s))) (\<lambda>x.
     bindr (lift_state (ResumeSections (x\<lparr>agent_state := agent_state x @ [usage_note (snapshot_of ev)]\<rparr>))) (\<lambda>y.
       Inr (r, y)))))"

definition handle_context_event :: "'d store \<Rightarrow> lifecycle_env \<Rightarrow> watermark_changed \<Rightarrow> 'd
    \<Rightarrow> 'd list \<times> (lifecycle_error + recovery_outcome option)" where
  "handle_context_event st env ev d =
     (if current ev \<le> previous ev then ([], Inr None)
      else (case lift_store (store_load st d) of
          Inl err \<Rightarrow> ([], Inl err)
        | Inr None \<Rightarrow> ([], Inr None)
        | Inr (Some s) \<Rightarrow>
            if current ev \<le> context_level (stored_state s) then ([], Inr None)
            else (case escalation_plan env s ev of
                Inl err \<Rightarrow> ([], Inl err)
              | Inr (r, x) \<Rightarrow> checkpoint st env (Some r) (Some x) (u ''context_'' @ u (level_value (current ev))) d)))"

text \<open>The events of a monitor, handled one after the other as long as none raises.\<close>

fun handle_events :: "'d store \<Rightarrow> lifecycle_env \<Rightarrow> watermark_changed list \<Rightarrow> 'd \<Rightarrow> 'd \<times> (lifecycle_error + unit)" where
  "handle_events st env [] d = (d, Inr ())"
| "handle_events st env (ev # evs) d = (case handle_context_event st env ev d of
       (ds, Inl err) \<Rightarrow> (last (d # ds), Inl err)
     | (ds, Inr _) \<Rightarrow> handle_events st env evs (last (d # ds)))"

section \<open>What every operation does to the store\<close>

lemma persist_eq:
  "persist st env r x kind reason w d = (fst (store_save st (request_of env r x kind reason) d),
     case snd (store_save st (request_of env r x kind reason) d) of
       Inl err \<Rightarrow> Inl (StoreError err) | Inr _ \<Rightarrow> Inr \<lparr>outcome_state = r, outcome_reason = reason, outcome_workspace = w\<rparr>)"
  by (simp add: persist_def split: prod.split sum.split)

text \<open>An operation writes nothing and fails or has nothing to do, or it is one save of the state it returns.\<close>

definition one_save :: "'d store \<Rightarrow> 'd \<Rightarrow> 'd list \<Rightarrow> lifecycle_error + recovery_outcome option \<Rightarrow> bool" where
  "one_save st d ds res \<longleftrightarrow> ds = [] \<and> (res = Inr None \<or> (\<exists>err. res = Inl err)) \<or>
     (\<exists>q r. store_save st q d = (ds, r) \<and> (case r of
        Inl err \<Rightarrow> res = Inl (StoreError err)
      | Inr s \<Rightarrow> \<exists>out. res = Inr (Some out) \<and> outcome_state out = rq_state q))"

lemma ex_sum_case:
  "(\<exists>r. P r \<and> (case r of Inl x \<Rightarrow> A x | Inr y \<Rightarrow> B y)) \<longleftrightarrow> (\<exists>x. P (Inl x) \<and> A x) \<or> (\<exists>y. P (Inr y) \<and> B y)"
  by (simp add: split_sum_ex)

lemma one_save_Inr:
  "one_save st d ds (Inr res) \<longleftrightarrow> ds = [] \<and> res = None \<or>
     (\<exists>q s out. store_save st q d = (ds, Inr s) \<and> res = Some out \<and> outcome_state out = rq_state q)"
  unfolding one_save_def ex_sum_case by auto

lemma one_save_nothing: "one_save st d [] (Inl err)" "one_save st d [] (Inr None)"
  by (simp_all add: one_save_def)

lemma one_save_persist:
  assumes "map_prod id (map_sum id Some) (persist st env r x kind reason w d) = (ds, res)"
  shows "one_save st d ds res"
proof -
  obtain js y where y: "store_save st (request_of env r x kind reason) d = (js, y)" by fastforce
  with assms have "store_save st (request_of env r x kind reason) d = (ds, y)
    \<and> (case y of Inl err \<Rightarrow> res = Inl (StoreError err)
       | Inr s \<Rightarrow> \<exists>out. res = Inr (Some out) \<and> outcome_state out = rq_state (request_of env r x kind reason))"
    by (auto simp: persist_def request_of_def split: sum.splits)
  then show ?thesis unfolding one_save_def by blast
qed

lemma start_one_save: "start_run st env r x d = (ds, res) \<Longrightarrow> one_save st d ds (map_sum id Some res)"
proof (cases "lift_git (workspace_snapshot (git_of env))")
  case (Inr w)
  assume "start_run st env r x d = (ds, res)"
  with Inr show ?thesis
    by (intro one_save_persist [where st = st and env = env and r = r and w = w and d = d and reason = "u ''started''"
          and kind = "''run.started''" and x = "case x of None \<Rightarrow> empty_sections | Some x \<Rightarrow> x"])
      (simp add: start_run_def)
qed (auto simp: start_run_def one_save_def)

lemma checkpoint_one_save: "checkpoint st env r x reason d = (ds, res) \<Longrightarrow> one_save st d ds res"
  by (auto simp: checkpoint_def one_save_nothing intro: one_save_persist split: sum.splits option.splits prod.splits)

lemma recover_one_save: "recover_active st env d = (ds, res) \<Longrightarrow> one_save st d ds res"
  by (auto simp: recover_active_def one_save_nothing intro: one_save_persist split: sum.splits option.splits prod.splits)

lemma handle_one_save: "handle_context_event st env ev d = (ds, res) \<Longrightarrow> one_save st d ds res"
  by (auto simp: handle_context_event_def one_save_nothing intro: checkpoint_one_save
      split: sum.splits option.splits prod.splits if_splits)

section \<open>What the coordinator needs of the store\<close>

text \<open>The parts of a state that a save of its redacted form keeps.\<close>

definition same_progress :: "run_state \<Rightarrow> run_state \<Rightarrow> bool" where
  "same_progress r r' \<longleftrightarrow> revision r' = revision r \<and> run_status r' = run_status r \<and> context_level r' = context_level r
     \<and> schema_version r' = schema_version r"

text \<open>\<open>s\<close> is the same run as \<open>old\<close>, at no lower revision.\<close>

definition continues_run :: "stored_run \<Rightarrow> stored_run \<Rightarrow> bool" where
  "continues_run old s \<longleftrightarrow> run_id (stored_state s) = run_id (stored_state old)
     \<and> revision (stored_state old) \<le> revision (stored_state s)"

locale run_store =
  fixes st :: "'d store" and keeps :: "pyval \<Rightarrow> bool"
  assumes save_atomic: "store_save st q d = (ds, r) \<Longrightarrow> d' \<in> set ds \<Longrightarrow>
      store_load st d' = store_load st d \<or> store_load st d' = store_load st (last (d # ds))"
    and save_loaded: "store_save st q d = (ds, Inr s) \<Longrightarrow> store_load st (last (d # ds)) = Inr (Some s)"
    and save_forward: "store_save st q d = (ds, Inr s) \<Longrightarrow> store_load st d = Inr (Some old) \<Longrightarrow> continues_run old s"
    and save_kept: "store_save st q d = (ds, Inr s) \<Longrightarrow> store_load st d = Inr (Some old) \<Longrightarrow>
      revision (stored_state old) < revision (rq_state q) \<Longrightarrow> keeps (schema_version (rq_state q)) \<Longrightarrow>
      same_progress (rq_state q) (stored_state s)"
begin

lemma crash_safe:
  "one_save st d ds res \<Longrightarrow> d' \<in> set ds \<Longrightarrow>
     store_load st d' = store_load st d \<or> store_load st d' = store_load st (last (d # ds))"
  unfolding one_save_def using save_atomic by fastforce

lemma moves_forward:
  assumes "one_save st d ds (Inr res)" and old: "store_load st d = Inr (Some old)"
  obtains s where "store_load st (last (d # ds)) = Inr (Some s)" "continues_run old s"
proof -
  from assms(1) consider "ds = []" | q s where "store_save st q d = (ds, Inr s)"
    by (auto simp: one_save_Inr)
  then show ?thesis
  proof cases
    case 1
    with old show ?thesis by (intro that [of old]) (simp_all add: continues_run_def)
  next
    case 2
    from save_loaded [OF 2] save_forward [OF 2 old] show ?thesis by (rule that)
  qed
qed

lemma leaves_outcome:
  assumes "one_save st d ds (Inr (Some out))" and old: "store_load st d = Inr (Some old)"
    and "revision (stored_state old) < revision (outcome_state out)" and "keeps (schema_version (outcome_state out))"
  obtains s where "store_load st (last (d # ds)) = Inr (Some s)" "continues_run old s"
    "same_progress (outcome_state out) (stored_state s)"
proof -
  from assms(1) obtain q s where save: "store_save st q d = (ds, Inr s)" and "outcome_state out = rq_state q"
    by (auto simp: one_save_Inr)
  with assms(3,4) save_kept [OF save old] show ?thesis
    by (intro that [OF save_loaded [OF save] save_forward [OF save old]]) simp
qed

end
text \<open>What the coordinator's own changes of a state keep.\<close>

lemma evolve_state_Inr:
  assumes "evolve_state env changes r = Inr r'"
  shows "raw_of_run r' = (changes (raw_of_run r))\<lparr>rw_schema := schema_version r, rw_revision := PInt (revision r + 1),
      rw_updated_at := PStr (now_iso env)\<rparr>"
    and "valid_run (parse_iso_of env) (fold_of env) r'"
  using assms by (auto simp: evolve_state_def lift_state_def evolve_run_def RunState_Inr split: sum.splits if_splits)

lemma recovery_plan_Inr:
  assumes "recovery_plan env s w = Inr (r, x, reason)"
  shows "run_id r = run_id (stored_state s)" "revision r = revision (stored_state s) + 1"
    "run_status r = recovered_status (stored_state s)" "context_level r = context_level (stored_state s)"
    "schema_version r = schema_version (stored_state s)" "work_packages r = work_packages (stored_state s)"
    "u (fst (recovery_action (stored_state s) w)) = reason" "next_action r = snd (recovery_action (stored_state s) w)"
    "valid_run (parse_iso_of env) (fold_of env) r"
proof -
  obtain why act where a: "recovery_action (stored_state s) w = (why, act)" by fastforce
  with assms have ev: "evolve_state env (\<lambda>v. v\<lparr>rw_status := Some (recovered_status (stored_state s)), rw_next_action := PStr act\<rparr>)
      (stored_state s) = Inr r" and "u why = reason"
    by (auto simp: recovery_plan_def bindr_Inr_iff)
  then show "u (fst (recovery_action (stored_state s) w)) = reason" by (simp add: a)
  from evolve_state_Inr [OF ev] show "run_id r = run_id (stored_state s)" "revision r = revision (stored_state s) + 1"
    "run_status r = recovered_status (stored_state s)" "context_level r = context_level (stored_state s)"
    "schema_version r = schema_version (stored_state s)" "work_packages r = work_packages (stored_state s)"
    "next_action r = snd (recovery_action (stored_state s) w)" "valid_run (parse_iso_of env) (fold_of env) r"
    by (simp_all add: raw_of_run_def a)
qed

lemma escalation_plan_Inr:
  assumes "escalation_plan env s ev = Inr (r, x)"
  shows "run_id r = run_id (stored_state s)" "revision r = revision (stored_state s) + 1"
    "run_status r = run_status (stored_state s)" "context_level r = current ev"
    "schema_version r = schema_version (stored_state s)" "map_of CONTEXT_ACTIONS (current ev) = Some (next_action r)"
proof -
  from assms obtain act where act: "map_of CONTEXT_ACTIONS (current ev) = Some act"
    and ev: "evolve_state env (\<lambda>v. v\<lparr>rw_context_level := Some (current ev), rw_next_action := PStr act\<rparr>) (stored_state s) = Inr r"
    by (auto simp: escalation_plan_def bindr_Inr_iff need_Inr)
  from evolve_state_Inr(1) [OF ev] act show "run_id r = run_id (stored_state s)" "revision r = revision (stored_state s) + 1"
    "run_status r = run_status (stored_state s)" "context_level r = current ev"
    "schema_version r = schema_version (stored_state s)" "map_of CONTEXT_ACTIONS (current ev) = Some (next_action r)"
    by (simp_all add: raw_of_run_def)
qed

section \<open>The repository as a store\<close>

text \<open>The repository of \<open>Run_Repository\<close> with Python's own \<open>json.loads\<close>.\<close>

definition python_env :: "(pystr \<Rightarrow> pyfloat) \<Rightarrow> repo_env \<Rightarrow> repo_env" where
  "python_env flt e = e\<lparr>json_loads := loads flt dict_hook\<rparr>"

definition repo_store :: "repo_env \<Rightarrow> repo store" where
  "repo_store e = \<lparr>store_save = save_run e, store_load = load_active e\<rparr>"

lemma repo_store_simps [simp]: "store_save (repo_store e) = save_run e" "store_load (repo_store e) = load_active e"
  by (simp_all add: repo_store_def)

lemma python_env_json [simp]: "python_json (python_env flt e) flt"
  by (simp add: python_env_def python_json_def)

text \<open>A version that JSON keeps.\<close>

definition plain_schema :: "(pystr \<Rightarrow> pyfloat) \<Rightarrow> pyval \<Rightarrow> bool" where
  "plain_schema flt v \<longleftrightarrow> version_ok v \<and> loadable flt v"

lemma save_run_Inr:
  assumes "save_run e q k = (ks, Inr s)"
  obtains key q' where "require_key e = Inr key" "sanitize_request e q = Inr q'" "save_locked e key q' k = (ks, Inr s)"
  using assms by (auto simp: save_run_def split: sum.splits)

lemma sanitized_progress:
  assumes "sanitize_request e q = Inr q'" and "version_ok (schema_version (rq_state q))"
  shows "same_progress (rq_state q) (rq_state q')" "wf_run (iso_reader e) (casefold_of e) (rq_state q')"
proof -
  have "run_from_dict (iso_reader e) (casefold_of e) (redact_value (redactor_of e) (run_to_dict (rq_state q))) = Inr (rq_state q')"
    using assms(1) by (auto simp: sanitize_request_def bindr_Inr_iff split: sum.splits)
  from sanitized_state [OF this assms(2)] run_from_dict_wf [OF this]
  show "same_progress (rq_state q) (rq_state q')" "wf_run (iso_reader e) (casefold_of e) (rq_state q')"
    by (simp_all add: same_progress_def)
qed

interpretation repository: run_store "repo_store (python_env flt e)" "plain_schema flt" for flt e
proof unfold_locales
  fix q k ks r k'
  assume save: "store_save (repo_store (python_env flt e)) q k = (ks, r)" and k': "k' \<in> set ks"
  then obtain key q' where "save_locked (python_env flt e) key q' k = (ks, r)"
    by (auto simp: save_run_def split: sum.splits)
  from save_steps [OF this python_reads_own [OF python_env_json] k']
  show "store_load (repo_store (python_env flt e)) k' = store_load (repo_store (python_env flt e)) k \<or>
      store_load (repo_store (python_env flt e)) k' = store_load (repo_store (python_env flt e)) (last (k # ks))"
    unfolding agrees_def load_active_def last_disk_def repo_store_simps by (elim disjE) simp_all
next
  fix q k ks s
  assume "store_save (repo_store (python_env flt e)) q k = (ks, Inr s)"
  then obtain key q' where "save_locked (python_env flt e) key q' k = (ks, Inr s)" by (auto elim: save_run_Inr)
  from saved_is_active(1) [OF this python_reads_own [OF python_env_json]]
  show "store_load (repo_store (python_env flt e)) (last (k # ks)) = Inr (Some s)" by (simp add: last_disk_def)
next
  fix q k ks s old
  assume "store_save (repo_store (python_env flt e)) q k = (ks, Inr s)"
    and old: "store_load (repo_store (python_env flt e)) k = Inr (Some old)"
  then obtain key q' where "save_locked (python_env flt e) key q' k = (ks, Inr s)" by (auto elim: save_run_Inr)
  from saved_forward [OF this python_reads_own [OF python_env_json]] old
  show "continues_run old s" by (auto simp: continues_run_def)
next
  fix q k ks s old
  assume save: "store_save (repo_store (python_env flt e)) q k = (ks, Inr s)"
    and old: "store_load (repo_store (python_env flt e)) k = Inr (Some old)"
    and later: "revision (stored_state old) < revision (rq_state q)" and "plain_schema flt (schema_version (rq_state q))"
  then have ok: "version_ok (schema_version (rq_state q))" "loadable flt (schema_version (rq_state q))"
    by (simp_all add: plain_schema_def)
  from save obtain key q' where q': "sanitize_request (python_env flt e) q = Inr q'"
    and locked: "save_locked (python_env flt e) key q' k = (ks, Inr s)" by (auto elim: save_run_Inr)
  from sanitized_progress [OF q' ok(1)] have same: "same_progress (rq_state q) (rq_state q')"
    and wf: "wf_run (iso_reader (python_env flt e)) (casefold_of (python_env flt e)) (rq_state q')" .
  from same ok(2) have schema: "loadable flt (schema_version (rq_state q'))" by (simp add: same_progress_def)
  from locked have "stored_state s = rq_state q'"
  proof (cases rule: save_locked_cases)
    case (repeated st)
    then obtain m where "load_authenticated (python_env flt e) k = Inr (Some (s, m))"
      and "target_of s = (run_id (rq_state q'), revision (rq_state q'))" by (auto elim: plan_save_Repeat)
    with old later same show ?thesis by (simp add: load_active_Inr target_of_def same_progress_def)
  next
    case (saved expected contents js t k2 st')
    from python_saved_state [OF python_env_json wf schema locked saved(1)] show ?thesis .
  qed simp_all
  with same show "same_progress (rq_state q) (stored_state s)" by simp
qed

section \<open>Escalation of the context level\<close>

lemma checkpoint_given:
  assumes "checkpoint st env (Some r) (Some x) reason d = (ds, Inr res)"
    and "store_load st d = Inr (Some s)" and "revision (stored_state s) < revision r"
  obtains out where "res = Some out" "outcome_state out = r"
  using assms
  by (auto simp: checkpoint_def checkpoint_plan_def lift_store_def persist_def split: sum.splits prod.splits)

text \<open>The level an event leaves over a stored level.\<close>

definition raised :: "watermark_changed \<Rightarrow> context_level \<Rightarrow> context_level" where
  "raised ev l = (if current ev \<le> previous ev then l else max l (current ev))"

context run_store
begin

lemma handled:
  assumes res: "handle_context_event st env ev d = (ds, Inr res)" and s: "store_load st d = Inr (Some s)"
    and keeps: "keeps (schema_version (stored_state s))"
  obtains s' where "store_load st (last (d # ds)) = Inr (Some s')" "run_id (stored_state s') = run_id (stored_state s)"
    "keeps (schema_version (stored_state s'))" "context_level (stored_state s') = raised ev (context_level (stored_state s))"
proof (cases "current ev \<le> previous ev \<or> current ev \<le> context_level (stored_state s)")
  case True
  then have "ds = []" using res s by (auto simp: handle_context_event_def lift_store_def split: if_splits)
  with True s keeps show ?thesis by (intro that [of s]) (auto simp: raised_def max_def)
next
  case False
  then obtain r x where plan: "escalation_plan env s ev = Inr (r, x)"
    and cp: "checkpoint st env (Some r) (Some x) (u ''context_'' @ u (level_value (current ev))) d = (ds, Inr res)"
    using res s by (auto simp: handle_context_event_def lift_store_def split: sum.splits prod.splits)
  note r = escalation_plan_Inr [OF plan]
  from r(2) have later: "revision (stored_state s) < revision r" by simp
  from checkpoint_given [OF cp s later] obtain out where out: "res = Some out" "outcome_state out = r" .
  from checkpoint_one_save [OF cp] have "one_save st d ds (Inr (Some out))" by (simp add: out)
  from leaves_outcome [OF this s] later keeps r(5) obtain s' where "store_load st (last (d # ds)) = Inr (Some s')"
    "continues_run s s'" "same_progress r (stored_state s')" unfolding out(2) by auto
  with r keeps False show ?thesis
    by (intro that [of s']) (auto simp: continues_run_def same_progress_def raised_def max_def)
qed

text \<open>A monitor that starts at or below the stored level: the stored level becomes the highest it observed.\<close>

lemma monitored:
  assumes "handle_events st env (snd (observe_all m ss)) d = (d', Inr ())" and "store_load st d = Inr (Some s)"
    and "keeps (schema_version (stored_state s))" and "current_level m \<le> context_level (stored_state s)"
  shows "\<exists>s'. store_load st d' = Inr (Some s') \<and> run_id (stored_state s') = run_id (stored_state s)
    \<and> context_level (stored_state s') = fold max (map (level_for m) ss) (context_level (stored_state s))"
  using assms
proof (induction ss arbitrary: m d s)
  case Nil
  then show ?case by simp
next
  case (Cons b ss)
  show ?case
  proof (cases "level_for m b = current_level m")
    case True
    then have "observe m b = (m, None)" by (simp add: observe_def)
    with Cons.prems(1) have "handle_events st env (snd (observe_all m ss)) d = (d', Inr ())"
      by (simp add: case_prod_unfold Let_def)
    from Cons.IH [OF this Cons.prems(2-4)] True Cons.prems(4) show ?thesis by (simp add: max_absorb2)
  next
    case False
    let ?ev = "\<lparr>previous = current_level m, current = level_for m b, snapshot_of = b\<rparr>"
    let ?m = "m\<lparr>current_level := level_for m b\<rparr>"
    from False have "observe m b = (?m, Some ?ev)" by (simp add: observe_def Let_def)
    with Cons.prems(1) obtain ds res where step: "handle_context_event st env ?ev d = (ds, Inr res)"
      and rest: "handle_events st env (snd (observe_all ?m ss)) (last (d # ds)) = (d', Inr ())"
      by (auto simp: case_prod_unfold Let_def split: sum.splits) (metis prod.collapse)
    from handled [OF step Cons.prems(2,3)] obtain s1 where s1: "store_load st (last (d # ds)) = Inr (Some s1)"
      "run_id (stored_state s1) = run_id (stored_state s)" "keeps (schema_version (stored_state s1))"
      "context_level (stored_state s1) = raised ?ev (context_level (stored_state s))" .
    have lv: "raised ?ev (context_level (stored_state s)) = max (level_for m b) (context_level (stored_state s))"
      using Cons.prems(4) by (auto simp: raised_def max_def)
    have "current_level ?m \<le> context_level (stored_state s1)" unfolding s1(4) lv by simp
    from Cons.IH [OF rest s1(1,3) this] show ?thesis by (simp add: s1(2,4) lv)
  qed
qed

end

section \<open>Dirty paths\<close>

text \<open>What git prints for an entry: its two status letters, the path, and for a rename the source, each ended by a null.\<close>

datatype status_entry = Changed pystr pystr | Moved pystr pystr pystr

fun print_entry :: "status_entry \<Rightarrow> pystr" where
  "print_entry (Changed xy p) = xy @ [32] @ p @ [0]"
| "print_entry (Moved xy p src) = xy @ [32] @ p @ [0] @ src @ [0]"

fun entry_paths :: "status_entry \<Rightarrow> pystr list" where
  "entry_paths (Changed xy p) = [p]"
| "entry_paths (Moved xy p src) = [p, src]"

definition git_path :: "pystr \<Rightarrow> bool" where
  "git_path p \<longleftrightarrow> p \<noteq> [] \<and> 0 \<notin> set p"

fun git_entry :: "status_entry \<Rightarrow> bool" where
  "git_entry (Changed xy p) \<longleftrightarrow> length xy = 2 \<and> 0 \<notin> set xy \<and> 82 \<notin> set xy \<and> 67 \<notin> set xy \<and> git_path p"
| "git_entry (Moved xy p src) \<longleftrightarrow> length xy = 2 \<and> 0 \<notin> set xy \<and> (82 \<in> set xy \<or> 67 \<in> set xy) \<and> git_path p \<and> git_path src"

lemma split_record: "0 \<notin> set xy \<Longrightarrow> git_path p \<Longrightarrow>
  split_at 0 (xy @ 32 # p @ 0 # rest) = (xy @ 32 # p) # split_at 0 rest"
  using split_at_append [of 0 "xy @ 32 # p" rest] by (simp add: git_path_def)

lemma split_path: "git_path p \<Longrightarrow> split_at 0 (p @ 0 # rest) = p # split_at 0 rest"
  by (simp add: split_at_append git_path_def)

lemma record_changed:
  assumes "length xy = 2" "82 \<notin> set xy" "67 \<notin> set xy" "git_path p"
  shows "dirty_records ((xy @ 32 # p) # rs) = bindr (dirty_records rs) (\<lambda>ps. Inr (p # ps))"
proof -
  from assms(1,4) obtain a b c cs where "xy = [a, b]" "p = c # cs"
    by (auto simp: length_Suc_conv numeral_2_eq_2 git_path_def neq_Nil_conv)
  with assms show ?thesis by (simp add: numeral_3_eq_3)
qed

lemma record_moved:
  assumes "length xy = 2" "82 \<in> set xy \<or> 67 \<in> set xy" "git_path p" "git_path src"
  shows "dirty_records ((xy @ 32 # p) # src # rs) = bindr (dirty_records rs) (\<lambda>ps. Inr (p # src # ps))"
proof -
  from assms(1,3) obtain a b c cs where "xy = [a, b]" "p = c # cs"
    by (auto simp: length_Suc_conv numeral_2_eq_2 git_path_def neq_Nil_conv)
  with assms show ?thesis by (auto simp: numeral_3_eq_3 git_path_def)
qed

lemma dirty_records_printed:
  "list_all git_entry es \<Longrightarrow>
     dirty_records (split_at 0 (concat (map print_entry es))) = Inr (concat (map entry_paths es))"
proof (induction es)
  case (Cons x es)
  then have IH: "dirty_records (split_at 0 (concat (map print_entry es))) = Inr (concat (map entry_paths es))" by simp
  show ?case
  proof (cases x)
    case (Changed xy p)
    with Cons.prems IH show ?thesis by (simp add: split_record record_changed del: dirty_records.simps)
  next
    case (Moved xy p src)
    with Cons.prems IH show ?thesis by (simp add: split_record split_path record_moved del: dirty_records.simps)
  qed
qed simp

text \<open>The operations of the coordinator as one step.\<close>

datatype lifecycle_op =
    StartRun run_state "resume_sections option"
  | Checkpoint "run_state option" "resume_sections option" pystr
  | RecoverActive
  | HandleEvent watermark_changed

fun lifecycle_step :: "'d store \<Rightarrow> lifecycle_env \<Rightarrow> lifecycle_op \<Rightarrow> 'd \<Rightarrow> 'd list \<times> (lifecycle_error + recovery_outcome option)" where
  "lifecycle_step st env (StartRun r x) d = map_prod id (map_sum id Some) (start_run st env r x d)"
| "lifecycle_step st env (Checkpoint r x reason) d = checkpoint st env r x reason d"
| "lifecycle_step st env RecoverActive d = recover_active st env d"
| "lifecycle_step st env (HandleEvent ev) d = handle_context_event st env ev d"

lemma step_one_save: "lifecycle_step st env op d = (ds, res) \<Longrightarrow> one_save st d ds res"
proof (cases op)
  case (StartRun r x)
  assume "lifecycle_step st env op d = (ds, res)"
  moreover obtain ks y where "start_run st env r x d = (ks, y)" by fastforce
  ultimately show ?thesis using start_one_save [of st env r x d ks y] by (simp add: StartRun)
qed (simp_all add: checkpoint_one_save recover_one_save handle_one_save)

section \<open>Properties\<close>

text \<open>When the saved next action can be taken as it is.\<close>

definition resumable :: "run_state \<Rightarrow> workspace \<Rightarrow> bool" where
  "resumable r w \<longleftrightarrow> context_level r \<noteq> Red \<and> run_status r \<noteq> RunRunning
     \<and> head_commit w = base_commit r \<and> head_branch w = active_branch r
     \<and> RunPartial \<notin> set (map package_status (work_packages r)) \<and> dirty_paths w = []"

lemma no_partial: "find (\<lambda>p. package_status p = RunPartial) ps = None \<longleftrightarrow> RunPartial \<notin> set (map package_status ps)"
  by (force simp: find_None_iff)

text \<open>What stands in the way of the saved next action, in the order of urgency, and what has to be done about it.\<close>

datatype obstacle = RedContext | CaughtRunning | MovedHead | UnfinishedPackage package_state | DirtyTree

fun obstructs :: "run_state \<Rightarrow> workspace \<Rightarrow> obstacle \<Rightarrow> bool" where
  "obstructs r w RedContext \<longleftrightarrow> context_level r = Red"
| "obstructs r w CaughtRunning \<longleftrightarrow> context_level r \<noteq> Red \<and> run_status r = RunRunning"
| "obstructs r w MovedHead \<longleftrightarrow> context_level r \<noteq> Red \<and> run_status r \<noteq> RunRunning
     \<and> (head_commit w \<noteq> base_commit r \<or> head_branch w \<noteq> active_branch r)"
| "obstructs r w (UnfinishedPackage p) \<longleftrightarrow> context_level r \<noteq> Red \<and> run_status r \<noteq> RunRunning
     \<and> head_commit w = base_commit r \<and> head_branch w = active_branch r \<and> package_status p = RunPartial
     \<and> (\<exists>before later. work_packages r = before @ p # later \<and> RunPartial \<notin> set (map package_status before))"
| "obstructs r w DirtyTree \<longleftrightarrow> context_level r \<noteq> Red \<and> run_status r \<noteq> RunRunning
     \<and> head_commit w = base_commit r \<and> head_branch w = active_branch r
     \<and> RunPartial \<notin> set (map package_status (work_packages r)) \<and> dirty_paths w \<noteq> []"

fun remedy :: "run_state \<Rightarrow> workspace \<Rightarrow> obstacle \<Rightarrow> string \<times> pystr" where
  "remedy r w RedContext = (''red_context'', u ''Persist recovery checkpoint and stop dispatch before compression'')"
| "remedy r w CaughtRunning = (''interrupted_running'',
     u ''Confirm terminated workers and resource leases before resuming '' @ resume_target r)"
| "remedy r w MovedHead = (''workspace_drift'', u ''Reconcile saved '' @ base_commit r @ u ''@'' @ active_branch r
     @ u '' with current '' @ head_commit w @ u ''@'' @ head_branch w @ u '' before resuming '' @ resume_target r)"
| "remedy r w (UnfinishedPackage p) = (''partial_work_package'', partial_action p)"
| "remedy r w DirtyTree = (''dirty_workspace'', u ''Preserve and review '' @ dec_nat (length (dirty_paths w)) @ u '' uncommitted ''
     @ u (if length (dirty_paths w) = 1 then ''path'' else ''paths'') @ u '' before resuming '' @ resume_target r)"

lemma first_partial:
  "find (\<lambda>p. package_status p = RunPartial) ps = Some p \<Longrightarrow> package_status p = RunPartial
     \<and> (\<exists>before later. ps = before @ p # later \<and> RunPartial \<notin> set (map package_status before))"
proof (induction ps)
  case (Cons x xs)
  show ?case
  proof (cases "package_status x = RunPartial")
    case True
    with Cons.prems have "package_status p = RunPartial \<and> x # xs = [] @ p # xs \<and> RunPartial \<notin> set (map package_status [])"
      by simp
    then show ?thesis by blast
  next
    case False
    with Cons obtain before later where "xs = before @ p # later" "RunPartial \<notin> set (map package_status before)"
      "package_status p = RunPartial" by auto
    with False have "package_status p = RunPartial \<and> x # xs = (x # before) @ p # later
      \<and> RunPartial \<notin> set (map package_status (x # before))" by simp
    then show ?thesis by blast
  qed
qed simp

lemma obstructs_action: "obstructs r w b \<Longrightarrow> \<not> resumable r w \<and> recovery_action r w = remedy r w b"
proof (cases b)
  case (UnfinishedPackage p)
  assume "obstructs r w b"
  with UnfinishedPackage obtain before later where
    ps: "work_packages r = before @ p # later" "package_status p = RunPartial" "RunPartial \<notin> set (map package_status before)" by auto
  then have "find (\<lambda>p. package_status p = RunPartial) before = None" unfolding no_partial by simp
  then have "find (\<lambda>p. package_status p = RunPartial) (before @ p # later) = Some p"
    using ps(2) by (induction before) (auto split: if_splits)
  with UnfinishedPackage ps \<open>obstructs r w b\<close> show ?thesis
    by (auto simp: resumable_def recovery_action_def Let_def)
qed (auto simp: resumable_def recovery_action_def Let_def RED_ACTION_def no_partial [THEN iffD2])

lemma resumable_or_obstructed: "resumable r w \<or> (\<exists>b. obstructs r w b)"
proof (cases "find (\<lambda>p. package_status p = RunPartial) (work_packages r)")
  case None
  then have "RunPartial \<notin> set (map package_status (work_packages r))" unfolding no_partial .
  then consider "resumable r w" | "obstructs r w RedContext" | "obstructs r w CaughtRunning" | "obstructs r w MovedHead"
    | "obstructs r w DirtyTree" by (auto simp: resumable_def)
  then show ?thesis by cases blast+
next
  case (Some p)
  from first_partial [OF this] consider "obstructs r w RedContext" | "obstructs r w CaughtRunning" | "obstructs r w MovedHead"
    | "obstructs r w (UnfinishedPackage p)" by auto
  then show ?thesis by cases blast+
qed

lemma resumable_action: "resumable r w \<Longrightarrow> recovery_action r w = (''saved_next_action'', next_action r)"
  unfolding resumable_def no_partial [symmetric] by (simp add: recovery_action_def Let_def)

lemma recovery_action_cases:
  "if resumable r w then recovery_action r w = (''saved_next_action'', next_action r)
   else \<exists>b. obstructs r w b \<and> recovery_action r w = remedy r w b"
  using resumable_or_obstructed [of r w] obstructs_action [of r w] resumable_action [of r w] by metis

lemma remedy_reasons: "fst (remedy r w b) \<noteq> ''saved_next_action''"
  by (cases b) simp_all

text \<open>
  C36: a recovered run resumes its saved next action exactly when that is safe: if the context is not red, the run was
  not caught running, the working tree is at the saved commit and branch and clean, and no package is partial,
  the reason is \<open>saved_next_action\<close> and the state written keeps the saved next action. Otherwise something obstructs
  it, the reason names the most urgent obstacle and the next action written is the remedy of that obstacle. The state
  written is the next revision of the same run at the same level, and a run that was running becomes unknown, never running.
\<close>

theorem recovery_resumes_iff_safe:
  assumes "store_load st d = Inr (Some s)" and "recover_active st env d = (ds, Inr res)"
  shows "\<exists>w q x out. workspace_snapshot (git_of env) = Inr w \<and> store_save st q d = (ds, Inr x) \<and> res = Some out
    \<and> outcome_state out = rq_state q \<and> run_id (rq_state q) = run_id (stored_state s)
    \<and> revision (rq_state q) = revision (stored_state s) + 1 \<and> context_level (rq_state q) = context_level (stored_state s)
    \<and> run_status (rq_state q) = recovered_status (stored_state s) \<and> run_status (rq_state q) \<noteq> RunRunning
    \<and> (if resumable (stored_state s) w
        then outcome_reason out = u ''saved_next_action'' \<and> next_action (rq_state q) = next_action (stored_state s)
        else \<exists>b. obstructs (stored_state s) w b \<and> outcome_reason out \<noteq> u ''saved_next_action''
          \<and> outcome_reason out = u (fst (remedy (stored_state s) w b))
          \<and> next_action (rq_state q) = snd (remedy (stored_state s) w b))"
proof -
  from assms obtain w r x reason where w: "workspace_snapshot (git_of env) = Inr w"
    and plan: "recovery_plan env s w = Inr (r, x, reason)"
    and save: "map_prod id (map_sum id Some) (persist st env r x ''run.recovered'' reason w d) = (ds, Inr res)"
    by (auto simp: recover_active_def lift_store_def lift_git_def bindr_Inr_iff split: sum.splits)
  let ?q = "request_of env r x ''run.recovered'' reason" and ?s = "stored_state s"
  from save obtain y where y: "store_save st ?q d = (ds, Inr y)"
    and res: "res = Some \<lparr>outcome_state = r, outcome_reason = reason, outcome_workspace = w\<rparr>"
    by (auto simp: persist_def split: prod.splits sum.splits)
  note r = recovery_plan_Inr [OF plan]
  have "if resumable ?s w then reason = u ''saved_next_action'' \<and> next_action r = next_action ?s
    else \<exists>b. obstructs ?s w b \<and> reason \<noteq> u ''saved_next_action'' \<and> reason = u (fst (remedy ?s w b))
      \<and> next_action r = snd (remedy ?s w b)"
    using recovery_action_cases [of ?s w] remedy_reasons r(7) [symmetric] r(8) by (auto simp: u_inject split: if_splits)
  note action = this
  have "run_status r \<noteq> RunRunning" by (simp add: r(3) recovered_status_def)
  then show ?thesis
    using w y r(1-4) action by (intro exI [of _ w] exI [of _ ?q] exI [of _ y] exI [of _ "the res"]) (simp add: res request_of_def)
qed



text \<open>
  C39: the dirty paths of a snapshot are exactly what git reported: reading the records git prints for any
  changed and renamed entries gives the sorted set of their paths, of both paths of a rename.
\<close>

theorem dirty_paths_exact:
  assumes "list_all git_entry es"
  shows "parse_dirty_paths (concat (map print_entry es)) = Inr (sorted_paths (concat (map entry_paths es)))"
  by (simp add: parse_dirty_paths_def dirty_records_printed [OF assms])

section \<open>A concrete run\<close>

definition demo_lifecycle :: lifecycle_env where
  "demo_lifecycle = \<lparr>now_iso = u ''now'', parse_iso_of = demo_iso, fold_of = (\<lambda>s. s), env_redactor = demo_redactor,
     git_of = \<lparr>rev_parse = Some (replicate 40 48 @ [10]), show_current = Some (u ''main''), porcelain = Some []\<rparr>\<rparr>"

text \<open>A store in memory, for the decision of a recovery.\<close>

definition memory_store :: "stored_run store" where
  "memory_store = \<lparr>store_save = (\<lambda>q d. let s = \<lparr>stored_state = rq_state q, resume_markdown = rq_resume q,
       stored_decisions = rq_decisions q, stored_events = rq_events q, stored_artifacts = rq_artifacts q,
       stored_verification = rq_verification q\<rparr> in ([s], Inr s)),
     store_load = (\<lambda>d. Inr (Some d))\<rparr>"

lemma demo_recovery:
  "snd (recover_active memory_store demo_lifecycle (demo_stored\<lparr>stored_state := demo_run_state\<lparr>run_status := RunRunning\<rparr>\<rparr>)) =
     Inr (Some \<lparr>outcome_state = demo_run_state\<lparr>revision := 2, run_status := RunUnknown,
         next_action := u ''Confirm terminated workers and resource leases before resuming s''\<rparr>,
       outcome_reason = u ''interrupted_running'',
       outcome_workspace = \<lparr>head_commit = replicate 40 48, head_branch = u ''main'', dirty_paths = []\<rparr>\<rparr>)"
  by code_simp

lemma recovery_resumes_iff_safe_witness:
  "\<exists>out. snd (recover_active memory_store demo_lifecycle (demo_stored\<lparr>stored_state := demo_run_state\<lparr>run_status := RunRunning\<rparr>\<rparr>)) =
     Inr (Some out) \<and> run_status (outcome_state out) = RunUnknown \<and> outcome_reason out \<noteq> u ''saved_next_action''"
proof -
  let ?s = "demo_stored\<lparr>stored_state := demo_run_state\<lparr>run_status := RunRunning\<rparr>\<rparr>"
  obtain ds res where run: "recover_active memory_store demo_lifecycle ?s = (ds, Inr res)"
    using demo_recovery by (metis prod.collapse)
  have "store_load memory_store ?s = Inr (Some ?s)" by (simp add: memory_store_def)
  from recovery_resumes_iff_safe [OF this run] show ?thesis
    by (auto simp: run resumable_def recovered_status_def)
qed

lemma python_env_simps [simp]:
  "require_key (python_env flt e) = require_key e" "sha256_hex (python_env flt e) = sha256_hex e"
  "hmac_hex (python_env flt e) = hmac_hex e" "iso_reader (python_env flt e) = iso_reader e"
  "casefold_of (python_env flt e) = casefold_of e"
  by (simp_all add: python_env_def require_key_def)

lemma python_env_manifests:
  "request_digest (python_env flt e) x q = request_digest e x q"
  "unsigned_manifest (python_env flt e) c g x q = unsigned_manifest e c g x q"
  "signed_manifest (python_env flt e) key m = signed_manifest e key m"
  by (simp_all add: request_digest_def unsigned_manifest_def signed_manifest_def file_entries_def Let_def)

lemma python_env_sizes: "sizes_ok (python_env flt e) = sizes_ok e" "digests_ok (python_env flt e) = digests_ok e"
proof -
  show "sizes_ok (python_env flt e) = sizes_ok e"
    by (intro ext, unfold sizes_ok_def python_env_manifests) (rule refl)
  show "digests_ok (python_env flt e) = digests_ok e" by (simp add: digests_ok_def fun_eq_iff)
qed

text \<open>A run at the green level on the disk, and the alarm that takes it to orange.\<close>

abbreviation demo_python :: repo_env where
  "demo_python \<equiv> python_env demo_float (demo_env PNone PNone demo_run_state)"

definition demo_green_disk :: repo where
  "demo_green_disk = demo_disk\<lparr>active_file := Some (json_pretty (demo_manifest None demo_save) 0 @ [10])\<rparr>"

definition demo_alarm :: watermark_changed where
  "demo_alarm = \<lparr>previous = Green, current = Orange, snapshot_of = demo_snapshot 850\<rparr>"

definition demo_raised :: run_state where
  "demo_raised = demo_run_state\<lparr>revision := 2, context_level := Orange,
     next_action := u ''Update recovery document and complete active work-package handoff''\<rparr>"

definition demo_notes :: resume_sections where
  "demo_notes = empty_sections\<lparr>agent_state := [u ''Context usage 850/1000 from runtime'']\<rparr>"

text \<open>The document a save of that state writes; it holds nothing to redact.\<close>

definition demo_document :: pystr where
  "demo_document = concat (map (\<lambda>l. u l @ [10]) [
     ''schema_version: 1'', ''run_id: run-20240101-120000'', ''revision: 2'', ''updated_at: now'', ''goal: g'',
     ''current_stage: s'', ''status: planning'', ''base_commit: 0000000000000000000000000000000000000000'',
     ''active_branch: main'', ''context_level: orange'',
     ''next_action: Update recovery document and complete active work-package handoff'', ''next_command: '', '''',
     ''## Current Goal'', ''- g'', '''', ''## Confirmed Decisions'', ''- None recorded.'', '''',
     ''## Completed Work'', ''- None recorded.'', '''', ''## Files and Git State'', ''- None recorded.'', '''',
     ''## Verification'', ''- None recorded.'', '''', ''## Agent State'',
     ''- Context usage 850/1000 from runtime'', '''', ''## Downloaded Resources'', ''- None recorded.'', '''',
     ''## Risks and Approvals'', ''- None recorded.'', '''', ''## Next Step'',
     ''- Update recovery document and complete active work-package handoff'', '''', ''## Do Not Repeat'',
     ''- None recorded.''])"

lemma demo_rendered: "render_resume_document demo_redactor demo_raised demo_notes = demo_document"
  by code_simp

lemma demo_document_clean: "redact_text demo_redactor demo_document = demo_document"
proof (rule redact_text_innocent)
  show "innocent demo_document" unfolding demo_document_def innocent_lines by code_simp
qed

definition demo_alarm_save :: save_request where
  "demo_alarm_save = \<lparr>rq_state = demo_raised, rq_resume = demo_document,
     rq_events = [event_value ''run.checkpointed'' demo_raised (u ''context_orange'')],
     rq_decisions = [], rq_artifacts = PDict [], rq_verification = PDict []\<rparr>"

lemma demo_alarm_request:
  "request_of demo_lifecycle demo_raised demo_notes ''run.checkpointed'' (u ''context_orange'') = demo_alarm_save"
proof -
  have "env_redactor demo_lifecycle = demo_redactor" by (simp add: demo_lifecycle_def)
  then show ?thesis by (simp add: request_of_def demo_alarm_save_def demo_rendered)
qed

lemma demo_escalated: "escalation_plan demo_lifecycle demo_stored demo_alarm = Inr (demo_raised, demo_notes)"
  by code_simp

lemma demo_raised_kept: "run_from_dict demo_iso (\<lambda>s. s) (redact_value demo_redactor (run_to_dict demo_raised)) = Inr demo_raised"
  by code_simp

lemma demo_alarm_event_kept: "mapr (sanitize_record demo_python) (rq_events demo_alarm_save) = Inr (rq_events demo_alarm_save)"
  by code_simp

lemma demo_alarm_sanitized: "sanitize_request demo_python demo_alarm_save = Inr demo_alarm_save"
proof -
  have redactor: "redactor_of demo_python = demo_redactor" by (simp add: python_env_def demo_env_def)
  have "sanitize_mapping demo_python (PDict []) = Inr (PDict [])" by code_simp
  then show ?thesis
    using demo_alarm_event_kept
    by (simp add: sanitize_request_def redactor demo_raised_kept demo_alarm_save_def demo_document_clean)
qed

lemma demo_alarm_save_checks:
  "demo_run_ok demo_raised" "usize (rq_resume demo_alarm_save) \<le> 10000" "encodable (rq_resume demo_alarm_save)"
  "list_all (\<lambda>r. dumpable r \<and> texts_ok r) (demo_event # rq_events demo_alarm_save)"
  "usize (concat (map (\<lambda>r. json_dumps r @ [10]) (demo_event # rq_events demo_alarm_save))) \<le> 10000"
  "dumpable (request_value (Some (run_id demo_run_state, 1)) demo_alarm_save)"
  "texts_ok (request_value (Some (run_id demo_run_state, 1)) demo_alarm_save)"
  by code_simp+

lemma demo_alarm_manifest_checks:
  "texts_ok (demo_manifest (Some (run_id demo_run_state, 1)) demo_alarm_save)"
  "dumpable (demo_manifest (Some (run_id demo_run_state, 1)) demo_alarm_save)"
  "4 * weight (demo_manifest (Some (run_id demo_run_state, 1)) demo_alarm_save) 0 + 4 \<le> 100000"
  by code_simp+

lemma demo_loadable:
  "loadable demo_float (run_to_dict demo_run_state)" "loadable demo_float (run_to_dict demo_raised)"
  "loadable demo_float demo_event" "loadable demo_float (PDict [])" "loadable demo_float (demo_manifest None demo_save)"
  "list_all (\<lambda>r. loadable demo_float r \<and> as_mapping r \<noteq> None \<and> printable_floats r \<and> one_line (json_dumps r))
     (demo_event # rq_events demo_alarm_save)"
  by code_simp+

lemma demo_faithful_python:
  assumes "demo_run_ok (rq_state q)" and "loadable demo_float (run_to_dict (rq_state q))"
    and "list_all (\<lambda>r. loadable demo_float r \<and> as_mapping r \<noteq> None \<and> printable_floats r \<and> one_line (json_dumps r)) (rq_events q)"
    and "rq_decisions q = []" and "rq_artifacts q = PDict []" and "rq_verification q = PDict []"
  shows "faithful_request demo_python q"
  using assms python_reads [OF python_env_json] demo_loadable(4)
  by (auto simp: faithful_request_def faithful_record_def demo_run_ok_def list_all_iff)

lemma demo_green_loads: "load_authenticated demo_python demo_green_disk = Inr (Some (demo_stored, demo_manifest None demo_save))"
proof -
  let ?c = "demo_files demo_run_state (u ''r'') [demo_event]" and ?t = "json_pretty (demo_manifest None demo_save) 0 @ [10]"
  let ?m = "unsigned_manifest demo_python ?c demo_zeros None demo_save"
  have state: "rq_state demo_save = demo_run_state" by (simp add: demo_save_def)
  have signed: "signed_manifest demo_python demo_key ?m = demo_manifest None demo_save"
    unfolding python_env_manifests by (rule demo_signed)
  have "faithful_request demo_python demo_save"
    by (rule demo_faithful_python) (use demo_checks(1) demo_loadable in \<open>simp_all add: demo_save_def\<close>)
  moreover have "json_norm demo_event = demo_event" by code_simp
  ultimately have dec: "decode_files demo_python (run_id (rq_state demo_save)) (revision (rq_state demo_save)) ?c = Inr demo_stored"
    using faithful_contents [OF demo_save_contents] by (simp add: demo_stored_def demo_save_def)
  have "sizes_ok demo_python demo_key demo_save None ?c"
    unfolding python_env_sizes
    by (rule demo_sizes [OF demo_first_sizes demo_checks(3) demo_checks(2) demo_checks(4) demo_checks(5) demo_checks(6)])
  moreover have "request_digest demo_python None demo_save = Inr demo_zeros"
    unfolding python_env_manifests by (rule demo_digest) (rule demo_checks(3), rule demo_checks(2))
  ultimately have dump: "canonical_json (PDict ?m) = Inr (json_dumps (PDict ?m))"
    and bound: "sum_list (map (\<lambda>f. usize (?c f)) file_names) \<le> MAX_TOTAL_BYTES"
    and doc: "document_json (demo_manifest None demo_save) = Inr ?t" "usize ?t \<le> MAX_FILE_BYTES"
    by (auto simp: sizes_ok_def Let_def signed result_simps split: sum.splits)
  have small: "usize (?c f) \<le> MAX_FILE_BYTES" for f
    using demo_first_sizes [of f] by (simp add: MAX_FILE_BYTES_def)
  have "reads_back demo_python (demo_manifest None demo_save)"
    using python_reads(1) [OF python_env_json] demo_loadable(5) by blast
  then have "json_loads demo_python ?t = Some (demo_manifest None demo_save)"
    by (simp add: reads_back_def demo_manifest_norm)
  have "load_active_manifest demo_python demo_green_disk ?t = Inr (demo_stored, signed_manifest demo_python demo_key ?m)"
  proof (rule own_manifest_loads)
    show "json_loads demo_python ?t = Some (signed_manifest demo_python demo_key ?m)" unfolding signed by fact
    show "map_of (revision_dirs demo_green_disk) (run_id (rq_state demo_save), revision (rq_state demo_save)) = Some (\<lambda>f. Some (?c f))"
      by (simp add: demo_green_disk_def demo_disk_def state) (simp add: demo_run_state_def)
    show "encodable ?t" using doc(1) by (auto simp: result_simps is_surrogate_def)
  qed (use dump bound small dec doc in \<open>simp_all add: python_env_sizes demo_digests is_digest_def demo_zeros_def hex_lower_def\<close>)
  then show ?thesis unfolding signed by (simp add: load_authenticated_def demo_green_disk_def)
qed

lemma demo_green_active: "load_active demo_python demo_green_disk = Inr (Some demo_stored)"
  unfolding load_active_def demo_green_loads by simp

lemma demo_alarm_saved: "\<exists>ks s. save_run demo_python demo_alarm_save demo_green_disk = (ks, Inr s)"
proof -
  let ?c = "demo_files demo_raised (rq_resume demo_alarm_save) (demo_event # rq_events demo_alarm_save)"
  let ?x = "Some (run_id demo_run_state, 1)"
  have q: "rq_state demo_alarm_save = demo_raised" "rq_decisions demo_alarm_save = []" "rq_artifacts demo_alarm_save = PDict []"
    "rq_verification demo_alarm_save = PDict []" by (simp_all add: demo_alarm_save_def)
  have carry: "carry_over (Some demo_stored) demo_alarm_save = demo_alarm_save\<lparr>rq_events := demo_event # rq_events demo_alarm_save\<rparr>"
    by (simp add: carry_over_def q demo_stored_def)
  have "file_contents (carry_over (Some demo_stored) demo_alarm_save) = Inr ?c"
    unfolding carry using demo_contents [of "demo_alarm_save\<lparr>rq_events := demo_event # rq_events demo_alarm_save\<rparr>"] demo_alarm_save_checks(1,3,4)
    by (simp add: q)
  moreover have "check_existing demo_python demo_green_disk demo_alarm_save demo_stored (demo_manifest None demo_save) = Inr None"
    by (simp add: check_existing_def demo_green_disk_def demo_disk_def empty_repo_def q demo_stored_def demo_raised_def ensure_def)
      (simp add: demo_run_state_def)
  ultimately have plan: "plan_save demo_python demo_green_disk demo_alarm_save = Inr (Write ?x ?c)"
    unfolding plan_save_def demo_green_loads by (simp add: demo_stored_def) (simp add: demo_run_state_def)
  have "faithful_request demo_python (carry_over (Some demo_stored) demo_alarm_save)"
    unfolding carry by (rule demo_faithful_python) (use demo_alarm_save_checks(1) demo_loadable q in simp_all)
  from plan_decodes [OF plan demo_green_active this] obtain st where
    dec: "decode_files demo_python (run_id (rq_state demo_alarm_save)) (revision (rq_state demo_alarm_save)) ?c = Inr st" by blast
  have "usize (?c f) \<le> 10000" for f by (rule demo_file_sizes) (rule demo_alarm_save_checks)+
  then have sizes: "sizes_ok demo_python demo_key demo_alarm_save ?x ?c"
    unfolding python_env_sizes by (rule demo_sizes) (rule demo_alarm_save_checks demo_alarm_manifest_checks)+
  have fresh: "map_of (revision_dirs demo_green_disk) (run_id (rq_state demo_alarm_save), revision (rq_state demo_alarm_save)) = None"
    by (simp add: demo_green_disk_def demo_disk_def q demo_raised_def)
  have "require_key demo_python = Inr demo_key" "digests_ok demo_python demo_key"
    by (simp_all add: python_env_sizes demo_digests)
  from save_goes_through [OF this plan python_reads_own [OF python_env_json] fresh sizes dec] obtain ks
    where "save_locked demo_python demo_key demo_alarm_save demo_green_disk = (ks, Inr st)" ..
  then show ?thesis by (simp add: save_run_def demo_alarm_sanitized)
qed

lemma demo_alarm_handled:
  obtains k where "handle_events (repo_store demo_python) demo_lifecycle [demo_alarm] demo_green_disk = (k, Inr ())"
proof -
  obtain ks s where saved: "save_run demo_python demo_alarm_save demo_green_disk = (ks, Inr s)" using demo_alarm_saved by blast
  have orders: "\<not> Orange \<le> Green" "\<not> revision demo_raised \<le> revision demo_run_state"
    "current demo_alarm = Orange" "previous demo_alarm = Green" "context_level (stored_state demo_stored) = Green"
    "stored_state demo_stored = demo_run_state" by code_simp+
  have reason: "u ''context_'' @ u (level_value Orange) = u ''context_orange''" by code_simp
  obtain w where "workspace_snapshot (git_of demo_lifecycle) = Inr w"
  proof -
    have "map_sum id (\<lambda>w. True) (workspace_snapshot (git_of demo_lifecycle)) = Inr True" by code_simp
    then show ?thesis by (cases "workspace_snapshot (git_of demo_lifecycle)") (auto intro: that)
  qed
  then have "\<exists>out. checkpoint (repo_store demo_python) demo_lifecycle (Some demo_raised) (Some demo_notes) (u ''context_orange'') demo_green_disk
      = (ks, Inr (Some out))"
    using saved orders by (simp add: checkpoint_def checkpoint_plan_def lift_store_def lift_git_def demo_green_active
      persist_def demo_alarm_request)
  then obtain out where "handle_context_event (repo_store demo_python) demo_lifecycle demo_alarm demo_green_disk = (ks, Inr (Some out))"
    using orders by (auto simp: handle_context_event_def lift_store_def demo_green_active demo_escalated reason)
  then show ?thesis by (intro that) simp
qed

definition demo_usages :: "budget_snapshot list" where
  "demo_usages = [demo_snapshot 850, demo_snapshot 100]"

definition demo_monitor :: budget_monitor where
  "demo_monitor = \<lparr>amber_at = 1 / 2, orange_at = 3 / 4, red_at = 9 / 10, current_level = Green\<rparr>"

lemma demo_doubles:
  "1 \<le> double_of (17 / 20) * 2" "3 \<le> double_of (17 / 20) * 4" "\<not> 9 \<le> double_of (17 / 20) * 10"
  "\<not> 1 \<le> double_of (1 / 10) * 2" "\<not> 3 \<le> double_of (1 / 10) * 4" "\<not> 9 \<le> double_of (1 / 10) * 10"
proof -
  have near: "x - 1 / 100 \<le> double_of x \<and> double_of x \<le> x + 1 / 100" if "x < 1" for x
  proof -
    have "\<bar>double_of x - x\<bar> \<le> 1 / 100" by (rule order_trans [OF double_of_near [OF that]]) simp
    then show ?thesis unfolding abs_le_iff by linarith
  qed
  show "1 \<le> double_of (17 / 20) * 2" "3 \<le> double_of (17 / 20) * 4" "\<not> 9 \<le> double_of (17 / 20) * 10"
    using near [of "17 / 20"] by simp_all
  show "\<not> 1 \<le> double_of (1 / 10) * 2" "\<not> 3 \<le> double_of (1 / 10) * 4" "\<not> 9 \<le> double_of (1 / 10) * 10"
    using near [of "1 / 10"] by simp_all
qed

lemma demo_levels: "map (level_for demo_monitor) demo_usages = [Orange, Green]"
  by (simp add: demo_doubles demo_usages_def demo_monitor_def demo_snapshot_def level_for_def usage_ratio_def observe_def Let_def)

lemma demo_changes:
  "snd (observe_all demo_monitor demo_usages) =
     [demo_alarm, \<lparr>previous = Orange, current = Green, snapshot_of = demo_snapshot 100\<rparr>]"
  by (simp add: demo_doubles demo_usages_def demo_monitor_def demo_alarm_def demo_snapshot_def level_for_def usage_ratio_def
      observe_def Let_def)


lemma dirty_paths_exact_witness:
  "parse_dirty_paths (u '' M b'' @ [0] @ u ''R  n'' @ [0] @ u ''a'' @ [0]) = Inr [u ''a'', u ''b'', u ''n'']"
proof -
  let ?es = "[Changed (u '' M'') (u ''b''), Moved (u ''R '') (u ''n'') (u ''a'')]"
  have "list_all git_entry ?es" by (simp add: git_path_def u_def)
  from dirty_paths_exact [OF this] show ?thesis by (simp add: sorted_paths_def u_def)
qed

end
