(* ===== verification/Plugin_Worker_Protocol.thy ===== *)
theory Plugin_Worker_Protocol
  imports Json_Members Secret_Redaction
begin

text \<open>
  The messages between the host and a plugin worker,
  \<open>src/core/contracts/plugin_worker_protocol.py\<close>: bounded JSON values, the five message records
  with their validating constructors and dictionary forms, and the codec of one canonical line per
  message. A line of bytes is the text it encodes; a text with a lone surrogate stands for
  bytes that are not UTF-8.
\<close>

section \<open>Bounded JSON values\<close>

datatype plugin_error = Protocol string | UnhashableKind | TooLarge | BadLimit

definition PLUGIN_WORKER_PROTOCOL_VERSION :: int where
  "PLUGIN_WORKER_PROTOCOL_VERSION = 1"

definition MAX_PLUGIN_WORKER_LINE_BYTES :: nat where
  "MAX_PLUGIN_WORKER_LINE_BYTES = 65536"

definition MAX_PLUGIN_WORKER_JSON_DEPTH :: nat where
  "MAX_PLUGIN_WORKER_JSON_DEPTH = 256"

definition MAX_PLUGIN_WORKER_INTEGER_DIGITS :: nat where
  "MAX_PLUGIN_WORKER_INTEGER_DIGITS = 512"

definition within_digits :: "int \<Rightarrow> bool" where
  "within_digits i \<longleftrightarrow> i < 10 ^ MAX_PLUGIN_WORKER_INTEGER_DIGITS \<and> - (10 ^ MAX_PLUGIN_WORKER_INTEGER_DIGITS) < i"

definition require_bounded_integer :: "int \<Rightarrow> string \<Rightarrow> plugin_error + unit" where
  "require_bounded_integer i f = ensure (within_digits i) (Protocol f)"

definition require_utf8_string :: "pystr \<Rightarrow> string \<Rightarrow> plugin_error + pystr" where
  "require_utf8_string s f = bindr (ensure (encodable s) (Protocol f)) (\<lambda>_. Inr s)"

definition plugin_identifier :: "pystr \<Rightarrow> bool" where
  "plugin_identifier s \<longleftrightarrow> s \<noteq> [] \<and> ascii_alnum (hd s) \<and> length s \<le> 128
     \<and> list_all (\<lambda>c. ascii_alnum c \<or> c \<in> {46, 95, 58, 45}) (tl s)"

definition require_identifier :: "pyval \<Rightarrow> string \<Rightarrow> plugin_error + pystr" where
  "require_identifier v f =
     bindr (need (as_str v) (Protocol f)) (\<lambda>s.
     bindr (require_utf8_string s f) (\<lambda>_.
     bindr (ensure (plugin_identifier s) (Protocol f)) (\<lambda>_. Inr s)))"

definition require_positive_integer :: "pyval \<Rightarrow> string \<Rightarrow> plugin_error + int" where
  "require_positive_integer v f =
     bindr (need (as_int v) (Protocol f)) (\<lambda>i.
     bindr (ensure (1 \<le> i) (Protocol f)) (\<lambda>_.
     bindr (require_bounded_integer i f) (\<lambda>_. Inr i)))"

text \<open>\<open>_require_json\<close> at a depth; every value of a list and every key and value of a mapping, in order.\<close>

fun each :: "('e + unit) list \<Rightarrow> 'e + unit" where
  "each [] = Inr ()"
| "each (r # rs) = bindr r (\<lambda>_. each rs)"

definition at_depth :: "(plugin_error + 'a) \<Rightarrow> nat \<Rightarrow> plugin_error + 'a" where
  "at_depth r d = bindr (ensure (d \<le> MAX_PLUGIN_WORKER_JSON_DEPTH) (Protocol ''depth'')) (\<lambda>_. r)"

definition plugin_key :: "pyval \<Rightarrow> plugin_error + unit" where
  "plugin_key k = bindr (need (as_str k) (Protocol ''key'')) (\<lambda>s. bindr (require_utf8_string s ''key'') (\<lambda>_. Inr ()))"

primrec plugin_json :: "pyval \<Rightarrow> nat \<Rightarrow> plugin_error + unit" where
  "plugin_json PNone = at_depth (Inr ())"
| "plugin_json (PBool b) = at_depth (Inr ())"
| "plugin_json (PStr s) = at_depth (bindr (require_utf8_string s ''value'') (\<lambda>_. Inr ()))"
| "plugin_json (PInt i) = at_depth (require_bounded_integer i ''value'')"
| "plugin_json (PFloat f) = at_depth (case f of Fin _ _ \<Rightarrow> Inr () | NonFin _ \<Rightarrow> Inl (Protocol ''non-finite''))"
| "plugin_json (PDict d) = (\<lambda>n. at_depth (each (map2 (\<lambda>(k, v) (_, rv). bindr (plugin_key k) (\<lambda>_. rv (Suc n))) d
     (map (map_prod plugin_json plugin_json) d))) n)"
| "plugin_json (PList xs) = (\<lambda>n. at_depth (each (map (\<lambda>r. r (Suc n)) (map plugin_json xs))) n)"
| "plugin_json (PTuple xs) = (\<lambda>n. at_depth (each (map (\<lambda>r. r (Suc n)) (map plugin_json xs))) n)"
| "plugin_json (POther n) = at_depth (Inl (Protocol ''unsupported''))"

text \<open>\<open>_freeze\<close> and \<open>_thaw\<close> are those of \<open>Json_Text\<close>.\<close>

definition plugin_bytes :: "pyval \<Rightarrow> plugin_error + pystr" where
  "plugin_bytes v = bindr (plugin_json v 0) (\<lambda>_. require_utf8_string (json_dumps (thaw v)) ''value'')"

text \<open>
  \<open>bounded_stable_json_size\<close>: the running total is compared with the cap after every addition; strings are
  measured as in \<open>Json_Text\<close>.
\<close>

fun lift_size :: "size_error + nat \<Rightarrow> plugin_error + nat" where
  "lift_size (Inr t) = Inr t"
| "lift_size (Inl SizeOverflow) = Inl TooLarge"
| "lift_size (Inl _) = Inl (Protocol ''unicode'')"

definition comma_size :: "nat \<Rightarrow> bool \<Rightarrow> nat \<Rightarrow> plugin_error + nat" where
  "comma_size m first t = (if first then Inr t else lift_size (add_size m 1 t))"

fun items_visit :: "nat \<Rightarrow> bool \<Rightarrow> (nat \<Rightarrow> plugin_error + nat) list \<Rightarrow> nat \<Rightarrow> plugin_error + nat" where
  "items_visit m first [] t = Inr t"
| "items_visit m first (f # fs) t = bindr (comma_size m first t) (\<lambda>t. bindr (f t) (items_visit m False fs))"

fun entries_visit :: "nat \<Rightarrow> bool \<Rightarrow> (pyval \<times> (nat \<Rightarrow> plugin_error + nat)) list \<Rightarrow> nat \<Rightarrow> plugin_error + nat" where
  "entries_visit m first [] t = Inr t"
| "entries_visit m first ((k, f) # fs) t =
     bindr (need (as_str k) (Protocol ''key'')) (\<lambda>s.
     bindr (comma_size m first t) (\<lambda>t.
     bindr (lift_size (string_size m s t)) (\<lambda>t.
     bindr (lift_size (add_size m 1 t)) (\<lambda>t.
     bindr (f t) (entries_visit m False fs)))))"

primrec plugin_visit :: "nat \<Rightarrow> pyval \<Rightarrow> nat \<Rightarrow> nat \<Rightarrow> plugin_error + nat" where
  "plugin_visit m PNone = (\<lambda>n t. at_depth (lift_size (add_size m 4 t)) n)"
| "plugin_visit m (PBool b) = (\<lambda>n t. at_depth (lift_size (add_size m (if b then 4 else 5) t)) n)"
| "plugin_visit m (PStr s) = (\<lambda>n t. at_depth (lift_size (string_size m s t)) n)"
| "plugin_visit m (PInt i) = (\<lambda>n t. at_depth (bindr (require_bounded_integer i ''value'')
     (\<lambda>_. lift_size (add_size m (length (dec_int i)) t))) n)"
| "plugin_visit m (PFloat f) = (\<lambda>n t. at_depth (case f of
       NonFin _ \<Rightarrow> Inl (Protocol ''non-finite'') | Fin _ txt \<Rightarrow> lift_size (add_size m (usize txt) t)) n)"
| "plugin_visit m (PDict d) = (\<lambda>n t. at_depth (bindr (lift_size (add_size m 1 t)) (\<lambda>t.
     bindr (entries_visit m True (map2 (\<lambda>(k, v) (_, f). (k, f (Suc n))) d (map (map_prod (plugin_visit m) (plugin_visit m)) d)) t)
       (\<lambda>t. lift_size (add_size m 1 t)))) n)"
| "plugin_visit m (PList xs) = (\<lambda>n t. at_depth (bindr (lift_size (add_size m 1 t)) (\<lambda>t.
     bindr (items_visit m True (map (\<lambda>f. f (Suc n)) (map (plugin_visit m) xs)) t) (\<lambda>t. lift_size (add_size m 1 t)))) n)"
| "plugin_visit m (PTuple xs) = (\<lambda>n t. at_depth (bindr (lift_size (add_size m 1 t)) (\<lambda>t.
     bindr (items_visit m True (map (\<lambda>f. f (Suc n)) (map (plugin_visit m) xs)) t) (\<lambda>t. lift_size (add_size m 1 t)))) n)"
| "plugin_visit m (POther k) = (\<lambda>n t. at_depth (Inl (Protocol ''unsupported'')) n)"

definition plugin_size :: "pyval \<Rightarrow> int \<Rightarrow> plugin_error + nat" where
  "plugin_size v max_bytes = (if max_bytes < 0 then Inl BadLimit else plugin_visit (nat max_bytes) v 0 0)"

text \<open>\<open>_strict_mapping\<close>: exactly the expected keys.\<close>

definition plugin_mapping :: "pyval \<Rightarrow> string list \<Rightarrow> string \<Rightarrow> plugin_error + (pyval \<times> pyval) list" where
  "plugin_mapping v expected f =
     bindr (need (as_mapping v) (Protocol f)) (\<lambda>d.
     bindr (ensure (fst ` set d = set (map (\<lambda>k. PStr (u k)) expected)) (Protocol f)) (\<lambda>_. Inr d))"

definition plugin_version :: "pyval \<Rightarrow> plugin_error + unit" where
  "plugin_version v = ensure (v = PInt PLUGIN_WORKER_PROTOCOL_VERSION) (Protocol ''protocol_version'')"

definition plugin_kind :: "(pyval \<times> pyval) list \<Rightarrow> string \<Rightarrow> plugin_error + unit" where
  "plugin_kind d k = ensure (item_of d ''kind'' = PStr (u k)) (Protocol ''kind'')"

section \<open>Diagnostics\<close>

definition error_assignment :: "redactor \<Rightarrow> rx" where
  "error_assignment e = Cat (word_boundary e)
     (Cat (alts [Cat (ci (u ''api'')) (Cat (opt (Chr (\<lambda>c. c = 95 \<or> c = 32 \<or> c = 45))) (ci (u ''key''))),
                 ci (u ''authorization''), ci (u ''password''), ci (u ''secret''), ci (u ''token'')])
     (Cat (Greedy (Chr py_isspace))
     (Cat (Chr (\<lambda>c. c = 58 \<or> c = 61)) (Cat (Greedy (Chr py_isspace)) bare_value))))"

definition error_bearer :: "redactor \<Rightarrow> rx" where
  "error_bearer e = Cat (word_boundary e) (Cat (ci (u ''bearer'')) (Cat (many1 (Chr py_isspace)) bare_value))"

text \<open>\<open>pattern.sub(text)\<close> with a constant replacement; no pattern here matches the empty text.\<close>

function sub_with :: "rx \<Rightarrow> pystr \<Rightarrow> nat option \<Rightarrow> pystr \<Rightarrow> pystr" where
  "sub_with r t b [] = []"
| "sub_with r t b (c # cs) = (case ends r (b, c # cs) of
       (b', rest) # _ \<Rightarrow> if length rest \<le> length cs then t @ sub_with r t b' rest else c # sub_with r t (Some c) cs
     | [] \<Rightarrow> c # sub_with r t (Some c) cs)"
  by pat_completeness auto
termination
  by (relation "measure (\<lambda>(r, t, b, s). length s)") (auto simp: less_Suc_eq_le)

definition MAX_ERROR_CHARS :: nat where
  "MAX_ERROR_CHARS = 1024"

definition redact_error_text :: "redactor \<Rightarrow> pystr \<Rightarrow> pystr" where
  "redact_error_text e s =
     (let t = map (\<lambda>c. if c = 13 \<or> c = 10 then 32 else c) s;
          t = sub_with (error_assignment e) REDACTED None t;
          t = sub_with (error_bearer e) (u ''Bearer '' @ REDACTED) None t
      in take MAX_ERROR_CHARS t)"

definition redact_protocol_error :: "redactor \<Rightarrow> pyval \<Rightarrow> plugin_error + pystr" where
  "redact_protocol_error e v = (case as_str v of
       None \<Rightarrow> Inr (u ''protocol_error'')
     | Some s \<Rightarrow> bindr (require_utf8_string s ''error'') (\<lambda>_. Inr (redact_error_text e s)))"

section \<open>What a plugin is loaded with\<close>

record load_spec =
  entry_point :: pystr
  permissions :: "pystr list"
  api_version :: pystr
  generation :: int

definition utf8_field :: "pyval \<Rightarrow> string \<Rightarrow> plugin_error + pystr" where
  "utf8_field v f = bindr (need (as_str v) (Protocol f)) (\<lambda>s. require_utf8_string s f)"

definition PluginLoadSpec :: "pyval \<Rightarrow> pyval \<Rightarrow> pyval \<Rightarrow> pyval \<Rightarrow> plugin_error + load_spec" where
  "PluginLoadSpec entry perms api gen =
     bindr (utf8_field entry ''entry_point'') (\<lambda>ep.
     bindr (need (as_seq perms) (Protocol ''permissions'')) (\<lambda>xs.
     bindr (mapr (\<lambda>x. need (as_str x) (Protocol ''permissions'')) xs) (\<lambda>ps.
     bindr (mapr (\<lambda>p. require_utf8_string p ''permissions'') ps) (\<lambda>ps.
     bindr (utf8_field api ''api_version'') (\<lambda>av.
     bindr (require_positive_integer gen ''generation'') (\<lambda>g.
       Inr \<lparr>entry_point = ep, permissions = ps, api_version = av, generation = g\<rparr>))))))"

definition load_fields :: "string list" where
  "load_fields = [''entry_point'', ''permissions'', ''api_version'', ''generation'']"

definition load_to_dict :: "load_spec \<Rightarrow> pyval" where
  "load_to_dict s = PDict [
     (PStr (u ''entry_point''), PStr (entry_point s)),
     (PStr (u ''permissions''), PList (map PStr (permissions s))),
     (PStr (u ''api_version''), PStr (api_version s)),
     (PStr (u ''generation''), PInt (generation s))]"

definition load_from_dict :: "pyval \<Rightarrow> plugin_error + load_spec" where
  "load_from_dict v = bindr (plugin_mapping v load_fields ''load payload'') (\<lambda>d.
     PluginLoadSpec (item_of d ''entry_point'') (item_of d ''permissions'') (item_of d ''api_version'') (item_of d ''generation''))"

section \<open>The messages\<close>

record hello =
  hello_worker :: pystr
  hello_pid :: int

definition PluginWorkerHello :: "pyval \<Rightarrow> pyval \<Rightarrow> plugin_error + hello" where
  "PluginWorkerHello worker pid =
     bindr (require_identifier worker ''worker_id'') (\<lambda>w.
     bindr (require_positive_integer pid ''pid'') (\<lambda>n. Inr \<lparr>hello_worker = w, hello_pid = n\<rparr>))"

definition hello_to_dict :: "hello \<Rightarrow> pyval" where
  "hello_to_dict h = PDict [
     (PStr (u ''protocol_version''), PInt PLUGIN_WORKER_PROTOCOL_VERSION),
     (PStr (u ''kind''), PStr (u ''hello'')),
     (PStr (u ''worker_id''), PStr (hello_worker h)),
     (PStr (u ''pid''), PInt (hello_pid h))]"

definition hello_from_dict :: "pyval \<Rightarrow> plugin_error + hello" where
  "hello_from_dict v =
     bindr (plugin_mapping v [''protocol_version'', ''kind'', ''worker_id'', ''pid''] ''hello'') (\<lambda>d.
     bindr (plugin_version (item_of d ''protocol_version'')) (\<lambda>_.
     bindr (plugin_kind d ''hello'') (\<lambda>_. PluginWorkerHello (item_of d ''worker_id'') (item_of d ''pid''))))"

datatype lifecycle_action = LoadPlugin | ActivatePlugin | DeactivatePlugin | CleanupPlugin | ShutdownPlugin

definition action_value :: "lifecycle_action \<Rightarrow> string" where
  "action_value a = (case a of LoadPlugin \<Rightarrow> ''load'' | ActivatePlugin \<Rightarrow> ''activate'' | DeactivatePlugin \<Rightarrow> ''deactivate''
     | CleanupPlugin \<Rightarrow> ''cleanup'' | ShutdownPlugin \<Rightarrow> ''shutdown'')"

definition lifecycle_actions :: "lifecycle_action list" where
  "lifecycle_actions = [LoadPlugin, ActivatePlugin, DeactivatePlugin, CleanupPlugin, ShutdownPlugin]"

record lifecycle_request =
  lr_request :: pystr
  lr_plugin :: pystr
  lr_action :: lifecycle_action
  lr_payload :: pyval

text \<open>\<open>None\<close> is a value that is no \<open>LifecycleAction\<close>.\<close>

definition lifecycle_payload :: "lifecycle_action \<Rightarrow> (pyval \<times> pyval) list \<Rightarrow> plugin_error + pyval" where
  "lifecycle_payload a d =
     (if a = LoadPlugin then bindr (load_from_dict (PDict d)) (\<lambda>s. Inr (load_to_dict s))
      else bindr (ensure (d = []) (Protocol ''payload'')) (\<lambda>_. Inr (PDict [])))"

definition PluginLifecycleRequest :: "pyval \<Rightarrow> pyval \<Rightarrow> lifecycle_action option \<Rightarrow> pyval \<Rightarrow> plugin_error + lifecycle_request" where
  "PluginLifecycleRequest rid pid action payload =
     bindr (require_identifier rid ''request_id'') (\<lambda>r.
     bindr (require_identifier pid ''plugin_id'') (\<lambda>p.
     bindr (need action (Protocol ''action'')) (\<lambda>a.
     bindr (need (as_mapping payload) (Protocol ''payload'')) (\<lambda>d.
     bindr (lifecycle_payload a d) (\<lambda>v.
       Inr \<lparr>lr_request = r, lr_plugin = p, lr_action = a, lr_payload = freeze v\<rparr>)))))"

definition lifecycle_request_to_dict :: "lifecycle_request \<Rightarrow> pyval" where
  "lifecycle_request_to_dict m = PDict [
     (PStr (u ''protocol_version''), PInt PLUGIN_WORKER_PROTOCOL_VERSION),
     (PStr (u ''kind''), PStr (u ''lifecycle_request'')),
     (PStr (u ''request_id''), PStr (lr_request m)),
     (PStr (u ''plugin_id''), PStr (lr_plugin m)),
     (PStr (u ''action''), PStr (u (action_value (lr_action m)))),
     (PStr (u ''payload''), thaw (lr_payload m))]"

definition lifecycle_request_from_dict :: "pyval \<Rightarrow> plugin_error + lifecycle_request" where
  "lifecycle_request_from_dict v =
     bindr (plugin_mapping v [''protocol_version'', ''kind'', ''request_id'', ''plugin_id'', ''action'', ''payload'']
       ''lifecycle request'') (\<lambda>d.
     bindr (plugin_version (item_of d ''protocol_version'')) (\<lambda>_.
     bindr (plugin_kind d ''lifecycle_request'') (\<lambda>_.
     bindr (need (enum_of action_value lifecycle_actions (item_of d ''action'')) (Protocol ''action'')) (\<lambda>a.
       PluginLifecycleRequest (item_of d ''request_id'') (item_of d ''plugin_id'') (Some a) (item_of d ''payload'')))))"

record broker_request =
  br_request :: pystr
  br_call :: pystr
  br_plugin :: pystr
  br_capability :: pystr
  br_arguments :: pyval

definition PluginBrokerRequest :: "pyval \<Rightarrow> pyval \<Rightarrow> pyval \<Rightarrow> pyval \<Rightarrow> pyval \<Rightarrow> plugin_error + broker_request" where
  "PluginBrokerRequest rid cid pid cap args =
     bindr (require_identifier rid ''request_id'') (\<lambda>r.
     bindr (require_identifier cid ''call_id'') (\<lambda>c.
     bindr (require_identifier pid ''plugin_id'') (\<lambda>p.
     bindr (require_identifier cap ''capability'') (\<lambda>k.
     bindr (plugin_json args 0) (\<lambda>_.
       Inr \<lparr>br_request = r, br_call = c, br_plugin = p, br_capability = k, br_arguments = freeze args\<rparr>)))))"

definition broker_request_to_dict :: "broker_request \<Rightarrow> pyval" where
  "broker_request_to_dict m = PDict [
     (PStr (u ''protocol_version''), PInt PLUGIN_WORKER_PROTOCOL_VERSION),
     (PStr (u ''kind''), PStr (u ''broker_request'')),
     (PStr (u ''request_id''), PStr (br_request m)),
     (PStr (u ''call_id''), PStr (br_call m)),
     (PStr (u ''plugin_id''), PStr (br_plugin m)),
     (PStr (u ''capability''), PStr (br_capability m)),
     (PStr (u ''arguments''), thaw (br_arguments m))]"

definition broker_request_from_dict :: "pyval \<Rightarrow> plugin_error + broker_request" where
  "broker_request_from_dict v =
     bindr (plugin_mapping v [''protocol_version'', ''kind'', ''request_id'', ''call_id'', ''plugin_id'', ''capability'',
       ''arguments''] ''broker request'') (\<lambda>d.
     bindr (plugin_version (item_of d ''protocol_version'')) (\<lambda>_.
     bindr (plugin_kind d ''broker_request'') (\<lambda>_.
       PluginBrokerRequest (item_of d ''request_id'') (item_of d ''call_id'') (item_of d ''plugin_id'')
         (item_of d ''capability'') (item_of d ''arguments''))))"

record broker_result =
  bs_request :: pystr
  bs_call :: pystr
  bs_plugin :: pystr
  bs_allowed :: bool
  bs_result :: pyval
  bs_error :: pystr

definition error_code :: "pystr \<Rightarrow> bool" where
  "error_code s \<longleftrightarrow> s \<noteq> [] \<and> ascii_lower (hd s) \<and> length s \<le> 64
     \<and> list_all (\<lambda>c. ascii_lower c \<or> ascii_digit c \<or> c = 95) (tl s)"

definition PluginBrokerResult :: "pyval \<Rightarrow> pyval \<Rightarrow> pyval \<Rightarrow> pyval \<Rightarrow> pyval \<Rightarrow> pyval \<Rightarrow> plugin_error + broker_result" where
  "PluginBrokerResult rid cid pid allowed res err =
     bindr (require_identifier rid ''request_id'') (\<lambda>r.
     bindr (require_identifier cid ''call_id'') (\<lambda>c.
     bindr (require_identifier pid ''plugin_id'') (\<lambda>p.
     bindr (need (as_bool allowed) (Protocol ''allowed'')) (\<lambda>b.
     bindr (plugin_json res 0) (\<lambda>_.
     bindr (need (as_str err) (Protocol ''error'')) (\<lambda>t.
     bindr (ensure (\<not> (b \<and> t \<noteq> [])) (Protocol ''error'')) (\<lambda>_.
     bindr (ensure (b \<or> error_code t) (Protocol ''error'')) (\<lambda>_.
       Inr \<lparr>bs_request = r, bs_call = c, bs_plugin = p, bs_allowed = b, bs_result = freeze res, bs_error = t\<rparr>))))))))"

definition broker_result_to_dict :: "broker_result \<Rightarrow> pyval" where
  "broker_result_to_dict m = PDict [
     (PStr (u ''protocol_version''), PInt PLUGIN_WORKER_PROTOCOL_VERSION),
     (PStr (u ''kind''), PStr (u ''broker_result'')),
     (PStr (u ''request_id''), PStr (bs_request m)),
     (PStr (u ''call_id''), PStr (bs_call m)),
     (PStr (u ''plugin_id''), PStr (bs_plugin m)),
     (PStr (u ''allowed''), PBool (bs_allowed m)),
     (PStr (u ''result''), thaw (bs_result m)),
     (PStr (u ''error''), PStr (bs_error m))]"

definition broker_result_from_dict :: "pyval \<Rightarrow> plugin_error + broker_result" where
  "broker_result_from_dict v =
     bindr (plugin_mapping v [''protocol_version'', ''kind'', ''request_id'', ''call_id'', ''plugin_id'', ''allowed'',
       ''result'', ''error''] ''broker result'') (\<lambda>d.
     bindr (plugin_version (item_of d ''protocol_version'')) (\<lambda>_.
     bindr (plugin_kind d ''broker_result'') (\<lambda>_.
       PluginBrokerResult (item_of d ''request_id'') (item_of d ''call_id'') (item_of d ''plugin_id'')
         (item_of d ''allowed'') (item_of d ''result'') (item_of d ''error''))))"

record lifecycle_result =
  ls_request :: pystr
  ls_plugin :: pystr
  ls_success :: bool
  ls_status :: pystr
  ls_error :: pystr
  ls_audit :: "pyval list"

definition LIFECYCLE_STATUSES :: "pystr list" where
  "LIFECYCLE_STATUSES = [u ''loaded'', u ''enabled'', u ''disabled'', u ''error'', u ''unloaded'']"

definition PluginLifecycleResult :: "redactor \<Rightarrow> pyval \<Rightarrow> pyval \<Rightarrow> pyval \<Rightarrow> pyval \<Rightarrow> pyval \<Rightarrow> pyval
    \<Rightarrow> plugin_error + lifecycle_result" where
  "PluginLifecycleResult e rid pid success st err audit =
     bindr (require_identifier rid ''request_id'') (\<lambda>r.
     bindr (require_identifier pid ''plugin_id'') (\<lambda>p.
     bindr (need (as_bool success) (Protocol ''success'')) (\<lambda>b.
     bindr (utf8_field st ''status'') (\<lambda>s.
     bindr (ensure (s \<in> set LIFECYCLE_STATUSES) (Protocol ''status'')) (\<lambda>_.
     bindr (utf8_field err ''error'') (\<lambda>t.
     bindr (need (as_seq audit) (Protocol ''audit'')) (\<lambda>xs.
     bindr (ensure (length xs \<le> 100) (Protocol ''audit'')) (\<lambda>_.
     bindr (plugin_json audit 0) (\<lambda>_.
     bindr (redact_protocol_error e (PStr t)) (\<lambda>t'.
       Inr \<lparr>ls_request = r, ls_plugin = p, ls_success = b, ls_status = s, ls_error = t', ls_audit = map freeze xs\<rparr>))))))))))"

definition lifecycle_result_to_dict :: "lifecycle_result \<Rightarrow> pyval" where
  "lifecycle_result_to_dict m = PDict [
     (PStr (u ''protocol_version''), PInt PLUGIN_WORKER_PROTOCOL_VERSION),
     (PStr (u ''kind''), PStr (u ''lifecycle_result'')),
     (PStr (u ''request_id''), PStr (ls_request m)),
     (PStr (u ''plugin_id''), PStr (ls_plugin m)),
     (PStr (u ''success''), PBool (ls_success m)),
     (PStr (u ''status''), PStr (ls_status m)),
     (PStr (u ''error''), PStr (ls_error m)),
     (PStr (u ''audit''), thaw (PTuple (ls_audit m)))]"

definition lifecycle_result_from_dict :: "redactor \<Rightarrow> pyval \<Rightarrow> plugin_error + lifecycle_result" where
  "lifecycle_result_from_dict e v =
     bindr (plugin_mapping v [''protocol_version'', ''kind'', ''request_id'', ''plugin_id'', ''success'', ''status'',
       ''error'', ''audit''] ''lifecycle result'') (\<lambda>d.
     bindr (plugin_version (item_of d ''protocol_version'')) (\<lambda>_.
     bindr (plugin_kind d ''lifecycle_result'') (\<lambda>_.
       PluginLifecycleResult e (item_of d ''request_id'') (item_of d ''plugin_id'') (item_of d ''success'')
         (item_of d ''status'') (item_of d ''error'') (item_of d ''audit''))))"

section \<open>The codec\<close>

datatype protocol_message =
    Hello hello
  | LifecycleRequest lifecycle_request
  | BrokerRequest broker_request
  | BrokerResult broker_result
  | LifecycleResult lifecycle_result

fun message_to_dict :: "protocol_message \<Rightarrow> pyval" where
  "message_to_dict (Hello m) = hello_to_dict m"
| "message_to_dict (LifecycleRequest m) = lifecycle_request_to_dict m"
| "message_to_dict (BrokerRequest m) = broker_request_to_dict m"
| "message_to_dict (BrokerResult m) = broker_result_to_dict m"
| "message_to_dict (LifecycleResult m) = lifecycle_result_to_dict m"

definition encode_message :: "protocol_message \<Rightarrow> plugin_error + pystr" where
  "encode_message m =
     bindr (plugin_bytes (message_to_dict m)) (\<lambda>t.
     bindr (ensure (usize (t @ [10]) \<le> MAX_PLUGIN_WORKER_LINE_BYTES) (Protocol ''line'')) (\<lambda>_. Inr (t @ [10])))"

text \<open>\<open>decoders.get(kind)\<close>: a list or a mapping cannot be looked up in a dictionary.\<close>

definition decode_by_kind :: "redactor \<Rightarrow> (pyval \<times> pyval) list \<Rightarrow> plugin_error + protocol_message" where
  "decode_by_kind e d = (case field d ''kind'' of
       Some (PStr k) \<Rightarrow>
         if k = u ''hello'' then bindr (hello_from_dict (PDict d)) (Inr \<circ> Hello)
         else if k = u ''lifecycle_request'' then bindr (lifecycle_request_from_dict (PDict d)) (Inr \<circ> LifecycleRequest)
         else if k = u ''broker_request'' then bindr (broker_request_from_dict (PDict d)) (Inr \<circ> BrokerRequest)
         else if k = u ''broker_result'' then bindr (broker_result_from_dict (PDict d)) (Inr \<circ> BrokerResult)
         else if k = u ''lifecycle_result'' then bindr (lifecycle_result_from_dict e (PDict d)) (Inr \<circ> LifecycleResult)
         else Inl (Protocol ''kind'')
     | Some (PList _) \<Rightarrow> Inl UnhashableKind
     | Some (PDict _) \<Rightarrow> Inl UnhashableKind
     | _ \<Rightarrow> Inl (Protocol ''kind''))"

definition framed :: "pystr \<Rightarrow> bool" where
  "framed line \<longleftrightarrow> line \<noteq> [] \<and> last line = 10 \<and> 10 \<notin> set (butlast line) \<and> 13 \<notin> set line"

definition decode_message :: "(pystr \<Rightarrow> pyfloat) \<Rightarrow> redactor \<Rightarrow> pystr \<Rightarrow> plugin_error + protocol_message" where
  "decode_message flt e line =
     bindr (ensure (framed line) (Protocol ''newline'')) (\<lambda>_.
     bindr (ensure (usize line \<le> MAX_PLUGIN_WORKER_LINE_BYTES) (Protocol ''line'')) (\<lambda>_.
     bindr (ensure (encodable (butlast line)) (Protocol ''json'')) (\<lambda>_.
     bindr (need (loads flt unique_hook (butlast line)) (Protocol ''json'')) (\<lambda>v.
     bindr (need (as_mapping v) (Protocol ''object'')) (\<lambda>d.
     bindr (decode_by_kind e d) (\<lambda>m.
     bindr (encode_message m) (\<lambda>line'.
     bindr (ensure (line' = line) (Protocol ''canonical'')) (\<lambda>_. Inr m))))))))"

section \<open>Which values are accepted\<close>

lemma each_Inr: "each rs = Inr () \<longleftrightarrow> (\<forall>r\<in>set rs. r = Inr ())"
  by (induction rs) (auto simp: result_simps)

lemma at_depth_Inr: "at_depth r n = Inr x \<longleftrightarrow> n \<le> MAX_PLUGIN_WORKER_JSON_DEPTH \<and> r = Inr x"
  by (auto simp: at_depth_def result_simps)

lemma utf8_Inr [result_simps]: "require_utf8_string s f = Inr t \<longleftrightarrow> encodable s \<and> t = s"
  by (auto simp: require_utf8_string_def result_simps)

lemma plugin_key_Inr: "plugin_key k = Inr () \<longleftrightarrow> (\<exists>s. k = PStr s \<and> encodable s)"
  by (auto simp: plugin_key_def result_simps)

lemma plugin_json_seq:
  "plugin_json (PList xs) n = Inr () \<longleftrightarrow> n \<le> MAX_PLUGIN_WORKER_JSON_DEPTH \<and> (\<forall>x\<in>set xs. plugin_json x (Suc n) = Inr ())"
  "plugin_json (PTuple xs) n = Inr () \<longleftrightarrow> n \<le> MAX_PLUGIN_WORKER_JSON_DEPTH \<and> (\<forall>x\<in>set xs. plugin_json x (Suc n) = Inr ())"
  by (auto simp: at_depth_Inr each_Inr)

lemma plugin_json_dict:
  "plugin_json (PDict d) n = Inr () \<longleftrightarrow> n \<le> MAX_PLUGIN_WORKER_JSON_DEPTH
     \<and> (\<forall>(k, v)\<in>set d. (\<exists>s. k = PStr s \<and> encodable s) \<and> plugin_json v (Suc n) = Inr ())"
proof -
  have "map2 (\<lambda>(k, v) (_, rv). bindr (plugin_key k) (\<lambda>_. rv (Suc n))) d (map (map_prod plugin_json plugin_json) d)
      = map (\<lambda>(k, v). bindr (plugin_key k) (\<lambda>_. plugin_json v (Suc n))) d"
    by (induction d) auto
  then show ?thesis by (auto simp: at_depth_Inr each_Inr result_simps plugin_key_Inr)
qed

lemmas plugin_json_parts = plugin_json_seq plugin_json_dict

lemma plugin_json_thaw: "plugin_json (thaw v) n = Inr () \<longleftrightarrow> plugin_json v n = Inr ()"
proof (induction v arbitrary: n)
  case (PDict d)
  have "plugin_json (thaw v) (Suc n) = Inr () \<longleftrightarrow> plugin_json v (Suc n) = Inr ()" if "(k, v) \<in> set d" for k v
    using PDict.IH(2) [OF that] by simp
  then show ?case unfolding thaw_dict plugin_json_dict by auto
next
  case (PTuple xs)
  then show ?case by (simp only: thaw.simps plugin_json_seq) auto
qed simp_all

lemma plugin_json_freeze: "plugin_json (freeze v) n = Inr () \<longleftrightarrow> plugin_json v n = Inr ()"
proof (induction v arbitrary: n)
  case (PDict d)
  have "plugin_json (freeze v) (Suc n) = Inr () \<longleftrightarrow> plugin_json v (Suc n) = Inr ()" if "(k, v) \<in> set d" for k v
    using PDict.IH(2) [OF that] by simp
  then show ?case unfolding freeze_dict plugin_json_dict by auto
next
  case (PTuple xs)
  then show ?case by (simp only: freeze.simps plugin_json_seq) auto
next
  case (PList xs)
  then show ?case by (simp only: freeze.simps plugin_json_seq) auto
qed simp_all

lemma plugin_json_norm: "plugin_json (json_norm v) n = Inr () \<longleftrightarrow> plugin_json v n = Inr ()"
proof (induction v arbitrary: n)
  case (PDict d)
  have "plugin_json (json_norm v) (Suc n) = Inr () \<longleftrightarrow> plugin_json v (Suc n) = Inr ()" if "(k, v) \<in> set d" for k v
    using PDict.IH(2) [OF that] by simp
  then show ?case unfolding norm_dict plugin_json_dict by auto
next
  case (PTuple xs)
  then show ?case by (simp only: json_norm.simps plugin_json_seq) auto
next
  case (PList xs)
  then show ?case by (simp only: json_norm.simps plugin_json_seq) auto
qed simp_all

lemmas plugin_json_same = plugin_json_thaw plugin_json_freeze plugin_json_norm

text \<open>A value that is measured successfully is accepted, and the size is that of its text.\<close>

lemma lift_size_Inr [result_simps]: "lift_size r = Inr t \<longleftrightarrow> r = Inr t"
  by (cases r rule: lift_size.cases) auto

lemma add_size_Inr: "add_size m k t = Inr t' \<longleftrightarrow> t' = t + k \<and> t' \<le> m"
  by (auto simp: add_size_def)

lemma string_size_Inr:
  assumes "string_size m s t = Inr t'" and "t \<le> m"
  shows "encodable s \<and> t' = t + usize (json_string s) \<and> t' \<le> m"
  using string_size_measures [of m s] assms
  by (cases "encodable s") (auto simp: measures_def adds_def fails_def split: if_splits)

definition sized :: "nat \<Rightarrow> (nat \<Rightarrow> plugin_error + nat) \<Rightarrow> bool \<Rightarrow> nat \<Rightarrow> bool" where
  "sized m f ok k \<longleftrightarrow> (\<forall>t t'. t \<le> m \<longrightarrow> f t = Inr t' \<longrightarrow> ok \<and> t' = t + k \<and> t' \<le> m)"

lemma comma_sized: "sized m (comma_size m first) True (if first then 0 else 1)"
  by (auto simp: sized_def comma_size_def result_simps add_size_Inr)

lemma items_sized:
  "(\<And>x. x \<in> set xs \<Longrightarrow> sized m (f x) (ok x) (k x)) \<Longrightarrow>
     sized m (items_visit m first (map f xs)) (\<forall>x\<in>set xs. ok x)
       (sum_list (map k xs) + (if first then length xs - 1 else length xs))"
proof (induction xs arbitrary: first)
  case (Cons x xs)
  have x: "sized m (f x) (ok x) (k x)" using Cons.prems by simp
  have xs: "sized m (items_visit m False (map f xs)) (\<forall>x\<in>set xs. ok x) (sum_list (map k xs) + length xs)"
    using Cons.IH [of False] Cons.prems by simp
  show ?case unfolding sized_def
  proof (intro allI impI)
    fix t t' assume t: "t \<le> m" and "items_visit m first (map f (x # xs)) t = Inr t'"
    then obtain a b where a: "comma_size m first t = Inr a" and b: "f x a = Inr b"
      and rest: "items_visit m False (map f xs) b = Inr t'"
      by (auto simp: result_simps)
    from a t comma_sized have a': "a = t + (if first then 0 else 1)" "a \<le> m" unfolding sized_def by blast+
    from b a'(2) x have b': "ok x" "b = a + k x" "b \<le> m" unfolding sized_def by blast+
    from rest b'(3) xs have "\<forall>x\<in>set xs. ok x" "t' = b + (sum_list (map k xs) + length xs)" "t' \<le> m"
      unfolding sized_def by blast+
    with a' b' show "(\<forall>y\<in>set (x # xs). ok y)
        \<and> t' = t + (sum_list (map k (x # xs)) + (if first then length (x # xs) - 1 else length (x # xs))) \<and> t' \<le> m"
      by simp
  qed
qed (simp add: sized_def)

lemma entries_sized:
  "(\<And>k v. (k, v) \<in> set d \<Longrightarrow> sized m (f v) (ok v) (w v)) \<Longrightarrow>
     sized m (entries_visit m first (map (\<lambda>(k, v). (k, f v)) d))
       (\<forall>(k, v)\<in>set d. (\<exists>s. k = PStr s \<and> encodable s) \<and> ok v)
       (sum_list (map (\<lambda>(k, v). usize (json_string (key_text k)) + 1 + w v) d) + (if first then length d - 1 else length d))"
proof (induction d arbitrary: first)
  case (Cons x d)
  obtain k v where x: "x = (k, v)" by (cases x)
  have v: "sized m (f v) (ok v) (w v)" using Cons.prems [of k v] x by simp
  have d: "sized m (entries_visit m False (map (\<lambda>(k, v). (k, f v)) d)) (\<forall>(k, v)\<in>set d. (\<exists>s. k = PStr s \<and> encodable s) \<and> ok v)
      (sum_list (map (\<lambda>(k, v). usize (json_string (key_text k)) + 1 + w v) d) + length d)"
  proof -
    have "sized m (entries_visit m False (map (\<lambda>(k, v). (k, f v)) d)) (\<forall>(k, v)\<in>set d. (\<exists>s. k = PStr s \<and> encodable s) \<and> ok v)
        (sum_list (map (\<lambda>(k, v). usize (json_string (key_text k)) + 1 + w v) d) + (if False then length d - 1 else length d))"
    proof (rule Cons.IH)
      fix k v assume "(k, v) \<in> set d"
      then show "sized m (f v) (ok v) (w v)" using Cons.prems [of k v] by simp
    qed
    then show ?thesis by (simp only: if_False)
  qed
  show ?case unfolding sized_def
  proof (intro allI impI)
    fix t t' assume t: "t \<le> m" and "entries_visit m first (map (\<lambda>(k, v). (k, f v)) (x # d)) t = Inr t'"
    then obtain s a b c e where s: "k = PStr s" and a: "comma_size m first t = Inr a" and b: "string_size m s a = Inr b"
      and c: "add_size m 1 b = Inr c" and e: "f v c = Inr e"
      and rest: "entries_visit m False (map (\<lambda>(k, v). (k, f v)) d) e = Inr t'"
      by (auto simp: x result_simps need_Inr)
    from a t comma_sized have a': "a = t + (if first then 0 else 1)" "a \<le> m" unfolding sized_def by blast+
    from string_size_Inr [OF b a'(2)] have b': "encodable s" "b = a + usize (json_string s)" "b \<le> m" by simp_all
    from c have c': "c = b + 1" "c \<le> m" by (simp_all add: add_size_Inr)
    from e c'(2) v have e': "ok v" "e = c + w v" "e \<le> m" unfolding sized_def by blast+
    from rest e'(3) d have "(\<forall>(k, v)\<in>set d. (\<exists>s. k = PStr s \<and> encodable s) \<and> ok v)"
      "t' = e + (sum_list (map (\<lambda>(k, v). usize (json_string (key_text k)) + 1 + w v) d) + length d)" "t' \<le> m"
      unfolding sized_def by blast+
    with a' b' c' e' s show "(\<forall>(k, v)\<in>set (x # d). (\<exists>s. k = PStr s \<and> encodable s) \<and> ok v)
      \<and> t' = t + (sum_list (map (\<lambda>(k, v). usize (json_string (key_text k)) + 1 + w v) (x # d))
          + (if first then length (x # d) - 1 else length (x # d))) \<and> t' \<le> m"
      by (simp add: x key_text_def)
  qed
qed (simp add: sized_def)

lemma usize_dumps_dict: "usize (json_dumps (PDict d)) =
    sum_list (map (\<lambda>(k, v). usize (json_string (key_text k)) + 1 + usize (json_dumps v)) d) + (length d - 1) + 2"
proof -
  let ?ms = "map (\<lambda>(k, v). (key_text k, json_dumps v)) d"
  have "sum_list (map (usize \<circ> member_text) (sort_key fst ?ms)) = sum_list (map (usize \<circ> member_text) ?ms)"
    by (rule sum_list_sort_key)
  also have "\<dots> = sum_list (map (\<lambda>(k, v). usize (json_string (key_text k)) + 1 + usize (json_dumps v)) d)"
    by (induction d) (auto simp: member_text_def)
  finally show ?thesis unfolding dumps_dict by (simp add: join_comma_usize)
qed

lemma bracket_sized:
  assumes "sized m f ok k"
  shows "sized m (\<lambda>t. at_depth (bindr (lift_size (add_size m 1 t)) (\<lambda>t. bindr (f t) (\<lambda>t. lift_size (add_size m 1 t)))) n)
    (n \<le> MAX_PLUGIN_WORKER_JSON_DEPTH \<and> ok) (k + 2)"
  using assms unfolding sized_def by (fastforce simp: at_depth_Inr result_simps add_size_Inr)

lemma plugin_visit_sized: "sized m (plugin_visit m v n) (plugin_json v n = Inr ()) (usize (json_dumps v))"
proof (induction v arbitrary: n)
  case (PStr s)
  show ?case unfolding sized_def
    by (auto simp: at_depth_Inr result_simps dest: string_size_Inr)
next
  case (PInt i)
  show ?case by (auto simp: sized_def at_depth_Inr result_simps add_size_Inr)
next
  case (PFloat f)
  show ?case by (cases f) (auto simp: sized_def at_depth_Inr result_simps add_size_Inr)
next
  case (PList xs)
  have "sized m (items_visit m True (map (\<lambda>x. plugin_visit m x (Suc n)) xs)) (\<forall>x\<in>set xs. plugin_json x (Suc n) = Inr ())
      (sum_list (map (\<lambda>x. usize (json_dumps x)) xs) + (length xs - 1))"
    using items_sized [where xs = xs and f = "\<lambda>x. plugin_visit m x (Suc n)" and first = True, OF PList.IH] by simp
  from bracket_sized [OF this, of n] show ?case
    unfolding plugin_json_seq plugin_visit.simps by (simp add: comp_def join_comma_usize del: plugin_json.simps)
next
  case (PTuple xs)
  have "sized m (items_visit m True (map (\<lambda>x. plugin_visit m x (Suc n)) xs)) (\<forall>x\<in>set xs. plugin_json x (Suc n) = Inr ())
      (sum_list (map (\<lambda>x. usize (json_dumps x)) xs) + (length xs - 1))"
    using items_sized [where xs = xs and f = "\<lambda>x. plugin_visit m x (Suc n)" and first = True, OF PTuple.IH] by simp
  from bracket_sized [OF this, of n] show ?case
    unfolding plugin_json_seq plugin_visit.simps by (simp add: comp_def join_comma_usize del: plugin_json.simps)
next
  case (PDict d)
  have eq: "map2 (\<lambda>(k, v) (_, f). (k, f (Suc n))) d (map (map_prod (plugin_visit m) (plugin_visit m)) d) =
      map (\<lambda>(k, v). (k, plugin_visit m v (Suc n))) d"
    by (induction d) auto
  have "sized m (plugin_visit m v (Suc n)) (plugin_json v (Suc n) = Inr ()) (usize (json_dumps v))" if "(k, v) \<in> set d" for k v
    using PDict.IH(2) [OF that] by simp
  from entries_sized [where f = "\<lambda>v. plugin_visit m v (Suc n)" and first = True, OF this] have
    "sized m (entries_visit m True (map (\<lambda>(k, v). (k, plugin_visit m v (Suc n))) d))
      (\<forall>(k, v)\<in>set d. (\<exists>s. k = PStr s \<and> encodable s) \<and> plugin_json v (Suc n) = Inr ())
      (sum_list (map (\<lambda>(k, v). usize (json_string (key_text k)) + 1 + usize (json_dumps v)) d) + (length d - 1))"
    by simp
  from bracket_sized [OF this, of n] show ?case
    unfolding plugin_json_dict plugin_visit.simps eq usize_dumps_dict .
qed (auto simp: sized_def at_depth_Inr result_simps add_size_Inr u_def)

lemma plugin_size_Inr:
  "plugin_size v (int m) = Inr k \<Longrightarrow> plugin_json v 0 = Inr () \<and> k = usize (json_dumps v) \<and> k \<le> m"
  using plugin_visit_sized [of m v 0] by (auto simp: plugin_size_def sized_def)

text \<open>Frozen values that differ in the order of their keys alone have the same text.\<close>

definition sorted_value :: "pyval \<Rightarrow> pyval" where
  "sorted_value v = freeze (json_norm (thaw v))"

lemma sorted_value_text: "json_dumps (thaw (sorted_value v)) = json_dumps v" "json_dumps (sorted_value v) = json_dumps v"
  by (simp_all add: sorted_value_def dumps_thaw dumps_freeze dumps_norm)

lemma sorted_value_json: "plugin_json (thaw (sorted_value v)) n = Inr () \<longleftrightarrow> plugin_json (thaw v) n = Inr ()"
  by (simp add: sorted_value_def plugin_json_same)

section \<open>Which messages are accepted\<close>

lemma plugin_identifier_encodable: "plugin_identifier s \<Longrightarrow> encodable s"
proof -
  assume s: "plugin_identifier s"
  then obtain c cs where "s = c # cs" by (cases s) (simp_all add: plugin_identifier_def)
  with s have "\<forall>x\<in>set s. x < 128" by (auto simp: plugin_identifier_def list_all_iff ascii_alnum_def)
  then show ?thesis using usize_ascii by blast
qed

lemma require_identifier_Inr [result_simps]: "require_identifier v f = Inr s \<longleftrightarrow> v = PStr s \<and> plugin_identifier s"
  using plugin_identifier_encodable by (auto simp: require_identifier_def result_simps need_Inr)

definition positive :: "int \<Rightarrow> bool" where
  "positive i \<longleftrightarrow> 1 \<le> i \<and> within_digits i"

lemma require_positive_Inr [result_simps]: "require_positive_integer v f = Inr i \<longleftrightarrow> v = PInt i \<and> positive i"
  by (auto simp: require_positive_integer_def require_bounded_integer_def positive_def result_simps need_Inr)

lemma utf8_field_Inr [result_simps]: "utf8_field v f = Inr s \<longleftrightarrow> v = PStr s \<and> encodable s"
  by (auto simp: utf8_field_def result_simps need_Inr)

lemma plugin_mapping_Inr [result_simps]:
  "plugin_mapping v fs f = Inr d \<longleftrightarrow> v = PDict d \<and> fst ` set d = set (map (\<lambda>k. PStr (u k)) fs)"
  by (auto simp: plugin_mapping_def result_simps need_Inr)

lemma plugin_head_Inr [result_simps]:
  "plugin_version v = Inr x \<longleftrightarrow> v = PInt PLUGIN_WORKER_PROTOCOL_VERSION"
  "plugin_kind d k = Inr x \<longleftrightarrow> item_of d ''kind'' = PStr (u k)"
  by (auto simp: plugin_version_def plugin_kind_def result_simps)

definition valid_load :: "load_spec \<Rightarrow> bool" where
  "valid_load s \<longleftrightarrow> encodable (entry_point s) \<and> list_all encodable (permissions s) \<and> encodable (api_version s)
     \<and> positive (generation s)"

lemma strings_Inr: "mapr (\<lambda>x. need (as_str x) err) xs = Inr ps \<longleftrightarrow> xs = map PStr ps"
  by (induction xs arbitrary: ps) (auto simp: result_simps need_Inr)

lemma utf8_strings_Inr: "mapr (\<lambda>p. require_utf8_string p f) ps = Inr qs \<longleftrightarrow> list_all encodable ps \<and> qs = ps"
  by (induction ps arbitrary: qs) (auto simp: result_simps)

lemma PluginLoadSpec_Inr [result_simps]:
  "PluginLoadSpec a b c g = Inr s \<longleftrightarrow> valid_load s \<and> a = PStr (entry_point s) \<and> as_seq b = Some (map PStr (permissions s))
     \<and> c = PStr (api_version s) \<and> g = PInt (generation s)"
  unfolding PluginLoadSpec_def bindr_Inr_iff strings_Inr utf8_strings_Inr need_Inr utf8_field_Inr require_positive_Inr
  by (cases s) (auto simp: valid_load_def)

lemma PluginWorkerHello_Inr [result_simps]:
  "PluginWorkerHello w n = Inr h \<longleftrightarrow> plugin_identifier (hello_worker h) \<and> positive (hello_pid h)
     \<and> w = PStr (hello_worker h) \<and> n = PInt (hello_pid h)"
  unfolding PluginWorkerHello_def by (cases h) (auto simp: result_simps)

text \<open>The payload a lifecycle request keeps.\<close>

definition valid_payload :: "lifecycle_action \<Rightarrow> pyval \<Rightarrow> bool" where
  "valid_payload a v \<longleftrightarrow> (if a = LoadPlugin then \<exists>s. valid_load s \<and> v = freeze (load_to_dict s) else v = PDict [])"

lemma load_reads:
  assumes "distinct (map fst d)" "fst ` set d = set (map (\<lambda>k. PStr (u k)) load_fields)"
    and "item_of d ''entry_point'' = PStr (entry_point s)" "as_seq (item_of d ''permissions'') = Some (map PStr (permissions s))"
    and "item_of d ''api_version'' = PStr (api_version s)" "item_of d ''generation'' = PInt (generation s)" "valid_load s"
  shows "load_from_dict (PDict d) = Inr s"
  using assms by (simp add: load_from_dict_def result_simps)

lemma PluginLifecycleRequest_Inr [result_simps]:
  "PluginLifecycleRequest r p (Some a) (PDict d) = Inr m \<longleftrightarrow> plugin_identifier (lr_request m) \<and> plugin_identifier (lr_plugin m)
     \<and> r = PStr (lr_request m) \<and> p = PStr (lr_plugin m) \<and> lr_action m = a
     \<and> (\<exists>v. lifecycle_payload a d = Inr v \<and> lr_payload m = freeze v)"
  unfolding PluginLifecycleRequest_def by (cases m) (auto simp: result_simps need_Inr)

lemma lifecycle_payload_valid: "lifecycle_payload a d = Inr v \<Longrightarrow> valid_payload a (freeze v)"
  by (auto simp: lifecycle_payload_def valid_payload_def load_from_dict_def result_simps split: if_splits)

lemma PluginBrokerRequest_Inr [result_simps]:
  "PluginBrokerRequest r c p k v = Inr m \<longleftrightarrow> plugin_identifier (br_request m) \<and> plugin_identifier (br_call m)
     \<and> plugin_identifier (br_plugin m) \<and> plugin_identifier (br_capability m) \<and> r = PStr (br_request m)
     \<and> c = PStr (br_call m) \<and> p = PStr (br_plugin m) \<and> k = PStr (br_capability m) \<and> plugin_json v 0 = Inr ()
     \<and> br_arguments m = freeze v"
  unfolding PluginBrokerRequest_def by (cases m) (auto simp: result_simps)

definition result_error_ok :: "bool \<Rightarrow> pystr \<Rightarrow> bool" where
  "result_error_ok b t \<longleftrightarrow> (if b then t = [] else error_code t)"

lemma PluginBrokerResult_Inr [result_simps]:
  "PluginBrokerResult r c p b v t = Inr m \<longleftrightarrow> plugin_identifier (bs_request m) \<and> plugin_identifier (bs_call m)
     \<and> plugin_identifier (bs_plugin m) \<and> result_error_ok (bs_allowed m) (bs_error m) \<and> r = PStr (bs_request m)
     \<and> c = PStr (bs_call m) \<and> p = PStr (bs_plugin m) \<and> b = PBool (bs_allowed m) \<and> plugin_json v 0 = Inr ()
     \<and> bs_result m = freeze v \<and> t = PStr (bs_error m)"
  unfolding PluginBrokerResult_def by (cases m) (auto simp: result_simps need_Inr result_error_ok_def)

lemma PluginLifecycleResult_Inr [result_simps]:
  "PluginLifecycleResult e r p b st err audit = Inr m \<longleftrightarrow> plugin_identifier (ls_request m) \<and> plugin_identifier (ls_plugin m)
     \<and> ls_status m \<in> set LIFECYCLE_STATUSES \<and> r = PStr (ls_request m) \<and> p = PStr (ls_plugin m)
     \<and> b = PBool (ls_success m) \<and> st = PStr (ls_status m)
     \<and> (\<exists>t. err = PStr t \<and> encodable t \<and> ls_error m = redact_error_text e t)
     \<and> (\<exists>xs. as_seq audit = Some xs \<and> length xs \<le> 100 \<and> ls_audit m = map freeze xs) \<and> plugin_json audit 0 = Inr ()"
proof -
  have "encodable s" if "s \<in> set LIFECYCLE_STATUSES" for s
    using that by (auto simp: LIFECYCLE_STATUSES_def u_def is_surrogate_def)
  then show ?thesis unfolding PluginLifecycleResult_def
    by (cases m) (auto simp: result_simps need_Inr redact_protocol_error_def)
qed

section \<open>Reading a message back\<close>

definition valid_hello :: "hello \<Rightarrow> bool" where
  "valid_hello h \<longleftrightarrow> plugin_identifier (hello_worker h) \<and> positive (hello_pid h)"

lemma hello_sorted:
  assumes "valid_hello h" shows "hello_from_dict (json_norm (hello_to_dict h)) = Inr h"
proof -
  obtain d' where d': "json_norm (hello_to_dict h) = PDict d'" unfolding hello_to_dict_def by (rule norm_is_dict)
  note items = sorted_items [OF d' [unfolded hello_to_dict_def]]
  show ?thesis unfolding d' using assms
    by (simp add: hello_from_dict_def result_simps items valid_hello_def)
qed

text \<open>The payload of a load request, sorted and read, is the same specification.\<close>

lemma load_sorted:
  assumes "valid_load s" and "json_norm (load_to_dict s) = PDict d'"
  shows "load_from_dict (PDict d') = Inr s"
proof -
  note items = sorted_items [OF assms(2) [unfolded load_to_dict_def]]
  show ?thesis using assms(1)
    by (simp add: load_from_dict_def result_simps items load_fields_def comp_def)
qed

lemma thaw_load: "thaw (freeze (load_to_dict s)) = load_to_dict s"
  by (simp add: load_to_dict_def comp_def)

lemma payload_sorted:
  assumes "valid_payload a v"
  obtains d' w where "json_norm (thaw v) = PDict d'" "lifecycle_payload a d' = Inr w" "freeze w = v"
proof (cases "a = LoadPlugin")
  case True
  with assms obtain s where s: "valid_load s" "v = freeze (load_to_dict s)" by (auto simp: valid_payload_def)
  obtain d' where d': "json_norm (load_to_dict s) = PDict d'" unfolding load_to_dict_def by (rule norm_is_dict)
  from load_sorted [OF s(1) d'] True s(2) d' show ?thesis
    by (intro that [of d' "load_to_dict s"]) (simp_all add: thaw_load lifecycle_payload_def)
next
  case False
  with assms show ?thesis by (intro that [of "[]" "PDict []"]) (simp_all add: valid_payload_def lifecycle_payload_def ensure_def)
qed

definition valid_lifecycle_request :: "lifecycle_request \<Rightarrow> bool" where
  "valid_lifecycle_request m \<longleftrightarrow> plugin_identifier (lr_request m) \<and> plugin_identifier (lr_plugin m)
     \<and> valid_payload (lr_action m) (lr_payload m)"

lemma enum_action: "enum_of action_value lifecycle_actions (PStr (u (action_value a))) = Some a"
  by (cases a) (simp_all add: enum_of_def lifecycle_actions_def action_value_def)

lemma lifecycle_request_sorted:
  assumes "valid_lifecycle_request m"
  shows "lifecycle_request_from_dict (json_norm (lifecycle_request_to_dict m)) = Inr m"
proof -
  obtain d' where d': "json_norm (lifecycle_request_to_dict m) = PDict d'"
    unfolding lifecycle_request_to_dict_def by (rule norm_is_dict)
  note items = sorted_items [OF d' [unfolded lifecycle_request_to_dict_def]]
  from assms obtain p w where p: "json_norm (thaw (lr_payload m)) = PDict p" "lifecycle_payload (lr_action m) p = Inr w"
    "freeze w = lr_payload m" unfolding valid_lifecycle_request_def by (elim conjE payload_sorted)
  show ?thesis unfolding d' using assms p
    by (simp add: lifecycle_request_from_dict_def result_simps items valid_lifecycle_request_def enum_action need_Inr)
qed

definition valid_broker_request :: "broker_request \<Rightarrow> bool" where
  "valid_broker_request m \<longleftrightarrow> plugin_identifier (br_request m) \<and> plugin_identifier (br_call m)
     \<and> plugin_identifier (br_plugin m) \<and> plugin_identifier (br_capability m) \<and> plugin_json (br_arguments m) 0 = Inr ()"

lemma broker_request_sorted:
  assumes "valid_broker_request m"
  shows "broker_request_from_dict (json_norm (broker_request_to_dict m)) =
    Inr (m\<lparr>br_arguments := sorted_value (br_arguments m)\<rparr>)"
proof -
  obtain d' where d': "json_norm (broker_request_to_dict m) = PDict d'"
    unfolding broker_request_to_dict_def by (rule norm_is_dict)
  note items = sorted_items [OF d' [unfolded broker_request_to_dict_def]]
  show ?thesis unfolding d' using assms
    by (simp add: broker_request_from_dict_def result_simps items valid_broker_request_def plugin_json_same sorted_value_def)
qed

definition valid_broker_result :: "broker_result \<Rightarrow> bool" where
  "valid_broker_result m \<longleftrightarrow> plugin_identifier (bs_request m) \<and> plugin_identifier (bs_call m)
     \<and> plugin_identifier (bs_plugin m) \<and> result_error_ok (bs_allowed m) (bs_error m) \<and> plugin_json (bs_result m) 0 = Inr ()"

lemma broker_result_sorted:
  assumes "valid_broker_result m"
  shows "broker_result_from_dict (json_norm (broker_result_to_dict m)) =
    Inr (m\<lparr>bs_result := sorted_value (bs_result m)\<rparr>)"
proof -
  obtain d' where d': "json_norm (broker_result_to_dict m) = PDict d'"
    unfolding broker_result_to_dict_def by (rule norm_is_dict)
  note items = sorted_items [OF d' [unfolded broker_result_to_dict_def]]
  show ?thesis unfolding d' using assms
    by (simp add: broker_result_from_dict_def result_simps items valid_broker_result_def plugin_json_same sorted_value_def)
qed

definition valid_lifecycle_result :: "redactor \<Rightarrow> lifecycle_result \<Rightarrow> bool" where
  "valid_lifecycle_result e m \<longleftrightarrow> plugin_identifier (ls_request m) \<and> plugin_identifier (ls_plugin m)
     \<and> ls_status m \<in> set LIFECYCLE_STATUSES \<and> encodable (ls_error m) \<and> redact_error_text e (ls_error m) = ls_error m
     \<and> length (ls_audit m) \<le> 100 \<and> plugin_json (PTuple (ls_audit m)) 0 = Inr ()"

lemma lifecycle_result_sorted:
  assumes "valid_lifecycle_result e m"
  shows "lifecycle_result_from_dict e (json_norm (lifecycle_result_to_dict m)) =
    Inr (m\<lparr>ls_audit := map sorted_value (ls_audit m)\<rparr>)"
proof -
  obtain d' where d': "json_norm (lifecycle_result_to_dict m) = PDict d'"
    unfolding lifecycle_result_to_dict_def by (rule norm_is_dict)
  note items = sorted_items [OF d' [unfolded lifecycle_result_to_dict_def]]
  have "plugin_json (json_norm (thaw (PTuple (ls_audit m)))) 0 = Inr ()"
    using assms by (simp only: valid_lifecycle_result_def plugin_json_same)
  then have "plugin_json (PList (map (json_norm \<circ> thaw) (ls_audit m))) 0 = Inr ()"
    by (simp only: thaw.simps json_norm.simps list.map_comp)
  then show ?thesis unfolding d' using assms
    by (simp add: lifecycle_result_from_dict_def result_simps items valid_lifecycle_result_def sorted_value_def [abs_def]
        comp_def del: plugin_json.simps)
qed

definition valid_message :: "redactor \<Rightarrow> protocol_message \<Rightarrow> bool" where
  "valid_message e m = (case m of
       Hello h \<Rightarrow> valid_hello h
     | LifecycleRequest r \<Rightarrow> valid_lifecycle_request r
     | BrokerRequest r \<Rightarrow> valid_broker_request r
     | BrokerResult r \<Rightarrow> valid_broker_result r
     | LifecycleResult r \<Rightarrow> valid_lifecycle_result e r)"

text \<open>The message with the keys of the values it carries in order, which Python takes for equal.\<close>

fun sorted_message :: "protocol_message \<Rightarrow> protocol_message" where
  "sorted_message (BrokerRequest r) = BrokerRequest (r\<lparr>br_arguments := sorted_value (br_arguments r)\<rparr>)"
| "sorted_message (BrokerResult r) = BrokerResult (r\<lparr>bs_result := sorted_value (bs_result r)\<rparr>)"
| "sorted_message (LifecycleResult r) = LifecycleResult (r\<lparr>ls_audit := map sorted_value (ls_audit r)\<rparr>)"
| "sorted_message m = m"

lemma message_is_dict: obtains d where "message_to_dict m = PDict d" "distinct (map fst d)"
  by (cases m) (simp_all add: hello_to_dict_def lifecycle_request_to_dict_def broker_request_to_dict_def
      broker_result_to_dict_def lifecycle_result_to_dict_def)

lemma decode_sorted:
  assumes "valid_message e m" and "json_norm (message_to_dict m) = PDict d'"
  shows "decode_by_kind e d' = Inr (sorted_message m)"
proof (cases m)
  case (Hello h)
  note items = sorted_items [OF assms(2) [unfolded Hello message_to_dict.simps hello_to_dict_def]]
  show ?thesis using hello_sorted [of h] assms by (simp add: Hello decode_by_kind_def items valid_message_def)
next
  case (LifecycleRequest r)
  note items = sorted_items [OF assms(2) [unfolded LifecycleRequest message_to_dict.simps lifecycle_request_to_dict_def]]
  show ?thesis using lifecycle_request_sorted [of r] assms
    by (simp add: LifecycleRequest decode_by_kind_def items valid_message_def)
next
  case (BrokerRequest r)
  note items = sorted_items [OF assms(2) [unfolded BrokerRequest message_to_dict.simps broker_request_to_dict_def]]
  show ?thesis using broker_request_sorted [of r] assms
    by (simp add: BrokerRequest decode_by_kind_def items valid_message_def)
next
  case (BrokerResult r)
  note items = sorted_items [OF assms(2) [unfolded BrokerResult message_to_dict.simps broker_result_to_dict_def]]
  show ?thesis using broker_result_sorted [of r] assms
    by (simp add: BrokerResult decode_by_kind_def items valid_message_def)
next
  case (LifecycleResult r)
  note items = sorted_items [OF assms(2) [unfolded LifecycleResult message_to_dict.simps lifecycle_result_to_dict_def]]
  show ?thesis using lifecycle_result_sorted [of e r] assms
    by (simp add: LifecycleResult decode_by_kind_def items valid_message_def)
qed

lemma sorted_text: "json_dumps (message_to_dict (sorted_message m)) = json_dumps (message_to_dict m)"
proof (cases m)
  case (LifecycleResult r)
  have "json_dumps (thaw (PTuple (map sorted_value (ls_audit r)))) = json_dumps (thaw (PTuple (ls_audit r)))"
    unfolding dumps_thaw by (simp add: sorted_value_text comp_def)
  then show ?thesis unfolding LifecycleResult sorted_message.simps message_to_dict.simps lifecycle_result_to_dict_def dumps_dict
    by (simp del: thaw.simps json_dumps.simps)
qed (simp_all add: broker_request_to_dict_def broker_result_to_dict_def dumps_dict sorted_value_text dumps_thaw)

lemma sorted_fits: "plugin_json (message_to_dict (sorted_message m)) 0 = Inr () \<longleftrightarrow> plugin_json (message_to_dict m) 0 = Inr ()"
proof (cases m)
  case (LifecycleResult r)
  have "plugin_json (thaw (PTuple (map sorted_value (ls_audit r)))) n = Inr () \<longleftrightarrow> plugin_json (thaw (PTuple (ls_audit r))) n = Inr ()" for n
    unfolding plugin_json_thaw plugin_json_seq by (simp add: sorted_value_def plugin_json_same)
  then show ?thesis unfolding LifecycleResult sorted_message.simps message_to_dict.simps lifecycle_result_to_dict_def plugin_json_dict
    by (simp del: thaw.simps plugin_json.simps)
qed (simp_all add: broker_request_to_dict_def broker_result_to_dict_def plugin_json_dict sorted_value_json del: plugin_json.simps(6))

lemma encode_Inr: "encode_message m = Inr line \<longleftrightarrow> plugin_json (message_to_dict m) 0 = Inr ()
    \<and> encodable (json_dumps (message_to_dict m)) \<and> line = json_dumps (message_to_dict m) @ [10]
    \<and> usize line \<le> MAX_PLUGIN_WORKER_LINE_BYTES"
  by (auto simp: encode_message_def plugin_bytes_def result_simps dumps_thaw)

lemma encode_sorted: "encode_message (sorted_message m) = Inr line \<longleftrightarrow> encode_message m = Inr line"
  unfolding encode_Inr sorted_text sorted_fits ..

lemma framed_line: "\<forall>c\<in>set t. 32 \<le> c \<Longrightarrow> framed (t @ [10])"
  by (auto simp: framed_def)

lemma decoded_line:
  assumes "valid_message e m" and "encode_message m = Inr line" and "loadable flt (message_to_dict m)"
  shows "decode_message flt e line = Inr (sorted_message m)"
proof -
  let ?t = "json_dumps (message_to_dict m)"
  from assms(2) have line: "line = ?t @ [10]" "encodable ?t" "usize line \<le> MAX_PLUGIN_WORKER_LINE_BYTES"
    unfolding encode_Inr by blast+
  obtain d where "message_to_dict m = PDict d" by (rule message_is_dict)
  then obtain d' where d': "json_norm (message_to_dict m) = PDict d'" by (metis norm_is_dict)
  have "framed line"
    unfolding line(1) using dumps_printable [OF loadable_printable [OF assms(3)]] by (intro framed_line) blast
  moreover have "loads flt unique_hook ?t = Some (PDict d')"
    using loads_dumps(1) [OF hooks_keep(2) assms(3)] by (simp only: d')
  moreover have "encode_message (sorted_message m) = Inr line" using assms(2) by (simp only: encode_sorted)
  ultimately show ?thesis
    using line(2,3) decode_sorted [OF assms(1) d']
    by (simp add: decode_message_def line(1) result_simps need_Inr)
qed

lemma decode_by_kind_Inr:
  assumes "decode_by_kind e d = Inr m"
  shows "case m of
      Hello h \<Rightarrow> hello_from_dict (PDict d) = Inr h
    | LifecycleRequest r \<Rightarrow> lifecycle_request_from_dict (PDict d) = Inr r
    | BrokerRequest r \<Rightarrow> broker_request_from_dict (PDict d) = Inr r
    | BrokerResult r \<Rightarrow> broker_result_from_dict (PDict d) = Inr r
    | LifecycleResult r \<Rightarrow> lifecycle_result_from_dict e (PDict d) = Inr r"
  using assms unfolding decode_by_kind_def
  by (auto simp: result_simps split: option.splits pyval.splits if_splits)

text \<open>A message decoded from its own dictionary is valid; its diagnostic was redacted before it was sent.\<close>

lemma decoded_valid:
  assumes dec: "decode_by_kind e d = Inr m" and own: "json_norm (message_to_dict m) = PDict d"
  shows "valid_message e m"
proof (cases m)
  case (Hello h)
  with decode_by_kind_Inr [OF dec] show ?thesis
    by (auto simp: valid_message_def valid_hello_def hello_from_dict_def result_simps)
next
  case (LifecycleRequest r)
  with decode_by_kind_Inr [OF dec] obtain i a v p where "PluginLifecycleRequest i v (Some a) p = Inr r"
    by (auto simp: lifecycle_request_from_dict_def bindr_Inr_iff)
  moreover from this obtain q where "p = PDict q" by (auto simp: PluginLifecycleRequest_def result_simps need_Inr)
  ultimately show ?thesis
    by (auto simp: LifecycleRequest valid_message_def valid_lifecycle_request_def result_simps intro: lifecycle_payload_valid)
next
  case (BrokerRequest r)
  with decode_by_kind_Inr [OF dec] show ?thesis
    by (auto simp: valid_message_def valid_broker_request_def broker_request_from_dict_def result_simps plugin_json_same)
next
  case (BrokerResult r)
  with decode_by_kind_Inr [OF dec] show ?thesis
    by (auto simp: valid_message_def valid_broker_result_def broker_result_from_dict_def result_simps plugin_json_same)
next
  case (LifecycleResult r)
  note items = sorted_items [OF own [unfolded LifecycleResult message_to_dict.simps lifecycle_result_to_dict_def]]
  have err: "item_of d ''error'' = PStr (ls_error r)" by (simp add: items)
  from decode_by_kind_Inr [OF dec] have
    "PluginLifecycleResult e (item_of d ''request_id'') (item_of d ''plugin_id'') (item_of d ''success'')
       (item_of d ''status'') (item_of d ''error'') (item_of d ''audit'') = Inr r"
    by (auto simp: LifecycleResult lifecycle_result_from_dict_def bindr_Inr_iff plugin_mapping_Inr)
  from this [unfolded err PluginLifecycleResult_Inr] obtain xs where xs: "as_seq (item_of d ''audit'') = Some xs"
    "length xs \<le> 100" "ls_audit r = map freeze xs" "plugin_json (item_of d ''audit'') 0 = Inr ()"
    and rest: "plugin_identifier (ls_request r)" "plugin_identifier (ls_plugin r)" "ls_status r \<in> set LIFECYCLE_STATUSES"
      "encodable (ls_error r)" "ls_error r = redact_error_text e (ls_error r)" by auto
  from xs(1,4) have "plugin_json (PTuple xs) 0 = Inr ()"
    by (cases "item_of d ''audit''") (auto simp only: as_seq.simps plugin_json_seq)
  then have "plugin_json (PTuple (map freeze xs)) 0 = Inr ()"
    unfolding plugin_json_seq by (simp add: plugin_json_same)
  with rest xs(2,3) show ?thesis
    by (simp add: LifecycleResult valid_message_def valid_lifecycle_result_def del: plugin_json.simps)
qed

section \<open>Properties\<close>

text \<open>
  C8: a valid message survives the pipe: the line it is encoded to is decoded to the same message, with the keys
  of the values it carries in order, whatever its kind. The doubles it carries must be those their
  text reads as.
\<close>

theorem plugin_message_roundtrip:
  assumes "valid_message e m" and "encode_message m = Inr line" and "loadable flt (message_to_dict m)"
  shows "decode_message flt e line = Inr (sorted_message m)"
  by (rule decoded_line [OF assms])

text \<open>
  C9: what the decoder lets in is exactly what the encoder writes: a line is decoded to a message if and only if the
  message is valid, with bounded identifiers and numbers, values nested at most 256 deep and its
  diagnostic already redacted, the values it carries have their keys in order, and the line is
  its encoding. So two lines never stand for the same message.
\<close>

theorem decoder_exact:
  assumes "loadable flt (message_to_dict m)"
  shows "decode_message flt e line = Inr m \<longleftrightarrow>
    valid_message e m \<and> sorted_message m = m \<and> encode_message m = Inr line"
proof
  assume m: "valid_message e m \<and> sorted_message m = m \<and> encode_message m = Inr line"
  then show "decode_message flt e line = Inr m" using decoded_line [OF _ _ assms] by metis
next
  assume dec: "decode_message flt e line = Inr m"
  then obtain d where d: "loads flt unique_hook (butlast line) = Some (PDict d)" "decode_by_kind e d = Inr m"
    and enc: "encode_message m = Inr line"
    by (auto simp: decode_message_def result_simps need_Inr)
  from enc have "butlast line = json_dumps (message_to_dict m)" unfolding encode_Inr by simp
  with d(1) loads_dumps(1) [OF hooks_keep(2) assms] have "json_norm (message_to_dict m) = PDict d" by simp
  from decoded_valid [OF d(2) this] have valid: "valid_message e m" .
  with decoded_line [OF valid enc assms] dec enc
  show "valid_message e m \<and> sorted_message m = m \<and> encode_message m = Inr line" by simp
qed

text \<open>
  C14: a malformed line can break the reader: an object whose kind is an array or an object is looked up in a
  dictionary before it is validated, which raises Python's own error for unhashable keys and not
  the protocol error that both ends of the pipe handle.
\<close>

theorem unhashable_kind_escapes:
  assumes "framed line" and "usize line \<le> MAX_PLUGIN_WORKER_LINE_BYTES" and "encodable (butlast line)"
    and "loads flt unique_hook (butlast line) = Some (PDict d)"
    and "field d ''kind'' = Some (PList xs) \<or> field d ''kind'' = Some (PDict ms)"
  shows "decode_message flt e line = Inl UnhashableKind"
proof -
  have "decode_by_kind e d = Inl UnhashableKind" using assms(5) by (elim disjE) (simp_all add: decode_by_kind_def)
  with assms(1-4) show ?thesis by (simp add: decode_message_def ensure_def need_def)
qed

section \<open>Concrete messages\<close>

definition demo_call :: protocol_message where
  "demo_call = BrokerRequest \<lparr>br_request = u ''r1'', br_call = u ''c1'', br_plugin = u ''notes'', br_capability = u ''fs.read'',
     br_arguments = PDict [(PStr (u ''path''), PStr (u ''a.txt'')), (PStr (u ''lines''), PTuple [PInt 1, PInt (-2)])]\<rparr>"

definition demo_line :: pystr where
  "demo_line = json_dumps (message_to_dict demo_call) @ [10]"

lemma small_bounded: "\<bar>i\<bar> < 10 \<Longrightarrow> within_digits i"
proof -
  assume "\<bar>i\<bar> < 10"
  moreover have "(10 :: int) \<le> 10 ^ MAX_PLUGIN_WORKER_INTEGER_DIGITS"
    by (rule self_le_power) (simp_all add: MAX_PLUGIN_WORKER_INTEGER_DIGITS_def)
  ultimately show ?thesis unfolding within_digits_def by linarith
qed

lemma demo_call_valid: "valid_message demo_redactor demo_call"
  by (simp add: demo_call_def valid_message_def valid_broker_request_def plugin_identifier_def u_def ascii_alnum_def
      plugin_json_parts at_depth_Inr small_bounded require_bounded_integer_def ensure_def
      MAX_PLUGIN_WORKER_JSON_DEPTH_def require_utf8_string_def is_surrogate_def
      del: plugin_json.simps(6-8))

lemma demo_call_encodes: "encode_message demo_call = Inr demo_line"
proof -
  have "plugin_json (PDict [(PStr (u ''path''), PStr (u ''a.txt'')), (PStr (u ''lines''), PTuple [PInt 1, PInt (-2)])]) 1 = Inr ()"
    by (simp add: plugin_json_parts at_depth_Inr small_bounded require_bounded_integer_def ensure_def
      MAX_PLUGIN_WORKER_JSON_DEPTH_def require_utf8_string_def
      del: plugin_json.simps(6-8))
  then have "plugin_json (message_to_dict demo_call) 0 = Inr ()"
    by (simp add: demo_call_def broker_request_to_dict_def PLUGIN_WORKER_PROTOCOL_VERSION_def plugin_json_dict plugin_json_thaw
      at_depth_Inr small_bounded require_bounded_integer_def ensure_def require_utf8_string_def
      MAX_PLUGIN_WORKER_JSON_DEPTH_def del: plugin_json.simps(6-8) thaw.simps)
  moreover have "encodable demo_line" "usize demo_line \<le> MAX_PLUGIN_WORKER_LINE_BYTES" by code_simp+
  ultimately show ?thesis unfolding encode_Inr demo_line_def by simp
qed

lemma demo_call_loadable: "loadable demo_float (message_to_dict demo_call)"
  by code_simp

lemma plugin_message_roundtrip_witness:
  "decode_message demo_float demo_redactor demo_line = Inr (sorted_message demo_call)"
  by (rule plugin_message_roundtrip [OF demo_call_valid demo_call_encodes demo_call_loadable])

lemma decoder_exact_witness:
  "decode_message demo_float demo_redactor demo_line \<noteq> Inr demo_call"
proof -
  have "sorted_message demo_call \<noteq> demo_call" by code_simp
  with decoder_exact [OF demo_call_loadable] show ?thesis by blast
qed

lemma unhashable_kind_escapes_witness:
  "decode_message demo_float demo_redactor (u ''{\"kind\":[]}'' @ [10]) = Inl UnhashableKind"
proof (rule unhashable_kind_escapes)
  show "loads demo_float unique_hook (butlast (u ''{\"kind\":[]}'' @ [10])) = Some (PDict [(PStr (u ''kind''), PList [])])"
    by code_simp
  show "framed (u ''{\"kind\":[]}'' @ [10])" "usize (u ''{\"kind\":[]}'' @ [10]) \<le> MAX_PLUGIN_WORKER_LINE_BYTES"
    "encodable (butlast (u ''{\"kind\":[]}'' @ [10]))" by code_simp+
qed simp

end
