(* ===== verification/Plugin_Broker.thy ===== *)
theory Plugin_Broker
  imports Plugin_Worker_Protocol Event_Bus
begin

text \<open>
  The broker through which plugin workers reach the host, \<open>src/core/kernel/plugin_broker.py\<close>: grants,
  handlers and generations of the broker, its bounded audit log, and the sessions with their budgets
  and their outbox of events.

  A call takes the lock of the session twice, before and after its handler runs, so it is two
  steps, \<open>admit\<close> and \<open>settle\<close>, and calls, commits and aborts of a session may interleave between them. What
  the host's own services answer (statistics, model, network, files) is an argument. The audit entry of a
  decision belongs to the step that takes it.
\<close>

section \<open>The broker\<close>

definition MAX_BROKER_CALLS :: nat where
  "MAX_BROKER_CALLS = 32"

definition MAX_BROKER_EXCHANGE_BYTES :: nat where
  "MAX_BROKER_EXCHANGE_BYTES = 65536"

definition MAX_PLUGIN_EVENT_PAYLOAD_BYTES :: nat where
  "MAX_PLUGIN_EVENT_PAYLOAD_BYTES = 16384"

definition MAX_PLUGIN_CONFIG_BYTES :: nat where
  "MAX_PLUGIN_CONFIG_BYTES = 65536"

definition MAX_LLM_PROMPT_BYTES :: nat where
  "MAX_LLM_PROMPT_BYTES = 32768"

definition MANIFEST_PERMISSION_BY_CAPABILITY :: "(pystr \<times> pystr) list" where
  "MANIFEST_PERMISSION_BY_CAPABILITY = [
     (u ''event.emit'', u ''event_bus''), (u ''system.stats'', u ''system_monitor''),
     (u ''file.read'', u ''file_read''), (u ''file.list'', u ''file_read''),
     (u ''config.get'', u ''system_config''), (u ''llm.call'', u ''llm_access''), (u ''network.get'', u ''network'')]"

text \<open>The handlers of the broker; the program registers no other callable.\<close>

datatype plugin_handler = EmitHandler | StatsHandler | LlmHandler | NetworkHandler

text \<open>The capabilities served from the directory of the plugin, with their reason for a denial.\<close>

definition ROOTED_CAPABILITY_HANDLERS :: "(pystr \<times> pystr) list" where
  "ROOTED_CAPABILITY_HANDLERS = [(u ''file.read'', u ''file_read_denied''), (u ''file.list'', u ''file_list_denied''),
     (u ''config.get'', u ''config_get_denied'')]"

definition LLM_CALL_DENIED_REASON :: pystr where
  "LLM_CALL_DENIED_REASON = u ''llm_call_denied''"

definition NETWORK_GET_DENIED_REASON :: pystr where
  "NETWORK_GET_DENIED_REASON = u ''network_get_denied''"

definition CONFIG_GET_DENIED_REASON :: pystr where
  "CONFIG_GET_DENIED_REASON = u ''config_get_denied''"

record audit_entry =
  au_request :: pystr
  au_call :: pystr
  au_plugin :: pystr
  au_capability :: pystr
  au_allowed :: bool
  au_reason :: pystr
  au_bytes :: nat

record plugin_broker =
  broker_grants :: "(pystr \<times> pystr list) list"
  handlers :: "(pystr, plugin_handler) pydict"
  rooted_enabled :: "pystr list"
  file_roots :: "pystr list"
  llm_provider :: bool
  network_hosts :: "pystr list"
  audit_limit :: nat
  audit :: "audit_entry list"
  generations :: "(pystr, int) pydict"

datatype plugin_broker_error = BadGrants | BadAuditLimit | BadLifecycle | OldGeneration | NotSupported | BadHosts | BadRoot

text \<open>\<open>_normalize_grants\<close>; an item whose capabilities cannot be iterated is \<open>None\<close>.\<close>

definition normalize_grants :: "(pyval \<times> pyval list option) list \<Rightarrow> plugin_broker_error + (pystr \<times> pystr list) list" where
  "normalize_grants gs = mapr (\<lambda>(p, cs).
     bindr (need (as_str p) BadGrants) (\<lambda>s.
     bindr (ensure (s \<noteq> []) BadGrants) (\<lambda>_.
     bindr (need cs BadGrants) (\<lambda>xs.
     bindr (mapr (\<lambda>c. bindr (need (as_str c) BadGrants) (\<lambda>t. bindr (ensure (t \<noteq> []) BadGrants) (\<lambda>_. Inr t))) xs) (\<lambda>ts.
       Inr (s, ts)))))) gs"

definition PluginBroker :: "(pyval \<times> pyval list option) list option \<Rightarrow> int \<Rightarrow> plugin_broker_error + plugin_broker" where
  "PluginBroker gs limit =
     bindr (ensure (1 \<le> limit) BadAuditLimit) (\<lambda>_.
     bindr (case gs of None \<Rightarrow> Inr [] | Some xs \<Rightarrow> normalize_grants xs) (\<lambda>granted.
       Inr \<lparr>broker_grants = granted, handlers = [], rooted_enabled = [], file_roots = [], llm_provider = False, network_hosts = [],
         audit_limit = nat limit, audit = [], generations = []\<rparr>))"

definition register_handler :: "pystr \<Rightarrow> plugin_handler \<Rightarrow> plugin_broker \<Rightarrow> plugin_broker_error + plugin_broker" where
  "register_handler c h b =
     bindr (ensure (c \<in> fst ` set MANIFEST_PERMISSION_BY_CAPABILITY) NotSupported) (\<lambda>_.
       Inr (b\<lparr>handlers := AList.update c h (handlers b)\<rparr>))"

definition register_event_emit_handler :: "plugin_broker \<Rightarrow> plugin_broker_error + plugin_broker" where
  "register_event_emit_handler = register_handler (u ''event.emit'') EmitHandler"

definition register_system_stats_handler :: "plugin_broker \<Rightarrow> plugin_broker_error + plugin_broker" where
  "register_system_stats_handler = register_handler (u ''system.stats'') StatsHandler"

definition register_llm_call_handler :: "plugin_broker \<Rightarrow> plugin_broker_error + plugin_broker" where
  "register_llm_call_handler b = register_handler (u ''llm.call'') LlmHandler (b\<lparr>llm_provider := True\<rparr>)"

definition network_host :: "pystr \<Rightarrow> bool" where
  "network_host s \<longleftrightarrow> s \<noteq> [] \<and> length s \<le> 253 \<and> ascii_alnum (hd s) \<and> ascii_alnum (last s)
     \<and> list_all (\<lambda>c. ascii_alnum c \<or> c \<in> {46, 95, 58, 45}) s"

text \<open>\<open>None\<close> is a string or a value that cannot be iterated.\<close>

definition register_network_get_handler :: "pyval list option \<Rightarrow> plugin_broker \<Rightarrow> plugin_broker_error + plugin_broker" where
  "register_network_get_handler hosts b =
     bindr (need hosts BadHosts) (\<lambda>xs.
     bindr (mapr (\<lambda>x. bindr (need (as_str x) BadHosts) (\<lambda>h. bindr (ensure (network_host h) BadHosts) (\<lambda>_. Inr h))) xs) (\<lambda>hs.
       register_handler (u ''network.get'') NetworkHandler (b\<lparr>network_hosts := hs\<rparr>)))"

text \<open>\<open>register_file_read_handler\<close>, \<open>register_file_list_handler\<close> and \<open>register_config_get_handler\<close> set a flag each.\<close>

definition register_rooted :: "pystr \<Rightarrow> plugin_broker \<Rightarrow> plugin_broker" where
  "register_rooted c b = b\<lparr>rooted_enabled := c # rooted_enabled b\<rparr>"

definition bind_file_read_root :: "pystr \<Rightarrow> bool \<Rightarrow> plugin_broker \<Rightarrow> plugin_broker_error + plugin_broker" where
  "bind_file_read_root p is_dir b = bindr (ensure (p \<noteq> [] \<and> is_dir) BadRoot) (\<lambda>_. Inr (b\<lparr>file_roots := p # file_roots b\<rparr>))"

definition record_plugin_decision :: "broker_request \<Rightarrow> bool \<Rightarrow> pystr \<Rightarrow> nat \<Rightarrow> plugin_broker \<Rightarrow> plugin_broker" where
  "record_plugin_decision q allowed reason n b = b\<lparr>audit := dq_append (audit_limit b) (audit b)
     \<lparr>au_request = br_request q, au_call = br_call q, au_plugin = br_plugin q, au_capability = br_capability q,
      au_allowed = allowed, au_reason = reason, au_bytes = n\<rparr>\<rparr>"

section \<open>Sessions\<close>

record session =
  ss_plugin :: pystr
  ss_request :: pystr
  ss_declared :: "pystr list"
  ss_generation :: int
  call_ids :: "pystr list"
  call_count :: nat
  exchange_bytes :: nat
  outbox :: "pyval event list"
  aborted :: bool
  committed :: bool

text \<open>
  A deadline is absent or a finite time; an integer beyond the range of a double is refused too. What the
  deadline does is in the answer of the event bus when the session is committed.
\<close>

definition finite_time :: "pyval \<Rightarrow> bool" where
  "finite_time v = (case v of PNone \<Rightarrow> True | PInt i \<Rightarrow> \<bar>i\<bar> < 2 ^ 1024 - 2 ^ 970 | PFloat (Fin _ _) \<Rightarrow> True | _ \<Rightarrow> False)"

definition begin_lifecycle :: "pystr \<Rightarrow> pystr \<Rightarrow> pystr list \<Rightarrow> int \<Rightarrow> pyval \<Rightarrow> plugin_broker
    \<Rightarrow> plugin_broker_error + session \<times> plugin_broker" where
  "begin_lifecycle p r perms g deadline b =
     bindr (ensure (p \<noteq> [] \<and> r \<noteq> [] \<and> 1 \<le> g \<and> finite_time deadline \<and> list_all (\<lambda>x. x \<noteq> []) perms) BadLifecycle) (\<lambda>_.
     bindr (ensure (case map_of (generations b) p of None \<Rightarrow> True | Some a \<Rightarrow> a \<le> g) OldGeneration) (\<lambda>_.
       Inr (\<lparr>ss_plugin = p, ss_request = r, ss_declared = perms, ss_generation = g, call_ids = [], call_count = 0,
              exchange_bytes = 0, outbox = [], aborted = False, committed = False\<rparr>,
            b\<lparr>generations := AList.update p g (generations b)\<rparr>)))"

text \<open>What a call returns, or the exception that leaves it.\<close>

datatype broker_exception = MissingKey | BadResult plugin_error

type_synonym reply = "broker_exception + broker_result"

definition broker_answer :: "broker_request \<Rightarrow> bool \<Rightarrow> pyval \<Rightarrow> pystr \<Rightarrow> reply" where
  "broker_answer q allowed v err = (case PluginBrokerResult (PStr (br_request q)) (PStr (br_call q)) (PStr (br_plugin q))
       (PBool allowed) v (PStr err) of Inl e \<Rightarrow> Inl (BadResult e) | Inr r \<Rightarrow> Inr r)"

definition deny :: "broker_request \<Rightarrow> pystr \<Rightarrow> nat \<Rightarrow> plugin_broker \<Rightarrow> plugin_broker \<times> reply" where
  "deny q err n b = (record_plugin_decision q False err n b, broker_answer q False PNone err)"

text \<open>The size of the arguments and of the request, when both can be encoded.\<close>

definition request_sizes :: "broker_request \<Rightarrow> (nat \<times> nat) option" where
  "request_sizes q = (case (plugin_bytes (br_arguments q), plugin_bytes (broker_request_to_dict q)) of
       (Inr a, Inr d) \<Rightarrow> Some (usize a, usize d) | _ \<Rightarrow> None)"

text \<open>The section under the session's lock before the handler: correlation, replay and budgets.\<close>

definition claim_budget :: "plugin_broker \<Rightarrow> broker_request \<Rightarrow> nat \<Rightarrow> session \<Rightarrow> session \<times> pystr option" where
  "claim_budget b q n s =
     (if br_request q \<noteq> ss_request s then (s, Some (u ''request_mismatch''))
      else if br_plugin q \<noteq> ss_plugin s then (s, Some (u ''plugin_mismatch''))
      else if map_of (generations b) (ss_plugin s) \<noteq> Some (ss_generation s) then (s, Some (u ''generation_mismatch''))
      else if br_call q \<in> set (call_ids s) then (s, Some (u ''duplicate_call_id''))
      else if MAX_BROKER_CALLS \<le> call_count s then (s, Some (u ''call_budget_exceeded''))
      else (let s' = s\<lparr>call_ids := br_call q # call_ids s, call_count := Suc (call_count s)\<rparr> in
        if MAX_BROKER_EXCHANGE_BYTES < exchange_bytes s + n then (s', Some (u ''exchange_budget_exceeded''))
        else (s'\<lparr>exchange_bytes := exchange_bytes s + n\<rparr>, None)))"

text \<open>Who serves a capability: a handler, or a service of the plugin's directory with its reason for a denial.\<close>

datatype plugin_service = Handled plugin_handler | Rooted pystr

definition authorize :: "plugin_broker \<Rightarrow> session \<Rightarrow> broker_request \<Rightarrow> pystr + plugin_service" where
  "authorize b s q =
     bindr (ensure (as_mapping (br_arguments q) \<noteq> None) (u ''invalid_arguments'')) (\<lambda>_.
     bindr (need (map_of MANIFEST_PERMISSION_BY_CAPABILITY (br_capability q)) (u ''capability_not_supported'')) (\<lambda>perm.
     bindr (ensure (perm \<in> set (ss_declared s)) (u ''capability_not_declared'')) (\<lambda>_.
     bindr (ensure (case map_of (broker_grants b) (ss_plugin s) of None \<Rightarrow> False | Some cs \<Rightarrow> br_capability q \<in> set cs)
       (u ''capability_not_granted'')) (\<lambda>_.
     case map_of ROOTED_CAPABILITY_HANDLERS (br_capability q) of
       Some reason \<Rightarrow>
         bindr (ensure (br_capability q \<in> set (rooted_enabled b)) (u ''capability_not_registered'')) (\<lambda>_.
         bindr (ensure (ss_plugin s \<in> set (file_roots b)) reason) (\<lambda>_. Inr (Rooted reason)))
     | None \<Rightarrow> bindr (need (map_of (handlers b) (br_capability q)) (u ''capability_not_registered'')) (\<lambda>h.
         Inr (Handled h))))))"

datatype admission = Refused reply | Admitted plugin_service nat

definition admit :: "broker_request \<Rightarrow> session \<times> plugin_broker \<Rightarrow> (session \<times> plugin_broker) \<times> admission" where
  "admit q = (\<lambda>(s, b). case request_sizes q of
       None \<Rightarrow> (case deny q (u ''invalid_arguments'') 0 b of (b', r) \<Rightarrow> ((s, b'), Refused r))
     | Some (a, d) \<Rightarrow> (case claim_budget b q d s of
           (s', Some err) \<Rightarrow> (case deny q err a b of (b', r) \<Rightarrow> ((s', b'), Refused r))
         | (s', None) \<Rightarrow> (case authorize b s' q of
               Inl err \<Rightarrow> (case deny q err a b of (b', r) \<Rightarrow> ((s', b'), Refused r))
             | Inr h \<Rightarrow> ((s', b), Admitted h a))))"

section \<open>Handlers\<close>

datatype handler_outcome = Returned pyval | DeniedWith pystr | Overflowed | BadProtocol | HandlerFailed

text \<open>
  A service outside the broker: a value, or \<open>PluginCapabilityDenied\<close>, \<open>OverflowError\<close>,
  \<open>PluginWorkerProtocolError\<close>, \<open>OSError\<close> or any other exception. A denial has the reason of the capability.
\<close>

datatype service_answer = Given pyval | Withheld | TooBig | Malformed | Unavailable | Broken

fun outside :: "pystr \<Rightarrow> service_answer \<Rightarrow> handler_outcome" where
  "outside r (Given v) = Returned v"
| "outside r Withheld = DeniedWith r"
| "outside r TooBig = Overflowed"
| "outside r Malformed = BadProtocol"
| "outside r Unavailable = HandlerFailed"
| "outside r Broken = HandlerFailed"

definition plugin_event_type :: "pystr \<Rightarrow> bool" where
  "plugin_event_type t \<longleftrightarrow> take 7 t = u ''plugin.'' \<and> drop 7 t \<noteq> [] \<and> ascii_alnum (hd (drop 7 t)) \<and> length (drop 7 t) \<le> 96
     \<and> list_all (\<lambda>c. ascii_alnum c \<or> c \<in> {46, 95, 58, 45}) (tl (drop 7 t))"

definition emit_plugin_event :: "(pyval \<times> pyval) list \<Rightarrow> handler_outcome" where
  "emit_plugin_event args = (case field args ''event_type'' of
       Some (PStr t) \<Rightarrow>
         if \<not> plugin_event_type t then BadProtocol
         else (case plugin_bytes (get_default args ''payload'' PNone) of
             Inl _ \<Rightarrow> BadProtocol
           | Inr p \<Rightarrow> if MAX_PLUGIN_EVENT_PAYLOAD_BYTES < usize p then Overflowed
               else Returned (PDict [(PStr (u ''published''), PBool True)]))
     | _ \<Rightarrow> BadProtocol)"

definition llm_model :: "pystr \<Rightarrow> bool" where
  "llm_model m \<longleftrightarrow> m \<noteq> [] \<and> ascii_alnum (hd m) \<and> length m \<le> 128
     \<and> list_all (\<lambda>c. ascii_alnum c \<or> c \<in> {46, 95, 58, 43, 45}) (tl m)"

text \<open>A provider that is out of reach is a denial.\<close>

definition llm_call :: "plugin_broker \<Rightarrow> service_answer \<Rightarrow> (pyval \<times> pyval) list \<Rightarrow> handler_outcome" where
  "llm_call b reply args =
     (if fst ` set args \<noteq> {PStr (u ''prompt''), PStr (u ''model'')} then BadProtocol
      else (case (item_of args ''prompt'', item_of args ''model'') of
          (PStr p, PStr m) \<Rightarrow>
            if p \<noteq> [] \<and> encodable p \<and> usize p \<le> MAX_LLM_PROMPT_BYTES \<and> llm_model m \<and> llm_provider b
            then (if reply = Unavailable then DeniedWith LLM_CALL_DENIED_REASON else outside LLM_CALL_DENIED_REASON reply)
            else DeniedWith LLM_CALL_DENIED_REASON
        | _ \<Rightarrow> DeniedWith LLM_CALL_DENIED_REASON))"

text \<open>The validation of the address, the redirects and the transfer are the service's.\<close>

definition network_get :: "plugin_broker \<Rightarrow> service_answer \<Rightarrow> (pyval \<times> pyval) list \<Rightarrow> handler_outcome" where
  "network_get b answer args =
     (if fst ` set args \<noteq> {PStr (u ''url'')} then BadProtocol
      else (case item_of args ''url'' of
          PStr s \<Rightarrow> if s = [] \<or> network_hosts b = [] then DeniedWith NETWORK_GET_DENIED_REASON
            else outside NETWORK_GET_DENIED_REASON answer
        | _ \<Rightarrow> DeniedWith NETWORK_GET_DENIED_REASON))"

text \<open>\<open>file.read\<close> and \<open>file.list\<close> check their argument alike.\<close>

definition file_service :: "pystr \<Rightarrow> service_answer \<Rightarrow> (pyval \<times> pyval) list \<Rightarrow> handler_outcome" where
  "file_service reason answer args =
     (if fst ` set args \<noteq> {PStr (u ''path'')} then BadProtocol
      else (case item_of args ''path'' of
          PStr s \<Rightarrow> if s = [] then BadProtocol else outside reason answer
        | _ \<Rightarrow> BadProtocol))"

text \<open>\<open>config.get\<close>: the file of the plugin is absent, cannot be used, or has a text.\<close>

datatype config_file = NoConfig | BadConfig | ConfigText pystr

definition config_get :: "(pystr \<Rightarrow> pyfloat) \<Rightarrow> config_file \<Rightarrow> (pyval \<times> pyval) list \<Rightarrow> handler_outcome" where
  "config_get flt file args =
     (if \<not> fst ` set args \<subseteq> {PStr (u ''key''), PStr (u ''default'')} then BadProtocol
      else (case field args ''key'' of
          Some (PStr k) \<Rightarrow>
            if \<not> plugin_identifier k then DeniedWith CONFIG_GET_DENIED_REASON
            else (case file of
                NoConfig \<Rightarrow> Returned (get_default args ''default'' PNone)
              | BadConfig \<Rightarrow> DeniedWith CONFIG_GET_DENIED_REASON
              | ConfigText t \<Rightarrow>
                  if MAX_PLUGIN_CONFIG_BYTES < usize t \<or> \<not> encodable t then DeniedWith CONFIG_GET_DENIED_REASON
                  else (case loads flt dict_hook t of
                      Some (PDict d) \<Rightarrow> (case map_of d (PStr k) of
                          Some v \<Rightarrow> Returned v | None \<Rightarrow> Returned (get_default args ''default'' PNone))
                    | _ \<Rightarrow> DeniedWith CONFIG_GET_DENIED_REASON))
        | _ \<Rightarrow> DeniedWith CONFIG_GET_DENIED_REASON))"

text \<open>
  What runs between the two sections; \<open>answer\<close> is that of the services outside the broker. Collecting the
  statistics raises no denial.
\<close>

definition serve :: "(pystr \<Rightarrow> pyfloat) \<Rightarrow> plugin_broker \<Rightarrow> config_file \<Rightarrow> service_answer \<Rightarrow> plugin_service \<Rightarrow> broker_request \<Rightarrow> handler_outcome" where
  "serve flt b file answer sv q = (case as_mapping (br_arguments q) of
       None \<Rightarrow> BadProtocol
     | Some args \<Rightarrow> (case sv of
           Handled EmitHandler \<Rightarrow> emit_plugin_event args
         | Handled StatsHandler \<Rightarrow> if args \<noteq> [] then BadProtocol else outside (u ''handler_failed'') answer
         | Handled LlmHandler \<Rightarrow> llm_call b answer args
         | Handled NetworkHandler \<Rightarrow> network_get b answer args
         | Rooted reason \<Rightarrow> if reason = CONFIG_GET_DENIED_REASON then config_get flt file args
             else file_service reason answer args))"

section \<open>After the handler\<close>

text \<open>
  The event that is staged: its \<open>stamp\<close> is the time and the correlation identifier it is given. The
  handler has checked that the type is a string, so \<open>None\<close> is the \<open>KeyError\<close> of a key that is missing.
\<close>

definition event_of :: "pystr \<times> pystr \<Rightarrow> pystr \<Rightarrow> broker_request \<Rightarrow> pyval event option" where
  "event_of stamp plugin q = (case as_mapping (br_arguments q) of
       None \<Rightarrow> None
     | Some args \<Rightarrow> (case (field args ''event_type'', field args ''payload'') of
           (Some (PStr t), Some p) \<Rightarrow> Some \<lparr>event_type = t, ev_source = u ''plugin:'' @ plugin, ev_data = p,
               timestamp = fst stamp, correlation_id = snd stamp\<rparr>
         | _ \<Rightarrow> None))"

definition refuse :: "broker_request \<Rightarrow> pystr \<Rightarrow> nat \<Rightarrow> session \<Rightarrow> plugin_broker \<Rightarrow> (session \<times> plugin_broker) \<times> reply" where
  "refuse q err a s b = (case deny q err a b of (b', r) \<Rightarrow> ((s, b'), r))"

definition allow :: "broker_request \<Rightarrow> pyval \<Rightarrow> nat \<Rightarrow> session \<Rightarrow> plugin_broker \<Rightarrow> (session \<times> plugin_broker) \<times> reply" where
  "allow q v a s b = ((s, record_plugin_decision q True (u ''allowed'') a b), broker_answer q True v [])"

text \<open>The rest of \<open>handle\<close>, for the outcome of the handler.\<close>

definition settle_result :: "broker_request \<Rightarrow> nat \<Rightarrow> pystr \<times> pystr \<Rightarrow> pyval \<Rightarrow> session \<times> plugin_broker \<Rightarrow> (session \<times> plugin_broker) \<times> reply" where
  "settle_result q a stamp v = (\<lambda>(s, b). case plugin_size v (int MAX_BROKER_EXCHANGE_BYTES) of
       Inl TooLarge \<Rightarrow> refuse q (u ''result_too_large'') a s b
     | Inl _ \<Rightarrow> refuse q (u ''handler_result_invalid'') a s b
     | Inr n \<Rightarrow>
         if aborted s \<or> committed s then refuse q (u ''session_closed'') a s b
         else if MAX_BROKER_EXCHANGE_BYTES < exchange_bytes s + n then refuse q (u ''result_too_large'') a s b
         else (let s' = s\<lparr>exchange_bytes := exchange_bytes s + n\<rparr> in
           if br_capability q = u ''event.emit''
           then (case event_of stamp (ss_plugin s) q of
               None \<Rightarrow> ((s', b), Inl MissingKey)
             | Some ev \<Rightarrow> allow q v a (s'\<lparr>outbox := outbox s @ [ev]\<rparr>) b)
           else allow q v a s' b))"

definition settle :: "broker_request \<Rightarrow> nat \<Rightarrow> pystr \<times> pystr \<Rightarrow> handler_outcome \<Rightarrow> session \<times> plugin_broker \<Rightarrow> (session \<times> plugin_broker) \<times> reply" where
  "settle q a stamp x = (\<lambda>(s, b). case x of
       Returned v \<Rightarrow> settle_result q a stamp v (s, b)
     | DeniedWith r \<Rightarrow> refuse q r a s b
     | Overflowed \<Rightarrow> refuse q (u ''payload_too_large'') a s b
     | BadProtocol \<Rightarrow> refuse q (u ''invalid_arguments'') a s b
     | HandlerFailed \<Rightarrow> refuse q (u ''handler_failed'') a s b)"

text \<open>
  \<open>commit_events\<close> records the outbox on the bus, which takes all events or none; \<open>lock\<close> is what
  happened at its lock, \<open>NoDeadline\<close> for a session without a deadline.
\<close>

definition commit_events :: "lock_attempt \<Rightarrow> session \<times> ('cb, pyval) bus \<Rightarrow> bus_error + bool \<times> session \<times> ('cb, pyval) bus" where
  "commit_events lock = (\<lambda>(s, bus).
     if aborted s \<or> committed s then Inr (False, s, bus)
     else bindr (record_many (map Some (outbox s)) lock bus) (\<lambda>(ok, bus').
       Inr (if ok then (True, s\<lparr>outbox := [], committed := True\<rparr>, bus') else (False, s, bus'))))"

definition abort_session :: "session \<Rightarrow> session" where
  "abort_session s = s\<lparr>outbox := [], aborted := True\<rparr>"

section \<open>A session at work\<close>

text \<open>
  The worker's calls, their handlers, the commit, the abort and newer lifecycles of the plugin
  interleave in any order. \<open>host_calls\<close> are the calls between their two sections.
\<close>

record 'cb host =
  host_session :: session
  host_broker :: plugin_broker
  host_bus :: "('cb, pyval) bus"
  host_calls :: "(broker_request \<times> plugin_service \<times> nat) list"

datatype session_label =
    Arrive pyval pyval pyval pyval pyval
  | Finish nat config_file service_answer "pystr \<times> pystr"
  | Commit lock_attempt
  | Abort
  | Renew pystr "pystr list" int pyval

text \<open>An answered call: the request, the stamp it was given at its second section, and the reply.\<close>

type_synonym answered = "broker_request \<times> (pystr \<times> pystr) \<times> reply"

fun session_step :: "(pystr \<Rightarrow> pyfloat) \<Rightarrow> 'cb host \<Rightarrow> session_label \<Rightarrow> 'cb host \<times> answered list" where
  "session_step flt h (Arrive rid cid pid cap args) = (case PluginBrokerRequest rid cid pid cap args of
       Inl _ \<Rightarrow> (h, [])
     | Inr q \<Rightarrow> (case admit q (host_session h, host_broker h) of
           ((s, b), Refused r) \<Rightarrow> (h\<lparr>host_session := s, host_broker := b\<rparr>, [(q, ([], []), r)])
         | ((s, b), Admitted sv a) \<Rightarrow>
             (h\<lparr>host_session := s, host_broker := b, host_calls := host_calls h @ [(q, sv, a)]\<rparr>, [])))"
| "session_step flt h (Finish i file answer stamp) =
     (if i < length (host_calls h) then
        (case host_calls h ! i of (q, sv, a) \<Rightarrow>
         case settle q a stamp (serve flt (host_broker h) file answer sv q) (host_session h, host_broker h) of
           ((s, b), r) \<Rightarrow> (h\<lparr>host_session := s, host_broker := b,
              host_calls := take i (host_calls h) @ drop (Suc i) (host_calls h)\<rparr>, [(q, stamp, r)]))
      else (h, []))"
| "session_step flt h (Commit lock) = (case commit_events lock (host_session h, host_bus h) of
       Inl _ \<Rightarrow> (h, [])
     | Inr (_, s, bus) \<Rightarrow> (h\<lparr>host_session := s, host_bus := bus\<rparr>, []))"
| "session_step flt h Abort = (h\<lparr>host_session := abort_session (host_session h)\<rparr>, [])"
| "session_step flt h (Renew r perms g deadline) = (case begin_lifecycle (ss_plugin (host_session h)) r perms g deadline (host_broker h) of
       Inl _ \<Rightarrow> (h, [])
     | Inr (_, b) \<Rightarrow> (h\<lparr>host_broker := b\<rparr>, []))"

definition session_trace :: "(pystr \<Rightarrow> pyfloat) \<Rightarrow> 'cb host \<times> answered list \<Rightarrow> session_label \<Rightarrow> 'cb host \<times> answered list" where
  "session_trace flt = (\<lambda>(h, out) l. case session_step flt h l of (h', got) \<Rightarrow> (h', out @ got))"

definition session_run :: "(pystr \<Rightarrow> pyfloat) \<Rightarrow> 'cb host \<Rightarrow> session_label list \<Rightarrow> 'cb host \<times> answered list" where
  "session_run flt h ls = foldl (session_trace flt) (h, []) ls"

section \<open>The session in the abstract\<close>

text \<open>The size of the arguments as the audit log has it, and the replies.\<close>

definition argument_bytes :: "broker_request \<Rightarrow> nat" where
  "argument_bytes q = (case request_sizes q of None \<Rightarrow> 0 | Some (a, d) \<Rightarrow> a)"

definition request_bytes :: "broker_request \<Rightarrow> nat" where
  "request_bytes q = (case request_sizes q of None \<Rightarrow> 0 | Some (a, d) \<Rightarrow> d)"

definition denied :: "broker_request \<Rightarrow> pystr \<Rightarrow> broker_result" where
  "denied q err = \<lparr>bs_request = br_request q, bs_call = br_call q, bs_plugin = br_plugin q, bs_allowed = False,
     bs_result = PNone, bs_error = err\<rparr>"

definition accepted :: "broker_request \<Rightarrow> pyval \<Rightarrow> broker_result" where
  "accepted q v = \<lparr>bs_request = br_request q, bs_call = br_call q, bs_plugin = br_plugin q, bs_allowed = True,
     bs_result = freeze v, bs_error = []\<rparr>"

definition authorized :: "plugin_broker \<Rightarrow> session \<Rightarrow> broker_request \<Rightarrow> bool" where
  "authorized b s q \<longleftrightarrow> br_request q = ss_request s \<and> br_plugin q = ss_plugin s \<and> as_mapping (br_arguments q) \<noteq> None
     \<and> (\<exists>p. map_of MANIFEST_PERMISSION_BY_CAPABILITY (br_capability q) = Some p \<and> p \<in> set (ss_declared s))
     \<and> (\<exists>cs. map_of (broker_grants b) (ss_plugin s) = Some cs \<and> br_capability q \<in> set cs)"

definition service_ok :: "plugin_service \<Rightarrow> bool" where
  "service_ok sv = (case sv of Rooted r \<Rightarrow> error_code r | Handled _ \<Rightarrow> True)"

definition pending_ok :: "plugin_broker \<Rightarrow> session \<Rightarrow> broker_request \<times> plugin_service \<times> nat \<Rightarrow> bool" where
  "pending_ok b s = (\<lambda>(q, sv, a). valid_broker_request q \<and> request_sizes q \<noteq> None \<and> service_ok sv
     \<and> a = argument_bytes q \<and> authorized b s q)"

lemma reasons [simp]:
  "error_code (u ''invalid_arguments'')" "error_code (u ''request_mismatch'')" "error_code (u ''plugin_mismatch'')"
  "error_code (u ''generation_mismatch'')" "error_code (u ''duplicate_call_id'')" "error_code (u ''call_budget_exceeded'')"
  "error_code (u ''exchange_budget_exceeded'')" "error_code (u ''capability_not_supported'')"
  "error_code (u ''capability_not_declared'')" "error_code (u ''capability_not_granted'')"
  "error_code (u ''capability_not_registered'')" "error_code (u ''payload_too_large'')" "error_code (u ''handler_failed'')"
  "error_code (u ''handler_result_invalid'')" "error_code (u ''result_too_large'')" "error_code (u ''session_closed'')"
  "error_code CONFIG_GET_DENIED_REASON" "error_code LLM_CALL_DENIED_REASON" "error_code NETWORK_GET_DENIED_REASON"
  by code_simp+

lemma rooted_reasons: "map_of ROOTED_CAPABILITY_HANDLERS c = Some r \<Longrightarrow> error_code r"
proof -
  have "list_all error_code (map snd ROOTED_CAPABILITY_HANDLERS)" by code_simp
  then show "map_of ROOTED_CAPABILITY_HANDLERS c = Some r \<Longrightarrow> error_code r"
    by (auto simp: list_all_iff dest!: map_of_SomeD)
qed

lemma answer_denied:
  "valid_broker_request q \<Longrightarrow> error_code err \<Longrightarrow> broker_answer q False PNone err = Inr (denied q err)"
  using PluginBrokerResult_Inr [of "PStr (br_request q)" "PStr (br_call q)" "PStr (br_plugin q)" "PBool False" PNone
    "PStr err" "denied q err"]
  by (simp add: broker_answer_def denied_def valid_broker_request_def result_error_ok_def at_depth_Inr)

lemma answer_accepted:
  "valid_broker_request q \<Longrightarrow> plugin_json v 0 = Inr () \<Longrightarrow> broker_answer q True v [] = Inr (accepted q v)"
  using PluginBrokerResult_Inr [of "PStr (br_request q)" "PStr (br_call q)" "PStr (br_plugin q)" "PBool True" v
    "PStr []" "accepted q v"]
  by (simp add: broker_answer_def accepted_def valid_broker_request_def result_error_ok_def)

text \<open>What the two sections do to the session and to the log.\<close>

definition claimed :: "broker_request \<Rightarrow> nat \<Rightarrow> session \<Rightarrow> session \<Rightarrow> bool" where
  "claimed q n s s' \<longleftrightarrow> br_call q \<notin> set (call_ids s) \<and> call_count s < MAX_BROKER_CALLS
     \<and> exchange_bytes s + n \<le> MAX_BROKER_EXCHANGE_BYTES
     \<and> s' = s\<lparr>call_ids := br_call q # call_ids s, call_count := Suc (call_count s), exchange_bytes := exchange_bytes s + n\<rparr>"

definition refused_by :: "broker_request \<Rightarrow> pystr \<Rightarrow> plugin_broker \<Rightarrow> plugin_broker \<Rightarrow> reply \<Rightarrow> bool" where
  "refused_by q err b b' r \<longleftrightarrow> error_code err \<and> b' = record_plugin_decision q False err (argument_bytes q) b \<and> r = Inr (denied q err)"

lemma claim_budget_cases:
  assumes "claim_budget b q n s = (s', e)" and "exchange_bytes s \<le> MAX_BROKER_EXCHANGE_BYTES"
  shows "case e of Some err \<Rightarrow> error_code err \<and> (s' = s \<or> claimed q 0 s s')
    | None \<Rightarrow> claimed q n s s' \<and> br_request q = ss_request s \<and> br_plugin q = ss_plugin s"
  using assms by (auto simp: claim_budget_def claimed_def Let_def split: if_splits)

lemma authorize_cases:
  assumes "authorize b s q = r" and "br_request q = ss_request s" and "br_plugin q = ss_plugin s"
  shows "case r of Inl err \<Rightarrow> error_code err | Inr sv \<Rightarrow> authorized b s q \<and> service_ok sv"
  using assms
  by (auto simp: authorize_def authorized_def service_ok_def ensure_def need_def
      split: sum.splits option.splits if_splits dest: rooted_reasons)

lemma authorized_claimed: "claimed q n s s' \<Longrightarrow> authorized b s' p \<longleftrightarrow> authorized b s p"
  by (simp add: claimed_def authorized_def)

lemma admit_refused:
  assumes "admit q (s, b) = ((s', b'), Refused r)" and "valid_broker_request q" and "exchange_bytes s \<le> MAX_BROKER_EXCHANGE_BYTES"
  shows "(s' = s \<or> claimed q 0 s s' \<or> claimed q (request_bytes q) s s') \<and> (\<exists>err. refused_by q err b b' r)"
proof (cases "request_sizes q")
  case None
  then have "s' = s \<and> refused_by q (u ''invalid_arguments'') b b' r" using assms
    by (simp add: admit_def deny_def refused_by_def argument_bytes_def answer_denied)
  then show ?thesis by blast
next
  case (Some ad)
  obtain a d where ad: "ad = (a, d)" by (cases ad)
  obtain s1 e where claim: "claim_budget b q d s = (s1, e)" by (cases "claim_budget b q d s")
  note cases = claim_budget_cases [OF claim assms(3)]
  have bytes: "argument_bytes q = a" "request_bytes q = d"
    using Some ad by (simp_all add: argument_bytes_def request_bytes_def)
  show ?thesis
  proof (cases e)
    case (Some err)
    with \<open>request_sizes q = Some ad\<close> assms(1,2) ad claim cases bytes show ?thesis
      by (auto simp: admit_def deny_def refused_by_def answer_denied)
  next
    case None
    with assms(1) \<open>request_sizes q = Some ad\<close> ad claim obtain err where auth: "authorize b s1 q = Inl err"
      and out: "s' = s1" "b' = record_plugin_decision q False err a b" "r = broker_answer q False PNone err"
      by (auto simp: admit_def deny_def split: sum.splits)
    from None cases have "claimed q d s s1" "br_request q = ss_request s1" "br_plugin q = ss_plugin s1"
      by (auto simp: claimed_def)
    with authorize_cases [OF auth] out assms(2) bytes show ?thesis
      by (auto simp: refused_by_def answer_denied)
  qed
qed

lemma admit_admitted:
  assumes "admit q (s, b) = ((s', b'), Admitted sv a)" and "valid_broker_request q" and "exchange_bytes s \<le> MAX_BROKER_EXCHANGE_BYTES"
  shows "claimed q (request_bytes q) s s' \<and> b' = b \<and> pending_ok b s (q, sv, a)"
proof (cases "request_sizes q")
  case None
  then show ?thesis using assms(1) by (simp add: admit_def deny_def)
next
  case (Some ad)
  obtain x d where ad: "ad = (x, d)" by (cases ad)
  obtain s1 e where claim: "claim_budget b q d s = (s1, e)" by (cases "claim_budget b q d s")
  note cases = claim_budget_cases [OF claim assms(3)]
  have bytes: "argument_bytes q = x" "request_bytes q = d"
    using Some ad by (simp_all add: argument_bytes_def request_bytes_def)
  from assms(1) Some ad claim have e: "e = None" by (cases e) (simp_all add: admit_def deny_def)
  with assms(1) Some ad claim have auth: "authorize b s1 q = Inr sv" and out: "s' = s1" "b' = b" "a = x"
    by (auto simp: admit_def deny_def split: sum.splits)
  from e cases have cl: "claimed q d s s1" and "br_request q = ss_request s1" "br_plugin q = ss_plugin s1"
    by (auto simp: claimed_def)
  with authorize_cases [OF auth] have "authorized b s q" "service_ok sv" by (simp_all add: authorized_claimed)
  with cl out bytes assms(2) Some show ?thesis by (simp add: pending_ok_def)
qed

text \<open>The second section: a refusal, a staged or plain success, or the escape.\<close>

definition charged :: "nat \<Rightarrow> session \<Rightarrow> session \<Rightarrow> bool" where
  "charged n s s' \<longleftrightarrow> \<not> aborted s \<and> \<not> committed s \<and> exchange_bytes s + n \<le> MAX_BROKER_EXCHANGE_BYTES
     \<and> s' = s\<lparr>exchange_bytes := exchange_bytes s + n\<rparr>"

definition staged :: "pystr \<times> pystr \<Rightarrow> pystr \<Rightarrow> broker_request \<Rightarrow> pyval event list option" where
  "staged stamp p q = (if br_capability q = u ''event.emit'' then map_option (\<lambda>e. [e]) (event_of stamp p q) else Some [])"

lemma refuse_refused:
  "valid_broker_request q \<Longrightarrow> error_code err \<Longrightarrow> refuse q err (argument_bytes q) s b = ((s', b'), r) \<Longrightarrow>
     s' = s \<and> refused_by q err b b' r"
  by (auto simp: refuse_def deny_def refused_by_def answer_denied)

lemma settle_result_cases:
  assumes "settle_result q a stamp v (s, b) = ((s', b'), r)" and "valid_broker_request q" and "a = argument_bytes q"
  obtains (refused) err where "s' = s" "refused_by q err b b' r"
  | (accepted) n evs s1 where "plugin_json v 0 = Inr ()" "n = usize (json_dumps v)" "charged n s s1"
      "staged stamp (ss_plugin s) q = Some evs" "s' = s1\<lparr>outbox := outbox s @ evs\<rparr>"
      "b' = record_plugin_decision q True (u ''allowed'') (argument_bytes q) b" "r = Inr (accepted q v)"
  | (escaped) n where "charged n s s'" "staged stamp (ss_plugin s) q = None" "b' = b" "r = Inl MissingKey"
proof (cases "plugin_size v (int MAX_BROKER_EXCHANGE_BYTES)")
  case (Inl e)
  let ?err = "if e = TooLarge then u ''result_too_large'' else u ''handler_result_invalid''"
  have "refuse q ?err a s b = ((s', b'), r)" using assms(1) Inl by (cases e) (simp_all add: settle_result_def)
  moreover have "error_code ?err" by simp
  ultimately show ?thesis using assms(2,3) refuse_refused refused(1) by blast
next
  case (Inr n)
  from plugin_size_Inr [OF this] have v: "plugin_json v 0 = Inr ()" "n = usize (json_dumps v)" by simp_all
  show ?thesis
  proof (cases "aborted s \<or> committed s \<or> MAX_BROKER_EXCHANGE_BYTES < exchange_bytes s + n")
    case True
    let ?err = "if aborted s \<or> committed s then u ''session_closed'' else u ''result_too_large''"
    have "refuse q ?err a s b = ((s', b'), r)"
      using assms(1) Inr True by (cases "aborted s \<or> committed s") (simp_all add: settle_result_def)
    moreover have "error_code ?err" by simp
    ultimately show ?thesis using assms(2,3) refuse_refused refused(1) by blast
  next
    case False
    let ?s = "s\<lparr>exchange_bytes := exchange_bytes s + n\<rparr>"
    have charge: "charged n s ?s" using False by (simp add: charged_def)
    show ?thesis
    proof (cases "staged stamp (ss_plugin s) q")
      case None
      with False Inr assms(1) have "s' = ?s" "b' = b" "r = Inl MissingKey"
        by (simp_all add: settle_result_def staged_def split: if_splits)
      with charge None show ?thesis by (intro escaped) simp_all
    next
      case (Some evs)
      with False Inr assms(1) have "s' = ?s\<lparr>outbox := outbox s @ evs\<rparr>"
        "b' = record_plugin_decision q True (u ''allowed'') a b" "r = broker_answer q True v []"
        by (auto simp: settle_result_def staged_def allow_def Let_def split: if_splits)
      with charge Some v assms(2,3) show ?thesis by (intro accepted [of n ?s]) (simp_all add: answer_accepted)
    qed
  qed
qed

lemma serve_denies:
  assumes "serve flt b file answer sv q = DeniedWith r" and "service_ok sv" shows "error_code r"
proof -
  have outside: "outside c x = DeniedWith r \<Longrightarrow> error_code c \<Longrightarrow> error_code r" for c x by (cases x) auto
  show ?thesis using assms outside
    by (auto simp: serve_def service_ok_def emit_plugin_event_def llm_call_def network_get_def file_service_def config_get_def
      split: option.splits plugin_service.splits plugin_handler.splits if_splits pyval.splits sum.splits config_file.splits)
qed

section \<open>Invariants of a session\<close>

definition charge :: "answered \<Rightarrow> nat" where
  "charge = (\<lambda>(q, stamp, r). case r of Inl _ \<Rightarrow> 0
     | Inr m \<Rightarrow> if bs_allowed m then request_bytes q + usize (json_dumps (bs_result m)) else 0)"

definition allowed_reply :: "answered \<Rightarrow> bool" where
  "allowed_reply = (\<lambda>(q, stamp, r). case r of Inl _ \<Rightarrow> False | Inr m \<Rightarrow> bs_allowed m)"

definition emitted :: "pystr \<Rightarrow> answered list \<Rightarrow> pyval event list" where
  "emitted p out = concat (map (\<lambda>(q, stamp, r). the (staged stamp p q)) (filter allowed_reply out))"

definition verdict :: "answered \<Rightarrow> audit_entry list" where
  "verdict = (\<lambda>(q, stamp, r). case r of Inl _ \<Rightarrow> []
     | Inr m \<Rightarrow> [\<lparr>au_request = br_request q, au_call = br_call q, au_plugin = br_plugin q, au_capability = br_capability q,
         au_allowed = bs_allowed m, au_reason = (if bs_allowed m then u ''allowed'' else bs_error m),
         au_bytes = argument_bytes q\<rparr>])"

text \<open>Calls are charged before they are answered, each identifier is used once, and the sums are within the budgets.\<close>

definition budget_inv :: "'cb host \<Rightarrow> answered list \<Rightarrow> bool" where
  "budget_inv h out \<longleftrightarrow> (let s = host_session h in
     call_count s = length (call_ids s) \<and> call_count s \<le> MAX_BROKER_CALLS \<and> exchange_bytes s \<le> MAX_BROKER_EXCHANGE_BYTES
     \<and> distinct (map (br_call \<circ> fst) (host_calls h) @ map (br_call \<circ> fst) (filter allowed_reply out))
     \<and> set (map (br_call \<circ> fst) (host_calls h) @ map (br_call \<circ> fst) (filter allowed_reply out)) \<subseteq> set (call_ids s)
     \<and> sum_list (map charge out) + sum_list (map (request_bytes \<circ> fst) (host_calls h)) \<le> exchange_bytes s)"

definition rights_inv :: "plugin_broker \<Rightarrow> session \<Rightarrow> 'cb host \<Rightarrow> answered list \<Rightarrow> bool" where
  "rights_inv b0 s0 h out \<longleftrightarrow> ss_plugin (host_session h) = ss_plugin s0 \<and> ss_request (host_session h) = ss_request s0
     \<and> ss_declared (host_session h) = ss_declared s0 \<and> broker_grants (host_broker h) = broker_grants b0
     \<and> list_all (pending_ok b0 s0) (host_calls h)
     \<and> list_all (\<lambda>(q, stamp, r). case r of
           Inl e \<Rightarrow> e = MissingKey \<and> staged stamp (ss_plugin s0) q = None
         | Inr m \<Rightarrow> valid_broker_result m \<and> (if bs_allowed m then request_sizes q \<noteq> None \<and> authorized b0 s0 q \<and> (\<exists>v. m = accepted q v)
             \<and> staged stamp (ss_plugin s0) q \<noteq> None else \<exists>err. m = denied q err)) out"

definition events_inv :: "('cb, pyval) bus \<Rightarrow> session \<Rightarrow> 'cb host \<Rightarrow> answered list \<Rightarrow> bool" where
  "events_inv bus0 s0 h out \<longleftrightarrow> (let s = host_session h in
     outbox s = (if aborted s \<or> committed s then [] else emitted (ss_plugin s0) out)
     \<and> host_bus h = bus0\<lparr>history := (if committed s then dq_extend (max_history bus0) (history bus0) (emitted (ss_plugin s0) out)
         else history bus0)\<rparr>)"

definition audit_inv :: "plugin_broker \<Rightarrow> 'cb host \<Rightarrow> answered list \<Rightarrow> bool" where
  "audit_inv b0 h out \<longleftrightarrow> audit_limit (host_broker h) = audit_limit b0
     \<and> audit (host_broker h) = dq_extend (audit_limit b0) (audit b0) (concat (map verdict out))"

definition session_inv :: "plugin_broker \<Rightarrow> session \<Rightarrow> ('cb, pyval) bus \<Rightarrow> 'cb host \<times> answered list \<Rightarrow> bool" where
  "session_inv b0 s0 bus0 = (\<lambda>(h, out). budget_inv h out \<and> rights_inv b0 s0 h out \<and> events_inv bus0 s0 h out \<and> audit_inv b0 h out)"

text \<open>What one step does, in the terms of the invariants.\<close>

lemma dq_extend_snoc: "dq_extend n xs (ys @ [y]) = dq_append n (dq_extend n xs ys) y"
  by (simp add: dq_extend_def)

lemma refused_audit:
  assumes "refused_by q err b b' r" and "audit_limit b = n" and "audit b = dq_extend n xs ys"
  shows "audit_limit b' = n \<and> audit b' = dq_extend n xs (ys @ verdict (q, stamp, r)) \<and> broker_grants b' = broker_grants b"
  using assms by (simp add: refused_by_def record_plugin_decision_def verdict_def denied_def dq_extend_snoc)

lemma refused_valid:
  "refused_by q err b b' r \<Longrightarrow> valid_broker_request q \<Longrightarrow> (\<exists>m. r = Inr m \<and> m = denied q err \<and> valid_broker_result m)
     \<and> \<not> allowed_reply (q, stamp, r) \<and> charge (q, stamp, r) = 0"
  by (auto simp: refused_by_def denied_def valid_broker_request_def valid_broker_result_def result_error_ok_def at_depth_Inr
      allowed_reply_def charge_def)

lemma arrive_refused:
  assumes inv: "session_inv b0 s0 bus0 (h, out)" and q: "valid_broker_request q"
    and admit: "admit q (host_session h, host_broker h) = ((s', b'), Refused r)"
  shows "session_inv b0 s0 bus0 (h\<lparr>host_session := s', host_broker := b'\<rparr>, out @ [(q, stamp, r)])"
proof -
  let ?s = "host_session h"
  note parts = inv [unfolded session_inv_def budget_inv_def rights_inv_def events_inv_def audit_inv_def Let_def, simplified]
  from admit_refused [OF admit q] parts obtain err where
    s': "s' = ?s \<or> claimed q 0 ?s s' \<or> claimed q (request_bytes q) ?s s'" and r: "refused_by q err (host_broker h) b' r"
    by blast
  from refused_valid [OF r q, of stamp] obtain m where m: "r = Inr m" "m = denied q err" "valid_broker_result m"
    "\<not> allowed_reply (q, stamp, r)" "charge (q, stamp, r) = 0" by blast
  from refused_audit [OF r, of _ _ _ stamp] parts have log: "audit_limit b' = audit_limit b0"
    "audit b' = dq_extend (audit_limit b0) (audit b0) (concat (map verdict out) @ verdict (q, stamp, r))"
    "broker_grants b' = broker_grants b0" by auto
  have same: "ss_plugin s' = ss_plugin ?s" "ss_request s' = ss_request ?s" "ss_declared s' = ss_declared ?s"
    "outbox s' = outbox ?s" "aborted s' = aborted ?s" "committed s' = committed ?s"
    "set (call_ids ?s) \<subseteq> set (call_ids s')" "exchange_bytes ?s \<le> exchange_bytes s'"
    using s' by (auto simp: claimed_def)
  have count: "call_count s' = length (call_ids s') \<and> call_count s' \<le> MAX_BROKER_CALLS
    \<and> exchange_bytes s' \<le> MAX_BROKER_EXCHANGE_BYTES"
    using s' parts by (auto simp: claimed_def)
  have "budget_inv (h\<lparr>host_session := s', host_broker := b'\<rparr>) (out @ [(q, stamp, r)])"
    using count same parts m(4,5) by (auto simp: budget_inv_def Let_def)
  moreover have "rights_inv b0 s0 (h\<lparr>host_session := s', host_broker := b'\<rparr>) (out @ [(q, stamp, r)])"
    using same parts m(1-3) log(3) by (auto simp: rights_inv_def denied_def)
  moreover have "events_inv bus0 s0 (h\<lparr>host_session := s', host_broker := b'\<rparr>) (out @ [(q, stamp, r)])"
    using same parts m(4) by (simp add: events_inv_def emitted_def)
  moreover have "audit_inv b0 (h\<lparr>host_session := s', host_broker := b'\<rparr>) (out @ [(q, stamp, r)])"
    using log by (simp add: audit_inv_def)
  ultimately show ?thesis by (simp add: session_inv_def)
qed

lemma arrive_admitted:
  assumes inv: "session_inv b0 s0 bus0 (h, out)" and q: "valid_broker_request q"
    and admit: "admit q (host_session h, host_broker h) = ((s', b'), Admitted sv a)"
  shows "session_inv b0 s0 bus0 (h\<lparr>host_session := s', host_broker := b', host_calls := host_calls h @ [(q, sv, a)]\<rparr>, out)"
proof -
  let ?s = "host_session h"
  note parts = inv [unfolded session_inv_def budget_inv_def rights_inv_def events_inv_def audit_inv_def Let_def, simplified]
  from admit_admitted [OF admit q] parts have
    s': "claimed q (request_bytes q) ?s s'" and b': "b' = host_broker h" and ok: "pending_ok (host_broker h) ?s (q, sv, a)"
    by blast+
  from ok parts have ok: "pending_ok b0 s0 (q, sv, a)" by (simp add: pending_ok_def authorized_def)
  let ?h = "h\<lparr>host_session := s', host_broker := b', host_calls := host_calls h @ [(q, sv, a)]\<rparr>"
  have "budget_inv ?h out"
    using s' parts by (auto simp: budget_inv_def Let_def claimed_def)
  moreover have "rights_inv b0 s0 ?h out"
    using s' parts ok b' by (simp add: rights_inv_def claimed_def)
  moreover have "events_inv bus0 s0 ?h out" using s' parts by (simp add: events_inv_def claimed_def)
  moreover have "audit_inv b0 ?h out" using b' parts by (simp add: audit_inv_def)
  ultimately show ?thesis by (simp add: session_inv_def)
qed

lemma settle_cases:
  assumes "settle q a stamp x (s, b) = ((s', b'), r)" and "valid_broker_request q" and "a = argument_bytes q"
    and ok: "\<forall>e. x = DeniedWith e \<longrightarrow> error_code e"
  obtains (refused) err where "s' = s" "refused_by q err b b' r"
  | (accepted) v n evs s1 where "plugin_json v 0 = Inr ()" "n = usize (json_dumps v)" "charged n s s1"
      "staged stamp (ss_plugin s) q = Some evs" "s' = s1\<lparr>outbox := outbox s @ evs\<rparr>"
      "b' = record_plugin_decision q True (u ''allowed'') (argument_bytes q) b" "r = Inr (accepted q v)"
  | (escaped) n where "charged n s s'" "staged stamp (ss_plugin s) q = None" "b' = b" "r = Inl MissingKey"
proof (cases x)
  case (Returned v)
  with assms(1) have "settle_result q a stamp v (s, b) = ((s', b'), r)" by (simp add: settle_def)
  from this assms(2,3) show ?thesis
  proof (cases rule: settle_result_cases)
    case (accepted n evs s1)
    then show ?thesis by (rule that(2))
  next
    case (refused err)
    then show ?thesis by (rule that(1))
  next
    case (escaped n)
    then show ?thesis by (rule that(3))
  qed
next
  case (DeniedWith e)
  with assms have "refuse q e (argument_bytes q) s b = ((s', b'), r)" by (simp add: settle_def)
  from refuse_refused [OF assms(2) _ this] refused ok DeniedWith show ?thesis by blast
next
  case Overflowed
  with assms have "refuse q (u ''payload_too_large'') (argument_bytes q) s b = ((s', b'), r)" by (simp add: settle_def)
  from refuse_refused [OF assms(2) _ this] refused reasons show ?thesis by blast
next
  case BadProtocol
  with assms have "refuse q (u ''invalid_arguments'') (argument_bytes q) s b = ((s', b'), r)" by (simp add: settle_def)
  from refuse_refused [OF assms(2) _ this] refused reasons show ?thesis by blast
next
  case HandlerFailed
  with assms have "refuse q (u ''handler_failed'') (argument_bytes q) s b = ((s', b'), r)" by (simp add: settle_def)
  from refuse_refused [OF assms(2) _ this] refused reasons show ?thesis by blast
qed

text \<open>The second section of a pending call; \<open>ps\<close> and \<open>ts\<close> are the other calls.\<close>

lemma call_finish_inv:
  assumes inv: "session_inv b0 s0 bus0 (h, out)" and calls: "host_calls h = ps @ (q, sv, a) # ts"
    and settle: "settle q a stamp (serve flt (host_broker h) file answer sv q) (host_session h, host_broker h) = ((s', b'), r)"
  shows "session_inv b0 s0 bus0 (h\<lparr>host_session := s', host_broker := b', host_calls := ps @ ts\<rparr>, out @ [(q, stamp, r)])"
proof -
  let ?s = "host_session h" and ?h = "h\<lparr>host_session := s', host_broker := b', host_calls := ps @ ts\<rparr>"
  let ?out = "out @ [(q, stamp, r)]"
  note parts = inv [unfolded session_inv_def budget_inv_def rights_inv_def events_inv_def audit_inv_def Let_def, simplified]
  from parts calls have pending: "pending_ok b0 s0 (q, sv, a)" by simp
  then have q: "valid_broker_request q" and a: "a = argument_bytes q" and sv: "service_ok sv" and auth: "authorized b0 s0 q"
    and sizes: "request_sizes q \<noteq> None"
    by (simp_all add: pending_ok_def)
  have plugin: "ss_plugin ?s = ss_plugin s0" using parts by simp
  have "\<forall>e. serve flt (host_broker h) file answer sv q = DeniedWith e \<longrightarrow> error_code e"
    using serve_denies [OF _ sv] by blast
  from settle q a this show ?thesis
  proof (cases rule: settle_cases)
    case (refused err)
    from refused_valid [OF refused(2) q, of stamp] obtain m where m: "r = Inr m" "m = denied q err" "valid_broker_result m"
      "\<not> allowed_reply (q, stamp, r)" "charge (q, stamp, r) = 0" by blast
    from refused_audit [OF refused(2), of _ _ _ stamp] parts have log: "audit_limit b' = audit_limit b0"
      "audit b' = dq_extend (audit_limit b0) (audit b0) (concat (map verdict out) @ verdict (q, stamp, r))"
      "broker_grants b' = broker_grants b0" by auto
    have "budget_inv ?h ?out" using parts calls m(4,5) refused(1) by (auto simp: budget_inv_def Let_def)
    moreover have "rights_inv b0 s0 ?h ?out"
      using parts calls m(1-3) log(3) refused(1) by (auto simp: rights_inv_def denied_def)
    moreover have "events_inv bus0 s0 ?h ?out" using parts m(4) refused(1) by (simp add: events_inv_def emitted_def)
    moreover have "audit_inv b0 ?h ?out" using log by (simp add: audit_inv_def)
    ultimately show ?thesis by (simp add: session_inv_def)
  next
    case (accepted v n evs s1)
    have reply: "allowed_reply (q, stamp, r)" "charge (q, stamp, r) = request_bytes q + n"
      using accepted(2,7) by (simp_all add: allowed_reply_def charge_def accepted_def dumps_freeze)
    have m: "valid_broker_result (accepted q v)" "bs_allowed (accepted q v)"
      using q accepted(1) by (simp_all add: accepted_def valid_broker_request_def valid_broker_result_def result_error_ok_def
          plugin_json_freeze)
    have "budget_inv ?h ?out"
      using parts calls reply accepted(3,5) by (auto simp: budget_inv_def Let_def charged_def)
    moreover have "rights_inv b0 s0 ?h ?out"
      using parts calls m accepted(3-7) plugin q auth sizes by (auto simp: rights_inv_def charged_def record_plugin_decision_def)
    moreover have "events_inv bus0 s0 ?h ?out"
      using parts reply accepted(3-5) plugin by (simp add: events_inv_def emitted_def charged_def)
    moreover have "audit_inv b0 ?h ?out"
      using parts accepted(6,7) by (simp add: audit_inv_def record_plugin_decision_def verdict_def dq_extend_snoc accepted_def)
    ultimately show ?thesis by (simp add: session_inv_def)
  next
    case (escaped n)
    have reply: "\<not> allowed_reply (q, stamp, r)" "charge (q, stamp, r) = 0" "verdict (q, stamp, r) = []"
      using escaped(4) by (simp_all add: allowed_reply_def charge_def verdict_def)
    have "budget_inv ?h ?out"
      using parts calls reply escaped(1) by (auto simp: budget_inv_def Let_def charged_def)
    moreover have "rights_inv b0 s0 ?h ?out"
      using parts calls escaped plugin by (auto simp: rights_inv_def charged_def)
    moreover have "events_inv bus0 s0 ?h ?out" using parts reply escaped(1) by (simp add: events_inv_def emitted_def charged_def)
    moreover have "audit_inv b0 ?h ?out" using parts reply escaped(3) by (simp add: audit_inv_def)
    ultimately show ?thesis by (simp add: session_inv_def)
  qed
qed

lemma commit_inv:
  assumes inv: "session_inv b0 s0 bus0 (h, out)" and commit: "commit_events lock (host_session h, host_bus h) = Inr (ok, s', bus')"
  shows "session_inv b0 s0 bus0 (h\<lparr>host_session := s', host_bus := bus'\<rparr>, out)"
proof (cases "(s', bus') = (host_session h, host_bus h)")
  case True
  then show ?thesis using inv by simp
next
  case False
  let ?s = "host_session h"
  have "None \<notin> set (map Some (outbox ?s))" by auto
  with commit False have c: "\<not> aborted ?s" "\<not> committed ?s" "s' = ?s\<lparr>outbox := [], committed := True\<rparr>"
    "bus' = (host_bus h)\<lparr>history := dq_extend (max_history (host_bus h)) (history (host_bus h)) (outbox ?s)\<rparr>"
    by (auto simp: commit_events_def record_many_def Let_def comp_def result_simps split: if_splits lock_attempt.splits)
  note parts = inv [unfolded session_inv_def budget_inv_def rights_inv_def events_inv_def audit_inv_def Let_def, simplified]
  let ?h = "h\<lparr>host_session := s', host_bus := bus'\<rparr>"
  have "budget_inv ?h out" using parts c(3) by (simp add: budget_inv_def Let_def)
  moreover have "rights_inv b0 s0 ?h out" using parts c(3) by (simp add: rights_inv_def)
  moreover have "events_inv bus0 s0 ?h out" using parts c by (simp add: events_inv_def Let_def)
  moreover have "audit_inv b0 ?h out" using parts by (simp add: audit_inv_def)
  ultimately show ?thesis by (simp add: session_inv_def)
qed

lemma abort_inv:
  "session_inv b0 s0 bus0 (h, out) \<Longrightarrow> session_inv b0 s0 bus0 (h\<lparr>host_session := abort_session (host_session h)\<rparr>, out)"
  by (simp add: session_inv_def budget_inv_def rights_inv_def events_inv_def audit_inv_def abort_session_def Let_def)

lemma renew_inv:
  assumes "session_inv b0 s0 bus0 (h, out)" and "begin_lifecycle p r perms g deadline (host_broker h) = Inr (s, b)"
  shows "session_inv b0 s0 bus0 (h\<lparr>host_broker := b\<rparr>, out)"
  using assms by (auto simp: session_inv_def budget_inv_def rights_inv_def events_inv_def audit_inv_def begin_lifecycle_def
      result_simps Let_def)

lemma session_step_inv:
  assumes "session_inv b0 s0 bus0 x" shows "session_inv b0 s0 bus0 (session_trace flt x l)"
proof -
  obtain h out where x: "x = (h, out)" by (cases x)
  note inv = assms [unfolded x]
  show ?thesis
  proof (cases l)
    case (Arrive rid cid pid cap args)
    show ?thesis
    proof (cases "PluginBrokerRequest rid cid pid cap args")
      case (Inl e)
      with inv show ?thesis by (simp add: session_trace_def x Arrive)
    next
      case (Inr q)
      then have q: "valid_broker_request q"
        by (auto simp: PluginBrokerRequest_Inr valid_broker_request_def plugin_json_freeze)
      obtain s b ad where adm: "admit q (host_session h, host_broker h) = ((s, b), ad)" by (metis surj_pair)
      show ?thesis
      proof (cases ad)
        case (Refused r)
        with arrive_refused [OF inv q] adm Inr show ?thesis by (simp add: session_trace_def x Arrive)
      next
        case (Admitted sv a)
        with arrive_admitted [OF inv q] adm Inr show ?thesis by (simp add: session_trace_def x Arrive)
      qed
    qed
  next
    case (Finish i cfg answer stamp)
    show ?thesis
    proof (cases "i < length (host_calls h)")
      case True
      obtain q sv a where c: "host_calls h ! i = (q, sv, a)" by (cases "host_calls h ! i")
      with True have calls: "host_calls h = take i (host_calls h) @ (q, sv, a) # drop (Suc i) (host_calls h)"
        by (metis id_take_nth_drop)
      obtain s b r where "settle q a stamp (serve flt (host_broker h) cfg answer sv q) (host_session h, host_broker h) = ((s, b), r)"
        by (metis surj_pair)
      with call_finish_inv [OF inv calls this] True c show ?thesis by (simp add: session_trace_def x Finish)
    qed (use inv in \<open>simp add: session_trace_def x Finish\<close>)
  next
    case (Commit lock)
    show ?thesis
    proof (cases "commit_events lock (host_session h, host_bus h)")
      case (Inr y)
      obtain ok s bus where y: "y = (ok, s, bus)" by (cases y)
      with commit_inv [OF inv] Inr show ?thesis by (simp add: session_trace_def x Commit)
    qed (use inv in \<open>simp add: session_trace_def x Commit\<close>)
  next
    case Abort
    then show ?thesis using abort_inv [OF inv] by (simp add: session_trace_def x)
  next
    case (Renew r perms g deadline)
    show ?thesis
    proof (cases "begin_lifecycle (ss_plugin (host_session h)) r perms g deadline (host_broker h)")
      case (Inr y)
      obtain s b where y: "y = (s, b)" by (cases y)
      with renew_inv [OF inv] Inr show ?thesis by (simp add: session_trace_def x Renew)
    qed (use inv in \<open>simp add: session_trace_def x Renew\<close>)
  qed
qed

interpretation broker_session: guarded_machine "session_trace flt" "session_inv b0 s0 bus0" for flt b0 s0 bus0
  by unfold_locales (rule session_step_inv)

text \<open>A session as \<open>begin_lifecycle\<close> gives it.\<close>

definition opened :: "session \<Rightarrow> plugin_broker \<Rightarrow> ('cb, pyval) bus \<Rightarrow> 'cb host" where
  "opened s b bus = \<lparr>host_session = s, host_broker = b, host_bus = bus, host_calls = []\<rparr>"

lemma opened_inv:
  assumes "begin_lifecycle p r perms g deadline b = Inr (s0, b0)" shows "session_inv b0 s0 bus (opened s0 b0 bus, [])"
  using assms by (auto simp: opened_def session_inv_def budget_inv_def rights_inv_def events_inv_def audit_inv_def begin_lifecycle_def
      result_simps Let_def MAX_BROKER_CALLS_def emitted_def dq_extend_def)

lemma session_run_inv:
  assumes "begin_lifecycle p r perms g deadline b = Inr (s0, b0)" and "session_run flt (opened s0 b0 bus) ls = (h, out)"
  shows "session_inv b0 s0 bus (h, out)"
  using broker_session.run_inv [OF opened_inv [OF assms(1), of bus], where flt = flt and xs = ls] assms(2) by (simp add: session_run_def)

section \<open>The line of an answer\<close>

lemma key_sizes:
  "usize (json_string (u ''protocol_version'')) = 18" "usize (json_string (u ''kind'')) = 6"
  "usize (json_string (u ''request_id'')) = 12" "usize (json_string (u ''call_id'')) = 9"
  "usize (json_string (u ''plugin_id'')) = 11" "usize (json_string (u ''capability'')) = 12"
  "usize (json_string (u ''arguments'')) = 11" "usize (json_string (u ''allowed'')) = 9"
  "usize (json_string (u ''result'')) = 8" "usize (json_string (u ''error'')) = 7"
  "usize (json_string (u ''broker_request'')) = 16" "usize (json_string (u ''broker_result'')) = 15"
  "usize (json_string []) = 2" "usize (json_dumps (PInt PLUGIN_WORKER_PROTOCOL_VERSION)) = 1" "usize (json_dumps (PBool True)) = 4"
  by code_simp+

lemma request_text_size:
  "usize (json_dumps (broker_request_to_dict q)) = 111 + usize (json_string (br_request q)) + usize (json_string (br_call q))
     + usize (json_string (br_plugin q)) + usize (json_string (br_capability q)) + usize (json_dumps (br_arguments q))"
  unfolding broker_request_to_dict_def usize_dumps_dict
  by (simp add: key_text_def dumps_thaw key_sizes del: json_dumps.simps(3) json_dumps.simps(6-8))

lemma answer_text_size:
  assumes "bs_allowed m" and "bs_error m = []"
  shows "usize (json_dumps (broker_result_to_dict m)) = 119 + usize (json_string (bs_request m)) + usize (json_string (bs_call m))
     + usize (json_string (bs_plugin m)) + usize (json_dumps (bs_result m))"
  unfolding broker_result_to_dict_def usize_dumps_dict
  by (simp add: assms key_text_def dumps_thaw key_sizes del: json_dumps.simps(2,3) json_dumps.simps(6-8))

lemma capability_size:
  assumes "map_of MANIFEST_PERMISSION_BY_CAPABILITY c = Some p" shows "10 \<le> usize (json_string c)"
proof -
  have "list_all (\<lambda>(c, _). 10 \<le> usize (json_string c)) MANIFEST_PERMISSION_BY_CAPABILITY" by code_simp
  with map_of_SomeD [OF assms] show ?thesis by (auto simp: list_all_iff)
qed

lemma request_sizes_Some:
  "request_sizes q = Some (a, d) \<Longrightarrow> a = usize (json_dumps (br_arguments q)) \<and> d = usize (json_dumps (broker_request_to_dict q))"
  by (auto simp: request_sizes_def plugin_bytes_def result_simps dumps_thaw split: sum.splits)

lemma answer_is_shorter:
  assumes "authorized b s q" and "request_sizes q \<noteq> None" and "m = accepted q v"
    and "request_bytes q + usize (json_dumps (bs_result m)) \<le> MAX_BROKER_EXCHANGE_BYTES"
  shows "usize (json_dumps (broker_result_to_dict m)) + 1 \<le> MAX_PLUGIN_WORKER_LINE_BYTES"
proof -
  from assms(2) obtain a d where sizes: "request_sizes q = Some (a, d)" by auto
  from assms(1) obtain x where "br_arguments q = PDict x" by (cases "br_arguments q") (auto simp: authorized_def)
  then have "2 \<le> usize (json_dumps (br_arguments q))" by (simp only: usize_dumps_dict)
  moreover have "10 \<le> usize (json_string (br_capability q))" using assms(1) capability_size by (auto simp: authorized_def)
  moreover have "request_bytes q = usize (json_dumps (broker_request_to_dict q))"
    using request_sizes_Some [OF sizes] sizes by (simp add: request_bytes_def)
  moreover have "usize (json_dumps (broker_result_to_dict m)) = 119 + usize (json_string (br_request q))
      + usize (json_string (br_call q)) + usize (json_string (br_plugin q)) + usize (json_dumps (bs_result m))"
    using answer_text_size [of m] assms(3) by (simp add: accepted_def)
  ultimately show ?thesis using assms(4) request_text_size [of q]
    by (simp add: MAX_BROKER_EXCHANGE_BYTES_def MAX_PLUGIN_WORKER_LINE_BYTES_def)
qed

lemma error_code_encodable: "error_code s \<Longrightarrow> encodable s"
proof (cases s)
  case (Cons c cs)
  assume "error_code s"
  then have "ascii_lower c" "\<forall>x\<in>set cs. ascii_lower x \<or> ascii_digit x \<or> x = 95"
    by (simp_all add: error_code_def Cons list_all_iff)
  then have "\<forall>x\<in>set s. x < 128" by (auto simp: Cons ascii_lower_def ascii_digit_def)
  then show ?thesis using usize_ascii by blast
qed simp

lemma answer_strings:
  assumes "valid_broker_result m"
  shows "encodable (bs_request m)" "encodable (bs_call m)" "encodable (bs_plugin m)" "encodable (bs_error m)"
  using assms error_code_encodable
  by (auto simp: valid_broker_result_def result_error_ok_def plugin_identifier_encodable split: if_splits)

text \<open>The envelope of an answer is accepted with the result one level deeper.\<close>

lemma answer_json:
  "valid_broker_result m \<Longrightarrow> plugin_json (broker_result_to_dict m) 0 = Inr () \<longleftrightarrow> plugin_json (bs_result m) 1 = Inr ()"
  by (simp add: answer_strings broker_result_to_dict_def plugin_json_dict plugin_json_thaw at_depth_Inr require_utf8_string_def
      result_simps PLUGIN_WORKER_PROTOCOL_VERSION_def require_bounded_integer_def small_bounded
      MAX_PLUGIN_WORKER_JSON_DEPTH_def del: plugin_json.simps(6-8) thaw.simps)

lemma dumps_dict_encodable:
  "encodable (json_dumps (PDict d)) \<longleftrightarrow> (\<forall>(k, v)\<in>set d. encodable (key_text k) \<and> encodable (json_dumps v))"
  unfolding dumps_dict by (auto simp: is_surrogate_def member_text_def)

lemma answer_encodable:
  assumes "valid_broker_result m" and "encodable (json_dumps (bs_result m))"
  shows "encodable (json_dumps (broker_result_to_dict m))"
  unfolding broker_result_to_dict_def dumps_dict_encodable
  using answer_strings [OF assms(1)] assms(2) by (simp add: key_text_def dumps_thaw del: json_dumps.simps(6-8) thaw.simps)

section \<open>Properties\<close>

text \<open>
  C10: In every interleaving of calls, commits, aborts and newer lifecycles, a session lets at most 32
  calls through, each call identifier at most once, and the requests and results of the calls it allows
  are together at most 65536 bytes.
\<close>

theorem session_within_budgets:
  assumes "begin_lifecycle p r perms g deadline b = Inr (s0, b0)" and "session_run flt (opened s0 b0 bus) ls = (h, out)"
  shows "length (filter allowed_reply out) \<le> MAX_BROKER_CALLS \<and> distinct (map (br_call \<circ> fst) (filter allowed_reply out))
     \<and> sum_list (map charge out) \<le> MAX_BROKER_EXCHANGE_BYTES"
proof -
  let ?ids = "map (br_call \<circ> fst) (filter allowed_reply out)"
  from session_run_inv [OF assms] have inv: "budget_inv h out" by (simp add: session_inv_def)
  then have d: "distinct ?ids" and sub: "set ?ids \<subseteq> set (call_ids (host_session h))" by (auto simp: budget_inv_def Let_def)
  have "length ?ids = card (set ?ids)" using d by (simp only: distinct_card)
  also have "\<dots> \<le> length (call_ids (host_session h))" using card_mono [OF _ sub] card_length le_trans by blast
  finally show ?thesis using inv d by (auto simp: budget_inv_def Let_def)
qed

text \<open>
  C11: The events of the allowed calls reach the bus all together and once, in the order in which the calls were
  allowed, when the session is committed; otherwise the session leaves the bus as it was, and an
  abort before the commit discards them.
\<close>

theorem events_recorded_exactly_once:
  assumes "begin_lifecycle p r perms g deadline b = Inr (s0, b0)" and "session_run flt (opened s0 b0 bus) ls = (h, out)"
  shows "host_bus h = bus\<lparr>history := (if committed (host_session h)
       then dq_extend (max_history bus) (history bus) (emitted p out) else history bus)\<rparr> \<and>
     outbox (host_session h) = (if aborted (host_session h) \<or> committed (host_session h) then [] else emitted p out)"
proof -
  from assms(1) have "ss_plugin s0 = p" by (auto simp: begin_lifecycle_def result_simps)
  with session_run_inv [OF assms] show ?thesis by (simp add: session_inv_def events_inv_def Let_def)
qed

text \<open>
  Every allowed call is of this lifecycle and of a capability whose permission the plugin declared and
  that the host granted it.
\<close>

theorem allowed_calls_authorized:
  assumes "begin_lifecycle p r perms g deadline b = Inr (s0, b0)" and "session_run flt (opened s0 b0 bus) ls = (h, out)"
    and "(q, stamp, Inr m) \<in> set out" and "bs_allowed m"
  shows "br_plugin q = p \<and> br_request q = r \<and> bs_call m = br_call q
     \<and> (\<exists>perm. map_of MANIFEST_PERMISSION_BY_CAPABILITY (br_capability q) = Some perm \<and> perm \<in> set perms)
     \<and> (\<exists>cs. map_of (broker_grants b) p = Some cs \<and> br_capability q \<in> set cs)"
proof -
  from assms(1) have s0: "ss_plugin s0 = p" "ss_request s0 = r" "ss_declared s0 = perms" "broker_grants b0 = broker_grants b"
    by (auto simp: begin_lifecycle_def result_simps)
  from session_run_inv [OF assms(1,2)] assms(3,4) have "authorized b0 s0 q" "\<exists>v. m = accepted q v"
    by (auto simp: session_inv_def rights_inv_def list_all_iff)
  with s0 show ?thesis by (auto simp: authorized_def accepted_def)
qed

text \<open>
  The audit log has one entry for every answered call, in order, with the decision, its reason and
  the size of the arguments, as far as its limit reaches back.
\<close>

theorem audit_has_newest_verdicts:
  assumes "begin_lifecycle p r perms g deadline b = Inr (s0, b0)" and "session_run flt (opened s0 b0 bus) ls = (h, out)"
    and "length (audit b) \<le> audit_limit b"
  shows "audit (host_broker h) = lastn (audit_limit b) (audit b @ concat (map verdict out))"
proof -
  from assms(1) have "audit b0 = audit b" "audit_limit b0 = audit_limit b" by (auto simp: begin_lifecycle_def result_simps)
  with session_run_inv [OF assms(1,2)] have "audit (host_broker h) = dq_extend (audit_limit b) (audit b) (concat (map verdict out))"
    by (simp add: session_inv_def audit_inv_def)
  with dq_extend_lastn [of "audit_limit b" "audit b"] lastn_short [OF assms(3)] show ?thesis by simp
qed

text \<open>
  C12: The answer of an allowed call always fits its line, since the request it answers is longer than its
  envelope; it can be encoded exactly when its result stays one level below the bound on nesting. (A float has an ASCII text.)
\<close>

theorem allowed_answer_fits_its_line:
  assumes "begin_lifecycle p r perms g deadline b = Inr (s0, b0)" and "session_run flt (opened s0 b0 bus) ls = (h, out)"
    and "(q, stamp, Inr m) \<in> set out" and "bs_allowed m" and "encodable (json_dumps (bs_result m))"
  shows "usize (json_dumps (broker_result_to_dict m)) + 1 \<le> MAX_PLUGIN_WORKER_LINE_BYTES
     \<and> ((\<exists>line. encode_message (BrokerResult m) = Inr line) \<longleftrightarrow> plugin_json (bs_result m) 1 = Inr ())"
proof -
  note inv = session_run_inv [OF assms(1,2)]
  from inv assms(3,4) obtain v where q: "authorized b0 s0 q" "request_sizes q \<noteq> None" "m = accepted q v" "valid_broker_result m"
    by (fastforce simp: session_inv_def rights_inv_def list_all_iff)
  from assms(3,4) have "charge (q, stamp, Inr m) \<le> sum_list (map charge out)"
    by (intro member_le_sum_list) force+
  also have "\<dots> \<le> MAX_BROKER_EXCHANGE_BYTES" using inv by (auto simp: session_inv_def budget_inv_def Let_def)
  finally have "request_bytes q + usize (json_dumps (bs_result m)) \<le> MAX_BROKER_EXCHANGE_BYTES"
    using assms(4) by (simp add: charge_def)
  from answer_is_shorter [OF q(1-3) this] answer_json [OF q(4)] answer_encodable [OF q(4) assms(5)] show ?thesis
    by (simp add: encode_Inr)
qed

text \<open>
  C13: An event without a payload passes the handler, since a missing payload is read as \<open>None\<close>, and then
  the \<open>KeyError\<close> of the missing key leaves \<open>handle\<close>: the exchange is charged, but the worker has no answer
  and the log no entry.
\<close>

theorem emit_without_payload_escapes:
  assumes "br_capability q = u ''event.emit''" and "br_arguments q = PDict args"
    and "field args ''event_type'' = Some (PStr t)" and "plugin_event_type t" and "field args ''payload'' = None"
    and "\<not> aborted s" and "\<not> committed s" and "exchange_bytes s + 18 \<le> MAX_BROKER_EXCHANGE_BYTES"
  shows "settle q a stamp (serve flt b file answer (Handled EmitHandler) q) (s, b)
    = ((s\<lparr>exchange_bytes := exchange_bytes s + 18\<rparr>, b), Inl MissingKey)"
proof -
  have "plugin_size (PDict [(PStr (u ''published''), PBool True)]) (int MAX_BROKER_EXCHANGE_BYTES) = Inr 18" by code_simp
  moreover have "plugin_bytes PNone = Inr (u ''null'')" by code_simp
  moreover have "usize (u ''null'') = 4" by code_simp
  ultimately show ?thesis using assms
    by (simp add: settle_def serve_def emit_plugin_event_def get_default_def settle_result_def event_of_def
        MAX_PLUGIN_EVENT_PAYLOAD_BYTES_def MAX_BROKER_EXCHANGE_BYTES_def)
qed

section \<open>A session evaluated\<close>

definition granted_broker :: plugin_broker where
  "granted_broker = \<lparr>broker_grants = [(u ''p1'', [u ''event.emit''])], handlers = [(u ''event.emit'', EmitHandler)], rooted_enabled = [],
     file_roots = [], llm_provider = False, network_hosts = [], audit_limit = 4, audit = [], generations = []\<rparr>"

definition begun_session :: session where
  "begun_session = \<lparr>ss_plugin = u ''p1'', ss_request = u ''r1'', ss_declared = [u ''event_bus''], ss_generation = 1, call_ids = [],
     call_count = 0, exchange_bytes = 0, outbox = [], aborted = False, committed = False\<rparr>"

definition begun_broker :: plugin_broker where
  "begun_broker = granted_broker\<lparr>generations := [(u ''p1'', 1)]\<rparr>"

definition small_bus :: "(unit, pyval) bus" where
  "small_bus = \<lparr>history = [], max_history = 5, subscribers = [], sub_id_counter = 0\<rparr>"

definition emit_arguments :: pyval where
  "emit_arguments = PDict [(PStr (u ''event_type''), PStr (u ''plugin.up'')), (PStr (u ''payload''), PStr (u ''x''))]"

definition emit_request :: broker_request where
  "emit_request = \<lparr>br_request = u ''r1'', br_call = u ''c1'', br_plugin = u ''p1'', br_capability = u ''event.emit'',
     br_arguments = emit_arguments\<rparr>"

definition emit_labels :: "session_label list" where
  "emit_labels = [Arrive (PStr (u ''r1'')) (PStr (u ''c1'')) (PStr (u ''p1'')) (PStr (u ''event.emit'')) emit_arguments,
     Finish 0 NoConfig Broken ([48], [49]), Commit NoDeadline]"

definition emit_reply :: broker_result where
  "emit_reply = accepted emit_request (PDict [(PStr (u ''published''), PBool True)])"

definition emit_event :: "pyval event" where
  "emit_event = \<lparr>event_type = u ''plugin.up'', ev_source = u ''plugin:p1'', ev_data = PStr (u ''x''), timestamp = [48], correlation_id = [49]\<rparr>"

lemma demo_begins: "begin_lifecycle (u ''p1'') (u ''r1'') [u ''event_bus''] 1 PNone granted_broker = Inr (begun_session, begun_broker)"
  by code_simp

lemma demo_valid: "valid_broker_request emit_request"
proof -
  have "plugin_json emit_arguments 0 = Inr ()" by code_simp
  moreover have "list_all plugin_identifier [u ''r1'', u ''c1'', u ''p1'', u ''event.emit'']" by code_simp
  ultimately show ?thesis by (simp add: valid_broker_request_def emit_request_def)
qed

lemma demo_frozen: "freeze emit_arguments = emit_arguments" by code_simp

lemma demo_arrives:
  "PluginBrokerRequest (PStr (u ''r1'')) (PStr (u ''c1'')) (PStr (u ''p1'')) (PStr (u ''event.emit'')) emit_arguments = Inr emit_request"
  using demo_valid demo_frozen by (simp add: PluginBrokerRequest_Inr valid_broker_request_def emit_request_def)

lemma emit_sizes: "request_sizes emit_request = Some (40, 175)"
proof -
  let ?d = "broker_request_to_dict emit_request"
  have "plugin_json emit_arguments 0 = Inr ()" "plugin_json emit_arguments 1 = Inr ()" by code_simp+
  then have "plugin_json ?d 0 = Inr ()"
    by (simp add: emit_request_def broker_request_to_dict_def PLUGIN_WORKER_PROTOCOL_VERSION_def plugin_json_dict plugin_json_thaw
      at_depth_Inr small_bounded require_bounded_integer_def ensure_def require_utf8_string_def
      MAX_PLUGIN_WORKER_JSON_DEPTH_def del: plugin_json.simps(6-8) thaw.simps)
  moreover have "encodable (json_dumps ?d)" "usize (json_dumps ?d) = 175" by code_simp+
  ultimately have "\<exists>t. plugin_bytes ?d = Inr t \<and> usize t = 175"
    by (simp add: plugin_bytes_def require_utf8_string_def dumps_thaw ensure_def)
  moreover have "plugin_bytes emit_arguments = Inr (json_dumps emit_arguments)" "usize (json_dumps emit_arguments) = 40"
    by code_simp+
  ultimately show ?thesis by (auto simp: request_sizes_def emit_request_def)
qed

definition admitted_session :: session where
  "admitted_session = begun_session\<lparr>call_ids := [u ''c1''], call_count := 1, exchange_bytes := 175\<rparr>"

definition settled_session :: session where
  "settled_session = admitted_session\<lparr>exchange_bytes := 193, outbox := [emit_event]\<rparr>"

definition settled_broker :: plugin_broker where
  "settled_broker = record_plugin_decision emit_request True (u ''allowed'') 40 begun_broker"

lemma demo_admits:
  "admit emit_request (begun_session, begun_broker) = ((admitted_session, begun_broker), Admitted (Handled EmitHandler) 40)"
proof -
  have "claim_budget begun_broker emit_request 175 begun_session = (admitted_session, None)" by code_simp
  moreover have "authorize begun_broker admitted_session emit_request = Inr (Handled EmitHandler)" by code_simp
  ultimately show ?thesis by (simp add: admit_def emit_sizes)
qed

lemma demo_settles:
  "settle emit_request 40 ([48], [49]) (serve flt begun_broker NoConfig Broken (Handled EmitHandler) emit_request)
     (admitted_session, begun_broker) = ((settled_session, settled_broker), Inr emit_reply)"
proof -
  have "serve flt begun_broker NoConfig Broken (Handled EmitHandler) emit_request = Returned (PDict [(PStr (u ''published''), PBool True)])"
    by (simp add: serve_def) code_simp
  moreover have "settle_result emit_request 40 ([48], [49]) (PDict [(PStr (u ''published''), PBool True)])
     (admitted_session, begun_broker) = ((settled_session, settled_broker), Inr emit_reply)"
    by code_simp
  ultimately show ?thesis by (simp add: settle_def)
qed

lemma demo_commits:
  "commit_events NoDeadline (settled_session, small_bus) =
     Inr (True, settled_session\<lparr>outbox := [], committed := True\<rparr>, small_bus\<lparr>history := [emit_event]\<rparr>)"
  by code_simp

definition committed_host :: "unit host" where
  "committed_host = \<lparr>host_session = settled_session\<lparr>outbox := [], committed := True\<rparr>, host_broker = settled_broker,
     host_bus = small_bus\<lparr>history := [emit_event]\<rparr>, host_calls = []\<rparr>"

lemma emit_run:
  "session_run flt (opened begun_session begun_broker small_bus) emit_labels
     = (committed_host, [(emit_request, ([48], [49]), Inr emit_reply)])"
  by (simp add: session_run_def emit_labels_def session_trace_def opened_def demo_arrives demo_admits demo_settles demo_commits
      committed_host_def)

lemma session_within_budgets_witness: "193 \<le> MAX_BROKER_EXCHANGE_BYTES"
proof -
  have "charge (emit_request, ([48], [49]), Inr emit_reply) = 193"
    by (simp add: charge_def emit_reply_def request_bytes_def emit_sizes accepted_def) code_simp
  then show ?thesis using session_within_budgets [OF demo_begins emit_run] by simp
qed

lemma events_recorded_exactly_once_witness:
  "history (host_bus committed_host) = dq_extend 5 [] (emitted (u ''p1'') [(emit_request, ([48], [49]), Inr emit_reply)])"
  using events_recorded_exactly_once [OF demo_begins emit_run]
  by (simp add: committed_host_def small_bus_def)

lemma demo_reply_allowed: "bs_allowed emit_reply" by (simp add: emit_reply_def accepted_def)

lemma allowed_calls_authorized_witness: "\<exists>cs. map_of (broker_grants granted_broker) (u ''p1'') = Some cs \<and> u ''event.emit'' \<in> set cs"
  using allowed_calls_authorized [OF demo_begins emit_run _ demo_reply_allowed, of emit_request "([48], [49])"]
  by (simp add: emit_request_def)

lemma audit_has_newest_verdicts_witness:
  "audit settled_broker = lastn 4 (verdict (emit_request, ([48], [49]), Inr emit_reply))"
  using audit_has_newest_verdicts [OF demo_begins emit_run] by (simp add: committed_host_def granted_broker_def)

lemma allowed_answer_fits_its_line_witness: "\<exists>line. encode_message (BrokerResult emit_reply) = Inr line"
proof -
  have "encodable (json_dumps (bs_result emit_reply))" "plugin_json (bs_result emit_reply) 1 = Inr ()" by code_simp+
  then show ?thesis
    using allowed_answer_fits_its_line [OF demo_begins emit_run _ demo_reply_allowed, of emit_request "([48], [49])"] by simp
qed

lemma emit_without_payload_escapes_witness:
  "snd (settle (emit_request\<lparr>br_arguments := PDict [(PStr (u ''event_type''), PStr (u ''plugin.up''))]\<rparr>) 30 ([48], [49])
     (serve demo_float begun_broker NoConfig Broken (Handled EmitHandler)
       (emit_request\<lparr>br_arguments := PDict [(PStr (u ''event_type''), PStr (u ''plugin.up''))]\<rparr>)) (admitted_session, begun_broker))
   = Inl MissingKey"
proof -
  have "plugin_event_type (u ''plugin.up'')" by code_simp
  moreover have "u ''payload'' \<noteq> u ''event_type''" by code_simp
  ultimately show ?thesis
    using emit_without_payload_escapes [where q = "emit_request\<lparr>br_arguments := PDict [(PStr (u ''event_type''), PStr (u ''plugin.up''))]\<rparr>"
        and s = admitted_session and a = 30 and stamp = "([48], [49])" and flt = demo_float and b = begun_broker]
    by (simp add: emit_request_def admitted_session_def begun_session_def field_def MAX_BROKER_EXCHANGE_BYTES_def)
qed

end
