(* ===== verification/Spec2Isabelle.thy ===== *)
theory Spec2Isabelle
  imports Capability_Api Role_Dispatch Event_Bus Workflow_Dag Role_Registry Role_Tool_Loop Orchestrator_Runs Run_Lifecycle Plugin_Broker
begin

text \<open>
  A verification library for the Python core of the repository (\<open>src/core\<close>): the in-process
  event bus, the workflow engine, the roles with their tools and conversations with a model, the
  orchestrator of agents, the durable wire formats of worker tasks and runs, and the registry of
  capabilities.

  \<^bold>\<open>Parts, theories and code.\<close>

  \<^item> \<open>Prelude\<close>, \<open>Py_Value\<close>: results (\<open>'e + 'a\<close>, the left side the raised error) with \<open>bindr\<close>,
    \<open>ensure\<close> and \<open>need\<close>, dictionaries in insertion order, bounded logs, wire formats and guarded
    machines as locales; Python values as one datatype, strings as lists of code points.
  \<^item> \<open>Event_Bus\<close> (\<open>kernel/event_bus.py\<close>): the state is the list of subscriptions per event type,
    the wildcard list and the bounded history; one step per critical section of the lock.
  \<^item> \<open>Workflow_Dag\<close> (\<open>brain/workflow_dag.py\<close>): validation, Kahn layers, execution of the layers
    under both failure policies, the reader of JSON definitions.
  \<^item> \<open>Role_Registry\<close> (\<open>brain/role_registry.py\<close>): registration with the cycle walk and the
    resolution of inheritance.
  \<^item> \<open>Json_Text\<close> (\<open>contracts/bounded_json.py\<close> and the canonical encoding it measures), \<open>Role_Tool_Protocol\<close>
    (\<open>contracts/role_tool_protocol.py\<close>), \<open>Role_Tools\<close> (\<open>brain/role_tools.py\<close>), \<open>Role_Tool_Loop\<close>
    (\<open>brain/role_tool_loop.py\<close>): the values a model may send, the broker that decides and logs
    every call, and the bounded conversation above it.
  \<^item> \<open>Worker_Protocol\<close> (\<open>contracts/worker_protocol.py\<close>) and \<open>Run_State\<close> (\<open>contracts/run_state.py\<close>):
    immutable records whose constructors validate, their evolution and their dictionary forms.
  \<^item> \<open>Role_Supervisor\<close> (the supervisor of \<open>brain/role_worker.py\<close>), \<open>Role_Dispatch\<close>
    (\<open>brain/role_dispatch_service.py\<close>): worker processes with their records, waiters and monitors, and
    the leases per role above them, both as interleaved systems (\<open>sup_step\<close>, \<open>dispatch_step\<close>).
  \<^item> \<open>Context_Budget\<close> (\<open>brain/context_budget.py\<close>, \<open>contracts/context_budget.py\<close>): token counts, the ratio as
    the rounded double it is in the code, and the monitor that reports changes of level.
  \<^item> \<open>Secret_Redaction\<close> (\<open>kernel/secret_redaction.py\<close>): the patterns over a small engine of backtracking
    regular expressions, which finds exactly the texts of their language.
  \<^item> \<open>Resume_Document\<close> (\<open>brain/resume_document.py\<close> and the reader in \<open>app/run_lifecycle.py\<close>): rendering the
    recovery document of a run and reading its sections back.
  \<^item> \<open>Json_Loads\<close>: \<open>json.loads\<close> of the standard library as a recursive descent reader, and that it reads back
    both texts the code writes; its fuel is the length of the text, which is always enough (\<open>loads_fuel\<close>).
    \<open>Json_Members\<close> has the facts of written documents that the stores and protocols share.
  \<^item> \<open>Plugin_Worker_Protocol\<close> (\<open>contracts/plugin_worker_protocol.py\<close>): the messages between the host and a
    plugin worker and the codec of one canonical line per message.
  \<^item> \<open>Plugin_Broker\<close> (\<open>kernel/plugin_broker.py\<close>): what a worker may ask of the host; a call is two steps of its
    session, and calls, commits to the event bus and aborts interleave (\<open>session_step\<close>).
  \<^item> \<open>Run_Repository\<close> (\<open>adapters/file_run_state_repository.py\<close>): the store of the active run as a record of
    the disk, each operation with all the disk states it passes through.
  \<^item> \<open>Run_Lifecycle\<close> (\<open>app/run_lifecycle.py\<close>, \<open>adapters/git_workspace.py\<close>): the coordinator over a store whose
    laws are the locale \<open>run_store\<close>, which the repository provides; recovery, checkpoints, escalation.
  \<^item> \<open>Orchestrator\<close>, \<open>Orchestrator_Runs\<close> (\<open>brain/orchestrator.py\<close>): the operations of agents and
    orchestrator, and the interleaved system of dispatches and handler threads (\<open>sys_step\<close>).
  \<^item> \<open>Capability_Manifest\<close>, \<open>Capability_Resolver\<close>, \<open>Role_Tool_Catalog\<close>, \<open>Capability_Registry\<close>,
    \<open>Capability_Api\<close> (the files of the same names under \<open>kernel\<close> and \<open>contracts\<close>, and
    \<open>kernel/terminal_policy.py\<close>, \<open>kernel/runtime_security.py\<close>): capability records, ranking,
    discovery with its cache, and the checks of public requests.

  \<^bold>\<open>Conventions.\<close>  A frozen dataclass is a record and its \<open>__post_init__\<close> a constructor that
  returns a result; a characterisation \<open>..._Inr\<close> says exactly when it succeeds, a predicate
  \<open>valid_...\<close> names the well-formed records, and \<open>wire_format\<close> gives the round trip.  Code that
  holds a lock is one step; what other threads do between two sections are other steps.  Python
  integers are unbounded, so they stay \<open>int\<close> or \<open>nat\<close>; there is no fixed-width arithmetic in the
  modelled code.

  \<^bold>\<open>Parameters.\<close>  The clock, fresh identifiers, callbacks, handlers, child processes, the model
  service, the output of git, the file system's answers and hash functions are arguments of the
  definitions.  \<open>json.loads\<close> is an argument where it is used; \<open>Json_Loads\<close> defines it over the double of
  a literal, and \<open>python_reads_own\<close> discharges with it what the repository needs.  The ISO parser and
  the Unicode tables are arguments as well, with ASCII instances for the witnesses.  Deep copies of JSON values are taken as total.

  \<^bold>\<open>Termination.\<close>  Every loop of the modelled code is a total function: \<open>kahn\<close> and the cycle walk
  by measures on what is left, the conversation by its call budget, the retries by their number;
  the parent walk of \<open>get_role\<close> has no guard of its own and uses fuel, with the theorem that the
  size of the registry is enough.

  \<^bold>\<open>Not modelled.\<close>  Process, pipe, file, socket, SQL and sandbox plumbing, so also the file, network and statistics
  services behind the plugin broker, whose answers are arguments; the SDK that loads plugins; HTTP routes and the command
  line; the heuristic text compressor.
\<close>

end
